(* ===== verification/Prelude.thy ===== *)
theory Prelude
  imports Main "HOL-Library.Word" "HOL-Library.Multiset"
begin

text \<open>
  Shared vocabulary of the development: the machine integer types, the two ordered containers of
  the C++ standard library that the modelled code iterates over (\<open>std::multimap\<close> and \<open>std::map\<close> or
  \<open>std::set\<close>) as sorted association lists, and the locales that say what the components rely on.

  \<^item> \<open>mm_insert\<close> is \<open>std::multimap::insert\<close>: the new entry goes behind the entries with the same key.
  \<^item> \<open>om_set\<close>, \<open>om_del\<close> and \<open>map_of\<close> are assignment through \<open>operator[]\<close>, \<open>erase\<close> by key and \<open>find\<close>
    of an ordered map.
  \<^item> The locale \<open>keyed_store\<close> is the contract of the ordered map; \<open>om\<close> interprets it.
  \<^item> The locale \<open>ordered_bag\<close> is the contract of the multimap; \<open>mm\<close> interprets it.
  \<^item> The locale \<open>op_machine\<close> lifts an invariant of single operations to runs, \<open>safe_machine\<close> does so for
    operations that may be undefined and shows that no run is.
\<close>

unbundle bit_operations_syntax

type_synonym u8 = "8 word"
type_synonym u16 = "16 word"
type_synonym u32 = "32 word"
type_synonym u64 = "64 word"

named_theorems store_laws "lookup and membership laws of the ordered containers"
named_theorems keep_laws "operations keep the well-formedness of their component"

section \<open>Ordered association lists\<close>

abbreviation keys_sorted :: "('k::linorder \<times> 'v) list \<Rightarrow> bool" where
  "keys_sorted xs \<equiv> sorted (map fst xs)"

abbreviation keys_strict :: "('k::linorder \<times> 'v) list \<Rightarrow> bool" where
  "keys_strict xs \<equiv> sorted_wrt (<) (map fst xs)"

subsection \<open>The multimap\<close>

fun mm_insert :: "'k::linorder \<Rightarrow> 'v \<Rightarrow> ('k \<times> 'v) list \<Rightarrow> ('k \<times> 'v) list" where
  "mm_insert k v [] = [(k, v)]"
| "mm_insert k v ((k', v') # xs) =
     (if k < k' then (k, v) # (k', v') # xs else (k', v') # mm_insert k v xs)"

lemma mset_mm_insert [simp]: "mset (mm_insert k v xs) = add_mset (k, v) (mset xs)"
  by (induction k v xs rule: mm_insert.induct) auto

lemma set_mm_insert [simp]: "set (mm_insert k v xs) = insert (k, v) (set xs)"
  by (metis mset_mm_insert set_mset_add_mset_insert set_mset_mset)

lemma keys_sorted_mm_insert: "keys_sorted xs \<Longrightarrow> keys_sorted (mm_insert k v xs)"
  by (induction k v xs rule: mm_insert.induct) (auto simp: image_iff)

lemma mm_insert_not_Nil [simp]: "mm_insert k v xs \<noteq> []"
  by (cases "(k, v, xs)" rule: mm_insert.cases) auto

text \<open>Insertion keeps the relative order of the entries already there, whatever the filter.\<close>

lemma filter_mm_insert_neg: "\<not> P (k, v) \<Longrightarrow> filter P (mm_insert k v xs) = filter P xs"
  by (induction k v xs rule: mm_insert.induct) auto

lemma mm_insert_front: "\<forall>x \<in> set xs. k < fst x \<Longrightarrow> mm_insert k v xs = (k, v) # xs"
  by (cases xs) auto

lemma filter_mm_insert_pos:
  "keys_sorted xs \<Longrightarrow> P (k, v) \<Longrightarrow> filter P (mm_insert k v xs) = mm_insert k v (filter P xs)"
proof (induction k v xs rule: mm_insert.induct)
  case (2 k v k' v' xs)
  show ?case
  proof (cases "k < k'")
    case True
    with "2.prems"(1) have "\<forall>x \<in> set (filter P ((k', v') # xs)). k < fst x"
      by (auto intro: less_le_trans)
    then have "mm_insert k v (filter P ((k', v') # xs)) = (k, v) # filter P ((k', v') # xs)"
      by (rule mm_insert_front)
    with True "2.prems" show ?thesis by simp
  qed (use 2 in auto)
qed simp

text \<open>On a sorted store the new entry stands exactly between the keys up to its own and the rest.\<close>

lemma mm_insert_split:
  "keys_sorted xs \<Longrightarrow>
   mm_insert k v xs = filter (\<lambda>x. fst x \<le> k) xs @ (k, v) # filter (\<lambda>x. k < fst x) xs"
proof (induction k v xs rule: mm_insert.induct)
  case (2 k v k' v' xs)
  show ?case
  proof (cases "k < k'")
    case True
    with "2.prems" have all: "\<forall>x \<in> set ((k', v') # xs). k < fst x"
      by (auto intro: less_le_trans)
    then have "filter (\<lambda>x. fst x \<le> k) ((k', v') # xs) = []" by (fastforce simp: filter_empty_conv)
    moreover from all have "filter (\<lambda>x. k < fst x) ((k', v') # xs) = (k', v') # xs"
      by (simp add: filter_id_conv)
    ultimately show ?thesis using True by simp
  qed (use 2 in auto)
qed simp

subsection \<open>The ordered map\<close>

fun om_set :: "'k::linorder \<Rightarrow> 'v \<Rightarrow> ('k \<times> 'v) list \<Rightarrow> ('k \<times> 'v) list" where
  "om_set k v [] = [(k, v)]"
| "om_set k v ((k', v') # xs) =
     (if k < k' then (k, v) # (k', v') # xs
      else if k = k' then (k, v) # xs
      else (k', v') # om_set k v xs)"

definition om_del :: "'k \<Rightarrow> ('k \<times> 'v) list \<Rightarrow> ('k \<times> 'v) list" where
  "om_del k xs = filter (\<lambda>x. fst x \<noteq> k) xs"

lemma fst_set_om_set [simp]: "fst ` set (om_set k v xs) = insert k (fst ` set xs)"
  by (induction k v xs rule: om_set.induct) auto

lemma keys_strict_om_set: "keys_strict xs \<Longrightarrow> keys_strict (om_set k v xs)"
proof (induction k v xs rule: om_set.induct)
  case (2 k v k' v' xs)
  then have "\<forall>y \<in> fst ` set (om_set k v xs). y = k \<or> k' < y" by auto
  with 2 show ?case by (cases rule: linorder_cases [of k k']) fastforce+
qed simp

lemma map_of_om_set: "keys_strict xs \<Longrightarrow> map_of (om_set k v xs) = (map_of xs)(k \<mapsto> v)"
proof (induction k v xs rule: om_set.induct)
  case (2 k v k' v' xs)
  then show ?case by (cases rule: linorder_cases [of k k']) (auto simp: fun_upd_twist)
qed auto

lemma map_of_om_del: "map_of (om_del k xs) = (map_of xs)(k := None)"
  by (induction xs) (auto simp: om_del_def fun_eq_iff)

lemma keys_strict_filter: "keys_strict xs \<Longrightarrow> keys_strict (filter P xs)"
  by (induction xs) auto

lemma keys_strict_om_del: "keys_strict xs \<Longrightarrow> keys_strict (om_del k xs)"
  by (simp add: om_del_def keys_strict_filter)

lemma keys_strict_distinct: "keys_strict xs \<Longrightarrow> distinct (map fst xs)"
  by (simp add: strict_sorted_iff)

text \<open>An in-place change of the value found under a key: iterators write through.\<close>

definition om_upd :: "('v \<Rightarrow> 'v) \<Rightarrow> 'k \<Rightarrow> ('k \<times> 'v) list \<Rightarrow> ('k \<times> 'v) list" where
  "om_upd f k xs = map (\<lambda>(k', v). (k', if k' = k then f v else v)) xs"

lemma om_upd_keys [simp]: "map fst (om_upd f k xs) = map fst xs"
  by (induction xs) (auto simp: om_upd_def)

lemma map_of_om_upd:
  "map_of (om_upd f k xs) = (map_of xs)(k := map_option f (map_of xs k))"
  by (induction xs) (auto simp: om_upd_def fun_eq_iff)

lemma om_del_om_set: "map_of xs k = None \<Longrightarrow> om_del k (om_set k v xs) = xs"
proof (induction k v xs rule: om_set.induct)
  case (2 k v k' v' xs)
  then have "k \<noteq> k'" and "map_of xs k = None" by (auto split: if_splits)
  moreover from this(2) have "om_del k xs = xs"
    by (auto simp: om_del_def map_of_eq_None_iff filter_id_conv)
  ultimately show ?case using 2 by (auto simp: om_del_def)
qed (simp add: om_del_def)

lemma om_del_om_upd: "om_del k (om_upd f k xs) = om_del k xs"
  by (induction xs) (auto simp: om_del_def om_upd_def)

lemma map_of_keys_cong: "map fst xs = map fst ys \<Longrightarrow> (map_of xs k = None) = (map_of ys k = None)"
  by (metis list.set_map map_of_eq_None_iff)

section \<open>What the components rely on\<close>

text \<open>The contract of an ordered map: what a lookup returns after each operation.\<close>

locale keyed_store =
  fixes lookup :: "'m \<Rightarrow> 'k \<Rightarrow> 'v option"
    and store :: "'k \<Rightarrow> 'v \<Rightarrow> 'm \<Rightarrow> 'm"
    and drop_key :: "'k \<Rightarrow> 'm \<Rightarrow> 'm"
    and ok :: "'m \<Rightarrow> bool"
  assumes lookup_store: "ok m \<Longrightarrow> lookup (store k v m) = (lookup m)(k \<mapsto> v)"
    and lookup_drop: "ok m \<Longrightarrow> lookup (drop_key k m) = (lookup m)(k := None)"
    and ok_store: "ok m \<Longrightarrow> ok (store k v m)"
    and ok_drop: "ok m \<Longrightarrow> ok (drop_key k m)"
begin

lemma lookup_store_same: "ok m \<Longrightarrow> lookup (store k v m) k = Some v"
  by (simp add: lookup_store)

lemma lookup_store_other: "ok m \<Longrightarrow> j \<noteq> k \<Longrightarrow> lookup (store k v m) j = lookup m j"
  by (simp add: lookup_store)

lemma lookup_drop_same: "ok m \<Longrightarrow> lookup (drop_key k m) k = None"
  by (simp add: lookup_drop)

lemma lookup_drop_other: "ok m \<Longrightarrow> j \<noteq> k \<Longrightarrow> lookup (drop_key k m) j = lookup m j"
  by (simp add: lookup_drop)

lemma dom_store: "ok m \<Longrightarrow> dom (lookup (store k v m)) = insert k (dom (lookup m))"
  by (simp add: lookup_store)

lemma dom_drop: "ok m \<Longrightarrow> dom (lookup (drop_key k m)) = dom (lookup m) - {k}"
  by (simp add: lookup_drop)

lemma store_drop_lookup:
  "ok m \<Longrightarrow> lookup (drop_key k (store k v m)) = lookup (drop_key k m)"
  by (simp add: lookup_store lookup_drop ok_store)

end

interpretation om: keyed_store map_of om_set om_del keys_strict
  by unfold_locales (simp_all add: map_of_om_set map_of_om_del keys_strict_om_set keys_strict_om_del)

lemmas [store_laws] = om.lookup_store om.lookup_drop om.ok_store om.ok_drop

text \<open>
  The contract of a time-ordered bag: insertion keeps the order and the other entries, and an entry
  never overtakes one with the same key that was there before.
\<close>

locale ordered_bag =
  fixes put :: "'k::linorder \<Rightarrow> 'v \<Rightarrow> ('k \<times> 'v) list \<Rightarrow> ('k \<times> 'v) list"
  assumes mset_put: "mset (put k v xs) = add_mset (k, v) (mset xs)"
    and sorted_put: "keys_sorted xs \<Longrightarrow> keys_sorted (put k v xs)"
    and split_put: "keys_sorted xs \<Longrightarrow>
      put k v xs = filter (\<lambda>x. fst x \<le> k) xs @ (k, v) # filter (\<lambda>x. k < fst x) xs"
begin

lemma put_all_sorted:
  "keys_sorted ys \<Longrightarrow> keys_sorted (foldl (\<lambda>m (k, v). put k v m) ys xs)"
  by (induction xs arbitrary: ys) (auto simp: sorted_put)

lemma put_all_mset:
  "mset (foldl (\<lambda>m (k, v). put k v m) ys xs) = mset ys + mset xs"
  by (induction xs arbitrary: ys) (auto simp: mset_put)

lemma put_behind_equal:
  assumes "keys_sorted xs" and "(k, w) \<in> set xs"
  shows "\<exists>as bs cs. put k v xs = as @ (k, w) # bs @ (k, v) # cs"
proof -
  from assms(2) have "(k, w) \<in> set (filter (\<lambda>x. fst x \<le> k) xs)" by simp
  then obtain as bs where "filter (\<lambda>x. fst x \<le> k) xs = as @ (k, w) # bs"
    by (meson split_list)
  with split_put [OF assms(1)] show ?thesis by fastforce
qed

text \<open>Putting a sorted list of entries whose keys are behind the store appends it.\<close>

lemma put_last:
  assumes "keys_sorted xs" and "\<forall>x \<in> set xs. fst x \<le> k"
  shows "put k v xs = xs @ [(k, v)]"
proof -
  from assms(2) have "filter (\<lambda>x. fst x \<le> k) xs = xs" by (simp add: filter_id_conv)
  moreover from assms(2) have "filter (\<lambda>x. k < fst x) xs = []"
    by (auto simp: filter_empty_conv not_less)
  ultimately show ?thesis by (simp add: split_put [OF assms(1)])
qed

lemma put_all_append:
  "keys_sorted (ys @ xs) \<Longrightarrow> foldl (\<lambda>m (k, v). put k v m) ys xs = ys @ xs"
proof (induction xs arbitrary: ys)
  case (Cons x xs)
  obtain k v where x: "x = (k, v)" by (cases x)
  from Cons.prems have "put k v ys = ys @ [(k, v)]"
    by (intro put_last) (auto simp: x sorted_append)
  with Cons.IH [of "ys @ [(k, v)]"] Cons.prems show ?case by (simp add: x)
qed simp

end

interpretation mm: ordered_bag mm_insert
  by unfold_locales (fact mset_mm_insert keys_sorted_mm_insert mm_insert_split)+

text \<open>
  An invariant that every allowed operation keeps holds after every sequence of allowed operations.
\<close>

locale op_machine =
  fixes step :: "'s \<Rightarrow> 'e \<Rightarrow> 's" and allowed :: "'e \<Rightarrow> bool" and inv :: "'s \<Rightarrow> bool"
  assumes inv_step: "inv s \<Longrightarrow> allowed e \<Longrightarrow> inv (step s e)"
begin

lemma inv_run: "inv s \<Longrightarrow> \<forall>e \<in> set es. allowed e \<Longrightarrow> inv (foldl step s es)"
  by (induction es arbitrary: s) (auto simp: inv_step)

lemma inv_prefix: "inv s \<Longrightarrow> \<forall>e \<in> set es. allowed e \<Longrightarrow> inv (foldl step s (take n es))"
  by (rule inv_run) (auto dest: in_set_takeD)

end

text \<open>
  The same for operations that may be undefined (\<open>None\<close>): in a good state each is defined and leads to a
  good state, so every sequence of operations is defined.
\<close>

fun run_opt :: "('s \<Rightarrow> 'e \<Rightarrow> 's option) \<Rightarrow> 's \<Rightarrow> 'e list \<Rightarrow> 's option" where
  "run_opt step s [] = Some s"
| "run_opt step s (e # es) = Option.bind (step s e) (\<lambda>s'. run_opt step s' es)"

locale safe_machine =
  fixes step :: "'s \<Rightarrow> 'e \<Rightarrow> 's option" and inv :: "'s \<Rightarrow> bool"
  assumes safe_step: "inv s \<Longrightarrow> \<exists>s'. step s e = Some s' \<and> inv s'"
begin

lemma run_safe: "inv s \<Longrightarrow> \<exists>s'. run_opt step s es = Some s' \<and> inv s'"
proof (induction es arbitrary: s)
  case (Cons e es)
  with safe_step [of s e] show ?case by fastforce
qed simp

lemma run_append: "run_opt step s (es @ fs) = Option.bind (run_opt step s es) (\<lambda>s'. run_opt step s' fs)"
  by (induction es arbitrary: s) (simp_all add: Option.bind_assoc)

end

section \<open>Generic lemmas on lists and words\<close>

lemma sorted_map_shift: "keys_sorted xs \<Longrightarrow> keys_sorted (map (\<lambda>(t, d). (t + (c::int), d)) xs)"
  by (induction xs) auto

lemma keys_sorted_filter: "keys_sorted xs \<Longrightarrow> keys_sorted (filter P xs)"
  by (induction xs) auto

lemma filter_filter_conj: "filter P (filter Q xs) = filter (\<lambda>x. Q x \<and> P x) xs"
  by (induction xs) auto

lemma filter_foldl_mm_neg:
  "\<forall>x \<in> set xs. \<not> P x \<Longrightarrow> filter P (foldl (\<lambda>s (k, v). mm_insert k v s) s xs) = filter P s"
  by (induction xs arbitrary: s) (auto simp: filter_mm_insert_neg)

lemma filter_foldl_mm_pos:
  "keys_sorted s \<Longrightarrow> \<forall>x \<in> set xs. P x \<Longrightarrow>
   filter P (foldl (\<lambda>s (k, v). mm_insert k v s) s xs)
     = foldl (\<lambda>s (k, v). mm_insert k v s) (filter P s) xs"
  by (induction xs arbitrary: s) (auto simp: filter_mm_insert_pos mm.sorted_put)

lemma and_mask_test:
  "(w AND push_bit n 1 \<noteq> (0 :: 'a::len word)) = bit w n"
  by (metis and_exp_eq_0_iff_not_bit push_bit_of_1)

end
