(* ===== verification/EventMap.thy ===== *)
theory EventMap
  imports Prelude
begin

text \<open>
  \<open>src/src/common/Utilities/EventMap.h\<close> and \<open>EventMap.cpp\<close>: the timer every creature script uses.
  The record \<open>event_map\<close> has the five fields of the class. \<open>em_events\<close> is the \<open>std::multimap\<close> from
  the time an event is due to its data word 0xPPGGEEEE, \<open>em_series\<close> the \<open>std::map\<close> from a data word
  to its queue of further delays. A \<open>TimePoint\<close> counts nanoseconds from the clock's epoch and is an
  \<open>int\<close>; \<open>Milliseconds\<close> is an \<open>int\<close> too, and \<open>ms\<close> converts. The source's random draw
  \<open>randtime\<close> is a parameter.
\<close>

record event_map =
  em_time :: int
  em_phase :: u8
  em_events :: "(int \<times> u32) list"
  em_last :: u32
  em_series :: "(u32 \<times> int list) list"

definition ms :: "int \<Rightarrow> int" where
  "ms t = t * 1000000"

definition TimePoint_min :: int where
  "TimePoint_min = - (2 ^ 63)"

definition Milliseconds_max :: int where
  "Milliseconds_max = 2 ^ 63 - 1"

section \<open>Operations\<close>

definition EventMap_new :: event_map where
  "EventMap_new = \<lparr>em_time = TimePoint_min, em_phase = 0, em_events = [], em_last = 0, em_series = []\<rparr>"

definition em_Reset :: "event_map \<Rightarrow> event_map" where
  "em_Reset m = m\<lparr>em_events := [], em_time := TimePoint_min, em_phase := 0\<rparr>"

definition em_Update :: "int \<Rightarrow> event_map \<Rightarrow> event_map" where
  "em_Update t m = m\<lparr>em_time := em_time m + ms t\<rparr>"

definition em_GetPhaseMask :: "event_map \<Rightarrow> u8" where
  "em_GetPhaseMask m = em_phase m"

definition em_Empty :: "event_map \<Rightarrow> bool" where
  "em_Empty m \<longleftrightarrow> em_events m = []"

definition em_SetPhase :: "u8 \<Rightarrow> event_map \<Rightarrow> event_map" where
  "em_SetPhase p m =
     (if p = 0 then m\<lparr>em_phase := 0\<rparr>
      else if p \<le> 8 then m\<lparr>em_phase := push_bit (unat p - 1) 1\<rparr>
      else m)"

definition em_AddPhase :: "u8 \<Rightarrow> event_map \<Rightarrow> event_map" where
  "em_AddPhase p m =
     (if p \<noteq> 0 \<and> p \<le> 8 then m\<lparr>em_phase := em_phase m OR push_bit (unat p - 1) 1\<rparr> else m)"

definition em_RemovePhase :: "u8 \<Rightarrow> event_map \<Rightarrow> event_map" where
  "em_RemovePhase p m =
     (if p \<noteq> 0 \<and> p \<le> 8 then m\<lparr>em_phase := em_phase m AND NOT (push_bit (unat p - 1) 1)\<rparr> else m)"

definition em_IsInPhase :: "u8 \<Rightarrow> event_map \<Rightarrow> bool" where
  "em_IsInPhase p m \<longleftrightarrow>
     p \<le> 8 \<and> (p = 0 \<or> em_phase m AND push_bit (unat p - 1) 1 \<noteq> 0)"

text \<open>The packing that \<open>ScheduleEvent\<close> and \<open>ScheduleEventSeries\<close> both open with.\<close>

definition em_pack :: "u32 \<Rightarrow> u32 \<Rightarrow> u8 \<Rightarrow> u32" where
  "em_pack eventId grp phase =
     (let e = (if grp \<noteq> 0 \<and> grp \<le> 8 then eventId OR push_bit (unat grp + 15) 1 else eventId)
      in if phase \<noteq> 0 \<and> phase \<le> 8 then e OR push_bit (unat phase + 23) 1 else e)"

definition em_ScheduleEvent :: "u32 \<Rightarrow> int \<Rightarrow> u32 \<Rightarrow> u8 \<Rightarrow> event_map \<Rightarrow> event_map" where
  "em_ScheduleEvent eventId t grp phase m =
     m\<lparr>em_events := mm_insert (em_time m + ms t) (em_pack eventId grp phase) (em_events m)\<rparr>"

definition em_ScheduleEvent_rand ::
  "(int \<Rightarrow> int \<Rightarrow> int) \<Rightarrow> u32 \<Rightarrow> int \<Rightarrow> int \<Rightarrow> u32 \<Rightarrow> u8 \<Rightarrow> event_map \<Rightarrow> event_map" where
  "em_ScheduleEvent_rand randtime eventId minTime maxTime grp phase m =
     em_ScheduleEvent eventId (randtime minTime maxTime) grp phase m"

definition em_CancelEvent :: "u32 \<Rightarrow> event_map \<Rightarrow> event_map" where
  "em_CancelEvent eventId m =
     (if em_Empty m then m
      else m\<lparr>em_events := filter (\<lambda>(t, d). eventId \<noteq> d AND 0x0000FFFF) (em_events m),
             em_series := filter (\<lambda>(d, q). eventId \<noteq> d AND 0x0000FFFF) (em_series m)\<rparr>)"

definition em_CancelEventGroup :: "u32 \<Rightarrow> event_map \<Rightarrow> event_map" where
  "em_CancelEventGroup grp m =
     (if grp = 0 \<or> grp > 8 \<or> em_Empty m then m
      else m\<lparr>em_events := filter (\<lambda>(t, d). d AND push_bit (unat grp + 15) 1 = 0) (em_events m),
             em_series := filter (\<lambda>(d, q). d AND push_bit (unat grp + 15) 1 = 0) (em_series m)\<rparr>)"

definition em_RescheduleEvent :: "u32 \<Rightarrow> int \<Rightarrow> u32 \<Rightarrow> u8 \<Rightarrow> event_map \<Rightarrow> event_map" where
  "em_RescheduleEvent eventId t grp phase m =
     em_ScheduleEvent eventId t grp phase (em_CancelEvent eventId m)"

definition em_RescheduleEvent_rand ::
  "(int \<Rightarrow> int \<Rightarrow> int) \<Rightarrow> u32 \<Rightarrow> int \<Rightarrow> int \<Rightarrow> u32 \<Rightarrow> u8 \<Rightarrow> event_map \<Rightarrow> event_map" where
  "em_RescheduleEvent_rand randtime eventId minTime maxTime grp phase m =
     em_RescheduleEvent eventId (randtime minTime maxTime) grp phase m"

definition em_Repeat :: "int \<Rightarrow> event_map \<Rightarrow> event_map" where
  "em_Repeat t m = m\<lparr>em_events := mm_insert (em_time m + ms t) (em_last m) (em_events m)\<rparr>"

definition em_Repeat_rand :: "(int \<Rightarrow> int \<Rightarrow> int) \<Rightarrow> int \<Rightarrow> int \<Rightarrow> event_map \<Rightarrow> event_map" where
  "em_Repeat_rand randtime minTime maxTime m = em_Repeat (randtime minTime maxTime) m"

definition em_ScheduleNextFromSeries :: "u32 \<Rightarrow> event_map \<Rightarrow> event_map" where
  "em_ScheduleNextFromSeries eventData m =
     (case map_of (em_series m) eventData of
        None \<Rightarrow> m
      | Some [] \<Rightarrow> m
      | Some (t # ts) \<Rightarrow>
          em_ScheduleEvent eventData t 0 0
            (m\<lparr>em_series := om_upd (\<lambda>_. ts) eventData (em_series m)\<rparr>))"

definition em_push_series :: "u32 \<Rightarrow> int list \<Rightarrow> (u32 \<times> int list) list \<Rightarrow> (u32 \<times> int list) list" where
  "em_push_series d ts s =
     foldl (\<lambda>s t. om_set d ((case map_of s d of None \<Rightarrow> [] | Some q \<Rightarrow> q) @ [t]) s) s ts"

definition em_ScheduleEventSeries :: "u32 \<Rightarrow> u8 \<Rightarrow> u8 \<Rightarrow> int list \<Rightarrow> event_map \<Rightarrow> event_map" where
  "em_ScheduleEventSeries eventId grp phase timeSeries m =
     (let e = em_pack eventId (ucast grp) phase
      in em_ScheduleNextFromSeries e
           (m\<lparr>em_series := em_push_series e timeSeries (em_series m)\<rparr>))"

definition em_ScheduleEventSeries_default :: "u32 \<Rightarrow> int list \<Rightarrow> event_map \<Rightarrow> event_map" where
  "em_ScheduleEventSeries_default eventId series m = em_ScheduleEventSeries eventId 0 0 series m"

text \<open>
  The loop of \<open>ExecuteEvent\<close> looks at the first entry only: it stops at one that is not due, erases
  one of another phase and runs any other. \<open>em_phase_skip\<close> is the condition of the erasing branch.
\<close>

definition em_phase_skip :: "u8 \<Rightarrow> u32 \<Rightarrow> bool" where
  "em_phase_skip phase d \<longleftrightarrow>
     phase \<noteq> 0 \<and> d AND 0xFF000000 \<noteq> 0 \<and> drop_bit 24 d AND ucast phase = 0"

fun em_execute_loop :: "event_map \<Rightarrow> (int \<times> u32) list \<Rightarrow> u32 \<times> event_map" where
  "em_execute_loop m [] = (0, m\<lparr>em_events := []\<rparr>)"
| "em_execute_loop m ((t, d) # es) =
     (if t > em_time m then (0, m\<lparr>em_events := (t, d) # es\<rparr>)
      else if em_phase_skip (em_phase m) d then em_execute_loop m es
      else (d AND 0x0000FFFF,
            em_ScheduleNextFromSeries d (m\<lparr>em_last := d, em_events := es\<rparr>)))"

definition em_ExecuteEvent :: "event_map \<Rightarrow> u32 \<times> event_map" where
  "em_ExecuteEvent m = em_execute_loop m (em_events m)"

definition em_DelayEvents :: "int \<Rightarrow> event_map \<Rightarrow> event_map" where
  "em_DelayEvents delay m =
     (if em_Empty m then m
      else m\<lparr>em_events := foldl (\<lambda>s (t, d). mm_insert (t + ms delay) d s) [] (em_events m)\<rparr>)"

definition em_DelayEvents_group :: "int \<Rightarrow> u32 \<Rightarrow> event_map \<Rightarrow> event_map" where
  "em_DelayEvents_group delay grp m =
     (if grp = 0 \<or> grp > 8 \<or> em_Empty m then m
      else
        let hit = (\<lambda>(t :: int, d). d AND push_bit (unat grp + 15) 1 \<noteq> 0);
            delayed = foldl (\<lambda>s (t, d). mm_insert (t + ms delay) d s) [] (filter hit (em_events m))
        in m\<lparr>em_events := foldl (\<lambda>s (t, d). mm_insert t d s)
                             (filter (\<lambda>x. \<not> hit x) (em_events m)) delayed\<rparr>)"

text \<open>\<open>duration_cast\<close> to milliseconds truncates towards zero.\<close>

definition ns_to_ms :: "int \<Rightarrow> int" where
  "ns_to_ms n = (if 0 \<le> n then n div 1000000 else - ((- n) div 1000000))"

definition em_GetTimeUntilEvent :: "u32 \<Rightarrow> event_map \<Rightarrow> int" where
  "em_GetTimeUntilEvent eventId m =
     (case find (\<lambda>(t, d). eventId = d AND 0x0000FFFF) (em_events m) of
        Some (t, d) \<Rightarrow> ns_to_ms (t - em_time m)
      | None \<Rightarrow> Milliseconds_max)"

text \<open>The public operations as one type, for statements about every use of the class.\<close>

datatype em_op =
    EmReset | EmUpdate int | EmSetPhase u8 | EmAddPhase u8 | EmRemovePhase u8
  | EmSchedule u32 int u32 u8 | EmReschedule u32 int u32 u8 | EmRepeat int
  | EmCancel u32 | EmCancelGroup u32 | EmDelay int | EmDelayGroup int u32
  | EmSeries u32 u8 u8 "int list" | EmExecute

fun em_step :: "event_map \<Rightarrow> em_op \<Rightarrow> event_map" where
  "em_step m EmReset = em_Reset m"
| "em_step m (EmUpdate t) = em_Update t m"
| "em_step m (EmSetPhase p) = em_SetPhase p m"
| "em_step m (EmAddPhase p) = em_AddPhase p m"
| "em_step m (EmRemovePhase p) = em_RemovePhase p m"
| "em_step m (EmSchedule e t g p) = em_ScheduleEvent e t g p m"
| "em_step m (EmReschedule e t g p) = em_RescheduleEvent e t g p m"
| "em_step m (EmRepeat t) = em_Repeat t m"
| "em_step m (EmCancel e) = em_CancelEvent e m"
| "em_step m (EmCancelGroup g) = em_CancelEventGroup g m"
| "em_step m (EmDelay t) = em_DelayEvents t m"
| "em_step m (EmDelayGroup t g) = em_DelayEvents_group t g m"
| "em_step m (EmSeries e g p ts) = em_ScheduleEventSeries e g p ts m"
| "em_step m EmExecute = snd (em_ExecuteEvent m)"


section \<open>Well-formedness\<close>

text \<open>The multimap is ordered by time and the series map has each key once, in order.\<close>

definition em_wf :: "event_map \<Rightarrow> bool" where
  "em_wf m \<longleftrightarrow> keys_sorted (em_events m) \<and> keys_strict (em_series m)"

lemma em_wf_new: "em_wf EventMap_new"
  by (simp add: em_wf_def EventMap_new_def)

lemma em_wf_Schedule [keep_laws]: "em_wf m \<Longrightarrow> em_wf (em_ScheduleEvent e t g p m)"
  by (simp add: em_wf_def em_ScheduleEvent_def mm.sorted_put)

lemma em_wf_Next [keep_laws]: "em_wf m \<Longrightarrow> em_wf (em_ScheduleNextFromSeries d m)"
  by (auto simp: em_ScheduleNextFromSeries_def em_wf_def em_ScheduleEvent_def mm.sorted_put
      split: option.splits list.splits)

lemma keys_strict_push_series: "keys_strict s \<Longrightarrow> keys_strict (em_push_series d ts s)"
  unfolding em_push_series_def by (induction ts arbitrary: s) (auto simp: om.ok_store)

lemma em_wf_Series [keep_laws]: "em_wf m \<Longrightarrow> em_wf (em_ScheduleEventSeries e g p ts m)"
  unfolding em_ScheduleEventSeries_def Let_def
  by (rule em_wf_Next) (simp add: em_wf_def keys_strict_push_series)

lemma em_wf_Cancel [keep_laws]: "em_wf m \<Longrightarrow> em_wf (em_CancelEvent e m)"
  by (simp add: em_wf_def em_CancelEvent_def keys_sorted_filter keys_strict_filter)

lemma em_wf_CancelGroup [keep_laws]: "em_wf m \<Longrightarrow> em_wf (em_CancelEventGroup g m)"
  by (simp add: em_wf_def em_CancelEventGroup_def keys_sorted_filter keys_strict_filter)

lemma em_wf_Repeat [keep_laws]: "em_wf m \<Longrightarrow> em_wf (em_Repeat t m)"
  by (simp add: em_wf_def em_Repeat_def mm.sorted_put)

lemma em_wf_execute_loop:
  "em_wf m \<Longrightarrow> keys_sorted es \<Longrightarrow> em_wf (snd (em_execute_loop m es))"
  by (induction m es rule: em_execute_loop.induct) (auto simp: em_wf_def intro!: em_wf_Next [unfolded em_wf_def])

lemma foldl_delay: "foldl (\<lambda>s (t, d). mm_insert (t + c) d s) s xs
    = foldl (\<lambda>s (t, d). mm_insert t d s) s (map (\<lambda>(t, d). (t + (c :: int), d)) xs)"
  by (induction xs arbitrary: s) auto

text \<open>Moving every entry of an ordered multimap by the same delay is a plain map over it.\<close>

lemma foldl_delay_sorted:
  assumes "keys_sorted xs"
  shows "foldl (\<lambda>s (t, d). mm_insert (t + c) d s) [] xs = map (\<lambda>(t, d). (t + (c :: int), d)) xs"
  using mm.put_all_append [of "[]" "map (\<lambda>(t, d). (t + c, d)) xs"] sorted_map_shift [OF assms, of c]
  by (simp add: foldl_delay)

lemma em_wf_Delay [keep_laws]: "em_wf m \<Longrightarrow> em_wf (em_DelayEvents t m)"
  by (simp add: em_wf_def em_DelayEvents_def foldl_delay_sorted sorted_map_shift
      del: map_map)

lemma em_wf_DelayGroup [keep_laws]: "em_wf m \<Longrightarrow> em_wf (em_DelayEvents_group t g m)"
  by (simp add: em_wf_def em_DelayEvents_group_def Let_def mm.put_all_sorted keys_sorted_filter)

lemma em_wf_step: "em_wf m \<Longrightarrow> em_wf (em_step m e)"
proof (cases e)
  case EmExecute
  assume "em_wf m"
  then show ?thesis unfolding EmExecute em_step.simps em_ExecuteEvent_def
    by (intro em_wf_execute_loop) (auto simp: em_wf_def)
qed (auto simp: keep_laws em_RescheduleEvent_def,
     auto simp: em_wf_def em_Reset_def em_Update_def em_SetPhase_def em_AddPhase_def em_RemovePhase_def)

interpretation em_machine: op_machine em_step "\<lambda>_. True" em_wf
  by unfold_locales (rule em_wf_step)

section \<open>Packing\<close>

lemma em_pack_bit:
  "bit (em_pack e g p) n \<longleftrightarrow>
     n < 32 \<and> (bit e n \<or> g \<noteq> 0 \<and> g \<le> 8 \<and> n = unat g + 15 \<or> p \<noteq> 0 \<and> p \<le> 8 \<and> n = unat p + 23)"
proof -
  have "bit w n \<Longrightarrow> n < 32" for w :: u32
    using bit_imp_le_length [of w n] by simp
  then show ?thesis
    by (auto simp: em_pack_def Let_def bit_or_iff bit_exp_iff word_le_nat_alt)
qed

lemma em_pack_default [simp]: "em_pack d 0 0 = d"
  by (simp add: em_pack_def)


section \<open>Executing\<close>

lemma em_execute_loop_split:
  "em_execute_loop m es = (e, m') \<Longrightarrow>
   (\<exists>skipped rest. es = skipped @ rest
      \<and> (\<forall>(t, d) \<in> set skipped. t \<le> em_time m \<and> em_phase_skip (em_phase m) d)
      \<and> (case rest of
           [] \<Rightarrow> e = 0 \<and> m' = m\<lparr>em_events := []\<rparr>
         | (t, d) # later \<Rightarrow>
             if t > em_time m then e = 0 \<and> m' = m\<lparr>em_events := rest\<rparr>
             else \<not> em_phase_skip (em_phase m) d \<and> e = d AND 0x0000FFFF
                  \<and> m' = em_ScheduleNextFromSeries d (m\<lparr>em_last := d, em_events := later\<rparr>)))"
proof (induction m es rule: em_execute_loop.induct)
  case (2 m t d es)
  show ?case
  proof (cases "t \<le> em_time m \<and> em_phase_skip (em_phase m) d")
    case True
    with 2 obtain skipped rest where "es = skipped @ rest"
      "\<forall>(t, d) \<in> set skipped. t \<le> em_time m \<and> em_phase_skip (em_phase m) d"
      "case rest of
           [] \<Rightarrow> e = 0 \<and> m' = m\<lparr>em_events := []\<rparr>
         | (t, d) # later \<Rightarrow>
             if t > em_time m then e = 0 \<and> m' = m\<lparr>em_events := rest\<rparr>
             else \<not> em_phase_skip (em_phase m) d \<and> e = d AND 0x0000FFFF
                  \<and> m' = em_ScheduleNextFromSeries d (m\<lparr>em_last := d, em_events := later\<rparr>)"
      by fastforce
    with True show ?thesis by (intro exI [of _ "(t, d) # skipped"] exI [of _ rest]) auto
  next
    case False
    with "2.prems" show ?thesis
      by (intro exI [of _ "[]"] exI [of _ "(t, d) # es"]) (auto split: if_splits)
  qed
qed (auto intro: exI [of _ "[]"])

lemma em_execute_time_phase:
  "em_execute_loop m es = (e, m') \<Longrightarrow> em_time m' = em_time m \<and> em_phase m' = em_phase m"
  by (induction m es rule: em_execute_loop.induct)
    (auto simp: em_ScheduleNextFromSeries_def em_ScheduleEvent_def
      split: if_splits option.splits list.splits)

text \<open>
  C1: \<open>ExecuteEvent\<close> runs the earliest due event of an active phase and nothing else. On an ordered
  event map, either it returns the id of an entry that is due, is not of an inactive phase, and
  stands behind only such entries as are due, earlier or equally early, and of an inactive phase
  (these are erased); or it returns 0, everything due was of an inactive phase and has been erased,
  and every entry left lies in the future.
\<close>

theorem em_ExecuteEvent_first_due:
  assumes "em_wf m" and "em_ExecuteEvent m = (e, m')"
  shows "(\<exists>skipped t d later. em_events m = skipped @ (t, d) # later
            \<and> t \<le> em_time m \<and> \<not> em_phase_skip (em_phase m) d
            \<and> (\<forall>(u, x) \<in> set skipped. u \<le> t \<and> em_phase_skip (em_phase m) x)
            \<and> (\<forall>(u, x) \<in> set later. t \<le> u)
            \<and> e = d AND 0x0000FFFF
            \<and> m' = em_ScheduleNextFromSeries d (m\<lparr>em_last := d, em_events := later\<rparr>))
       \<or> (\<exists>skipped. em_events m = skipped @ em_events m'
            \<and> (\<forall>(u, x) \<in> set skipped. u \<le> em_time m \<and> em_phase_skip (em_phase m) x)
            \<and> (\<forall>(u, x) \<in> set (em_events m'). em_time m < u)
            \<and> e = 0 \<and> m' = m\<lparr>em_events := em_events m'\<rparr>)"
proof -
  from assms(2) obtain skipped rest where sr: "em_events m = skipped @ rest"
    and sk: "\<forall>(t, d) \<in> set skipped. t \<le> em_time m \<and> em_phase_skip (em_phase m) d"
    and cs: "case rest of
           [] \<Rightarrow> e = 0 \<and> m' = m\<lparr>em_events := []\<rparr>
         | (t, d) # later \<Rightarrow>
             if t > em_time m then e = 0 \<and> m' = m\<lparr>em_events := rest\<rparr>
             else \<not> em_phase_skip (em_phase m) d \<and> e = d AND 0x0000FFFF
                  \<and> m' = em_ScheduleNextFromSeries d (m\<lparr>em_last := d, em_events := later\<rparr>)"
    using em_execute_loop_split unfolding em_ExecuteEvent_def by blast
  from assms(1) sr have sorted: "keys_sorted (skipped @ rest)" by (simp add: em_wf_def)
  show ?thesis
  proof (cases rest)
    case Nil
    with sr sk cs show ?thesis by auto
  next
    case (Cons x later)
    obtain t d where x: "x = (t, d)" by (cases x)
    from sorted have "\<forall>(u, y) \<in> set later. t \<le> u" and le: "\<forall>(u, y) \<in> set skipped. u \<le> t"
      by (auto simp: Cons x sorted_append)
    note ord = this
    show ?thesis
    proof (cases "t > em_time m")
      case True
      with cs have "e = 0" and m': "m' = m\<lparr>em_events := rest\<rparr>" by (simp_all add: Cons x)
      moreover from True ord have "\<forall>(u, y) \<in> set rest. em_time m < u" by (auto simp: Cons x)
      ultimately show ?thesis using sr sk by (intro disjI2 exI [of _ skipped]) simp
    next
      case False
      with cs have "\<not> em_phase_skip (em_phase m) d" and "e = d AND 0x0000FFFF"
        and "m' = em_ScheduleNextFromSeries d (m\<lparr>em_last := d, em_events := later\<rparr>)"
        by (simp_all add: Cons x)
      moreover from sk le have "\<forall>(u, y) \<in> set skipped. u \<le> t \<and> em_phase_skip (em_phase m) y"
        by fast
      ultimately show ?thesis using sr ord(1) False
        by (intro disjI1 exI [of _ skipped] exI [of _ t] exI [of _ d] exI [of _ later])
          (simp add: Cons x)
    qed
  qed
qed

text \<open>An event of phase 1 that is due is dropped in phase 2; the unphased one behind it runs.\<close>

lemma em_ExecuteEvent_first_due_witness:
  defines "m \<equiv> em_SetPhase 2 (em_ScheduleEvent 7 0 0 0 (em_ScheduleEvent 5 0 0 1 EventMap_new))"
  shows "em_wf m \<and> fst (em_ExecuteEvent m) = 7 \<and>
    ((\<exists>skipped t d later. em_events m = skipped @ (t, d) # later \<and> t \<le> em_time m) \<or>
     (\<exists>skipped. em_events m = skipped @ em_events (snd (em_ExecuteEvent m))))"
proof -
  have wf: "em_wf m"
    by (simp add: m_def em_SetPhase_def em_wf_def EventMap_new_def em_ScheduleEvent_def)
  moreover have "fst (em_ExecuteEvent m) = 7" unfolding m_def by code_simp
  ultimately show ?thesis
    using em_ExecuteEvent_first_due [OF wf prod.collapse [symmetric]] by blast
qed

section \<open>Cancelling\<close>

text \<open>The operations that name an event id, or bring the last one back.\<close>

fun em_op_adds :: "u32 \<Rightarrow> em_op \<Rightarrow> bool" where
  "em_op_adds i (EmSchedule e t g p) \<longleftrightarrow> e AND 0xFFFF = i"
| "em_op_adds i (EmReschedule e t g p) \<longleftrightarrow> e AND 0xFFFF = i"
| "em_op_adds i (EmSeries e g p ts) \<longleftrightarrow> e AND 0xFFFF = i"
| "em_op_adds i (EmRepeat t) \<longleftrightarrow> True"
| "em_op_adds i _ \<longleftrightarrow> False"

definition em_absent :: "u32 \<Rightarrow> event_map \<Rightarrow> bool" where
  "em_absent i m \<longleftrightarrow>
     (\<forall>(t, d) \<in> set (em_events m). d AND 0xFFFF \<noteq> i) \<and>
     (\<forall>(d, q) \<in> set (em_series m). d AND 0xFFFF \<noteq> i)"

lemma em_pack_low: "em_pack e g p AND 0xFFFF = e AND 0xFFFF"
proof (rule bit_word_eqI)
  fix n assume "n < LENGTH(32)"
  have "bit (0xFFFF :: u32) n \<longleftrightarrow> n < 16"
    using bit_mask_iff [where ?'a = "32 word", of 16 n] by (auto simp: mask_eq_exp_minus_1)
  then show "bit (em_pack e g p AND 0xFFFF) n = bit (e AND 0xFFFF) n"
    by (auto simp: bit_and_iff em_pack_bit unat_0_iff)
qed

lemma em_absent_Schedule:
  "em_absent i m \<Longrightarrow> e AND 0xFFFF \<noteq> i \<Longrightarrow> em_absent i (em_ScheduleEvent e t g p m)"
  by (auto simp: em_absent_def em_ScheduleEvent_def em_pack_low)

lemma em_absent_Next:
  assumes "em_absent i m" shows "em_absent i (em_ScheduleNextFromSeries d m)"
proof (cases "map_of (em_series m) d")
  case (Some q)
  then have "d AND 0xFFFF \<noteq> i" using assms by (auto simp: em_absent_def dest!: map_of_SomeD)
  moreover have "em_absent i (m\<lparr>em_series := om_upd f d (em_series m)\<rparr>)" for f
    using assms by (auto simp: em_absent_def om_upd_def)
  ultimately show ?thesis
    using assms by (auto simp: em_ScheduleNextFromSeries_def Some em_absent_Schedule split: list.splits)
qed (simp add: em_ScheduleNextFromSeries_def assms)

lemma em_push_series_keys: "fst ` set (em_push_series d ts s) \<subseteq> insert d (fst ` set s)"
proof (induction ts arbitrary: s)
  case (Cons t ts)
  from Cons.IH [of "om_set d ((case map_of s d of None \<Rightarrow> [] | Some q \<Rightarrow> q) @ [t]) s"]
  show ?case by (simp add: em_push_series_def)
qed (auto simp: em_push_series_def)

lemma em_absent_Series:
  assumes "em_absent i m" and "e AND 0xFFFF \<noteq> i"
  shows "em_absent i (em_ScheduleEventSeries e g p ts m)"
  unfolding em_ScheduleEventSeries_def Let_def
proof (rule em_absent_Next)
  let ?d = "em_pack e (ucast g) p"
  have "d = ?d \<or> (\<exists>q'. (d, q') \<in> set (em_series m))"
    if "(d, q) \<in> set (em_push_series ?d ts (em_series m))" for d q
    using em_push_series_keys [of ?d ts "em_series m"] that by force
  with assms show "em_absent i (m\<lparr>em_series := em_push_series ?d ts (em_series m)\<rparr>)"
    by (fastforce simp: em_absent_def em_pack_low)
qed

lemma em_absent_Cancel: "em_absent i m \<Longrightarrow> em_absent i (em_CancelEvent e m)"
  by (auto simp: em_absent_def em_CancelEvent_def)

lemma em_absent_execute_loop:
  "em_absent i m \<Longrightarrow> \<forall>(t, d) \<in> set es. d AND 0xFFFF \<noteq> i \<Longrightarrow>
   em_absent i (snd (em_execute_loop m es)) \<and> (fst (em_execute_loop m es) = i \<longrightarrow> i = 0)"
  by (induction m es rule: em_execute_loop.induct)
    (auto intro!: em_absent_Next, auto simp: em_absent_def)

lemma foldl_mm_delay_set:
  "set (foldl (\<lambda>s (t, d). mm_insert (t + c) d s) s xs) = set s \<union> (\<lambda>(t, d). (t + (c :: int), d)) ` set xs"
  by (induction xs arbitrary: s) auto

lemma foldl_mm_set:
  "set (foldl (\<lambda>s (t, d). mm_insert t d s) s xs) = set s \<union> set xs"
  by (induction xs arbitrary: s) auto

lemma em_absent_step:
  assumes "em_absent i m" and "\<not> em_op_adds i e"
  shows "em_absent i (em_step m e)"
proof (cases e)
  case EmExecute
  with assms em_absent_execute_loop [of i m "em_events m"] show ?thesis
    by (simp add: em_ExecuteEvent_def) (simp add: em_absent_def)
next
  case (EmReschedule x t g p)
  with assms show ?thesis
    by (simp add: em_RescheduleEvent_def em_absent_Schedule em_absent_Cancel)
next
  case (EmSeries x g p ts)
  with assms show ?thesis by (simp add: em_absent_Series)
next
  case (EmDelayGroup t g)
  have "set (em_events (em_DelayEvents_group t g m))
      \<subseteq> set (em_events m) \<union> (\<lambda>(u, d). (u + ms t, d)) ` set (em_events m)"
    by (auto simp: em_DelayEvents_group_def Let_def foldl_mm_delay_set foldl_mm_set)
  moreover have "em_series (em_DelayEvents_group t g m) = em_series m"
    by (simp add: em_DelayEvents_group_def Let_def)
  ultimately show ?thesis using assms EmDelayGroup by (fastforce simp: em_absent_def)
qed (use assms in \<open>auto simp: em_absent_def em_Reset_def em_Update_def em_SetPhase_def
      em_AddPhase_def em_RemovePhase_def em_ScheduleEvent_def em_pack_low em_CancelEvent_def
      em_CancelEventGroup_def em_DelayEvents_def foldl_mm_delay_set\<close>)

interpretation em_cancelled: op_machine em_step "\<lambda>e. \<not> em_op_adds i e" "em_absent i"
  for i by unfold_locales (rule em_absent_step)

lemma em_absent_after_Cancel: "\<not> em_Empty m \<Longrightarrow> em_absent i (em_CancelEvent i m)"
  by (auto simp: em_absent_def em_CancelEvent_def)

text \<open>
  C2: a cancelled event does not come back by itself. After \<open>CancelEvent\<close> of an id on a map that
  has events, no sequence of operations that neither schedules that id again nor repeats the last
  event makes \<open>ExecuteEvent\<close> return the id, not even through a pending series, a delay or a phase
  change.
\<close>

theorem em_CancelEvent_never_fires:
  assumes "\<not> em_Empty m" and "i \<noteq> 0" and "\<forall>e \<in> set ops. \<not> em_op_adds i e"
  shows "fst (em_ExecuteEvent (foldl em_step (em_CancelEvent i m) ops)) \<noteq> i"
proof -
  have "em_absent i (foldl em_step (em_CancelEvent i m) ops)" (is "em_absent i ?m")
    using em_cancelled.inv_run em_absent_after_Cancel assms(1,3) by blast
  then show ?thesis
    using em_absent_execute_loop [of i ?m "em_events ?m"] assms(2)
    by (auto simp: em_ExecuteEvent_def em_absent_def)
qed

lemma em_CancelEvent_never_fires_witness:
  "fst (em_ExecuteEvent (foldl em_step
     (em_CancelEvent 5 (em_ScheduleEventSeries 5 1 0 [10, 20] EventMap_new))
     [EmSchedule 6 10 0 0, EmUpdate 50, EmExecute, EmUpdate 50])) \<noteq> 5"
  by (rule em_CancelEvent_never_fires) (code_simp, simp, simp)

section \<open>Delaying\<close>

text \<open>
  C3: \<open>DelayEvents\<close> of a group moves exactly the events of that group. The entries of the group
  keep their mutual order and are due later by the delay, all other entries and their order are
  untouched, nothing is lost or duplicated, and the map is still ordered by time.
\<close>

theorem em_DelayEvents_group_shifts:
  fixes g :: u32
  defines "hit \<equiv> \<lambda>(t :: int, d :: u32). d AND push_bit (unat g + 15) 1 \<noteq> 0"
  assumes "em_wf m" and "g \<noteq> 0" and "g \<le> 8"
  shows "filter hit (em_events (em_DelayEvents_group delay g m))
           = map (\<lambda>(t, d). (t + ms delay, d)) (filter hit (em_events m))
       \<and> filter (\<lambda>x. \<not> hit x) (em_events (em_DelayEvents_group delay g m))
           = filter (\<lambda>x. \<not> hit x) (em_events m)
       \<and> keys_sorted (em_events (em_DelayEvents_group delay g m))"
proof (cases "em_Empty m")
  case False
  let ?shift = "\<lambda>(t, d). (t + ms delay, d)"
  let ?moved = "map ?shift (filter hit (em_events m))"
  from assms(2) have sorted: "keys_sorted (em_events m)" by (simp add: em_wf_def)
  let ?rest = "filter (\<lambda>x. \<not> hit x) (em_events m)"
  from sorted have moved: "keys_sorted ?moved"
    by (intro sorted_map_shift keys_sorted_filter)
  from sorted have rest: "keys_sorted ?rest" by (rule keys_sorted_filter)
  have hit: "\<forall>x \<in> set ?moved. hit x" by (auto simp: hit_def)
  have ev: "em_events (em_DelayEvents_group delay g m)
      = foldl (\<lambda>s (t, d). mm_insert t d s) ?rest ?moved"
    using False assms(3,4) sorted
    by (simp add: em_DelayEvents_group_def Let_def hit_def leD
        foldl_delay_sorted keys_sorted_filter)
  have "filter hit ?rest = []" by (simp add: filter_empty_conv)
  then have "filter hit (foldl (\<lambda>s (t, d). mm_insert t d s) ?rest ?moved) = ?moved"
    using filter_foldl_mm_pos [OF rest hit] mm.put_all_append [of "[]" ?moved] moved
    by (simp del: map_map)
  moreover have "filter (\<lambda>x. \<not> hit x) (foldl (\<lambda>s (t, d). mm_insert t d s) ?rest ?moved) = ?rest"
    using hit by (subst filter_foldl_mm_neg) auto
  moreover have "keys_sorted (foldl (\<lambda>s (t, d). mm_insert t d s) ?rest ?moved)"
    using rest by (rule mm.put_all_sorted)
  ultimately show ?thesis unfolding ev by blast
qed (simp add: em_DelayEvents_group_def em_Empty_def)

lemma em_DelayEvents_group_shifts_witness:
  "filter (\<lambda>(t, d). d AND push_bit (unat (2 :: u32) + 15) 1 \<noteq> 0) (em_events (em_DelayEvents_group 5 2
       (em_ScheduleEvent 4 1 2 0 (em_ScheduleEvent 3 2 1 0 EventMap_new))))
   = map (\<lambda>(t, d). (t + ms 5, d))
       (filter (\<lambda>(t, d). d AND push_bit (unat (2 :: u32) + 15) 1 \<noteq> 0)
         (em_events (em_ScheduleEvent 4 1 2 0 (em_ScheduleEvent 3 2 1 0 EventMap_new))))"
  by (rule em_DelayEvents_group_shifts [THEN conjunct1])
    (simp_all add: em_wf_def EventMap_new_def em_ScheduleEvent_def ms_def)

section \<open>Series\<close>

text \<open>What a script does every tick: advance the timer, then ask for an event.\<close>

fun em_ticks :: "event_map \<Rightarrow> int list \<Rightarrow> u32 list \<times> event_map" where
  "em_ticks m [] = ([], m)"
| "em_ticks m (t # ts) =
     (let (e, m') = em_ExecuteEvent (em_Update t m); (es, m'') = em_ticks m' ts in (e # es, m''))"

lemma map_of_push_series:
  "keys_strict s \<Longrightarrow> ts \<noteq> [] \<Longrightarrow>
   map_of (em_push_series d ts s) d = Some ((case map_of s d of None \<Rightarrow> [] | Some q \<Rightarrow> q) @ ts)"
proof (induction ts arbitrary: s)
  case (Cons t ts)
  then show ?case
    by (cases "ts = []") (auto simp: em_push_series_def om.lookup_store om.ok_store)
qed simp

lemma em_ticks_series:
  "em_events m = [(em_time m + ms t, d)] \<Longrightarrow> map_of (em_series m) d = Some ts \<Longrightarrow>
   \<not> em_phase_skip (em_phase m) d \<Longrightarrow>
   fst (em_ticks m (t # ts)) = replicate (Suc (length ts)) (d AND 0xFFFF)
   \<and> em_events (snd (em_ticks m (t # ts))) = []"
proof (induction ts arbitrary: m t)
  case Nil
  then show ?case
    by (simp add: em_ExecuteEvent_def em_Update_def em_ScheduleNextFromSeries_def)
next
  case (Cons t' ts)
  define m' where "m' = snd (em_ExecuteEvent (em_Update t m))"
  from Cons.prems have "em_ExecuteEvent (em_Update t m) = (d AND 0xFFFF, m')"
    and "em_events m' = [(em_time m' + ms t', d)]" and "map_of (em_series m') d = Some ts"
    and "em_phase m' = em_phase m"
    by (simp_all add: m'_def em_ExecuteEvent_def em_Update_def em_ScheduleNextFromSeries_def
        em_ScheduleEvent_def map_of_om_upd)
  with Cons.IH [of m' t'] Cons.prems(3) show ?case by (simp add: split_beta)
qed

text \<open>
  C39: a series runs once per delay. Scheduling a series of delays on an idle map and then ticking by
  exactly these delays returns the event's id once per delay, the first delay included, and leaves
  the map idle again.
\<close>

theorem em_ScheduleEventSeries_runs:
  assumes "em_events m = []" and "keys_strict (em_series m)"
    and "map_of (em_series m) (em_pack i (ucast g) p) = None"
    and "\<not> em_phase_skip (em_phase m) (em_pack i (ucast g) p)"
  shows "fst (em_ticks (em_ScheduleEventSeries i g p ts m) ts) = replicate (length ts) (i AND 0xFFFF)
       \<and> em_events (snd (em_ticks (em_ScheduleEventSeries i g p ts m) ts)) = []"
proof (cases ts)
  case Nil
  with assms show ?thesis
    by (simp add: em_ScheduleEventSeries_def em_push_series_def em_ScheduleNextFromSeries_def Let_def)
next
  case (Cons t ts')
  let ?d = "em_pack i (ucast g) p" and ?m = "em_ScheduleEventSeries i g p ts m"
  have "map_of (em_push_series ?d ts (em_series m)) ?d = Some (t # ts')"
    using assms(2,3) map_of_push_series [of "em_series m" ts ?d] Cons by simp
  then have "em_events ?m = [(em_time ?m + ms t, ?d)]" "map_of (em_series ?m) ?d = Some ts'"
    "em_phase ?m = em_phase m"
    using assms(1)
    by (simp_all add: em_ScheduleEventSeries_def Let_def em_ScheduleNextFromSeries_def
        em_ScheduleEvent_def map_of_om_upd)
  with em_ticks_series [of ?m t ?d ts'] assms(4) Cons show ?thesis
    by (simp add: em_pack_low)
qed

lemma em_ScheduleEventSeries_runs_witness:
  "fst (em_ticks (em_ScheduleEventSeries 9 0 0 [10, 20, 30] EventMap_new) [10, 20, 30])
     = replicate (length [10 :: int, 20, 30]) (9 AND 0xFFFF)"
  by (rule em_ScheduleEventSeries_runs [THEN conjunct1])
    (simp_all add: EventMap_new_def em_phase_skip_def)

text \<open>
  C5: \<open>Reset\<close> leaves the pending series behind. The header documents it as removing all scheduled
  events; but a series that had delays left before \<open>Reset\<close> is still there, and the next time the
  same event is scheduled once and runs, it is queued again with the stale delay.
\<close>

theorem em_Reset_keeps_series:
  assumes "map_of (em_series m) d = Some (t # ts)"
  shows "em_ExecuteEvent (em_ScheduleEvent d 0 0 0 (em_Reset m))
    = (d AND 0xFFFF, em_Reset m\<lparr>em_last := d, em_events := [(TimePoint_min + ms t, d)],
                                em_series := om_upd (\<lambda>_. ts) d (em_series m)\<rparr>)"
  using assms
  by (simp add: em_Reset_def em_ScheduleEvent_def em_ExecuteEvent_def em_phase_skip_def ms_def
      em_ScheduleNextFromSeries_def)

lemma em_Reset_keeps_series_witness:
  "fst (em_ExecuteEvent (em_ScheduleEvent 5 0 0 0
     (em_Reset (em_ScheduleEventSeries 5 0 0 [10, 20] EventMap_new)))) = 5 AND 0xFFFF"
  by (subst em_Reset_keeps_series [of _ _ 20 "[]"])
    (simp_all add: EventMap_new_def em_ScheduleEventSeries_def em_push_series_def
      em_ScheduleNextFromSeries_def em_ScheduleEvent_def om_upd_def)

end
