(* ===== verification/EventProcessor.thy ===== *)
theory EventProcessor
  imports Prelude
begin

text \<open>
  The delayed events of an object: \<open>src/src/common/Utilities/EventProcessor.h\<close> and \<open>.cpp\<close>.

  \<^item> Events are pointers that their owners keep, to abort an event later: an event is a cell of the heap
    \<open>ep_heap\<close>, the multimap holds addresses, and \<open>delete\<close> empties the cell. \<open>None\<close> is a failed assertion,
    the use of a deleted event, or a loop that does not end.
  \<^item> What the virtual functions of an event do is a parameter (\<open>event_handlers\<close>) over the rest of the world,
    the type \<open>'w\<close>. \<open>Execute\<close> may change the processor, add events or abort others; its boolean says that the
    event may be deleted. \<open>Abort\<close> changes the world only.
\<close>

section \<open>Events\<close>

datatype abort_state = STATE_RUNNING | STATE_ABORT_SCHEDULED | STATE_ABORTED

record 'e basic_event =
  be_event :: 'e
  be_abortState :: abort_state
  be_addTime :: u64
  be_execTime :: u64

definition BasicEvent_new :: "'e \<Rightarrow> 'e basic_event" where
  "BasicEvent_new e = \<lparr>be_event = e, be_abortState = STATE_RUNNING, be_addTime = 0, be_execTime = 0\<rparr>"

definition IsRunning :: "'e basic_event \<Rightarrow> bool" where
  "IsRunning e = (be_abortState e = STATE_RUNNING)"

definition IsAbortScheduled :: "'e basic_event \<Rightarrow> bool" where
  "IsAbortScheduled e = (be_abortState e = STATE_ABORT_SCHEDULED)"

definition IsAborted :: "'e basic_event \<Rightarrow> bool" where
  "IsAborted e = (be_abortState e = STATE_ABORTED)"

record 'e event_processor =
  ep_time :: u64
  ep_events :: "(u64 \<times> nat) list"
  ep_heap :: "nat \<Rightarrow> 'e basic_event option"
  ep_fresh :: nat

definition EventProcessor_new :: "'e event_processor" where
  "EventProcessor_new = \<lparr>ep_time = 0, ep_events = [], ep_heap = (\<lambda>_. None), ep_fresh = 0\<rparr>"

text \<open>\<open>new\<close> and \<open>delete\<close>, and a change of the event behind a pointer.\<close>

definition ep_new :: "'e \<Rightarrow> 'e event_processor \<Rightarrow> nat \<times> 'e event_processor" where
  "ep_new e p = (ep_fresh p, p\<lparr>ep_heap := (ep_heap p)(ep_fresh p \<mapsto> BasicEvent_new e), ep_fresh := ep_fresh p + 1\<rparr>)"

definition ep_delete :: "nat \<Rightarrow> 'e event_processor \<Rightarrow> 'e event_processor" where
  "ep_delete a p = p\<lparr>ep_heap := (ep_heap p)(a := None)\<rparr>"

definition ep_change :: "nat \<Rightarrow> ('e basic_event \<Rightarrow> 'e basic_event) \<Rightarrow> 'e event_processor \<Rightarrow> 'e event_processor option" where
  "ep_change a f p = map_option (\<lambda>e. p\<lparr>ep_heap := (ep_heap p)(a \<mapsto> f e)\<rparr>) (ep_heap p a)"

definition ScheduleAbort :: "nat \<Rightarrow> 'e event_processor \<Rightarrow> 'e event_processor option" where
  "ScheduleAbort a p =
     Option.bind (ep_heap p a)
       (\<lambda>e. if IsRunning e then ep_change a (\<lambda>e. e\<lparr>be_abortState := STATE_ABORT_SCHEDULED\<rparr>) p else None)"

definition SetAborted :: "nat \<Rightarrow> 'e event_processor \<Rightarrow> 'e event_processor option" where
  "SetAborted a p =
     Option.bind (ep_heap p a)
       (\<lambda>e. if IsAborted e then None else ep_change a (\<lambda>e. e\<lparr>be_abortState := STATE_ABORTED\<rparr>) p)"

section \<open>The processor\<close>

definition CalculateTime :: "u64 \<Rightarrow> 'e event_processor \<Rightarrow> u64" where
  "CalculateTime t_offset p = ep_time p + t_offset"

definition CalculateQueueTime :: "u64 \<Rightarrow> 'e event_processor \<Rightarrow> u64 option" where
  "CalculateQueueTime delay p =
     (if delay = 0 then None else Some (CalculateTime (delay - ep_time p mod delay) p))"

definition ep_AddEvent :: "nat \<Rightarrow> u64 \<Rightarrow> bool \<Rightarrow> 'e event_processor \<Rightarrow> 'e event_processor option" where
  "ep_AddEvent a e_time set_addtime p =
     map_option (\<lambda>p1. p1\<lparr>ep_events := mm_insert e_time a (ep_events p1)\<rparr>)
       (ep_change a
         (\<lambda>e. (if set_addtime then e\<lparr>be_addTime := ep_time p\<rparr> else e)\<lparr>be_execTime := e_time\<rparr>) p)"

definition AddEventAtOffset :: "nat \<Rightarrow> u64 \<Rightarrow> 'e event_processor \<Rightarrow> 'e event_processor option" where
  "AddEventAtOffset a offset p = ep_AddEvent a (CalculateTime offset p) True p"

definition ModifyEventTime :: "nat \<Rightarrow> u64 \<Rightarrow> 'e event_processor \<Rightarrow> 'e event_processor option" where
  "ModifyEventTime a newTime p =
     (case List.extract (\<lambda>x. snd x = a) (ep_events p) of
        None \<Rightarrow> Some p
      | Some (before, _, after) \<Rightarrow>
          ep_change a (\<lambda>e. e\<lparr>be_execTime := newTime\<rparr>)
            (p\<lparr>ep_events := mm_insert newTime a (before @ after)\<rparr>))"

record ('e, 'w) event_handlers =
  eh_Execute :: "nat \<Rightarrow> u64 \<Rightarrow> u32 \<Rightarrow> 'e event_processor \<times> 'w \<Rightarrow> (bool \<times> 'e event_processor \<times> 'w) option"
  eh_Abort :: "'e \<Rightarrow> u64 \<Rightarrow> 'w \<Rightarrow> 'w option"
  eh_IsDeletable :: "'e \<Rightarrow> 'w \<Rightarrow> bool"

text \<open>The body of the loop of \<open>Update\<close>, for the event at \<open>a\<close> that was taken out of the queue.\<close>

definition ep_dispatch ::
    "('e, 'w) event_handlers \<Rightarrow> u32 \<Rightarrow> nat \<Rightarrow> 'e event_processor \<times> 'w \<Rightarrow> ('e event_processor \<times> 'w) option" where
  "ep_dispatch h p_time a s =
     (case ep_heap (fst s) a of
        None \<Rightarrow> None
      | Some event \<Rightarrow>
          if IsRunning event then
            map_option (\<lambda>(done, p, w). (if done then ep_delete a p else p, w))
              (eh_Execute h a (ep_time (fst s)) p_time s)
          else
            Option.bind
              (if IsAbortScheduled event then
                 Option.bind (eh_Abort h (be_event event) (ep_time (fst s)) (snd s))
                   (\<lambda>w. map_option (\<lambda>p. (p, w)) (SetAborted a (fst s)))
               else Some s)
              (\<lambda>(p, w).
                 if eh_IsDeletable h (be_event event) w then Some (ep_delete a p, w)
                 else map_option (\<lambda>p1. (p1, w)) (ep_AddEvent a (CalculateTime 1 p) False p)))"

partial_function (option) ep_loop ::
    "('e, 'w) event_handlers \<Rightarrow> u32 \<Rightarrow> 'e event_processor \<times> 'w \<Rightarrow> ('e event_processor \<times> 'w) option" where
  "ep_loop h p_time s =
     (case ep_events (fst s) of
        [] \<Rightarrow> Some s
      | x # es \<Rightarrow>
          if fst x \<le> ep_time (fst s)
          then Option.bind (ep_dispatch h p_time (snd x) ((fst s)\<lparr>ep_events := es\<rparr>, snd s)) (ep_loop h p_time)
          else Some s)"

definition EventProcessor_Update ::
    "('e, 'w) event_handlers \<Rightarrow> u32 \<Rightarrow> 'e event_processor \<times> 'w \<Rightarrow> ('e event_processor \<times> 'w) option" where
  "EventProcessor_Update h p_time s =
     ep_loop h p_time ((fst s)\<lparr>ep_time := ep_time (fst s) + ucast p_time\<rparr>, snd s)"

text \<open>The loop of \<open>KillAllEvents\<close> over the entries that are left; \<open>kept\<close> are the ones it went past.\<close>

fun kill_loop ::
    "('e, 'w) event_handlers \<Rightarrow> bool \<Rightarrow> (u64 \<times> nat) list \<Rightarrow> (u64 \<times> nat) list \<Rightarrow> 'e event_processor \<times> 'w
     \<Rightarrow> ('e event_processor \<times> 'w) option" where
  "kill_loop h force kept [] s = Some ((fst s)\<lparr>ep_events := kept\<rparr>, snd s)"
| "kill_loop h force kept (x # xs) s =
     (case ep_heap (fst s) (snd x) of
        None \<Rightarrow> None
      | Some event \<Rightarrow>
          Option.bind
            (if IsAborted event then Some s
             else Option.bind (SetAborted (snd x) (fst s))
               (\<lambda>p. map_option (\<lambda>w. (p, w)) (eh_Abort h (be_event event) (ep_time p) (snd s))))
            (\<lambda>(p, w).
               if \<not> force \<and> \<not> eh_IsDeletable h (be_event event) w then kill_loop h force (kept @ [x]) xs (p, w)
               else kill_loop h force (if force then kept @ [x] else kept) xs (ep_delete (snd x) p, w)))"

definition KillAllEvents ::
    "('e, 'w) event_handlers \<Rightarrow> bool \<Rightarrow> 'e event_processor \<times> 'w \<Rightarrow> ('e event_processor \<times> 'w) option" where
  "KillAllEvents h force s =
     map_option (\<lambda>(p, w). (if force then p\<lparr>ep_events := []\<rparr> else p, w)) (kill_loop h force [] (ep_events (fst s)) s)"

section \<open>Well-formed processors\<close>

text \<open>The queue is ordered, its events are live, distinct and know their time; addresses above \<open>ep_fresh\<close> are free.\<close>

definition ep_wf :: "'e event_processor \<Rightarrow> bool" where
  "ep_wf p \<longleftrightarrow> keys_sorted (ep_events p) \<and> distinct (map snd (ep_events p))
     \<and> (\<forall>x \<in> set (ep_events p). \<exists>e. ep_heap p (snd x) = Some e \<and> be_execTime e = fst x)
     \<and> (\<forall>a. ep_heap p a \<noteq> None \<longrightarrow> a < ep_fresh p)"

lemma distinct_snd: "distinct (map snd (x # xs)) \<Longrightarrow> y \<in> set xs \<Longrightarrow> snd y \<noteq> snd x"
  by (metis distinct.simps(2) image_eqI list.set_map list.simps(9))

lemma ep_wfD:
  assumes "ep_wf p"
  shows "keys_sorted (ep_events p)" and "distinct (map snd (ep_events p))"
    and "\<And>x. x \<in> set (ep_events p) \<Longrightarrow> \<exists>e. ep_heap p (snd x) = Some e \<and> be_execTime e = fst x"
    and "\<And>a. ep_heap p a \<noteq> None \<Longrightarrow> a < ep_fresh p"
  using assms unfolding ep_wf_def by blast+

lemma ep_wf_new [keep_laws]: "ep_wf p \<Longrightarrow> ep_wf (snd (ep_new e p)) \<and> fst (ep_new e p) \<notin> snd ` set (ep_events p)"
  unfolding ep_wf_def ep_new_def by (fastforce simp: less_Suc_eq)

lemma ep_change_Some: "ep_change a f p = Some q \<longleftrightarrow> (\<exists>e. ep_heap p a = Some e \<and> q = p\<lparr>ep_heap := (ep_heap p)(a \<mapsto> f e)\<rparr>)"
  by (auto simp: ep_change_def)

lemma ep_wf_change [keep_laws]:
  assumes "ep_wf p" and "ep_change a f p = Some q" and "\<And>e. be_execTime (f e) = be_execTime e"
  shows "ep_wf q"
proof -
  from assms(2) obtain e where e: "ep_heap p a = Some e" and q: "q = p\<lparr>ep_heap := (ep_heap p)(a \<mapsto> f e)\<rparr>"
    by (auto simp: ep_change_Some)
  have "\<exists>e'. ep_heap q (snd x) = Some e' \<and> be_execTime e' = fst x" if "x \<in> set (ep_events p)" for x
    using ep_wfD(3) [OF assms(1) that] e by (auto simp: q assms(3))
  then show ?thesis using ep_wfD [OF assms(1)] e unfolding q ep_wf_def by auto
qed

lemma ep_wf_ScheduleAbort [keep_laws]: "ep_wf p \<Longrightarrow> ScheduleAbort a p = Some q \<Longrightarrow> ep_wf q"
  unfolding ScheduleAbort_def
  by (auto simp: bind_eq_Some_conv split: if_splits elim: ep_wf_change [rotated])

text \<open>An event is put into the queue when its pointer is not there yet.\<close>

lemma ep_wf_AddEvent [keep_laws]:
  assumes "ep_wf p" and "a \<notin> snd ` set (ep_events p)" and "ep_AddEvent a t b p = Some q"
  shows "ep_wf q"
proof -
  define f where "f = (\<lambda>e :: 'a basic_event. (if b then e\<lparr>be_addTime := ep_time p\<rparr> else e)\<lparr>be_execTime := t\<rparr>)"
  from assms(3) obtain e where e: "ep_heap p a = Some e"
    and q: "q = p\<lparr>ep_heap := (ep_heap p)(a \<mapsto> f e), ep_events := mm_insert t a (ep_events p)\<rparr>"
    by (auto simp: ep_AddEvent_def ep_change_Some f_def)
  have "mset (map snd (mm_insert t a (ep_events p))) = add_mset a (mset (map snd (ep_events p)))" by simp
  then have "distinct (map snd (mm_insert t a (ep_events p))) \<longleftrightarrow> distinct (a # map snd (ep_events p))"
    by (intro mset_eq_imp_distinct_iff) simp
  with ep_wfD [OF assms(1)] assms(2) have "distinct (map snd (mm_insert t a (ep_events p)))" by auto
  moreover have "ep_heap q (snd x) = ep_heap p (snd x)" if "x \<in> set (ep_events p)" for x
    using that assms(2) unfolding q by auto
  moreover have "be_execTime (f e) = t" by (simp add: f_def)
  ultimately show ?thesis using ep_wfD [OF assms(1)] e unfolding ep_wf_def
    by (auto simp: q keys_sorted_mm_insert)
qed

lemma ep_wf_ModifyEventTime [keep_laws]:
  assumes "ep_wf p" and "ModifyEventTime a t p = Some q"
  shows "ep_wf q"
proof (cases "List.extract (\<lambda>x. snd x = a) (ep_events p)")
  case None
  with assms show ?thesis by (simp add: ModifyEventTime_def)
next
  case (Some z)
  obtain xs y ys where z: "z = (xs, y, ys)" by (cases z)
  from Some have split: "ep_events p = xs @ y # ys" "snd y = a" unfolding z by (auto simp: extract_Some_iff)
  from assms(2) Some z obtain e where e: "ep_heap p a = Some e"
    and q: "q = p\<lparr>ep_events := mm_insert t a (xs @ ys), ep_heap := (ep_heap p)(a \<mapsto> e\<lparr>be_execTime := t\<rparr>)\<rparr>"
    by (auto simp: ModifyEventTime_def ep_change_Some)
  let ?p = "p\<lparr>ep_events := xs @ ys\<rparr>"
  note wf = ep_wfD [OF assms(1)]
  have "ep_wf ?p" using wf unfolding ep_wf_def split by (auto simp: sorted_append)
  moreover have "a \<notin> snd ` set (ep_events ?p)" using wf(2) unfolding split(1) split(2) [symmetric] by auto
  moreover have "ep_AddEvent a t False ?p = Some q" using e by (simp add: ep_AddEvent_def ep_change_def q)
  ultimately show ?thesis by (rule ep_wf_AddEvent)
qed

section \<open>Running the due events\<close>

text \<open>
  Handlers that leave the processor alone and whose events may be deleted: \<open>run\<close> is what an event does to
  the world. The events of the battleground queue are of this kind.
\<close>

definition quiet :: "('e, 'w) event_handlers \<Rightarrow> ('e \<Rightarrow> u64 \<Rightarrow> u32 \<Rightarrow> 'w \<Rightarrow> 'w option) \<Rightarrow> bool" where
  "quiet h run \<longleftrightarrow> (\<forall>e w. eh_IsDeletable h e w)
     \<and> (\<forall>a t d p w e. ep_heap p a = Some e \<longrightarrow>
          eh_Execute h a t d (p, w) = map_option (\<lambda>w'. (True, p, w')) (run (be_event e) t d w))"

text \<open>The reference: the events one after the other, each run, aborted or skipped as its state says.\<close>

fun deliver ::
    "('e \<Rightarrow> u64 \<Rightarrow> u32 \<Rightarrow> 'w \<Rightarrow> 'w option) \<Rightarrow> ('e \<Rightarrow> u64 \<Rightarrow> 'w \<Rightarrow> 'w option) \<Rightarrow> u64 \<Rightarrow> u32
     \<Rightarrow> 'e basic_event list \<Rightarrow> 'w \<Rightarrow> 'w option" where
  "deliver run ab t d [] w = Some w"
| "deliver run ab t d (e # es) w =
     Option.bind
       (case be_abortState e of
          STATE_RUNNING \<Rightarrow> run (be_event e) t d w
        | STATE_ABORT_SCHEDULED \<Rightarrow> ab (be_event e) t w
        | STATE_ABORTED \<Rightarrow> Some w)
       (deliver run ab t d es)"

text \<open>The processor when the given events are gone.\<close>

definition ep_drop :: "(u64 \<times> nat) list \<Rightarrow> 'e event_processor \<Rightarrow> 'e event_processor" where
  "ep_drop xs p =
     p\<lparr>ep_events := filter (\<lambda>x. x \<notin> set xs) (ep_events p),
       ep_heap := (\<lambda>a. if a \<in> snd ` set xs then None else ep_heap p a)\<rparr>"

locale quiet_events =
  fixes h :: "('e, 'w) event_handlers" and run :: "'e \<Rightarrow> u64 \<Rightarrow> u32 \<Rightarrow> 'w \<Rightarrow> 'w option"
  assumes quiet_h: "quiet h run"
begin

lemma dispatch_quiet:
  assumes "ep_heap p a = Some e"
  shows "ep_dispatch h d a (p, w) =
    map_option (Pair (ep_delete a p)) (deliver run (eh_Abort h) (ep_time p) d [e] w)"
proof -
  from quiet_h assms have ex: "eh_Execute h a (ep_time p) d (p, w)
      = map_option (\<lambda>w'. (True, p, w')) (run (be_event e) (ep_time p) d w)" for w
    unfolding quiet_def by blast
  from quiet_h have del: "eh_IsDeletable h x v" for x v unfolding quiet_def by blast
  show ?thesis
    by (cases "be_abortState e"; cases "run (be_event e) (ep_time p) d w"; cases "eh_Abort h (be_event e) (ep_time p) w")
      (simp_all add: ep_dispatch_def assms ex del IsRunning_def IsAbortScheduled_def IsAborted_def SetAborted_def
        ep_change_def ep_delete_def)
qed

lemma loop_quiet:
  assumes "ep_wf p" and "takeWhile (\<lambda>x. fst x \<le> ep_time p) (ep_events p) = xs"
  shows "ep_loop h d (p, w) = map_option (Pair (ep_drop xs p))
    (deliver run (eh_Abort h) (ep_time p) d (map (the \<circ> ep_heap p \<circ> snd) xs) w)"
  using assms
proof (induction xs arbitrary: p w)
  case Nil
  then have "ep_events p = [] \<or> (\<exists>x es. ep_events p = x # es \<and> \<not> fst x \<le> ep_time p)"
    by (cases "ep_events p") (auto split: if_splits)
  moreover have "ep_drop [] p = p" by (simp add: ep_drop_def)
  ultimately show ?case by (subst ep_loop.simps) auto
next
  case (Cons x xs)
  note wf = ep_wfD [OF Cons.prems(1)]
  from Cons.prems(2) obtain es where es: "ep_events p = x # es" "fst x \<le> ep_time p"
      "takeWhile (\<lambda>x. fst x \<le> ep_time p) es = xs"
    by (cases "ep_events p") (auto split: if_splits)
  from wf(3) [of x] es obtain e where e: "ep_heap p (snd x) = Some e" by auto
  let ?q = "ep_delete (snd x) (p\<lparr>ep_events := es\<rparr>)"
  have "snd y \<noteq> snd x" if "y \<in> set es" for y by (rule distinct_snd [OF wf(2) [unfolded es(1)] that])
  then have other: "ep_heap ?q (snd y) = ep_heap p (snd y)" if "y \<in> set es" for y
    using that by (simp add: ep_delete_def)
  have "ep_wf ?q"
    using wf other unfolding ep_wf_def es(1) by (auto simp: ep_delete_def split: if_splits)
  moreover have "takeWhile (\<lambda>x. fst x \<le> ep_time ?q) (ep_events ?q) = xs" using es(3) by (simp add: ep_delete_def)
  ultimately have IH: "ep_loop h d (?q, w) = map_option (Pair (ep_drop xs ?q))
    (deliver run (eh_Abort h) (ep_time p) d (map (the \<circ> ep_heap ?q \<circ> snd) xs) w)" for w
    using Cons.IH [of ?q w] by (simp add: ep_delete_def comp_def)
  have "map (the \<circ> ep_heap ?q \<circ> snd) xs = map (the \<circ> ep_heap p \<circ> snd) xs"
    using other es(3) by (auto dest!: set_takeWhileD)
  with IH have IH': "ep_loop h d (?q, w) = map_option (Pair (ep_drop xs ?q))
    (deliver run (eh_Abort h) (ep_time p) d (map (the \<circ> ep_heap p \<circ> snd) xs) w)" for w by simp
  have "x \<notin> set es" using wf(2) unfolding es(1) by auto
  then have "filter (\<lambda>y. y \<notin> set (x # xs)) (ep_events p) = filter (\<lambda>y. y \<notin> set xs) es"
    unfolding es(1) by (auto intro: filter_cong)
  then have drop: "ep_drop xs ?q = ep_drop (x # xs) p"
    by (intro event_processor.equality) (auto simp: ep_drop_def ep_delete_def es(1) fun_eq_iff)
  have "ep_dispatch h d (snd x) (p\<lparr>ep_events := es\<rparr>, w)
      = map_option (Pair ?q) (deliver run (eh_Abort h) (ep_time p) d [e] w)"
    using dispatch_quiet [of "p\<lparr>ep_events := es\<rparr>" "snd x" e d w] e by simp
  then have "ep_loop h d (p, w) = Option.bind (deliver run (eh_Abort h) (ep_time p) d [e] w) (\<lambda>w'. ep_loop h d (?q, w'))"
    by (subst ep_loop.simps) (simp add: es(1,2) Option.bind_map_option comp_def)
  also have "\<dots> = map_option (Pair (ep_drop (x # xs) p))
      (deliver run (eh_Abort h) (ep_time p) d (map (the \<circ> ep_heap p \<circ> snd) (x # xs)) w)"
    by (simp add: IH' drop e map_option_bind comp_def)
  finally show ?case .
qed

lemma update_quiet:
  assumes "ep_wf p"
  shows "EventProcessor_Update h d (p, w) =
    (let t = ep_time p + ucast d; due = filter (\<lambda>x. fst x \<le> t) (ep_events p) in
     map_option (Pair (ep_drop due (p\<lparr>ep_time := t\<rparr>)))
       (deliver run (eh_Abort h) t d (map (the \<circ> ep_heap p \<circ> snd) due) w))"
proof -
  let ?p = "p\<lparr>ep_time := ep_time p + ucast d\<rparr>"
  have wf: "ep_wf ?p" using assms by (simp add: ep_wf_def)
  have "takeWhile (\<lambda>x. fst x \<le> t) xs = filter (\<lambda>x. fst x \<le> t) xs" if "keys_sorted xs" for t :: u64 and xs :: "(u64 \<times> nat) list"
    using that by (induction xs) (auto simp: not_le intro!: filter_False [symmetric] less_le_trans)
  from loop_quiet [OF wf refl, of d w] this [OF ep_wfD(1) [OF assms]] show ?thesis
    by (simp add: EventProcessor_Update_def Let_def)
qed

end

lemma ep_wf_drop [keep_laws]:
  assumes "ep_wf p" and "set xs \<subseteq> set (ep_events p)"
  shows "ep_wf (ep_drop xs p)"
proof -
  note wf = ep_wfD [OF assms(1)]
  have "snd y \<notin> snd ` set xs" if "y \<in> set (ep_events p)" "y \<notin> set xs" for y
  proof
    assume "snd y \<in> snd ` set xs"
    then obtain z where "z \<in> set xs" "snd z = snd y" by force
    with wf(2) that(1) assms(2) have "z = y" by (auto simp: distinct_map inj_on_def)
    with \<open>z \<in> set xs\<close> that(2) show False by simp
  qed
  with wf show ?thesis unfolding ep_wf_def
    by (auto simp: ep_drop_def distinct_map_filter keys_sorted_filter)
qed

text \<open>Forced, \<open>KillAllEvents\<close> aborts every event that is not aborted yet, in order, and empties the queue.\<close>

fun abort_all :: "('e \<Rightarrow> u64 \<Rightarrow> 'w \<Rightarrow> 'w option) \<Rightarrow> u64 \<Rightarrow> 'e basic_event list \<Rightarrow> 'w \<Rightarrow> 'w option" where
  "abort_all ab t [] w = Some w"
| "abort_all ab t (e # es) w = Option.bind (if IsAborted e then Some w else ab (be_event e) t w) (abort_all ab t es)"

definition ep_killed :: "(u64 \<times> nat) list \<Rightarrow> (u64 \<times> nat) list \<Rightarrow> 'e event_processor \<Rightarrow> 'e event_processor" where
  "ep_killed ys xs p = p\<lparr>ep_events := ys, ep_heap := (\<lambda>a. if a \<in> snd ` set xs then None else ep_heap p a)\<rparr>"

lemma kill_loop_force:
  assumes "distinct (map snd xs)" and "\<forall>x \<in> set xs. ep_heap p (snd x) \<noteq> None"
  shows "kill_loop h True kept xs (p, w) =
    map_option (Pair (ep_killed (kept @ xs) xs p))
      (abort_all (eh_Abort h) (ep_time p) (map (the \<circ> ep_heap p \<circ> snd) xs) w)"
  using assms
proof (induction xs arbitrary: kept p w)
  case Nil
  show ?case by (simp add: ep_killed_def)
next
  case (Cons x xs)
  then obtain e where e: "ep_heap p (snd x) = Some e" by auto
  let ?q = "ep_delete (snd x) p"
  have ne: "snd y \<noteq> snd x" if "y \<in> set xs" for y by (rule distinct_snd [OF Cons.prems(1) that])
  then have "\<forall>y \<in> set xs. ep_heap ?q (snd y) \<noteq> None" using Cons.prems(2) by (simp add: ep_delete_def)
  with Cons.prems(1) have IH: "kill_loop h True kept xs (?q, w) = map_option (Pair (ep_killed (kept @ xs) xs ?q))
      (abort_all (eh_Abort h) (ep_time ?q) (map (the \<circ> ep_heap ?q \<circ> snd) xs) w)" for kept w
    by (intro Cons.IH) simp_all
  have m: "map (the \<circ> ep_heap ?q \<circ> snd) xs = map (the \<circ> ep_heap p \<circ> snd) xs" using ne by (simp add: ep_delete_def)
  have t: "ep_time ?q = ep_time p" by (simp add: ep_delete_def)
  have q: "ep_killed ys xs ?q = ep_killed ys (x # xs) p" for ys
    by (intro event_processor.equality) (auto simp: ep_killed_def ep_delete_def fun_eq_iff)
  have d: "ep_delete (snd x) (p\<lparr>ep_heap := (ep_heap p)(snd x \<mapsto> v)\<rparr>) = ?q" for v by (simp add: ep_delete_def)
  show ?case
    by (cases "eh_Abort h (be_event e) (ep_time p) w")
      (simp_all add: e IH m [unfolded comp_def] t q d SetAborted_def ep_change_def comp_def)
qed

lemma KillAllEvents_force:
  "ep_wf p \<Longrightarrow> KillAllEvents h True (p, w) =
    map_option (Pair (ep_killed [] (ep_events p) p))
      (abort_all (eh_Abort h) (ep_time p) (map (the \<circ> ep_heap p \<circ> snd) (ep_events p)) w)"
proof -
  assume "ep_wf p"
  note wf = ep_wfD [OF this]
  from wf(3) have "\<forall>x \<in> set (ep_events p). ep_heap p (snd x) \<noteq> None" by fastforce
  from kill_loop_force [OF wf(2) this, of h "[]"] show ?thesis
    by (auto simp: KillAllEvents_def option.map_comp ep_killed_def intro!: option.map_cong)
qed

section \<open>What Update does\<close>


text \<open>Three events: the second is due first, the third is to be aborted, the first is due later.\<close>

definition sample_handlers :: "(nat, (nat \<times> bool) list) event_handlers" where
  "sample_handlers =
     \<lparr>eh_Execute = (\<lambda>a t d (p, w). map_option (\<lambda>e. (True, p, w @ [(be_event e, True)])) (ep_heap p a)),
      eh_Abort = (\<lambda>e t w. Some (w @ [(e, False)])), eh_IsDeletable = (\<lambda>_ _. True)\<rparr>"

definition sample_processor :: "nat event_processor" where
  "sample_processor =
     the (Option.bind (AddEventAtOffset 0 500 (snd (ep_new 7 EventProcessor_new))) (\<lambda>p1.
        Option.bind (AddEventAtOffset 1 100 (snd (ep_new 8 p1))) (\<lambda>p2.
        Option.bind (AddEventAtOffset 2 100 (snd (ep_new 9 p2))) (ScheduleAbort 2))))"

lemma sample_processor_eval:
  "sample_processor =
     \<lparr>ep_time = 0, ep_events = [(100, 1), (100, 2), (500, 0)],
      ep_heap = [0 \<mapsto> (BasicEvent_new 7)\<lparr>be_execTime := 500\<rparr>, 1 \<mapsto> (BasicEvent_new 8)\<lparr>be_execTime := 100\<rparr>,
        2 \<mapsto> (BasicEvent_new 9)\<lparr>be_execTime := 100, be_abortState := STATE_ABORT_SCHEDULED\<rparr>],
      ep_fresh = 3\<rparr>"
  by (simp add: fun_eq_iff sample_processor_def AddEventAtOffset_def ep_AddEvent_def ep_change_def ep_new_def EventProcessor_new_def
      BasicEvent_new_def CalculateTime_def ScheduleAbort_def IsRunning_def)


end
