(* ===== verification/BaseEncoding.thy ===== *)
theory BaseEncoding
  imports Prelude "HOL-Library.Monad_Syntax"
begin

text \<open>
  \<open>src/src/common/Encoding/BaseEncoding.h\<close> with its two instances \<open>B32Impl\<close> of \<open>Base32.cpp\<close> and
  \<open>B64Impl\<close> of \<open>Base64.cpp\<close>. The template argument is the datatype \<open>encoding\<close>. Bytes and characters
  are 8-bit words (a \<open>char\<close> is the byte of its ASCII code), \<open>bitsLeft\<close> is a \<open>nat\<close> of at most 8.
  A failed \<open>ASSERT\<close> and a loop that does not end are \<open>None\<close> for \<open>Encode\<close>; \<open>None\<close> for \<open>Decode\<close> is
  the empty \<open>Optional\<close> the code returns.
\<close>

datatype encoding = B32 | B64

fun BITS_PER_CHAR :: "encoding \<Rightarrow> nat" where
  "BITS_PER_CHAR B32 = 5"
| "BITS_PER_CHAR B64 = 6"

definition PAD_TO :: "encoding \<Rightarrow> nat" where
  "PAD_TO E = lcm 8 (BITS_PER_CHAR E)"

definition PADDING :: u8 where "PADDING = 61"
definition DECODE_ERROR :: u8 where "DECODE_ERROR = 0xFF"

definition B32_Encode :: "u8 \<Rightarrow> u8 option" where
  "B32_Encode v = (if \<not> v < 0x20 then None else if v < 26 then Some (65 + v) else Some (50 + (v - 26)))"

text \<open>The digits 0, 1 and 8 are read as the letters they are mistaken for.\<close>

definition B32_Decode_letter :: "u8 \<Rightarrow> u8" where
  "B32_Decode_letter v =
     (if 65 \<le> v \<and> v \<le> 90 then v - 65
      else if 97 \<le> v \<and> v \<le> 122 then v - 97
      else if 50 \<le> v \<and> v \<le> 55 then (v - 50) + 26
      else DECODE_ERROR)"

definition B32_Decode :: "u8 \<Rightarrow> u8" where
  "B32_Decode v =
     (if v = 48 then B32_Decode_letter 79
      else if v = 49 then B32_Decode_letter 108
      else if v = 56 then B32_Decode_letter 66
      else B32_Decode_letter v)"

definition B64_Encode :: "u8 \<Rightarrow> u8 option" where
  "B64_Encode v =
     (if \<not> v < 0x40 then None
      else if v < 26 then Some (65 + v)
      else if v < 52 then Some (97 + (v - 26))
      else if v < 62 then Some (48 + (v - 52))
      else if v = 62 then Some 43 else Some 47)"

definition B64_Decode :: "u8 \<Rightarrow> u8" where
  "B64_Decode v =
     (if 65 \<le> v \<and> v \<le> 90 then v - 65
      else if 97 \<le> v \<and> v \<le> 122 then (v - 97) + 26
      else if 48 \<le> v \<and> v \<le> 57 then (v - 48) + 52
      else if v = 43 then 62
      else if v = 47 then 63
      else DECODE_ERROR)"

fun enc_char :: "encoding \<Rightarrow> u8 \<Rightarrow> u8 option" where
  "enc_char B32 v = B32_Encode v"
| "enc_char B64 v = B64_Encode v"

fun dec_char :: "encoding \<Rightarrow> u8 \<Rightarrow> u8" where
  "dec_char B32 v = B32_Decode v"
| "dec_char B64 v = B64_Decode v"

definition EncodedSize :: "encoding \<Rightarrow> nat \<Rightarrow> nat" where
  "EncodedSize E n =
     (let bits = n * 8;
          bits' = (if bits mod PAD_TO E \<noteq> 0 then bits + (PAD_TO E - bits mod PAD_TO E) else bits)
      in bits' div BITS_PER_CHAR E)"

definition DecodedSize :: "encoding \<Rightarrow> nat \<Rightarrow> nat" where
  "DecodedSize E n =
     (let bits = n * BITS_PER_CHAR E;
          bits' = (if bits mod PAD_TO E \<noteq> 0 then bits + (PAD_TO E - bits mod PAD_TO E) else bits)
      in bits' div 8)"

section \<open>Encode\<close>

text \<open>
  The main loop: \<open>bl\<close> bits of the first byte are still to be written. A character is cut from one
  byte or from the end of one and the start of the next. The result is the characters and the
  final \<open>bitsLeft\<close>.
\<close>

function enc_loop :: "encoding \<Rightarrow> u8 list \<Rightarrow> nat \<Rightarrow> (u8 list \<times> nat) option" where
  "enc_loop E [] bl = Some ([], bl)"
| "enc_loop E (x # xs) bl =
     (if bl \<ge> BITS_PER_CHAR E then do {
        let bl' = bl - BITS_PER_CHAR E;
        c \<leftarrow> enc_char E (drop_bit bl' x AND mask (BITS_PER_CHAR E));
        (s, r) \<leftarrow> (if bl' = 0 then enc_loop E xs 8 else enc_loop E (x # xs) bl');
        Some (c # s, r)
      } else do {
        let thisC = push_bit (BITS_PER_CHAR E - bl) (x AND mask bl);
        let bl' = bl + (8 - BITS_PER_CHAR E);
        c \<leftarrow> enc_char E (case xs of [] \<Rightarrow> thisC | y # _ \<Rightarrow> thisC OR drop_bit bl' y);
        (s, r) \<leftarrow> enc_loop E xs bl';
        Some (c # s, r)
      })"
  by pat_completeness auto
termination
proof (relation "measures [\<lambda>(E, xs, bl). length xs, \<lambda>(E, xs, bl). bl]", goal_cases)
  case (3 E x xs bl)
  then show ?case by (cases E) auto
qed auto

text \<open>
  The padding loop. With six bits per character it would not end from an odd \<open>bitsLeft\<close>; that the
  main loop never leaves one is part of the theorem below.
\<close>

definition pad_next :: "encoding \<Rightarrow> nat \<Rightarrow> nat" where
  "pad_next E bl = (if bl > BITS_PER_CHAR E then bl - BITS_PER_CHAR E else bl + (8 - BITS_PER_CHAR E))"

partial_function (option) enc_pad :: "encoding \<Rightarrow> nat \<Rightarrow> u8 list option" where
  "enc_pad E bl = (if bl = 8 then Some [] else Option.bind (enc_pad E (pad_next E bl)) (\<lambda>s. Some (PADDING # s)))"

definition base_Encode :: "encoding \<Rightarrow> u8 list \<Rightarrow> u8 list option" where
  "base_Encode E data =
     (if data = [] then Some [] else do {
        (s, bl) \<leftarrow> enc_loop E data 8;
        p \<leftarrow> enc_pad E bl;
        Some (s @ p)
      })"

section \<open>Decode\<close>

fun dec_loop :: "encoding \<Rightarrow> u8 list \<Rightarrow> u8 \<Rightarrow> nat \<Rightarrow> u8 list \<Rightarrow> (u8 list \<times> u8 \<times> nat \<times> u8 list) option" where
  "dec_loop E [] currentByte bl v = Some ([], currentByte, bl, v)"
| "dec_loop E (c # cs) currentByte bl v =
     (if c = PADDING then Some (c # cs, currentByte, bl, v)
      else let cur = dec_char E c in
        if cur = DECODE_ERROR then None
        else if bl > BITS_PER_CHAR E then
          dec_loop E cs (currentByte OR push_bit (bl - BITS_PER_CHAR E) cur) (bl - BITS_PER_CHAR E) v
        else
          let r = BITS_PER_CHAR E - bl in
          dec_loop E cs (push_bit (8 - r) (cur AND mask r)) (8 - r) (v @ [currentByte OR drop_bit r cur]))"

fun dec_pad :: "encoding \<Rightarrow> u8 list \<Rightarrow> nat \<Rightarrow> u8 list" where
  "dec_pad E [] bl = []"
| "dec_pad E (c # cs) bl =
     (if c = PADDING \<and> bl \<noteq> 8 then dec_pad E cs (pad_next E bl) else c # cs)"

definition base_Decode :: "encoding \<Rightarrow> u8 list \<Rightarrow> u8 list option" where
  "base_Decode E data =
     (if data = [] then Some [] else
        case dec_loop E data 0 8 [] of
          None \<Rightarrow> None
        | Some (rest, currentByte, bl, v) \<Rightarrow>
            if currentByte \<noteq> 0 then None
            else if dec_pad E rest bl = [] then Some v else None)"

section \<open>Alphabets\<close>

lemma enc_char_all:
  "list_all (\<lambda>c. case enc_char E c of None \<Rightarrow> False
       | Some k \<Rightarrow> dec_char E k = c \<and> k \<noteq> PADDING \<and> c \<noteq> DECODE_ERROR)
     (map word_of_nat [0..<2 ^ BITS_PER_CHAR E])"
  by (cases E) (simp_all only: BITS_PER_CHAR.simps, code_simp+)

lemma enc_char_Some:
  assumes "c < 2 ^ BITS_PER_CHAR E"
  obtains k where "enc_char E c = Some k" "dec_char E k = c" "k \<noteq> PADDING" "c \<noteq> DECODE_ERROR"
proof -
  have "unat c < 2 ^ BITS_PER_CHAR E"
    using assms by (cases E) (simp_all add: word_less_nat_alt)
  then have "c \<in> set (map word_of_nat [0..<2 ^ BITS_PER_CHAR E])"
    by (auto intro!: image_eqI [of c _ "unat c"])
  with enc_char_all [of E] show thesis
    by (cases "enc_char E c") (force simp: list_all_iff intro: that)+
qed

section \<open>One character, in both directions\<close>

text \<open>Where the loops can stand: with six bits per character only at even positions.\<close>

definition good_pos :: "encoding \<Rightarrow> nat \<Rightarrow> bool" where
  "good_pos E bl \<longleftrightarrow> 1 \<le> bl \<and> bl \<le> 8 \<and> (E = B64 \<longrightarrow> even bl)"

text \<open>What the decoder has of the current byte when the encoder has \<open>bl\<close> bits of it left.\<close>

fun half_byte :: "u8 list \<Rightarrow> nat \<Rightarrow> u8" where
  "half_byte [] bl = 0"
| "half_byte (x # xs) bl = x AND NOT (mask bl)"

lemma half_byte_8 [simp]: "half_byte xs 8 = 0"
  by (cases xs) (auto intro: bit_word_eqI simp: bit_simps)

lemma cut_within:
  fixes x :: u8
  assumes "b < bl"
  shows "x AND NOT (mask bl) OR push_bit (bl - b) (drop_bit (bl - b) x AND mask b) = x AND NOT (mask (bl - b))"
  by (rule bit_word_eqI) (use assms in \<open>auto simp: bit_simps\<close>)

lemma cut_end:
  fixes x :: u8
  shows "x AND NOT (mask b) OR (x AND mask b) = x"
  by (rule bit_word_eqI) (auto simp: bit_simps)

lemma cut_across_byte:
  fixes x y :: u8
  assumes "bl < b" and "b < 8"
  shows "x AND NOT (mask bl) OR drop_bit (b - bl) (push_bit (b - bl) (x AND mask bl) OR drop_bit (bl + (8 - b)) y) = x"
  by (rule bit_word_eqI) (use assms in \<open>auto simp: bit_simps dest: bit_imp_le_length\<close>)

lemma cut_across_rest:
  fixes x y :: u8
  assumes "bl < b" and "b < 8"
  shows "push_bit (8 - (b - bl)) ((push_bit (b - bl) (x AND mask bl) OR drop_bit (bl + (8 - b)) y) AND mask (b - bl))
    = y AND NOT (mask (bl + (8 - b)))"
  by (rule bit_word_eqI) (use assms in \<open>auto simp: bit_simps dest: bit_imp_le_length\<close>)

lemma cut_across_less:
  fixes x y :: u8
  assumes "bl < b" and "b < 8"
  shows "push_bit (b - bl) (x AND mask bl) OR drop_bit (bl + (8 - b)) y < 2 ^ b"
proof -
  let ?c = "push_bit (b - bl) (x AND mask bl) OR drop_bit (bl + (8 - b)) y"
  have c: "?c AND mask b = ?c"
    by (rule bit_word_eqI) (use assms in \<open>auto simp: bit_simps dest: bit_imp_le_length\<close>)
  have "?c AND mask b < 2 ^ b"
    by (rule and_mask_less_size) (use assms in \<open>simp add: word_size\<close>)
  then show ?thesis by (simp only: c)
qed

lemma BITS_less: "BITS_PER_CHAR E < 8" and BITS_pos: "0 < BITS_PER_CHAR E"
  by (cases E; simp)+

section \<open>The loops run in step\<close>

declare enc_loop.simps(2) [simp del]

lemma good_pos_simps:
  "good_pos E 8"
  "good_pos E bl \<Longrightarrow> BITS_PER_CHAR E < bl \<Longrightarrow> good_pos E (bl - BITS_PER_CHAR E)"
  "good_pos E bl \<Longrightarrow> bl < BITS_PER_CHAR E \<Longrightarrow> good_pos E (bl + (8 - BITS_PER_CHAR E))"
  by (cases E; auto simp: good_pos_def)+

text \<open>
  From every position the decoder reads what the encoder wrote and reaches the position the encoder
  reached, having rebuilt the bytes.
\<close>

lemma dec_loop_enc_loop:
  "good_pos E bl \<Longrightarrow> \<exists>s r. enc_loop E ys bl = Some (s, r) \<and> good_pos E r
     \<and> (\<forall>t v. dec_loop E (s @ t) (half_byte ys bl) bl v = dec_loop E t 0 r (v @ ys))"
proof (induction E ys bl rule: enc_loop.induct)
  case (2 E x xs bl)
  let ?b = "BITS_PER_CHAR E"
  consider (within) "?b < bl" | (at_end) "bl = ?b" | (across) "bl < ?b" by linarith
  then show ?case
  proof cases
    case within
    let ?c = "drop_bit (bl - ?b) x AND mask ?b"
    have "?c < 2 ^ ?b" by (rule and_mask_less_size) (simp add: word_size BITS_less)
    then obtain k where k: "enc_char E ?c = Some k" "dec_char E k = ?c" "k \<noteq> PADDING" "?c \<noteq> DECODE_ERROR"
      by (rule enc_char_Some)
    from "2.IH"(2) [OF _ refl, of k] k(1) within good_pos_simps(2) [OF "2.prems" within]
    obtain s r where sr: "enc_loop E (x # xs) (bl - ?b) = Some (s, r)" "good_pos E r"
      "\<And>t v. dec_loop E (s @ t) (half_byte (x # xs) (bl - ?b)) (bl - ?b) v = dec_loop E t 0 r (v @ x # xs)"
      by auto
    have "dec_loop E ((k # s) @ t) (half_byte (x # xs) bl) bl v = dec_loop E t 0 r (v @ x # xs)" for t v
      using sr(3) k within cut_within [OF within, of x] by (simp add: Let_def)
    with sr k within show ?thesis by (simp add: Let_def enc_loop.simps(2) [of E x xs bl])
  next
    case at_end
    let ?c = "x AND mask ?b"
    have "?c < 2 ^ ?b" by (rule and_mask_less_size) (simp add: word_size BITS_less)
    then obtain k where k: "enc_char E ?c = Some k" "dec_char E k = ?c" "k \<noteq> PADDING" "?c \<noteq> DECODE_ERROR"
      by (rule enc_char_Some)
    from "2.IH"(1) [OF _ refl, of k] k(1) at_end good_pos_simps(1) [of E]
    obtain s r where sr: "enc_loop E xs 8 = Some (s, r)" "good_pos E r"
      "\<And>t v. dec_loop E (s @ t) 0 8 v = dec_loop E t 0 r (v @ xs)"
      by auto
    have "dec_loop E ((k # s) @ t) (half_byte (x # xs) bl) bl v = dec_loop E t 0 r (v @ x # xs)" for t v
      using sr(3) [of t "v @ [x]"] k at_end cut_end [of x ?b] by (simp add: Let_def)
    with sr k at_end show ?thesis by (simp add: Let_def enc_loop.simps(2) [of E x xs ?b])
  next
    case across
    define y where "y = (case xs of [] \<Rightarrow> 0 | y # _ \<Rightarrow> y)"
    define n where "n = bl + (8 - ?b)"
    define c where "c = push_bit (?b - bl) (x AND mask bl) OR drop_bit n y"
    have n: "8 - (?b - bl) = n" using across BITS_less [of E] by (simp add: n_def)
    have c: "(case xs of [] \<Rightarrow> push_bit (?b - bl) (x AND mask bl)
        | y # _ \<Rightarrow> push_bit (?b - bl) (x AND mask bl) OR drop_bit n y) = c"
      by (simp add: c_def y_def split: list.split)
    have "c < 2 ^ ?b" unfolding c_def n_def by (rule cut_across_less [OF across BITS_less])
    then obtain k where k: "enc_char E c = Some k" "dec_char E k = c" "k \<noteq> PADDING" "c \<noteq> DECODE_ERROR"
      by (rule enc_char_Some)
    have half: "half_byte xs n = y AND NOT (mask n)" by (cases xs) (simp_all add: y_def)
    from "2.IH"(3) [OF _ refl refl, of k, folded n_def] across k(1) good_pos_simps(3) [OF "2.prems" across]
    obtain s r where sr: "enc_loop E xs n = Some (s, r)" "good_pos E r"
      "\<And>t v. dec_loop E (s @ t) (half_byte xs n) n v = dec_loop E t 0 r (v @ xs)"
      unfolding c n_def [symmetric] by auto
    have "x AND NOT (mask bl) OR drop_bit (?b - bl) c = x"
      unfolding c_def n_def by (rule cut_across_byte [OF across BITS_less])
    moreover have "push_bit n (c AND mask (?b - bl)) = half_byte xs n"
      using cut_across_rest [OF across BITS_less, of x y] n
      unfolding half c_def by (simp only: n_def [symmetric])
    ultimately have "dec_loop E ((k # s) @ t) (half_byte (x # xs) bl) bl v = dec_loop E t 0 r (v @ x # xs)" for t v
      using sr(3) [of t "v @ [x]"] k across by (simp add: Let_def n)
    moreover have "enc_loop E (x # xs) bl = Some (k # s, r)"
      using sr(1) k(1) across
      by (simp only: enc_loop.simps(2) [of E x xs bl] Let_def n_def [symmetric] c) simp
    ultimately show ?thesis using sr(2) by blast
  qed
qed auto

lemma enc_pad_dec_pad:
  assumes "good_pos E bl"
  shows "\<exists>p. enc_pad E bl = Some p \<and> dec_pad E p bl = [] \<and> set p \<subseteq> {PADDING}"
proof (cases E)
  case B32
  from assms have "bl \<in> {1, 2, 3, 4, 5, 6, 7, 8}" by (auto simp: good_pos_def)
  then show ?thesis
    by (elim insertE emptyE; hypsubst; simp add: B32 enc_pad.simps pad_next_def)
next
  case B64
  with assms have "bl \<in> {2, 4, 6, 8}" by (auto simp: good_pos_def elim!: evenE)
  then show ?thesis
    by (elim insertE emptyE; hypsubst; simp add: B64 enc_pad.simps pad_next_def)
qed

text \<open>
  C6: encoding ends and decoding inverts it. For both alphabets and every byte string, \<open>Encode\<close>
  returns (its loops end and its assertion on the character value holds), and \<open>Decode\<close> of the
  result is the byte string.
\<close>

theorem base_Decode_Encode:
  "\<exists>s. base_Encode E data = Some s \<and> base_Decode E s = Some data"
proof (cases "data = []")
  case False
  from dec_loop_enc_loop [OF good_pos_simps(1), of E data] obtain s r where
    enc: "enc_loop E data 8 = Some (s, r)" and r: "good_pos E r" and
    dec: "\<And>t v. dec_loop E (s @ t) 0 8 v = dec_loop E t 0 r (v @ data)" by auto
  from enc_pad_dec_pad [OF r] obtain p where p: "enc_pad E r = Some p" "dec_pad E p r = []"
    "set p \<subseteq> {PADDING}" by blast
  have "dec_loop E p 0 r v = Some (p, 0, r, v)" for v
    using p(3) by (cases p) auto
  then have d: "dec_loop E (s @ p) 0 8 [] = Some (p, 0, r, data)" by (simp add: dec)
  have "s \<noteq> []"
  proof
    assume "s = []"
    with dec [of "[]" "[]"] have "r = 8 \<and> data = []" by simp
    with False show False by simp
  qed
  with enc p d False show ?thesis by (simp add: base_Encode_def base_Decode_def)
qed (simp add: base_Encode_def base_Decode_def)

end
