(* ===== verification/MessageBuffer.thy ===== *)
theory MessageBuffer
  imports Prelude
begin

text \<open>
  \<open>src/src/common/Utilities/MessageBuffer.h\<close>: the receive and send buffer of the network layer. The
  storage is a byte list, the two positions are \<open>nat\<close>s, and \<open>size_type\<close> subtraction wraps modulo
  2^64. \<open>Write\<close> copies without a check: past the end of the storage it is undefined behaviour, here
  \<open>None\<close>. The bytes between the positions are the queue that the buffer stands for (\<open>mb_active\<close>);
  the interpretation \<open>mb\<close> of the locale \<open>byte_queue\<close> is the refinement.
\<close>

record message_buffer =
  mb_wpos :: nat
  mb_rpos :: nat
  mb_storage :: "u8 list"

definition size_minus :: "nat \<Rightarrow> nat \<Rightarrow> nat" where
  "size_minus a b = (a + 2 ^ 64 - b) mod 2 ^ 64"

text \<open>
  \<open>std::vector::resize\<close>: cut, or fill up with zeros; \<open>std::length_error\<close> beyond \<open>max_size\<close>.
\<close>

definition vec_resize :: "nat \<Rightarrow> u8 list \<Rightarrow> u8 list option" where
  "vec_resize n xs =
     (if n < 2 ^ 63 then Some (take n xs @ replicate (n - length xs) 0) else None)"

definition MessageBuffer_sized :: "nat \<Rightarrow> message_buffer option" where
  "MessageBuffer_sized n =
     map_option (\<lambda>s. \<lparr>mb_wpos = 0, mb_rpos = 0, mb_storage = s\<rparr>) (vec_resize n [])"

definition MessageBuffer_new :: "message_buffer option" where
  "MessageBuffer_new =
     map_option (\<lambda>s. \<lparr>mb_wpos = 0, mb_rpos = 0, mb_storage = s\<rparr>) (vec_resize 4096 [])"

definition mb_Reset :: "message_buffer \<Rightarrow> message_buffer" where
  "mb_Reset b = b\<lparr>mb_wpos := 0, mb_rpos := 0\<rparr>"

definition mb_Resize :: "nat \<Rightarrow> message_buffer \<Rightarrow> message_buffer option" where
  "mb_Resize n b = map_option (\<lambda>s. b\<lparr>mb_storage := s\<rparr>) (vec_resize n (mb_storage b))"

definition mb_ReadCompleted :: "nat \<Rightarrow> message_buffer \<Rightarrow> message_buffer" where
  "mb_ReadCompleted n b = b\<lparr>mb_rpos := mb_rpos b + n\<rparr>"

definition mb_WriteCompleted :: "nat \<Rightarrow> message_buffer \<Rightarrow> message_buffer" where
  "mb_WriteCompleted n b = b\<lparr>mb_wpos := mb_wpos b + n\<rparr>"

definition mb_GetActiveSize :: "message_buffer \<Rightarrow> nat" where
  "mb_GetActiveSize b = size_minus (mb_wpos b) (mb_rpos b)"

definition mb_GetRemainingSpace :: "message_buffer \<Rightarrow> nat" where
  "mb_GetRemainingSpace b = size_minus (length (mb_storage b)) (mb_wpos b)"

definition mb_GetBufferSize :: "message_buffer \<Rightarrow> nat" where
  "mb_GetBufferSize b = length (mb_storage b)"

text \<open>\<open>memmove\<close> of \<open>n\<close> bytes from position \<open>i\<close> to the start, and \<open>memcpy\<close> of bytes to position \<open>i\<close>.\<close>

definition move_front :: "nat \<Rightarrow> nat \<Rightarrow> u8 list \<Rightarrow> u8 list" where
  "move_front i n xs = take n (drop i xs) @ drop n xs"

definition copy_to :: "nat \<Rightarrow> u8 list \<Rightarrow> u8 list \<Rightarrow> u8 list" where
  "copy_to i ys xs = take i xs @ ys @ drop (i + length ys) xs"

definition mb_Normalize :: "message_buffer \<Rightarrow> message_buffer" where
  "mb_Normalize b =
     (if mb_rpos b \<noteq> 0 then
        let b1 = (if mb_rpos b \<noteq> mb_wpos b
                  then b\<lparr>mb_storage := move_front (mb_rpos b) (mb_GetActiveSize b) (mb_storage b)\<rparr> else b)
        in b1\<lparr>mb_wpos := size_minus (mb_wpos b) (mb_rpos b), mb_rpos := 0\<rparr>
      else b)"

definition mb_EnsureFreeSpace :: "message_buffer \<Rightarrow> message_buffer option" where
  "mb_EnsureFreeSpace b =
     (if mb_GetRemainingSpace b = 0
      then mb_Resize (length (mb_storage b) * 3 div 2) b else Some b)"

definition mb_Write :: "u8 list \<Rightarrow> message_buffer \<Rightarrow> message_buffer option" where
  "mb_Write data b =
     (if data \<noteq> [] then
        if mb_wpos b + length data \<le> length (mb_storage b)
        then Some (mb_WriteCompleted (length data)
                     (b\<lparr>mb_storage := copy_to (mb_wpos b) data (mb_storage b)\<rparr>))
        else None
      else Some b)"

text \<open>\<open>Move\<close> hands the storage out and leaves an empty one, as a moved-from vector is.\<close>

definition mb_Move :: "message_buffer \<Rightarrow> u8 list \<times> message_buffer" where
  "mb_Move b = (mb_storage b, b\<lparr>mb_wpos := 0, mb_rpos := 0, mb_storage := []\<rparr>)"

section \<open>The queue it stands for\<close>

definition mb_wf :: "message_buffer \<Rightarrow> bool" where
  "mb_wf b \<longleftrightarrow> mb_rpos b \<le> mb_wpos b \<and> mb_wpos b \<le> length (mb_storage b)
     \<and> length (mb_storage b) < 2 ^ 63"

definition mb_active :: "message_buffer \<Rightarrow> u8 list" where
  "mb_active b = take (mb_wpos b - mb_rpos b) (drop (mb_rpos b) (mb_storage b))"

text \<open>
  What the sockets rely on: a queue of bytes with room at its end. \<open>tidy\<close> and \<open>grow\<close> are free to
  move the bytes but not to change them.
\<close>

locale byte_queue =
  fixes active :: "'b \<Rightarrow> u8 list" and ok :: "'b \<Rightarrow> bool" and room :: "'b \<Rightarrow> nat"
    and put :: "u8 list \<Rightarrow> 'b \<Rightarrow> 'b option" and get :: "nat \<Rightarrow> 'b \<Rightarrow> 'b"
    and tidy :: "'b \<Rightarrow> 'b" and grow :: "'b \<Rightarrow> 'b option"
  assumes put_fits: "ok b \<Longrightarrow> length d \<le> room b \<Longrightarrow>
      \<exists>b'. put d b = Some b' \<and> ok b' \<and> active b' = active b @ d"
    and get_active: "ok b \<Longrightarrow> n \<le> length (active b) \<Longrightarrow> ok (get n b) \<and> active (get n b) = drop n (active b)"
    and tidy_active: "ok b \<Longrightarrow> ok (tidy b) \<and> active (tidy b) = active b \<and> room b \<le> room (tidy b)"
    and grow_active: "ok b \<Longrightarrow> grow b = Some b' \<Longrightarrow>
      ok b' \<and> active b' = active b \<and> room b \<le> room b'"
begin

text \<open>Bytes come out in the order they went in, whatever the buffer did in between.\<close>

lemma fifo:
  assumes "ok b" and "length d \<le> room b" and "put d b = Some b1" and "grow (tidy b1) = Some b2"
    and "n \<le> length (active b @ d)"
  shows "take n (active b2) = take n (active b @ d) \<and> active (get n b2) = drop n (active b @ d)"
proof -
  from put_fits [OF assms(1,2)] assms(3) have "ok b1" "active b1 = active b @ d" by auto
  with tidy_active have "ok (tidy b1)" "active (tidy b1) = active b @ d" by auto
  with grow_active assms(4) have "ok b2" "active b2 = active b @ d" by auto
  with get_active assms(5) show ?thesis by auto
qed

end

lemma size_minus_le:
  assumes "b \<le> a" and "a < 2 ^ 64"
  shows "size_minus a b = a - b"
proof -
  from assms(1) have "a + 2 ^ 64 - b = (a - b) + 2 ^ 64" by simp
  with assms(2) show ?thesis unfolding size_minus_def by (simp only: mod_add_self2) simp
qed

lemma mb_GetActiveSize_wf: "mb_wf b \<Longrightarrow> mb_GetActiveSize b = length (mb_active b)"
  by (auto simp: mb_wf_def mb_GetActiveSize_def mb_active_def size_minus_le)

lemma mb_GetRemainingSpace_wf:
  "mb_wf b \<Longrightarrow> mb_GetRemainingSpace b = length (mb_storage b) - mb_wpos b"
  by (simp add: mb_wf_def mb_GetRemainingSpace_def size_minus_le)

lemma copy_to_window:
  assumes "r \<le> w" and "w + length d \<le> length s"
  shows "take (w + length d - r) (drop r (copy_to w d s)) = take (w - r) (drop r s) @ d"
proof -
  have "drop r (copy_to w d s) = take (w - r) (drop r s) @ d @ drop (w + length d) s"
    using assms by (simp add: copy_to_def drop_take)
  moreover have "w + length d - r = length (take (w - r) (drop r s)) + length d"
    using assms by simp
  ultimately show ?thesis by (simp only: take_append) simp
qed

lemma mb_Write_fits:
  assumes "mb_wf b" and "length d \<le> mb_GetRemainingSpace b"
  shows "\<exists>b'. mb_Write d b = Some b' \<and> mb_wf b' \<and> mb_active b' = mb_active b @ d"
proof (cases "d = []")
  case False
  from assms have fit: "mb_wpos b + length d \<le> length (mb_storage b)"
    by (auto simp: mb_GetRemainingSpace_wf mb_wf_def)
  then obtain b' where b': "mb_Write d b = Some b'"
    and "b' = b\<lparr>mb_storage := copy_to (mb_wpos b) d (mb_storage b), mb_wpos := mb_wpos b + length d\<rparr>"
    by (simp add: mb_Write_def False mb_WriteCompleted_def)
  moreover from this fit assms(1) have "mb_wf b'" by (simp add: mb_wf_def copy_to_def)
  moreover from calculation(2) fit assms(1) have "mb_active b' = mb_active b @ d"
    by (simp add: mb_wf_def mb_active_def copy_to_window)
  ultimately show ?thesis by blast
qed (simp add: mb_Write_def assms)

lemma mb_ReadCompleted_active:
  "mb_wf b \<Longrightarrow> n \<le> length (mb_active b) \<Longrightarrow>
   mb_wf (mb_ReadCompleted n b) \<and> mb_active (mb_ReadCompleted n b) = drop n (mb_active b)"
  by (auto simp: mb_wf_def mb_active_def mb_ReadCompleted_def drop_take add.commute)

lemma mb_Normalize_wf:
  assumes "mb_wf b"
  shows "mb_wf (mb_Normalize b) \<and> mb_active (mb_Normalize b) = mb_active b \<and> mb_rpos (mb_Normalize b) = 0
    \<and> mb_GetRemainingSpace (mb_Normalize b) = mb_GetRemainingSpace b + mb_rpos b"
  using assms
  by (auto simp: mb_Normalize_def mb_wf_def mb_active_def mb_GetActiveSize_def mb_GetRemainingSpace_def
      size_minus_le move_front_def Let_def)

lemma mb_EnsureFreeSpace_wf:
  assumes "mb_wf b" and "mb_EnsureFreeSpace b = Some b'"
  shows "mb_wf b' \<and> mb_active b' = mb_active b \<and> mb_GetRemainingSpace b \<le> mb_GetRemainingSpace b'"
  using assms
  by (auto simp: mb_EnsureFreeSpace_def mb_wf_def mb_active_def mb_GetRemainingSpace_def
      size_minus_le vec_resize_def mb_Resize_def split: if_splits)

interpretation mb: byte_queue mb_active mb_wf mb_GetRemainingSpace mb_Write mb_ReadCompleted
  mb_Normalize mb_EnsureFreeSpace
  by unfold_locales
    (use mb_Write_fits mb_ReadCompleted_active mb_Normalize_wf mb_EnsureFreeSpace_wf in fastforce)+

text \<open>
  C19: the buffer is a byte queue. Writing data that fits the remaining space succeeds, and after
  any compaction and growth the reader finds the old unread bytes followed by the new ones, in
  order; consuming some of them leaves exactly the rest.
\<close>

theorem mb_Write_read_fifo:
  assumes "mb_wf b" and "length d \<le> mb_GetRemainingSpace b" and "n \<le> length (mb_active b @ d)"
  shows "\<exists>b1. mb_Write d b = Some b1 \<and> (\<forall>b2. mb_EnsureFreeSpace (mb_Normalize b1) = Some b2 \<longrightarrow>
      take n (mb_active b2) = take n (mb_active b @ d)
      \<and> mb_active (mb_ReadCompleted n b2) = drop n (mb_active b @ d))"
  using mb.put_fits [OF assms(1,2)] mb.fifo [OF assms(1,2) _ _ assms(3)] by blast

lemma mb_Write_read_fifo_witness:
  "\<exists>b1. mb_Write [7, 8] \<lparr>mb_wpos = 3, mb_rpos = 2, mb_storage = [1, 2, 3, 0, 0]\<rparr> = Some b1
     \<and> (\<forall>b2. mb_EnsureFreeSpace (mb_Normalize b1) = Some b2 \<longrightarrow>
      take 2 (mb_active b2) = take 2 (mb_active \<lparr>mb_wpos = 3, mb_rpos = 2, mb_storage = [1, 2, 3, 0, 0]\<rparr> @ [7, 8])
      \<and> mb_active (mb_ReadCompleted 2 b2)
        = drop 2 (mb_active \<lparr>mb_wpos = 3, mb_rpos = 2, mb_storage = [1, 2, 3, 0, 0]\<rparr> @ [7, 8]))"
  by (rule mb_Write_read_fifo)
    (simp_all add: mb_wf_def mb_GetRemainingSpace_def size_minus_def mb_active_def)

text \<open>
  C8: \<open>EnsureFreeSpace\<close> makes room unless the buffer has fewer than two bytes. Growing by half leaves
  a full buffer of size zero or one as it is; every other full buffer has free space afterwards,
  and no buffer loses unread bytes.
\<close>

theorem mb_EnsureFreeSpace_room:
  assumes "mb_wf b" and "mb_EnsureFreeSpace b = Some b'"
  shows "mb_active b' = mb_active b
    \<and> (mb_GetRemainingSpace b' = 0 \<longleftrightarrow> mb_GetRemainingSpace b = 0 \<and> mb_GetBufferSize b < 2)"
  using mb_EnsureFreeSpace_wf [OF assms] assms
  by (auto simp: mb_EnsureFreeSpace_def mb_wf_def mb_GetRemainingSpace_def mb_GetBufferSize_def
      size_minus_le vec_resize_def mb_Resize_def split: if_splits)

lemma mb_EnsureFreeSpace_room_witness:
  "mb_active (\<lparr>mb_wpos = 1, mb_rpos = 0, mb_storage = [9]\<rparr>) = mb_active \<lparr>mb_wpos = 1, mb_rpos = 0, mb_storage = [9]\<rparr>
    \<and> (mb_GetRemainingSpace \<lparr>mb_wpos = 1, mb_rpos = 0, mb_storage = [9]\<rparr> = 0 \<longleftrightarrow>
       mb_GetRemainingSpace \<lparr>mb_wpos = 1, mb_rpos = 0, mb_storage = [9]\<rparr> = 0
       \<and> mb_GetBufferSize \<lparr>mb_wpos = 1, mb_rpos = 0, mb_storage = [9]\<rparr> < 2)"
  by (rule mb_EnsureFreeSpace_room)
    (simp_all add: mb_wf_def mb_EnsureFreeSpace_def mb_GetRemainingSpace_def size_minus_def
      mb_Resize_def vec_resize_def)

end
