(* ===== verification/Rbac.thy ===== *)
theory Rbac
  imports Prelude "HOL-Library.Monad_Syntax"
begin

text \<open>
  Role based access control: \<open>src/src/server/game/Accounts/RBAC.h\<close> and \<open>RBAC.cpp\<close> (one account's
  permissions) and the part of \<open>AccountMgr.cpp\<close> that loads the permission graph and answers from it.
  A permission table maps an id to its linked permissions; the account's own record has granted,
  denied and computed permissions. Query results are arguments (a list of rows, \<open>None\<close> for the null
  result of an empty query), statements to the login database are outputs in the order they are
  executed. A dereference of a null pointer is \<open>None\<close>. \<open>ExpandPermissions\<close> is a worklist loop whose
  termination is not syntactic; it is a \<open>partial_function\<close>, and that it always returns is proved.
\<close>

record rbac_permission =
  rp_id :: u32
  rp_name :: string
  rp_perms :: "u32 set"

definition RBACPermission_new :: "u32 \<Rightarrow> string \<Rightarrow> rbac_permission" where
  "RBACPermission_new i name = \<lparr>rp_id = i, rp_name = name, rp_perms = {}\<rparr>"

definition AddLinkedPermission :: "u32 \<Rightarrow> rbac_permission \<Rightarrow> rbac_permission" where
  "AddLinkedPermission i p = p\<lparr>rp_perms := insert i (rp_perms p)\<rparr>"

definition RemoveLinkedPermission :: "u32 \<Rightarrow> rbac_permission \<Rightarrow> rbac_permission" where
  "RemoveLinkedPermission i p = p\<lparr>rp_perms := rp_perms p - {i}\<rparr>"

text \<open>The manager: a map from ids to object pointers (a null pointer is \<open>Some None\<close>) and the defaults.\<close>

record account_mgr =
  am_permissions :: "u32 \<Rightarrow> rbac_permission option option"
  am_defaultPermissions :: "u8 \<Rightarrow> u32 set option"

definition ClearRBAC :: "account_mgr \<Rightarrow> account_mgr" where
  "ClearRBAC m = m\<lparr>am_permissions := Map.empty, am_defaultPermissions := Map.empty\<rparr>"

definition GetRBACPermission :: "account_mgr \<Rightarrow> u32 \<Rightarrow> rbac_permission option" where
  "GetRBACPermission m i = (case am_permissions m i of Some p \<Rightarrow> p | None \<Rightarrow> None)"

text \<open>\<open>operator[]\<close> creates the empty set of a security level that has none.\<close>

definition GetRBACDefaultPermissions :: "account_mgr \<Rightarrow> u8 \<Rightarrow> u32 set \<times> account_mgr" where
  "GetRBACDefaultPermissions m secLevel =
     (case am_defaultPermissions m secLevel of
        Some s \<Rightarrow> (s, m)
      | None \<Rightarrow> ({}, m\<lparr>am_defaultPermissions := (am_defaultPermissions m)(secLevel \<mapsto> {})\<rparr>))"

fun load_permissions :: "(u32 \<times> string) list \<Rightarrow> account_mgr \<Rightarrow> account_mgr" where
  "load_permissions [] m = m"
| "load_permissions ((i, name) # rows) m =
     load_permissions rows
       (m\<lparr>am_permissions := (am_permissions m)(i \<mapsto> Some (RBACPermission_new i name))\<rparr>)"

text \<open>
  The loop over the linked permissions keeps the id it is at and the pointer it looked up there;
  the pointer is written through, so it is kept as whether it is null.
\<close>

fun load_linked :: "u32 \<Rightarrow> bool \<Rightarrow> (u32 \<times> u32) list \<Rightarrow> account_mgr \<Rightarrow> account_mgr option" where
  "load_linked permissionId isNull [] m = Some m"
| "load_linked permissionId isNull ((newId, linkedId) # rows) m =
     (let (pid, nul, m1) =
        (if permissionId \<noteq> newId then
           (case am_permissions m newId of
              Some (Some p) \<Rightarrow> (newId, False, m)
            | Some None \<Rightarrow> (newId, True, m)
            | None \<Rightarrow> (newId, True, m\<lparr>am_permissions := (am_permissions m)(newId \<mapsto> None)\<rparr>))
         else (permissionId, isNull, m))
      in if linkedId = pid then load_linked pid nul rows m1
         else if nul then None
         else load_linked pid nul rows
                (m1\<lparr>am_permissions := (am_permissions m1)
                      (pid := map_option (map_option (AddLinkedPermission linkedId)) (am_permissions m1 pid))\<rparr>))"

fun load_defaults :: "u8 \<Rightarrow> bool \<Rightarrow> (u32 \<times> u32) list \<Rightarrow> account_mgr \<Rightarrow> account_mgr" where
  "load_defaults secId isNull [] m = m"
| "load_defaults secId isNull ((newId, permissionId) # rows) m =
     (let sec = (if ucast secId \<noteq> newId \<or> isNull then ucast newId else secId);
          s = (case am_defaultPermissions m sec of Some s \<Rightarrow> s | None \<Rightarrow> {})
      in load_defaults sec False rows
           (m\<lparr>am_defaultPermissions := (am_defaultPermissions m)(sec \<mapsto> insert permissionId s)\<rparr>))"

definition LoadRBAC ::
  "(u32 \<times> string) list option \<Rightarrow> (u32 \<times> u32) list option \<Rightarrow> (u32 \<times> u32) list option
   \<Rightarrow> account_mgr \<Rightarrow> account_mgr option" where
  "LoadRBAC permRows linkedRows defaultRows m =
     (let m0 = ClearRBAC m in
      case permRows of None \<Rightarrow> Some m0
      | Some ps \<Rightarrow> let m1 = load_permissions ps m0 in
          (case linkedRows of None \<Rightarrow> Some m1
           | Some ls \<Rightarrow> do {
               m2 \<leftarrow> load_linked 0 True ls m1;
               (case defaultRows of None \<Rightarrow> Some m2
                | Some ds \<Rightarrow> Some (load_defaults 255 True ds m2))
             }))"

section \<open>One account\<close>

datatype RBACCommandResult =
    RBAC_OK | RBAC_CANT_ADD_ALREADY_ADDED | RBAC_CANT_REVOKE_NOT_IN_LIST
  | RBAC_IN_GRANTED_LIST | RBAC_IN_DENIED_LIST | RBAC_ID_DOES_NOT_EXISTS

record rbac_data =
  rd_id :: u32
  rd_name :: string
  rd_realmId :: "32 word"
  rd_secLevel :: u8
  rd_granted :: "u32 set"
  rd_denied :: "u32 set"
  rd_global :: "u32 set"

datatype rbac_stmt =
    LOGIN_INS_RBAC_ACCOUNT_PERMISSION u32 u32 bool "32 word"
  | LOGIN_DEL_RBAC_ACCOUNT_PERMISSION u32 u32 "32 word"
  | LOGIN_DEL_ACCOUNT_ACCESS u32
  | LOGIN_DEL_ACCOUNT_ACCESS_BY_REALM u32 "32 word"
  | LOGIN_INS_ACCOUNT_ACCESS u32 u8 "32 word"

definition RBACData_new :: "u32 \<Rightarrow> string \<Rightarrow> 32 word \<Rightarrow> u8 \<Rightarrow> rbac_data" where
  "RBACData_new i name realmId secLevel =
     \<lparr>rd_id = i, rd_name = name, rd_realmId = realmId, rd_secLevel = secLevel,
      rd_granted = {}, rd_denied = {}, rd_global = {}\<rparr>"

definition rd_HasPermission :: "u32 \<Rightarrow> rbac_data \<Rightarrow> bool" where
  "rd_HasPermission p d \<longleftrightarrow> p \<in> rd_global d"

definition HasGrantedPermission :: "u32 \<Rightarrow> rbac_data \<Rightarrow> bool" where
  "HasGrantedPermission p d \<longleftrightarrow> p \<in> rd_granted d"

definition HasDeniedPermission :: "u32 \<Rightarrow> rbac_data \<Rightarrow> bool" where
  "HasDeniedPermission p d \<longleftrightarrow> p \<in> rd_denied d"

definition AddGrantedPermission :: "u32 \<Rightarrow> rbac_data \<Rightarrow> rbac_data" where
  "AddGrantedPermission p d = d\<lparr>rd_granted := insert p (rd_granted d)\<rparr>"

definition RemoveGrantedPermission :: "u32 \<Rightarrow> rbac_data \<Rightarrow> rbac_data" where
  "RemoveGrantedPermission p d = d\<lparr>rd_granted := rd_granted d - {p}\<rparr>"

definition AddDeniedPermission :: "u32 \<Rightarrow> rbac_data \<Rightarrow> rbac_data" where
  "AddDeniedPermission p d = d\<lparr>rd_denied := insert p (rd_denied d)\<rparr>"

definition RemoveDeniedPermission :: "u32 \<Rightarrow> rbac_data \<Rightarrow> rbac_data" where
  "RemoveDeniedPermission p d = d\<lparr>rd_denied := rd_denied d - {p}\<rparr>"

definition AddPermissions :: "u32 set \<Rightarrow> u32 set \<Rightarrow> u32 set" where
  "AddPermissions permsFrom permsTo = permsTo \<union> permsFrom"

definition RemovePermissions :: "u32 set \<Rightarrow> u32 set \<Rightarrow> u32 set" where
  "RemovePermissions permsFrom permsToRemove = permsFrom - permsToRemove"

definition ClearData :: "rbac_data \<Rightarrow> rbac_data" where
  "ClearData d = d\<lparr>rd_granted := {}, rd_denied := {}, rd_global := {}\<rparr>"

text \<open>
  \<open>ExpandPermissions\<close>: \<open>toCheck\<close> is a \<open>std::set\<close>, whose first element is its least one; ids without
  a permission object are dropped.
\<close>

partial_function (option) expand_loop :: "account_mgr \<Rightarrow> u32 set \<Rightarrow> u32 set \<Rightarrow> u32 set option" where
  "expand_loop m toCheck permissions =
     (if toCheck = {} then Some permissions
      else case GetRBACPermission m (Min toCheck) of
        None \<Rightarrow> expand_loop m (toCheck - {Min toCheck}) permissions
      | Some p \<Rightarrow>
          expand_loop m
            ((toCheck - {Min toCheck}) \<union> {l \<in> rp_perms p. l \<notin> insert (Min toCheck) permissions})
            (insert (Min toCheck) permissions))"

definition ExpandPermissions :: "account_mgr \<Rightarrow> u32 set \<Rightarrow> u32 set option" where
  "ExpandPermissions m permissions = expand_loop m permissions {}"

definition CalculateNewPermissions :: "account_mgr \<Rightarrow> rbac_data \<Rightarrow> rbac_data option" where
  "CalculateNewPermissions m d = do {
     glob \<leftarrow> ExpandPermissions m (rd_granted d);
     revoked \<leftarrow> ExpandPermissions m (rd_denied d);
     Some (d\<lparr>rd_global := RemovePermissions glob revoked\<rparr>)
   }"

definition SavePermission :: "u32 \<Rightarrow> bool \<Rightarrow> 32 word \<Rightarrow> rbac_data \<Rightarrow> rbac_stmt list" where
  "SavePermission p granted realmId d = [LOGIN_INS_RBAC_ACCOUNT_PERMISSION (rd_id d) p granted realmId]"

definition GrantPermission ::
  "account_mgr \<Rightarrow> u32 \<Rightarrow> 32 word \<Rightarrow> rbac_data \<Rightarrow> (RBACCommandResult \<times> rbac_data \<times> rbac_stmt list) option" where
  "GrantPermission m p realmId d =
     (if GetRBACPermission m p = None then Some (RBAC_ID_DOES_NOT_EXISTS, d, [])
      else if HasDeniedPermission p d then Some (RBAC_IN_DENIED_LIST, d, [])
      else if HasGrantedPermission p d then Some (RBAC_CANT_ADD_ALREADY_ADDED, d, [])
      else let d1 = AddGrantedPermission p d in
        if realmId \<noteq> 0 then do {
          d2 \<leftarrow> CalculateNewPermissions m d1;
          Some (RBAC_OK, d2, SavePermission p True realmId d1)
        } else Some (RBAC_OK, d1, []))"

definition DenyPermission ::
  "account_mgr \<Rightarrow> u32 \<Rightarrow> 32 word \<Rightarrow> rbac_data \<Rightarrow> (RBACCommandResult \<times> rbac_data \<times> rbac_stmt list) option" where
  "DenyPermission m p realmId d =
     (if GetRBACPermission m p = None then Some (RBAC_ID_DOES_NOT_EXISTS, d, [])
      else if HasGrantedPermission p d then Some (RBAC_IN_GRANTED_LIST, d, [])
      else if HasDeniedPermission p d then Some (RBAC_CANT_ADD_ALREADY_ADDED, d, [])
      else let d1 = AddDeniedPermission p d in
        if realmId \<noteq> 0 then do {
          d2 \<leftarrow> CalculateNewPermissions m d1;
          Some (RBAC_OK, d2, SavePermission p False realmId d1)
        } else Some (RBAC_OK, d1, []))"

definition RevokePermission ::
  "account_mgr \<Rightarrow> u32 \<Rightarrow> 32 word \<Rightarrow> rbac_data \<Rightarrow> (RBACCommandResult \<times> rbac_data \<times> rbac_stmt list) option" where
  "RevokePermission m p realmId d =
     (if \<not> HasGrantedPermission p d \<and> \<not> HasDeniedPermission p d
      then Some (RBAC_CANT_REVOKE_NOT_IN_LIST, d, [])
      else let d1 = RemoveDeniedPermission p (RemoveGrantedPermission p d) in
        if realmId \<noteq> 0 then do {
          d2 \<leftarrow> CalculateNewPermissions m d1;
          Some (RBAC_OK, d2, [LOGIN_DEL_RBAC_ACCOUNT_PERMISSION (rd_id d) p realmId])
        } else Some (RBAC_OK, d1, []))"

fun load_rows :: "account_mgr \<Rightarrow> (u32 \<times> bool) list \<Rightarrow> rbac_data \<Rightarrow> rbac_data option" where
  "load_rows m [] d = Some d"
| "load_rows m ((p, granted) # rows) d = do {
     (r, d1, st) \<leftarrow> (if granted then GrantPermission m p 0 d else DenyPermission m p 0 d);
     load_rows m rows d1
   }"

fun grant_all :: "account_mgr \<Rightarrow> u32 list \<Rightarrow> rbac_data \<Rightarrow> rbac_data option" where
  "grant_all m [] d = Some d"
| "grant_all m (p # ps) d = do {
     (r, d1, st) \<leftarrow> GrantPermission m p 0 d;
     grant_all m ps d1
   }"

definition LoadFromDBCallback ::
  "(u32 \<times> bool) list option \<Rightarrow> account_mgr \<Rightarrow> rbac_data \<Rightarrow> (rbac_data \<times> account_mgr) option" where
  "LoadFromDBCallback result m d = do {
     d1 \<leftarrow> (case result of None \<Rightarrow> Some d | Some rows \<Rightarrow> load_rows m rows d);
     let (defaults, m1) = GetRBACDefaultPermissions m (rd_secLevel d);
     d2 \<leftarrow> grant_all m1 (sorted_list_of_set defaults) d1;
     d3 \<leftarrow> CalculateNewPermissions m1 d2;
     Some (d3, m1)
   }"

definition rd_LoadFromDB ::
  "(u32 \<times> bool) list option \<Rightarrow> account_mgr \<Rightarrow> rbac_data \<Rightarrow> (rbac_data \<times> account_mgr) option" where
  "rd_LoadFromDB result m d = LoadFromDBCallback result m (ClearData d)"

definition SetSecurityLevel ::
  "(u32 \<times> bool) list option \<Rightarrow> account_mgr \<Rightarrow> u8 \<Rightarrow> rbac_data \<Rightarrow> (rbac_data \<times> account_mgr) option" where
  "SetSecurityLevel result m lvl d = rd_LoadFromDB result m (d\<lparr>rd_secLevel := lvl\<rparr>)"

definition am_HasPermission ::
  "(u32 \<Rightarrow> u32 \<Rightarrow> u8) \<Rightarrow> (u32 \<times> bool) list option \<Rightarrow> account_mgr \<Rightarrow> u32 \<Rightarrow> u32 \<Rightarrow> u32
   \<Rightarrow> (bool \<times> account_mgr) option" where
  "am_HasPermission GetSecurity result m accountId permissionId realmId =
     (if accountId = 0 then Some (False, m)
      else do {
        (d, m1) \<leftarrow> rd_LoadFromDB result m (RBACData_new accountId [] realmId (GetSecurity accountId realmId));
        Some (rd_HasPermission permissionId d, m1)
      })"

definition UpdateAccountAccess ::
  "(u32 \<times> bool) list option \<Rightarrow> account_mgr \<Rightarrow> rbac_data option \<Rightarrow> u32 \<Rightarrow> u8 \<Rightarrow> 32 word
   \<Rightarrow> (rbac_data option \<times> account_mgr \<times> rbac_stmt list) option" where
  "UpdateAccountAccess result m rbac accountId securityLevel realmId = do {
     (rbac1, m1) \<leftarrow>
       (case rbac of
          Some d \<Rightarrow> if securityLevel \<noteq> rd_secLevel d
                    then map_option (\<lambda>(d1, m1). (Some d1, m1)) (SetSecurityLevel result m securityLevel d)
                    else Some (Some d, m)
        | None \<Rightarrow> Some (None, m));
     let del = (if realmId = -1 then LOGIN_DEL_ACCOUNT_ACCESS accountId
                else LOGIN_DEL_ACCOUNT_ACCESS_BY_REALM accountId realmId);
     let ins = (if securityLevel \<noteq> 0 then [LOGIN_INS_ACCOUNT_ACCESS accountId securityLevel realmId] else []);
     Some (rbac1, m1, del # ins)
   }"

section \<open>What a permission implies\<close>

text \<open>
  \<open>linked m p q\<close>: holding \<open>p\<close> implies \<open>q\<close>, over any number of links between existing permissions.
\<close>

abbreviation known :: "account_mgr \<Rightarrow> u32 \<Rightarrow> bool" where
  "known m p \<equiv> GetRBACPermission m p \<noteq> None"

inductive linked :: "account_mgr \<Rightarrow> u32 \<Rightarrow> u32 \<Rightarrow> bool" for m p where
  self: "known m p \<Longrightarrow> linked m p p"
| link: "linked m p q \<Longrightarrow> GetRBACPermission m q = Some obj \<Longrightarrow> r \<in> rp_perms obj \<Longrightarrow> known m r
         \<Longrightarrow> linked m p r"

inductive_cases linkedE: "linked m p q"

definition implied :: "account_mgr \<Rightarrow> u32 set \<Rightarrow> u32 set" where
  "implied m S = {q. \<exists>p \<in> S. linked m p q}"

lemma linked_known: "linked m p q \<Longrightarrow> known m q"
  by (induction rule: linked.induct) auto

lemma linked_trans: "linked m q r \<Longrightarrow> linked m p q \<Longrightarrow> linked m p r"
  by (induction rule: linked.induct) (auto intro: linked.intros)

lemma implied_mono: "S \<subseteq> T \<Longrightarrow> implied m S \<subseteq> implied m T"
  by (auto simp: implied_def)

text \<open>The links of a set that is closed under them never lead out of it.\<close>

definition links_within :: "account_mgr \<Rightarrow> u32 set \<Rightarrow> u32 set \<Rightarrow> bool" where
  "links_within m P Q \<longleftrightarrow>
     (\<forall>q \<in> P. \<forall>obj. GetRBACPermission m q = Some obj \<longrightarrow> (\<forall>r \<in> rp_perms obj. known m r \<longrightarrow> r \<in> Q))"

lemma implied_closed:
  assumes "links_within m R R" and "\<forall>p \<in> S. known m p \<longrightarrow> p \<in> R"
  shows "implied m S \<subseteq> R"
proof
  fix q assume "q \<in> implied m S"
  then obtain p where p: "p \<in> S" and l: "linked m p q" by (auto simp: implied_def)
  from l show "q \<in> R"
  proof (induction rule: linked.induct)
    case (link q obj r)
    with assms(1) show ?case by (auto simp: links_within_def)
  qed (use assms(2) p in blast)
qed

section \<open>The worklist\<close>

declare expand_loop.simps [code del]

lemma expand_loop_empty: "expand_loop m {} P = Some P"
  by (subst expand_loop.simps) simp

lemma expand_loop_unknown:
  "T \<noteq> {} \<Longrightarrow> GetRBACPermission m (Min T) = None \<Longrightarrow>
   expand_loop m T P = expand_loop m (T - {Min T}) P"
  by (subst expand_loop.simps) simp

lemma expand_loop_known:
  "T \<noteq> {} \<Longrightarrow> GetRBACPermission m (Min T) = Some p \<Longrightarrow>
   expand_loop m T P = expand_loop m
     ((T - {Min T}) \<union> {l \<in> rp_perms p. l \<notin> insert (Min T) P}) (insert (Min T) P)"
  by (subst expand_loop.simps) simp

lemma expand_loop_result:
  "T \<inter> P = {} \<Longrightarrow> links_within m P (P \<union> T) \<Longrightarrow>
   \<exists>R. expand_loop m T P = Some R \<and> P \<subseteq> R \<and> (\<forall>q \<in> T. known m q \<longrightarrow> q \<in> R)
     \<and> links_within m R R \<and> R \<subseteq> P \<union> implied m T"
proof (induction "(T, P)" arbitrary: T P
    rule: wf_induct_rule [OF wf_measures [of "[\<lambda>(T, P). card (- P), \<lambda>(T, P). card T]"]])
  case (1 T P)
  show ?case
  proof (cases "T = {}")
    case True
    with 1(3) show ?thesis by (auto simp: expand_loop_empty links_within_def)
  next
    case False
    define x where "x = Min T"
    have x: "x \<in> T" using False by (simp add: x_def)
    with 1(2) have "x \<notin> P" by blast
    show ?thesis
    proof (cases "GetRBACPermission m x")
      case None
      have "card (T - {x}) < card T" using x by (meson card_Diff1_less finite)
      then have "((T - {x}, P), (T, P)) \<in> measures [\<lambda>(T, P). card (- P), \<lambda>(T, P). card T]" by simp
      moreover have "(T - {x}) \<inter> P = {}" using 1(2) by blast
      moreover have "links_within m P (P \<union> (T - {x}))"
        using 1(3) None by (auto simp: links_within_def)
      ultimately obtain R where "expand_loop m (T - {x}) P = Some R" "P \<subseteq> R"
        "\<forall>q \<in> T - {x}. known m q \<longrightarrow> q \<in> R" "links_within m R R" "R \<subseteq> P \<union> implied m (T - {x})"
        using 1(1) by blast
      moreover have "implied m (T - {x}) \<subseteq> implied m T" by (rule implied_mono) blast
      ultimately show ?thesis
        using expand_loop_unknown [OF False, of m P] None by (auto simp: x_def)
    next
      case (Some obj)
      let ?T = "(T - {x}) \<union> {l \<in> rp_perms obj. l \<notin> insert x P}" and ?P = "insert x P"
      have "card (- ?P) < card (- P)"
        using \<open>x \<notin> P\<close> by (intro psubset_card_mono) auto
      then have "((?T, ?P), (T, P)) \<in> measures [\<lambda>(T, P). card (- P), \<lambda>(T, P). card T]" by simp
      moreover have "?T \<inter> ?P = {}" using 1(2) by blast
      moreover have "links_within m ?P (?P \<union> ?T)"
        using 1(3) Some by (auto simp: links_within_def)
      ultimately obtain R where R: "expand_loop m ?T ?P = Some R" "?P \<subseteq> R"
        "\<forall>q \<in> ?T. known m q \<longrightarrow> q \<in> R" "links_within m R R" "R \<subseteq> ?P \<union> implied m ?T"
        using 1(1) by blast
      have "implied m ?T \<subseteq> implied m T"
      proof
        fix q assume "q \<in> implied m ?T"
        then obtain p where p: "p \<in> T - {x} \<or> p \<in> rp_perms obj" and pq: "linked m p q"
          by (auto simp: implied_def)
        from pq have "known m p" by (induction rule: linked.induct)
        moreover have "linked m x x" using Some by (auto intro: linked.self)
        ultimately have "p \<in> rp_perms obj \<Longrightarrow> linked m x q"
          using Some pq by (blast intro: linked_trans linked.link)
        with p pq x show "q \<in> implied m T" by (auto simp: implied_def)
      qed
      moreover have "x \<in> implied m T" using x Some by (auto simp: implied_def intro: linked.self)
      ultimately have "R \<subseteq> P \<union> implied m T" using R(5) by blast
      moreover have "expand_loop m T P = Some R"
        using expand_loop_known [OF False, of m obj P] Some R(1) by (simp add: x_def)
      ultimately show ?thesis using R(2-4) by auto
    qed
  qed
qed

lemma expand_loop_implied: "expand_loop m S {} = Some (implied m S)"
proof -
  obtain R where R: "expand_loop m S {} = Some R" "\<forall>q \<in> S. known m q \<longrightarrow> q \<in> R"
    "links_within m R R" "R \<subseteq> implied m S"
    using expand_loop_result [of S "{}" m] by (auto simp: links_within_def)
  with implied_closed [of m R S] have "R = implied m S" by blast
  with R(1) show ?thesis by simp
qed

text \<open>
  C9: expanding permissions ends and computes the transitive closure. Whatever the links of the
  permission table are, cycles and links to missing permissions included, \<open>ExpandPermissions\<close>
  returns, and returns exactly the existing permissions that the given ones imply.
\<close>

theorem ExpandPermissions_implied: "ExpandPermissions m S = Some (implied m S)"
  by (simp add: ExpandPermissions_def expand_loop_implied)

lemma CalculateNewPermissions_Some:
  "CalculateNewPermissions m d = Some (d\<lparr>rd_global := implied m (rd_granted d) - implied m (rd_denied d)\<rparr>)"
  by (simp add: CalculateNewPermissions_def ExpandPermissions_def RemovePermissions_def expand_loop_implied)

text \<open>
  C10: a denial beats every grant. After the permissions are recomputed, an action is allowed
  exactly if some granted permission implies it and no denied one does; recomputing never fails.
\<close>

theorem CalculateNewPermissions_allows:
  "\<exists>d'. CalculateNewPermissions m d = Some d' \<and>
     (rd_HasPermission q d' \<longleftrightarrow>
        (\<exists>p. HasGrantedPermission p d \<and> linked m p q) \<and> \<not> (\<exists>p. HasDeniedPermission p d \<and> linked m p q))"
  by (auto simp: CalculateNewPermissions_Some rd_HasPermission_def implied_def
      HasGrantedPermission_def HasDeniedPermission_def)

section \<open>Granting, denying and revoking\<close>

text \<open>No permission is granted and denied at once, and both lists hold existing permissions only.\<close>

definition rd_wf :: "account_mgr \<Rightarrow> rbac_data \<Rightarrow> bool" where
  "rd_wf m d \<longleftrightarrow> rd_granted d \<inter> rd_denied d = {} \<and> (\<forall>p \<in> rd_granted d \<union> rd_denied d. known m p)"

datatype rd_op = RdGrant u32 "32 word" | RdDeny u32 "32 word" | RdRevoke u32 "32 word"

fun rd_step :: "account_mgr \<Rightarrow> rbac_data \<Rightarrow> rd_op \<Rightarrow> rbac_data option" where
  "rd_step m d (RdGrant p r) = map_option (fst \<circ> snd) (GrantPermission m p r d)"
| "rd_step m d (RdDeny p r) = map_option (fst \<circ> snd) (DenyPermission m p r d)"
| "rd_step m d (RdRevoke p r) = map_option (fst \<circ> snd) (RevokePermission m p r d)"

lemmas rd_op_defs = GrantPermission_def DenyPermission_def RevokePermission_def
  HasGrantedPermission_def HasDeniedPermission_def AddGrantedPermission_def AddDeniedPermission_def
  RemoveGrantedPermission_def RemoveDeniedPermission_def CalculateNewPermissions_Some Let_def

lemma rd_step_Some: "\<exists>d'. rd_step m d e = Some d'"
  by (cases e) (auto simp: rd_op_defs)

lemma rd_wf_step: "rd_wf m d \<Longrightarrow> rd_wf m (the (rd_step m d e))"
  by (cases e) (auto simp: rd_wf_def rd_op_defs)

interpretation rd_machine: op_machine "\<lambda>d e. the (rd_step m d e)" "\<lambda>_. True" "rd_wf m"
  for m by unfold_locales (rule rd_wf_step)

text \<open>
  Remark: the three commands keep the lists disjoint. Starting from an account without permissions, no
  sequence of grants, denials and revocations fails, and after it no permission is both granted and
  denied and none is listed that does not exist.
\<close>

theorem rd_lists_disjoint:
  "rd_wf m (foldl (\<lambda>d e. the (rd_step m d e)) (RBACData_new i name realmId lvl) es)
   \<and> rd_step m (foldl (\<lambda>d e. the (rd_step m d e)) (RBACData_new i name realmId lvl) es) e \<noteq> None"
  using rd_machine.inv_run [of m "RBACData_new i name realmId lvl" es] rd_step_Some
  by (simp add: rd_wf_def RBACData_new_def)

section \<open>Loading an account\<close>

lemma GetRBACDefaultPermissions_known:
  "GetRBACPermission (snd (GetRBACDefaultPermissions m l)) = GetRBACPermission m"
  by (auto simp: GetRBACDefaultPermissions_def GetRBACPermission_def fun_eq_iff split: option.splits)

lemma GrantPermission_0:
  "\<exists>r d1 st. GrantPermission m p 0 d = Some (r, d1, st) \<and> rd_denied d1 = rd_denied d
     \<and> rd_granted d1 = rd_granted d \<union> {q. q = p \<and> known m p \<and> p \<notin> rd_denied d}
     \<and> rd_secLevel d1 = rd_secLevel d"
  by (cases "GetRBACPermission m p") (auto simp: rd_op_defs)

lemma DenyPermission_0:
  "\<exists>r d1 st. DenyPermission m p 0 d = Some (r, d1, st) \<and> rd_granted d1 = rd_granted d
     \<and> rd_denied d1 = rd_denied d \<union> {q. q = p \<and> known m p \<and> p \<notin> rd_granted d}
     \<and> rd_secLevel d1 = rd_secLevel d"
  by (cases "GetRBACPermission m p") (auto simp: rd_op_defs)

lemma grant_all_result:
  "rd_wf m d \<Longrightarrow> \<exists>d'. grant_all m ps d = Some d' \<and> rd_wf m d' \<and> rd_denied d' = rd_denied d
     \<and> rd_granted d' = rd_granted d \<union> {p \<in> set ps. known m p \<and> p \<notin> rd_denied d}"
proof (induction ps arbitrary: d)
  case (Cons p ps)
  obtain r d1 st where g: "GrantPermission m p 0 d = Some (r, d1, st)" and
    d1: "rd_denied d1 = rd_denied d" "rd_granted d1 = rd_granted d \<union> {q. q = p \<and> known m p \<and> p \<notin> rd_denied d}"
    using GrantPermission_0 by blast
  have "rd_wf m d1" using Cons.prems d1 by (auto simp: rd_wf_def)
  from Cons.IH [OF this] d1 g show ?case by auto
qed auto

lemma load_row_step:
  assumes "rd_wf m d"
  shows "\<exists>r d1 st. (if b then GrantPermission m p 0 d else DenyPermission m p 0 d) = Some (r, d1, st)
     \<and> rd_secLevel d1 = rd_secLevel d \<and> rd_denied d \<subseteq> rd_denied d1 \<and> rd_granted d \<subseteq> rd_granted d1
     \<and> rd_granted d1 \<subseteq> rd_granted d \<union> {q. q = p \<and> b}
     \<and> (\<not> b \<longrightarrow> known m p \<longrightarrow> p \<notin> rd_granted d \<longrightarrow> p \<in> rd_denied d1) \<and> rd_wf m d1"
proof (cases b)
  case True
  obtain r d1 st where g: "GrantPermission m p 0 d = Some (r, d1, st)" and
    d1: "rd_denied d1 = rd_denied d" "rd_granted d1 = rd_granted d \<union> {q. q = p \<and> known m p \<and> p \<notin> rd_denied d}"
      "rd_secLevel d1 = rd_secLevel d"
    using GrantPermission_0 by blast
  have "rd_wf m d1" using assms d1 by (auto simp: rd_wf_def)
  then show ?thesis using True g d1 by (intro exI [of _ r] exI [of _ d1] exI [of _ st]) auto
next
  case False
  obtain r d1 st where g: "DenyPermission m p 0 d = Some (r, d1, st)" and
    d1: "rd_granted d1 = rd_granted d" "rd_denied d1 = rd_denied d \<union> {q. q = p \<and> known m p \<and> p \<notin> rd_granted d}"
      "rd_secLevel d1 = rd_secLevel d"
    using DenyPermission_0 by blast
  have "rd_wf m d1" using assms d1 by (auto simp: rd_wf_def)
  then show ?thesis using False g d1 by (intro exI [of _ r] exI [of _ d1] exI [of _ st]) auto
qed

lemma load_rows_denied:
  "rd_wf m d \<Longrightarrow> \<exists>d'. load_rows m rows d = Some d' \<and> rd_wf m d' \<and> rd_secLevel d' = rd_secLevel d
     \<and> rd_denied d \<subseteq> rd_denied d' \<and> rd_granted d \<subseteq> rd_granted d'
     \<and> (\<forall>p. (p, False) \<in> set rows \<longrightarrow> (p, True) \<notin> set rows \<longrightarrow> known m p \<longrightarrow> p \<notin> rd_granted d \<longrightarrow> p \<in> rd_denied d')
     \<and> rd_granted d' \<subseteq> rd_granted d \<union> {p. (p, True) \<in> set rows}"
proof (induction rows arbitrary: d)
  case (Cons row rows)
  obtain p b where row: "row = (p, b)" by (cases row)
  obtain r d1 st where
    g: "(if b then GrantPermission m p 0 d else DenyPermission m p 0 d) = Some (r, d1, st)" and
    d1: "rd_secLevel d1 = rd_secLevel d" "rd_denied d \<subseteq> rd_denied d1" "rd_granted d \<subseteq> rd_granted d1"
      "rd_granted d1 \<subseteq> rd_granted d \<union> {q. q = p \<and> b}"
      "\<not> b \<longrightarrow> known m p \<longrightarrow> p \<notin> rd_granted d \<longrightarrow> p \<in> rd_denied d1" and
    wf: "rd_wf m d1"
    using load_row_step [OF Cons.prems, of b p] by blast
  from Cons.IH [OF wf] obtain d' where d': "load_rows m rows d1 = Some d'" "rd_wf m d'"
    "rd_secLevel d' = rd_secLevel d1" "rd_denied d1 \<subseteq> rd_denied d'" "rd_granted d1 \<subseteq> rd_granted d'"
    "\<forall>q. (q, False) \<in> set rows \<longrightarrow> (q, True) \<notin> set rows \<longrightarrow> known m q \<longrightarrow> q \<notin> rd_granted d1 \<longrightarrow> q \<in> rd_denied d'"
    "rd_granted d' \<subseteq> rd_granted d1 \<union> {q. (q, True) \<in> set rows}"
    by blast
  have "q \<in> rd_denied d'" if q: "(q, False) \<in> set (row # rows)" "(q, True) \<notin> set (row # rows)"
    "known m q" "q \<notin> rd_granted d" for q
  proof (cases "q = p \<and> \<not> b")
    case True
    with d1(5) q d'(4) show ?thesis by blast
  next
    case False
    with q have "(q, False) \<in> set rows" "(q, True) \<notin> set rows" by (auto simp: row)
    moreover have "q \<notin> rd_granted d1" using d1(4) q(2,4) by (auto simp: row)
    ultimately show ?thesis using d'(6) q(3) by blast
  qed
  moreover have "load_rows m (row # rows) d = Some d'" using g d'(1) by (simp add: row)
  moreover have "rd_granted d' \<subseteq> rd_granted d \<union> {q. (q, True) \<in> set (row # rows)}"
    using d'(7) d1(4) by (auto simp: row)
  moreover have "rd_secLevel d' = rd_secLevel d" using d'(3) d1(1) by simp
  moreover have "rd_denied d \<subseteq> rd_denied d'" "rd_granted d \<subseteq> rd_granted d'"
    using d'(4,5) d1(2,3) by blast+
  ultimately show ?case using d'(2) by blast
qed auto

text \<open>
  Remark: a denial stored for the account survives loading. Loading always succeeds; and if the
  database denies the account an existing permission and has no row granting it, then after loading
  the action is not allowed, even if the defaults of the account's security level grant it or grant
  something that implies it.
\<close>

theorem LoadFromDB_denied:
  assumes "known m p" and "(p, False) \<in> set rows" and "(p, True) \<notin> set rows"
  shows "\<exists>d' m'. rd_LoadFromDB (Some rows) m d = Some (d', m') \<and> \<not> rd_HasPermission p d'"
proof -
  have "rd_wf m (ClearData d)" by (simp add: rd_wf_def ClearData_def)
  from load_rows_denied [OF this, of rows] obtain d1 where d1: "load_rows m rows (ClearData d) = Some d1"
    "rd_wf m d1" "p \<in> rd_denied d1"
    using assms by (auto simp: ClearData_def)
  obtain defaults m1 where def: "GetRBACDefaultPermissions m (rd_secLevel (ClearData d)) = (defaults, m1)"
    by (cases "GetRBACDefaultPermissions m (rd_secLevel (ClearData d))")
  then have same: "GetRBACPermission m1 = GetRBACPermission m"
    by (metis GetRBACDefaultPermissions_known snd_conv)
  then have "rd_wf m1 d1" using d1(2) by (simp add: rd_wf_def)
  from grant_all_result [OF this, of "sorted_list_of_set defaults"] obtain d2 where
    d2: "grant_all m1 (sorted_list_of_set defaults) d1 = Some d2" "rd_denied d2 = rd_denied d1" by blast
  have "linked m1 p p" using assms(1) by (auto intro: linked.self simp: same)
  then have "p \<in> implied m1 (rd_denied d2)" using d1(3) d2(2) by (auto simp: implied_def)
  then show ?thesis
    using d1(1) d2(1) def
    by (simp add: rd_LoadFromDB_def LoadFromDBCallback_def CalculateNewPermissions_Some rd_HasPermission_def)
qed

lemma LoadFromDB_denied_witness:
  defines "m \<equiv> \<lparr>am_permissions = [3 \<mapsto> Some \<lparr>rp_id = 3, rp_name = ''tele'', rp_perms = {}\<rparr>],
                am_defaultPermissions = [0 \<mapsto> {3}]\<rparr>"
  shows "known m 3 \<and> (\<exists>d' m'. rd_LoadFromDB (Some [(3, False)]) m (RBACData_new 1 ''a'' 1 0) = Some (d', m')
     \<and> \<not> rd_HasPermission 3 d')"
proof
  show k: "known m 3" by (simp add: m_def GetRBACPermission_def)
  show "\<exists>d' m'. rd_LoadFromDB (Some [(3, False)]) m (RBACData_new 1 ''a'' 1 0) = Some (d', m')
     \<and> \<not> rd_HasPermission 3 d'"
    by (rule LoadFromDB_denied [OF k]) simp_all
qed

end
