(* ===== verification/PhaseShift.thy ===== *)
theory PhaseShift
  imports Prelude
begin

text \<open>
  \<open>src/src/server/game/Phasing/PhaseShift.h\<close> and \<open>PhaseShift.cpp\<close>: which phases an object is in, with
  reference counts, and whether two objects can see each other. Flag sets are words, reference
  counts are \<open>int32\<close> (32-bit words: the code tests them for zero only), pointers to condition lists
  and terrain swap records are opaque numbers, an \<open>ObjectGuid\<close> is a 128-bit word whose empty value
  is 0. The \<open>FlatSet\<close> of \<open>PhaseRef\<close> ordered by \<open>Id\<close> is an ordered association list from the id to the
  other members; the two \<open>std::map\<close>s are ordered association lists too.
\<close>

definition DEFAULT_PHASE :: u16 where "DEFAULT_PHASE = 169"

definition PSF_AlwaysVisible :: u32 where "PSF_AlwaysVisible = 0x01"
definition PSF_Inverse :: u32 where "PSF_Inverse = 0x02"
definition PSF_InverseUnphased :: u32 where "PSF_InverseUnphased = 0x04"
definition PSF_Unphased :: u32 where "PSF_Unphased = 0x08"
definition PSF_NoCosmetic :: u32 where "PSF_NoCosmetic = 0x10"

definition PF_Cosmetic :: u16 where "PF_Cosmetic = 0x1"
definition PF_Personal :: u16 where "PF_Personal = 0x2"

lemmas phase_flag_defs = PSF_AlwaysVisible_def PSF_Inverse_def PSF_InverseUnphased_def
  PSF_Unphased_def PSF_NoCosmetic_def

definition HasFlag :: "'a::len word \<Rightarrow> 'a word \<Rightarrow> bool" where
  "HasFlag v f \<longleftrightarrow> v AND f \<noteq> 0"

record phase_ref =
  pr_Flags :: u16
  pr_References :: u32
  pr_AreaConditions :: "nat option"

record visible_map_ref =
  vm_References :: u32
  vm_Info :: "nat option"

record phase_shift =
  ps_Flags :: u32
  ps_PersonalGuid :: "128 word"
  ps_Phases :: "(u16 \<times> phase_ref) list"
  ps_VisibleMapIds :: "(u32 \<times> visible_map_ref) list"
  ps_UiMapPhaseIds :: "(u32 \<times> u32) list"
  ps_NonCosmetic :: u32
  ps_Cosmetic :: u32
  ps_Personal :: u32
  ps_Default :: u32
  ps_IsDb :: bool

definition PhaseShift_new :: phase_shift where
  "PhaseShift_new = \<lparr>ps_Flags = PSF_Unphased, ps_PersonalGuid = 0, ps_Phases = [], ps_VisibleMapIds = [],
     ps_UiMapPhaseIds = [], ps_NonCosmetic = 0, ps_Cosmetic = 0, ps_Personal = 0, ps_Default = 0,
     ps_IsDb = False\<rparr>"

section \<open>Reference counts\<close>

definition UpdateUnphasedFlag :: "phase_shift \<Rightarrow> phase_shift" where
  "UpdateUnphasedFlag s =
     (let inverse = HasFlag (ps_Flags s) PSF_Inverse;
          unphasedFlag = (if \<not> inverse then PSF_Unphased else PSF_InverseUnphased);
          f = ps_Flags s AND NOT (if \<not> inverse then PSF_InverseUnphased else PSF_Unphased)
      in if ps_NonCosmetic s \<noteq> 0 \<and> ps_Default s = 0
         then s\<lparr>ps_Flags := f AND NOT unphasedFlag\<rparr>
         else s\<lparr>ps_Flags := f OR unphasedFlag\<rparr>)"

definition UpdatePersonalGuid :: "phase_shift \<Rightarrow> phase_shift" where
  "UpdatePersonalGuid s = (if ps_Personal s = 0 then s\<lparr>ps_PersonalGuid := 0\<rparr> else s)"

definition count_references :: "u16 \<Rightarrow> u16 \<Rightarrow> u32 \<Rightarrow> phase_shift \<Rightarrow> phase_shift" where
  "count_references i flags references s =
     (let s1 = (if HasFlag flags PF_Cosmetic then s\<lparr>ps_Cosmetic := ps_Cosmetic s + references\<rparr>
                else if i \<noteq> DEFAULT_PHASE then s\<lparr>ps_NonCosmetic := ps_NonCosmetic s + references\<rparr>
                else s\<lparr>ps_Default := ps_Default s + references\<rparr>)
      in if HasFlag flags PF_Personal then s1\<lparr>ps_Personal := ps_Personal s1 + references\<rparr> else s1)"

definition ModifyPhasesReferences :: "u16 \<Rightarrow> u32 \<Rightarrow> phase_shift \<Rightarrow> phase_shift" where
  "ModifyPhasesReferences i references s =
     (case map_of (ps_Phases s) i of
        None \<Rightarrow> s
      | Some r \<Rightarrow>
          let s1 = s\<lparr>ps_Phases := om_upd (\<lambda>r. r\<lparr>pr_References := pr_References r + references\<rparr>) i (ps_Phases s)\<rparr>
          in if \<not> ps_IsDb s then
               let s2 = count_references i (pr_Flags r) references s1;
                   s3 = (if ps_Cosmetic s2 \<noteq> 0 then s2\<lparr>ps_Flags := ps_Flags s2 OR PSF_NoCosmetic\<rparr>
                         else s2\<lparr>ps_Flags := ps_Flags s2 AND NOT PSF_NoCosmetic\<rparr>)
               in UpdatePersonalGuid (UpdateUnphasedFlag s3)
             else s1)"

section \<open>Operations\<close>

text \<open>\<open>Phases.emplace\<close> truncates the id to 16 bits and leaves an element that is there alone.\<close>

definition AddPhase :: "u32 \<Rightarrow> u16 \<Rightarrow> nat option \<Rightarrow> u32 \<Rightarrow> phase_shift \<Rightarrow> bool \<times> phase_shift" where
  "AddPhase phaseId flags areaConditions references s =
     (let i = ucast phaseId;
          inserted = (map_of (ps_Phases s) i = None);
          s1 = (if inserted
                then s\<lparr>ps_Phases := om_set i \<lparr>pr_Flags = flags, pr_References = 0, pr_AreaConditions = None\<rparr> (ps_Phases s)\<rparr>
                else s);
          s2 = ModifyPhasesReferences i references s1;
          s3 = (if areaConditions \<noteq> None
                then s2\<lparr>ps_Phases := om_upd (\<lambda>r. r\<lparr>pr_AreaConditions := areaConditions\<rparr>) i (ps_Phases s2)\<rparr>
                else s2)
      in (inserted, s3))"

definition RemovePhase :: "u32 \<Rightarrow> phase_shift \<Rightarrow> bool \<times> phase_shift" where
  "RemovePhase phaseId s =
     (let i = ucast phaseId in
      case map_of (ps_Phases s) i of
        None \<Rightarrow> (False, s)
      | Some r \<Rightarrow>
          let s1 = ModifyPhasesReferences i (- 1) s
          in if map_option pr_References (map_of (ps_Phases s1) i) = Some 0
             then (True, s1\<lparr>ps_Phases := om_del i (ps_Phases s1)\<rparr>)
             else (False, s1))"

definition HasPhase :: "u32 \<Rightarrow> phase_shift \<Rightarrow> bool" where
  "HasPhase phaseId s \<longleftrightarrow> map_of (ps_Phases s) (ucast phaseId) \<noteq> None"

definition AddVisibleMapId :: "u32 \<Rightarrow> nat option \<Rightarrow> u32 \<Rightarrow> phase_shift \<Rightarrow> bool \<times> phase_shift" where
  "AddVisibleMapId i info references s =
     (case map_of (ps_VisibleMapIds s) i of
        None \<Rightarrow> (True, s\<lparr>ps_VisibleMapIds := om_set i \<lparr>vm_References = references, vm_Info = info\<rparr> (ps_VisibleMapIds s)\<rparr>)
      | Some r \<Rightarrow> (False, s\<lparr>ps_VisibleMapIds := om_upd (\<lambda>r. r\<lparr>vm_References := vm_References r + references\<rparr>) i (ps_VisibleMapIds s)\<rparr>))"

definition RemoveVisibleMapId :: "u32 \<Rightarrow> phase_shift \<Rightarrow> bool \<times> phase_shift" where
  "RemoveVisibleMapId i s =
     (case map_of (ps_VisibleMapIds s) i of
        None \<Rightarrow> (False, s)
      | Some r \<Rightarrow>
          if vm_References r - 1 = 0 then (True, s\<lparr>ps_VisibleMapIds := om_del i (ps_VisibleMapIds s)\<rparr>)
          else (False, s\<lparr>ps_VisibleMapIds := om_upd (\<lambda>r. r\<lparr>vm_References := vm_References r - 1\<rparr>) i (ps_VisibleMapIds s)\<rparr>))"

definition AddUiMapPhaseId :: "u32 \<Rightarrow> u32 \<Rightarrow> phase_shift \<Rightarrow> bool \<times> phase_shift" where
  "AddUiMapPhaseId i references s =
     (case map_of (ps_UiMapPhaseIds s) i of
        None \<Rightarrow> (True, s\<lparr>ps_UiMapPhaseIds := om_set i references (ps_UiMapPhaseIds s)\<rparr>)
      | Some r \<Rightarrow> (False, s\<lparr>ps_UiMapPhaseIds := om_upd (\<lambda>r. r + references) i (ps_UiMapPhaseIds s)\<rparr>))"

definition RemoveUiMapPhaseId :: "u32 \<Rightarrow> phase_shift \<Rightarrow> bool \<times> phase_shift" where
  "RemoveUiMapPhaseId i s =
     (case map_of (ps_UiMapPhaseIds s) i of
        None \<Rightarrow> (False, s)
      | Some r \<Rightarrow>
          if r - 1 = 0 then (True, s\<lparr>ps_UiMapPhaseIds := om_del i (ps_UiMapPhaseIds s)\<rparr>)
          else (False, s\<lparr>ps_UiMapPhaseIds := om_upd (\<lambda>r. r - 1) i (ps_UiMapPhaseIds s)\<rparr>))"

definition ClearPhases :: "phase_shift \<Rightarrow> phase_shift" where
  "ClearPhases s =
     UpdateUnphasedFlag
       (s\<lparr>ps_Flags := ps_Flags s AND (PSF_AlwaysVisible OR PSF_Inverse), ps_PersonalGuid := 0, ps_Phases := [],
          ps_NonCosmetic := 0, ps_Cosmetic := 0, ps_Personal := 0, ps_Default := 0\<rparr>)"

definition ps_Clear :: "phase_shift \<Rightarrow> phase_shift" where
  "ps_Clear s = (ClearPhases s)\<lparr>ps_VisibleMapIds := [], ps_UiMapPhaseIds := []\<rparr>"

definition HasPersonalPhase :: "phase_shift \<Rightarrow> bool" where
  "HasPersonalPhase s \<longleftrightarrow> list_ex (\<lambda>(i, r). HasFlag (pr_Flags r) PF_Personal) (ps_Phases s)"

section \<open>Visibility\<close>

text \<open>\<open>Trinity::Containers::Intersects\<close> with a predicate: two sorted sequences walked in step.\<close>

fun Intersects :: "('k::linorder \<times> 'a) list \<Rightarrow> ('k \<times> 'a) list \<Rightarrow> ('a \<Rightarrow> 'a \<Rightarrow> bool) \<Rightarrow> bool" where
  "Intersects ((i, a) # xs) ((j, b) # ys) P =
     (if i < j then Intersects xs ((j, b) # ys) P
      else if j < i then Intersects ((i, a) # xs) ys P
      else if \<not> P a b then Intersects xs ys P
      else True)"
| "Intersects _ _ P = False"

definition checkInversePhaseShift :: "u16 \<Rightarrow> phase_shift \<Rightarrow> phase_shift \<Rightarrow> bool" where
  "checkInversePhaseShift exclude s excluded =
     (if HasFlag (ps_Flags s) PSF_Unphased \<and> HasFlag (ps_Flags excluded) PSF_InverseUnphased then False
      else \<not> list_ex (\<lambda>(i, r). \<not> HasFlag (pr_Flags r) exclude \<and>
                (case map_of (ps_Phases excluded) i of
                   Some r2 \<Rightarrow> \<not> HasFlag (pr_Flags r2) exclude | None \<Rightarrow> False)) (ps_Phases s))"

definition CanSee :: "phase_shift \<Rightarrow> phase_shift \<Rightarrow> bool" where
  "CanSee s t =
     (if HasFlag (ps_Flags s) PSF_Unphased \<and> HasFlag (ps_Flags t) PSF_Unphased then True
      else if HasFlag (ps_Flags s) PSF_AlwaysVisible \<or> HasFlag (ps_Flags t) PSF_AlwaysVisible then True
      else if HasFlag (ps_Flags s) PSF_Inverse \<and> HasFlag (ps_Flags t) PSF_Inverse then True
      else
        let exclude = (if HasFlag (ps_Flags s) PSF_NoCosmetic \<and> HasFlag (ps_Flags t) PSF_NoCosmetic
                       then PF_Cosmetic else 0)
        in if \<not> HasFlag (ps_Flags s) PSF_Inverse \<and> \<not> HasFlag (ps_Flags t) PSF_Inverse
           then Intersects (ps_Phases s) (ps_Phases t)
                  (\<lambda>mine other. \<not> HasFlag (pr_Flags mine) exclude
                     \<and> (\<not> HasFlag (pr_Flags mine) PF_Personal \<or> ps_PersonalGuid s = ps_PersonalGuid t))
           else if HasFlag (ps_Flags t) PSF_Inverse then checkInversePhaseShift exclude s t
           else checkInversePhaseShift exclude t s)"

section \<open>The counters count\<close>

text \<open>The references held by the phases of one kind.\<close>

definition refs_of :: "(u16 \<Rightarrow> u16 \<Rightarrow> bool) \<Rightarrow> (u16 \<times> phase_ref) list \<Rightarrow> u32" where
  "refs_of P xs = sum_list (map (\<lambda>(i, r). if P i (pr_Flags r) then pr_References r else 0) xs)"

definition is_cosmetic :: "u16 \<Rightarrow> u16 \<Rightarrow> bool" where
  "is_cosmetic i f \<longleftrightarrow> HasFlag f PF_Cosmetic"
definition is_noncosmetic :: "u16 \<Rightarrow> u16 \<Rightarrow> bool" where
  "is_noncosmetic i f \<longleftrightarrow> \<not> HasFlag f PF_Cosmetic \<and> i \<noteq> DEFAULT_PHASE"
definition is_default :: "u16 \<Rightarrow> u16 \<Rightarrow> bool" where
  "is_default i f \<longleftrightarrow> \<not> HasFlag f PF_Cosmetic \<and> i = DEFAULT_PHASE"
definition is_personal :: "u16 \<Rightarrow> u16 \<Rightarrow> bool" where
  "is_personal i f \<longleftrightarrow> HasFlag f PF_Personal"

lemmas phase_kind_defs = is_cosmetic_def is_noncosmetic_def is_default_def is_personal_def

definition ps_counted :: "phase_shift \<Rightarrow> bool" where
  "ps_counted s \<longleftrightarrow>
     ps_Cosmetic s = refs_of is_cosmetic (ps_Phases s) \<and>
     ps_NonCosmetic s = refs_of is_noncosmetic (ps_Phases s) \<and>
     ps_Default s = refs_of is_default (ps_Phases s) \<and>
     ps_Personal s = refs_of is_personal (ps_Phases s)"

text \<open>The derived members: the two computed flags and the owner of personal phases.\<close>

definition ps_derived :: "phase_shift \<Rightarrow> bool" where
  "ps_derived s \<longleftrightarrow>
     (HasFlag (ps_Flags s) PSF_NoCosmetic \<longleftrightarrow> ps_Cosmetic s \<noteq> 0) \<and>
     (HasFlag (ps_Flags s) PSF_Unphased \<longleftrightarrow>
        \<not> HasFlag (ps_Flags s) PSF_Inverse \<and> \<not> (ps_NonCosmetic s \<noteq> 0 \<and> ps_Default s = 0)) \<and>
     (HasFlag (ps_Flags s) PSF_InverseUnphased \<longleftrightarrow>
        HasFlag (ps_Flags s) PSF_Inverse \<and> \<not> (ps_NonCosmetic s \<noteq> 0 \<and> ps_Default s = 0)) \<and>
     (ps_Personal s = 0 \<longrightarrow> ps_PersonalGuid s = 0)"

definition ps_wf :: "phase_shift \<Rightarrow> bool" where
  "ps_wf s \<longleftrightarrow> \<not> ps_IsDb s \<and> keys_strict (ps_Phases s) \<and> ps_counted s \<and> ps_derived s"

lemma refs_of_upd:
  assumes "keys_strict xs" and "map_of xs k = Some r"
    and "pr_Flags (f r) = pr_Flags r" and "pr_References (f r) = pr_References r + d"
  shows "refs_of P (om_upd f k xs) = refs_of P xs + (if P k (pr_Flags r) then d else 0)"
  using assms
proof (induction xs)
  case (Cons x xs)
  obtain i q where x: "x = (i, q)" by (cases x)
  show ?case
  proof (cases "i = k")
    case True
    with Cons.prems(1) have "k \<notin> fst ` set xs" by (auto simp: x)
    then have "om_upd f k xs = xs" by (force simp: om_upd_def intro: map_idI)
    with True Cons.prems show ?thesis by (simp add: x refs_of_def om_upd_def)
  next
    case False
    with Cons show ?thesis by (simp add: x refs_of_def om_upd_def)
  qed
qed simp

lemma refs_of_upd_conditions:
  "refs_of P (om_upd (\<lambda>r. r\<lparr>pr_AreaConditions := c\<rparr>) k xs) = refs_of P xs"
  unfolding refs_of_def om_upd_def map_map
  by (rule arg_cong [where f = sum_list], rule map_cong) auto

lemma refs_of_set_new:
  "map_of xs k = None \<Longrightarrow> pr_References r = 0 \<Longrightarrow> refs_of P (om_set k r xs) = refs_of P xs"
  by (induction k r xs rule: om_set.induct) (auto simp: refs_of_def split: if_splits)

lemma refs_of_del:
  assumes "keys_strict xs" and "map_of xs k = Some r" and "pr_References r = 0"
  shows "refs_of P (om_del k xs) = refs_of P xs"
  using assms
proof (induction xs)
  case (Cons x xs)
  obtain i q where x: "x = (i, q)" by (cases x)
  show ?case
  proof (cases "i = k")
    case True
    with Cons.prems(1) have "k \<notin> fst ` set xs" by (auto simp: x)
    then have "om_del k xs = xs" by (force simp: om_del_def filter_id_conv)
    with True Cons.prems show ?thesis by (simp add: x refs_of_def om_del_def)
  next
    case False
    with Cons show ?thesis by (simp add: x refs_of_def om_del_def)
  qed
qed simp

text \<open>How the single flag bits behave; each flag is one bit, and they differ.\<close>

lemma phase_flag_bits:
  "HasFlag v PSF_AlwaysVisible \<longleftrightarrow> bit v 0" "HasFlag v PSF_Inverse \<longleftrightarrow> bit v 1"
  "HasFlag v PSF_InverseUnphased \<longleftrightarrow> bit v 2" "HasFlag v PSF_Unphased \<longleftrightarrow> bit v 3"
  "HasFlag v PSF_NoCosmetic \<longleftrightarrow> bit v 4"
  using and_mask_test [of v 0] and_mask_test [of v 1] and_mask_test [of v 2] and_mask_test [of v 3]
    and_mask_test [of v 4]
  by (simp_all add: HasFlag_def phase_flag_defs)

lemma phase_flag_const_bits:
  "bit PSF_AlwaysVisible n \<longleftrightarrow> n = 0" "bit PSF_Inverse n \<longleftrightarrow> n = 1"
  "bit PSF_InverseUnphased n \<longleftrightarrow> n = 2" "bit PSF_Unphased n \<longleftrightarrow> n = 3" "bit PSF_NoCosmetic n \<longleftrightarrow> n = 4"
proof -
  have "bit (2 ^ k :: u32) n \<longleftrightarrow> n = k" if "k < 32" for k
    using that by (auto simp: bit_exp_iff)
  from this [of 0] this [of 1] this [of 2] this [of 3] this [of 4]
  show "bit PSF_AlwaysVisible n \<longleftrightarrow> n = 0" "bit PSF_Inverse n \<longleftrightarrow> n = 1"
    "bit PSF_InverseUnphased n \<longleftrightarrow> n = 2" "bit PSF_Unphased n \<longleftrightarrow> n = 3" "bit PSF_NoCosmetic n \<longleftrightarrow> n = 4"
    by (simp_all add: phase_flag_defs)
qed

lemmas flag_simps = phase_flag_bits phase_flag_const_bits bit_and_iff bit_or_iff bit_not_iff

lemma ps_derived_update:
  "ps_derived (UpdatePersonalGuid (UpdateUnphasedFlag
     (if ps_Cosmetic s \<noteq> 0 then s\<lparr>ps_Flags := ps_Flags s OR PSF_NoCosmetic\<rparr>
      else s\<lparr>ps_Flags := ps_Flags s AND NOT PSF_NoCosmetic\<rparr>)))"
  by (auto simp: ps_derived_def UpdatePersonalGuid_def UpdateUnphasedFlag_def Let_def flag_simps)

lemma Update_frame:
  "ps_Phases (UpdatePersonalGuid s) = ps_Phases s" "ps_IsDb (UpdatePersonalGuid s) = ps_IsDb s"
  "ps_counted (UpdatePersonalGuid s) = ps_counted s"
  "ps_Phases (UpdateUnphasedFlag s) = ps_Phases s" "ps_IsDb (UpdateUnphasedFlag s) = ps_IsDb s"
  "ps_counted (UpdateUnphasedFlag s) = ps_counted s"
  "ps_counted (s\<lparr>ps_Flags := f\<rparr>) = ps_counted s"
  by (auto simp: UpdatePersonalGuid_def UpdateUnphasedFlag_def ps_counted_def Let_def)

lemma count_references_counted:
  assumes "keys_strict (ps_Phases s)" and "map_of (ps_Phases s) i = Some r" and "ps_counted s"
  shows "ps_counted (count_references i (pr_Flags r) d
    (s\<lparr>ps_Phases := om_upd (\<lambda>r. r\<lparr>pr_References := pr_References r + d\<rparr>) i (ps_Phases s)\<rparr>))"
  using assms(3) refs_of_upd [OF assms(1,2), of "\<lambda>r. r\<lparr>pr_References := pr_References r + d\<rparr>" d]
  by (auto simp: ps_counted_def count_references_def phase_kind_defs Let_def)

lemma count_references_frame:
  "ps_Phases (count_references i f d s) = ps_Phases s" "ps_IsDb (count_references i f d s) = ps_IsDb s"
  by (auto simp: count_references_def Let_def)

lemma ModifyPhasesReferences_wf:
  assumes "\<not> ps_IsDb s" and "keys_strict (ps_Phases s)" and "ps_counted s"
    and "map_of (ps_Phases s) i = Some r"
  shows "ps_wf (ModifyPhasesReferences i d s)"
  using assms count_references_counted [OF assms(2,4,3), of d]
  by (auto simp: ps_wf_def ModifyPhasesReferences_def Let_def ps_derived_update Update_frame
      count_references_frame)

lemma ModifyPhasesReferences_phases:
  "ps_Phases (ModifyPhasesReferences i d s)
     = om_upd (\<lambda>r. r\<lparr>pr_References := pr_References r + d\<rparr>) i (ps_Phases s)"
proof (cases "map_of (ps_Phases s) i")
  case None
  then have "om_upd f i (ps_Phases s) = ps_Phases s" for f
    by (force simp: om_upd_def map_of_eq_None_iff intro: map_idI)
  with None show ?thesis by (simp add: ModifyPhasesReferences_def)
qed (simp add: ModifyPhasesReferences_def Let_def Update_frame count_references_frame)

lemma ps_wf_conditions:
  "ps_wf (s\<lparr>ps_Phases := om_upd (\<lambda>r. r\<lparr>pr_AreaConditions := c\<rparr>) i (ps_Phases s)\<rparr>) = ps_wf s"
  by (simp add: ps_wf_def ps_counted_def ps_derived_def refs_of_upd_conditions)

lemma ps_wf_AddPhase [keep_laws]:
  assumes "ps_wf s" shows "ps_wf (snd (AddPhase p f c d s))"
proof -
  let ?i = "ucast p :: u16"
  let ?s = "if map_of (ps_Phases s) ?i = None
    then s\<lparr>ps_Phases := om_set ?i \<lparr>pr_Flags = f, pr_References = 0, pr_AreaConditions = None\<rparr> (ps_Phases s)\<rparr>
    else s"
  from assms have "\<not> ps_IsDb ?s" "keys_strict (ps_Phases ?s)" "ps_counted ?s"
    by (auto simp: ps_wf_def ps_counted_def refs_of_set_new om.ok_store)
  moreover obtain r where "map_of (ps_Phases ?s) ?i = Some r"
    using assms by (cases "map_of (ps_Phases s) ?i") (auto simp: ps_wf_def om.lookup_store)
  ultimately have "ps_wf (ModifyPhasesReferences ?i d ?s)" by (rule ModifyPhasesReferences_wf)
  then show ?thesis by (simp add: AddPhase_def Let_def ps_wf_conditions)
qed

lemma ps_wf_RemovePhase [keep_laws]:
  assumes "ps_wf s" shows "ps_wf (snd (RemovePhase p s))"
proof (cases "map_of (ps_Phases s) (ucast p)")
  case (Some r)
  let ?s = "ModifyPhasesReferences (ucast p) (- 1) s"
  from assms Some have wf: "ps_wf ?s" by (intro ModifyPhasesReferences_wf) (auto simp: ps_wf_def)
  show ?thesis
  proof (cases "map_option pr_References (map_of (ps_Phases ?s) (ucast p)) = Some 0")
    case True
    with wf have "ps_wf (?s\<lparr>ps_Phases := om_del (ucast p) (ps_Phases ?s)\<rparr>)"
      by (auto simp: ps_wf_def ps_counted_def ps_derived_def refs_of_del om.ok_drop)
    with True Some show ?thesis by (simp add: RemovePhase_def Let_def)
  qed (use wf Some in \<open>auto simp: RemovePhase_def Let_def\<close>)
qed (use assms in \<open>simp add: RemovePhase_def Let_def\<close>)

lemma ps_wf_ClearPhases [keep_laws]: "ps_wf s \<Longrightarrow> ps_wf (ClearPhases s)"
  by (auto simp: ps_wf_def ClearPhases_def UpdateUnphasedFlag_def ps_counted_def ps_derived_def
      refs_of_def Let_def flag_simps)

datatype ps_op =
    PsAddPhase u32 u16 "nat option" u32 | PsRemovePhase u32 | PsClear | PsClearPhases
  | PsAddVisibleMapId u32 "nat option" u32 | PsRemoveVisibleMapId u32
  | PsAddUiMapPhaseId u32 u32 | PsRemoveUiMapPhaseId u32

fun ps_step :: "phase_shift \<Rightarrow> ps_op \<Rightarrow> phase_shift" where
  "ps_step s (PsAddPhase p f c d) = snd (AddPhase p f c d s)"
| "ps_step s (PsRemovePhase p) = snd (RemovePhase p s)"
| "ps_step s PsClear = ps_Clear s"
| "ps_step s PsClearPhases = ClearPhases s"
| "ps_step s (PsAddVisibleMapId i v d) = snd (AddVisibleMapId i v d s)"
| "ps_step s (PsRemoveVisibleMapId i) = snd (RemoveVisibleMapId i s)"
| "ps_step s (PsAddUiMapPhaseId i d) = snd (AddUiMapPhaseId i d s)"
| "ps_step s (PsRemoveUiMapPhaseId i) = snd (RemoveUiMapPhaseId i s)"

lemma ps_wf_frame:
  "ps_wf (s\<lparr>ps_VisibleMapIds := v\<rparr>) = ps_wf s" "ps_wf (s\<lparr>ps_UiMapPhaseIds := u\<rparr>) = ps_wf s"
  by (simp_all add: ps_wf_def ps_counted_def ps_derived_def)

interpretation ps_machine: op_machine ps_step "\<lambda>_. True" ps_wf
proof
  fix s e assume "ps_wf s"
  then show "ps_wf (ps_step s e)"
    by (cases e) (auto simp: keep_laws ps_Clear_def ps_wf_frame AddVisibleMapId_def
        RemoveVisibleMapId_def AddUiMapPhaseId_def RemoveUiMapPhaseId_def Let_def split: option.splits)
qed


lemma PhaseShift_counters_keys: "keys_strict (ps_Phases (foldl ps_step PhaseShift_new ops))"
proof -
  have "ps_wf PhaseShift_new"
    by (simp add: ps_wf_def ps_counted_def ps_derived_def PhaseShift_new_def refs_of_def flag_simps)
  from ps_machine.inv_run [OF this, of ops] show ?thesis by (simp add: ps_wf_def)
qed

section \<open>Who sees whom\<close>

lemma Intersects_iff:
  "keys_strict xs \<Longrightarrow> keys_strict ys \<Longrightarrow>
   Intersects xs ys P \<longleftrightarrow> (\<exists>i a b. map_of xs i = Some a \<and> map_of ys i = Some b \<and> P a b)"
proof (induction xs ys P rule: Intersects.induct)
  case (1 i a xs j b ys P)
  have gone: "map_of zs k = None" if "\<forall>y \<in> set (map fst zs). l < y" "k \<le> l" for zs :: "('a \<times> 'b) list" and k l
    using that by (force simp: map_of_eq_None_iff)
  from "1.prems" have i: "\<forall>y \<in> set (map fst xs). i < y" and j: "\<forall>y \<in> set (map fst ys). j < y" by auto
  consider "i < j" | "j < i" | "i = j" "\<not> P a b" | "i = j" "P a b" by fastforce
  then show ?case
  proof cases
    case 1
    then have "map_of ((j, b) # ys) i = None" using gone [OF j, of i] by simp
    then have "(map_of ((i, a) # xs) k = Some c \<and> map_of ((j, b) # ys) k = Some d \<and> P c d)
      = (map_of xs k = Some c \<and> map_of ((j, b) # ys) k = Some d \<and> P c d)" for k c d
      by (cases "k = i") auto
    moreover have "Intersects ((i, a) # xs) ((j, b) # ys) P = Intersects xs ((j, b) # ys) P"
      using 1 by simp
    ultimately show ?thesis using 1 "1.IH"(1) "1.prems" by simp
  next
    case 2
    then have "map_of ((i, a) # xs) j = None" using gone [OF i, of j] by simp
    then have "(map_of ((i, a) # xs) k = Some c \<and> map_of ((j, b) # ys) k = Some d \<and> P c d)
      = (map_of ((i, a) # xs) k = Some c \<and> map_of ys k = Some d \<and> P c d)" for k c d
      by (cases "k = j") auto
    moreover have "\<not> i < j" using 2 by simp
    moreover have "Intersects ((i, a) # xs) ((j, b) # ys) P = Intersects ((i, a) # xs) ys P"
      using 2 by auto
    ultimately show ?thesis using 2 "1.IH"(2) "1.prems" by simp
  next
    case 3
    have "map_of xs i = None" "map_of ys i = None" using gone [OF i, of i] gone [OF j, of i] 3 by simp_all
    with 3 have "(map_of ((i, a) # xs) k = Some c \<and> map_of ((j, b) # ys) k = Some d \<and> P c d)
      = (map_of xs k = Some c \<and> map_of ys k = Some d \<and> P c d)" for k c d
      by (cases "k = i") auto
    moreover have "Intersects ((i, a) # xs) ((j, b) # ys) P = Intersects xs ys P"
      using 3 by simp
    ultimately show ?thesis using 3 "1.IH"(3) "1.prems" by simp
  next
    case 4
    then show ?thesis by (intro iffI exI [of _ i]) auto
  qed
qed auto

text \<open>
  C15: seeing each other is what sharing a phase means. Two objects that are neither always visible
  nor inverse nor both unphased, see each other exactly if there is a phase both are in that is not
  a hidden cosmetic one and, if it is personal to the first, has the same owner for both.
\<close>

theorem CanSee_shared_phase:
  assumes "keys_strict (ps_Phases s)" and "keys_strict (ps_Phases t)"
    and "\<not> HasFlag (ps_Flags s) PSF_AlwaysVisible" and "\<not> HasFlag (ps_Flags t) PSF_AlwaysVisible"
    and "\<not> HasFlag (ps_Flags s) PSF_Inverse" and "\<not> HasFlag (ps_Flags t) PSF_Inverse"
    and "\<not> (HasFlag (ps_Flags s) PSF_Unphased \<and> HasFlag (ps_Flags t) PSF_Unphased)"
  shows "CanSee s t \<longleftrightarrow> (\<exists>i r r2. map_of (ps_Phases s) i = Some r \<and> map_of (ps_Phases t) i = Some r2
     \<and> \<not> (HasFlag (pr_Flags r) PF_Cosmetic \<and> HasFlag (ps_Flags s) PSF_NoCosmetic \<and> HasFlag (ps_Flags t) PSF_NoCosmetic)
     \<and> (HasFlag (pr_Flags r) PF_Personal \<longrightarrow> ps_PersonalGuid s = ps_PersonalGuid t))"
proof -
  have "HasFlag f 0 \<longleftrightarrow> False" for f :: u16 by (simp add: HasFlag_def)
  with assms show ?thesis by (auto simp: CanSee_def Let_def Intersects_iff)
qed

lemma CanSee_shared_phase_witness:
  defines "s \<equiv> snd (AddPhase 200 0 None 1 PhaseShift_new)"
  shows "CanSee s s \<longleftrightarrow> (\<exists>i r r2. map_of (ps_Phases s) i = Some r \<and> map_of (ps_Phases s) i = Some r2
     \<and> \<not> (HasFlag (pr_Flags r) PF_Cosmetic \<and> HasFlag (ps_Flags s) PSF_NoCosmetic \<and> HasFlag (ps_Flags s) PSF_NoCosmetic)
     \<and> (HasFlag (pr_Flags r) PF_Personal \<longrightarrow> ps_PersonalGuid s = ps_PersonalGuid s))"
proof (rule CanSee_shared_phase)
  show "keys_strict (ps_Phases s)" "keys_strict (ps_Phases s)"
    using PhaseShift_counters_keys [of "[PsAddPhase 200 0 None 1]"] by (simp_all add: s_def)
  show "\<not> HasFlag (ps_Flags s) PSF_AlwaysVisible" unfolding s_def by code_simp
  show "\<not> HasFlag (ps_Flags s) PSF_AlwaysVisible" unfolding s_def by code_simp
  show "\<not> HasFlag (ps_Flags s) PSF_Inverse" unfolding s_def by code_simp
  show "\<not> HasFlag (ps_Flags s) PSF_Inverse" unfolding s_def by code_simp
  show "\<not> (HasFlag (ps_Flags s) PSF_Unphased \<and> HasFlag (ps_Flags s) PSF_Unphased)" unfolding s_def by code_simp
qed

lemma checkInversePhaseShift_iff:
  "checkInversePhaseShift e s t \<longleftrightarrow>
     \<not> (HasFlag (ps_Flags s) PSF_Unphased \<and> HasFlag (ps_Flags t) PSF_InverseUnphased) \<and>
     (\<forall>(i, r) \<in> set (ps_Phases s). \<not> HasFlag (pr_Flags r) e \<longrightarrow>
        (\<forall>r2. map_of (ps_Phases t) i = Some r2 \<longrightarrow> HasFlag (pr_Flags r2) e))"
  by (auto simp: checkInversePhaseShift_def list_ex_iff split: option.splits)

text \<open>
  Remark: visibility is mutual. If the two objects give the phases they share the same flags, the first
  sees the second exactly if the second sees the first, inverse phasing and personal phases included.
\<close>

theorem CanSee_symmetric:
  assumes "keys_strict (ps_Phases s)" and "keys_strict (ps_Phases t)"
    and "\<forall>i r r2. map_of (ps_Phases s) i = Some r \<longrightarrow> map_of (ps_Phases t) i = Some r2
           \<longrightarrow> pr_Flags r = pr_Flags r2"
  shows "CanSee s t = CanSee t s"
proof -
  have "Intersects (ps_Phases s) (ps_Phases t)
          (\<lambda>mine other. \<not> HasFlag (pr_Flags mine) e
             \<and> (\<not> HasFlag (pr_Flags mine) PF_Personal \<or> ps_PersonalGuid s = ps_PersonalGuid t))
      = Intersects (ps_Phases t) (ps_Phases s)
          (\<lambda>mine other. \<not> HasFlag (pr_Flags mine) e
             \<and> (\<not> HasFlag (pr_Flags mine) PF_Personal \<or> ps_PersonalGuid t = ps_PersonalGuid s))" for e
    using assms(3) unfolding Intersects_iff [OF assms(1,2)] Intersects_iff [OF assms(2,1)] by metis
  then show ?thesis by (auto simp: CanSee_def Let_def)
qed

lemma CanSee_symmetric_witness:
  "CanSee (snd (AddPhase 200 0 None 1 PhaseShift_new)) (snd (AddPhase 201 1 None 1 PhaseShift_new))
     = CanSee (snd (AddPhase 201 1 None 1 PhaseShift_new)) (snd (AddPhase 200 0 None 1 PhaseShift_new))"
  using PhaseShift_counters_keys [of "[PsAddPhase 200 0 None 1]"]
    PhaseShift_counters_keys [of "[PsAddPhase 201 1 None 1]"]
  by (intro CanSee_symmetric)
    (auto simp: AddPhase_def ModifyPhasesReferences_phases PhaseShift_new_def om_upd_def Let_def split: if_splits)

end
