(* ===== verification/TextScan.thy ===== *)
theory TextScan
  imports Prelude "HOL-Library.Char_ord"
begin

text \<open>
  The part of the C and C++ standard libraries that the text form of identifiers goes through: the
  integer presentations \<open>{}\<close>, \<open>{:0wX}\<close> of a format string and the conversions \<open>%u\<close>, \<open>%wx\<close>, literal
  characters of \<open>sscanf\<close>. As in the C standard a conversion skips white space, takes an optional sign
  and, in base 16, an optional \<open>0x\<close>, reads at most its field width, and a value its object cannot hold
  is undefined behaviour (\<open>None\<close>). The locale \<open>numeral\<close> states what printing promises to scanning;
  it is interpreted on both bases.
\<close>

section \<open>Digits\<close>

definition dig_char :: "nat \<Rightarrow> char" where
  "dig_char d = (if d < 10 then char_of (48 + d) else char_of (55 + d))"

definition dig_val :: "nat \<Rightarrow> char \<Rightarrow> nat option" where
  "dig_val b c = (let k = of_char c :: nat in
     let d = (if 48 \<le> k \<and> k < 58 then k - 48
              else if 65 \<le> k \<and> k < 71 then k - 55
              else if 97 \<le> k \<and> k < 103 then k - 87 else 99)
     in if d < b then Some d else None)"

definition is_dig :: "nat \<Rightarrow> char \<Rightarrow> bool" where
  "is_dig b c = (dig_val b c \<noteq> None)"

fun digs :: "nat \<Rightarrow> nat \<Rightarrow> nat list" where
  "digs b n = (if b < 2 \<or> n < b then [n] else digs b (n div b) @ [n mod b])"

declare digs.simps [simp del]

definition num_text :: "nat \<Rightarrow> nat \<Rightarrow> string" where
  "num_text b n = map dig_char (digs b n)"

definition num_val :: "nat \<Rightarrow> string \<Rightarrow> nat" where
  "num_val b s = foldl (\<lambda>a c. a * b + the (dig_val b c)) 0 s"

definition fmt_dec :: "nat \<Rightarrow> string" where
  "fmt_dec n = num_text 10 n"

definition fmt_hex :: "nat \<Rightarrow> nat \<Rightarrow> string" where
  "fmt_hex w n = (let t = num_text 16 n in replicate (w - length t) (CHR ''0'') @ t)"

section \<open>Scanning\<close>

definition is_space :: "char \<Rightarrow> bool" where
  "is_space c = (let k = of_char c :: nat in k = 32 \<or> (9 \<le> k \<and> k \<le> 13))"

definition strip_sign :: "string \<Rightarrow> bool \<times> string" where
  "strip_sign s = (case s of [] \<Rightarrow> (False, s)
     | c # t \<Rightarrow> if c = CHR ''-'' then (True, t) else if c = CHR ''+'' then (False, t) else (False, s))"

definition strip_0x :: "nat \<Rightarrow> string \<Rightarrow> string" where
  "strip_0x b s = (case s of a # x # t \<Rightarrow>
       if b = 16 \<and> a = CHR ''0'' \<and> (x = CHR ''x'' \<or> x = CHR ''X'') then t else s
     | _ \<Rightarrow> s)"

text \<open>The sign, the magnitude and the rest of the input; \<open>None\<close> where the conversion does not match.\<close>

definition scan_num :: "nat \<Rightarrow> nat option \<Rightarrow> string \<Rightarrow> (bool \<times> nat \<times> string) option" where
  "scan_num b w s =
     (let s1 = dropWhile is_space s;
          s2 = (case w of None \<Rightarrow> s1 | Some k \<Rightarrow> take k s1);
          (neg, s3) = strip_sign s2;
          s4 = strip_0x b s3;
          ds = takeWhile (is_dig b) s4
      in if ds = [] then None
         else Some (neg, num_val b ds, drop (length s2 - length s4 + length ds) s1))"

datatype directive = Num nat "nat option" nat | Lit char

text \<open>The values assigned and, if every directive matched, the rest of the input.\<close>

fun sscanf :: "directive list \<Rightarrow> string \<Rightarrow> (nat list \<times> string option) option" where
  "sscanf [] s = Some ([], Some s)"
| "sscanf (Lit c # ds) s =
     (case s of [] \<Rightarrow> Some ([], None)
      | x # t \<Rightarrow> if x = c then sscanf ds t else Some ([], None))"
| "sscanf (Num b w bits # ds) s =
     (case scan_num b w s of None \<Rightarrow> Some ([], None)
      | Some (neg, v, t) \<Rightarrow>
          if v \<ge> 2 ^ bits then None
          else (case sscanf ds t of None \<Rightarrow> None
                | Some (vs, r) \<Rightarrow> Some ((if neg \<and> v \<noteq> 0 then 2 ^ bits - v else v) # vs, r)))"

section \<open>Printing then scanning\<close>

lemma of_char_dig: "d < 16 \<Longrightarrow> of_char (dig_char d) = (if d < 10 then 48 + d else 55 + d)"
  by (simp add: dig_char_def of_char_of)

lemma dig_val_dig_char: "\<lbrakk>d < b; b \<le> 16\<rbrakk> \<Longrightarrow> dig_val b (dig_char d) = Some d"
  by (auto simp: dig_val_def of_char_dig Let_def)

lemma is_dig_dig_char: "\<lbrakk>d < b; b \<le> 16\<rbrakk> \<Longrightarrow> is_dig b (dig_char d)"
  by (simp add: is_dig_def dig_val_dig_char)

lemma digs_bound: "2 \<le> b \<Longrightarrow> \<forall>d \<in> set (digs b n). d < b"
proof (induction b n rule: digs.induct)
  case (1 b n)
  then show ?case by (cases "n < b") (auto simp: digs.simps[of b n])
qed

lemma digs_not_Nil [simp]: "digs b n \<noteq> []"
  by (simp add: digs.simps[of b n])

lemma digs_val: "2 \<le> b \<Longrightarrow> foldl (\<lambda>a d. a * b + d) 0 (digs b n) = n"
proof (induction b n rule: digs.induct)
  case (1 b n)
  then show ?case by (cases "n < b") (auto simp: digs.simps[of b n] div_mult_mod_eq)
qed

lemma digs_length: "\<lbrakk>2 \<le> b; n < b ^ k; 0 < k\<rbrakk> \<Longrightarrow> length (digs b n) \<le> k"
proof (induction b n arbitrary: k rule: digs.induct)
  case (1 b n)
  show ?case
  proof (cases "n < b")
    case True
    then show ?thesis using 1 by (simp add: digs.simps[of b n])
  next
    case False
    have k: "1 < k"
    proof (rule ccontr)
      assume "\<not> 1 < k"
      then have "k = 1" using 1 by simp
      then show False using 1 False by simp
    qed
    have "b ^ k = b ^ (k - 1) * b" using k by (cases k) simp_all
    then have "n div b < b ^ (k - 1)" using 1(3) by (intro less_mult_imp_div_less) simp
    then have "length (digs b (n div b)) \<le> k - 1" using 1 False k by simp
    then show ?thesis using False 1 k by (simp add: digs.simps[of b n])
  qed
qed
lemma num_val_text: "\<lbrakk>2 \<le> b; b \<le> 16\<rbrakk> \<Longrightarrow> num_val b (num_text b n) = n"
proof -
  assume b: "2 \<le> b" "b \<le> 16"
  have "foldl (\<lambda>a c. a * b + the (dig_val b c)) x (map dig_char ds) = foldl (\<lambda>a d. a * b + d) x ds"
    if "\<forall>d \<in> set ds. d < b" for x ds
    using that b by (induction ds arbitrary: x) (simp_all add: dig_val_dig_char)
  from this[OF digs_bound[OF b(1)]] show ?thesis
    using b by (simp add: num_val_def num_text_def digs_val)
qed

lemma num_text_digits: "\<lbrakk>2 \<le> b; b \<le> 16; c \<in> set (num_text b n)\<rbrakk> \<Longrightarrow> is_dig b c"
  using digs_bound[of b n] by (auto simp: num_text_def is_dig_dig_char)

lemma num_text_not_Nil [simp]: "num_text b n \<noteq> []"
  by (simp add: num_text_def)

lemma num_text_length: "\<lbrakk>2 \<le> b; n < b ^ k; 0 < k\<rbrakk> \<Longrightarrow> length (num_text b n) \<le> k"
  by (simp add: num_text_def digs_length)

lemma num_val_zeros: "0 < b \<Longrightarrow> num_val b (replicate k (CHR ''0'') @ s) = num_val b s"
proof -
  assume b: "0 < b"
  have "foldl (\<lambda>a c. a * b + the (dig_val b c)) 0 (replicate k (CHR ''0'')) = 0"
  proof (induction k)
    case (Suc k)
    have "the (dig_val b (CHR ''0'')) = 0" using b by (simp add: dig_val_def)
    with Suc show ?case by simp
  qed simp
  then show ?thesis by (simp add: num_val_def)
qed

lemma is_dig_not_special:
  assumes "is_dig b c" "b \<le> 16"
  shows "\<not> is_space c" "c \<noteq> CHR ''-''" "c \<noteq> CHR ''+''" "c \<noteq> CHR ''x''" "c \<noteq> CHR ''X''"
  using assms by (auto simp: is_dig_def dig_val_def is_space_def Let_def split: if_splits)

text \<open>
  What a scan needs of a numeral: its characters are digits of the base. Whatever stands behind it has
  to end it, or the field width has to.
\<close>

lemma scan_num_digits:
  assumes ds: "ds \<noteq> []" "\<forall>c \<in> set ds. is_dig b c" "b \<le> 16"
    and w: "case w of None \<Rightarrow> True | Some k \<Rightarrow> length ds \<le> k"
    and r: "r = [] \<or> hd r = CHR ''-''"
  shows "scan_num b w (ds @ r) = Some (False, num_val b ds, r)"
proof -
  obtain c t where c: "ds = c # t" using ds by (cases ds) auto
  have dc: "is_dig b c" and dt: "\<forall>x \<in> set t. is_dig b x" using ds c by auto
  note nc = is_dig_not_special[OF dc ds(3)]
  have s1: "dropWhile is_space (ds @ r) = ds @ r" using nc c by simp
  define s2 where "s2 = (case w of None \<Rightarrow> ds @ r | Some k \<Rightarrow> take k (ds @ r))"
  obtain r' where s2: "s2 = ds @ r'" and r': "r' = [] \<or> hd r' = CHR ''-''"
  proof -
    have "s2 = ds @ (case w of None \<Rightarrow> r | Some k \<Rightarrow> take (k - length ds) r)"
      using w by (auto simp: s2_def split: option.splits)
    moreover have tk: "take n r = [] \<or> hd (take n r) = CHR ''-''" for n
      using r by (cases n; cases r) auto
    have "(case w of None \<Rightarrow> r | Some k \<Rightarrow> take (k - length ds) r) = []
        \<or> hd (case w of None \<Rightarrow> r | Some k \<Rightarrow> take (k - length ds) r) = CHR ''-''"
    proof (cases w)
      case None
      then show ?thesis using r by simp
    next
      case (Some k)
      then show ?thesis using tk[of "k - length ds"] by simp
    qed
    ultimately show ?thesis using that by blast
  qed
  have sign: "strip_sign s2 = (False, s2)" using s2 c nc by (simp add: strip_sign_def)
  have ox: "strip_0x b s2 = s2"
  proof (cases t)
    case Nil
    then show ?thesis using s2 c r' by (cases r') (auto simp: strip_0x_def)
  next
    case (Cons x u)
    then have "is_dig b x" using dt by simp
    note not_x = is_dig_not_special(4,5)[OF this ds(3)]
    show ?thesis using s2 c Cons not_x by (simp add: strip_0x_def)
  qed
  have "\<not> is_dig b (CHR ''-'')" using is_dig_not_special(2) ds(3) by auto
  then have "takeWhile (is_dig b) r' = []" using r' by (cases r') auto
  then have tw: "takeWhile (is_dig b) s2 = ds" using s2 ds(2) by (simp add: takeWhile_append2)
  show ?thesis
    unfolding scan_num_def Let_def s1
    using sign ox tw ds(1) by (simp add: s2_def[symmetric] s2)
qed

section \<open>Numerals as an interface\<close>

locale numeral =
  fixes base :: nat and text_of :: "nat \<Rightarrow> string"
  assumes base_ok: "base \<le> 16"
    and text_digits: "\<forall>c \<in> set (text_of n). is_dig base c"
    and text_some: "text_of n \<noteq> []"
    and text_val: "num_val base (text_of n) = n"
begin

lemma scan_text:
  "\<lbrakk>case w of None \<Rightarrow> True | Some k \<Rightarrow> length (text_of n) \<le> k; r = [] \<or> hd r = CHR ''-''\<rbrakk> \<Longrightarrow>
     scan_num base w (text_of n @ r) = Some (False, n, r)"
  using scan_num_digits[of "text_of n" base w r] text_digits text_some base_ok text_val by simp

text \<open>A field followed by a dash or by the end of the text.\<close>

lemma sscanf_field:
  "\<lbrakk>n < 2 ^ bits; case w of None \<Rightarrow> True | Some k \<Rightarrow> length (text_of n) \<le> k\<rbrakk> \<Longrightarrow>
     sscanf (Num base w bits # Lit (CHR ''-'') # ds) (text_of n @ CHR ''-'' # s) =
       (case sscanf ds s of None \<Rightarrow> None | Some (vs, r) \<Rightarrow> Some (n # vs, r))"
  by (simp add: scan_text split: option.split)

lemma sscanf_last:
  "\<lbrakk>n < 2 ^ bits; case w of None \<Rightarrow> True | Some k \<Rightarrow> length (text_of n) \<le> k\<rbrakk> \<Longrightarrow>
     sscanf [Num base w bits] (text_of n) = Some ([n], Some [])"
  using scan_text[where w = w and n = n and r = "[]"] by simp

lemma text_no_nul: "char_of (0::nat) \<notin> set (text_of n)"
proof
  assume "char_of (0::nat) \<in> set (text_of n)"
  then have "is_dig base (char_of (0::nat))" using text_digits by blast
  then show False using base_ok by (simp add: is_dig_def dig_val_def Let_def split: if_splits)
qed

end

interpretation dec: numeral 10 fmt_dec
  by unfold_locales (auto simp: fmt_dec_def num_val_text intro: num_text_digits)

lemma fmt_hex_val: "num_val 16 (fmt_hex w n) = n"
  by (simp add: fmt_hex_def Let_def num_val_zeros num_val_text)

interpretation hex: numeral 16 "fmt_hex w" for w
proof unfold_locales
  have "is_dig 16 (CHR ''0'')" by (simp add: is_dig_def dig_val_def)
  then show "\<forall>c \<in> set (fmt_hex w n). is_dig 16 c" for n
    using num_text_digits[of 16 _ n] by (auto simp: fmt_hex_def Let_def)
qed (simp_all add: fmt_hex_val, simp add: fmt_hex_def Let_def)

lemma fmt_hex_length: "\<lbrakk>n < 16 ^ w; 0 < w\<rbrakk> \<Longrightarrow> length (fmt_hex w n) = w"
  using num_text_length[of 16 n w] by (simp add: fmt_hex_def Let_def)

section \<open>A text longer than the field width is cut\<close>

lemma strip_le:
  "strip_sign s = (neg, t) \<Longrightarrow> length (strip_0x b t) \<le> length s"
  by (auto simp: strip_sign_def strip_0x_def split: list.splits if_splits)

lemma scan_num_cut:
  assumes ds: "ds \<noteq> []" "\<forall>c \<in> set ds. is_dig b c" "b \<le> 16"
  shows "scan_num b (Some (length ds)) (ds @ r) = Some (False, num_val b ds, r)"
proof -
  obtain c t where "ds = c # t" using ds by (cases ds) auto
  then have "\<not> is_space c" using ds is_dig_not_special by auto
  then have s1: "dropWhile is_space (ds @ r) = ds @ r" "dropWhile is_space ds = ds"
    using \<open>ds = c # t\<close> by simp_all
  have "scan_num b (Some (length ds)) ds = Some (False, num_val b ds, [])"
    using scan_num_digits[OF ds, of "Some (length ds)" "[]"] by simp
  then show ?thesis
    unfolding scan_num_def Let_def s1
    using s1 strip_le length_takeWhile_le[of "is_dig b"] by (fastforce split: prod.splits if_splits)
qed

lemma num_val_bound:
  assumes "\<forall>c \<in> set ds. is_dig b c"
  shows "num_val b ds < b ^ length ds"
proof -
  have "foldl (\<lambda>a c. a * b + the (dig_val b c)) x ds < (x + 1) * b ^ length ds" for x
    using assms
  proof (induction ds arbitrary: x)
    case (Cons c ds)
    have "the (dig_val b c) < b" using Cons(2) by (auto simp: is_dig_def dig_val_def Let_def split: if_splits)
    then have "x * b + the (dig_val b c) + 1 \<le> (x + 1) * b" by simp
    moreover have "foldl (\<lambda>a c. a * b + the (dig_val b c)) x (c # ds) < (x * b + the (dig_val b c) + 1) * b ^ length ds"
      using Cons(1)[of "x * b + the (dig_val b c)"] Cons(2) by simp
    ultimately have "foldl (\<lambda>a c. a * b + the (dig_val b c)) x (c # ds) < (x + 1) * b * b ^ length ds"
      using mult_le_mono1 order_less_le_trans by blast
    then show ?case by (simp only: length_Cons power_Suc mult.assoc)
  qed simp
  from this[of 0] show ?thesis by (simp add: num_val_def)
qed

lemma num_text_long: "\<lbrakk>2 \<le> b; b \<le> 16; b ^ k \<le> n\<rbrakk> \<Longrightarrow> k < length (num_text b n)"
proof (rule ccontr)
  assume b: "2 \<le> b" "b \<le> 16" "b ^ k \<le> n" "\<not> k < length (num_text b n)"
  have "n < b ^ length (num_text b n)"
    using num_val_bound[of "num_text b n" b] num_text_digits[of b _ n] num_val_text[of b n] b(1,2) by fastforce
  also have "\<dots> \<le> b ^ k" using b by (intro power_increasing) auto
  finally show False using b by simp
qed

text \<open>A number with more hexadecimal digits than the field is wide is not read back.\<close>

lemma fmt_hex_cut:
  assumes "16 ^ w \<le> n" "0 < w"
  shows "\<exists>v r. v < 16 ^ w \<and> scan_num 16 (Some w) (fmt_hex w n) = Some (False, v, r)"
proof -
  let ?t = "fmt_hex w n"
  have l: "w < length ?t" using num_text_long[of 16 w n] assms by (simp add: fmt_hex_def Let_def)
  have d: "\<forall>c \<in> set (take w ?t). is_dig 16 c" using hex.text_digits by (meson in_set_takeD)
  have lt: "length (take w ?t) = w" using l by simp
  then have ne: "take w ?t \<noteq> []" using assms(2) by auto
  have "scan_num 16 (Some w) ?t = Some (False, num_val 16 (take w ?t), drop w ?t)"
    using scan_num_cut[OF ne d, of "drop w ?t"] lt by simp
  moreover have "num_val 16 (take w ?t) < 16 ^ w" using num_val_bound[OF d] lt by simp
  ultimately show ?thesis by blast
qed

end
