(* ===== verification/ObjectGuid.thy ===== *)
theory ObjectGuid
  imports Prelude "HOL-Library.Monad_Syntax"
begin

text \<open>
  \<open>src/src/server/game/Entities/Object/ObjectGuid.h\<close> and \<open>ObjectGuid.cpp\<close>: the 128 bit identifier of
  every object, its fields, the factory that packs them, its order, its raw bytes and its packed form
  on the wire (\<open>ByteBuffer.h\<close>), and the generator of fresh counters. A guid has the two words of the
  class's array, \<open>raw_hi\<close> is \<open>_data[1]\<close>. A \<open>HighGuid\<close> is its number: the cast in \<open>GetHigh\<close> also
  gives the numbers 55 to 63, which have no name. The id of the running realm (the global \<open>realm\<close>)
  is the parameter \<open>rlm\<close>. The text form is in GuidText.
\<close>

unbundle bit_operations_syntax

datatype ObjectGuid = Guid (raw_hi: u64) (raw_lo: u64)

type_synonym HighGuid = u32

definition HG_Null :: HighGuid where "HG_Null = 0"
definition HG_Uniq :: HighGuid where "HG_Uniq = 1"
definition HG_Player :: HighGuid where "HG_Player = 2"
definition HG_Item :: HighGuid where "HG_Item = 3"
definition HG_Transport :: HighGuid where "HG_Transport = 6"
definition HG_Conversation :: HighGuid where "HG_Conversation = 7"
definition HG_Creature :: HighGuid where "HG_Creature = 8"
definition HG_Vehicle :: HighGuid where "HG_Vehicle = 9"
definition HG_Pet :: HighGuid where "HG_Pet = 10"
definition HG_GameObject :: HighGuid where "HG_GameObject = 11"
definition HG_DynamicObject :: HighGuid where "HG_DynamicObject = 12"
definition HG_AreaTrigger :: HighGuid where "HG_AreaTrigger = 13"
definition HG_Corpse :: HighGuid where "HG_Corpse = 14"
definition HG_SceneObject :: HighGuid where "HG_SceneObject = 16"
definition HG_ClientActor :: HighGuid where "HG_ClientActor = 20"
definition HG_ChatChannel :: HighGuid where "HG_ChatChannel = 26"
definition HG_Party :: HighGuid where "HG_Party = 27"
definition HG_Guild :: HighGuid where "HG_Guild = 28"
definition HG_MobileSession :: HighGuid where "HG_MobileSession = 32"
definition HG_WebObj :: HighGuid where "HG_WebObj = 36"
definition HG_LFGObject :: HighGuid where "HG_LFGObject = 37"
definition HG_LFGList :: HighGuid where "HG_LFGList = 38"
definition HG_Cast :: HighGuid where "HG_Cast = 47"
definition HG_ClubFinder :: HighGuid where "HG_ClubFinder = 49"
definition HG_ToolsClient :: HighGuid where "HG_ToolsClient = 50"
definition HG_WorldLayer :: HighGuid where "HG_WorldLayer = 51"
definition HG_LMMLobby :: HighGuid where "HG_LMMLobby = 54"
definition HG_Count :: HighGuid where "HG_Count = 55"

lemmas HG_defs = HG_Null_def HG_Uniq_def HG_Player_def HG_Item_def HG_Transport_def
  HG_Conversation_def HG_Creature_def HG_Vehicle_def HG_Pet_def HG_GameObject_def
  HG_DynamicObject_def HG_AreaTrigger_def HG_Corpse_def HG_SceneObject_def HG_ClientActor_def
  HG_ChatChannel_def HG_Party_def HG_Guild_def HG_MobileSession_def HG_WebObj_def HG_LFGObject_def
  HG_LFGList_def HG_Cast_def HG_ClubFinder_def HG_ToolsClient_def HG_WorldLayer_def
  HG_LMMLobby_def HG_Count_def

section \<open>Fields\<close>

definition og_Empty :: ObjectGuid where
  "og_Empty = Guid 0 0"

definition GetHigh :: "ObjectGuid \<Rightarrow> HighGuid" where
  "GetHigh g = ucast (drop_bit 58 (raw_hi g) AND 0x3F)"

definition GetRealmId :: "ObjectGuid \<Rightarrow> u32" where
  "GetRealmId g = ucast (drop_bit 42 (raw_hi g) AND 0xFFFF)"

definition GetMapId :: "ObjectGuid \<Rightarrow> u32" where
  "GetMapId g = ucast (drop_bit 29 (raw_hi g) AND 0x1FFF)"

definition GetEntry :: "ObjectGuid \<Rightarrow> u32" where
  "GetEntry g = ucast (drop_bit 6 (raw_hi g) AND 0x7FFFFF)"

definition GetSubType :: "ObjectGuid \<Rightarrow> u32" where
  "GetSubType g = ucast (raw_hi g AND 0x3F)"

definition GetCounter :: "ObjectGuid \<Rightarrow> u64" where
  "GetCounter g = (if GetHigh g = HG_Transport then drop_bit 38 (raw_hi g) AND 0xFFFFF
                   else raw_lo g AND 0x000000FFFFFFFFFF)"

definition GetMaxCounter :: "HighGuid \<Rightarrow> u64" where
  "GetMaxCounter h = (if h = HG_Transport then 0xFFFFF else 0xFFFFFFFFFF)"

definition og_IsEmpty :: "ObjectGuid \<Rightarrow> bool" where
  "og_IsEmpty g = (raw_lo g = 0 \<and> raw_hi g = 0)"

definition IsCreature :: "ObjectGuid \<Rightarrow> bool" where "IsCreature g = (GetHigh g = HG_Creature)"
definition IsPet :: "ObjectGuid \<Rightarrow> bool" where "IsPet g = (GetHigh g = HG_Pet)"
definition IsVehicle :: "ObjectGuid \<Rightarrow> bool" where "IsVehicle g = (GetHigh g = HG_Vehicle)"
definition IsCreatureOrPet :: "ObjectGuid \<Rightarrow> bool" where "IsCreatureOrPet g = (IsCreature g \<or> IsPet g)"
definition IsCreatureOrVehicle :: "ObjectGuid \<Rightarrow> bool" where
  "IsCreatureOrVehicle g = (IsCreature g \<or> IsVehicle g)"
definition IsAnyTypeCreature :: "ObjectGuid \<Rightarrow> bool" where
  "IsAnyTypeCreature g = (IsCreature g \<or> IsPet g \<or> IsVehicle g)"
definition IsPlayer :: "ObjectGuid \<Rightarrow> bool" where
  "IsPlayer g = (\<not> og_IsEmpty g \<and> GetHigh g = HG_Player)"
definition IsUnit :: "ObjectGuid \<Rightarrow> bool" where "IsUnit g = (IsAnyTypeCreature g \<or> IsPlayer g)"
definition IsItem :: "ObjectGuid \<Rightarrow> bool" where "IsItem g = (GetHigh g = HG_Item)"
definition IsGameObject :: "ObjectGuid \<Rightarrow> bool" where "IsGameObject g = (GetHigh g = HG_GameObject)"
definition IsDynamicObject :: "ObjectGuid \<Rightarrow> bool" where
  "IsDynamicObject g = (GetHigh g = HG_DynamicObject)"
definition IsCorpse :: "ObjectGuid \<Rightarrow> bool" where "IsCorpse g = (GetHigh g = HG_Corpse)"
definition IsAreaTrigger :: "ObjectGuid \<Rightarrow> bool" where "IsAreaTrigger g = (GetHigh g = HG_AreaTrigger)"
definition IsMOTransport :: "ObjectGuid \<Rightarrow> bool" where "IsMOTransport g = (GetHigh g = HG_Transport)"
definition IsAnyTypeGameObject :: "ObjectGuid \<Rightarrow> bool" where
  "IsAnyTypeGameObject g = (IsGameObject g \<or> IsMOTransport g)"
definition IsParty :: "ObjectGuid \<Rightarrow> bool" where "IsParty g = (GetHigh g = HG_Party)"
definition IsGuild :: "ObjectGuid \<Rightarrow> bool" where "IsGuild g = (GetHigh g = HG_Guild)"
definition IsSceneObject :: "ObjectGuid \<Rightarrow> bool" where "IsSceneObject g = (GetHigh g = HG_SceneObject)"
definition IsConversation :: "ObjectGuid \<Rightarrow> bool" where
  "IsConversation g = (GetHigh g = HG_Conversation)"
definition IsCast :: "ObjectGuid \<Rightarrow> bool" where "IsCast g = (GetHigh g = HG_Cast)"

text \<open>\<open>operator<=>\<close> compares \<open>_data[1]\<close> first.\<close>

instantiation ObjectGuid :: linorder
begin

definition less_eq_ObjectGuid :: "ObjectGuid \<Rightarrow> ObjectGuid \<Rightarrow> bool" where
  "less_eq_ObjectGuid a b = (raw_hi a < raw_hi b \<or> (raw_hi a = raw_hi b \<and> raw_lo a \<le> raw_lo b))"

definition less_ObjectGuid :: "ObjectGuid \<Rightarrow> ObjectGuid \<Rightarrow> bool" where
  "less_ObjectGuid a b = (raw_hi a < raw_hi b \<or> (raw_hi a = raw_hi b \<and> raw_lo a < raw_lo b))"

instance
proof
  fix x y z :: ObjectGuid
  show "(x < y) = (x \<le> y \<and> \<not> y \<le> x)" by (auto simp: less_eq_ObjectGuid_def less_ObjectGuid_def)
  show "x \<le> x" by (simp add: less_eq_ObjectGuid_def)
  show "\<lbrakk>x \<le> y; y \<le> z\<rbrakk> \<Longrightarrow> x \<le> z" by (auto simp: less_eq_ObjectGuid_def)
  show "\<lbrakk>x \<le> y; y \<le> x\<rbrakk> \<Longrightarrow> x = y"
    by (cases x; cases y) (auto simp: less_eq_ObjectGuid_def)
  show "x \<le> y \<or> y \<le> x" by (auto simp: less_eq_ObjectGuid_def)
qed

end

instance ObjectGuid :: finite
proof
  have "(UNIV :: ObjectGuid set) = (\<lambda>(h, l). Guid h l) ` UNIV"
    by (auto simp: image_iff) (metis ObjectGuid.exhaust)
  then show "finite (UNIV :: ObjectGuid set)" by (metis finite_imageI finite)
qed

section \<open>Factory\<close>

definition GetRealmIdForObjectGuid :: "u32 \<Rightarrow> u32 \<Rightarrow> u32" where
  "GetRealmIdForObjectGuid rlm realmId = (if realmId \<noteq> 0 then realmId else rlm)"

definition high_bits :: "HighGuid \<Rightarrow> u64" where
  "high_bits type = push_bit 58 (ucast type)"

definition CreateNull :: ObjectGuid where
  "CreateNull = Guid 0 0"

definition CreateUniq :: "u64 \<Rightarrow> ObjectGuid" where
  "CreateUniq i = Guid (high_bits HG_Uniq) i"

definition CreatePlayer :: "u32 \<Rightarrow> u32 \<Rightarrow> u64 \<Rightarrow> ObjectGuid" where
  "CreatePlayer rlm realmId dbId =
     Guid (high_bits HG_Player OR push_bit 42 (ucast (GetRealmIdForObjectGuid rlm realmId))) dbId"

definition CreateItem :: "u32 \<Rightarrow> u32 \<Rightarrow> u64 \<Rightarrow> ObjectGuid" where
  "CreateItem rlm realmId dbId =
     Guid (high_bits HG_Item OR push_bit 42 (ucast (GetRealmIdForObjectGuid rlm realmId))) dbId"

definition CreateWorldObject ::
  "u32 \<Rightarrow> HighGuid \<Rightarrow> u8 \<Rightarrow> u32 \<Rightarrow> u16 \<Rightarrow> u32 \<Rightarrow> u32 \<Rightarrow> u64 \<Rightarrow> ObjectGuid" where
  "CreateWorldObject rlm type subType realmId mapId serverId entry counter =
     Guid (high_bits type
           OR push_bit 42 (ucast (GetRealmIdForObjectGuid rlm realmId AND 0x1FFF))
           OR push_bit 29 (ucast (mapId AND 0x1FFF))
           OR push_bit 6 (ucast (entry AND 0x7FFFFF))
           OR (ucast subType AND 0x3F))
          (push_bit 40 (ucast (serverId AND 0xFFFFFF)) OR (counter AND 0xFFFFFFFFFF))"

definition CreateTransport :: "HighGuid \<Rightarrow> u32 \<Rightarrow> ObjectGuid" where
  "CreateTransport type counter = Guid (high_bits type OR push_bit 38 (ucast counter)) 0"

definition CreateClientActor :: "u16 \<Rightarrow> u16 \<Rightarrow> u32 \<Rightarrow> ObjectGuid" where
  "CreateClientActor ownerType ownerId counter =
     Guid (high_bits HG_ClientActor OR push_bit 42 (ucast (ownerType AND 0x1FFF))
           OR push_bit 26 (ucast ownerId AND 0xFFFFFF)) (ucast counter)"

definition CreateChatChannel :: "u32 \<Rightarrow> u32 \<Rightarrow> bool \<Rightarrow> bool \<Rightarrow> u16 \<Rightarrow> u8 \<Rightarrow> u64 \<Rightarrow> ObjectGuid" where
  "CreateChatChannel rlm realmId builtIn trade zoneId factionGroupMask counter =
     Guid (high_bits HG_ChatChannel
           OR push_bit 42 (ucast (GetRealmIdForObjectGuid rlm realmId AND 0x1FFF))
           OR push_bit 25 (of_bool builtIn) OR push_bit 24 (of_bool trade)
           OR push_bit 10 (ucast (zoneId AND 0x3FFF))
           OR push_bit 4 (ucast (factionGroupMask AND 0x3F))) counter"

definition CreateGlobal :: "HighGuid \<Rightarrow> u64 \<Rightarrow> u64 \<Rightarrow> ObjectGuid" where
  "CreateGlobal type dbIdHigh dbId = Guid (high_bits type OR (dbIdHigh AND 0x3FFFFFFFFFFFFFF)) dbId"

definition CreateGuild :: "u32 \<Rightarrow> HighGuid \<Rightarrow> u32 \<Rightarrow> u64 \<Rightarrow> ObjectGuid" where
  "CreateGuild rlm type realmId dbId =
     Guid (high_bits type OR push_bit 42 (ucast (GetRealmIdForObjectGuid rlm realmId))) dbId"

definition CreateMobileSession :: "u32 \<Rightarrow> u32 \<Rightarrow> u16 \<Rightarrow> u64 \<Rightarrow> ObjectGuid" where
  "CreateMobileSession rlm realmId arg1 counter =
     Guid (high_bits HG_MobileSession OR push_bit 42 (ucast (GetRealmIdForObjectGuid rlm realmId))
           OR push_bit 33 (ucast (arg1 AND 0x1FF))) counter"

definition CreateWebObj :: "u32 \<Rightarrow> u32 \<Rightarrow> u8 \<Rightarrow> u8 \<Rightarrow> u64 \<Rightarrow> ObjectGuid" where
  "CreateWebObj rlm realmId arg1 arg2 counter =
     Guid (high_bits HG_WebObj
           OR push_bit 42 (ucast (GetRealmIdForObjectGuid rlm realmId AND 0x1FFF))
           OR push_bit 37 (ucast (arg1 AND 0x1F)) OR push_bit 35 (ucast (arg2 AND 0x3))) counter"

definition CreateLFGObject :: "u8 \<Rightarrow> u8 \<Rightarrow> u8 \<Rightarrow> u8 \<Rightarrow> bool \<Rightarrow> u8 \<Rightarrow> u64 \<Rightarrow> ObjectGuid" where
  "CreateLFGObject arg1 arg2 arg3 arg4 arg5 arg6 counter =
     Guid (high_bits HG_LFGObject OR push_bit 54 (ucast (arg1 AND 0xF))
           OR push_bit 50 (ucast (arg2 AND 0xF)) OR push_bit 46 (ucast (arg3 AND 0xF))
           OR push_bit 38 (ucast (arg4 AND 0xFF)) OR push_bit 37 (if arg5 then 1 else 0)
           OR push_bit 35 (ucast (arg6 AND 0x3))) counter"

definition CreateLFGList :: "u8 \<Rightarrow> u64 \<Rightarrow> ObjectGuid" where
  "CreateLFGList arg1 counter =
     Guid (high_bits HG_LFGObject OR push_bit 54 (ucast (arg1 AND 0xF))) counter"

definition CreateClient :: "u32 \<Rightarrow> HighGuid \<Rightarrow> u32 \<Rightarrow> u32 \<Rightarrow> u64 \<Rightarrow> ObjectGuid" where
  "CreateClient rlm type realmId arg1 counter =
     Guid (high_bits type OR push_bit 42 (ucast (GetRealmIdForObjectGuid rlm realmId AND 0x1FFF))
           OR push_bit 10 (ucast (arg1 AND 0xFFFFFFFF))) counter"

definition CreateClubFinder :: "u32 \<Rightarrow> u32 \<Rightarrow> u8 \<Rightarrow> u32 \<Rightarrow> u64 \<Rightarrow> ObjectGuid" where
  "CreateClubFinder rlm realmId type clubFinderId dbId =
     Guid (high_bits HG_ClubFinder
           OR (if type = 1 then push_bit 42 (ucast (GetRealmIdForObjectGuid rlm realmId AND 0x1FFF))
               else 0)
           OR push_bit 33 (ucast (type AND 0xFF)) OR ucast (clubFinderId AND 0xFFFFFFFF)) dbId"

definition CreateToolsClient :: "u16 \<Rightarrow> u32 \<Rightarrow> u64 \<Rightarrow> ObjectGuid" where
  "CreateToolsClient mapId serverId counter =
     Guid (high_bits HG_ToolsClient OR ucast mapId)
          (push_bit 40 (ucast (serverId AND 0xFFFFFF)) OR (counter AND 0xFFFFFFFFFF))"

definition CreateWorldLayer :: "u32 \<Rightarrow> u16 \<Rightarrow> u8 \<Rightarrow> u32 \<Rightarrow> ObjectGuid" where
  "CreateWorldLayer arg1 arg2 arg3 arg4 =
     Guid (high_bits HG_WorldLayer OR push_bit 10 (ucast (arg1 AND 0xFFFFFFFF))
           OR ucast (arg2 AND 0x1FF))
          (push_bit 24 (ucast (arg3 AND 0xFF)) OR ucast (arg4 AND 0x7FFFFF))"

definition CreateLMMLobby :: "u32 \<Rightarrow> u32 \<Rightarrow> u32 \<Rightarrow> u8 \<Rightarrow> u8 \<Rightarrow> u64 \<Rightarrow> ObjectGuid" where
  "CreateLMMLobby rlm realmId arg2 arg3 arg4 counter =
     Guid (high_bits HG_LMMLobby OR push_bit 42 (ucast (GetRealmIdForObjectGuid rlm realmId))
           OR push_bit 26 (ucast (arg2 AND 0xFFFFFFFF)) OR push_bit 18 (ucast (arg3 AND 0xFF))
           OR push_bit 10 (ucast (arg4 AND 0xFF))) counter"

definition FromStringFailed :: ObjectGuid where
  "FromStringFailed = CreateUniq 4"

definition og_TradeItem :: ObjectGuid where
  "og_TradeItem = CreateUniq 10"

section \<open>Raw bytes and the packed form\<close>

definition bytes_of :: "u64 \<Rightarrow> u8 list" where
  "bytes_of v = map (\<lambda>i. ucast (drop_bit (8 * i) v)) [0..<8]"

definition word_of :: "u8 list \<Rightarrow> u64" where
  "word_of bs = foldr (\<lambda>b v. ucast b OR push_bit 8 v) bs 0"

definition og_GetRawValue :: "ObjectGuid \<Rightarrow> u8 list" where
  "og_GetRawValue g = bytes_of (raw_lo g) @ bytes_of (raw_hi g)"

definition og_SetRawValue :: "u8 list \<Rightarrow> ObjectGuid option" where
  "og_SetRawValue bs = (if length bs = 16 then Some (Guid (word_of (drop 8 bs)) (word_of (take 8 bs)))
                        else None)"

definition og_TrySetRawValue :: "u8 list \<Rightarrow> ObjectGuid \<Rightarrow> bool \<times> ObjectGuid" where
  "og_TrySetRawValue bs g = (if length bs \<noteq> 16 then (False, g)
     else (True, Guid (word_of (drop 8 bs)) (word_of (take 8 bs))))"

text \<open>\<open>ByteBuffer::PackUInt64\<close>: the mask and the bytes, from byte \<open>i\<close> on.\<close>

function pack_loop :: "nat \<Rightarrow> u64 \<Rightarrow> u8 \<times> u8 list" where
  "pack_loop i v =
     (if v = 0 then (0, [])
      else let (msk, bytes) = pack_loop (i + 1) (drop_bit 8 v) in
        if v AND 0xFF \<noteq> 0 then (push_bit i 1 OR msk, ucast (v AND 0xFF) # bytes)
        else (msk, bytes))"
  by auto
termination
proof (relation "measure (\<lambda>(i, v). unat v)")
  fix i and v :: u64
  assume "v \<noteq> 0"
  then have "0 < unat v" by (simp add: unat_gt_0)
  moreover have "unat (drop_bit 8 v) = unat v div 256" by (simp add: drop_bit_eq_div unat_div)
  ultimately show "((i + 1, drop_bit 8 v), i, v) \<in> measure (\<lambda>(i, v). unat v)" by simp
qed simp

declare pack_loop.simps [simp del]

definition PackUInt64 :: "u64 \<Rightarrow> u8 \<times> u8 list" where
  "PackUInt64 v = pack_loop 0 v"

text \<open>\<open>None\<close> is the exception of a read past the end of the buffer.\<close>

fun unpack_loop :: "nat list \<Rightarrow> u8 \<Rightarrow> u64 \<Rightarrow> u8 list \<Rightarrow> (u64 \<times> u8 list) option" where
  "unpack_loop [] msk decoded bs = Some (decoded, bs)"
| "unpack_loop (i # is) msk decoded bs =
     (if msk AND push_bit i 1 \<noteq> 0 then
        (case bs of [] \<Rightarrow> None
         | b # bs' \<Rightarrow> unpack_loop is msk (decoded OR push_bit (i * 8) (ucast b)) bs')
      else unpack_loop is msk decoded bs)"

definition ReadPackedUInt64 :: "u8 \<Rightarrow> u8 list \<Rightarrow> (u64 \<times> u8 list) option" where
  "ReadPackedUInt64 msk bs = unpack_loop [0..<8] msk 0 bs"

text \<open>\<open>operator<<\<close> reserves the two masks, appends the bytes and then writes the masks at their place.\<close>

definition write_guid :: "u8 list \<Rightarrow> ObjectGuid \<Rightarrow> u8 list" where
  "write_guid buf g =
     (let pos = length buf;
          b1 = buf @ [0] @ [0];
          (lowMask, packedLow) = PackUInt64 (raw_lo g);
          b2 = (if packedLow \<noteq> [] then b1 @ packedLow else b1);
          (highMask, packedHigh) = PackUInt64 (raw_hi g);
          b3 = (if packedHigh \<noteq> [] then b2 @ packedHigh else b2)
      in b3[pos := lowMask, pos + 1 := highMask])"

definition read_guid :: "u8 list \<Rightarrow> (ObjectGuid \<times> u8 list) option" where
  "read_guid bs =
     (case bs of lowMask # highMask # bs1 \<Rightarrow>
        do { (low, bs2) \<leftarrow> ReadPackedUInt64 lowMask bs1;
             (high, bs3) \<leftarrow> ReadPackedUInt64 highMask bs2;
             Some (Guid high low, bs3) }
      | _ \<Rightarrow> None)"

section \<open>The generator\<close>

datatype gen_event = GuidStopNow | TriggerGuidAlert | TriggerGuidWarning

record guid_generator =
  gg_high :: HighGuid
  gg_nextGuid :: u64

record guid_alerts =
  ga_alert :: bool
  ga_warning :: bool
  ga_alertLevel :: u32
  ga_warnLevel :: u32

definition gg_Set :: "u64 \<Rightarrow> guid_generator \<Rightarrow> guid_generator" where
  "gg_Set v g = g\<lparr>gg_nextGuid := v\<rparr>"

definition CheckGuidTrigger :: "guid_alerts \<Rightarrow> guid_generator \<Rightarrow> gen_event list" where
  "CheckGuidTrigger w g =
     (if \<not> ga_alert w \<and> gg_nextGuid g > ucast (ga_alertLevel w) then [TriggerGuidAlert]
      else if \<not> ga_warning w \<and> gg_nextGuid g > ucast (ga_warnLevel w) then [TriggerGuidWarning]
      else [])"

definition gg_Generate :: "guid_alerts \<Rightarrow> guid_generator \<Rightarrow> u64 \<times> guid_generator \<times> gen_event list" where
  "gg_Generate w g =
     (let e1 = (if gg_nextGuid g \<ge> GetMaxCounter (gg_high g) - 1 then [GuidStopNow] else []);
          e2 = (if gg_high g = HG_Creature \<or> gg_high g = HG_Vehicle \<or> gg_high g = HG_GameObject
                   \<or> gg_high g = HG_Transport then CheckGuidTrigger w g else [])
      in (gg_nextGuid g, g\<lparr>gg_nextGuid := gg_nextGuid g + 1\<rparr>, e1 @ e2))"

section \<open>Fields do not overlap\<close>

text \<open>The field masks of the code as \<open>mask\<close>s of the library, so that single bits can be compared.\<close>

lemma mask_literals:
  "(0x1F :: 'a::len word) = mask 5" "(0x3F :: 'a word) = mask 6" "(0xFF :: 'a word) = mask 8"
  "(0x1FF :: 'a word) = mask 9" "(0x1FFF :: 'a word) = mask 13" "(0x3FFF :: 'a word) = mask 14"
  "(0xFFFF :: 'a word) = mask 16" "(0xFFFFF :: 'a word) = mask 20"
  "(0x7FFFFF :: 'a word) = mask 23" "(0xFFFFFF :: 'a word) = mask 24"
  "(0xFFFFFFFF :: 'a word) = mask 32" "(0xFFFFFFFFFF :: 'a word) = mask 40"
  "(0x3FFFFFFFFFFFFFF :: 'a word) = mask 58" "(0x3 :: 'a word) = mask 2" "(0xF :: 'a word) = mask 4"
  "(0xFFFFF :: 'a word) = mask 20"
  by (simp_all add: mask_eq_exp_minus_1)

lemma small_bit: "\<lbrakk>(w :: 'a::len word) < 2 ^ k; k \<le> n\<rbrakk> \<Longrightarrow> \<not> bit w n"
proof
  assume a: "w < 2 ^ k" "k \<le> n" "bit w n"
  show False
  proof (cases "k < LENGTH('a)")
    case True
    have "w = w AND mask k" using a(1) True by (simp add: and_mask_less_size word_size less_mask_eq)
    then have "bit (w AND mask k) n" using a(3) by simp
    then show False using a(2) by (simp add: bit_and_iff bit_mask_iff)
  next
    case False
    then show False using a bit_imp_le_length[of w n] by simp
  qed
qed

lemma type_bits: "\<lbrakk>(type :: HighGuid) < 64; bit type n\<rbrakk> \<Longrightarrow> n < 6"
  by (rule ccontr) (use small_bit[of type 6 n] in simp)

lemma GetHigh_high_bits:
  assumes t: "type < 64" and x: "\<And>n. 58 \<le> n \<Longrightarrow> \<not> bit x n"
  shows "GetHigh (Guid (high_bits type OR x) l) = type"
proof (rule bit_word_eqI)
  fix n assume n: "n < LENGTH(32)"
  have "bit type n \<Longrightarrow> n < 6" by (rule type_bits[OF t])
  then show "bit (GetHigh (Guid (high_bits type OR x) l)) n = bit type n"
    using n x by (auto simp: GetHigh_def high_bits_def mask_literals bit_simps)
qed

text \<open>Two words of which each is below the other's field have no bit in common.\<close>

lemma bit_ucast_and_mask:
  "bit (ucast (w AND mask k) :: 'b::len word) n = (bit (w :: 'a::len word) n \<and> n < k \<and> n < LENGTH('b))"
  using bit_imp_le_length[of w n] by (auto simp: bit_simps)

lemmas field_simps = mask_literals bit_simps

lemma CreateWorldObject_parts:
  assumes t: "type < 64"
  shows "GetHigh (CreateWorldObject rlm type sub r mp srv entry cnt) = type"
    and "GetSubType (CreateWorldObject rlm type sub r mp srv entry cnt) = ucast sub AND 0x3F"
    and "GetRealmId (CreateWorldObject rlm type sub r mp srv entry cnt) = GetRealmIdForObjectGuid rlm r AND 0x1FFF"
    and "GetMapId (CreateWorldObject rlm type sub r mp srv entry cnt) = ucast mp AND 0x1FFF"
    and "GetEntry (CreateWorldObject rlm type sub r mp srv entry cnt) = entry AND 0x7FFFFF"
    and "drop_bit 40 (raw_lo (CreateWorldObject rlm type sub r mp srv entry cnt)) = ucast (srv AND 0xFFFFFF)"
    and "raw_lo (CreateWorldObject rlm type sub r mp srv entry cnt) AND 0xFFFFFFFFFF = cnt AND 0xFFFFFFFFFF"
proof -
  have bt: "bit type n \<Longrightarrow> n < 6" for n by (rule type_bits[OF t])
  note defs = CreateWorldObject_def GetSubType_def GetRealmId_def GetMapId_def GetEntry_def high_bits_def
  show "GetHigh (CreateWorldObject rlm type sub r mp srv entry cnt) = type"
    unfolding CreateWorldObject_def by (rule GetHigh_high_bits, rule t) (auto simp: field_simps)
  show "GetSubType (CreateWorldObject rlm type sub r mp srv entry cnt) = ucast sub AND 0x3F"
    by (rule bit_word_eqI) (auto simp: defs field_simps)
  show "GetRealmId (CreateWorldObject rlm type sub r mp srv entry cnt) = GetRealmIdForObjectGuid rlm r AND 0x1FFF"
    by (rule bit_word_eqI) (auto simp: defs field_simps)
  show "GetMapId (CreateWorldObject rlm type sub r mp srv entry cnt) = ucast mp AND 0x1FFF"
    by (rule bit_word_eqI) (auto simp: defs field_simps)
  show "GetEntry (CreateWorldObject rlm type sub r mp srv entry cnt) = entry AND 0x7FFFFF"
    by (rule bit_word_eqI) (auto simp: defs field_simps)
  show "drop_bit 40 (raw_lo (CreateWorldObject rlm type sub r mp srv entry cnt)) = ucast (srv AND 0xFFFFFF)"
    by (rule bit_word_eqI) (auto simp: defs field_simps)
  show "raw_lo (CreateWorldObject rlm type sub r mp srv entry cnt) AND 0xFFFFFFFFFF = cnt AND 0xFFFFFFFFFF"
    by (rule bit_word_eqI) (auto simp: defs field_simps)
qed

lemma CreateTransport_parts:
  assumes t: "type < 64" and c: "c < 2 ^ 20"
  shows "GetHigh (CreateTransport type c) = type"
    and "drop_bit 38 (raw_hi (CreateTransport type c)) AND 0xFFFFF = ucast c"
proof -
  have bc: "bit c n \<Longrightarrow> n < 20" for n
    by (rule ccontr) (use small_bit[of c 20 n] c in simp)
  show "GetHigh (CreateTransport type c) = type"
    unfolding CreateTransport_def by (rule GetHigh_high_bits, rule t) (auto simp: field_simps dest: bc)
  show "drop_bit 38 (raw_hi (CreateTransport type c)) AND 0xFFFFF = ucast c"
    by (rule bit_word_eqI) (auto simp: CreateTransport_def high_bits_def field_simps dest: bc)
qed

lemma transport_counter:
  assumes "c < 0xFFFFF"
  shows "GetCounter (CreateTransport HG_Transport (ucast c)) = c"
proof -
  have bc: "bit c n \<Longrightarrow> n < 20" for n
    by (rule ccontr) (use small_bit[of c 20 n] assms in \<open>simp add: word_less_nat_alt\<close>)
  have u: "ucast (ucast c :: u32) = c" by (rule bit_word_eqI) (auto simp: bit_simps dest: bc)
  have "unat c < 2 ^ 20" using assms by (simp add: word_less_nat_alt)
  moreover have "unat (ucast c :: u32) \<le> unat c" by (simp add: unsigned_ucast_eq)
  ultimately have "(ucast c :: u32) < 2 ^ 20" by (simp add: word_less_nat_alt)
  then show ?thesis
    using CreateTransport_parts[of HG_Transport "ucast c"] u by (simp add: GetCounter_def HG_defs)
qed

section \<open>Packed form\<close>

lemma pack_loop_low: "bit (fst (pack_loop i v)) j \<Longrightarrow> i \<le> j"
proof (induction i v rule: pack_loop.induct)
  case (1 i v)
  show ?case
  proof (cases "v = 0")
    case True
    then show ?thesis using 1(2) by (simp add: pack_loop.simps[of i 0])
  next
    case False
    then have "bit (fst (pack_loop (i + 1) (drop_bit 8 v))) j \<or> j = i"
      using 1(2) by (auto simp: pack_loop.simps[of i v] bit_simps split: prod.splits if_splits)
    then show ?thesis using 1(1) False by fastforce
  qed
qed

lemma bit_test: "((m :: u8) AND push_bit i 1 \<noteq> 0) = bit m i"
proof
  assume "m AND push_bit i 1 \<noteq> 0"
  then obtain n where "bit (m AND push_bit i 1) n" using bit_eqI[of "m AND push_bit i 1" 0] by auto
  then show "bit m i" by (auto simp: bit_simps)
next
  assume b: "bit m i"
  then have "bit (m AND push_bit i 1) i" using bit_imp_le_length[OF b] by (simp add: bit_simps)
  then show "m AND push_bit i 1 \<noteq> 0" by (metis bit_0_eq bot_apply bot_bool_def)
qed

lemma unpack_loop_Cons:
  "unpack_loop (i # is) m d bs =
     (if bit m i then (case bs of [] \<Rightarrow> None
        | b # bs' \<Rightarrow> unpack_loop is m (d OR push_bit (i * 8) (ucast b)) bs')
      else unpack_loop is m d bs)"
  by (simp only: unpack_loop.simps bit_test)

lemma unpack_loop_cong:
  "\<forall>i \<in> set is. bit m i = bit m' i \<Longrightarrow> unpack_loop is m d bs = unpack_loop is m' d bs"
proof (induction "is" arbitrary: d bs)
  case (Cons i "is")
  then show ?case unfolding unpack_loop_Cons by (simp split: list.split)
qed simp

lemma byte_split:
  "push_bit (i * 8) v = push_bit (i * 8) (ucast (ucast (v AND 0xFF) :: u8)) OR push_bit ((i + 1) * 8) (drop_bit 8 (v :: u64))"
proof (rule bit_word_eqI)
  fix n assume n: "n < LENGTH(64)"
  show "bit (push_bit (i * 8) v) n = bit (push_bit (i * 8) (ucast (ucast (v AND 0xFF) :: u8)) OR push_bit ((i + 1) * 8) (drop_bit 8 v)) n"
  proof (cases "n < (i + 1) * 8")
    case True
    then show ?thesis using n by (auto simp: field_simps)
  next
    case False
    then have "8 + (n - (i + 1) * 8) = n - i * 8" by simp
    then show ?thesis using n False by (auto simp: field_simps)
  qed
qed

lemma pack_next:
  fixes v :: u64
  assumes nz: "v \<noteq> 0" and v: "unat v < 2 ^ (64 - 8 * i)" and "i \<le> 8"
  shows "unat (drop_bit 8 v) < 2 ^ (64 - 8 * (i + 1))" "i < 8"
proof -
  show i: "i < 8"
  proof (rule ccontr)
    assume "\<not> i < 8"
    then have "unat v < 1" using v assms(3) by simp
    then show False using nz by (simp add: unat_eq_zero)
  qed
  have e: "64 - 8 * i = (64 - 8 * (i + 1)) + 8" using i by simp
  have "unat v < 2 ^ (64 - 8 * (i + 1)) * 2 ^ 8" using v unfolding e power_add .
  then have "unat v div 256 < 2 ^ (64 - 8 * (i + 1))" by (intro less_mult_imp_div_less) simp
  then show "unat (drop_bit 8 v) < 2 ^ (64 - 8 * (i + 1))" by (simp add: drop_bit_eq_div unat_div)
qed

lemma pack_loop_length: "\<lbrakk>unat v < 2 ^ (64 - 8 * i); i \<le> 8\<rbrakk> \<Longrightarrow> length (snd (pack_loop i v)) \<le> 8 - i"
proof (induction i v rule: pack_loop.induct)
  case (1 i v)
  show ?case
  proof (cases "v = 0")
    case True
    then show ?thesis by (simp add: pack_loop.simps[of i 0])
  next
    case False
    note nx = pack_next[OF False 1(2,3)]
    have "length (snd (pack_loop (i + 1) (drop_bit 8 v))) \<le> 8 - (i + 1)"
      using 1(1)[OF False] nx by simp
    then show ?thesis using nx(2) False by (auto simp: pack_loop.simps[of i v] split: prod.splits)
  qed
qed

text \<open>What the masks and bytes from byte \<open>i\<close> on say, the loop of the reader puts back.\<close>

lemma unpack_pack:
  "\<lbrakk>unat v < 2 ^ (64 - 8 * i); i \<le> 8\<rbrakk> \<Longrightarrow>
     unpack_loop [i..<8] (fst (pack_loop i v)) d (snd (pack_loop i v) @ r) = Some (d OR push_bit (i * 8) v, r)"
proof (induction i v arbitrary: d rule: pack_loop.induct)
  case (1 i v)
  show ?case
  proof (cases "v = 0")
    case True
    have "unpack_loop is 0 d r = Some (d, r)" for "is" by (induction "is") (simp_all add: unpack_loop_Cons del: unpack_loop.simps(2))
    then show ?thesis using True by (simp add: pack_loop.simps[of i 0])
  next
    case False
    have i: "i < 8" by (rule pack_next(2)[OF False 1(2,3)])
    obtain m bs where p: "pack_loop (i + 1) (drop_bit 8 v) = (m, bs)" by fastforce
    have "unat (drop_bit 8 v) < 2 ^ (64 - 8 * (i + 1))" by (rule pack_next[OF False 1(2,3)])
    then have IH: "unpack_loop [i + 1..<8] m d (bs @ r) = Some (d OR push_bit ((i + 1) * 8) (drop_bit 8 v), r)" for d
      using 1(1)[OF False, of d] p i by simp
    have up: "[i..<8] = i # [i + 1..<8]" using i by (simp add: upt_conv_Cons)
    have low: "\<not> bit m i" using pack_loop_low[of "i + 1" "drop_bit 8 v" i] p by auto
    show ?thesis
    proof (cases "v AND 0xFF = 0")
      case True
      then have "pack_loop i v = (m, bs)" using False p by (simp add: pack_loop.simps[of i v])
      then show ?thesis using IH low True byte_split[of i v]
        by (simp only: up unpack_loop_Cons fst_conv snd_conv if_False) simp
    next
      case nz: False
      have pl: "pack_loop i v = (push_bit i 1 OR m, ucast (v AND 0xFF) # bs)"
        using False p nz by (simp add: pack_loop.simps[of i v])
      have bi: "bit (push_bit i 1 OR m) i" using i by (simp add: bit_simps)
      have cong: "unpack_loop [i + 1..<8] (push_bit i 1 OR m) x y = unpack_loop [i + 1..<8] m x y" for x y
        by (rule unpack_loop_cong) (auto simp: bit_simps)
      show ?thesis
        unfolding pl up unpack_loop_Cons fst_conv snd_conv append_Cons list.case if_P[OF bi] cong IH
        by (simp only: byte_split[of i v] or.assoc)
    qed
  qed
qed

lemma ReadPacked_Pack: "ReadPackedUInt64 (fst (PackUInt64 v)) (snd (PackUInt64 v) @ r) = Some (v, r)"
proof -
  have "unat v < 2 ^ (64 - 8 * 0)" using unsigned_less[of v] by simp
  from unpack_pack[OF this] show ?thesis by (simp add: ReadPackedUInt64_def PackUInt64_def)
qed

lemma write_guid_eq:
  "write_guid buf g = buf @ fst (PackUInt64 (raw_lo g)) # fst (PackUInt64 (raw_hi g))
     # snd (PackUInt64 (raw_lo g)) @ snd (PackUInt64 (raw_hi g))"
  by (simp add: write_guid_def Let_def list_update_append split: prod.split)

section \<open>Generated counters\<close>

fun generate_run :: "guid_alerts \<Rightarrow> nat \<Rightarrow> guid_generator \<Rightarrow> u64 list \<times> gen_event list" where
  "generate_run w 0 g = ([], [])"
| "generate_run w (Suc n) g =
     (let (c, g', e) = gg_Generate w g; (cs, es) = generate_run w n g' in (c # cs, e @ es))"

lemma generate_run_range:
  "\<lbrakk>GuidStopNow \<notin> set (snd (generate_run w n g)); unat (gg_nextGuid g) < unat (GetMaxCounter (gg_high g))\<rbrakk> \<Longrightarrow>
     map unat (fst (generate_run w n g)) = [unat (gg_nextGuid g)..<unat (gg_nextGuid g) + n]
     \<and> unat (gg_nextGuid g) + n < unat (GetMaxCounter (gg_high g))"
proof (induction n arbitrary: g)
  case (Suc n)
  define g' where "g' = g\<lparr>gg_nextGuid := gg_nextGuid g + 1\<rparr>"
  have run: "fst (generate_run w (Suc n) g) = gg_nextGuid g # fst (generate_run w n g')"
    "set (snd (generate_run w n g')) \<subseteq> set (snd (generate_run w (Suc n) g))"
    "gg_nextGuid g \<ge> GetMaxCounter (gg_high g) - 1 \<Longrightarrow> GuidStopNow \<in> set (snd (generate_run w (Suc n) g))"
    by (auto simp: gg_Generate_def g'_def Let_def split: prod.splits)
  then have lt: "gg_nextGuid g < GetMaxCounter (gg_high g) - 1" using Suc(2) by (auto simp: linorder_not_le[symmetric])
  have mx: "GetMaxCounter (gg_high g) \<noteq> 0" by (simp add: GetMaxCounter_def)
  have "unat (GetMaxCounter (gg_high g) - 1) = unat (GetMaxCounter (gg_high g)) - 1"
    using mx by (simp add: unat_minus_one)
  then have l: "unat (gg_nextGuid g) < unat (GetMaxCounter (gg_high g)) - 1" using lt by (simp add: word_less_nat_alt)
  moreover have "unat (GetMaxCounter (gg_high g)) < 2 ^ 64" using unsigned_less[of "GetMaxCounter (gg_high g)"] by simp
  ultimately have nx: "unat (gg_nextGuid g') = Suc (unat (gg_nextGuid g))"
    by (simp add: g'_def unat_word_ariths)
  have hg: "gg_high g' = gg_high g" by (simp add: g'_def)
  have "map unat (fst (generate_run w n g')) = [unat (gg_nextGuid g')..<unat (gg_nextGuid g') + n]
     \<and> unat (gg_nextGuid g') + n < unat (GetMaxCounter (gg_high g'))"
    using run(2) Suc(2) l nx hg by (intro Suc.IH) auto
  then show ?case unfolding run(1) using nx hg by (simp add: upt_conv_Cons)
qed simp

section \<open>Raw bytes\<close>

lemma word_of_prefix: "word_of (map (\<lambda>i. ucast (drop_bit (8 * i) v)) [0..<k]) = v AND mask (8 * k)"
proof (induction k arbitrary: v)
  case 0
  then show ?case by (simp add: word_of_def)
next
  case (Suc k)
  have "map (\<lambda>i. ucast (drop_bit (8 * i) v) :: u8) [0..<Suc k]
      = ucast v # map (\<lambda>i. ucast (drop_bit (8 * i) (drop_bit 8 v))) [0..<k]"
    by (simp only: upt_conv_Cons[OF zero_less_Suc] map_Suc_upt[symmetric]) (simp add: add.commute)
  then have "word_of (map (\<lambda>i. ucast (drop_bit (8 * i) v)) [0..<Suc k])
      = ucast (ucast v :: u8) OR push_bit 8 (drop_bit 8 v AND mask (8 * k))"
    using Suc[of "drop_bit 8 v"] by (simp add: word_of_def)
  also have "\<dots> = v AND mask (8 * Suc k)"
    by (rule bit_word_eqI) (auto simp: bit_simps)
  finally show ?case .
qed

lemma word_of_bytes_of: "word_of (bytes_of v) = v"
proof -
  have "v AND mask (8 * 8) = v" by (rule bit_word_eqI) (simp add: bit_simps)
  then show ?thesis unfolding bytes_of_def word_of_prefix .
qed

lemma length_bytes_of [simp]: "length (bytes_of v) = 8"
  by (simp add: bytes_of_def)

section \<open>Properties\<close>

text \<open>
  C1: For every type below 64 and every argument, \<open>CreateWorldObject\<close> packs its fields without
  overlap: reading the fields back gives each argument cut to the width of its field, so arguments
  within the widths are read back unchanged.
\<close>
theorem CreateWorldObject_fields:
  assumes "type < 64"
  shows "let g = CreateWorldObject rlm type sub r mp srv entry cnt in
     GetHigh g = type \<and> GetSubType g = ucast sub AND 0x3F
     \<and> GetRealmId g = GetRealmIdForObjectGuid rlm r AND 0x1FFF \<and> GetMapId g = ucast mp AND 0x1FFF
     \<and> GetEntry g = entry AND 0x7FFFFF
     \<and> (type \<noteq> HG_Transport \<longrightarrow> GetCounter g = cnt AND 0xFFFFFFFFFF)"
  unfolding Let_def GetCounter_def
  using CreateWorldObject_parts[OF assms, of rlm sub r mp srv entry cnt] by (simp only:) simp

lemma CreateWorldObject_fields_witness:
  "GetHigh (CreateWorldObject 1 HG_Creature 0 0 571 0 31146 77) = HG_Creature
   \<and> GetEntry (CreateWorldObject 1 HG_Creature 0 0 571 0 31146 77) = 31146
   \<and> GetCounter (CreateWorldObject 1 HG_Creature 0 0 571 0 31146 77) = 77"
  using CreateWorldObject_fields[of HG_Creature 1 0 0 571 0 31146 77]
  by (simp add: Let_def HG_defs)

text \<open>
  C1: A guid survives the wire: the packed form that \<open>operator<<\<close> appends to a buffer is read back by
  \<open>operator>>\<close> as the guid, it consumes exactly the bytes written and leaves what follows, and what
  was in the buffer before is untouched.
\<close>
theorem read_write_guid:
  "\<exists>p. write_guid buf g = buf @ p \<and> length p \<le> 18 \<and> read_guid (p @ rest) = Some (g, rest)"
proof -
  have "length (snd (PackUInt64 v)) \<le> 8" for v
    using pack_loop_length[of v 0] unsigned_less[of v] by (simp add: PackUInt64_def)
  from this[of "raw_lo g"] this[of "raw_hi g"] show ?thesis
    by (simp add: write_guid_eq read_guid_def ReadPacked_Pack)
qed

text \<open>
  C1: The 16 raw bytes of a guid determine it, and \<open>TrySetRawValue\<close> accepts exactly 16 bytes and
  leaves the guid as it is otherwise.
\<close>
theorem raw_value_roundtrip:
  "og_SetRawValue (og_GetRawValue g) = Some g \<and> og_TrySetRawValue (og_GetRawValue g) h = (True, g)
   \<and> (fst (og_TrySetRawValue bs h) = (og_SetRawValue bs \<noteq> None))
   \<and> (og_SetRawValue bs = None \<longrightarrow> snd (og_TrySetRawValue bs h) = h)"
  by (simp add: og_SetRawValue_def og_TrySetRawValue_def og_GetRawValue_def word_of_bytes_of)

text \<open>
  C36: As long as a generator has not asked the server to stop, the counters it hands out are
  consecutive, so no two are equal, and all stay below the largest counter of their type; for a
  transport each of them is the counter of the guid built from it.
\<close>
theorem Generate_fresh:
  assumes "unat (gg_nextGuid g) < unat (GetMaxCounter (gg_high g))"
    and "GuidStopNow \<notin> set (snd (generate_run w n g))"
  shows "distinct (fst (generate_run w n g))
     \<and> map unat (fst (generate_run w n g)) = [unat (gg_nextGuid g)..<unat (gg_nextGuid g) + n]
     \<and> (\<forall>c \<in> set (fst (generate_run w n g)). c < GetMaxCounter (gg_high g))
     \<and> (gg_high g = HG_Transport \<longrightarrow>
          (\<forall>c \<in> set (fst (generate_run w n g)). GetCounter (CreateTransport HG_Transport (ucast c)) = c))"
proof -
  let ?cs = "fst (generate_run w n g)"
  note r = generate_run_range[OF assms(2,1)]
  have "distinct (map unat ?cs)" using r by simp
  then have d: "distinct ?cs" by (simp add: distinct_map)
  have lt: "c < GetMaxCounter (gg_high g)" if "c \<in> set ?cs" for c
  proof -
    have "unat c \<in> set (map unat ?cs)" using that by simp
    then show ?thesis using r by (simp add: word_less_nat_alt)
  qed
  have "GetCounter (CreateTransport HG_Transport (ucast c)) = c" if "gg_high g = HG_Transport" "c \<in> set ?cs" for c
    using transport_counter[of c] lt[OF that(2)] that(1) by (simp add: GetMaxCounter_def)
  then show ?thesis using d r lt by blast
qed

lemma Generate_fresh_witness:
  "let g = \<lparr>gg_high = HG_Transport, gg_nextGuid = 5\<rparr>; w = \<lparr>ga_alert = False, ga_warning = False, ga_alertLevel = 6, ga_warnLevel = 5\<rparr>
   in fst (generate_run w 3 g) = [5, 6, 7] \<and> distinct (fst (generate_run w 3 g))"
  using Generate_fresh[of "\<lparr>gg_high = HG_Transport, gg_nextGuid = 5\<rparr>" "\<lparr>ga_alert = False, ga_warning = False, ga_alertLevel = 6, ga_warnLevel = 5\<rparr>" 3]
  by (simp add: numeral_3_eq_3 gg_Generate_def GetMaxCounter_def CheckGuidTrigger_def HG_defs)

end
