(* ===== verification/GuidText.thy ===== *)
theory GuidText
  imports ObjectGuid TextScan
begin

text \<open>
  The text form of a guid: \<open>ObjectGuidInfo\<close> in
  \<open>src/src/server/game/Entities/Object/ObjectGuid.cpp\<close>. One \<open>Format\<close> and one \<open>Parse\<close> function per
  format, the table that dispatches to them by type, \<open>ToString\<close> and \<open>FromString\<close>. Formatting a null
  name throws inside the format library and \<open>StringFormat\<close> answers with its text for that, the
  parameter \<open>fe\<close>. A parse is \<open>None\<close> where \<open>sscanf\<close> is undefined (a number its object cannot hold).
\<close>

unbundle bit_operations_syntax

datatype guid_fn = FnNull | FnUniq | FnPlayer | FnItem | FnWorldObject | FnTransport | FnClientActor
  | FnChatChannel | FnGlobal | FnGuild | FnMobileSession | FnWebObj | FnLFGObject | FnLFGList | FnClient
  | FnClubFinder | FnToolsClient | FnWorldLayer | FnLMMLobby

definition guid_info :: "(string \<times> guid_fn) list" where
  "guid_info =
  [(''Null'', FnNull), (''Uniq'', FnUniq), (''Player'', FnPlayer),
   (''Item'', FnItem), (''WorldTransaction'', FnWorldObject), (''StaticDoor'', FnTransport),
   (''Transport'', FnTransport), (''Conversation'', FnWorldObject), (''Creature'', FnWorldObject),
   (''Vehicle'', FnWorldObject), (''Pet'', FnWorldObject), (''GameObject'', FnWorldObject),
   (''DynamicObject'', FnWorldObject), (''AreaTrigger'', FnWorldObject), (''Corpse'', FnWorldObject),
   (''LootObject'', FnWorldObject), (''SceneObject'', FnWorldObject), (''Scenario'', FnWorldObject),
   (''AIGroup'', FnWorldObject), (''DynamicDoor'', FnWorldObject), (''ClientActor'', FnClientActor),
   (''Vignette'', FnWorldObject), (''CallForHelp'', FnWorldObject), (''AIResource'', FnWorldObject),
   (''AILock'', FnWorldObject), (''AILockTicket'', FnWorldObject), (''ChatChannel'', FnChatChannel),
   (''Party'', FnGlobal), (''Guild'', FnGuild), (''WowAccount'', FnGlobal),
   (''BNetAccount'', FnGlobal), (''GMTask'', FnGlobal), (''MobileSession'', FnMobileSession),
   (''RaidGroup'', FnGlobal), (''Spell'', FnGlobal), (''Mail'', FnGlobal),
   (''WebObj'', FnWebObj), (''LFGObject'', FnLFGObject), (''LFGList'', FnLFGList),
   (''UserRouter'', FnGlobal), (''PVPQueueGroup'', FnGlobal), (''UserClient'', FnGlobal),
   (''PetBattle'', FnClient), (''UniqUserClient'', FnClient), (''BattlePet'', FnGlobal),
   (''CommerceObj'', FnGlobal), (''ClientSession'', FnClient), (''Cast'', FnWorldObject),
   (''ClientConnection'', FnClient), (''ClubFinder'', FnClubFinder), (''ToolsClient'', FnToolsClient),
   (''WorldLayer'', FnWorldLayer), (''ArenaTeam'', FnGuild), (''LMMParty'', FnClient),
   (''LMMLobby'', FnLMMLobby)]"

definition format_names :: "string option list" where
  "format_names =
    [None, Some ''WOWGUID_UNIQUE_PROBED_DELETE'',
     Some ''WOWGUID_UNIQUE_JAM_TEMP'', Some ''WOWGUID_TO_STRING_FAILED'',
     Some ''WOWGUID_FROM_STRING_FAILED'', Some ''WOWGUID_UNIQUE_SERVER_SELF'',
     Some ''WOWGUID_UNIQUE_MAGIC_SELF'', Some ''WOWGUID_UNIQUE_MAGIC_PET'',
     Some ''WOWGUID_UNIQUE_INVALID_TRANSPORT'', Some ''WOWGUID_UNIQUE_AMMO_ID'',
     Some ''WOWGUID_SPELL_TARGET_TRADE_ITEM'', Some ''WOWGUID_SCRIPT_TARGET_INVALID'',
     Some ''WOWGUID_SCRIPT_TARGET_NONE'', None,
     Some ''WOWGUID_FAKE_MODERATOR'', None,
     None, Some ''WOWGUID_UNIQUE_ACCOUNT_OBJ_INITIALIZATION'',
     None, Some ''WOWGUID_PENDING_PERMANENT_CHARACTER_ASSIGNMENT'']"

definition parse_names :: "string option list" where
  "parse_names =
    [None, Some ''WOWGUID_UNIQUE_PROBED_DELETE'',
     Some ''WOWGUID_UNIQUE_JAM_TEMP'', Some ''WOWGUID_TO_STRING_FAILED'',
     Some ''WOWGUID_FROM_STRING_FAILED'', Some ''WOWGUID_UNIQUE_SERVER_SELF'',
     Some ''WOWGUID_UNIQUE_MAGIC_SELF'', Some ''WOWGUID_UNIQUE_MAGIC_PET'',
     Some ''WOWGUID_UNIQUE_INVALID_TRANSPORT'', Some ''WOWGUID_UNIQUE_AMMO_ID'',
     Some ''WOWGUID_SPELL_TARGET_TRADE_ITEM'', Some ''WOWGUID_SCRIPT_TARGET_INVALID'',
     Some ''WOWGUID_SCRIPT_TARGET_NONE'', None,
     Some ''WOWGUID_FAKE_MODERATOR'', None,
     None, Some ''WOWGUID_UNIQUE_ACCOUNT_OBJ_INITIALIZATION'']"

text \<open>\<open>uint32(raw >> k) & m\<close>\<close>

definition raw_field :: "nat \<Rightarrow> u32 \<Rightarrow> u64 \<Rightarrow> u32" where
  "raw_field k m w = ucast (drop_bit k w) AND m"

abbreviation dec32 :: "u32 \<Rightarrow> string" where "dec32 x \<equiv> fmt_dec (unat x)"

definition dash :: "string list \<Rightarrow> string" where
  "dash fs = foldr (\<lambda>f s. if s = [] then f else f @ CHR ''-'' # s) fs []"

section \<open>Format functions\<close>

definition FormatNull :: string where
  "FormatNull = ''0000000000000000''"

definition FormatUniq :: "string \<Rightarrow> string \<Rightarrow> ObjectGuid \<Rightarrow> string" where
  "FormatUniq fe nm g =
     (let i = (if unat (GetCounter g) \<ge> length format_names then 3 else unat (GetCounter g))
      in case format_names ! i of None \<Rightarrow> fe | Some u \<Rightarrow> dash [nm, u])"

definition FormatPlayer :: "string \<Rightarrow> ObjectGuid \<Rightarrow> string" where
  "FormatPlayer nm g = dash [nm, dec32 (GetRealmId g), fmt_hex 8 (unat (raw_lo g))]"

definition FormatItem :: "string \<Rightarrow> ObjectGuid \<Rightarrow> string" where
  "FormatItem nm g = dash [nm, dec32 (GetRealmId g), dec32 (raw_field 18 0xFFFFFF (raw_hi g)),
     fmt_hex 16 (unat (raw_lo g))]"

definition FormatWorldObject :: "string \<Rightarrow> ObjectGuid \<Rightarrow> string" where
  "FormatWorldObject nm g = dash [nm, dec32 (GetSubType g), dec32 (GetRealmId g), dec32 (GetMapId g),
     dec32 (raw_field 40 0xFFFFFF (raw_lo g)), dec32 (GetEntry g), fmt_hex 10 (unat (GetCounter g))]"

definition FormatTransport :: "string \<Rightarrow> ObjectGuid \<Rightarrow> string" where
  "FormatTransport nm g = dash [nm, dec32 (raw_field 38 0xFFFFF (raw_hi g)), fmt_hex 16 (unat (raw_lo g))]"

definition FormatClientActor :: "string \<Rightarrow> ObjectGuid \<Rightarrow> string" where
  "FormatClientActor nm g = dash [nm, dec32 (GetRealmId g), dec32 (raw_field 26 0xFFFFFF (raw_hi g)),
     dec32 (ucast (raw_lo g))]"

definition FormatChatChannel :: "string \<Rightarrow> ObjectGuid \<Rightarrow> string" where
  "FormatChatChannel nm g =
     (let builtIn = ucast (drop_bit 25 (raw_hi g) AND 0x1);
          trade = ucast (drop_bit 24 (raw_hi g) AND 0x1);
          zoneId = ucast (drop_bit 10 (raw_hi g) AND 0x3FFF);
          factionGroupMask = ucast (drop_bit 4 (raw_hi g) AND 0x3F)
      in dash [nm, dec32 (GetRealmId g), dec32 builtIn, dec32 trade, dec32 zoneId,
               dec32 factionGroupMask, fmt_hex 8 (unat (raw_lo g))])"

definition FormatGlobal :: "string \<Rightarrow> ObjectGuid \<Rightarrow> string" where
  "FormatGlobal nm g = dash [nm, fmt_dec (unat (raw_hi g AND 0x3FFFFFFFFFFFFFF)), fmt_hex 12 (unat (raw_lo g))]"

definition FormatGuild :: "string \<Rightarrow> ObjectGuid \<Rightarrow> string" where
  "FormatGuild nm g = dash [nm, dec32 (GetRealmId g), fmt_hex 12 (unat (raw_lo g))]"

definition FormatMobileSession :: "string \<Rightarrow> ObjectGuid \<Rightarrow> string" where
  "FormatMobileSession nm g = dash [nm, dec32 (GetRealmId g), dec32 (raw_field 33 0x1FF (raw_hi g)),
     fmt_hex 8 (unat (raw_lo g))]"

definition FormatWebObj :: "string \<Rightarrow> ObjectGuid \<Rightarrow> string" where
  "FormatWebObj nm g = dash [nm, dec32 (GetRealmId g), dec32 (raw_field 37 0x1F (raw_hi g)),
     dec32 (raw_field 35 0x3 (raw_hi g)), fmt_hex 12 (unat (raw_lo g))]"

definition FormatLFGObject :: "string \<Rightarrow> ObjectGuid \<Rightarrow> string" where
  "FormatLFGObject nm g = dash [nm, dec32 (raw_field 54 0xF (raw_hi g)), dec32 (raw_field 50 0xF (raw_hi g)),
     dec32 (raw_field 46 0xF (raw_hi g)), dec32 (raw_field 38 0xFF (raw_hi g)),
     dec32 (raw_field 37 0x1 (raw_hi g)), dec32 (raw_field 35 0x3 (raw_hi g)), fmt_hex 6 (unat (raw_lo g))]"

definition FormatLFGList :: "string \<Rightarrow> ObjectGuid \<Rightarrow> string" where
  "FormatLFGList nm g = dash [nm, dec32 (raw_field 54 0xF (raw_hi g)), fmt_hex 6 (unat (raw_lo g))]"

definition FormatClient :: "string \<Rightarrow> ObjectGuid \<Rightarrow> string" where
  "FormatClient nm g = dash [nm, dec32 (GetRealmId g), dec32 (raw_field 10 0xFFFFFFFF (raw_hi g)),
     fmt_hex 12 (unat (raw_lo g))]"

definition FormatClubFinder :: "string \<Rightarrow> ObjectGuid \<Rightarrow> string" where
  "FormatClubFinder nm g =
     (let type = raw_field 33 0xFF (raw_hi g); clubFinderId = raw_field 0 0xFFFFFFFF (raw_hi g)
      in if type = 1 then dash [nm, dec32 type, dec32 clubFinderId, dec32 (GetRealmId g), fmt_dec (unat (raw_lo g))]
         else dash [nm, dec32 type, dec32 clubFinderId, fmt_hex 16 (unat (raw_lo g))])"

definition FormatToolsClient :: "string \<Rightarrow> ObjectGuid \<Rightarrow> string" where
  "FormatToolsClient nm g = dash [nm, dec32 (GetMapId g), dec32 (raw_field 40 0xFFFFFF (raw_lo g)),
     fmt_hex 10 (unat (GetCounter g))]"

definition FormatWorldLayer :: "string \<Rightarrow> ObjectGuid \<Rightarrow> string" where
  "FormatWorldLayer nm g = dash [nm, fmt_hex 0 (unat (ucast (drop_bit 10 (raw_hi g) AND 0xFFFFFFFF) :: u32)),
     dec32 (ucast (raw_hi g AND 0x1FF)), dec32 (ucast (drop_bit 24 (raw_lo g) AND 0xFF)),
     dec32 (ucast (raw_lo g AND 0x7FFFFF))]"

definition FormatLMMLobby :: "string \<Rightarrow> ObjectGuid \<Rightarrow> string" where
  "FormatLMMLobby nm g = dash [nm, dec32 (GetRealmId g), dec32 (raw_field 26 0xFFFFFF (raw_hi g)),
     dec32 (raw_field 18 0xFF (raw_hi g)), dec32 (raw_field 10 0xFF (raw_hi g)), fmt_hex 0 (unat (raw_lo g))]"

section \<open>Parse functions\<close>

abbreviation sep :: directive where "sep \<equiv> Lit (CHR ''-'')"
abbreviation pu :: directive where "pu \<equiv> Num 10 None 32"
abbreviation px :: "nat \<Rightarrow> directive" where "px w \<equiv> Num 16 (Some w) 64"

text \<open>\<open>sscanf\<close> has to assign every argument, otherwise the text is rejected.\<close>

definition scan_guid :: "directive list \<Rightarrow> nat \<Rightarrow> (nat list \<Rightarrow> ObjectGuid) \<Rightarrow> string \<Rightarrow> ObjectGuid option" where
  "scan_guid ds n mk s =
     (case sscanf ds s of None \<Rightarrow> None
      | Some (vs, _) \<Rightarrow> Some (if length vs \<noteq> n then FromStringFailed else mk vs))"

definition ParseNull :: "string \<Rightarrow> ObjectGuid option" where
  "ParseNull s = Some og_Empty"

fun parse_uniq_from :: "nat \<Rightarrow> string option list \<Rightarrow> string \<Rightarrow> ObjectGuid" where
  "parse_uniq_from i [] s = FromStringFailed"
| "parse_uniq_from i (None # us) s = parse_uniq_from (i + 1) us s"
| "parse_uniq_from i (Some u # us) s = (if s = u then CreateUniq (of_nat i) else parse_uniq_from (i + 1) us s)"

definition ParseUniq :: "string \<Rightarrow> ObjectGuid option" where
  "ParseUniq s = Some (parse_uniq_from 0 parse_names s)"

definition ParsePlayer :: "u32 \<Rightarrow> string \<Rightarrow> ObjectGuid option" where
  "ParsePlayer rlm = scan_guid [pu, sep, px 8] 2
     (\<lambda>vs. CreatePlayer rlm (of_nat (vs ! 0)) (of_nat (vs ! 1)))"

definition ParseItem :: "u32 \<Rightarrow> string \<Rightarrow> ObjectGuid option" where
  "ParseItem rlm = scan_guid [pu, sep, pu, sep, px 16] 3
     (\<lambda>vs. CreateItem rlm (of_nat (vs ! 0)) (of_nat (vs ! 2)))"

definition ParseWorldObject :: "u32 \<Rightarrow> HighGuid \<Rightarrow> string \<Rightarrow> ObjectGuid option" where
  "ParseWorldObject rlm type = scan_guid [pu, sep, pu, sep, pu, sep, pu, sep, pu, sep, px 10] 6
     (\<lambda>vs. CreateWorldObject rlm type (of_nat (vs ! 0)) (of_nat (vs ! 1)) (of_nat (vs ! 2))
        (of_nat (vs ! 3)) (of_nat (vs ! 4)) (of_nat (vs ! 5)))"

definition ParseTransport :: "HighGuid \<Rightarrow> string \<Rightarrow> ObjectGuid option" where
  "ParseTransport type = scan_guid [pu, sep, px 16] 2 (\<lambda>vs. CreateTransport type (of_nat (vs ! 1)))"

definition ParseClientActor :: "string \<Rightarrow> ObjectGuid option" where
  "ParseClientActor = scan_guid [pu, sep, pu, sep, pu] 3
     (\<lambda>vs. CreateClientActor (of_nat (vs ! 0)) (of_nat (vs ! 1)) (of_nat (vs ! 2)))"

definition ParseChatChannel :: "u32 \<Rightarrow> string \<Rightarrow> ObjectGuid option" where
  "ParseChatChannel rlm = scan_guid [pu, sep, pu, sep, pu, sep, pu, sep, pu, sep, px 8] 6
     (\<lambda>vs. CreateChatChannel rlm (of_nat (vs ! 0)) (vs ! 1 \<noteq> 0) (vs ! 2 \<noteq> 0) (of_nat (vs ! 3))
        (of_nat (vs ! 4)) (of_nat (vs ! 5)))"

definition ParseGlobal :: "HighGuid \<Rightarrow> string \<Rightarrow> ObjectGuid option" where
  "ParseGlobal type = scan_guid [Num 10 None 64, sep, px 12] 2
     (\<lambda>vs. CreateGlobal type (of_nat (vs ! 0)) (of_nat (vs ! 1)))"

definition ParseGuild :: "u32 \<Rightarrow> HighGuid \<Rightarrow> string \<Rightarrow> ObjectGuid option" where
  "ParseGuild rlm type = scan_guid [pu, sep, px 12] 2
     (\<lambda>vs. CreateGuild rlm type (of_nat (vs ! 0)) (of_nat (vs ! 1)))"

definition ParseMobileSession :: "u32 \<Rightarrow> string \<Rightarrow> ObjectGuid option" where
  "ParseMobileSession rlm = scan_guid [pu, sep, pu, sep, px 8] 3
     (\<lambda>vs. CreateMobileSession rlm (of_nat (vs ! 0)) (of_nat (vs ! 1)) (of_nat (vs ! 2)))"

definition ParseWebObj :: "u32 \<Rightarrow> string \<Rightarrow> ObjectGuid option" where
  "ParseWebObj rlm = scan_guid [pu, sep, pu, sep, pu, sep, px 12] 4
     (\<lambda>vs. CreateWebObj rlm (of_nat (vs ! 0)) (of_nat (vs ! 1)) (of_nat (vs ! 2)) (of_nat (vs ! 3)))"

definition ParseLFGObject :: "string \<Rightarrow> ObjectGuid option" where
  "ParseLFGObject = scan_guid [pu, sep, pu, sep, pu, sep, pu, sep, pu, sep, pu, sep, px 6] 7
     (\<lambda>vs. CreateLFGObject (of_nat (vs ! 0)) (of_nat (vs ! 1)) (of_nat (vs ! 2)) (of_nat (vs ! 3))
        (vs ! 4 \<noteq> 0) (of_nat (vs ! 5)) (of_nat (vs ! 6)))"

definition ParseLFGList :: "string \<Rightarrow> ObjectGuid option" where
  "ParseLFGList = scan_guid [pu, sep, px 6] 2 (\<lambda>vs. CreateLFGList (of_nat (vs ! 0)) (of_nat (vs ! 1)))"

definition ParseClient :: "u32 \<Rightarrow> HighGuid \<Rightarrow> string \<Rightarrow> ObjectGuid option" where
  "ParseClient rlm type = scan_guid [pu, sep, pu, sep, px 12] 3
     (\<lambda>vs. CreateClient rlm type (of_nat (vs ! 0)) (of_nat (vs ! 1)) (of_nat (vs ! 2)))"

text \<open>\<open>%n\<close> stores how much was consumed if the dash was there; otherwise the second scan starts over.\<close>

definition ParseClubFinder :: "u32 \<Rightarrow> string \<Rightarrow> ObjectGuid option" where
  "ParseClubFinder rlm s =
     (case sscanf [pu, sep] s of None \<Rightarrow> None
      | Some (vs, r) \<Rightarrow>
          if length vs \<noteq> 1 then Some FromStringFailed
          else let s2 = (case r of Some t \<Rightarrow> t | None \<Rightarrow> s) in
            if vs ! 0 = 0 then
              scan_guid [pu, sep, px 16] 2
                (\<lambda>ws. CreateClubFinder rlm 0 (of_nat (vs ! 0)) (of_nat (ws ! 0)) (of_nat (ws ! 1))) s2
            else if vs ! 0 = 1 then
              scan_guid [pu, sep, pu, sep, px 16] 3
                (\<lambda>ws. CreateClubFinder rlm (of_nat (ws ! 1)) (of_nat (vs ! 0)) (of_nat (ws ! 0)) (of_nat (ws ! 2))) s2
            else Some FromStringFailed)"

definition ParseToolsClient :: "string \<Rightarrow> ObjectGuid option" where
  "ParseToolsClient = scan_guid [pu, sep, pu, sep, px 10] 3
     (\<lambda>vs. CreateToolsClient (of_nat (vs ! 0)) (of_nat (vs ! 1)) (of_nat (vs ! 2)))"

definition ParseWorldLayer :: "string \<Rightarrow> ObjectGuid option" where
  "ParseWorldLayer = scan_guid [Num 16 None 32, sep, Num 10 None 16, sep, Num 10 None 8, sep, pu] 4
     (\<lambda>vs. CreateWorldLayer (of_nat (vs ! 0)) (of_nat (vs ! 1)) (of_nat (vs ! 2)) (of_nat (vs ! 3)))"

definition ParseLMMLobby :: "u32 \<Rightarrow> string \<Rightarrow> ObjectGuid option" where
  "ParseLMMLobby rlm = scan_guid [pu, sep, pu, sep, Num 10 None 8, sep, Num 10 None 8, sep, Num 16 None 64] 5
     (\<lambda>vs. CreateLMMLobby rlm (of_nat (vs ! 0)) (of_nat (vs ! 1)) (of_nat (vs ! 2)) (of_nat (vs ! 3)) (of_nat (vs ! 4)))"

section \<open>Dispatch\<close>

fun call_format :: "guid_fn \<Rightarrow> string \<Rightarrow> string \<Rightarrow> ObjectGuid \<Rightarrow> string" where
  "call_format FnNull fe nm g = FormatNull"
| "call_format FnUniq fe nm g = FormatUniq fe nm g"
| "call_format FnPlayer fe nm g = FormatPlayer nm g"
| "call_format FnItem fe nm g = FormatItem nm g"
| "call_format FnWorldObject fe nm g = FormatWorldObject nm g"
| "call_format FnTransport fe nm g = FormatTransport nm g"
| "call_format FnClientActor fe nm g = FormatClientActor nm g"
| "call_format FnChatChannel fe nm g = FormatChatChannel nm g"
| "call_format FnGlobal fe nm g = FormatGlobal nm g"
| "call_format FnGuild fe nm g = FormatGuild nm g"
| "call_format FnMobileSession fe nm g = FormatMobileSession nm g"
| "call_format FnWebObj fe nm g = FormatWebObj nm g"
| "call_format FnLFGObject fe nm g = FormatLFGObject nm g"
| "call_format FnLFGList fe nm g = FormatLFGList nm g"
| "call_format FnClient fe nm g = FormatClient nm g"
| "call_format FnClubFinder fe nm g = FormatClubFinder nm g"
| "call_format FnToolsClient fe nm g = FormatToolsClient nm g"
| "call_format FnWorldLayer fe nm g = FormatWorldLayer nm g"
| "call_format FnLMMLobby fe nm g = FormatLMMLobby nm g"

fun call_parse :: "guid_fn \<Rightarrow> u32 \<Rightarrow> HighGuid \<Rightarrow> string \<Rightarrow> ObjectGuid option" where
  "call_parse FnNull rlm type s = ParseNull s"
| "call_parse FnUniq rlm type s = ParseUniq s"
| "call_parse FnPlayer rlm type s = ParsePlayer rlm s"
| "call_parse FnItem rlm type s = ParseItem rlm s"
| "call_parse FnWorldObject rlm type s = ParseWorldObject rlm type s"
| "call_parse FnTransport rlm type s = ParseTransport type s"
| "call_parse FnClientActor rlm type s = ParseClientActor s"
| "call_parse FnChatChannel rlm type s = ParseChatChannel rlm s"
| "call_parse FnGlobal rlm type s = ParseGlobal type s"
| "call_parse FnGuild rlm type s = ParseGuild rlm type s"
| "call_parse FnMobileSession rlm type s = ParseMobileSession rlm s"
| "call_parse FnWebObj rlm type s = ParseWebObj rlm s"
| "call_parse FnLFGObject rlm type s = ParseLFGObject s"
| "call_parse FnLFGList rlm type s = ParseLFGList s"
| "call_parse FnClient rlm type s = ParseClient rlm type s"
| "call_parse FnClubFinder rlm type s = ParseClubFinder rlm s"
| "call_parse FnToolsClient rlm type s = ParseToolsClient s"
| "call_parse FnWorldLayer rlm type s = ParseWorldLayer s"
| "call_parse FnLMMLobby rlm type s = ParseLMMLobby rlm s"

definition og_ToString :: "string \<Rightarrow> ObjectGuid \<Rightarrow> string" where
  "og_ToString fe g =
     (if GetHigh g \<ge> HG_Count then ''Uniq-WOWGUID_TO_STRING_FAILED''
      else let (nm, f) = guid_info ! unat (GetHigh g) in call_format f fe nm g)"

fun find_type :: "nat \<Rightarrow> (string \<times> guid_fn) list \<Rightarrow> nat \<Rightarrow> string \<Rightarrow> (nat \<times> guid_fn) option" where
  "find_type i [] typeEnd s = None"
| "find_type i ((nm, f) # ns) typeEnd s =
     (if length nm < typeEnd then find_type (i + 1) ns typeEnd s
      else if take typeEnd s = nm then Some (i, f)
      else find_type (i + 1) ns typeEnd s)"

definition c_str :: "string \<Rightarrow> string" where
  "c_str s = takeWhile (\<lambda>c. c \<noteq> char_of (0::nat)) s"

definition FromString :: "u32 \<Rightarrow> string \<Rightarrow> ObjectGuid option" where
  "FromString rlm s =
     (if CHR ''-'' \<notin> set s then Some FromStringFailed
      else let typeEnd = length (takeWhile (\<lambda>c. c \<noteq> CHR ''-'') s) in
        case find_type 0 guid_info typeEnd s of
          None \<Rightarrow> Some FromStringFailed
        | Some (type, f) \<Rightarrow> call_parse f rlm (of_nat type) (c_str (drop (typeEnd + 1) s)))"

definition GetTypeName :: "HighGuid \<Rightarrow> string" where
  "GetTypeName high = (if high \<ge> HG_Count then ''<unknown>'' else fst (guid_info ! unat high))"

definition og_GetTypeName :: "ObjectGuid \<Rightarrow> string" where
  "og_GetTypeName g = (if \<not> og_IsEmpty g then GetTypeName (GetHigh g) else ''None'')"

definition ToHexString :: "ObjectGuid \<Rightarrow> string" where
  "ToHexString g = ''0x'' @ fmt_hex 16 (unat (raw_hi g)) @ fmt_hex 16 (unat (raw_lo g))"

section \<open>The dispatch is a bijection on the names\<close>

lemma info_length [simp]: "length guid_info = 55"
  by (simp add: guid_info_def)

lemma find_type_all:
  "list_all (\<lambda>i. CHR ''-'' \<notin> set (fst (guid_info ! i))
      \<and> find_type 0 guid_info (length (fst (guid_info ! i))) (fst (guid_info ! i)) = Some (i, snd (guid_info ! i)))
     [0..<55]"
  by code_simp

lemma find_type_take:
  "find_type i ns k (take k s) = find_type i ns k s"
  by (induction i ns k s rule: find_type.induct) simp_all

lemma info_entry:
  assumes "i < 55"
  shows "CHR ''-'' \<notin> set (fst (guid_info ! i))"
    and "find_type 0 guid_info (length (fst (guid_info ! i))) (fst (guid_info ! i) @ s) = Some (i, snd (guid_info ! i))"
  using find_type_all assms
    find_type_take[of 0 guid_info "length (fst (guid_info ! i))" "fst (guid_info ! i) @ s"]
  by (auto simp: list_all_iff)

text \<open>Parsing a text that starts with a type's name goes to that type's parser.\<close>

lemma FromString_name:
  assumes "i < 55" and "char_of (0::nat) \<notin> set s"
  shows "FromString rlm (fst (guid_info ! i) @ CHR ''-'' # s) = call_parse (snd (guid_info ! i)) rlm (of_nat i) s"
proof -
  note e = info_entry[OF assms(1)]
  have tw: "takeWhile (\<lambda>c. c \<noteq> CHR ''-'') (fst (guid_info ! i) @ CHR ''-'' # s) = fst (guid_info ! i)"
    using e(1) by (subst takeWhile_append2) auto
  have "c_str s = s" using assms(2) by (auto simp: c_str_def takeWhile_eq_all_conv)
  then show ?thesis
    unfolding FromString_def tw using e(2)[of "CHR ''-'' # s"] by (simp add: Let_def)
qed

lemma dash_Cons: "fs \<noteq> [] \<Longrightarrow> hd fs \<noteq> [] \<Longrightarrow> dash (f # fs) = f @ CHR ''-'' # dash fs"
  by (cases fs) (auto simp: dash_def split: if_splits)

lemma dash_one [simp]: "dash [f] = f"
  by (simp add: dash_def)

lemma nul_not_dash: "char_of (0::nat) \<noteq> CHR ''-''"
  by (simp add: char_of_def)

lemma dash_no_nul: "\<forall>f \<in> set fs. char_of (0::nat) \<notin> set f \<Longrightarrow> char_of (0::nat) \<notin> set (dash fs)"
  by (induction fs) (auto simp: dash_def nul_not_dash)

lemma ToString_info:
  assumes "unat (GetHigh g) < 55"
  shows "og_ToString fe g = call_format (snd (guid_info ! unat (GetHigh g))) fe (fst (guid_info ! unat (GetHigh g))) g"
  using assms by (simp add: og_ToString_def HG_defs word_le_nat_alt split: prod.split)

lemmas field_texts = dec.text_some hex.text_some dec.text_no_nul hex.text_no_nul

text \<open>The numerals of a guid fit the objects they are read into.\<close>

lemma scan_u32:
  "sscanf (pu # sep # ds) (dec32 x @ CHR ''-'' # s) =
     (case sscanf ds s of None \<Rightarrow> None | Some (vs, r) \<Rightarrow> Some (unat x # vs, r))"
  using unsigned_less[of x] by (intro dec.sscanf_field) simp_all

lemma scan_u32_last: "sscanf [pu] (dec32 x) = Some ([unat x], Some [])"
  using unsigned_less[of x] by (intro dec.sscanf_last) simp_all

lemma scan_x64:
  "length (fmt_hex w (unat (x :: u64))) \<le> w \<Longrightarrow> sscanf [px w] (fmt_hex w (unat x)) = Some ([unat x], Some [])"
  using unsigned_less[of x] by (intro hex.sscanf_last) simp_all

lemmas scan_fields = scan_u32 scan_u32_last scan_x64

lemma hex_fits: "unat (x :: u64) < 16 ^ w \<Longrightarrow> 0 < w \<Longrightarrow> length (fmt_hex w (unat x)) \<le> w"
  by (simp add: fmt_hex_length)

lemma counter40: "unat (x AND (0xFFFFFFFFFF :: u64)) < 16 ^ 10"
proof -
  have "x AND 0xFFFFFFFFFF \<le> 0xFFFFFFFFFF" by (rule word_and_le1)
  then show ?thesis by (simp add: word_le_nat_alt)
qed

lemma ucast_of_nat_unat: "(of_nat (unat (x :: 'a::len word)) :: 'b::len word) = ucast x"
  by (rule word_unat_eq_iff[THEN iffD2]) (simp add: unat_of_nat unsigned_ucast_eq take_bit_eq_mod)

lemma parse_WorldObject:
  assumes g: "g = CreateWorldObject rlm type sub r mp srv entry cnt"
    and t: "type < 55" "snd (guid_info ! unat type) = FnWorldObject"
    and r: "GetRealmIdForObjectGuid rlm r AND 0x1FFF \<noteq> 0"
  shows "FromString rlm (og_ToString fe g) = Some g"
proof -
  have t64: "type < 64" using t(1) by (simp add: word_less_nat_alt)
  have u55: "unat type < 55" using t(1) by (simp add: word_less_nat_alt)
  note p = CreateWorldObject_parts[OF t64, of rlm sub r mp srv entry cnt, folded g]
  have nt: "GetHigh g \<noteq> HG_Transport"
    using t(2) p(1) by (auto simp: HG_defs guid_info_def)
  have cnt: "GetCounter g = cnt AND 0xFFFFFFFFFF" using nt p(7) by (simp add: GetCounter_def)
  let ?fs = "[dec32 (GetSubType g), dec32 (GetRealmId g), dec32 (GetMapId g),
     dec32 (raw_field 40 0xFFFFFF (raw_lo g)), dec32 (GetEntry g), fmt_hex 10 (unat (GetCounter g))]"
  have "og_ToString fe g = dash (fst (guid_info ! unat type) # ?fs)"
    using ToString_info[of g fe] p(1) u55 t(2) by (simp add: FormatWorldObject_def)
  also have "\<dots> = fst (guid_info ! unat type) @ CHR ''-'' # dash ?fs"
    by (rule dash_Cons) (simp_all add: field_texts)
  finally have text_g: "og_ToString fe g = fst (guid_info ! unat type) @ CHR ''-'' # dash ?fs" .
  have nn: "char_of (0::nat) \<notin> set (dash ?fs)" by (rule dash_no_nul) (simp add: field_texts)
  have sc: "sscanf [pu, sep, pu, sep, pu, sep, pu, sep, pu, sep, px 10] (dash ?fs)
      = Some ([unat (GetSubType g), unat (GetRealmId g), unat (GetMapId g),
          unat (raw_field 40 0xFFFFFF (raw_lo g)), unat (GetEntry g), unat (GetCounter g)], Some [])"
    using hex_fits[of "GetCounter g" 10] counter40[of cnt]
    by (simp add: dash_Cons field_texts scan_fields cnt del: sscanf.simps)
  have "FromString rlm (og_ToString fe g) = Some (CreateWorldObject rlm type (ucast (GetSubType g)) (GetRealmId g)
      (ucast (GetMapId g)) (raw_field 40 0xFFFFFF (raw_lo g)) (GetEntry g) (GetCounter g))"
    unfolding text_g FromString_name[OF u55 nn] t(2)
    by (simp add: ParseWorldObject_def scan_guid_def sc ucast_of_nat_unat del: sscanf.simps)
  also have "CreateWorldObject rlm type (ucast (GetSubType g)) (GetRealmId g)
      (ucast (GetMapId g)) (raw_field 40 0xFFFFFF (raw_lo g)) (GetEntry g) (GetCounter g) = g"
  proof -
    have rl: "GetRealmIdForObjectGuid rlm (GetRealmId g) = GetRealmIdForObjectGuid rlm r AND 0x1FFF"
      using r p(3) by (simp add: GetRealmIdForObjectGuid_def)
    have "raw_field 40 0xFFFFFF (raw_lo g) = srv AND 0xFFFFFF"
      unfolding raw_field_def p(6) by (rule bit_word_eqI) (auto simp: field_simps)
    moreover have "ucast (ucast (ucast sub AND 0x3F :: u32) :: u8) AND 0x3F = (ucast sub AND 0x3F :: u64)"
      by (rule bit_word_eqI) (auto simp: field_simps)
    moreover have "ucast (ucast mp AND 0x1FFF :: u32) AND 0x1FFF = (mp AND 0x1FFF)"
      by (rule bit_word_eqI) (auto simp: field_simps)
    ultimately have "CreateWorldObject rlm type (ucast (GetSubType g)) (GetRealmId g)
        (ucast (GetMapId g)) (raw_field 40 0xFFFFFF (raw_lo g)) (GetEntry g) (GetCounter g)
      = CreateWorldObject rlm type sub r mp srv entry cnt"
      by (simp only: CreateWorldObject_def rl p(2,4,5) cnt and.assoc and.idem)
    then show ?thesis by (simp only: g)
  qed
  finally show ?thesis .
qed

section \<open>Two field formats: players and guilds\<close>

lemma CreatePlayer_parts:
  assumes "rr < 2 ^ 16" "rr \<noteq> 0" "GetRealmIdForObjectGuid rlm r = rr"
  shows "GetHigh (CreatePlayer rlm r d) = HG_Player" "GetRealmId (CreatePlayer rlm r d) = rr"
    "raw_lo (CreatePlayer rlm r d) = d" "CreatePlayer rlm rr d = CreatePlayer rlm r d"
proof -
  have br: "bit rr n \<Longrightarrow> n < 16" for n
    by (rule ccontr) (use small_bit[of rr 16 n] assms in simp)
  show "GetHigh (CreatePlayer rlm r d) = HG_Player"
    unfolding CreatePlayer_def assms
    by (rule GetHigh_high_bits) (auto simp: HG_defs field_simps dest: br)
  show "GetRealmId (CreatePlayer rlm r d) = rr"
    unfolding CreatePlayer_def assms GetRealmId_def high_bits_def
    by (rule bit_word_eqI) (auto simp: field_simps dest: br)
  show "raw_lo (CreatePlayer rlm r d) = d" by (simp add: CreatePlayer_def)
  show "CreatePlayer rlm rr d = CreatePlayer rlm r d"
    using assms by (simp add: CreatePlayer_def GetRealmIdForObjectGuid_def)
qed

lemma info_Player: "guid_info ! unat HG_Player = (''Player'', FnPlayer)" "unat HG_Player = 2"
  and info_Transport: "guid_info ! unat HG_Transport = (''Transport'', FnTransport)" "unat HG_Transport = 6"
  by (simp_all add: guid_info_def HG_defs)

lemma ToString_Player:
  assumes "GetHigh g = HG_Player"
  shows "og_ToString fe g = fst (guid_info ! 2) @ CHR ''-'' # dash [dec32 (GetRealmId g), fmt_hex 8 (unat (raw_lo g))]"
  using assms ToString_info[of g fe] info_Player by (simp add: FormatPlayer_def dash_Cons field_texts)

lemma scan_player:
  "\<exists>v t. sscanf [pu, sep, px 8] (dash [dec32 x, fmt_hex 8 (unat (y :: u64))]) = Some ([unat x, v], Some t)
     \<and> (if unat y < 16 ^ 8 then v = unat y else v < 16 ^ 8)"
proof (cases "unat y < 16 ^ 8")
  case True
  then show ?thesis
    using hex_fits[of y 8] by (simp add: dash_Cons field_texts scan_fields del: sscanf.simps)
next
  case False
  then obtain v t where v: "v < 16 ^ 8" "scan_num 16 (Some 8) (fmt_hex 8 (unat y)) = Some (False, v, t)"
    using fmt_hex_cut[of 8 "unat y"] by auto
  have "sscanf [px 8] (fmt_hex 8 (unat y)) = Some ([v], Some t)" using v by simp
  then have "sscanf [pu, sep, px 8] (dash [dec32 x, fmt_hex 8 (unat y)]) = Some ([unat x, v], Some t)"
    by (simp add: dash_Cons field_texts scan_u32 del: sscanf.simps)
  then show ?thesis using v(1) False by auto
qed

lemma dash_fields_no_nul: "char_of (0::nat) \<notin> set (dash [dec32 x, fmt_hex w n])"
  by (rule dash_no_nul) (simp add: field_texts)

section \<open>Properties\<close>

text \<open>
  C20: The text form of every world object's guid (creature, pet, vehicle, game object, dynamic object,
  corpse, loot, scene object, cast and the others that share their format) parses back to that guid,
  whatever its fields are, as long as the realm part of the guid is not 0.
\<close>
theorem FromString_ToString_WorldObject:
  assumes "type < 55" "snd (guid_info ! unat type) = FnWorldObject"
    and "GetRealmIdForObjectGuid rlm r AND 0x1FFF \<noteq> 0"
  shows "FromString rlm (og_ToString fe (CreateWorldObject rlm type sub r mp srv entry cnt))
       = Some (CreateWorldObject rlm type sub r mp srv entry cnt)"
  using parse_WorldObject[OF refl assms] .

lemma FromString_ToString_WorldObject_witness:
  "FromString 1 (og_ToString [] (CreateWorldObject 1 HG_Creature 0 0 571 0 31146 77))
     = Some (CreateWorldObject 1 HG_Creature 0 0 571 0 31146 77)"
  using FromString_ToString_WorldObject[of HG_Creature 1 0 "[]" 0 571 0 31146 77]
  by (simp add: HG_defs guid_info_def GetRealmIdForObjectGuid_def)

text \<open>
  Remark: The text form of a player's guid parses back to it exactly if the player's number is below
  2 to the 32nd; the number itself may have 40 bits, and the text of a longer number has more digits
  than the parser reads.
\<close>
theorem FromString_ToString_Player:
  assumes "GetRealmIdForObjectGuid rlm r \<noteq> 0" "GetRealmIdForObjectGuid rlm r < 2 ^ 16"
  shows "(FromString rlm (og_ToString fe (CreatePlayer rlm r d)) = Some (CreatePlayer rlm r d)) = (d < 2 ^ 32)"
proof -
  let ?g = "CreatePlayer rlm r d" let ?rr = "GetRealmIdForObjectGuid rlm r"
  note p = CreatePlayer_parts[OF assms(2,1) refl, of d]
  let ?s = "dash [dec32 ?rr, fmt_hex 8 (unat d)]"
  obtain v t where v: "sscanf [pu, sep, px 8] ?s = Some ([unat ?rr, v], Some t)"
    "if unat d < 16 ^ 8 then v = unat d else v < 16 ^ 8"
    using scan_player[of ?rr d] by blast
  have "FromString rlm (og_ToString fe ?g) = Some (CreatePlayer rlm ?rr (of_nat v))"
    unfolding ToString_Player[OF p(1)] p(2,3)
    using FromString_name[of 2 ?s rlm] dash_fields_no_nul[of ?rr 8 "unat d"] info_Player v(1)
    by (simp add: ParsePlayer_def scan_guid_def ucast_of_nat_unat del: sscanf.simps)
  then have eq: "(FromString rlm (og_ToString fe ?g) = Some ?g) = (of_nat v = d)"
    using p(4) by (simp add: CreatePlayer_def GetRealmIdForObjectGuid_def split: if_splits)
  have lt: "(d < 2 ^ 32) = (unat d < 16 ^ 8)" by (simp add: word_less_nat_alt)
  show ?thesis
  proof (cases "unat d < 16 ^ 8")
    case True
    then show ?thesis using v(2) eq lt by auto
  next
    case False
    then have vl: "v < 16 ^ 8" using v(2) by simp
    then have "unat (of_nat v :: u64) = v" by (simp add: unat_of_nat)
    then have "of_nat v \<noteq> d" using vl False by auto
    then show ?thesis using eq lt False by simp
  qed
qed

lemma FromString_ToString_Player_witness:
  "FromString 1 (og_ToString [] (CreatePlayer 1 0 77)) = Some (CreatePlayer 1 0 77)
   \<and> FromString 1 (og_ToString [] (CreatePlayer 1 0 0x123456789)) \<noteq> Some (CreatePlayer 1 0 0x123456789)"
  using FromString_ToString_Player[of 1 0 "[]" 77] FromString_ToString_Player[of 1 0 "[]" "0x123456789"]
  by (simp add: GetRealmIdForObjectGuid_def)

text \<open>
  Remark: The text form of a transport's guid never parses back to it: the parser builds the guid from the
  second number of the text, which is 0 for every transport, so the result is the transport with
  counter 0 whatever the counter was.
\<close>
theorem FromString_ToString_Transport:
  assumes "c < 2 ^ 20"
  shows "FromString rlm (og_ToString fe (CreateTransport HG_Transport c)) = Some (CreateTransport HG_Transport 0)"
proof -
  let ?g = "CreateTransport HG_Transport c"
  have p: "GetHigh ?g = HG_Transport" using CreateTransport_parts(1)[OF _ assms, of HG_Transport] by (simp add: HG_defs)
  let ?s = "dash [dec32 (raw_field 38 0xFFFFF (raw_hi ?g)), fmt_hex 16 (unat (0 :: u64))]"
  have t: "og_ToString fe ?g = fst (guid_info ! 6) @ CHR ''-'' # ?s"
    using ToString_info[of ?g fe] p info_Transport
    by (simp add: FormatTransport_def dash_Cons field_texts CreateTransport_def)
  have "sscanf [pu, sep, px 16] ?s = Some ([unat (raw_field 38 0xFFFFF (raw_hi ?g)), 0], Some [])"
    using hex_fits[of 0 16] scan_x64[of 16 0] by (simp add: dash_Cons field_texts scan_u32 del: sscanf.simps)
  then show ?thesis
    unfolding t using FromString_name[of 6 ?s rlm] dash_fields_no_nul[of _ 16 0] info_Transport
    by (simp add: ParseTransport_def scan_guid_def HG_defs del: sscanf.simps)
qed

lemma FromString_ToString_Transport_witness:
  "FromString 1 (og_ToString [] (CreateTransport HG_Transport 5)) = Some (CreateTransport HG_Transport 0)
   \<and> CreateTransport HG_Transport 0 \<noteq> CreateTransport HG_Transport 5"
  using FromString_ToString_Transport[of 5 1 "[]"] by (simp add: CreateTransport_def high_bits_def HG_defs)

lemma LFGList_type: "GetHigh (CreateLFGList 0 c) = HG_LFGObject"
  by (simp add: CreateLFGList_def GetHigh_def high_bits_def HG_defs)


end
