(* ===== verification/LfgRoles.thy ===== *)
theory LfgRoles
  imports ObjectGuid
begin

text \<open>
  The search for a role assignment of the dungeon finder: \<open>LFGMgr::CheckGroupRoles\<close> in
  \<open>src/src/server/game/DungeonFinding/LFGMgr.cpp\<close> with the constants of \<open>LFG.h\<close>. A role map is its
  list of entries in the order of the keys. The function changes the map while it recurses and undoes
  its changes where it fails; the model passes the map through every call. The recursion takes away one
  role flag per level, so it is written with fuel (\<open>None\<close> if it is used up), and that three times the
  number of players and one is enough is proved.
\<close>

unbundle bit_operations_syntax

type_synonym 'k roles_map = "('k \<times> u8) list"

definition LFG_TANKS_NEEDED :: u8 where "LFG_TANKS_NEEDED = 1"
definition LFG_HEALERS_NEEDED :: u8 where "LFG_HEALERS_NEEDED = 1"
definition LFG_DPS_NEEDED :: u8 where "LFG_DPS_NEEDED = 3"

definition ROLE_NONE :: u8 where "ROLE_NONE = 0x00"
definition ROLE_LEADER :: u8 where "ROLE_LEADER = 0x01"
definition ROLE_TANK :: u8 where "ROLE_TANK = 0x02"
definition ROLE_HEALER :: u8 where "ROLE_HEALER = 0x04"
definition ROLE_DAMAGE :: u8 where "ROLE_DAMAGE = 0x08"
definition ROLE_ANY :: u8 where "ROLE_ANY = ROLE_LEADER OR ROLE_TANK OR ROLE_HEALER OR ROLE_DAMAGE"

lemmas role_defs = ROLE_NONE_def ROLE_LEADER_def ROLE_TANK_def ROLE_HEALER_def ROLE_DAMAGE_def
  LFG_TANKS_NEEDED_def LFG_HEALERS_NEEDED_def LFG_DPS_NEEDED_def

definition add_role :: "nat \<Rightarrow> u8 \<Rightarrow> 'k roles_map \<Rightarrow> 'k roles_map" where
  "add_role i f r = r[i := (fst (r ! i), snd (r ! i) + f)]"

definition sub_role :: "nat \<Rightarrow> u8 \<Rightarrow> 'k roles_map \<Rightarrow> 'k roles_map" where
  "sub_role i f r = r[i := (fst (r ! i), snd (r ! i) - f)]"

text \<open>One \<open>if (role & flag)\<close>: a return value with the map, or the map and the counter to go on with.\<close>

definition cgr_block ::
  "('k roles_map \<Rightarrow> (bool \<times> 'k roles_map) option) \<Rightarrow> u8 \<Rightarrow> u8 \<Rightarrow> nat \<Rightarrow> u8 \<Rightarrow> u8 \<Rightarrow> 'k roles_map
     \<Rightarrow> ((bool \<times> 'k roles_map) + (u8 \<times> 'k roles_map)) option" where
  "cgr_block rec flag needed i role counter r =
     (if role AND flag \<noteq> 0 then
        if role \<noteq> flag then
          (case rec (sub_role i flag r) of
             None \<Rightarrow> None
           | Some (True, r') \<Rightarrow> Some (Inl (True, r'))
           | Some (False, r') \<Rightarrow> Some (Inr (counter, add_role i flag r')))
        else if counter = needed then Some (Inl (False, r))
        else Some (Inr (counter + 1, r))
      else Some (Inr (counter, r)))"

fun cgr_loop ::
  "('k roles_map \<Rightarrow> (bool \<times> 'k roles_map) option) \<Rightarrow> nat list \<Rightarrow> u8 \<Rightarrow> u8 \<Rightarrow> u8 \<Rightarrow> 'k roles_map
     \<Rightarrow> (bool \<times> 'k roles_map) option" where
  "cgr_loop rec [] damage tank healer r =
     Some (unat tank + unat healer + unat damage = unat (of_nat (length r) :: u8), r)"
| "cgr_loop rec (i # is) damage tank healer r =
     (let role = snd (r ! i) AND NOT ROLE_LEADER in
      if role = ROLE_NONE then Some (False, r)
      else case cgr_block rec ROLE_DAMAGE LFG_DPS_NEEDED i role damage r of
             None \<Rightarrow> None | Some (Inl res) \<Rightarrow> Some res
           | Some (Inr (damage', r1)) \<Rightarrow>
      (case cgr_block rec ROLE_HEALER LFG_HEALERS_NEEDED i role healer r1 of
         None \<Rightarrow> None | Some (Inl res) \<Rightarrow> Some res
       | Some (Inr (healer', r2)) \<Rightarrow>
      (case cgr_block rec ROLE_TANK LFG_TANKS_NEEDED i role tank r2 of
         None \<Rightarrow> None | Some (Inl res) \<Rightarrow> Some res
       | Some (Inr (tank', r3)) \<Rightarrow> cgr_loop rec is damage' tank' healer' r3)))"

fun CheckGroupRoles_fuel :: "nat \<Rightarrow> 'k roles_map \<Rightarrow> (bool \<times> 'k roles_map) option" where
  "CheckGroupRoles_fuel 0 r = None"
| "CheckGroupRoles_fuel (Suc n) r =
     (if r = [] then Some (False, r)
      else cgr_loop (CheckGroupRoles_fuel n) [0..<length r] 0 0 0 r)"

text \<open>With fuel for every flag of every player; the \<open>None\<close> case does not occur (theorem below).\<close>

definition CheckGroupRoles :: "'k roles_map \<Rightarrow> bool \<times> 'k roles_map" where
  "CheckGroupRoles r = (case CheckGroupRoles_fuel (3 * length r + 1) r of Some res \<Rightarrow> res | None \<Rightarrow> (False, r))"

section \<open>What a role assignment is\<close>

definition single_role :: "u8 \<Rightarrow> bool" where
  "single_role a = (let b = a AND NOT ROLE_LEADER in b = ROLE_TANK \<or> b = ROLE_HEALER \<or> b = ROLE_DAMAGE)"

text \<open>\<open>b\<close> gives a player with the flags \<open>a\<close> one of its roles and keeps the leader flag.\<close>

definition narrows :: "u8 \<Rightarrow> u8 \<Rightarrow> bool" where
  "narrows a b = (single_role b \<and> b AND a = b \<and> b AND ROLE_LEADER = a AND ROLE_LEADER)"

definition role_count :: "u8 \<Rightarrow> 'k roles_map \<Rightarrow> nat" where
  "role_count f r = length (filter (\<lambda>e. snd e AND NOT ROLE_LEADER = f) r)"

definition fits :: "'k roles_map \<Rightarrow> bool" where
  "fits r = (role_count ROLE_TANK r \<le> 1 \<and> role_count ROLE_HEALER r \<le> 1 \<and> role_count ROLE_DAMAGE r \<le> 3)"

definition assignment :: "'k roles_map \<Rightarrow> 'k roles_map \<Rightarrow> bool" where
  "assignment r s = (list_all2 (\<lambda>e d. fst d = fst e \<and> narrows (snd e) (snd d)) r s \<and> fits s)"

definition role_ok :: "u8 \<Rightarrow> bool" where
  "role_ok a = (a AND ROLE_ANY = a)"

definition flags :: "u8 \<Rightarrow> nat" where
  "flags a = of_bool (bit a 1) + of_bool (bit a 2) + of_bool (bit a 3)"

definition flag_sum :: "'k roles_map \<Rightarrow> nat" where
  "flag_sum r = sum_list (map (flags \<circ> snd) r)"

section \<open>Flags of one player\<close>

text \<open>A role byte of the client has four bits, so facts about one or two of them are checked on all.\<close>

definition all_roles :: "u8 list" where
  "all_roles = map of_nat [0..<16]"

lemma role_ok_mem: "role_ok a \<Longrightarrow> a \<in> set all_roles"
proof -
  assume "role_ok a"
  then have "a = a AND 15" by (simp add: role_ok_def role_defs ROLE_ANY_def)
  then have "a \<le> 15" by (metis word_and_le1)
  then have "unat a < 16" by (simp add: word_le_nat_alt)
  then have "of_nat (unat a) \<in> set (map of_nat [0..<16] :: u8 list)" unfolding set_map by (intro imageI) simp
  then show ?thesis by (simp add: all_roles_def)
qed

lemma flag_table:
  "list_all (\<lambda>a. list_all (\<lambda>f. (a AND NOT ROLE_LEADER) AND f \<noteq> 0 \<and> a AND NOT ROLE_LEADER \<noteq> f \<longrightarrow>
       role_ok (a - f) \<and> flags (a - f) < flags a \<and> a - f + f = a
       \<and> list_all (\<lambda>b. narrows (a - f) b \<longrightarrow> narrows a b) all_roles)
     [ROLE_TANK, ROLE_HEALER, ROLE_DAMAGE]) all_roles"
  by code_simp

lemma narrow_table:
  "list_all (\<lambda>a. list_all (\<lambda>b. narrows a b \<longrightarrow> a AND NOT ROLE_LEADER \<noteq> 0 \<and> (single_role a \<longrightarrow> b = a)
       \<and> (\<not> single_role a \<longrightarrow> list_ex (\<lambda>f. (a AND NOT ROLE_LEADER) AND f \<noteq> 0
            \<and> a AND NOT ROLE_LEADER \<noteq> f \<and> narrows (a - f) b) [ROLE_TANK, ROLE_HEALER, ROLE_DAMAGE]))
     all_roles \<and> flags a \<le> 3 \<and> (single_role a \<longrightarrow> narrows a a)) all_roles"
  by code_simp

lemma narrows_ok: "\<lbrakk>role_ok a; narrows a b\<rbrakk> \<Longrightarrow> role_ok b"
  unfolding role_ok_def narrows_def by (metis and.assoc and.commute)

lemma flag_facts:
  assumes "role_ok a" "f \<in> {ROLE_TANK, ROLE_HEALER, ROLE_DAMAGE}" "(a AND NOT ROLE_LEADER) AND f \<noteq> 0"
    "a AND NOT ROLE_LEADER \<noteq> f"
  shows "role_ok (a - f)" "flags (a - f) < flags a" "a - f + f = a"
    "narrows (a - f) b \<Longrightarrow> narrows a b"
proof -
  note t = flag_table[unfolded list_all_iff, rule_format, OF role_ok_mem[OF assms(1)], of f]
  have f: "f \<in> set [ROLE_TANK, ROLE_HEALER, ROLE_DAMAGE]" using assms(2) by auto
  have c: "(a AND NOT ROLE_LEADER) AND f \<noteq> 0 \<and> a AND NOT ROLE_LEADER \<noteq> f" using assms(3,4) by blast
  show ok: "role_ok (a - f)" and "flags (a - f) < flags a" and "a - f + f = a" using t[OF f c] by blast+
  show "narrows (a - f) b \<Longrightarrow> narrows a b"
    using t[OF f c] role_ok_mem[OF narrows_ok[OF ok]] by blast
qed

lemma narrow_facts:
  assumes "role_ok a"
  shows "flags a \<le> 3" "single_role a \<Longrightarrow> narrows a a" "narrows a b \<Longrightarrow> a AND NOT ROLE_LEADER \<noteq> 0"
    "\<lbrakk>narrows a b; single_role a\<rbrakk> \<Longrightarrow> b = a"
    "\<lbrakk>narrows a b; \<not> single_role a\<rbrakk> \<Longrightarrow> \<exists>f \<in> {ROLE_TANK, ROLE_HEALER, ROLE_DAMAGE}.
       (a AND NOT ROLE_LEADER) AND f \<noteq> 0 \<and> a AND NOT ROLE_LEADER \<noteq> f \<and> narrows (a - f) b"
proof -
  note t = narrow_table[unfolded list_all_iff, rule_format, OF role_ok_mem[OF assms(1)]]
  show "flags a \<le> 3" "single_role a \<Longrightarrow> narrows a a" using t by blast+
  note n = conjunct1[OF t, rule_format, OF role_ok_mem[OF narrows_ok[OF assms]]]
  show "narrows a b \<Longrightarrow> a AND NOT ROLE_LEADER \<noteq> 0" using n[of b] by blast
  show "\<lbrakk>narrows a b; single_role a\<rbrakk> \<Longrightarrow> b = a" using n[of b] by blast
  assume "narrows a b" "\<not> single_role a"
  then have "list_ex (\<lambda>f. (a AND NOT ROLE_LEADER) AND f \<noteq> 0
            \<and> a AND NOT ROLE_LEADER \<noteq> f \<and> narrows (a - f) b) [ROLE_TANK, ROLE_HEALER, ROLE_DAMAGE]"
    using n[of b] by blast
  then show "\<exists>f \<in> {ROLE_TANK, ROLE_HEALER, ROLE_DAMAGE}.
       (a AND NOT ROLE_LEADER) AND f \<noteq> 0 \<and> a AND NOT ROLE_LEADER \<noteq> f \<and> narrows (a - f) b"
    by auto
qed

section \<open>Assignments of a map\<close>

definition roles_ok :: "'k roles_map \<Rightarrow> bool" where
  "roles_ok r = (\<forall>e \<in> set r. role_ok (snd e))"

abbreviation each_narrows :: "'k roles_map \<Rightarrow> 'k roles_map \<Rightarrow> bool" where
  "each_narrows \<equiv> list_all2 (\<lambda>e d. fst d = fst e \<and> narrows (snd e) (snd d))"

abbreviation infeasible :: "'k roles_map \<Rightarrow> bool" where
  "infeasible r \<equiv> \<nexists>s. assignment r s"

lemma role_count_Cons: "role_count f (e # r) = of_bool (snd e AND NOT ROLE_LEADER = f) + role_count f r"
  by (simp add: role_count_def)

lemma role_count_mono:
  assumes "each_narrows r s" "roles_ok r" "f \<in> {ROLE_TANK, ROLE_HEALER, ROLE_DAMAGE}"
  shows "role_count f r \<le> role_count f s"
  using assms(1,2)
proof (induction r s rule: list_all2_induct)
  case (Cons e r d s)
  have "snd e AND NOT ROLE_LEADER = f \<Longrightarrow> single_role (snd e)" using assms(3) by (auto simp: single_role_def Let_def)
  then have "snd e AND NOT ROLE_LEADER = f \<Longrightarrow> snd d = snd e"
    using Cons narrow_facts(4)[of "snd e" "snd d"] by (simp add: roles_ok_def)
  then show ?case using Cons by (auto simp: role_count_Cons roles_ok_def)
qed simp

lemma role_count_take:
  "i < length r \<Longrightarrow> role_count f (take (Suc i) r) = role_count f (take i r) + of_bool (snd (r ! i) AND NOT ROLE_LEADER = f)"
  by (simp add: role_count_def take_Suc_conv_app_nth)

lemma role_count_take_le: "role_count f (take i r) \<le> role_count f r"
proof -
  have "role_count f r = role_count f (take i r) + role_count f (drop i r)"
    by (metis append_take_drop_id filter_append length_append role_count_def)
  then show ?thesis by simp
qed

lemma sub_role_narrow:
  assumes r: "roles_ok r" "i < length r" and f: "f \<in> {ROLE_TANK, ROLE_HEALER, ROLE_DAMAGE}"
    "(snd (r ! i) AND NOT ROLE_LEADER) AND f \<noteq> 0" "snd (r ! i) AND NOT ROLE_LEADER \<noteq> f"
  shows "roles_ok (sub_role i f r)" "flag_sum (sub_role i f r) < flag_sum r"
    "add_role i f (sub_role i f r) = r" "assignment (sub_role i f r) s \<Longrightarrow> assignment r s"
    "length (sub_role i f r) = length r"
proof -
  have ok: "role_ok (snd (r ! i))" using r by (simp add: roles_ok_def)
  note ff = flag_facts[OF ok f]
  show "roles_ok (sub_role i f r)"
    using r(1) ff(1) set_update_subset_insert[of r i] by (fastforce simp: roles_ok_def sub_role_def)
  have "flag_sum (sub_role i f r) + flags (snd (r ! i)) = flag_sum r + flags (snd (r ! i) - f)"
    using r(2) by (simp add: flag_sum_def sub_role_def map_update sum_list_update)
      (use member_le_sum_list[of "flags (snd (r ! i))" "map (flags \<circ> snd) r"] in force)
  then show "flag_sum (sub_role i f r) < flag_sum r" using ff(2) by simp
  show "add_role i f (sub_role i f r) = r" using r(2) ff(3) by (simp add: add_role_def sub_role_def)
  show "assignment (sub_role i f r) s \<Longrightarrow> assignment r s"
  proof -
    assume a: "assignment (sub_role i f r) s"
    then have l: "length s = length r" by (auto simp: assignment_def sub_role_def dest: list_all2_lengthD)
    have "each_narrows r s"
    proof (rule list_all2_all_nthI)
      fix j assume j: "j < length r"
      then have "fst (s ! j) = fst (sub_role i f r ! j) \<and> narrows (snd (sub_role i f r ! j)) (snd (s ! j))"
        using a by (auto simp: assignment_def sub_role_def dest: list_all2_nthD)
      then show "fst (s ! j) = fst (r ! j) \<and> narrows (snd (r ! j)) (snd (s ! j))"
        using ff(4) j r(2) by (cases "j = i") (auto simp: sub_role_def)
    qed (simp add: l)
    then show ?thesis using a by (simp add: assignment_def)
  qed
  show "length (sub_role i f r) = length r" by (simp add: sub_role_def)
qed

text \<open>An assignment of a map survives taking away some flag of a player with more than one.\<close>

lemma assignment_sub:
  assumes r: "roles_ok r" "i < length r" "\<not> single_role (snd (r ! i))" and a: "assignment r s"
  shows "\<exists>f \<in> {ROLE_TANK, ROLE_HEALER, ROLE_DAMAGE}. (snd (r ! i) AND NOT ROLE_LEADER) AND f \<noteq> 0
    \<and> snd (r ! i) AND NOT ROLE_LEADER \<noteq> f \<and> assignment (sub_role i f r) s"
proof -
  have ok: "role_ok (snd (r ! i))" using r by (simp add: roles_ok_def)
  have l: "length s = length r" using a by (auto simp: assignment_def dest: list_all2_lengthD)
  have n: "fst (s ! j) = fst (r ! j) \<and> narrows (snd (r ! j)) (snd (s ! j))" if "j < length r" for j
    using a that by (auto simp: assignment_def dest: list_all2_nthD)
  obtain f where f: "f \<in> {ROLE_TANK, ROLE_HEALER, ROLE_DAMAGE}" "(snd (r ! i) AND NOT ROLE_LEADER) AND f \<noteq> 0"
    "snd (r ! i) AND NOT ROLE_LEADER \<noteq> f" "narrows (snd (r ! i) - f) (snd (s ! i))"
    using narrow_facts(5)[OF ok conjunct2[OF n[OF r(2)]] r(3)] by blast
  have "each_narrows (sub_role i f r) s"
  proof (rule list_all2_all_nthI)
    fix j assume "j < length (sub_role i f r)"
    then show "fst (s ! j) = fst (sub_role i f r ! j) \<and> narrows (snd (sub_role i f r ! j)) (snd (s ! j))"
      using n[of j] f(4) r(2) by (cases "j = i") (auto simp: sub_role_def)
  qed (simp add: l sub_role_def)
  then show ?thesis using a f by (auto simp: assignment_def)
qed

section \<open>The recursion finds an assignment\<close>

text \<open>What a call that returns promises: an assignment, or the map as it was and that none exists.\<close>

definition cgr_spec :: "'k roles_map \<Rightarrow> bool \<times> 'k roles_map \<Rightarrow> bool" where
  "cgr_spec r res = (if fst res then assignment r (snd res) else snd res = r \<and> infeasible r)"

abbreviation rec_ok :: "('k roles_map \<Rightarrow> (bool \<times> 'k roles_map) option) \<Rightarrow> 'k roles_map \<Rightarrow> bool" where
  "rec_ok rec r \<equiv> (\<forall>r'. roles_ok r' \<and> length r' = length r \<and> flag_sum r' < flag_sum r
     \<longrightarrow> (\<exists>res. rec r' = Some res \<and> cgr_spec r' res))"

lemma block_spec:
  assumes rec: "rec_ok rec r" and r: "roles_ok r" "i < length r"
    and f: "f \<in> {ROLE_TANK, ROLE_HEALER, ROLE_DAMAGE}"
    and n: "\<And>s. assignment r s \<Longrightarrow> role_count f s \<le> unat needed" "needed \<le> 3"
    and c: "unat c = role_count f (take i r)" "c \<le> needed"
    and role: "role = snd (r ! i) AND NOT ROLE_LEADER"
  shows "(\<exists>res. cgr_block rec f needed i role c r = Some (Inl res) \<and> cgr_spec r res)
    \<or> (\<exists>c'. cgr_block rec f needed i role c r = Some (Inr (c', r)) \<and> c' \<le> needed
          \<and> unat c' = role_count f (take (Suc i) r)
          \<and> (role AND f \<noteq> 0 \<and> role \<noteq> f \<longrightarrow> infeasible (sub_role i f r)))"
proof -
  have cnt: "role_count f (take (Suc i) r) = role_count f (take i r) + of_bool (role = f)"
    using role_count_take[OF r(2)] role by simp
  have f0: "f \<noteq> 0" using f by (auto simp: role_defs)
  consider "role AND f = 0" | "role AND f \<noteq> 0" "role \<noteq> f" | "role = f" by blast
  then show ?thesis
  proof cases
    case 1
    then have "role \<noteq> f" using f0 by auto
    then show ?thesis using 1 c cnt by (simp add: cgr_block_def)
  next
    case 2
    note sr = sub_role_narrow[OF r f 2[unfolded role]]
    obtain b s where s: "rec (sub_role i f r) = Some (b, s)" "cgr_spec (sub_role i f r) (b, s)"
    proof -
      have "\<exists>res. rec (sub_role i f r) = Some res \<and> cgr_spec (sub_role i f r) res"
        using rec[rule_format, of "sub_role i f r"] sr(1,2,5) by blast
      then show ?thesis using that by (metis surj_pair)
    qed
    show ?thesis
    proof (cases b)
      case True
      then show ?thesis using 2 s sr(4) by (simp add: cgr_block_def cgr_spec_def)
    next
      case False
      then show ?thesis using 2 s sr(3) c cnt by (simp add: cgr_block_def cgr_spec_def)
    qed
  next
    case 3
    then have ff: "role AND f \<noteq> 0" using f0 by simp
    show ?thesis
    proof (cases "c = needed")
      case True
      have "infeasible r"
      proof
        assume "\<exists>s. assignment r s"
        then obtain s where s: "assignment r s" ..
        have "role_count f (take (Suc i) r) \<le> role_count f s"
          using order_trans[OF role_count_take_le role_count_mono[OF _ r(1) f]] s by (simp add: assignment_def)
        then show False using n(1)[OF s] c cnt 3 True by simp
      qed
      then show ?thesis using 3 ff True by (simp add: cgr_block_def cgr_spec_def)
    next
      case False
      then have "c < needed" using c(2) by simp
      then have "unat (c + 1) = unat c + 1" "c + 1 \<le> needed"
        using n(2) by (simp_all add: word_le_nat_alt word_less_nat_alt unat_word_ariths)
      then show ?thesis using 3 ff False c cnt by (simp add: cgr_block_def)
    qed
  qed
qed

lemma role_counts_total:
  assumes "\<forall>e \<in> set r. snd e AND NOT ROLE_LEADER \<noteq> 0"
  shows "role_count ROLE_TANK r + role_count ROLE_HEALER r + role_count ROLE_DAMAGE r \<le> length r"
    and "(role_count ROLE_TANK r + role_count ROLE_HEALER r + role_count ROLE_DAMAGE r = length r)
       = (\<forall>e \<in> set r. single_role (snd e))"
proof -
  have "role_count ROLE_TANK r + role_count ROLE_HEALER r + role_count ROLE_DAMAGE r
      = length (filter (\<lambda>e. single_role (snd e)) r)"
    by (induction r) (auto simp: role_count_def single_role_def Let_def role_defs)
  moreover have "(length (filter (\<lambda>e. single_role (snd e)) r) = length r) = (\<forall>e \<in> set r. single_role (snd e))"
    by (metis filter_id_conv length_filter_less nat_neq_iff)
  ultimately show "role_count ROLE_TANK r + role_count ROLE_HEALER r + role_count ROLE_DAMAGE r \<le> length r"
    and "(role_count ROLE_TANK r + role_count ROLE_HEALER r + role_count ROLE_DAMAGE r = length r)
       = (\<forall>e \<in> set r. single_role (snd e))"
    by simp_all
qed

lemma assignment_refl:
  assumes "roles_ok r" "\<forall>e \<in> set r. single_role (snd e)" "fits r"
  shows "assignment r r"
  using assms narrow_facts(2) by (auto simp: assignment_def roles_ok_def list.rel_refl_strong)

lemma loop_spec:
  assumes rec: "rec_ok rec r" and r: "roles_ok r" "length r < 256"
  shows "\<lbrakk>i \<le> length r; unat d = role_count ROLE_DAMAGE (take i r); unat t = role_count ROLE_TANK (take i r);
      unat h = role_count ROLE_HEALER (take i r); d \<le> 3; t \<le> 1; h \<le> 1;
      \<forall>e \<in> set (take i r). snd e AND NOT ROLE_LEADER \<noteq> 0;
      \<forall>e \<in> set (take i r). \<not> single_role (snd e) \<longrightarrow> infeasible r\<rbrakk> \<Longrightarrow>
    \<exists>res. cgr_loop rec [i..<length r] d t h r = Some res \<and> cgr_spec r res"
proof (induction "length r - i" arbitrary: i d t h)
  case 0
  then have i: "i = length r" by simp
  have u: "unat (of_nat (length r) :: u8) = length r" using r(2) by (simp add: unat_of_nat)
  note tot = role_counts_total(2)[of r]
  show ?case
  proof (cases "\<forall>e \<in> set r. single_role (snd e)")
    case True
    have "fits r" using 0 i by (simp add: fits_def word_le_nat_alt)
    then show ?thesis using assignment_refl[OF r(1) True] True tot 0 i u by (simp add: cgr_spec_def)
  next
    case False
    then show ?thesis using tot 0 i u by (auto simp: cgr_spec_def)
  qed
next
  case (Suc k)
  then have i: "i < length r" by simp
  let ?role = "snd (r ! i) AND NOT ROLE_LEADER"
  have up: "[i..<length r] = i # [Suc i..<length r]" using i by (simp add: upt_conv_Cons)
  have ok: "role_ok (snd (r ! i))" using r i by (simp add: roles_ok_def)
  show ?case
  proof (cases "?role = 0")
    case True
    have "infeasible r"
    proof
      assume "\<exists>s. assignment r s"
      then obtain s where "each_narrows r s" by (auto simp: assignment_def)
      then have "narrows (snd (r ! i)) (snd (s ! i))" using i by (auto dest: list_all2_nthD)
      then show False using narrow_facts(3)[OF ok] True by blast
    qed
    then show ?thesis using True up by (simp add: cgr_spec_def ROLE_NONE_def)
  next
    case nz: False
    have nd: "assignment r s \<Longrightarrow> role_count ROLE_DAMAGE s \<le> unat LFG_DPS_NEEDED"
      "assignment r s \<Longrightarrow> role_count ROLE_HEALER s \<le> unat LFG_HEALERS_NEEDED"
      "assignment r s \<Longrightarrow> role_count ROLE_TANK s \<le> unat LFG_TANKS_NEEDED" for s
      by (simp_all add: assignment_def fits_def role_defs)
    have rng: "d \<le> LFG_DPS_NEEDED" "h \<le> LFG_HEALERS_NEEDED" "t \<le> LFG_TANKS_NEEDED"
      "LFG_DPS_NEEDED \<le> 3" "LFG_HEALERS_NEEDED \<le> 3" "LFG_TANKS_NEEDED \<le> 3"
      using Suc.prems by (simp_all add: role_defs)
    note bD = block_spec[OF rec r(1) i _ nd(1) rng(4) Suc.prems(2) rng(1) refl]
    note bH = block_spec[OF rec r(1) i _ nd(2) rng(5) Suc.prems(4) rng(2) refl]
    note bT = block_spec[OF rec r(1) i _ nd(3) rng(6) Suc.prems(3) rng(3) refl]
    have st: "cgr_loop rec [i..<length r] d t h r =
        (case cgr_block rec ROLE_DAMAGE LFG_DPS_NEEDED i ?role d r of
             None \<Rightarrow> None | Some (Inl res) \<Rightarrow> Some res
           | Some (Inr (damage', r1)) \<Rightarrow>
      (case cgr_block rec ROLE_HEALER LFG_HEALERS_NEEDED i ?role h r1 of
         None \<Rightarrow> None | Some (Inl res) \<Rightarrow> Some res
       | Some (Inr (healer', r2)) \<Rightarrow>
      (case cgr_block rec ROLE_TANK LFG_TANKS_NEEDED i ?role t r2 of
         None \<Rightarrow> None | Some (Inl res) \<Rightarrow> Some res
       | Some (Inr (tank', r3)) \<Rightarrow> cgr_loop rec [Suc i..<length r] damage' tank' healer' r3)))"
      using nz up by (simp add: ROLE_NONE_def Let_def)
    consider res where "cgr_block rec ROLE_DAMAGE LFG_DPS_NEEDED i ?role d r = Some (Inl res)" "cgr_spec r res"
      | d' where "cgr_block rec ROLE_DAMAGE LFG_DPS_NEEDED i ?role d r = Some (Inr (d', r))" "d' \<le> LFG_DPS_NEEDED"
          "unat d' = role_count ROLE_DAMAGE (take (Suc i) r)"
          "?role AND ROLE_DAMAGE \<noteq> 0 \<and> ?role \<noteq> ROLE_DAMAGE \<longrightarrow> infeasible (sub_role i ROLE_DAMAGE r)"
      using bD by blast
    then show ?thesis
    proof cases
      case 1
      then show ?thesis unfolding st by simp
    next
      case D: 2
      consider res where "cgr_block rec ROLE_HEALER LFG_HEALERS_NEEDED i ?role h r = Some (Inl res)" "cgr_spec r res"
        | h' where "cgr_block rec ROLE_HEALER LFG_HEALERS_NEEDED i ?role h r = Some (Inr (h', r))" "h' \<le> LFG_HEALERS_NEEDED"
            "unat h' = role_count ROLE_HEALER (take (Suc i) r)"
            "?role AND ROLE_HEALER \<noteq> 0 \<and> ?role \<noteq> ROLE_HEALER \<longrightarrow> infeasible (sub_role i ROLE_HEALER r)"
        using bH by blast
      then show ?thesis
      proof cases
        case 1
        then show ?thesis unfolding st D(1) by simp
      next
        case H: 2
        consider res where "cgr_block rec ROLE_TANK LFG_TANKS_NEEDED i ?role t r = Some (Inl res)" "cgr_spec r res"
          | t' where "cgr_block rec ROLE_TANK LFG_TANKS_NEEDED i ?role t r = Some (Inr (t', r))" "t' \<le> LFG_TANKS_NEEDED"
              "unat t' = role_count ROLE_TANK (take (Suc i) r)"
              "?role AND ROLE_TANK \<noteq> 0 \<and> ?role \<noteq> ROLE_TANK \<longrightarrow> infeasible (sub_role i ROLE_TANK r)"
          using bT by blast
        then show ?thesis
        proof cases
          case 1
          then show ?thesis unfolding st D(1) by (simp add: H(1))
        next
          case T: 2
          have inf: "\<not> single_role (snd (r ! i)) \<Longrightarrow> infeasible r"
            using assignment_sub[OF r(1) i] D(4) H(4) T(4) by blast
          have tk: "take (Suc i) r = take i r @ [r ! i]" using i by (simp add: take_Suc_conv_app_nth)
          have "\<exists>res. cgr_loop rec [Suc i..<length r] d' t' h' r = Some res \<and> cgr_spec r res"
            using Suc D H T nz inf tk i by (intro Suc.hyps(1)) (auto simp: role_defs)
          then show ?thesis unfolding st D(1) by (simp add: H(1) T(1))
        qed
      qed
    qed
  qed
qed

lemma CheckGroupRoles_fuel_spec:
  "\<lbrakk>roles_ok (r :: 'k roles_map); length r < 256; r \<noteq> []; flag_sum r < n\<rbrakk> \<Longrightarrow>
     \<exists>res. CheckGroupRoles_fuel n r = Some res \<and> cgr_spec r res"
proof (induction n arbitrary: r)
  case (Suc n)
  have "rec_ok (CheckGroupRoles_fuel n) r"
  proof (intro allI impI)
    fix r' :: "'k roles_map" assume "roles_ok r' \<and> length r' = length r \<and> flag_sum r' < flag_sum r"
    moreover from this have "r' \<noteq> []" using Suc(4) by auto
    ultimately show "\<exists>res. CheckGroupRoles_fuel n r' = Some res \<and> cgr_spec r' res"
      using Suc(3,5) Suc.IH[of r'] by simp
  qed
  then have "\<exists>res. cgr_loop (CheckGroupRoles_fuel n) [0..<length r] 0 0 0 r = Some res \<and> cgr_spec r res"
    using Suc(2,3) by (intro loop_spec) (simp_all add: role_count_def)
  then show ?case using Suc(4) by simp
qed simp

lemma flag_sum_bound: "roles_ok r \<Longrightarrow> flag_sum r \<le> 3 * length r"
  by (induction r) (use narrow_facts(1) in \<open>fastforce simp: flag_sum_def roles_ok_def\<close>)+

lemma CheckGroupRoles_cases:
  assumes "roles_ok r" "length r < 256"
  shows "CheckGroupRoles_fuel (3 * length r + 1) r = Some (CheckGroupRoles r)"
    and "if r = [] then CheckGroupRoles r = (False, r) else cgr_spec r (CheckGroupRoles r)"
proof -
  have "CheckGroupRoles_fuel (3 * length r + 1) r = Some (CheckGroupRoles r)
    \<and> (if r = [] then CheckGroupRoles r = (False, r) else cgr_spec r (CheckGroupRoles r))"
  proof (cases "r = []")
    case False
    then obtain res where "CheckGroupRoles_fuel (3 * length r + 1) r = Some res" "cgr_spec r res"
      using CheckGroupRoles_fuel_spec[OF assms False, of "3 * length r + 1"] flag_sum_bound[OF assms(1)]
      by (auto simp: less_Suc_eq_le)
    then show ?thesis using False by (simp add: CheckGroupRoles_def)
  qed (simp add: CheckGroupRoles_def)
  then show "CheckGroupRoles_fuel (3 * length r + 1) r = Some (CheckGroupRoles r)"
    and "if r = [] then CheckGroupRoles r = (False, r) else cgr_spec r (CheckGroupRoles r)" by blast+
qed

lemma CheckGroupRoles_keys:
  assumes "roles_ok r" "length r < 256"
  shows "map fst (snd (CheckGroupRoles r)) = map fst r"
proof -
  have "map fst s = map fst r" if "each_narrows r s" for s
    using that by (induction rule: list_all2_induct) auto
  then show ?thesis
    using CheckGroupRoles_cases(2)[OF assms] by (auto simp: cgr_spec_def assignment_def split: if_splits)
qed

section \<open>Properties\<close>

text \<open>
  C1: For every role map of fewer than 256 players (bits of the four roles only) \<open>CheckGroupRoles\<close>
  terminates within the model's fuel. It answers true exactly if the players can be given one of their
  roles each with at most one tank, one healer and three damage dealers; then the map it leaves is such
  an assignment (leader flags kept), otherwise the map is unchanged. An empty map is answered false.
\<close>
theorem CheckGroupRoles_assigns:
  assumes "roles_ok r" "length r < 256"
  shows "CheckGroupRoles_fuel (3 * length r + 1) r = Some (CheckGroupRoles r)
     \<and> (fst (CheckGroupRoles r) = (r \<noteq> [] \<and> (\<exists>s. assignment r s)))
     \<and> (if fst (CheckGroupRoles r) then assignment r (snd (CheckGroupRoles r)) else snd (CheckGroupRoles r) = r)"
  using CheckGroupRoles_cases[OF assms] by (auto simp: cgr_spec_def split: if_splits)

lemma CheckGroupRoles_assigns_witness:
  "fst (CheckGroupRoles [(1 :: nat, 0x0F), (2, 0x0E), (3, 0x08), (4, 0x08), (5, 0x08)])
   \<and> \<not> fst (CheckGroupRoles [(1 :: nat, 0x03), (2, 0x02)])"
proof -
  have a: "roles_ok [(1 :: nat, 0x0F), (2, 0x0E), (3, 0x08), (4, 0x08), (5, 0x08)]" "roles_ok [(1 :: nat, 0x03), (2, 0x02)]"
    by (simp_all add: roles_ok_def role_ok_def ROLE_ANY_def role_defs)
  have "assignment [(1 :: nat, 0x0F), (2, 0x0E), (3, 0x08), (4, 0x08), (5, 0x08)]
      [(1, 0x03), (2, 0x04), (3, 0x08), (4, 0x08), (5, 0x08)]"
    by (simp add: assignment_def narrows_def single_role_def fits_def role_count_def role_defs)
  moreover have "\<not> assignment [(1 :: nat, 0x03), (2, 0x02)] s" for s
  proof
    assume "assignment [(1 :: nat, 0x03), (2, 0x02)] s"
    then have "each_narrows [(1 :: nat, 0x03), (2, 0x02)] s" "fits s" by (simp_all add: assignment_def)
    then show False
      using role_count_mono[OF _ a(2), of s ROLE_TANK] by (simp add: fits_def role_count_def role_defs)
  qed
  ultimately show ?thesis
    using CheckGroupRoles_assigns[OF a(1)] CheckGroupRoles_assigns[OF a(2)] by auto
qed

end
