(* ===== verification/LfgData.thy ===== *)
theory LfgData
  imports LfgRoles
begin

text \<open>
  What the dungeon finder keeps of groups and players: \<open>LFGGroupData\<close>, \<open>LFGPlayerData\<close>, the proposal,
  role check and vote records of \<open>LFGMgr.h\<close>, and the accessors of \<open>LFGMgr.cpp\<close> (all under
  \<open>src/src/server/game/DungeonFinding\<close>). \<open>operator[]\<close> of the two stores creates a default entry for a
  key without one; as an absent entry and a default one are never told apart by the functions modelled
  here, a store is a total function whose value is the default where nothing was stored. What is sent
  to a connected player is an output.
\<close>

datatype lfg_state = LFG_STATE_NONE | LFG_STATE_ROLECHECK | LFG_STATE_QUEUED | LFG_STATE_PROPOSAL
  | LFG_STATE_DUNGEON | LFG_STATE_FINISHED_DUNGEON | LFG_STATE_RAIDBROWSER

datatype lfg_answer = LFG_ANSWER_PENDING | LFG_ANSWER_DENY | LFG_ANSWER_AGREE

datatype lfg_update_type = LFG_UPDATETYPE_DEFAULT
  | LFG_UPDATETYPE_LEADER_UNK1 | LFG_UPDATETYPE_ROLECHECK_ABORTED | LFG_UPDATETYPE_JOIN_QUEUE
  | LFG_UPDATETYPE_ROLECHECK_FAILED | LFG_UPDATETYPE_REMOVED_FROM_QUEUE | LFG_UPDATETYPE_PROPOSAL_FAILED
  | LFG_UPDATETYPE_PROPOSAL_DECLINED | LFG_UPDATETYPE_GROUP_FOUND | LFG_UPDATETYPE_ADDED_TO_QUEUE
  | LFG_UPDATETYPE_SUSPENDED_QUEUE | LFG_UPDATETYPE_PROPOSAL_BEGIN | LFG_UPDATETYPE_UPDATE_STATUS
  | LFG_UPDATETYPE_GROUP_MEMBER_OFFLINE | LFG_UPDATETYPE_GROUP_DISBAND_UNK16 | LFG_UPDATETYPE_JOIN_QUEUE_INITIAL
  | LFG_UPDATETYPE_DUNGEON_FINISHED | LFG_UPDATETYPE_PARTY_ROLE_NOT_AVAILABLE | LFG_UPDATETYPE_JOIN_LFG_OBJECT_FAILED
  | LFG_UPDATETYPE_REMOVED_LEVELUP | LFG_UPDATETYPE_REMOVED_XP_TOGGLE | LFG_UPDATETYPE_REMOVED_FACTION_CHANGE

datatype lfg_rolecheck_state = LFG_ROLECHECK_DEFAULT | LFG_ROLECHECK_FINISHED | LFG_ROLECHECK_INITIALITING
  | LFG_ROLECHECK_MISSING_ROLE | LFG_ROLECHECK_WRONG_ROLES | LFG_ROLECHECK_ABORTED | LFG_ROLECHECK_NO_ROLE

datatype lfg_proposal_state = LFG_PROPOSAL_INITIATING | LFG_PROPOSAL_FAILED | LFG_PROPOSAL_SUCCESS

section \<open>Group data\<close>

record lfg_group_data =
  gd_State :: lfg_state
  gd_OldState :: lfg_state
  gd_Leader :: ObjectGuid
  gd_Players :: "ObjectGuid set"
  gd_Dungeon :: u32
  gd_KicksLeft :: u8
  gd_VoteKickActive :: bool

definition LFG_GROUP_MAX_KICKS :: u8 where "LFG_GROUP_MAX_KICKS = 3"

definition LfgGroupData_new :: lfg_group_data where
  "LfgGroupData_new = \<lparr>gd_State = LFG_STATE_NONE, gd_OldState = LFG_STATE_NONE, gd_Leader = og_Empty,
     gd_Players = {}, gd_Dungeon = 0, gd_KicksLeft = LFG_GROUP_MAX_KICKS, gd_VoteKickActive = False\<rparr>"

definition gd_IsLfgGroup :: "lfg_group_data \<Rightarrow> bool" where
  "gd_IsLfgGroup d = (gd_OldState d \<noteq> LFG_STATE_NONE)"

definition gd_SetState :: "lfg_state \<Rightarrow> lfg_group_data \<Rightarrow> lfg_group_data" where
  "gd_SetState s d =
     (case s of
        LFG_STATE_NONE \<Rightarrow> d\<lparr>gd_Dungeon := 0, gd_KicksLeft := LFG_GROUP_MAX_KICKS,
          gd_OldState := LFG_STATE_NONE, gd_State := LFG_STATE_NONE\<rparr>
      | LFG_STATE_FINISHED_DUNGEON \<Rightarrow> d\<lparr>gd_OldState := s, gd_State := s\<rparr>
      | LFG_STATE_DUNGEON \<Rightarrow> d\<lparr>gd_OldState := s, gd_State := s\<rparr>
      | _ \<Rightarrow> d\<lparr>gd_State := s\<rparr>)"

definition gd_RestoreState :: "lfg_group_data \<Rightarrow> lfg_group_data" where
  "gd_RestoreState d = d\<lparr>gd_State := gd_OldState d\<rparr>"

definition gd_AddPlayer :: "ObjectGuid \<Rightarrow> lfg_group_data \<Rightarrow> lfg_group_data" where
  "gd_AddPlayer g d = d\<lparr>gd_Players := insert g (gd_Players d)\<rparr>"

definition gd_RemovePlayer :: "ObjectGuid \<Rightarrow> lfg_group_data \<Rightarrow> u8 \<times> lfg_group_data" where
  "gd_RemovePlayer g d = (let ps = gd_Players d - {g} in (of_nat (card ps), d\<lparr>gd_Players := ps\<rparr>))"

definition gd_RemoveAllPlayers :: "lfg_group_data \<Rightarrow> lfg_group_data" where
  "gd_RemoveAllPlayers d = d\<lparr>gd_Players := {}\<rparr>"

definition gd_SetLeader :: "ObjectGuid \<Rightarrow> lfg_group_data \<Rightarrow> lfg_group_data" where
  "gd_SetLeader g d = d\<lparr>gd_Leader := g\<rparr>"

definition gd_SetDungeon :: "u32 \<Rightarrow> lfg_group_data \<Rightarrow> lfg_group_data" where
  "gd_SetDungeon n d = d\<lparr>gd_Dungeon := n\<rparr>"

definition gd_DecreaseKicksLeft :: "lfg_group_data \<Rightarrow> lfg_group_data" where
  "gd_DecreaseKicksLeft d = (if gd_KicksLeft d \<noteq> 0 then d\<lparr>gd_KicksLeft := gd_KicksLeft d - 1\<rparr> else d)"

definition gd_GetPlayerCount :: "lfg_group_data \<Rightarrow> u8" where
  "gd_GetPlayerCount d = of_nat (card (gd_Players d))"

definition gd_GetDungeon :: "bool \<Rightarrow> lfg_group_data \<Rightarrow> u32" where
  "gd_GetDungeon asId d = (if asId then gd_Dungeon d AND 0x00FFFFFF else gd_Dungeon d)"

definition gd_SetVoteKick :: "bool \<Rightarrow> lfg_group_data \<Rightarrow> lfg_group_data" where
  "gd_SetVoteKick b d = d\<lparr>gd_VoteKickActive := b\<rparr>"

section \<open>Player data\<close>

record ride_ticket =
  rt_RequesterGuid :: ObjectGuid
  rt_Id :: u32
  rt_Type :: nat
  rt_Time :: int
  rt_Unknown925 :: bool

definition RideTicket_new :: ride_ticket where
  "RideTicket_new = \<lparr>rt_RequesterGuid = og_Empty, rt_Id = 0, rt_Type = 0, rt_Time = 0, rt_Unknown925 = False\<rparr>"

record lfg_player_data =
  pd_State :: lfg_state
  pd_OldState :: lfg_state
  pd_Ticket :: ride_ticket
  pd_Team :: u8
  pd_Group :: ObjectGuid
  pd_Roles :: u8
  pd_SelectedDungeons :: "u32 set"
  pd_NumberOfPartyMembersAtJoin :: u8

definition LfgPlayerData_new :: lfg_player_data where
  "LfgPlayerData_new = \<lparr>pd_State = LFG_STATE_NONE, pd_OldState = LFG_STATE_NONE, pd_Ticket = RideTicket_new,
     pd_Team = 0, pd_Group = og_Empty, pd_Roles = 0, pd_SelectedDungeons = {}, pd_NumberOfPartyMembersAtJoin = 0\<rparr>"

definition pd_SetTicket :: "ride_ticket \<Rightarrow> lfg_player_data \<Rightarrow> lfg_player_data" where
  "pd_SetTicket t d = d\<lparr>pd_Ticket := t\<rparr>"

definition pd_SetState :: "lfg_state \<Rightarrow> lfg_player_data \<Rightarrow> lfg_player_data" where
  "pd_SetState s d =
     (case s of
        LFG_STATE_NONE \<Rightarrow> d\<lparr>pd_Roles := 0, pd_SelectedDungeons := {}, pd_Ticket := RideTicket_new,
          pd_OldState := LFG_STATE_NONE, pd_State := LFG_STATE_NONE\<rparr>
      | LFG_STATE_FINISHED_DUNGEON \<Rightarrow> d\<lparr>pd_Roles := 0, pd_SelectedDungeons := {},
          pd_OldState := s, pd_State := s\<rparr>
      | LFG_STATE_DUNGEON \<Rightarrow> d\<lparr>pd_OldState := s, pd_State := s\<rparr>
      | _ \<Rightarrow> d\<lparr>pd_State := s\<rparr>)"

definition pd_RestoreState :: "lfg_player_data \<Rightarrow> lfg_player_data" where
  "pd_RestoreState d =
     (let d1 = (if pd_OldState d = LFG_STATE_NONE
                then d\<lparr>pd_SelectedDungeons := {}, pd_Roles := 0, pd_Ticket := RideTicket_new\<rparr> else d)
      in d1\<lparr>pd_State := pd_OldState d1\<rparr>)"

definition pd_SetTeam :: "u8 \<Rightarrow> lfg_player_data \<Rightarrow> lfg_player_data" where
  "pd_SetTeam t d = d\<lparr>pd_Team := t\<rparr>"

definition pd_SetGroup :: "ObjectGuid \<Rightarrow> lfg_player_data \<Rightarrow> lfg_player_data" where
  "pd_SetGroup g d = d\<lparr>pd_Group := g\<rparr>"

definition pd_SetRoles :: "u8 \<Rightarrow> lfg_player_data \<Rightarrow> lfg_player_data" where
  "pd_SetRoles r d = d\<lparr>pd_Roles := r\<rparr>"

definition pd_SetSelectedDungeons :: "u32 set \<Rightarrow> lfg_player_data \<Rightarrow> lfg_player_data" where
  "pd_SetSelectedDungeons ds d = d\<lparr>pd_SelectedDungeons := ds\<rparr>"

definition pd_SetNumberOfPartyMembersAtJoin :: "u8 \<Rightarrow> lfg_player_data \<Rightarrow> lfg_player_data" where
  "pd_SetNumberOfPartyMembersAtJoin n d = d\<lparr>pd_NumberOfPartyMembersAtJoin := n\<rparr>"

section \<open>Proposals, role checks and votes\<close>

record lfg_proposal_player =
  pp_role :: u8
  pp_accept :: lfg_answer
  pp_group :: ObjectGuid

record lfg_proposal =
  pr_id :: u32
  pr_dungeonId :: u32
  pr_state :: lfg_proposal_state
  pr_group :: ObjectGuid
  pr_leader :: ObjectGuid
  pr_cancelTime :: int
  pr_encounters :: u32
  pr_isNew :: bool
  pr_queues :: "ObjectGuid list"
  pr_showorder :: "ObjectGuid list"
  pr_players :: "(ObjectGuid \<times> lfg_proposal_player) list"

definition LfgProposal_new :: lfg_proposal where
  "LfgProposal_new = \<lparr>pr_id = 0, pr_dungeonId = 0, pr_state = LFG_PROPOSAL_INITIATING, pr_group = og_Empty,
     pr_leader = og_Empty, pr_cancelTime = 0, pr_encounters = 0, pr_isNew = True, pr_queues = [],
     pr_showorder = [], pr_players = []\<rparr>"

record lfg_role_check =
  rc_cancelTime :: int
  rc_roles :: "ObjectGuid roles_map"
  rc_state :: lfg_rolecheck_state
  rc_dungeons :: "u32 set"
  rc_rDungeonId :: u32
  rc_leader :: ObjectGuid

record lfg_player_boot =
  bt_cancelTime :: int
  bt_inProgress :: bool
  bt_votes :: "(ObjectGuid \<times> lfg_answer) list"
  bt_victim :: ObjectGuid
  bt_reason :: string

section \<open>The manager's stores\<close>

datatype lfg_msg =
    SendRoleChosen ObjectGuid ObjectGuid u8
  | SendRoleCheckUpdate ObjectGuid lfg_role_check
  | SendUpdateStatus ObjectGuid lfg_update_type "u32 set" bool
  | SendJoinResultRoleCheck ObjectGuid lfg_rolecheck_state
  | SendBootProposalUpdate ObjectGuid lfg_player_boot
  | SendUpdateProposal ObjectGuid lfg_proposal
  | SendQueueStatus ObjectGuid u8 u32 "u32 list" u32 "u8 list"
  | PlayDirectSound ObjectGuid
  | KickFromGroup ObjectGuid ObjectGuid
  | MakeNewGroup lfg_proposal

text \<open>What the finder asks the rest of the server: who is online, who ignores whom, the time, random draws.\<close>

record lfg_env =
  en_connected :: "ObjectGuid \<Rightarrow> bool"
  en_inWorld :: "ObjectGuid \<Rightarrow> bool"
  en_groupMembers :: "ObjectGuid \<Rightarrow> u8 option"
  en_groupExists :: "ObjectGuid \<Rightarrow> bool"
  en_isLFGGroup :: "ObjectGuid \<Rightarrow> bool"
  en_ignores :: "ObjectGuid \<Rightarrow> ObjectGuid \<Rightarrow> bool"
  en_twoSide :: bool
  en_now :: int
  en_pick :: "u32 \<Rightarrow> u32 set \<Rightarrow> u32"
  en_coin :: "u32 \<Rightarrow> nat \<Rightarrow> bool"

record lfg_core =
  lc_groups :: "ObjectGuid \<Rightarrow> lfg_group_data"
  lc_players :: "ObjectGuid \<Rightarrow> lfg_player_data"
  lc_proposalId :: u32
  lc_proposals :: "(u32 \<times> lfg_proposal) list"
  lc_out :: "lfg_msg list"

definition upd_group :: "ObjectGuid \<Rightarrow> (lfg_group_data \<Rightarrow> lfg_group_data) \<Rightarrow> lfg_core \<Rightarrow> lfg_core" where
  "upd_group g f c = c\<lparr>lc_groups := (lc_groups c)(g := f (lc_groups c g))\<rparr>"

definition upd_player :: "ObjectGuid \<Rightarrow> (lfg_player_data \<Rightarrow> lfg_player_data) \<Rightarrow> lfg_core \<Rightarrow> lfg_core" where
  "upd_player g f c = c\<lparr>lc_players := (lc_players c)(g := f (lc_players c g))\<rparr>"

definition send_to :: "lfg_env \<Rightarrow> ObjectGuid \<Rightarrow> lfg_msg \<Rightarrow> lfg_core \<Rightarrow> lfg_core" where
  "send_to e g m c = (if en_connected e g then c\<lparr>lc_out := lc_out c @ [m]\<rparr> else c)"

definition SendLfgRoleChosen :: "lfg_env \<Rightarrow> ObjectGuid \<Rightarrow> ObjectGuid \<Rightarrow> u8 \<Rightarrow> lfg_core \<Rightarrow> lfg_core" where
  "SendLfgRoleChosen e g p r = send_to e g (SendRoleChosen g p r)"

definition SendLfgRoleCheckUpdate :: "lfg_env \<Rightarrow> ObjectGuid \<Rightarrow> lfg_role_check \<Rightarrow> lfg_core \<Rightarrow> lfg_core" where
  "SendLfgRoleCheckUpdate e g rc = send_to e g (SendRoleCheckUpdate g rc)"

definition SendLfgUpdateStatus :: "lfg_env \<Rightarrow> ObjectGuid \<Rightarrow> lfg_update_type \<Rightarrow> u32 set \<Rightarrow> bool \<Rightarrow> lfg_core \<Rightarrow> lfg_core" where
  "SendLfgUpdateStatus e g t ds party = send_to e g (SendUpdateStatus g t ds party)"

definition SendLfgJoinResult :: "lfg_env \<Rightarrow> ObjectGuid \<Rightarrow> lfg_rolecheck_state \<Rightarrow> lfg_core \<Rightarrow> lfg_core" where
  "SendLfgJoinResult e g s = send_to e g (SendJoinResultRoleCheck g s)"

definition SendLfgBootProposalUpdate :: "lfg_env \<Rightarrow> ObjectGuid \<Rightarrow> lfg_player_boot \<Rightarrow> lfg_core \<Rightarrow> lfg_core" where
  "SendLfgBootProposalUpdate e g b = send_to e g (SendBootProposalUpdate g b)"

definition SendLfgUpdateProposal :: "lfg_env \<Rightarrow> ObjectGuid \<Rightarrow> lfg_proposal \<Rightarrow> lfg_core \<Rightarrow> lfg_core" where
  "SendLfgUpdateProposal e g p = send_to e g (SendUpdateProposal g p)"

section \<open>Accessors\<close>

definition lfg_GetState :: "lfg_core \<Rightarrow> ObjectGuid \<Rightarrow> lfg_state" where
  "lfg_GetState c g = (if IsParty g then gd_State (lc_groups c g) else pd_State (lc_players c g))"

definition lfg_GetOldState :: "lfg_core \<Rightarrow> ObjectGuid \<Rightarrow> lfg_state" where
  "lfg_GetOldState c g = (if IsParty g then gd_OldState (lc_groups c g) else pd_OldState (lc_players c g))"

definition lfg_SetState :: "ObjectGuid \<Rightarrow> lfg_state \<Rightarrow> lfg_core \<Rightarrow> lfg_core" where
  "lfg_SetState g s c = (if IsParty g then upd_group g (gd_SetState s) c else upd_player g (pd_SetState s) c)"

definition lfg_RestoreState :: "ObjectGuid \<Rightarrow> lfg_core \<Rightarrow> lfg_core" where
  "lfg_RestoreState g c = (if IsParty g then upd_group g gd_RestoreState c else upd_player g pd_RestoreState c)"

text \<open>The two vote accessors assert that the guid is a group's; \<open>None\<close> is the failed assertion.\<close>

definition lfg_IsVoteKickActive :: "lfg_core \<Rightarrow> ObjectGuid \<Rightarrow> bool option" where
  "lfg_IsVoteKickActive c g = (if IsParty g then Some (gd_VoteKickActive (lc_groups c g)) else None)"

definition lfg_SetVoteKick :: "ObjectGuid \<Rightarrow> bool \<Rightarrow> lfg_core \<Rightarrow> lfg_core option" where
  "lfg_SetVoteKick g b c = (if IsParty g then Some (upd_group g (gd_SetVoteKick b) c) else None)"

definition lfg_GetDungeon :: "lfg_core \<Rightarrow> ObjectGuid \<Rightarrow> bool \<Rightarrow> u32" where
  "lfg_GetDungeon c g asId = gd_GetDungeon asId (lc_groups c g)"

definition lfg_GetRoles :: "lfg_core \<Rightarrow> ObjectGuid \<Rightarrow> u8" where
  "lfg_GetRoles c g = pd_Roles (lc_players c g)"

definition lfg_GetSelectedDungeons :: "lfg_core \<Rightarrow> ObjectGuid \<Rightarrow> u32 set" where
  "lfg_GetSelectedDungeons c g = pd_SelectedDungeons (lc_players c g)"

definition lfg_GetKicksLeft :: "lfg_core \<Rightarrow> ObjectGuid \<Rightarrow> u8" where
  "lfg_GetKicksLeft c g = gd_KicksLeft (lc_groups c g)"

definition lfg_SetDungeon :: "ObjectGuid \<Rightarrow> u32 \<Rightarrow> lfg_core \<Rightarrow> lfg_core" where
  "lfg_SetDungeon g d = upd_group g (gd_SetDungeon d)"

definition lfg_SetRoles :: "ObjectGuid \<Rightarrow> u8 \<Rightarrow> lfg_core \<Rightarrow> lfg_core" where
  "lfg_SetRoles g r = upd_player g (pd_SetRoles r)"

definition lfg_SetSelectedDungeons :: "ObjectGuid \<Rightarrow> u32 set \<Rightarrow> lfg_core \<Rightarrow> lfg_core" where
  "lfg_SetSelectedDungeons g ds = upd_player g (pd_SetSelectedDungeons ds)"

definition lfg_DecreaseKicksLeft :: "ObjectGuid \<Rightarrow> lfg_core \<Rightarrow> lfg_core" where
  "lfg_DecreaseKicksLeft g = upd_group g gd_DecreaseKicksLeft"

definition lfg_SetTicket :: "ObjectGuid \<Rightarrow> ride_ticket \<Rightarrow> lfg_core \<Rightarrow> lfg_core" where
  "lfg_SetTicket g t = upd_player g (pd_SetTicket t)"

definition lfg_RemovePlayerData :: "ObjectGuid \<Rightarrow> lfg_core \<Rightarrow> lfg_core" where
  "lfg_RemovePlayerData g = upd_player g (\<lambda>_. LfgPlayerData_new)"

definition lfg_SetGroup :: "ObjectGuid \<Rightarrow> ObjectGuid \<Rightarrow> lfg_core \<Rightarrow> lfg_core" where
  "lfg_SetGroup g gg = upd_player g (pd_SetGroup gg)"

definition lfg_GetGroup :: "lfg_core \<Rightarrow> ObjectGuid \<Rightarrow> ObjectGuid" where
  "lfg_GetGroup c g = pd_Group (lc_players c g)"

definition lfg_GetPlayers :: "lfg_core \<Rightarrow> ObjectGuid \<Rightarrow> ObjectGuid set" where
  "lfg_GetPlayers c g = gd_Players (lc_groups c g)"

definition lfg_GetPlayerCount :: "lfg_core \<Rightarrow> ObjectGuid \<Rightarrow> u8" where
  "lfg_GetPlayerCount c g = gd_GetPlayerCount (lc_groups c g)"

definition lfg_GetLeader :: "lfg_core \<Rightarrow> ObjectGuid \<Rightarrow> ObjectGuid" where
  "lfg_GetLeader c g = gd_Leader (lc_groups c g)"

definition lfg_SetLeader :: "ObjectGuid \<Rightarrow> ObjectGuid \<Rightarrow> lfg_core \<Rightarrow> lfg_core" where
  "lfg_SetLeader g l = upd_group g (gd_SetLeader l)"

definition lfg_AddPlayerToGroup :: "ObjectGuid \<Rightarrow> ObjectGuid \<Rightarrow> lfg_core \<Rightarrow> lfg_core" where
  "lfg_AddPlayerToGroup g p = upd_group g (gd_AddPlayer p)"

definition lfg_RemovePlayerFromGroup :: "ObjectGuid \<Rightarrow> ObjectGuid \<Rightarrow> lfg_core \<Rightarrow> u8 \<times> lfg_core" where
  "lfg_RemovePlayerFromGroup g p c = (fst (gd_RemovePlayer p (lc_groups c g)), upd_group g (snd \<circ> gd_RemovePlayer p) c)"

definition lfg_SetTeam :: "lfg_env \<Rightarrow> ObjectGuid \<Rightarrow> u8 \<Rightarrow> lfg_core \<Rightarrow> lfg_core" where
  "lfg_SetTeam e g t = upd_player g (pd_SetTeam (if en_twoSide e then 0 else t))"

definition lfg_GetTeam :: "lfg_core \<Rightarrow> ObjectGuid \<Rightarrow> u8" where
  "lfg_GetTeam c g = pd_Team (lc_players c g)"

definition HasIgnore :: "lfg_env \<Rightarrow> ObjectGuid \<Rightarrow> ObjectGuid \<Rightarrow> bool" where
  "HasIgnore e a b = (en_connected e a \<and> en_connected e b \<and> (en_ignores e a b \<or> en_ignores e b a))"

definition IsLfgGroup :: "lfg_core \<Rightarrow> ObjectGuid \<Rightarrow> bool" where
  "IsLfgGroup c g = (\<not> og_IsEmpty g \<and> IsParty g \<and> gd_IsLfgGroup (lc_groups c g))"

definition GetQueueId :: "lfg_core \<Rightarrow> ObjectGuid \<Rightarrow> u8" where
  "GetQueueId c g =
     (if IsParty g then
        (let players = lfg_GetPlayers c g;
             pguid = (if players = {} then og_Empty else Min players)
         in if \<not> og_IsEmpty pguid then lfg_GetTeam c pguid else lfg_GetTeam c g)
      else lfg_GetTeam c g)"

definition AllQueued :: "lfg_core \<Rightarrow> ObjectGuid list \<Rightarrow> bool" where
  "AllQueued c check = (check \<noteq> [] \<and> list_all (\<lambda>g. lfg_GetState c g = LFG_STATE_QUEUED) check)"

definition AddProposal :: "lfg_proposal \<Rightarrow> lfg_core \<Rightarrow> lfg_core" where
  "AddProposal p c = (let i = lc_proposalId c + 1 in
     c\<lparr>lc_proposalId := i, lc_proposals := om_set i (p\<lparr>pr_id := i\<rparr>) (lc_proposals c)\<rparr>)"

text \<open>\<open>RemoveGroupData\<close> walks the members in the order of their guids.\<close>

definition remove_member :: "lfg_env \<Rightarrow> lfg_state \<Rightarrow> lfg_core \<Rightarrow> ObjectGuid \<Rightarrow> lfg_core" where
  "remove_member e state c p =
     (let c1 = lfg_SetGroup p og_Empty c in
      if state \<noteq> LFG_STATE_PROPOSAL then
        SendLfgUpdateStatus e p LFG_UPDATETYPE_REMOVED_FROM_QUEUE {} False (lfg_SetState p LFG_STATE_NONE c1)
      else c1)"

definition RemoveGroupData :: "lfg_env \<Rightarrow> ObjectGuid \<Rightarrow> lfg_core \<Rightarrow> lfg_core" where
  "RemoveGroupData e g c =
     (let state = lfg_GetState c g;
          c1 = foldl (remove_member e state) c (sorted_list_of_set (lfg_GetPlayers c g))
      in upd_group g (\<lambda>_. LfgGroupData_new) c1)"

section \<open>States over time\<close>

text \<open>The changes the code makes to a group's data.\<close>

datatype gd_op = GSet lfg_state | GRestore | GKick | GDungeon u32 | GVote bool | GAdd ObjectGuid | GRemove ObjectGuid | GLead ObjectGuid

fun gd_step :: "lfg_group_data \<Rightarrow> gd_op \<Rightarrow> lfg_group_data" where
  "gd_step d (GSet s) = gd_SetState s d"
| "gd_step d GRestore = gd_RestoreState d"
| "gd_step d GKick = gd_DecreaseKicksLeft d"
| "gd_step d (GDungeon n) = gd_SetDungeon n d"
| "gd_step d (GVote b) = gd_SetVoteKick b d"
| "gd_step d (GAdd g) = gd_AddPlayer g d"
| "gd_step d (GRemove g) = snd (gd_RemovePlayer g d)"
| "gd_step d (GLead g) = gd_SetLeader g d"

definition stable_state :: "lfg_state \<Rightarrow> bool" where
  "stable_state s = (s = LFG_STATE_NONE \<or> s = LFG_STATE_DUNGEON \<or> s = LFG_STATE_FINISHED_DUNGEON)"

definition gd_ok :: "lfg_group_data \<Rightarrow> bool" where
  "gd_ok d = (stable_state (gd_OldState d) \<and> gd_KicksLeft d \<le> LFG_GROUP_MAX_KICKS
     \<and> (stable_state (gd_State d) \<longrightarrow> gd_State d = gd_OldState d)
     \<and> (gd_IsLfgGroup d = (gd_OldState d \<noteq> LFG_STATE_NONE)))"

interpretation gd_machine: op_machine gd_step "\<lambda>_. True" gd_ok
proof
  fix d e assume "gd_ok d"
  then show "gd_ok (gd_step d e)"
  proof (cases e)
    case (GSet s)
    then show ?thesis using \<open>gd_ok d\<close>
      by (cases s) (auto simp: gd_ok_def gd_SetState_def stable_state_def gd_IsLfgGroup_def)
  next
    case GKick
    have "k - 1 \<le> 3" if "k \<le> 3" "k \<noteq> 0" for k :: u8
      using that by (simp add: word_le_nat_alt unat_minus_one)
    then show ?thesis using GKick \<open>gd_ok d\<close>
      by (auto simp: gd_ok_def gd_DecreaseKicksLeft_def stable_state_def gd_IsLfgGroup_def LFG_GROUP_MAX_KICKS_def)
  qed (auto simp: gd_ok_def gd_RestoreState_def gd_SetDungeon_def gd_SetVoteKick_def gd_AddPlayer_def
      gd_RemovePlayer_def Let_def gd_SetLeader_def gd_IsLfgGroup_def)
qed

text \<open>The last stable state the group was set to, \<open>NONE\<close> at first.\<close>

definition last_stable :: "gd_op list \<Rightarrow> lfg_state" where
  "last_stable ops = last (LFG_STATE_NONE # [s. GSet s \<leftarrow> ops, stable_state s])"

lemma gd_OldState_run: "gd_OldState (foldl gd_step LfgGroupData_new ops) = last_stable ops"
proof (induction ops rule: rev_induct)
  case Nil
  show ?case by (simp add: last_stable_def LfgGroupData_new_def)
next
  case (snoc x xs)
  then show ?case
  proof (cases x)
    case (GSet s)
    then show ?thesis using snoc
      by (cases s) (auto simp: last_stable_def gd_SetState_def stable_state_def)
  qed (auto simp: last_stable_def gd_RestoreState_def gd_SetDungeon_def gd_SetVoteKick_def gd_AddPlayer_def
      gd_RemovePlayer_def Let_def gd_SetLeader_def gd_DecreaseKicksLeft_def)
qed

section \<open>Properties\<close>

text \<open>
  C1: Whatever sequence of operations a group's data has seen since it was created, restoring its state
  goes back to the last of \<open>NONE\<close>, \<open>DUNGEON\<close> and \<open>FINISHED_DUNGEON\<close> it was set to; the group counts as
  a finder group exactly if that is not \<open>NONE\<close>, it never has more than three kicks left, and while its
  state is one of the three it agrees with the remembered one.
\<close>
theorem group_state_restores:
  "let d = foldl gd_step LfgGroupData_new ops in
     gd_State (gd_RestoreState d) = last_stable ops \<and> gd_IsLfgGroup d = (last_stable ops \<noteq> LFG_STATE_NONE)
     \<and> gd_KicksLeft d \<le> 3
     \<and> gd_State d \<in> {last_stable ops, LFG_STATE_ROLECHECK, LFG_STATE_QUEUED, LFG_STATE_PROPOSAL, LFG_STATE_RAIDBROWSER}"
proof -
  let ?d = "foldl gd_step LfgGroupData_new ops"
  have "gd_ok LfgGroupData_new" by (simp add: gd_ok_def LfgGroupData_new_def stable_state_def gd_IsLfgGroup_def)
  then have "gd_ok ?d" by (rule gd_machine.inv_run) simp
  then show ?thesis using gd_OldState_run[of ops]
    by (cases "gd_State ?d") (auto simp: Let_def gd_ok_def gd_RestoreState_def LFG_GROUP_MAX_KICKS_def gd_IsLfgGroup_def stable_state_def)
qed

lemma player_restore_clean:
  "pd_OldState d = LFG_STATE_NONE \<Longrightarrow> pd_Roles (pd_RestoreState d) = 0 \<and> pd_SelectedDungeons (pd_RestoreState d) = {}
     \<and> pd_Ticket (pd_RestoreState d) = RideTicket_new \<and> pd_State (pd_RestoreState d) = LFG_STATE_NONE"
  by (simp add: pd_RestoreState_def)

end
