(* ===== verification/LfgQueue.thy ===== *)
theory LfgQueue
  imports LfgData GuidText "HOL-Library.List_Lexorder"
begin

text \<open>
  \<open>src/src/server/game/DungeonFinding/LFGQueue.h\<close> and \<open>LFGQueue.cpp\<close>: the queue of one team. The
  stores are ordered maps (association lists in the order of their keys), the two queues lists of
  guids. The key of a combination is the text of its guids in order, separated by \<open>|\<close>, and a cached
  combination is found by searching that text. The manager (its stores, outputs and proposals) is the
  state \<open>lfg_core\<close>; calls into it are the functions of LfgData. Log lines and the two texts for
  debugging are left out. The random choice of the dungeon and of the leader are draws of the
  environment, indexed by the number of the proposal they are made for.
\<close>

unbundle bit_operations_syntax

datatype lfg_compat = LFG_COMPATIBILITY_PENDING | LFG_INCOMPATIBLES_WRONG_GROUP_SIZE
  | LFG_INCOMPATIBLES_TOO_MUCH_PLAYERS | LFG_INCOMPATIBLES_MULTIPLE_LFG_GROUPS
  | LFG_INCOMPATIBLES_HAS_IGNORES | LFG_INCOMPATIBLES_NO_ROLES | LFG_INCOMPATIBLES_NO_DUNGEONS
  | LFG_COMPATIBLES_WITH_LESS_PLAYERS | LFG_COMPATIBLES_BAD_STATES | LFG_COMPATIBLES_MATCH

text \<open>\<open>child < LFG_COMPATIBLES_WITH_LESS_PLAYERS\<close> in the order of the enumeration.\<close>

definition below_less_players :: "lfg_compat \<Rightarrow> bool" where
  "below_less_players c = (c \<noteq> LFG_COMPATIBLES_WITH_LESS_PLAYERS \<and> c \<noteq> LFG_COMPATIBLES_BAD_STATES
     \<and> c \<noteq> LFG_COMPATIBLES_MATCH)"

record compat_data =
  cd_compatibility :: lfg_compat
  cd_roles :: "ObjectGuid roles_map"

definition CompatData_new :: compat_data where
  "CompatData_new = \<lparr>cd_compatibility = LFG_COMPATIBILITY_PENDING, cd_roles = []\<rparr>"

record queue_data =
  qd_joinTime :: int
  qd_tanks :: u8
  qd_healers :: u8
  qd_dps :: u8
  qd_dungeons :: "u32 set"
  qd_roles :: "ObjectGuid roles_map"
  qd_bestCompatible :: string

definition LfgQueueData_new :: "int \<Rightarrow> u32 set \<Rightarrow> ObjectGuid roles_map \<Rightarrow> queue_data" where
  "LfgQueueData_new joinTime dungeons roles = \<lparr>qd_joinTime = joinTime, qd_tanks = LFG_TANKS_NEEDED,
     qd_healers = LFG_HEALERS_NEEDED, qd_dps = LFG_DPS_NEEDED, qd_dungeons = dungeons, qd_roles = roles,
     qd_bestCompatible = []\<rparr>"

text \<open>An \<open>int32\<close> time (two's complement) and the number of times it averages.\<close>

record wait_time =
  wt_time :: u32
  wt_number :: u32

definition LfgWaitTime_new :: wait_time where
  "LfgWaitTime_new = \<lparr>wt_time = -1, wt_number = 0\<rparr>"

record lfg_queue =
  q_data :: "(ObjectGuid \<times> queue_data) list"
  q_compat :: "(string \<times> compat_data) list"
  q_waitAvg :: "u32 \<Rightarrow> wait_time"
  q_waitTank :: "u32 \<Rightarrow> wait_time"
  q_waitHealer :: "u32 \<Rightarrow> wait_time"
  q_waitDps :: "u32 \<Rightarrow> wait_time"
  q_current :: "ObjectGuid list"
  q_new :: "ObjectGuid list"

definition LFGQueue_new :: lfg_queue where
  "LFGQueue_new = \<lparr>q_data = [], q_compat = [], q_waitAvg = (\<lambda>_. LfgWaitTime_new),
     q_waitTank = (\<lambda>_. LfgWaitTime_new), q_waitHealer = (\<lambda>_. LfgWaitTime_new),
     q_waitDps = (\<lambda>_. LfgWaitTime_new), q_current = [], q_new = []\<rparr>"

section \<open>Keys\<close>

fun join_bar :: "string list \<Rightarrow> string" where
  "join_bar [] = []"
| "join_bar [t] = t"
| "join_bar (t # ts) = t @ CHR ''|'' # join_bar ts"

definition ConcatenateGuids :: "ObjectGuid list \<Rightarrow> string" where
  "ConcatenateGuids check = (if check = [] then []
     else join_bar (map ToHexString (sorted_list_of_set (set check))))"

text \<open>\<open>std::string::find\<close> with a result other than \<open>npos\<close>.\<close>

fun contains_text :: "string \<Rightarrow> string \<Rightarrow> bool" where
  "contains_text [] s = (s = [])"
| "contains_text (c # t) s = (take (length s) (c # t) = s \<or> contains_text t s)"

section \<open>The two queues\<close>

definition AddToNewQueue :: "ObjectGuid \<Rightarrow> lfg_queue \<Rightarrow> lfg_queue" where
  "AddToNewQueue g q = q\<lparr>q_new := q_new q @ [g]\<rparr>"

definition RemoveFromNewQueue :: "ObjectGuid \<Rightarrow> lfg_queue \<Rightarrow> lfg_queue" where
  "RemoveFromNewQueue g q = q\<lparr>q_new := removeAll g (q_new q)\<rparr>"

definition AddToCurrentQueue :: "ObjectGuid \<Rightarrow> lfg_queue \<Rightarrow> lfg_queue" where
  "AddToCurrentQueue g q = q\<lparr>q_current := q_current q @ [g]\<rparr>"

definition AddToFrontCurrentQueue :: "ObjectGuid \<Rightarrow> lfg_queue \<Rightarrow> lfg_queue" where
  "AddToFrontCurrentQueue g q = q\<lparr>q_current := g # q_current q\<rparr>"

definition RemoveFromCurrentQueue :: "ObjectGuid \<Rightarrow> lfg_queue \<Rightarrow> lfg_queue" where
  "RemoveFromCurrentQueue g q = q\<lparr>q_current := removeAll g (q_current q)\<rparr>"

definition AddToQueue :: "ObjectGuid \<Rightarrow> bool \<Rightarrow> lfg_queue \<Rightarrow> lfg_queue" where
  "AddToQueue g reAdd q =
     (if map_of (q_data q) g = None then q
      else if reAdd then AddToFrontCurrentQueue g q else AddToNewQueue g q)"

definition AddQueueData :: "ObjectGuid \<Rightarrow> int \<Rightarrow> u32 set \<Rightarrow> ObjectGuid roles_map \<Rightarrow> bool \<Rightarrow> lfg_queue \<Rightarrow> lfg_queue" where
  "AddQueueData g joinTime dungeons roles reAdd q =
     AddToQueue g reAdd (q\<lparr>q_data := om_set g (LfgQueueData_new joinTime dungeons roles) (q_data q)\<rparr>)"

definition RemoveQueueData :: "ObjectGuid \<Rightarrow> lfg_queue \<Rightarrow> lfg_queue" where
  "RemoveQueueData g q = q\<lparr>q_data := om_del g (q_data q)\<rparr>"

section \<open>Wait times\<close>

text \<open>\<open>wt.time * old_number + waitTime\<close> is unsigned; a number that wraps to 0 divides by zero (\<open>None\<close>).\<close>

definition update_wait :: "u32 \<Rightarrow> wait_time \<Rightarrow> wait_time option" where
  "update_wait waitTime w =
     (let old_number = wt_number w; number = old_number + 1 in
      if number = 0 then None
      else Some \<lparr>wt_time = (wt_time w * old_number + waitTime) div number, wt_number = number\<rparr>)"

definition UpdateWaitTimeAvg :: "u32 \<Rightarrow> u32 \<Rightarrow> lfg_queue \<Rightarrow> lfg_queue option" where
  "UpdateWaitTimeAvg waitTime dungeonId q =
     map_option (\<lambda>w. q\<lparr>q_waitAvg := (q_waitAvg q)(dungeonId := w)\<rparr>) (update_wait waitTime (q_waitAvg q dungeonId))"

definition UpdateWaitTimeTank :: "u32 \<Rightarrow> u32 \<Rightarrow> lfg_queue \<Rightarrow> lfg_queue option" where
  "UpdateWaitTimeTank waitTime dungeonId q =
     map_option (\<lambda>w. q\<lparr>q_waitTank := (q_waitTank q)(dungeonId := w)\<rparr>) (update_wait waitTime (q_waitTank q dungeonId))"

definition UpdateWaitTimeHealer :: "u32 \<Rightarrow> u32 \<Rightarrow> lfg_queue \<Rightarrow> lfg_queue option" where
  "UpdateWaitTimeHealer waitTime dungeonId q =
     map_option (\<lambda>w. q\<lparr>q_waitHealer := (q_waitHealer q)(dungeonId := w)\<rparr>) (update_wait waitTime (q_waitHealer q dungeonId))"

definition UpdateWaitTimeDps :: "u32 \<Rightarrow> u32 \<Rightarrow> lfg_queue \<Rightarrow> lfg_queue option" where
  "UpdateWaitTimeDps waitTime dungeonId q =
     map_option (\<lambda>w. q\<lparr>q_waitDps := (q_waitDps q)(dungeonId := w)\<rparr>) (update_wait waitTime (q_waitDps q dungeonId))"

section \<open>The cache of combinations\<close>

definition RemoveFromCompatibles :: "ObjectGuid \<Rightarrow> lfg_queue \<Rightarrow> lfg_queue" where
  "RemoveFromCompatibles g q =
     q\<lparr>q_compat := filter (\<lambda>e. \<not> contains_text (fst e) (ToHexString g)) (q_compat q)\<rparr>"

definition SetCompatibles :: "string \<Rightarrow> lfg_compat \<Rightarrow> lfg_queue \<Rightarrow> lfg_queue" where
  "SetCompatibles key c q =
     (let d = (case map_of (q_compat q) key of Some d \<Rightarrow> d | None \<Rightarrow> CompatData_new)
      in q\<lparr>q_compat := om_set key (d\<lparr>cd_compatibility := c\<rparr>) (q_compat q)\<rparr>)"

definition SetCompatibilityData :: "string \<Rightarrow> compat_data \<Rightarrow> lfg_queue \<Rightarrow> lfg_queue" where
  "SetCompatibilityData key d q = q\<lparr>q_compat := om_set key d (q_compat q)\<rparr>"

definition GetCompatibles :: "lfg_queue \<Rightarrow> string \<Rightarrow> lfg_compat" where
  "GetCompatibles q key = (case map_of (q_compat q) key of Some d \<Rightarrow> cd_compatibility d
     | None \<Rightarrow> LFG_COMPATIBILITY_PENDING)"

definition GetCompatibilityData :: "lfg_queue \<Rightarrow> string \<Rightarrow> compat_data option" where
  "GetCompatibilityData q key = map_of (q_compat q) key"

text \<open>\<open>std::count(.., '|') + 1\<close> as a \<open>uint8\<close>\<close>

definition count_keys :: "string \<Rightarrow> u8" where
  "count_keys key = of_nat (length (filter (\<lambda>c. c = CHR ''|'') key)) + 1"

definition take_role :: "queue_data \<Rightarrow> ObjectGuid \<times> u8 \<Rightarrow> queue_data" where
  "take_role d e =
     (if snd e AND ROLE_TANK \<noteq> 0 then d\<lparr>qd_tanks := qd_tanks d - 1\<rparr>
      else if snd e AND ROLE_HEALER \<noteq> 0 then d\<lparr>qd_healers := qd_healers d - 1\<rparr>
      else d\<lparr>qd_dps := qd_dps d - 1\<rparr>)"

definition UpdateBest :: "string \<Rightarrow> ObjectGuid roles_map \<Rightarrow> queue_data \<Rightarrow> queue_data" where
  "UpdateBest key roles d =
     (let storedSize = (if qd_bestCompatible d = [] then 0 else count_keys (qd_bestCompatible d));
          n = count_keys key
      in if n \<le> storedSize then d
         else foldl take_role (d\<lparr>qd_bestCompatible := key, qd_tanks := LFG_TANKS_NEEDED,
                                qd_healers := LFG_HEALERS_NEEDED, qd_dps := LFG_DPS_NEEDED\<rparr>) roles)"

definition UpdateBestCompatibleInQueue :: "ObjectGuid \<Rightarrow> string \<Rightarrow> ObjectGuid roles_map \<Rightarrow> lfg_queue \<Rightarrow> lfg_queue" where
  "UpdateBestCompatibleInQueue g key roles q = q\<lparr>q_data := om_upd (UpdateBest key roles) g (q_data q)\<rparr>"

definition FindBest :: "(string \<times> compat_data) list \<Rightarrow> string \<Rightarrow> queue_data \<Rightarrow> queue_data" where
  "FindBest store sguid d =
     foldl (\<lambda>d e. if cd_compatibility (snd e) = LFG_COMPATIBLES_WITH_LESS_PLAYERS \<and> contains_text (fst e) sguid
                  then UpdateBest (fst e) (cd_roles (snd e)) d else d) d store"

definition FindBestCompatibleInQueue :: "ObjectGuid \<Rightarrow> lfg_queue \<Rightarrow> lfg_queue" where
  "FindBestCompatibleInQueue g q = q\<lparr>q_data := om_upd (FindBest (q_compat q) (ToHexString g)) g (q_data q)\<rparr>"

text \<open>The loop of \<open>RemoveFromQueue\<close> over the other entries; the entry of the guid itself is erased.\<close>

definition forget_best :: "(string \<times> compat_data) list \<Rightarrow> string \<Rightarrow> ObjectGuid \<times> queue_data \<Rightarrow> ObjectGuid \<times> queue_data" where
  "forget_best store sguid e =
     (if contains_text (qd_bestCompatible (snd e)) sguid
      then (fst e, FindBest store (ToHexString (fst e)) ((snd e)\<lparr>qd_bestCompatible := []\<rparr>))
      else e)"

definition RemoveFromQueue :: "ObjectGuid \<Rightarrow> lfg_queue \<Rightarrow> lfg_queue" where
  "RemoveFromQueue g q =
     (let q1 = RemoveFromCompatibles g (RemoveFromCurrentQueue g (RemoveFromNewQueue g q))
      in q1\<lparr>q_data := om_del g (map (\<lambda>e. if fst e \<noteq> g then forget_best (q_compat q1) (ToHexString g) e else e)
                                     (q_data q1))\<rparr>)"

definition GetJoinTime :: "lfg_queue \<Rightarrow> ObjectGuid \<Rightarrow> int" where
  "GetJoinTime q g = (case map_of (q_data q) g of Some d \<Rightarrow> qd_joinTime d | None \<Rightarrow> 0)"

section \<open>Checking a combination\<close>

definition MAX_GROUP_SIZE :: nat where "MAX_GROUP_SIZE = 5"
definition LFG_TIME_PROPOSAL :: int where "LFG_TIME_PROPOSAL = 45"

type_synonym lfg_st = "lfg_core \<times> lfg_queue"

record count_state =
  cs_numPlayers :: u8
  cs_numLfgGroups :: u8
  cs_group :: ObjectGuid
  cs_groups :: "(ObjectGuid \<times> ObjectGuid) list"

text \<open>The counting loop ends early with the guid that is not queued (\<open>Inl\<close>).\<close>

fun cc_count :: "lfg_st \<Rightarrow> ObjectGuid list \<Rightarrow> count_state \<Rightarrow> ObjectGuid + count_state" where
  "cc_count s [] k = Inr k"
| "cc_count s (g # gs) k =
     (if cs_numLfgGroups k < 2 \<and> unat (cs_numPlayers k) \<le> MAX_GROUP_SIZE then
        (case map_of (q_data (snd s)) g of
           None \<Rightarrow> Inl g
         | Some d \<Rightarrow>
             let k1 = k\<lparr>cs_groups := foldl (\<lambda>m e. om_set (fst e) (if IsParty g then g else og_Empty) m)
                                       (cs_groups k) (qd_roles d),
                        cs_numPlayers := cs_numPlayers k + of_nat (length (qd_roles d))\<rparr>;
                 k2 = (if IsLfgGroup (fst s) g
                       then k1\<lparr>cs_group := if cs_numLfgGroups k1 = 0 then g else cs_group k1,
                               cs_numLfgGroups := cs_numLfgGroups k1 + 1\<rparr>
                       else k1)
             in cc_count s gs k2)
      else Inr k)"

definition cc_start :: count_state where
  "cc_start = \<lparr>cs_numPlayers = 0, cs_numLfgGroups = 0, cs_group = og_Empty, cs_groups = []\<rparr>"

text \<open>One player of a queued entry joins the roles unless it and somebody there ignore each other.\<close>

definition merge_role :: "lfg_env \<Rightarrow> ObjectGuid roles_map \<Rightarrow> ObjectGuid \<times> u8 \<Rightarrow> ObjectGuid roles_map" where
  "merge_role e acc x =
     (if list_ex (\<lambda>p. fst p \<noteq> fst x \<and> HasIgnore e (fst x) (fst p)) acc then acc
      else om_set (fst x) (snd x) acc)"

definition queued_data :: "lfg_queue \<Rightarrow> ObjectGuid \<Rightarrow> queue_data" where
  "queued_data q g = (case map_of (q_data q) g of Some d \<Rightarrow> d | None \<Rightarrow> LfgQueueData_new 0 {} [])"

definition cc_roles :: "lfg_env \<Rightarrow> lfg_queue \<Rightarrow> ObjectGuid list \<Rightarrow> ObjectGuid roles_map" where
  "cc_roles e q check = foldl (\<lambda>acc g. foldl (merge_role e) acc (qd_roles (queued_data q g))) [] check"

definition cc_dungeons :: "lfg_queue \<Rightarrow> ObjectGuid list \<Rightarrow> u32 set" where
  "cc_dungeons q check = foldl (\<lambda>ds g. ds \<inter> qd_dungeons (queued_data q g)) (qd_dungeons (queued_data q (hd check))) (tl check)"

text \<open>
  The leader: the first player with the leader flag takes over, later ones with it on a draw; before
  one has it, a player takes over if nobody has yet, else on a draw. The number counts the draws.
\<close>

definition pick_leader :: "(nat \<Rightarrow> bool) \<Rightarrow> bool \<times> ObjectGuid \<times> nat \<Rightarrow> ObjectGuid \<times> u8 \<Rightarrow> bool \<times> ObjectGuid \<times> nat" where
  "pick_leader coin st x =
     (let (leader, who, n) = st in
      if snd x AND ROLE_LEADER \<noteq> 0 then
        (if \<not> leader \<or> og_IsEmpty who then (True, fst x, n)
         else (True, if coin n then fst x else who, n + 1))
      else if \<not> leader then
        (if og_IsEmpty who then (leader, fst x, n)
         else (leader, if coin n then fst x else who, n + 1))
      else (leader, who, n))"

definition proposal_player :: "bool \<Rightarrow> ObjectGuid \<Rightarrow> (ObjectGuid \<times> ObjectGuid) list \<Rightarrow> ObjectGuid \<times> u8 \<Rightarrow> ObjectGuid \<times> lfg_proposal_player" where
  "proposal_player isNew grp groups x =
     (let g = (case map_of groups (fst x) of Some g \<Rightarrow> g | None \<Rightarrow> og_Empty) in
      (fst x, \<lparr>pp_role = snd x,
               pp_accept = (if \<not> isNew \<and> \<not> og_IsEmpty g \<and> g = grp then LFG_ANSWER_AGREE else LFG_ANSWER_PENDING),
               pp_group = g\<rparr>))"

definition make_proposal ::
  "lfg_env \<Rightarrow> lfg_core \<Rightarrow> ObjectGuid list \<Rightarrow> count_state \<Rightarrow> ObjectGuid roles_map \<Rightarrow> u32 set \<Rightarrow> lfg_proposal" where
  "make_proposal e c check k roles dungeons =
     (let isNew = (cs_numLfgGroups k \<noteq> 1 \<or> lfg_GetOldState c (hd check) \<noteq> LFG_STATE_DUNGEON);
          i = lc_proposalId c
      in LfgProposal_new\<lparr>pr_group := cs_group k, pr_queues := check, pr_isNew := isNew,
           pr_cancelTime := en_now e + LFG_TIME_PROPOSAL, pr_state := LFG_PROPOSAL_INITIATING,
           pr_dungeonId := en_pick e i dungeons,
           pr_leader := fst (snd (foldl (pick_leader (en_coin e i)) (False, og_Empty, 0) roles)),
           pr_players := map (proposal_player isNew (cs_group k) (cs_groups k)) roles\<rparr>)"

definition cc_match :: "lfg_env \<Rightarrow> string \<Rightarrow> ObjectGuid list \<Rightarrow> count_state \<Rightarrow> ObjectGuid roles_map \<Rightarrow> u32 set \<Rightarrow> lfg_st
    \<Rightarrow> lfg_compat \<times> lfg_st" where
  "cc_match e strGuids check k roles dungeons s =
     (let (c, q) = s in
      if \<not> AllQueued c check then
        (LFG_COMPATIBLES_BAD_STATES, c, SetCompatibles strGuids LFG_COMPATIBLES_BAD_STATES q)
      else
        let p = make_proposal e c check k roles dungeons;
            q1 = foldl (\<lambda>q g. RemoveFromCurrentQueue g (RemoveFromNewQueue g q)) q check
        in (LFG_COMPATIBLES_MATCH, AddProposal p c, SetCompatibles strGuids LFG_COMPATIBLES_MATCH q1))"

definition cc_enough :: "lfg_env \<Rightarrow> string \<Rightarrow> ObjectGuid list \<Rightarrow> count_state \<Rightarrow> ObjectGuid roles_map \<Rightarrow> u32 set \<Rightarrow> lfg_st
    \<Rightarrow> lfg_compat \<times> lfg_st" where
  "cc_enough e strGuids check k roles dungeons s =
     (if unat (cs_numPlayers k) \<noteq> MAX_GROUP_SIZE then
        (LFG_COMPATIBLES_WITH_LESS_PLAYERS, fst s,
         SetCompatibilityData strGuids \<lparr>cd_compatibility = LFG_COMPATIBLES_WITH_LESS_PLAYERS, cd_roles = roles\<rparr>
           (foldl (\<lambda>q g. UpdateBestCompatibleInQueue g strGuids roles q) (snd s) check))
      else cc_match e strGuids check k roles dungeons s)"

definition cc_main :: "lfg_env \<Rightarrow> string \<Rightarrow> ObjectGuid list \<Rightarrow> lfg_st \<Rightarrow> lfg_compat \<times> lfg_st" where
  "cc_main e strGuids check s =
     (let (c, q) = s in
      case cc_count s check cc_start of
        Inl g \<Rightarrow> (LFG_COMPATIBILITY_PENDING, c, RemoveFromQueue g q)
      | Inr k \<Rightarrow>
          if length check = 1 \<and> unat (cs_numPlayers k) \<noteq> MAX_GROUP_SIZE then
            (let roles = snd (CheckGroupRoles (qd_roles (queued_data q (hd check))))
             in (LFG_COMPATIBLES_WITH_LESS_PLAYERS, c,
                 SetCompatibilityData strGuids \<lparr>cd_compatibility = LFG_COMPATIBLES_WITH_LESS_PLAYERS, cd_roles = roles\<rparr>
                   (UpdateBestCompatibleInQueue (hd check) strGuids roles q)))
          else if cs_numLfgGroups k > 1 then
            (LFG_INCOMPATIBLES_MULTIPLE_LFG_GROUPS, c, SetCompatibles strGuids LFG_INCOMPATIBLES_MULTIPLE_LFG_GROUPS q)
          else if unat (cs_numPlayers k) > MAX_GROUP_SIZE then
            (LFG_INCOMPATIBLES_TOO_MUCH_PLAYERS, c, SetCompatibles strGuids LFG_INCOMPATIBLES_TOO_MUCH_PLAYERS q)
          else if length check > 1 then
            (let roles = cc_roles e q check in
             if cs_numPlayers k - of_nat (length roles) \<noteq> 0 then
               (LFG_INCOMPATIBLES_HAS_IGNORES, c, SetCompatibles strGuids LFG_INCOMPATIBLES_HAS_IGNORES q)
             else let (ok, roles') = CheckGroupRoles roles in
             if \<not> ok then (LFG_INCOMPATIBLES_NO_ROLES, c, SetCompatibles strGuids LFG_INCOMPATIBLES_NO_ROLES q)
             else let dungeons = cc_dungeons q check in
             if dungeons = {} then
               (LFG_INCOMPATIBLES_NO_DUNGEONS, c, SetCompatibles strGuids LFG_INCOMPATIBLES_NO_DUNGEONS q)
             else cc_enough e strGuids check k roles' dungeons s)
          else
            let d = queued_data q (hd check) in
            cc_enough e strGuids check k (snd (CheckGroupRoles (qd_roles d))) (qd_dungeons d) s)"

text \<open>More than two entries: first all but the first are checked, which may itself form a group.\<close>

fun CheckCompatibility :: "lfg_env \<Rightarrow> ObjectGuid list \<Rightarrow> lfg_st \<Rightarrow> lfg_compat \<times> lfg_st" where
  "CheckCompatibility e [] s = (LFG_INCOMPATIBLES_WRONG_GROUP_SIZE, s)"
| "CheckCompatibility e (g # gs) s =
     (let check = g # gs; strGuids = ConcatenateGuids check in
      if length check > MAX_GROUP_SIZE then (LFG_INCOMPATIBLES_WRONG_GROUP_SIZE, s)
      else if length check > 2 then
        (let (child, s1) = CheckCompatibility e gs s in
         if below_less_players child then (child, fst s1, SetCompatibles strGuids child (snd s1))
         else cc_main e strGuids check s1)
      else cc_main e strGuids check s)"

section \<open>Searching\<close>

text \<open>
  The list \<open>all\<close> is shared by all levels of the recursion: what a level has taken off it stays off.
  Every level takes one guid off, so the fuel of twice its length and two is enough (proved below).
\<close>

fun FindNewGroups_fuel :: "nat \<Rightarrow> lfg_env \<Rightarrow> ObjectGuid list \<Rightarrow> ObjectGuid list \<Rightarrow> lfg_st
      \<Rightarrow> (lfg_compat \<times> ObjectGuid list \<times> lfg_st) option"
  and find_loop :: "nat \<Rightarrow> lfg_env \<Rightarrow> ObjectGuid list \<Rightarrow> ObjectGuid list \<Rightarrow> lfg_st
      \<Rightarrow> (lfg_compat \<times> ObjectGuid list \<times> lfg_st) option" where
  "FindNewGroups_fuel 0 e check all s = None"
| "FindNewGroups_fuel (Suc n) e check all s =
     (let strGuids = ConcatenateGuids check;
          cached = GetCompatibles (snd s) strGuids;
          (cmp, s1) = (if cached = LFG_COMPATIBILITY_PENDING then CheckCompatibility e check s else (cached, s))
      in if cmp = LFG_COMPATIBLES_BAD_STATES \<and> AllQueued (fst s1) check then
           Some (LFG_COMPATIBLES_MATCH, all, fst s1, SetCompatibles strGuids LFG_COMPATIBLES_MATCH (snd s1))
         else if cmp \<noteq> LFG_COMPATIBLES_WITH_LESS_PLAYERS then Some (cmp, all, s1)
         else find_loop n e check all s1)"
| "find_loop 0 e check all s = None"
| "find_loop (Suc n) e check all s =
     (case all of [] \<Rightarrow> Some (LFG_COMPATIBLES_WITH_LESS_PLAYERS, [], s)
      | g # rest \<Rightarrow>
          (case FindNewGroups_fuel n e (check @ [g]) rest s of
             None \<Rightarrow> None
           | Some (sub, all', s') \<Rightarrow>
               if sub = LFG_COMPATIBLES_MATCH then Some (LFG_COMPATIBLES_MATCH, all', s')
               else find_loop n e check all' s'))"

definition FindNewGroups :: "lfg_env \<Rightarrow> ObjectGuid list \<Rightarrow> ObjectGuid list \<Rightarrow> lfg_st
      \<Rightarrow> (lfg_compat \<times> ObjectGuid list \<times> lfg_st) option" where
  "FindNewGroups e check all s = FindNewGroups_fuel (2 * length all + 2) e check all s"

fun FindGroups_fuel :: "nat \<Rightarrow> lfg_env \<Rightarrow> u8 \<Rightarrow> lfg_st \<Rightarrow> (u8 \<times> lfg_st) option" where
  "FindGroups_fuel 0 e proposals s = None"
| "FindGroups_fuel (Suc n) e proposals s =
     (case q_new (snd s) of [] \<Rightarrow> Some (proposals, s)
      | frontguid # _ \<Rightarrow>
          (case FindNewGroups e [frontguid] (q_current (snd s)) (fst s, RemoveFromNewQueue frontguid (snd s)) of
             None \<Rightarrow> None
           | Some (cmp, _, s1) \<Rightarrow>
               if cmp = LFG_COMPATIBLES_MATCH then FindGroups_fuel n e (proposals + 1) s1
               else FindGroups_fuel n e proposals (fst s1, AddToCurrentQueue frontguid (snd s1))))"

definition FindGroups :: "lfg_env \<Rightarrow> lfg_st \<Rightarrow> (u8 \<times> lfg_st) option" where
  "FindGroups e s = FindGroups_fuel (length (q_new (snd s)) + 1) e 0 s"

section \<open>Telling the players\<close>

definition roles_wait :: "u8 \<Rightarrow> lfg_queue \<Rightarrow> u32 \<Rightarrow> u32" where
  "roles_wait role q dungeonId =
     (if role = ROLE_NONE then -1
      else if role = ROLE_TANK then wt_time (q_waitTank q dungeonId)
      else if role = ROLE_HEALER then wt_time (q_waitHealer q dungeonId)
      else if role = ROLE_DAMAGE then wt_time (q_waitDps q dungeonId)
      else wt_time (q_waitAvg q dungeonId))"

text \<open>One entry; the first dungeon of an empty set does not exist (\<open>None\<close>).\<close>

definition update_timer :: "lfg_env \<Rightarrow> u8 \<Rightarrow> int \<Rightarrow> ObjectGuid \<Rightarrow> lfg_st \<Rightarrow> lfg_st option" where
  "update_timer e queueId currTime g s =
     (let (c, q) = s; d = queued_data q g in
      if qd_dungeons d = {} then None
      else
        let dungeonId = Min (qd_dungeons d);
            queuedTime = word_of_int (currTime - qd_joinTime d) :: u32;
            role = foldl (\<lambda>r e. r OR snd e) ROLE_NONE (qd_roles d) AND NOT ROLE_LEADER;
            waitTime = roles_wait role q dungeonId;
            q1 = (if qd_bestCompatible d = [] then FindBestCompatibleInQueue g q else q);
            d1 = queued_data q1 g;
            c1 = foldl (\<lambda>c x. send_to e (fst x) (SendQueueStatus (fst x) queueId dungeonId
                   [waitTime, wt_time (q_waitAvg q dungeonId), wt_time (q_waitTank q dungeonId),
                    wt_time (q_waitHealer q dungeonId), wt_time (q_waitDps q dungeonId)] queuedTime
                   [qd_tanks d1, qd_healers d1, qd_dps d1]) c) c (qd_roles d1)
        in Some (c1, q1))"

fun update_timers :: "lfg_env \<Rightarrow> u8 \<Rightarrow> int \<Rightarrow> ObjectGuid list \<Rightarrow> lfg_st \<Rightarrow> lfg_st option" where
  "update_timers e queueId currTime [] s = Some s"
| "update_timers e queueId currTime (g # gs) s =
     Option.bind (update_timer e queueId currTime g s) (update_timers e queueId currTime gs)"

definition UpdateQueueTimers :: "lfg_env \<Rightarrow> u8 \<Rightarrow> int \<Rightarrow> lfg_st \<Rightarrow> lfg_st option" where
  "UpdateQueueTimers e queueId currTime s = update_timers e queueId currTime (map fst (q_data (snd s))) s"

section \<open>What a key says\<close>

lemma contains_text_append:
  "\<lbrakk>length b < length s; CHR ''|'' \<notin> set s\<rbrakk> \<Longrightarrow> contains_text (b @ CHR ''|'' # t) s = contains_text t s"
proof (induction b)
  case Nil
  have "take (length s) (CHR ''|'' # t) \<noteq> s" using Nil by (cases s) auto
  then show ?case by simp
next
  case (Cons x b)
  have "CHR ''|'' \<in> set (take (length s) (x # b @ CHR ''|'' # t))"
    using Cons.prems(1) by (auto simp: take_append take_Cons' split: nat.splits)
  then have "take (length s) (x # b @ CHR ''|'' # t) \<noteq> s" using Cons.prems(2) by metis
  then show ?case using Cons by simp
qed

lemma contains_text_short: "length t < length s \<Longrightarrow> \<not> contains_text t s"
  by (induction t) auto

lemma contains_text_token: "\<lbrakk>length t = length s; s \<noteq> []\<rbrakk> \<Longrightarrow> contains_text t s = (t = s)"
  using contains_text_short[of "tl t" s] by (cases t) auto

lemma contains_join_bar:
  assumes "\<forall>t \<in> set ts. length t = length s" "s \<noteq> []" "CHR ''|'' \<notin> set s"
  shows "contains_text (join_bar ts) s = (s \<in> set ts)"
  using assms(1)
proof (induction ts rule: join_bar.induct)
  case 1
  then show ?case using assms(2) by simp
next
  case (2 t)
  then show ?case using assms(2) contains_text_token[of t s] by auto
next
  case (3 t t' ts)
  obtain x b where b: "t = x # b" using 3(2) assms(2) by (cases t) auto
  then have lb: "length b < length s" "length t = length s" using 3(2) by auto
  have "take (length s) (t @ CHR ''|'' # join_bar (t' # ts)) = t" using lb(2) by simp
  then have "contains_text (t @ CHR ''|'' # join_bar (t' # ts)) s
      = (t = s \<or> contains_text (b @ CHR ''|'' # join_bar (t' # ts)) s)"
    unfolding b by simp
  then show ?case using 3 contains_text_append[OF lb(1) assms(3)] by auto
qed

lemma hex_length: "length (ToHexString g) = 34"
proof -
  have "unat x < 16 ^ 16" for x :: u64 using unsigned_less[of x] by simp
  then show ?thesis by (simp add: ToHexString_def fmt_hex_length)
qed

lemma hex_not_Nil [simp]: "ToHexString g \<noteq> []"
  using hex_length[of g] by auto

lemma hex_no_bar: "CHR ''|'' \<notin> set (ToHexString g)"
proof -
  have "\<not> is_dig 16 (CHR ''|'')" by (simp add: is_dig_def dig_val_def)
  then have "CHR ''|'' \<notin> set (fmt_hex 16 n)" for n using hex.text_digits by blast
  then show ?thesis by (simp add: ToHexString_def)
qed

lemma hex_inject: "(ToHexString g = ToHexString h) = (g = h)"
proof
  assume a: "ToHexString g = ToHexString h"
  have l: "length (fmt_hex 16 (unat x)) = 16" for x :: u64
  proof -
    have "unat x < 16 ^ 16" using unsigned_less[of x] by simp
    then show ?thesis by (simp add: fmt_hex_length)
  qed
  have "fmt_hex 16 (unat (raw_hi g)) = fmt_hex 16 (unat (raw_hi h))"
    "fmt_hex 16 (unat (raw_lo g)) = fmt_hex 16 (unat (raw_lo h))"
    using a l by (simp_all add: ToHexString_def)
  then have "unat (raw_hi g) = unat (raw_hi h)" "unat (raw_lo g) = unat (raw_lo h)"
    by (metis fmt_hex_val)+
  then show "g = h" by (simp add: ObjectGuid.expand word_unat_eq_iff)
qed simp

text \<open>A combination's key contains the text of exactly its guids.\<close>

lemma contains_ConcatenateGuids: "contains_text (ConcatenateGuids gs) (ToHexString g) = (g \<in> set gs)"
proof (cases "gs = []")
  case False
  have "contains_text (join_bar (map ToHexString (sorted_list_of_set (set gs)))) (ToHexString g)
      = (ToHexString g \<in> set (map ToHexString (sorted_list_of_set (set gs))))"
    by (rule contains_join_bar) (simp_all add: hex_length hex_no_bar)
  then show ?thesis using False by (auto simp: ConcatenateGuids_def hex_inject)
qed (simp add: ConcatenateGuids_def)

section \<open>Forgetting a guid\<close>

lemma UpdateBest_keeps: "qd_roles (UpdateBest k r d) = qd_roles d \<and> qd_dungeons (UpdateBest k r d) = qd_dungeons d
    \<and> qd_joinTime (UpdateBest k r d) = qd_joinTime d \<and> qd_bestCompatible (UpdateBest k r d) \<in> {qd_bestCompatible d, k}"
proof -
  have "qd_roles (foldl take_role d r) = qd_roles d \<and> qd_dungeons (foldl take_role d r) = qd_dungeons d
    \<and> qd_joinTime (foldl take_role d r) = qd_joinTime d \<and> qd_bestCompatible (foldl take_role d r) = qd_bestCompatible d" for d
    by (induction r arbitrary: d) (simp_all add: take_role_def)
  then show ?thesis by (simp add: UpdateBest_def Let_def)
qed

lemma FindBest_keeps: "qd_roles (FindBest st s d) = qd_roles d \<and> qd_dungeons (FindBest st s d) = qd_dungeons d
    \<and> qd_joinTime (FindBest st s d) = qd_joinTime d \<and> qd_bestCompatible (FindBest st s d) \<in> insert (qd_bestCompatible d) (fst ` set st)"
proof (induction st arbitrary: d)
  case (Cons x st)
  let ?d = "if cd_compatibility (snd x) = LFG_COMPATIBLES_WITH_LESS_PLAYERS \<and> contains_text (fst x) s
            then UpdateBest (fst x) (cd_roles (snd x)) d else d"
  have "FindBest (x # st) s d = FindBest st s ?d" by (simp add: FindBest_def)
  moreover have "qd_roles ?d = qd_roles d" "qd_dungeons ?d = qd_dungeons d" "qd_joinTime ?d = qd_joinTime d"
    "qd_bestCompatible ?d \<in> {qd_bestCompatible d, fst x}"
    using UpdateBest_keeps[of "fst x" "cd_roles (snd x)" d] by simp_all
  ultimately show ?case using Cons[of ?d] unfolding list.set image_insert by (metis insert_iff singletonD)
qed (simp add: FindBest_def)

lemma forget_best_keeps:
  "fst (forget_best st s x) = fst x" "qd_roles (snd (forget_best st s x)) = qd_roles (snd x)"
  "qd_dungeons (snd (forget_best st s x)) = qd_dungeons (snd x)"
  "qd_joinTime (snd (forget_best st s x)) = qd_joinTime (snd x)"
  using FindBest_keeps by (simp_all add: forget_best_def)

lemma map_of_map_keys:
  "(\<And>e. fst (f e) = fst e) \<Longrightarrow> map_of (map f xs) k = map_option (\<lambda>v. snd (f (k, v))) (map_of xs k)"
proof (induction xs)
  case (Cons x xs)
  have "f x = (fst x, snd (f x))" using Cons(2)[of x] by (metis prod.collapse)
  then show ?case using Cons by (cases x) (auto simp del: prod.collapse)
qed simp

lemma map_of_filter_keys: "map_of (filter (\<lambda>e. P (fst e)) xs) k = (if P k then map_of xs k else None)"
  by (induction xs) auto

lemma data_RemoveFromQueue:
  "map_of (q_data (RemoveFromQueue g q)) h =
     (if h = g then None
      else map_option (\<lambda>d. snd (forget_best (q_compat (RemoveFromCompatibles g q)) (ToHexString g) (h, d))) (map_of (q_data q) h))"
  by (simp add: RemoveFromQueue_def Let_def map_of_om_del map_of_map_keys forget_best_keeps(1)
      RemoveFromCompatibles_def RemoveFromCurrentQueue_def RemoveFromNewQueue_def)

lemma forgotten_best:
  assumes "map_of (q_data (RemoveFromQueue g q)) h = Some d"
  shows "\<not> contains_text (qd_bestCompatible d) (ToHexString g)"
proof -
  let ?st = "q_compat (RemoveFromCompatibles g q)"
  obtain d0 where d0: "map_of (q_data q) h = Some d0"
    "d = snd (forget_best ?st (ToHexString g) (h, d0))"
    using assms by (auto simp: data_RemoveFromQueue split: if_splits)
  have st: "k \<in> fst ` set ?st \<Longrightarrow> \<not> contains_text k (ToHexString g)" for k
    by (auto simp: RemoveFromCompatibles_def)
  show ?thesis
  proof (cases "contains_text (qd_bestCompatible d0) (ToHexString g)")
    case True
    then have "qd_bestCompatible d \<in> insert [] (fst ` set ?st)"
      using d0(2) FindBest_keeps[of ?st "ToHexString h" "d0\<lparr>qd_bestCompatible := []\<rparr>"] by (simp add: forget_best_def)
    then show ?thesis using st by auto
  next
    case False
    then show ?thesis using d0(2) by (simp add: forget_best_def)
  qed
qed

section \<open>What a search may change\<close>

text \<open>
  What is queued is sane: each entry has at most five players, role flags of the client only and some
  dungeon to go to. Both ways into the queue (a role check, a single player) give such entries.
\<close>

definition queue_ok :: "lfg_queue \<Rightarrow> bool" where
  "queue_ok q = (\<forall>g d. map_of (q_data q) g = Some d \<longrightarrow>
     roles_ok (qd_roles d) \<and> length (qd_roles d) \<le> MAX_GROUP_SIZE \<and> qd_dungeons d \<noteq> {})"

definition pick_honest :: "lfg_env \<Rightarrow> bool" where
  "pick_honest e = (\<forall>i S. S \<noteq> {} \<longrightarrow> en_pick e i S \<in> S)"

text \<open>The entries of \<open>q\<close> are entries of \<open>q0\<close>, up to their best known combination.\<close>

definition data_le :: "lfg_queue \<Rightarrow> lfg_queue \<Rightarrow> bool" where
  "data_le q q0 = (\<forall>g d. map_of (q_data q) g = Some d \<longrightarrow>
     (\<exists>d0. map_of (q_data q0) g = Some d0 \<and> qd_roles d = qd_roles d0 \<and> qd_dungeons d = qd_dungeons d0
           \<and> qd_joinTime d = qd_joinTime d0))"

text \<open>A group that may be proposed: its entries were queued, agree on the dungeon and fill the roles.\<close>

definition proposable :: "lfg_env \<Rightarrow> lfg_st \<Rightarrow> lfg_proposal \<Rightarrow> bool" where
  "proposable e s p =
     (AllQueued (fst s) (pr_queues p) \<and> length (pr_players p) = MAX_GROUP_SIZE
      \<and> pr_state p = LFG_PROPOSAL_INITIATING
      \<and> (\<forall>g \<in> set (pr_queues p). \<exists>d. map_of (q_data (snd s)) g = Some d \<and> pr_dungeonId p \<in> qd_dungeons d)
      \<and> (length (pr_queues p) > 1 \<longrightarrow>
           distinct (map fst (pr_players p))
           \<and> fits (map (\<lambda>x. (fst x, pp_role (snd x))) (pr_players p))
           \<and> (\<forall>x \<in> set (pr_players p). single_role (pp_role (snd x)))
           \<and> (\<forall>x \<in> set (pr_players p). \<forall>y \<in> set (pr_players p). fst x \<noteq> fst y \<longrightarrow> \<not> HasIgnore e (fst x) (fst y))))"

definition search_ok :: "lfg_env \<Rightarrow> lfg_st \<Rightarrow> lfg_st \<Rightarrow> bool" where
  "search_ok e s0 s =
     (lc_groups (fst s) = lc_groups (fst s0) \<and> lc_players (fst s) = lc_players (fst s0)
      \<and> lc_out (fst s) = lc_out (fst s0) \<and> data_le (snd s) (snd s0)
      \<and> (\<forall>p \<in> snd ` set (lc_proposals (fst s)). p \<in> snd ` set (lc_proposals (fst s0)) \<or> proposable e s0 p))"

lemma search_ok_refl: "search_ok e s s"
  by (auto simp: search_ok_def data_le_def)

lemma queue_ok_le: "\<lbrakk>queue_ok q0; data_le q q0\<rbrakk> \<Longrightarrow> queue_ok q"
  unfolding queue_ok_def data_le_def by metis

lemma queued_data_Some: "map_of (q_data q) g = Some d \<Longrightarrow> queued_data q g = d"
  by (simp add: queued_data_def)

text \<open>The steps of a search on the queue alone: they keep the data and never make the new queue longer.\<close>

definition queue_step :: "lfg_queue \<Rightarrow> lfg_queue \<Rightarrow> bool" where
  "queue_step q q' = (data_le q' q \<and> length (q_new q') \<le> length (q_new q) \<and> set (q_new q') \<subseteq> set (q_new q)
     \<and> set (q_current q') \<subseteq> set (q_current q))"

named_theorems queue_steps

lemma data_le_trans: "\<lbrakk>data_le q1 q2; data_le q2 q3\<rbrakk> \<Longrightarrow> data_le q1 q3"
  unfolding data_le_def by metis

lemma data_le_same: "q_data q = q_data q' \<Longrightarrow> data_le q q'"
  by (simp add: data_le_def)

lemma queue_step_refl: "queue_step q q"
  by (simp add: queue_step_def data_le_same)

lemma queue_step_trans: "\<lbrakk>queue_step q1 q2; queue_step q2 q3\<rbrakk> \<Longrightarrow> queue_step q1 q3"
  unfolding queue_step_def using data_le_trans by (meson le_trans subset_trans)

lemma queue_step_SetCompatibles [queue_steps]: "queue_step q (SetCompatibles k c q)"
  by (simp add: queue_step_def SetCompatibles_def Let_def data_le_same)

lemma queue_step_SetCompatibilityData [queue_steps]: "queue_step q (SetCompatibilityData k d q)"
  by (simp add: queue_step_def SetCompatibilityData_def data_le_same)

lemma queue_step_UpdateBest [queue_steps]: "queue_step q (UpdateBestCompatibleInQueue g k r q)"
  using UpdateBest_keeps[of k r]
  by (auto simp: queue_step_def UpdateBestCompatibleInQueue_def data_le_def map_of_om_upd)

lemma queue_step_unqueue [queue_steps]: "queue_step q (RemoveFromCurrentQueue g (RemoveFromNewQueue g q))"
  by (auto simp: queue_step_def RemoveFromCurrentQueue_def RemoveFromNewQueue_def length_removeAll_less_eq data_le_same)

lemma queue_step_RemoveFromNewQueue [queue_steps]: "queue_step q (RemoveFromNewQueue g q)"
  by (auto simp: queue_step_def RemoveFromNewQueue_def length_removeAll_less_eq data_le_same)

lemma queue_step_RemoveFromQueue [queue_steps]: "queue_step q (RemoveFromQueue g q)"
proof -
  have "data_le (RemoveFromQueue g q) q"
    by (auto simp: data_le_def data_RemoveFromQueue forget_best_keeps split: if_splits)
  then show ?thesis
    by (auto simp: queue_step_def RemoveFromQueue_def Let_def RemoveFromCompatibles_def
        RemoveFromCurrentQueue_def RemoveFromNewQueue_def length_removeAll_less_eq)
qed

lemma queue_step_foldl:
  "(\<And>q g. queue_step q (f q g)) \<Longrightarrow> queue_step q (foldl f q gs)"
  by (induction gs arbitrary: q) (auto intro: queue_step_refl queue_step_trans)

lemma search_ok_queue: "\<lbrakk>search_ok e s0 (c, q); queue_step q q'\<rbrakk> \<Longrightarrow> search_ok e s0 (c, q')"
  unfolding search_ok_def queue_step_def fst_conv snd_conv using data_le_trans by blast

section \<open>A check proposes only groups that fit\<close>

lemma cc_count_Inr:
  "\<lbrakk>cc_count s gs k = Inr k'; cs_numLfgGroups k' \<le> 1; unat (cs_numPlayers k') \<le> MAX_GROUP_SIZE;
    \<forall>g d. map_of (q_data (snd s)) g = Some d \<longrightarrow> length (qd_roles d) \<le> MAX_GROUP_SIZE\<rbrakk> \<Longrightarrow>
   (\<forall>g \<in> set gs. map_of (q_data (snd s)) g \<noteq> None)
   \<and> unat (cs_numPlayers k') = unat (cs_numPlayers k) + sum_list (map (\<lambda>g. length (qd_roles (queued_data (snd s) g))) gs)"
proof (induction gs arbitrary: k)
  case (Cons g gs)
  have cont: "cs_numLfgGroups k < 2 \<and> unat (cs_numPlayers k) \<le> MAX_GROUP_SIZE"
  proof (rule ccontr)
    assume "\<not> ?thesis"
    then show False using Cons.prems(1,2,3) by (auto simp: word_less_nat_alt word_le_nat_alt split: if_splits)
  qed
  then obtain d where d: "map_of (q_data (snd s)) g = Some d" using Cons.prems(1) by (auto split: option.splits)
  have ld: "length (qd_roles d) \<le> 5" using Cons.prems(4) d by (simp add: MAX_GROUP_SIZE_def)
  have np: "unat (cs_numPlayers k + of_nat (length (qd_roles d))) = unat (cs_numPlayers k) + length (qd_roles d)"
    using ld cont by (simp add: unat_word_ariths unat_of_nat MAX_GROUP_SIZE_def)
  obtain k2 where k2: "cc_count s gs k2 = Inr k'" "cs_numPlayers k2 = cs_numPlayers k + of_nat (length (qd_roles d))"
    using Cons.prems(1) cont d by (auto simp: Let_def split: if_splits)
  from Cons.IH[OF k2(1) Cons.prems(2-4)] show ?case
    using k2(2) np d by (simp add: queued_data_Some)
qed simp

definition no_ignores :: "lfg_env \<Rightarrow> ObjectGuid roles_map \<Rightarrow> bool" where
  "no_ignores e r = (\<forall>x \<in> set r. \<forall>y \<in> set r. fst x \<noteq> fst y \<longrightarrow> \<not> HasIgnore e (fst x) (fst y))"

lemma HasIgnore_sym: "HasIgnore e a b = HasIgnore e b a"
  by (auto simp: HasIgnore_def)

lemma om_set_mem: "y \<in> set (om_set k v xs) \<Longrightarrow> y = (k, v) \<or> y \<in> set xs"
  by (induction xs rule: om_set.induct) (auto split: if_splits)

lemma om_set_length: "length (om_set k v xs) \<le> Suc (length xs)"
  by (induction xs rule: om_set.induct) auto

definition merged_ok :: "lfg_env \<Rightarrow> ObjectGuid roles_map \<Rightarrow> bool" where
  "merged_ok e acc = (keys_strict acc \<and> roles_ok acc \<and> no_ignores e acc)"

lemma merge_role_ok:
  assumes "merged_ok e acc" "role_ok (snd x)"
  shows "merged_ok e (merge_role e acc x) \<and> length (merge_role e acc x) \<le> Suc (length acc)"
proof (cases "list_ex (\<lambda>p. fst p \<noteq> fst x \<and> HasIgnore e (fst x) (fst p)) acc")
  case True
  then show ?thesis using assms by (simp add: merge_role_def)
next
  case False
  then have ni: "\<forall>p \<in> set acc. fst p \<noteq> fst x \<longrightarrow> \<not> HasIgnore e (fst x) (fst p)" by (auto simp: list_ex_iff)
  have "no_ignores e (om_set (fst x) (snd x) acc)"
    using ni assms(1) HasIgnore_sym
    by (auto simp: no_ignores_def merged_ok_def dest!: om_set_mem)
  moreover have "roles_ok (om_set (fst x) (snd x) acc)"
    using assms by (auto simp: roles_ok_def merged_ok_def dest!: om_set_mem)
  moreover have "keys_strict (om_set (fst x) (snd x) acc)"
    using assms by (intro keys_strict_om_set) (simp add: merged_ok_def)
  ultimately show ?thesis using False by (simp add: merge_role_def merged_ok_def om_set_length)
qed

lemma merge_roles_ok:
  "\<lbrakk>merged_ok e acc; roles_ok r\<rbrakk> \<Longrightarrow>
     merged_ok e (foldl (merge_role e) acc r) \<and> length (foldl (merge_role e) acc r) \<le> length acc + length r"
proof (induction r arbitrary: acc)
  case (Cons x r)
  have "merged_ok e (merge_role e acc x) \<and> length (merge_role e acc x) \<le> Suc (length acc)"
    using Cons by (intro merge_role_ok) (simp_all add: roles_ok_def)
  then show ?case using Cons.IH[of "merge_role e acc x"] Cons.prems by (simp add: roles_ok_def)
qed simp

lemma cc_roles_ok:
  assumes "\<forall>g \<in> set check. roles_ok (qd_roles (queued_data q g))"
  shows "merged_ok e (cc_roles e q check)
    \<and> length (cc_roles e q check) \<le> sum_list (map (\<lambda>g. length (qd_roles (queued_data q g))) check)"
proof -
  have "merged_ok e (foldl (\<lambda>acc g. foldl (merge_role e) acc (qd_roles (queued_data q g))) acc check)
     \<and> length (foldl (\<lambda>acc g. foldl (merge_role e) acc (qd_roles (queued_data q g))) acc check)
        \<le> length acc + sum_list (map (\<lambda>g. length (qd_roles (queued_data q g))) check)"
    if "merged_ok e acc" for acc
    using assms that
  proof (induction check arbitrary: acc)
    case (Cons g gs)
    have m: "merged_ok e (foldl (merge_role e) acc (qd_roles (queued_data q g)))
       \<and> length (foldl (merge_role e) acc (qd_roles (queued_data q g))) \<le> length acc + length (qd_roles (queued_data q g))"
      using Cons.prems by (intro merge_roles_ok) auto
    then show ?case using Cons.IH[of "foldl (merge_role e) acc (qd_roles (queued_data q g))"] Cons.prems by simp
  qed simp
  from this[of "[]"] show ?thesis by (simp add: cc_roles_def merged_ok_def roles_ok_def no_ignores_def)
qed

lemma cc_dungeons_mem: "\<lbrakk>x \<in> cc_dungeons q check; g \<in> set check\<rbrakk> \<Longrightarrow> x \<in> qd_dungeons (queued_data q g)"
proof -
  have "x \<in> foldl (\<lambda>ds g. ds \<inter> qd_dungeons (queued_data q g)) S gs \<Longrightarrow> x \<in> S \<and> (\<forall>g \<in> set gs. x \<in> qd_dungeons (queued_data q g))" for S gs
    by (induction gs arbitrary: S) auto
  then show "\<lbrakk>x \<in> cc_dungeons q check; g \<in> set check\<rbrakk> \<Longrightarrow> x \<in> qd_dungeons (queued_data q g)"
    unfolding cc_dungeons_def by (cases check) auto
qed

lemma AllQueued_core: "\<lbrakk>lc_groups c = lc_groups c0; lc_players c = lc_players c0\<rbrakk> \<Longrightarrow> AllQueued c check = AllQueued c0 check"
  by (simp add: AllQueued_def lfg_GetState_def)

lemma proposal_players:
  "map (\<lambda>x. (fst x, pp_role (snd x))) (map (proposal_player n g gs) roles) = roles"
  "map fst (map (proposal_player n g gs) roles) = map fst roles"
  by (simp_all add: proposal_player_def Let_def comp_def)

text \<open>What the code has established when it has counted five players.\<close>

lemma cc_match_ok:
  assumes s: "search_ok e s0 (c, q)" and e: "pick_honest e"
    and data: "\<forall>g \<in> set check. map_of (q_data q) g \<noteq> None"
    and ds: "dungeons \<noteq> {}" "\<And>g. g \<in> set check \<Longrightarrow> dungeons \<subseteq> qd_dungeons (queued_data q g)"
    and len: "length roles = MAX_GROUP_SIZE"
    and many: "length check > 1 \<Longrightarrow> distinct (map fst roles) \<and> fits roles
                 \<and> (\<forall>x \<in> set roles. single_role (snd x)) \<and> no_ignores e roles"
    and r: "cc_match e strGuids check k roles dungeons (c, q) = (cmp, s')"
  shows "search_ok e s0 s' \<and> queue_step q (snd s')"
proof (cases "AllQueued c check")
  case False
  then show ?thesis
    using r search_ok_queue[OF s queue_step_SetCompatibles] queue_step_SetCompatibles by (auto simp: cc_match_def)
next
  case True
  let ?q = "SetCompatibles strGuids LFG_COMPATIBLES_MATCH (foldl (\<lambda>q g. RemoveFromCurrentQueue g (RemoveFromNewQueue g q)) q check)"
  let ?p = "make_proposal e c check k roles dungeons"
  have s': "s' = (AddProposal ?p c, ?q)" using r True by (auto simp: cc_match_def Let_def)
  have st: "queue_step q ?q"
    by (intro queue_step_trans[OF queue_step_foldl queue_step_SetCompatibles] queue_step_unqueue)
  have core: "lc_groups c = lc_groups (fst s0)" "lc_players c = lc_players (fst s0)" and le: "data_le q (snd s0)"
    using s by (auto simp: search_ok_def)
  have pick: "en_pick e (lc_proposalId c) dungeons \<in> dungeons" using e ds(1) by (simp add: pick_honest_def)
  have dun: "\<exists>d. map_of (q_data (snd s0)) g = Some d \<and> en_pick e (lc_proposalId c) dungeons \<in> qd_dungeons d"
    if "g \<in> set check" for g
  proof -
    obtain d where d: "map_of (q_data q) g = Some d" using data \<open>g \<in> set check\<close> by blast
    then obtain d0 where "map_of (q_data (snd s0)) g = Some d0" "qd_dungeons d0 = qd_dungeons d"
      using le by (metis data_le_def)
    then show ?thesis using ds(2)[OF that] pick d by (auto simp: queued_data_Some)
  qed
  define isNew where "isNew = (cs_numLfgGroups k \<noteq> 1 \<or> lfg_GetOldState c (hd check) \<noteq> LFG_STATE_DUNGEON)"
  let ?pl = "map (proposal_player isNew (cs_group k) (cs_groups k)) roles"
  have q: "pr_queues ?p = check" "pr_players ?p = ?pl" "pr_state ?p = LFG_PROPOSAL_INITIATING"
    "pr_dungeonId ?p = en_pick e (lc_proposalId c) dungeons"
    by (simp_all add: make_proposal_def LfgProposal_new_def Let_def isNew_def)
  have pl: "single_role (pp_role (snd x)) \<and> (\<forall>y \<in> set ?pl. fst x \<noteq> fst y \<longrightarrow> \<not> HasIgnore e (fst x) (fst y))"
    if "x \<in> set ?pl" "length check > 1" for x
    using many[OF that(2)] that(1) by (fastforce simp: proposal_player_def Let_def no_ignores_def)
  have "proposable e s0 (?p\<lparr>pr_id := i\<rparr>)" for i
    unfolding proposable_def
    using True AllQueued_core[OF core] dun len many pl
    by (simp add: q del: map_map add: proposal_players)
  then have "\<forall>p \<in> snd ` set (lc_proposals (AddProposal ?p c)).
      p \<in> snd ` set (lc_proposals (fst s0)) \<or> proposable e s0 p"
    using s by (auto simp: AddProposal_def Let_def search_ok_def dest!: om_set_mem)
  then have "search_ok e s0 (AddProposal ?p c, q)"
    using s by (simp add: search_ok_def AddProposal_def Let_def)
  then show ?thesis using search_ok_queue[OF _ st] st s' by auto
qed

lemma cc_enough_ok:
  assumes "search_ok e s0 (c, q)" "pick_honest e" "\<forall>g \<in> set check. map_of (q_data q) g \<noteq> None"
    and "dungeons \<noteq> {}" "\<And>g. g \<in> set check \<Longrightarrow> dungeons \<subseteq> qd_dungeons (queued_data q g)"
    and "unat (cs_numPlayers k) = MAX_GROUP_SIZE \<Longrightarrow> length roles = MAX_GROUP_SIZE"
    and "length check > 1 \<Longrightarrow> distinct (map fst roles) \<and> fits roles
                 \<and> (\<forall>x \<in> set roles. single_role (snd x)) \<and> no_ignores e roles"
    and r: "cc_enough e strGuids check k roles dungeons (c, q) = (cmp, s')"
  shows "search_ok e s0 s' \<and> queue_step q (snd s')"
proof (cases "unat (cs_numPlayers k) = MAX_GROUP_SIZE")
  case True
  then have "cc_match e strGuids check k roles dungeons (c, q) = (cmp, s')" using r by (simp add: cc_enough_def)
  then show ?thesis using cc_match_ok[OF assms(1-5)] assms(6)[OF True] assms(7) by blast
next
  case False
  have "queue_step q (SetCompatibilityData strGuids d (foldl (\<lambda>q g. UpdateBestCompatibleInQueue g strGuids roles q) q check))" for d
    by (intro queue_step_trans[OF queue_step_foldl queue_step_SetCompatibilityData] queue_step_UpdateBest)
  then show ?thesis using r False search_ok_queue[OF assms(1)] by (auto simp: cc_enough_def)
qed

lemma assignment_facts:
  assumes "assignment r s"
  shows "map fst s = map fst r" "fits s" "\<forall>x \<in> set s. single_role (snd x)"
proof -
  have "each_narrows r s \<Longrightarrow> map fst s = map fst r \<and> (\<forall>x \<in> set s. single_role (snd x))"
    by (induction rule: list_all2_induct) (auto simp: narrows_def)
  then show "map fst s = map fst r" "fits s" "\<forall>x \<in> set s. single_role (snd x)"
    using assms by (simp_all add: assignment_def)
qed

lemma no_ignores_keys:
  assumes "no_ignores e r" "map fst s = map fst r"
  shows "no_ignores e s"
proof -
  have "no_ignores e r = (\<forall>a \<in> set (map fst r). \<forall>b \<in> set (map fst r). a \<noteq> b \<longrightarrow> \<not> HasIgnore e a b)" for r
    by (simp add: no_ignores_def)
  then show ?thesis using assms by metis
qed

lemma cc_main_ok:
  assumes s: "search_ok e s0 (c, q)" and ok: "queue_ok (snd s0)" "pick_honest e" and ne: "check \<noteq> []"
    and r: "cc_main e strGuids check (c, q) = (cmp, s')"
  shows "search_ok e s0 s' \<and> queue_step q (snd s')"
proof (cases "cc_count (c, q) check cc_start")
  case (Inl g)
  then show ?thesis using r search_ok_queue[OF s queue_step_RemoveFromQueue] queue_step_RemoveFromQueue
    by (auto simp: cc_main_def)
next
  case (Inr k)
  have qok: "queue_ok q" using queue_ok_le[OF ok(1)] s by (simp add: search_ok_def)
  then have l5: "\<forall>g d. map_of (q_data q) g = Some d \<longrightarrow> length (qd_roles d) \<le> MAX_GROUP_SIZE" by (simp add: queue_ok_def)
  note sc = search_ok_queue[OF s queue_step_SetCompatibles] queue_step_SetCompatibles
  consider (one) "length check = 1" "unat (cs_numPlayers k) \<noteq> MAX_GROUP_SIZE"
    | (groups) "\<not> (length check = 1 \<and> unat (cs_numPlayers k) \<noteq> MAX_GROUP_SIZE)" "cs_numLfgGroups k > 1"
    | (many) "\<not> (length check = 1 \<and> unat (cs_numPlayers k) \<noteq> MAX_GROUP_SIZE)" "\<not> cs_numLfgGroups k > 1"
        "unat (cs_numPlayers k) > MAX_GROUP_SIZE"
    | (go) "\<not> (length check = 1 \<and> unat (cs_numPlayers k) \<noteq> MAX_GROUP_SIZE)" "\<not> cs_numLfgGroups k > 1"
        "\<not> unat (cs_numPlayers k) > MAX_GROUP_SIZE"
    by blast
  then show ?thesis
  proof cases
    case one
    have "queue_step q (SetCompatibilityData strGuids d (UpdateBestCompatibleInQueue (hd check) strGuids rs q))" for d rs
      using queue_step_UpdateBest queue_step_SetCompatibilityData queue_step_trans by blast
    then show ?thesis using r one Inr search_ok_queue[OF s] by (auto simp: cc_main_def Let_def)
  next
    case groups
    then show ?thesis using r Inr sc by (auto simp: cc_main_def)
  next
    case many
    then show ?thesis using r Inr sc by (auto simp: cc_main_def)
  next
    case go
    have "cs_numLfgGroups k \<le> 1" "unat (cs_numPlayers k) \<le> MAX_GROUP_SIZE" using go by simp_all
    from cc_count_Inr[OF Inr this, simplified, OF l5] have data: "\<forall>g \<in> set check. map_of (q_data q) g \<noteq> None"
      and np: "unat (cs_numPlayers k) = sum_list (map (\<lambda>g. length (qd_roles (queued_data q g))) check)"
      by (simp_all add: cc_start_def)
    have dok: "roles_ok (qd_roles (queued_data q g)) \<and> length (qd_roles (queued_data q g)) \<le> 5
        \<and> qd_dungeons (queued_data q g) \<noteq> {}" if "g \<in> set check" for g
      using data that qok by (fastforce simp: queue_ok_def queued_data_Some MAX_GROUP_SIZE_def)
    show ?thesis
    proof (cases "length check > 1")
      case False
      then obtain g where g: "check = [g]" using ne by (cases check) auto
      let ?d = "queued_data q g"
      have len: "unat (cs_numPlayers k) = MAX_GROUP_SIZE \<Longrightarrow> length (snd (CheckGroupRoles (qd_roles ?d))) = MAX_GROUP_SIZE"
      proof -
        assume five: "unat (cs_numPlayers k) = MAX_GROUP_SIZE"
        have "roles_ok (qd_roles ?d)" "length (qd_roles ?d) < 256" using dok[of g] g by auto
        then have "length (snd (CheckGroupRoles (qd_roles ?d))) = length (qd_roles ?d)"
          using arg_cong[OF CheckGroupRoles_keys, of "qd_roles ?d" length] by simp
        then show ?thesis using five np g by simp
      qed
      have "cc_enough e strGuids check k (snd (CheckGroupRoles (qd_roles ?d))) (qd_dungeons ?d) (c, q) = (cmp, s')"
        using r Inr go g by (simp add: cc_main_def Let_def)
      then show ?thesis
        using cc_enough_ok[OF s ok(2) data _ _ len, of "qd_dungeons ?d"] dok[of g] g by simp
    next
      case True
      let ?r = "cc_roles e q check"
      have cr: "merged_ok e ?r" "length ?r \<le> unat (cs_numPlayers k)" using cc_roles_ok[of check q e] dok np by auto
      let ?res = "CheckGroupRoles ?r"
      show ?thesis
      proof (cases "cs_numPlayers k - of_nat (length ?r) \<noteq> 0 \<or> \<not> fst ?res \<or> cc_dungeons q check = {}")
        case True
        then show ?thesis using r Inr go \<open>length check > 1\<close> sc
          by (auto simp: cc_main_def Let_def split: prod.splits if_splits)
      next
        case False
        have l256: "length ?r < 256" using cr(2) go by (simp add: MAX_GROUP_SIZE_def)
        have "cs_numPlayers k = of_nat (length ?r)" using False by simp
        then have lr: "unat (cs_numPlayers k) = length ?r" using l256 by (simp add: unat_of_nat)
        have rok: "roles_ok ?r" using cr(1) by (simp add: merged_ok_def)
        have ne: "?r \<noteq> []" using CheckGroupRoles_cases(2)[OF rok l256] False by (auto split: if_splits)
        then have as: "assignment ?r (snd ?res)"
          using CheckGroupRoles_cases(2)[OF rok l256] False by (simp add: cgr_spec_def)
        note af = assignment_facts[OF as]
        have en: "cc_enough e strGuids check k (snd ?res) (cc_dungeons q check) (c, q) = (cmp, s')"
          using r Inr go False True by (simp add: cc_main_def Let_def case_prod_beta)
        have "distinct (map fst ?r)" using cr(1) keys_strict_distinct by (auto simp: merged_ok_def)
        moreover have "no_ignores e (snd ?res)"
          using no_ignores_keys[OF _ af(1)] cr(1) by (simp add: merged_ok_def)
        moreover have "length (snd ?res) = length ?r" using arg_cong[OF af(1), of length] by simp
        ultimately show ?thesis
          using cc_enough_ok[OF s ok(2) data _ _ _ _ en] False af lr cc_dungeons_mem[of _ q check] by auto
      qed
    qed
  qed
qed

lemma CheckCompatibility_ok:
  "\<lbrakk>search_ok e s0 s; queue_ok (snd s0); pick_honest e; CheckCompatibility e check s = (cmp, s')\<rbrakk> \<Longrightarrow>
     search_ok e s0 s' \<and> queue_step (snd s) (snd s')"
proof (induction e check s arbitrary: cmp s' rule: CheckCompatibility.induct)
  case (1 e s)
  then show ?case by (simp add: queue_step_refl)
next
  case (2 e g gs s)
  obtain c q where s: "s = (c, q)" by fastforce
  have sc: "search_ok e s0 (c, q) \<Longrightarrow> search_ok e s0 (c, SetCompatibles k cc q)"
    "queue_step q0 q \<Longrightarrow> queue_step q0 (SetCompatibles k cc q)" for s0 c q q0 k cc
    using search_ok_queue[OF _ queue_step_SetCompatibles] queue_step_trans[OF _ queue_step_SetCompatibles] by blast+
  show ?case
  proof (cases "length (g # gs) > MAX_GROUP_SIZE \<or> \<not> length (g # gs) > 2")
    case True
    then show ?thesis using 2 cc_main_ok[of e s0 c q "g # gs"] s
      by (auto simp: Let_def queue_step_refl split: if_splits)
  next
    case False
    obtain child c1 q1 where ch: "CheckCompatibility e gs s = (child, (c1, q1))" by (metis surj_pair)
    then have ok1: "search_ok e s0 (c1, q1) \<and> queue_step (snd s) q1"
      using 2(1)[OF refl refl _ _ 2(2-4)] False by fastforce
    show ?thesis
    proof (cases "below_less_players child")
      case True
      then have "s' = (c1, SetCompatibles (ConcatenateGuids (g # gs)) child q1)"
        using 2(5) ch False by (auto simp: Let_def)
      then show ?thesis using sc(1)[of s0 c1 q1] sc(2)[of "snd s" q1] ok1 by simp
    next
      case below: False
      then have "cc_main e (ConcatenateGuids (g # gs)) (g # gs) (c1, q1) = (cmp, s')"
        using 2(5) ch False by (simp add: Let_def)
      then have "search_ok e s0 s' \<and> queue_step q1 (snd s')"
        using cc_main_ok[of e s0 c1 q1 "g # gs"] 2(3,4) ok1 by simp
      then show ?thesis using ok1 queue_step_trans by blast
    qed
  qed
qed

section \<open>The search ends and keeps to the rules\<close>

lemma FindNewGroups_ok:
  assumes q0: "queue_ok (snd s0)" "pick_honest e"
  shows "\<lbrakk>2 * length all + 2 \<le> n; search_ok e s0 s\<rbrakk> \<Longrightarrow>
      \<exists>r all' s'. FindNewGroups_fuel n e check all s = Some (r, all', s') \<and> length all' \<le> length all
        \<and> search_ok e s0 s' \<and> queue_step (snd s) (snd s')"
    and "\<lbrakk>2 * length all + 1 \<le> n; search_ok e s0 s\<rbrakk> \<Longrightarrow>
      \<exists>r all' s'. find_loop n e check all s = Some (r, all', s') \<and> length all' \<le> length all
        \<and> search_ok e s0 s' \<and> queue_step (snd s) (snd s')"
proof (induction n arbitrary: check all s)
  case (Suc n)
  {
    case 1
    let ?k = "ConcatenateGuids check"
    obtain cmp c1 q1 where c: "(if GetCompatibles (snd s) ?k = LFG_COMPATIBILITY_PENDING then CheckCompatibility e check s
        else (GetCompatibles (snd s) ?k, s)) = (cmp, (c1, q1))" by (metis surj_pair)
    have ok1: "search_ok e s0 (c1, q1)" "queue_step (snd s) q1"
      using CheckCompatibility_ok[OF 1(2) q0, where check = check] c 1(2) by (auto simp: queue_step_refl split: if_splits)
    have step: "FindNewGroups_fuel (Suc n) e check all s =
        (if cmp = LFG_COMPATIBLES_BAD_STATES \<and> AllQueued c1 check then
           Some (LFG_COMPATIBLES_MATCH, all, c1, SetCompatibles ?k LFG_COMPATIBLES_MATCH q1)
         else if cmp \<noteq> LFG_COMPATIBLES_WITH_LESS_PLAYERS then Some (cmp, all, (c1, q1))
         else find_loop n e check all (c1, q1))"
      by (subst FindNewGroups_fuel.simps(2)) (simp only: c Let_def prod.case fst_conv snd_conv)
    have set1: "search_ok e s0 (c1, SetCompatibles ?k LFG_COMPATIBLES_MATCH q1)"
      "queue_step (snd s) (SetCompatibles ?k LFG_COMPATIBLES_MATCH q1)"
      using search_ok_queue[OF ok1(1) queue_step_SetCompatibles] queue_step_trans[OF ok1(2) queue_step_SetCompatibles] by blast+
    have "2 * length all + 1 \<le> n" using 1(1) by simp
    then obtain r all' s' where l: "find_loop n e check all (c1, q1) = Some (r, all', s')" "length all' \<le> length all"
      "search_ok e s0 s'" "queue_step q1 (snd s')"
      using Suc.IH(2)[where all = all and s = "(c1, q1)" and check = check] ok1(1) by auto
    show ?case unfolding step using ok1 set1 l queue_step_trans[OF ok1(2) l(4)] by (cases s') auto
  next
    case 2
    show ?case
    proof (cases all)
      case Nil
      then show ?thesis using 2(2) by (simp add: queue_step_refl)
    next
      case (Cons g rest)
      then obtain sub all' s' where f: "FindNewGroups_fuel n e (check @ [g]) rest s = Some (sub, all', s')"
        "length all' \<le> length rest" "search_ok e s0 s'" "queue_step (snd s) (snd s')"
        using Suc.IH(1)[where all = rest and s = s and check = "check @ [g]"] 2 by auto
      show ?thesis
      proof (cases "sub = LFG_COMPATIBLES_MATCH")
        case True
        then show ?thesis using f Cons by auto
      next
        case False
        have "2 * length all' + 1 \<le> n" using 2(1) f(2) Cons by simp
        then obtain r all'' s'' where l: "find_loop n e check all' s' = Some (r, all'', s'')" "length all'' \<le> length all'"
          "search_ok e s0 s''" "queue_step (snd s') (snd s'')"
          using Suc.IH(2)[where all = all' and s = s' and check = check] f(3) by auto
        then show ?thesis using f Cons False queue_step_trans[OF f(4) l(4)] by auto
      qed
    qed
  }
qed simp_all

lemma FindGroups_fuel_ok:
  assumes q0: "queue_ok (snd s0)" "pick_honest e"
  shows "\<lbrakk>length (q_new (snd s)) < n; search_ok e s0 s\<rbrakk> \<Longrightarrow>
    \<exists>p s'. FindGroups_fuel n e proposals s = Some (p, s') \<and> q_new (snd s') = [] \<and> search_ok e s0 s'
      \<and> set (q_current (snd s')) \<subseteq> set (q_current (snd s)) \<union> set (q_new (snd s))"
proof (induction n arbitrary: proposals s)
  case (Suc n)
  show ?case
  proof (cases "q_new (snd s)")
    case Nil
    then show ?thesis using Suc.prems by (auto split: list.split)
  next
    case (Cons g gs)
    let ?s = "(fst s, RemoveFromNewQueue g (snd s))"
    have ok: "search_ok e s0 ?s" "queue_step (snd s) (snd ?s)"
      using search_ok_queue[of e s0 "fst s" "snd s"] Suc.prems(2) queue_step_RemoveFromNewQueue by auto
    obtain r all' s1 where f: "FindNewGroups e [g] (q_current (snd s)) ?s = Some (r, all', s1)"
      "search_ok e s0 s1" "queue_step (snd ?s) (snd s1)"
      using FindNewGroups_ok(1)[OF q0 le_refl ok(1), where all = "q_current (snd s)" and check = "[g]"] unfolding FindNewGroups_def by metis
    have "length (q_new (snd ?s)) < length (q_new (snd s))"
      using Cons by (simp add: RemoveFromNewQueue_def length_removeAll_less_eq less_Suc_eq_le)
    then have len: "length (q_new (snd s1)) < n" using f(3) Suc.prems(1) by (simp add: queue_step_def)
    have sub: "set (q_current (snd s1)) \<subseteq> set (q_current (snd s))" "set (q_new (snd s1)) \<subseteq> set (q_new (snd s))"
      using f(3) by (auto simp: queue_step_def RemoveFromNewQueue_def)
    define p s2 where "p = (if r = LFG_COMPATIBLES_MATCH then proposals + 1 else proposals)"
      and "s2 = (if r = LFG_COMPATIBLES_MATCH then s1 else (fst s1, AddToCurrentQueue g (snd s1)))"
    have step: "FindGroups_fuel (Suc n) e proposals s = FindGroups_fuel n e p s2"
      using Cons f(1) by (simp add: p_def s2_def)
    have "search_ok e s0 s2" using f(2) by (auto simp: s2_def search_ok_def AddToCurrentQueue_def data_le_def)
    moreover have "length (q_new (snd s2)) < n" using len by (simp add: s2_def AddToCurrentQueue_def)
    moreover have "set (q_current (snd s2)) \<union> set (q_new (snd s2)) \<subseteq> set (q_current (snd s)) \<union> set (q_new (snd s))"
      using sub Cons by (auto simp: s2_def AddToCurrentQueue_def)
    ultimately show ?thesis unfolding step using Suc.IH[where s = s2 and proposals = p] by blast
  qed
qed simp

section \<open>Properties\<close>


text \<open>
  C37: Removing a guid leaves no trace of it: it is in neither queue and has no queue data, no cached
  combination contains it, and no other entry's best combination mentions it. Every combination
  without it stays cached, and every other entry keeps its roles, dungeons and join time.
\<close>
theorem RemoveFromQueue_forgets:
  "g \<notin> set (q_new (RemoveFromQueue g q)) \<and> g \<notin> set (q_current (RemoveFromQueue g q))
   \<and> map_of (q_data (RemoveFromQueue g q)) g = None
   \<and> map_of (q_compat (RemoveFromQueue g q)) (ConcatenateGuids gs) =
       (if g \<in> set gs then None else map_of (q_compat q) (ConcatenateGuids gs))
   \<and> (case map_of (q_data (RemoveFromQueue g q)) h of
        Some d \<Rightarrow> \<not> contains_text (qd_bestCompatible d) (ToHexString g)
          \<and> (\<exists>d0. map_of (q_data q) h = Some d0 \<and> qd_roles d = qd_roles d0 \<and> qd_dungeons d = qd_dungeons d0
               \<and> qd_joinTime d = qd_joinTime d0)
      | None \<Rightarrow> h = g \<or> map_of (q_data q) h = None)"
proof -
  have cm: "map_of (q_compat (RemoveFromQueue g q)) (ConcatenateGuids gs) =
       (if g \<in> set gs then None else map_of (q_compat q) (ConcatenateGuids gs))"
    using map_of_filter_keys[of "\<lambda>k. \<not> contains_text k (ToHexString g)" "q_compat q" "ConcatenateGuids gs"]
    by (simp add: RemoveFromQueue_def Let_def RemoveFromCompatibles_def RemoveFromCurrentQueue_def
        RemoveFromNewQueue_def contains_ConcatenateGuids)
  have "data_le (RemoveFromQueue g q) q" using queue_step_RemoveFromQueue by (simp add: queue_step_def)
  moreover have "map_of (q_data (RemoveFromQueue g q)) h = None \<Longrightarrow> h = g \<or> map_of (q_data q) h = None"
    by (auto simp: data_RemoveFromQueue split: if_splits)
  ultimately show ?thesis
    using cm forgotten_best[of g q h] data_RemoveFromQueue[of g q g]
    by (auto simp: data_le_def RemoveFromQueue_def Let_def RemoveFromCompatibles_def RemoveFromCurrentQueue_def
        RemoveFromNewQueue_def split: option.split)
qed

definition witness_env :: lfg_env where
  "witness_env = \<lparr>en_connected = (\<lambda>_. True), en_inWorld = (\<lambda>_. True), en_groupMembers = (\<lambda>_. None),
     en_groupExists = (\<lambda>_. True), en_isLFGGroup = (\<lambda>_. True), en_ignores = (\<lambda>_ _. False), en_twoSide = False, en_now = 100,
     en_pick = (\<lambda>_ S. Min S), en_coin = (\<lambda>_ _. False)\<rparr>"

definition witness_core :: lfg_core where
  "witness_core = \<lparr>lc_groups = (\<lambda>_. LfgGroupData_new), lc_players = (\<lambda>_. LfgPlayerData_new), lc_proposalId = 0,
     lc_proposals = [], lc_out = []\<rparr>"


fun run_waits :: "u32 list \<Rightarrow> wait_time \<Rightarrow> wait_time option" where
  "run_waits [] w = Some w"
| "run_waits (x # xs) w = Option.bind (update_wait x w) (run_waits xs)"

lemma update_wait_between:
  assumes t: "wt_number w = 0 \<or> (lo \<le> unat (wt_time w) \<and> unat (wt_time w) \<le> hi)"
    and x: "lo \<le> unat x" "unat x \<le> hi" and b: "hi * (unat (wt_number w) + 1) < 2 ^ 32" "unat (wt_number w) + 1 < 2 ^ 32"
  shows "\<exists>w'. update_wait x w = Some w' \<and> unat (wt_number w') = unat (wt_number w) + 1
     \<and> lo \<le> unat (wt_time w') \<and> unat (wt_time w') \<le> hi"
proof -
  let ?n = "unat (wt_number w)" let ?t = "if ?n = 0 then 0 else unat (wt_time w)"
  have n1: "unat (wt_number w + 1) = ?n + 1" using b(2) by (simp add: unat_word_ariths)
  then have nz: "wt_number w + 1 \<noteq> 0" by (metis Suc_eq_plus1 nat.simps(3) unat_0)
  have tn: "?t * ?n \<le> hi * ?n" "lo * ?n \<le> ?t * ?n" using t by (auto simp: unat_eq_zero)
  have sum: "?t * ?n + unat x \<le> hi * (?n + 1)" "lo * (?n + 1) \<le> ?t * ?n + unat x"
    using add_mono[OF tn(1) x(2)] add_mono[OF tn(2) x(1)] by (simp_all only: distrib_left mult_1_right)
  have mul: "unat (wt_time w * wt_number w) = ?t * ?n"
  proof (cases "?n = 0")
    case True
    then have "wt_number w = 0" by (simp add: unat_eq_zero)
    then show ?thesis by simp
  next
    case False
    have "unat (wt_time w) * ?n < 2 ^ 32" 
      using le_less_trans[OF tn(1)] b(1) False by simp
    then show ?thesis using False by (simp add: unat_word_ariths)
  qed
  then have "unat (wt_time w * wt_number w + x) = ?t * ?n + unat x" using sum(1) b(1) by (simp add: unat_word_ariths)
  then have "unat ((wt_time w * wt_number w + x) div (wt_number w + 1)) = (?t * ?n + unat x) div (?n + 1)"
    using n1 by (simp add: unat_div)
  moreover have cancel: "m * (?n + 1) div (?n + 1) = m" for m :: nat
    by (rule nonzero_mult_div_cancel_right) simp
  moreover have "(?t * ?n + unat x) div (?n + 1) \<le> hi"
    using div_le_mono[OF sum(1), of "?n + 1"] by (simp only: cancel)
  moreover have "lo \<le> (?t * ?n + unat x) div (?n + 1)"
    using div_le_mono[OF sum(2), of "?n + 1"] by (simp only: cancel)
  ultimately show ?thesis using nz n1 by (auto simp: update_wait_def Let_def)
qed

lemma run_waits_between:
  assumes "wt_number w = 0 \<or> (lo \<le> unat (wt_time w) \<and> unat (wt_time w) \<le> hi)"
    and "\<forall>x \<in> set xs. lo \<le> unat x \<and> unat x \<le> hi" and "(hi + 1) * (unat (wt_number w) + length xs) < 2 ^ 32"
  shows "\<exists>w'. run_waits xs w = Some w' \<and> unat (wt_number w') = unat (wt_number w) + length xs
     \<and> (xs = [] \<or> (lo \<le> unat (wt_time w') \<and> unat (wt_time w') \<le> hi))"
  using assms
proof (induction xs arbitrary: w)
  case (Cons x xs)
  have b: "hi * (unat (wt_number w) + 1) < 2 ^ 32" "unat (wt_number w) + 1 < 2 ^ 32"
    using Cons.prems(3) by (simp_all add: algebra_simps)
  obtain w1 where w1: "update_wait x w = Some w1" "unat (wt_number w1) = unat (wt_number w) + 1"
    "lo \<le> unat (wt_time w1)" "unat (wt_time w1) \<le> hi"
    using update_wait_between[OF Cons.prems(1) _ _ b, of x] Cons.prems(2) by auto
  obtain w2 where "run_waits xs w1 = Some w2" "unat (wt_number w2) = unat (wt_number w1) + length xs"
    "xs = [] \<or> (lo \<le> unat (wt_time w2) \<and> unat (wt_time w2) \<le> hi)"
    using Cons.IH[of w1] Cons.prems w1 by auto
  then show ?case using w1 by (cases "xs = []") auto
qed simp

text \<open>
  Remark: An average wait time that starts empty and is given times between two bounds stays between them,
  and its number counts the times, as long as the number of times and the upper bound are small enough
  for the 32 bit product (the four updates of the queue are this one on four stores).
\<close>
theorem wait_time_average_between:
  assumes "\<forall>x \<in> set xs. lo \<le> unat x \<and> unat x \<le> hi" "xs \<noteq> []" "(hi + 1) * length xs < 2 ^ 32"
  shows "\<exists>w. run_waits xs LfgWaitTime_new = Some w \<and> unat (wt_number w) = length xs
     \<and> lo \<le> unat (wt_time w) \<and> unat (wt_time w) \<le> hi"
  using run_waits_between[of LfgWaitTime_new lo hi xs] assms by (simp add: LfgWaitTime_new_def)

lemma wait_time_average_between_witness:
  "\<exists>w. run_waits [60, 61, 62] LfgWaitTime_new = Some w \<and> unat (wt_number w) = 3 \<and> 60 \<le> unat (wt_time w) \<and> unat (wt_time w) \<le> 62"
  using wait_time_average_between[of "[60, 61, 62]" 60 62] by (simp del: run_waits.simps add: numeral_3_eq_3)

lemma take_roles_counts:
  "\<forall>x \<in> set r. single_role (snd x) \<Longrightarrow>
     qd_tanks (foldl take_role d r) = qd_tanks d - of_nat (role_count ROLE_TANK r)
     \<and> qd_healers (foldl take_role d r) = qd_healers d - of_nat (role_count ROLE_HEALER r)
     \<and> qd_dps (foldl take_role d r) = qd_dps d - of_nat (role_count ROLE_DAMAGE r)"
proof (induction r arbitrary: d)
  case (Cons x r)
  let ?a = "snd x"
  have f: "?a AND f = (?a AND NOT ROLE_LEADER) AND f" if "f \<in> {ROLE_TANK, ROLE_HEALER}" for f
    using that by (auto simp: role_defs and.assoc)
  have "?a AND NOT ROLE_LEADER \<in> {ROLE_TANK, ROLE_HEALER, ROLE_DAMAGE}"
    using Cons.prems by (simp add: single_role_def Let_def)
  then have "(?a AND ROLE_TANK \<noteq> 0) = (?a AND NOT ROLE_LEADER = ROLE_TANK)"
    "(?a AND ROLE_HEALER \<noteq> 0) = (?a AND NOT ROLE_LEADER = ROLE_HEALER)"
    unfolding f[of ROLE_TANK, simplified] f[of ROLE_HEALER, simplified] by (auto simp: role_defs)
  moreover have "?a AND NOT ROLE_LEADER \<noteq> ROLE_TANK \<Longrightarrow> ?a AND NOT ROLE_LEADER \<noteq> ROLE_HEALER \<Longrightarrow> ?a AND NOT ROLE_LEADER = ROLE_DAMAGE"
    using \<open>?a AND NOT ROLE_LEADER \<in> _\<close> by auto
  moreover have "ROLE_TANK \<noteq> ROLE_HEALER" "ROLE_TANK \<noteq> ROLE_DAMAGE" "ROLE_HEALER \<noteq> ROLE_DAMAGE" by (simp_all add: role_defs)
  ultimately show ?case
    using Cons.IH[of "take_role d x"] Cons.prems
    by (auto simp: take_role_def role_count_Cons)
qed (simp add: role_count_def)

text \<open>
  Remark: When a longer combination with assigned roles becomes an entry's best one, the numbers of tanks,
  healers and damage dealers still needed and the numbers in the combination add up to one, one and
  three; a combination that is not longer changes nothing.
\<close>
theorem UpdateBest_still_needed:
  assumes "fits r" "\<forall>x \<in> set r. single_role (snd x)"
    and "count_keys key > (if qd_bestCompatible d = [] then 0 else count_keys (qd_bestCompatible d))"
  shows "qd_bestCompatible (UpdateBest key r d) = key
     \<and> unat (qd_tanks (UpdateBest key r d)) + role_count ROLE_TANK r = 1
     \<and> unat (qd_healers (UpdateBest key r d)) + role_count ROLE_HEALER r = 1
     \<and> unat (qd_dps (UpdateBest key r d)) + role_count ROLE_DAMAGE r = 3
     \<and> (key \<noteq> [] \<longrightarrow> UpdateBest key s (UpdateBest key r d) = UpdateBest key r d)"
proof -
  let ?d = "d\<lparr>qd_bestCompatible := key, qd_tanks := LFG_TANKS_NEEDED, qd_healers := LFG_HEALERS_NEEDED, qd_dps := LFG_DPS_NEEDED\<rparr>"
  have u: "UpdateBest key r d = foldl take_role ?d r" using assms(3) by (auto simp: UpdateBest_def Let_def)
  have best: "qd_bestCompatible (foldl take_role d r) = qd_bestCompatible d" for d
    by (induction r arbitrary: d) (simp_all add: take_role_def)
  have k: "count_keys [] = 1" by (simp add: count_keys_def)
  have m: "unat (LFG_TANKS_NEEDED - of_nat n) + n = 1" "unat (LFG_DPS_NEEDED - of_nat m) + m = 3"
    if "n \<le> 1" "m \<le> 3" for n m
  proof -
    have "n = 0 \<or> n = 1" "m = 0 \<or> m = 1 \<or> m = 2 \<or> m = 3" using that by auto
    then show "unat (LFG_TANKS_NEEDED - of_nat n) + n = 1" "unat (LFG_DPS_NEEDED - of_nat m) + m = 3"
      by (auto simp: role_defs)
  qed
  have "key \<noteq> [] \<Longrightarrow> UpdateBest key s (UpdateBest key r d) = UpdateBest key r d"
    by (simp add: UpdateBest_def[of key s] u best Let_def)
  moreover have "role_count ROLE_TANK r \<le> 1" "role_count ROLE_HEALER r \<le> 1" "role_count ROLE_DAMAGE r \<le> 3"
    using assms(1) by (simp_all add: fits_def)
  ultimately show ?thesis
    using take_roles_counts[OF assms(2), of ?d] m(1)[of "role_count ROLE_TANK r" 0] m(1)[of "role_count ROLE_HEALER r" 0]
      m(2)[of 0 "role_count ROLE_DAMAGE r"] best[of ?d]
    by (simp add: u LFG_HEALERS_NEEDED_def LFG_TANKS_NEEDED_def)
qed

lemma UpdateBest_still_needed_witness:
  "let d = UpdateBest ''ab'' [(CreatePlayer 1 0 5, 8), (CreatePlayer 1 0 6, 2)] (LfgQueueData_new 0 {} [])
   in unat (qd_tanks d) + role_count ROLE_TANK [(CreatePlayer 1 0 5, 8), (CreatePlayer 1 0 6, 2)] = 1"
proof -
  have "fits [(CreatePlayer 1 0 5, 8), (CreatePlayer 1 0 6, 2)]"
    "\<forall>x \<in> set [(CreatePlayer 1 0 5, 8 :: u8), (CreatePlayer 1 0 6, 2)]. single_role (snd x)"
    by (simp_all add: fits_def role_count_def single_role_def role_defs)
  from UpdateBest_still_needed[OF this, of "LfgQueueData_new 0 {} []" "''ab''"] show ?thesis
    by (simp add: LfgQueueData_new_def count_keys_def Let_def)
qed

end
