(* ===== verification/LfgMgr.thy ===== *)
theory LfgMgr
  imports LfgQueue
begin

text \<open>
  The state machines of the dungeon finder's manager: role checks, proposals, votes to kick, leaving and
  the update of every tick (\<open>src/src/server/game/DungeonFinding/LFGMgr.cpp\<close>). The manager is the stores
  of LfgData and one queue per team. What the finder asks of the rest of the server is the environment,
  what it does outside is an output: packets to players, the kick of a player and the making of the
  group of an accepted proposal (\<open>MakeNewGroup\<close>, which drives groups, players and teleports).
  Undefined behaviour (the first element of an empty set, an iterator to an erased entry) is \<open>None\<close>.
\<close>

unbundle bit_operations_syntax

record lfg_mgr =
  lm_core :: lfg_core
  lm_queues :: "(u8 \<times> lfg_queue) list"
  lm_roleChecks :: "(ObjectGuid \<times> lfg_role_check) list"
  lm_boots :: "(ObjectGuid \<times> lfg_player_boot) list"
  lm_queueTimer :: u32
  lm_options :: u32

definition LFG_OPTION_ENABLE_DUNGEON_FINDER :: u32 where "LFG_OPTION_ENABLE_DUNGEON_FINDER = 0x01"
definition LFG_OPTION_ENABLE_RAID_BROWSER :: u32 where "LFG_OPTION_ENABLE_RAID_BROWSER = 0x02"
definition LFG_TIME_BOOT :: int where "LFG_TIME_BOOT = 120"
definition LFG_QUEUEUPDATE_INTERVAL :: u32 where "LFG_QUEUEUPDATE_INTERVAL = 15 * 1000"
definition LFG_GROUP_KICK_VOTES_NEEDED :: nat where "LFG_GROUP_KICK_VOTES_NEEDED = 3"

definition lm_isOptionEnabled :: "lfg_mgr \<Rightarrow> u32 \<Rightarrow> bool" where
  "lm_isOptionEnabled m option = (lm_options m AND option \<noteq> 0)"

definition lm_SetOptions :: "u32 \<Rightarrow> lfg_mgr \<Rightarrow> lfg_mgr" where
  "lm_SetOptions options m = m\<lparr>lm_options := options\<rparr>"

definition lm_Clean :: "lfg_mgr \<Rightarrow> lfg_mgr" where
  "lm_Clean m = m\<lparr>lm_queues := []\<rparr>"

definition on_core :: "(lfg_core \<Rightarrow> lfg_core) \<Rightarrow> lfg_mgr \<Rightarrow> lfg_mgr" where
  "on_core f m = m\<lparr>lm_core := f (lm_core m)\<rparr>"

text \<open>\<open>QueuesStore[queueId]\<close> creates the queue of a team that has none.\<close>

definition queue_at :: "lfg_mgr \<Rightarrow> u8 \<Rightarrow> lfg_queue" where
  "queue_at m i = (case map_of (lm_queues m) i of Some q \<Rightarrow> q | None \<Rightarrow> LFGQueue_new)"

definition on_queue :: "u8 \<Rightarrow> (lfg_queue \<Rightarrow> lfg_queue) \<Rightarrow> lfg_mgr \<Rightarrow> lfg_mgr" where
  "on_queue i f m = m\<lparr>lm_queues := om_set i (f (queue_at m i)) (lm_queues m)\<rparr>"

definition lm_GetQueue :: "lfg_mgr \<Rightarrow> ObjectGuid \<Rightarrow> u8" where
  "lm_GetQueue m g = GetQueueId (lm_core m) g"

definition lm_SetupGroupMember :: "ObjectGuid \<Rightarrow> ObjectGuid \<Rightarrow> lfg_core \<Rightarrow> lfg_core" where
  "lm_SetupGroupMember g gg c =
     (let c1 = lfg_SetSelectedDungeons g {lfg_GetDungeon c gg True} c;
          c2 = lfg_SetState g (lfg_GetState c1 gg) c1
      in lfg_AddPlayerToGroup gg g (lfg_SetGroup g gg c2))"

section \<open>Role checks\<close>

text \<open>What one answer makes of the check: its roles and its state.\<close>

definition answer_role_check :: "ObjectGuid \<Rightarrow> u8 \<Rightarrow> lfg_role_check \<Rightarrow> lfg_role_check" where
  "answer_role_check guid roles rc =
     (if og_IsEmpty guid then rc\<lparr>rc_state := LFG_ROLECHECK_ABORTED\<rparr>
      else if roles < ROLE_TANK then rc\<lparr>rc_state := LFG_ROLECHECK_NO_ROLE\<rparr>
      else
        let rs = om_set guid roles (rc_roles rc); rc1 = rc\<lparr>rc_roles := rs\<rparr> in
        if list_all (\<lambda>e. snd e \<noteq> ROLE_NONE) rs
        then rc1\<lparr>rc_state := if fst (CheckGroupRoles rs) then LFG_ROLECHECK_FINISHED else LFG_ROLECHECK_WRONG_ROLES\<rparr>
        else rc1)"

definition role_check_member ::
  "lfg_env \<Rightarrow> lfg_role_check \<Rightarrow> bool \<Rightarrow> ObjectGuid \<Rightarrow> u8 \<Rightarrow> u32 set \<Rightarrow> lfg_core \<Rightarrow> ObjectGuid \<times> u8 \<Rightarrow> lfg_core" where
  "role_check_member e rc sendRoleChosen guid roles dungeons c it =
     (let pguid = fst it;
          c1 = (if sendRoleChosen then SendLfgRoleChosen e pguid guid roles c else c);
          c2 = SendLfgRoleCheckUpdate e pguid rc c1
      in case rc_state rc of
           LFG_ROLECHECK_INITIALITING \<Rightarrow> c2
         | LFG_ROLECHECK_FINISHED \<Rightarrow>
             SendLfgUpdateStatus e pguid LFG_UPDATETYPE_ADDED_TO_QUEUE dungeons True
               (lfg_SetRoles pguid (snd it) (lfg_SetState pguid LFG_STATE_QUEUED c2))
         | _ \<Rightarrow>
             (let c3 = lfg_SetState pguid LFG_STATE_NONE c2;
                  c4 = (if rc_leader rc = pguid then SendLfgJoinResult e pguid (rc_state rc) c3 else c3);
                  c5 = SendLfgUpdateStatus e pguid LFG_UPDATETYPE_ROLECHECK_FAILED {} True c4
              in lfg_RestoreState pguid c5))"

definition UpdateRoleCheck :: "lfg_env \<Rightarrow> ObjectGuid \<Rightarrow> ObjectGuid \<Rightarrow> u8 \<Rightarrow> lfg_mgr \<Rightarrow> lfg_mgr" where
  "UpdateRoleCheck e gguid guid roles0 m =
     (if og_IsEmpty gguid then m
      else case map_of (lm_roleChecks m) gguid of
        None \<Rightarrow> m
      | Some rc0 \<Rightarrow>
          let roles = roles0 AND ROLE_ANY in
          if \<not> og_IsEmpty guid \<and> \<not> en_inWorld e guid then m
          else
            let sendRoleChosen = (rc_state rc0 \<noteq> LFG_ROLECHECK_DEFAULT \<and> \<not> og_IsEmpty guid);
                rc = answer_role_check guid roles rc0;
                dungeons = (if rc_rDungeonId rc \<noteq> 0 then {rc_rDungeonId rc} else rc_dungeons rc);
                m1 = on_core (\<lambda>c. foldl (role_check_member e rc sendRoleChosen guid roles dungeons) c (rc_roles rc)) m
            in if rc_state rc = LFG_ROLECHECK_FINISHED then
                 let m2 = on_core (lfg_SetState gguid LFG_STATE_QUEUED) m1;
                     m3 = on_queue (lm_GetQueue m2 gguid)
                            (AddQueueData gguid (en_now e) (rc_dungeons rc) (rc_roles rc) False) m2
                 in m3\<lparr>lm_roleChecks := om_del gguid (lm_roleChecks m3)\<rparr>
               else if rc_state rc \<noteq> LFG_ROLECHECK_INITIALITING then
                 let m2 = on_core (lfg_RestoreState gguid \<circ> lfg_SetState gguid LFG_STATE_NONE) m1
                 in m2\<lparr>lm_roleChecks := om_del gguid (lm_roleChecks m2)\<rparr>
               else m1\<lparr>lm_roleChecks := om_set gguid rc (lm_roleChecks m1)\<rparr>)"

section \<open>Proposals\<close>

definition tdiv :: "int \<Rightarrow> int \<Rightarrow> int" where
  "tdiv a b = sgn a * (\<bar>a\<bar> div b)"

definition deny_pending :: "lfg_update_type \<Rightarrow> lfg_proposal_player \<Rightarrow> lfg_proposal_player" where
  "deny_pending type d = (if type = LFG_UPDATETYPE_PROPOSAL_FAILED \<and> pp_accept d = LFG_ANSWER_PENDING
     then d\<lparr>pp_accept := LFG_ANSWER_DENY\<rparr> else d)"

definition unit_of :: "ObjectGuid \<times> lfg_proposal_player \<Rightarrow> ObjectGuid" where
  "unit_of it = (if \<not> og_IsEmpty (pp_group (snd it)) then pp_group (snd it) else fst it)"

text \<open>The marking loop also turns the answer of a marked player into a refusal.\<close>

definition is_refusal :: "lfg_update_type \<Rightarrow> lfg_proposal_player \<Rightarrow> bool" where
  "is_refusal type d = (pp_accept d \<noteq> LFG_ANSWER_AGREE \<and> (pp_accept d = LFG_ANSWER_DENY \<or> type = LFG_UPDATETYPE_PROPOSAL_FAILED))"

definition mark_refusals :: "lfg_update_type \<Rightarrow> (ObjectGuid \<times> lfg_proposal_player) list
    \<Rightarrow> (ObjectGuid \<times> lfg_proposal_player) list" where
  "mark_refusals type ps = map (\<lambda>it. if is_refusal type (snd it)
     then (fst it, (snd it)\<lparr>pp_accept := LFG_ANSWER_DENY\<rparr>) else it) ps"

definition to_remove :: "lfg_update_type \<Rightarrow> (ObjectGuid \<times> lfg_proposal_player) list \<Rightarrow> ObjectGuid set" where
  "to_remove type ps = set (map unit_of (filter (\<lambda>it. is_refusal type (snd it)) ps))"

definition notify_removed ::
  "lfg_env \<Rightarrow> lfg_proposal \<Rightarrow> lfg_update_type \<Rightarrow> ObjectGuid set \<Rightarrow> lfg_core \<Rightarrow> ObjectGuid \<times> lfg_proposal_player \<Rightarrow> lfg_core" where
  "notify_removed e p type toRemove c it =
     (let guid = fst it; gguid = unit_of it;
          c1 = SendLfgUpdateProposal e guid p c
      in if gguid \<in> toRemove then
           let t = (if pp_accept (snd it) = LFG_ANSWER_DENY then type else LFG_UPDATETYPE_REMOVED_FROM_QUEUE);
               c2 = lfg_RestoreState guid c1
           in if gguid \<noteq> guid
              then SendLfgUpdateStatus e guid t {} True (lfg_RestoreState (pp_group (snd it)) c2)
              else SendLfgUpdateStatus e guid t {} False c2
         else
           let c2 = lfg_SetState guid LFG_STATE_QUEUED c1
           in if gguid \<noteq> guid
              then let c3 = lfg_SetState gguid LFG_STATE_QUEUED c2
                   in SendLfgUpdateStatus e guid LFG_UPDATETYPE_ADDED_TO_QUEUE (lfg_GetSelectedDungeons c3 guid) True c3
              else SendLfgUpdateStatus e guid LFG_UPDATETYPE_ADDED_TO_QUEUE (lfg_GetSelectedDungeons c2 guid) False c2)"

text \<open>The proposal \<open>p\<close> with the number \<open>i\<close>; the entry of the store is erased at the end.\<close>

definition RemoveProposal :: "lfg_env \<Rightarrow> u32 \<Rightarrow> lfg_proposal \<Rightarrow> lfg_update_type \<Rightarrow> lfg_mgr \<Rightarrow> lfg_mgr option" where
  "RemoveProposal e i p0 type m =
     (let ps1 = map (\<lambda>it. (fst it, deny_pending type (snd it))) (pr_players p0);
          toRemove = to_remove type ps1;
          p = p0\<lparr>pr_state := LFG_PROPOSAL_FAILED, pr_players := mark_refusals type ps1\<rparr>;
          m1 = on_core (\<lambda>c. foldl (notify_removed e p type toRemove) c (pr_players p)) m
      in case pr_players p of [] \<Rightarrow> None
         | first # _ \<Rightarrow>
             let qi = lm_GetQueue m1 (fst first);
                 gone = sorted_list_of_set toRemove;
                 m2 = on_queue qi (\<lambda>q. foldl (\<lambda>q g. RemoveFromQueue g q) q gone) m1;
                 rest = filter (\<lambda>g. g \<notin> toRemove) (pr_queues p);
                 m3 = on_queue qi (\<lambda>q. foldl (\<lambda>q g. AddToQueue g True q) q rest) m2
             in Some (on_core (\<lambda>c. c\<lparr>lc_proposals := om_del i (lc_proposals c)\<rparr>) m3))"

record accept_state =
  as_type :: lfg_update_type
  as_mgr :: lfg_mgr

text \<open>
  One player of an accepted proposal. The type of the update is a variable outside the loop: it is
  \<open>GROUP_FOUND\<close> for the first player only. The elapsed seconds are divided by a thousand.
\<close>

definition accept_player ::
  "lfg_env \<Rightarrow> lfg_proposal \<Rightarrow> bool \<Rightarrow> u8 \<Rightarrow> accept_state \<Rightarrow> ObjectGuid \<times> lfg_proposal_player \<Rightarrow> accept_state option" where
  "accept_player e p sendUpdate qi st it =
     (let pguid = fst it; gguid = pp_group (snd it); m = as_mgr st;
          selected = lfg_GetSelectedDungeons (lm_core m) pguid
      in if selected = {} then None
         else
           let dungeonId = Min selected;
               m1 = (if sendUpdate then on_core (SendLfgUpdateProposal e pguid p) m else m);
               joined = GetJoinTime (queue_at m1 qi) (if \<not> og_IsEmpty gguid then gguid else pguid);
               waitTime = word_of_int (tdiv (en_now e - joined) 1000) :: u32;
               m2 = on_core (SendLfgUpdateStatus e pguid (as_type st) {} False) m1;
               m3 = on_core (SendLfgUpdateStatus e pguid LFG_UPDATETYPE_REMOVED_FROM_QUEUE {} True) m2;
               m4 = on_core (SendLfgUpdateStatus e pguid LFG_UPDATETYPE_REMOVED_FROM_QUEUE {} False) m3;
               role = lfg_GetRoles (lm_core m4) pguid AND NOT ROLE_LEADER;
               upd = (if role = ROLE_DAMAGE then UpdateWaitTimeDps waitTime dungeonId
                      else if role = ROLE_HEALER then UpdateWaitTimeHealer waitTime dungeonId
                      else if role = ROLE_TANK then UpdateWaitTimeTank waitTime dungeonId
                      else UpdateWaitTimeAvg waitTime dungeonId)
           in map_option (\<lambda>q.
                let m5 = on_queue qi (\<lambda>_. q) m4;
                    m6 = (case (if en_connected e pguid then en_groupMembers e pguid else None) of
                            None \<Rightarrow> m5
                          | Some n \<Rightarrow> on_core (upd_player pguid (pd_SetNumberOfPartyMembersAtJoin n)) m5)
                in \<lparr>as_type = LFG_UPDATETYPE_REMOVED_FROM_QUEUE,
                    as_mgr = on_core (lfg_SetState pguid LFG_STATE_DUNGEON) m6\<rparr>)
              (upd (queue_at m4 qi)))"

fun accept_players ::
  "lfg_env \<Rightarrow> lfg_proposal \<Rightarrow> bool \<Rightarrow> u8 \<Rightarrow> accept_state \<Rightarrow> (ObjectGuid \<times> lfg_proposal_player) list \<Rightarrow> accept_state option" where
  "accept_players e p snd_upd qi st [] = Some st"
| "accept_players e p snd_upd qi st (it # its) =
     Option.bind (accept_player e p snd_upd qi st it) (\<lambda>st'. accept_players e p snd_upd qi st' its)"

definition store_proposal :: "u32 \<Rightarrow> lfg_proposal \<Rightarrow> lfg_mgr \<Rightarrow> lfg_mgr" where
  "store_proposal i p = on_core (\<lambda>c. c\<lparr>lc_proposals := om_set i p (lc_proposals c)\<rparr>)"

definition UpdateProposal :: "lfg_env \<Rightarrow> u32 \<Rightarrow> ObjectGuid \<Rightarrow> bool \<Rightarrow> lfg_mgr \<Rightarrow> lfg_mgr option" where
  "UpdateProposal e i guid accept m =
     (case map_of (lc_proposals (lm_core m)) i of
        None \<Rightarrow> Some m
      | Some p0 \<Rightarrow>
          (case map_of (pr_players p0) guid of
             None \<Rightarrow> Some m
           | Some d \<Rightarrow>
               let ans = (if accept then LFG_ANSWER_AGREE else LFG_ANSWER_DENY);
                   p = p0\<lparr>pr_players := om_upd (pp_accept_update (\<lambda>_. ans)) guid (pr_players p0)\<rparr>;
                   m1 = store_proposal i p m
               in if \<not> accept then RemoveProposal e i p LFG_UPDATETYPE_PROPOSAL_DECLINED m1
                  else if \<not> list_all (\<lambda>it. pp_accept (snd it) = LFG_ANSWER_AGREE) (pr_players p) then
                    Some (on_core (\<lambda>c. foldl (\<lambda>c it. SendLfgUpdateProposal e (fst it) p c) c (pr_players p)) m1)
                  else
                    let sendUpdate = (pr_state p \<noteq> LFG_PROPOSAL_SUCCESS);
                        p' = p\<lparr>pr_state := LFG_PROPOSAL_SUCCESS\<rparr>;
                        m2 = store_proposal i p' m1;
                        qi = lm_GetQueue m2 guid
                    in Option.bind (accept_players e p' sendUpdate qi \<lparr>as_type = LFG_UPDATETYPE_GROUP_FOUND, as_mgr = m2\<rparr> (pr_players p'))
                         (\<lambda>st.
                           let m3 = on_queue qi (\<lambda>q. foldl (\<lambda>q g. RemoveFromQueue g q) q (pr_queues p')) (as_mgr st);
                               m4 = on_core (\<lambda>c. c\<lparr>lc_out := lc_out c @ [MakeNewGroup p']\<rparr>) m3
                           in Some (on_core (\<lambda>c. c\<lparr>lc_proposals := om_del i (lc_proposals c)\<rparr>) m4))))"

section \<open>Votes to kick\<close>

definition InitBoot :: "lfg_env \<Rightarrow> ObjectGuid \<Rightarrow> ObjectGuid \<Rightarrow> ObjectGuid \<Rightarrow> string \<Rightarrow> lfg_mgr \<Rightarrow> lfg_mgr option" where
  "InitBoot e gguid kicker victim reason m =
     (case lfg_SetVoteKick gguid True (lm_core m) of
        None \<Rightarrow> None
      | Some c \<Rightarrow>
          let old = (case map_of (lm_boots m) gguid of Some b \<Rightarrow> bt_votes b | None \<Rightarrow> []);
              players = sorted_list_of_set (lfg_GetPlayers c gguid);
              votes = om_set kicker LFG_ANSWER_AGREE (om_set victim LFG_ANSWER_DENY
                        (foldl (\<lambda>v g. om_set g LFG_ANSWER_PENDING v) old players));
              boot = \<lparr>bt_cancelTime = en_now e + LFG_TIME_BOOT, bt_inProgress = True, bt_votes = votes,
                      bt_victim = victim, bt_reason = reason\<rparr>;
              c1 = foldl (\<lambda>c g. SendLfgBootProposalUpdate e g boot c) c players
          in Some (m\<lparr>lm_core := c1, lm_boots := om_set gguid boot (lm_boots m)\<rparr>))"

text \<open>\<open>boot.votes[guid]\<close> creates the vote of a player who has none, and its value is 0: a refusal.\<close>

definition vote_of :: "lfg_player_boot \<Rightarrow> ObjectGuid \<Rightarrow> lfg_answer" where
  "vote_of b g = (case map_of (bt_votes b) g of Some a \<Rightarrow> a | None \<Rightarrow> LFG_ANSWER_DENY)"

definition count_votes :: "lfg_answer \<Rightarrow> lfg_player_boot \<Rightarrow> nat" where
  "count_votes a b = length (filter (\<lambda>v. snd v = a) (bt_votes b))"

definition UpdateBoot :: "lfg_env \<Rightarrow> ObjectGuid \<Rightarrow> bool \<Rightarrow> lfg_mgr \<Rightarrow> lfg_mgr option" where
  "UpdateBoot e guid accept m =
     (let gguid = lfg_GetGroup (lm_core m) guid in
      if og_IsEmpty gguid then Some m
      else case map_of (lm_boots m) gguid of
        None \<Rightarrow> Some m
      | Some b0 \<Rightarrow>
          if vote_of b0 guid \<noteq> LFG_ANSWER_PENDING then
            Some (m\<lparr>lm_boots := om_set gguid (b0\<lparr>bt_votes := om_set guid (vote_of b0 guid) (bt_votes b0)\<rparr>) (lm_boots m)\<rparr>)
          else
            let b = b0\<lparr>bt_votes := om_set guid (if accept then LFG_ANSWER_AGREE else LFG_ANSWER_DENY) (bt_votes b0)\<rparr>;
                agreeNum = unat (of_nat (count_votes LFG_ANSWER_AGREE b) :: u8);
                denyNum = unat (of_nat (count_votes LFG_ANSWER_DENY b) :: u8)
            in if agreeNum < LFG_GROUP_KICK_VOTES_NEEDED
                  \<and> length (bt_votes b) - denyNum \<ge> LFG_GROUP_KICK_VOTES_NEEDED
               then Some (m\<lparr>lm_boots := om_set gguid b (lm_boots m)\<rparr>)
               else
                 let b' = b\<lparr>bt_inProgress := False\<rparr>;
                     c1 = foldl (\<lambda>c v. if fst v \<noteq> bt_victim b' then SendLfgBootProposalUpdate e (fst v) b' c else c)
                            (lm_core m) (bt_votes b')
                 in case lfg_SetVoteKick gguid False c1 of
                      None \<Rightarrow> None
                    | Some c2 \<Rightarrow>
                        let c3 = (if agreeNum = LFG_GROUP_KICK_VOTES_NEEDED then
                                    lfg_DecreaseKicksLeft gguid
                                      (if en_groupExists e gguid
                                       then c2\<lparr>lc_out := lc_out c2 @ [KickFromGroup gguid (bt_victim b')]\<rparr> else c2)
                                  else c2)
                        in Some (m\<lparr>lm_core := c3, lm_boots := om_del gguid (lm_boots m)\<rparr>))"

section \<open>Leaving\<close>

definition play_denied :: "lfg_env \<Rightarrow> ObjectGuid \<Rightarrow> lfg_core \<Rightarrow> lfg_core" where
  "play_denied e g c = (if en_inWorld e g then c\<lparr>lc_out := lc_out c @ [PlayDirectSound g]\<rparr> else c)"

definition leave_queued_member :: "lfg_env \<Rightarrow> lfg_state \<Rightarrow> lfg_core \<Rightarrow> ObjectGuid \<Rightarrow> lfg_core" where
  "leave_queued_member e newState c g =
     play_denied e g (SendLfgUpdateStatus e g LFG_UPDATETYPE_REMOVED_FROM_QUEUE {} True (lfg_SetState g newState c))"

definition wipe_member :: "lfg_env \<Rightarrow> lfg_core \<Rightarrow> ObjectGuid \<Rightarrow> lfg_core" where
  "wipe_member e c g =
     SendLfgUpdateStatus e g LFG_UPDATETYPE_REMOVED_FROM_QUEUE {} False (lfg_SetState g LFG_STATE_NONE c)"

fun find_proposal :: "ObjectGuid \<Rightarrow> (u32 \<times> lfg_proposal) list \<Rightarrow> (u32 \<times> lfg_proposal) option" where
  "find_proposal g [] = None"
| "find_proposal g ((i, p) # ps) = (if map_of (pr_players p) g \<noteq> None then Some (i, p) else find_proposal g ps)"

definition LeaveLfg :: "lfg_env \<Rightarrow> ObjectGuid \<Rightarrow> bool \<Rightarrow> lfg_mgr \<Rightarrow> lfg_mgr option" where
  "LeaveLfg e guid disconnected m =
     (let c = lm_core m; gguid = (if IsParty guid then guid else lfg_GetGroup c guid) in
      case lfg_GetState c guid of
        LFG_STATE_QUEUED \<Rightarrow>
          if \<not> og_IsEmpty gguid then
            let oldState = lfg_GetOldState c gguid;
                newState = (if en_isLFGGroup e gguid \<and> lfg_GetDungeon c gguid True \<noteq> 0
                              \<and> (oldState = LFG_STATE_DUNGEON \<or> oldState = LFG_STATE_FINISHED_DUNGEON)
                            then oldState else LFG_STATE_NONE);
                m1 = on_queue (lm_GetQueue m gguid) (RemoveFromQueue gguid) m;
                m2 = on_core (lfg_SetState gguid newState) m1;
                players = sorted_list_of_set (lfg_GetPlayers (lm_core m2) gguid)
            in Some (on_core (\<lambda>c. foldl (leave_queued_member e newState) c players) m2)
          else
            let m1 = on_queue (lm_GetQueue m guid) (RemoveFromQueue guid) m;
                m2 = on_core (SendLfgUpdateStatus e guid LFG_UPDATETYPE_REMOVED_FROM_QUEUE {} False) m1
            in Some (on_core (play_denied e guid \<circ> lfg_SetState guid LFG_STATE_NONE) m2)
      | LFG_STATE_ROLECHECK \<Rightarrow>
          if \<not> og_IsEmpty gguid then
            let m1 = on_core (SendLfgUpdateStatus e guid LFG_UPDATETYPE_REMOVED_FROM_QUEUE {} False
                       \<circ> lfg_SetState guid LFG_STATE_NONE \<circ> lfg_SetState gguid LFG_STATE_NONE) m
            in Some (UpdateRoleCheck e gguid og_Empty ROLE_NONE m1)
          else Some m
      | LFG_STATE_PROPOSAL \<Rightarrow>
          (let pguid = (if gguid = guid then lfg_GetLeader c gguid else guid) in
           case find_proposal pguid (lc_proposals c) of
             None \<Rightarrow> Some m
           | Some (i, p) \<Rightarrow>
               RemoveProposal e i (p\<lparr>pr_players := om_upd (pp_accept_update (\<lambda>_. LFG_ANSWER_DENY)) pguid (pr_players p)\<rparr>)
                 LFG_UPDATETYPE_PROPOSAL_DECLINED m)
      | LFG_STATE_NONE \<Rightarrow> Some (on_core (\<lambda>c. wipe_member e c guid) m)
      | LFG_STATE_RAIDBROWSER \<Rightarrow> Some (on_core (\<lambda>c. wipe_member e c guid) m)
      | _ \<Rightarrow>
          if guid \<noteq> gguid \<and> \<not> disconnected then Some (on_core (\<lambda>c. wipe_member e c guid) m)
          else if guid = gguid then
            let m1 = on_core (lfg_SetState gguid LFG_STATE_NONE) m;
                players = sorted_list_of_set (lfg_GetPlayers (lm_core m1) gguid)
            in Some (on_core (\<lambda>c. foldl (wipe_member e) c players) m1)
          else Some m)"

section \<open>The update of a tick\<close>

definition expire_role_check_member :: "lfg_env \<Rightarrow> lfg_role_check \<Rightarrow> lfg_core \<Rightarrow> ObjectGuid \<times> u8 \<Rightarrow> lfg_core" where
  "expire_role_check_member e rc c it =
     (let c1 = SendLfgRoleCheckUpdate e (fst it) rc (lfg_RestoreState (fst it) c)
      in if fst it = rc_leader rc then SendLfgJoinResult e (fst it) LFG_ROLECHECK_MISSING_ROLE c1 else c1)"

definition expire_role_check :: "lfg_env \<Rightarrow> int \<Rightarrow> lfg_mgr \<Rightarrow> ObjectGuid \<times> lfg_role_check \<Rightarrow> lfg_mgr" where
  "expire_role_check e currTime m x =
     (if currTime < rc_cancelTime (snd x) then m
      else
        let rc = (snd x)\<lparr>rc_state := LFG_ROLECHECK_MISSING_ROLE\<rparr>;
            m1 = on_core (\<lambda>c. lfg_RestoreState (fst x) (foldl (expire_role_check_member e rc) c (rc_roles rc))) m
        in m1\<lparr>lm_roleChecks := om_del (fst x) (lm_roleChecks m1)\<rparr>)"

fun expire_proposals :: "lfg_env \<Rightarrow> int \<Rightarrow> (u32 \<times> lfg_proposal) list \<Rightarrow> lfg_mgr \<Rightarrow> lfg_mgr option" where
  "expire_proposals e currTime [] m = Some m"
| "expire_proposals e currTime ((i, p) # ps) m =
     (if pr_cancelTime p < currTime
      then Option.bind (RemoveProposal e i p LFG_UPDATETYPE_PROPOSAL_FAILED m) (expire_proposals e currTime ps)
      else expire_proposals e currTime ps m)"

fun expire_boots :: "lfg_env \<Rightarrow> int \<Rightarrow> (ObjectGuid \<times> lfg_player_boot) list \<Rightarrow> lfg_mgr \<Rightarrow> lfg_mgr option" where
  "expire_boots e currTime [] m = Some m"
| "expire_boots e currTime ((g, b) # bs) m =
     (if bt_cancelTime b < currTime then
        let b' = b\<lparr>bt_inProgress := False\<rparr>;
            c1 = foldl (\<lambda>c v. if fst v \<noteq> bt_victim b' then SendLfgBootProposalUpdate e (fst v) b' c else c)
                   (lm_core m) (bt_votes b')
        in (case lfg_SetVoteKick g False c1 of
              None \<Rightarrow> None
            | Some c2 \<Rightarrow> expire_boots e currTime bs (m\<lparr>lm_core := c2, lm_boots := om_del g (lm_boots m)\<rparr>))
      else expire_boots e currTime bs m)"

fun search_queues :: "lfg_env \<Rightarrow> u8 list \<Rightarrow> lfg_mgr \<Rightarrow> lfg_mgr option" where
  "search_queues e [] m = Some m"
| "search_queues e (i # is) m =
     (case FindGroups e (lm_core m, queue_at m i) of
        None \<Rightarrow> None
      | Some (_, c, q) \<Rightarrow> search_queues e is (on_queue i (\<lambda>_. q) (m\<lparr>lm_core := c\<rparr>)))"

definition announce_player :: "lfg_env \<Rightarrow> lfg_proposal \<Rightarrow> lfg_core \<Rightarrow> ObjectGuid \<Rightarrow> lfg_core" where
  "announce_player e p c guid =
     (let c1 = lfg_SetState guid LFG_STATE_PROPOSAL c;
          gguid = lfg_GetGroup c1 guid;
          c2 = (if \<not> og_IsEmpty gguid
                then let c' = lfg_SetState gguid LFG_STATE_PROPOSAL c1
                     in SendLfgUpdateStatus e guid LFG_UPDATETYPE_PROPOSAL_BEGIN (lfg_GetSelectedDungeons c' guid) True c'
                else SendLfgUpdateStatus e guid LFG_UPDATETYPE_PROPOSAL_BEGIN (lfg_GetSelectedDungeons c1 guid) False c1)
      in SendLfgUpdateProposal e guid p c2)"

text \<open>
  The loop over the new proposals starts at the newest one. A proposal that already succeeded is
  updated; if that erases it the iterator is lost (\<open>None\<close>).
\<close>

fun announce_proposals :: "lfg_env \<Rightarrow> (u32 \<times> lfg_proposal) list \<Rightarrow> lfg_mgr \<Rightarrow> lfg_mgr option" where
  "announce_proposals e [] m = Some m"
| "announce_proposals e ((i, p) # ps) m =
     (let m1 = on_core (\<lambda>c. foldl (announce_player e p) c (map fst (pr_players p))) m in
      if pr_state p = LFG_PROPOSAL_SUCCESS then
        (case UpdateProposal e i (last (og_Empty # map fst (pr_players p))) True m1 of
           None \<Rightarrow> None
         | Some m2 \<Rightarrow> if map_of (lc_proposals (lm_core m2)) i = None then None else announce_proposals e ps m2)
      else announce_proposals e ps m1)"

fun update_queue_timers :: "lfg_env \<Rightarrow> int \<Rightarrow> u8 list \<Rightarrow> lfg_mgr \<Rightarrow> lfg_mgr option" where
  "update_queue_timers e currTime [] m = Some m"
| "update_queue_timers e currTime (i # is) m =
     (case UpdateQueueTimers e i currTime (lm_core m, queue_at m i) of
        None \<Rightarrow> None
      | Some (c, q) \<Rightarrow> update_queue_timers e currTime is (on_queue i (\<lambda>_. q) (m\<lparr>lm_core := c\<rparr>)))"

definition lm_Update :: "lfg_env \<Rightarrow> u32 \<Rightarrow> lfg_mgr \<Rightarrow> lfg_mgr option" where
  "lm_Update e diff m =
     (if \<not> lm_isOptionEnabled m (LFG_OPTION_ENABLE_DUNGEON_FINDER OR LFG_OPTION_ENABLE_RAID_BROWSER) then Some m
      else
        let currTime = en_now e;
            m1 = foldl (expire_role_check e currTime) m (lm_roleChecks m)
        in Option.bind (expire_proposals e currTime (lc_proposals (lm_core m1)) m1) (\<lambda>m2.
           Option.bind (expire_boots e currTime (lm_boots m2) m2) (\<lambda>m3.
           let lastProposalId = lc_proposalId (lm_core m3) in
           Option.bind (search_queues e (map fst (lm_queues m3)) m3) (\<lambda>m4.
           Option.bind (if lastProposalId \<noteq> lc_proposalId (lm_core m4)
                        then announce_proposals e (dropWhile (\<lambda>x. fst x \<noteq> lc_proposalId (lm_core m4)) (lc_proposals (lm_core m4))) m4
                        else Some m4) (\<lambda>m5.
           if lm_queueTimer m5 > LFG_QUEUEUPDATE_INTERVAL
           then update_queue_timers e currTime (map fst (lm_queues m5)) (m5\<lparr>lm_queueTimer := 0\<rparr>)
           else Some (m5\<lparr>lm_queueTimer := lm_queueTimer m5 + diff\<rparr>))))))"

section \<open>What the accessors keep\<close>

lemma send_to_stores [simp]:
  "lc_groups (send_to e g m c) = lc_groups c" "lc_players (send_to e g m c) = lc_players c"
  "lc_proposals (send_to e g m c) = lc_proposals c" "lc_proposalId (send_to e g m c) = lc_proposalId c"
  by (simp_all add: send_to_def)

lemmas send_defs = SendLfgRoleChosen_def SendLfgRoleCheckUpdate_def SendLfgUpdateStatus_def SendLfgJoinResult_def
  SendLfgBootProposalUpdate_def SendLfgUpdateProposal_def

lemma on_core_simps [simp]:
  "lm_core (on_core f m) = f (lm_core m)" "lm_queues (on_core f m) = lm_queues m"
  "lm_roleChecks (on_core f m) = lm_roleChecks m" "lm_boots (on_core f m) = lm_boots m"
  "lm_queueTimer (on_core f m) = lm_queueTimer m" "lm_options (on_core f m) = lm_options m"
  by (simp_all add: on_core_def)

lemma on_queue_simps [simp]:
  "lm_core (on_queue i f m) = lm_core m" "lm_roleChecks (on_queue i f m) = lm_roleChecks m"
  "lm_boots (on_queue i f m) = lm_boots m"
  by (simp_all add: on_queue_def)

lemma queue_at_on_core [simp]: "queue_at (on_core f m) i = queue_at m i"
  by (simp add: queue_at_def)

definition queues_ok :: "lfg_mgr \<Rightarrow> bool" where
  "queues_ok m = keys_strict (lm_queues m)"

lemma queue_at_on_queue: "queues_ok m \<Longrightarrow> queue_at (on_queue i f m) j = (if j = i then f (queue_at m i) else queue_at m j)"
  by (simp add: queue_at_def on_queue_def queues_ok_def map_of_om_set)

lemma queues_ok_step [simp]: "queues_ok m \<Longrightarrow> queues_ok (on_queue i f m)" "queues_ok (on_core h m) = queues_ok m"
  by (simp_all add: queues_ok_def on_queue_def keys_strict_om_set)

lemma upd_simps [simp]:
  "lc_groups (upd_group g f c) = (lc_groups c)(g := f (lc_groups c g))" "lc_players (upd_group g f c) = lc_players c"
  "lc_players (upd_player g h c) = (lc_players c)(g := h (lc_players c g))" "lc_groups (upd_player g h c) = lc_groups c"
  by (simp_all add: upd_group_def upd_player_def)

text \<open>Which queue a guid belongs to does not depend on states.\<close>

definition same_teams :: "lfg_core \<Rightarrow> lfg_core \<Rightarrow> bool" where
  "same_teams c c' = ((\<forall>g. gd_Players (lc_groups c' g) = gd_Players (lc_groups c g))
     \<and> (\<forall>g. pd_Team (lc_players c' g) = pd_Team (lc_players c g)))"

lemma same_teams_refl: "same_teams c c" and same_teams_trans: "\<lbrakk>same_teams a b; same_teams b c\<rbrakk> \<Longrightarrow> same_teams a c"
  by (simp_all add: same_teams_def)

lemma same_teams_queue: "same_teams c c' \<Longrightarrow> GetQueueId c' g = GetQueueId c g"
  by (simp add: same_teams_def GetQueueId_def lfg_GetPlayers_def lfg_GetTeam_def Let_def)

lemma gd_SetState_keeps [simp]: "gd_Players (gd_SetState s d) = gd_Players d" "gd_Players (gd_RestoreState d) = gd_Players d"
  and pd_SetState_keeps [simp]: "pd_Team (pd_SetState s p) = pd_Team p" "pd_Team (pd_RestoreState p) = pd_Team p"
    "pd_Group (pd_SetState s p) = pd_Group p" "pd_Group (pd_RestoreState p) = pd_Group p"
  by (cases s; simp add: gd_SetState_def gd_RestoreState_def pd_SetState_def pd_RestoreState_def Let_def)+

lemma same_teams_SetState: "same_teams c (lfg_SetState g s c)" and same_teams_RestoreState: "same_teams c (lfg_RestoreState g c)"
  and same_teams_send: "same_teams c (send_to e g m c)" and same_teams_SetRoles: "same_teams c (lfg_SetRoles g r c)"
  by (simp_all add: same_teams_def lfg_SetState_def lfg_RestoreState_def lfg_SetRoles_def pd_SetRoles_def)

lemma same_teams_foldl: "(\<And>c x. same_teams c (f c x)) \<Longrightarrow> same_teams c (foldl f c xs)"
  by (induction xs arbitrary: c) (auto intro: same_teams_refl same_teams_trans)

lemma GetState_SetState: "lfg_GetState (lfg_SetState g s c) h = (if h = g then s else lfg_GetState c h)"
  by (cases s) (auto simp: lfg_GetState_def lfg_SetState_def gd_SetState_def pd_SetState_def)

lemma GetState_RestoreState: "lfg_GetState (lfg_RestoreState g c) h = (if h = g then lfg_GetOldState c g else lfg_GetState c h)"
  by (auto simp: lfg_GetState_def lfg_RestoreState_def lfg_GetOldState_def gd_RestoreState_def pd_RestoreState_def Let_def)

lemma GetOldState_RestoreState: "lfg_GetOldState (lfg_RestoreState g c) h = lfg_GetOldState c h"
  by (auto simp: lfg_RestoreState_def lfg_GetOldState_def gd_RestoreState_def pd_RestoreState_def Let_def)

lemma GetOldState_SetState:
  "lfg_GetOldState (lfg_SetState g s c) h = (if h = g \<and> stable_state s then s else lfg_GetOldState c h)"
  by (cases s) (auto simp: lfg_GetOldState_def lfg_SetState_def gd_SetState_def pd_SetState_def stable_state_def)

lemma GetState_send [simp]: "lfg_GetState (send_to e g m c) h = lfg_GetState c h" "lfg_GetOldState (send_to e g m c) h = lfg_GetOldState c h"
  by (simp_all add: lfg_GetState_def lfg_GetOldState_def)

lemma GetState_SetRoles [simp]: "lfg_GetState (lfg_SetRoles g r c) h = lfg_GetState c h" "lfg_GetOldState (lfg_SetRoles g r c) h = lfg_GetOldState c h"
  by (simp_all add: lfg_GetState_def lfg_GetOldState_def lfg_SetRoles_def pd_SetRoles_def)

lemmas state_rules = GetState_SetState GetState_RestoreState GetOldState_SetState GetOldState_RestoreState send_defs

section \<open>Votes\<close>

lemma vote_total: "length (bt_votes b) = count_votes LFG_ANSWER_PENDING b + count_votes LFG_ANSWER_DENY b + count_votes LFG_ANSWER_AGREE b"
proof -
  have "length xs = length (filter (\<lambda>v. snd v = LFG_ANSWER_PENDING) xs) + length (filter (\<lambda>v. snd v = LFG_ANSWER_DENY) xs)
      + length (filter (\<lambda>v. snd v = LFG_ANSWER_AGREE) xs)" for xs :: "(ObjectGuid \<times> lfg_answer) list"
  proof (induction xs)
    case (Cons x xs)
    then show ?case by (cases "snd x") simp_all
  qed simp
  then show ?thesis unfolding count_votes_def .
qed

text \<open>The boot with the answer of a player.\<close>

definition voted :: "ObjectGuid \<Rightarrow> bool \<Rightarrow> lfg_player_boot \<Rightarrow> lfg_player_boot" where
  "voted g accept b = b\<lparr>bt_votes := om_set g (if accept then LFG_ANSWER_AGREE else LFG_ANSWER_DENY) (bt_votes b)\<rparr>"

lemma send_boots_stores:
  "lc_groups (foldl (\<lambda>c v. if P v then SendLfgBootProposalUpdate e (fst v) b c else c) c vs) = lc_groups c"
  "lc_players (foldl (\<lambda>c v. if P v then SendLfgBootProposalUpdate e (fst v) b c else c) c vs) = lc_players c"
  by (induction vs arbitrary: c) (simp_all add: send_defs)

lemma send_boots_no_kick:
  "KickFromGroup g v \<in> set (lc_out (foldl (\<lambda>c x. if P x then SendLfgBootProposalUpdate e (fst x) b c else c) c vs))
     = (KickFromGroup g v \<in> set (lc_out c))"
  by (induction vs arbitrary: c) (auto simp: send_defs send_to_def)

section \<open>Properties\<close>


definition witness_boot :: lfg_mgr where
  "witness_boot =
     (let gg = CreateGlobal HG_Party 0 9; p = CreatePlayer 1 0 in
      \<lparr>lm_core = witness_core\<lparr>lc_players := (lc_players witness_core)(p 7 := LfgPlayerData_new\<lparr>pd_Group := gg\<rparr>)\<rparr>,
       lm_queues = [], lm_roleChecks = [],
       lm_boots = [(gg, \<lparr>bt_cancelTime = 200, bt_inProgress = True,
          bt_votes = [(p 5, LFG_ANSWER_AGREE), (p 6, LFG_ANSWER_AGREE), (p 7, LFG_ANSWER_PENDING), (p 8, LFG_ANSWER_DENY)],
          bt_victim = p 8, bt_reason = []\<rparr>)], lm_queueTimer = 0, lm_options = 1\<rparr>)"


section \<open>Role checks\<close>

lemma map_of_om_set_same: "map_of (om_set k v xs) k = Some v"
proof (induction xs)
  case (Cons x xs)
  then show ?case by (cases x) auto
qed simp

lemma GetRoles_simps [simp]:
  "lfg_GetRoles (send_to e g m c) h = lfg_GetRoles c h"
  "lfg_GetRoles (lfg_SetRoles g r c) h = (if h = g then r else lfg_GetRoles c h)"
  "lfg_GetRoles (lfg_SetState g LFG_STATE_QUEUED c) h = lfg_GetRoles c h"
  by (simp_all add: lfg_GetRoles_def lfg_SetRoles_def pd_SetRoles_def lfg_SetState_def pd_SetState_def)

lemma finished_members:
  assumes "rc_state rc = LFG_ROLECHECK_FINISHED" "distinct (map fst rs)"
  shows "lfg_GetState (foldl (role_check_member e rc sc guid roles ds) c rs) h
      = (if h \<in> fst ` set rs then LFG_STATE_QUEUED else lfg_GetState c h)
    \<and> (\<forall>x \<in> set rs. lfg_GetRoles (foldl (role_check_member e rc sc guid roles ds) c rs) (fst x) = snd x)
    \<and> (h \<notin> fst ` set rs \<longrightarrow> lfg_GetRoles (foldl (role_check_member e rc sc guid roles ds) c rs) h = lfg_GetRoles c h)
    \<and> same_teams c (foldl (role_check_member e rc sc guid roles ds) c rs)"
  using assms(2)
proof (induction rs arbitrary: c h)
  case Nil
  then show ?case by (simp add: same_teams_refl)
next
  case (Cons x rs)
  let ?c = "role_check_member e rc sc guid roles ds c x"
  have st: "lfg_GetState ?c k = (if k = fst x then LFG_STATE_QUEUED else lfg_GetState c k)" for k
    using assms(1) by (simp add: role_check_member_def Let_def state_rules)
  have rl: "lfg_GetRoles ?c k = (if k = fst x then snd x else lfg_GetRoles c k)" for k
    using assms(1) by (simp add: role_check_member_def Let_def send_defs)
  have tm: "same_teams c ?c"
    using assms(1) by (simp add: role_check_member_def Let_def send_defs same_teams_def lfg_SetRoles_def pd_SetRoles_def lfg_SetState_def)
  show ?case using Cons.IH[of ?c h] Cons.IH[of ?c "fst x"] Cons.prems st rl same_teams_trans[OF tm] by auto
qed

lemma failed_members:
  assumes "rc_state rc \<noteq> LFG_ROLECHECK_FINISHED" "rc_state rc \<noteq> LFG_ROLECHECK_INITIALITING"
  shows "lfg_GetState (foldl (role_check_member e rc sc guid roles ds) c rs) h
      = (if h \<in> fst ` set rs then LFG_STATE_NONE else lfg_GetState c h)
    \<and> lfg_GetOldState (foldl (role_check_member e rc sc guid roles ds) c rs) h
      = (if h \<in> fst ` set rs then LFG_STATE_NONE else lfg_GetOldState c h)"
proof (induction rs arbitrary: c h)
  case (Cons x rs)
  let ?c = "role_check_member e rc sc guid roles ds c x"
  have st: "lfg_GetState ?c k = (if k = fst x then LFG_STATE_NONE else lfg_GetState c k)"
    "lfg_GetOldState ?c k = (if k = fst x then LFG_STATE_NONE else lfg_GetOldState c k)" for k
    using assms by (cases "rc_state rc"; simp add: role_check_member_def Let_def state_rules stable_state_def)+
  show ?case using Cons.IH[of ?c h] st by auto
qed simp

lemma answer_finished:
  assumes "rc_state (answer_role_check guid roles rc) = LFG_ROLECHECK_FINISHED" "rc_state rc \<noteq> LFG_ROLECHECK_FINISHED"
    and "roles_ok (rc_roles rc)" "length (rc_roles rc) < 255" "role_ok roles"
  shows "\<exists>s. assignment (rc_roles (answer_role_check guid roles rc)) s"
    and "rc_roles (answer_role_check guid roles rc) = om_set guid roles (rc_roles rc)"
proof -
  let ?rs = "om_set guid roles (rc_roles rc)"
  have a: "rc_roles (answer_role_check guid roles rc) = ?rs \<and> fst (CheckGroupRoles ?rs)"
    using assms(1,2) by (auto simp: answer_role_check_def Let_def split: if_splits)
  have ok: "roles_ok ?rs" using assms(3,5) by (auto simp: roles_ok_def dest!: om_set_mem)
  have len: "length ?rs < 256" using om_set_length[of guid roles "rc_roles rc"] assms(4) by simp
  show "rc_roles (answer_role_check guid roles rc) = ?rs" using a by blast
  show "\<exists>s. assignment (rc_roles (answer_role_check guid roles rc)) s"
    using CheckGroupRoles_cases(2)[OF ok len] a by (auto simp: cgr_spec_def split: if_splits)
qed

lemma role_ok_ANY: "role_ok (r AND ROLE_ANY)"
  by (simp add: role_ok_def and.assoc)

text \<open>
  C38: When the answer of a player completes a role check, that is every member has a role and the roles
  can be assigned, every member and the group are in the queued state, every member has the role it
  answered, the group is in the queue of its team with these roles and the dungeons of the check, as a
  new entry, and the check is over.
\<close>
theorem UpdateRoleCheck_finishes:
  assumes g: "\<not> og_IsEmpty gguid" "\<not> og_IsEmpty guid" "en_inWorld e guid"
    and rc0: "map_of (lm_roleChecks m) gguid = Some rc0" "rc_state rc0 \<noteq> LFG_ROLECHECK_FINISHED"
      "keys_strict (rc_roles rc0)" "roles_ok (rc_roles rc0)" "length (rc_roles rc0) < 255"
    and rc: "rc = answer_role_check guid (roles AND ROLE_ANY) rc0" "rc_state rc = LFG_ROLECHECK_FINISHED"
    and q: "queues_ok m"
  shows "let m' = UpdateRoleCheck e gguid guid roles m; q' = queue_at m' (lm_GetQueue m gguid) in
     (\<exists>s. assignment (rc_roles rc) s)
     \<and> (\<forall>x \<in> set (rc_roles rc). lfg_GetState (lm_core m') (fst x) = LFG_STATE_QUEUED \<and> lfg_GetRoles (lm_core m') (fst x) = snd x)
     \<and> lfg_GetState (lm_core m') gguid = LFG_STATE_QUEUED
     \<and> map_of (q_data q') gguid = Some (LfgQueueData_new (en_now e) (rc_dungeons rc) (rc_roles rc))
     \<and> gguid \<in> set (q_new q') \<and> map_of (lm_roleChecks m') gguid = None"
proof -
  note an = answer_finished[OF rc(2)[unfolded rc(1)] rc0(2,4,5) role_ok_ANY, folded rc(1)]
  have ks: "distinct (map fst (rc_roles rc))" unfolding an(2) by (intro keys_strict_distinct keys_strict_om_set rc0(3))
  have keys: "fst ` set (rc_roles rc) = insert guid (fst ` set (rc_roles rc0))" unfolding an(2) by simp
  let ?sc = "rc_state rc0 \<noteq> LFG_ROLECHECK_DEFAULT \<and> \<not> og_IsEmpty guid"
  let ?ds = "if rc_rDungeonId rc \<noteq> 0 then {rc_rDungeonId rc} else rc_dungeons rc"
  let ?f = "role_check_member e rc ?sc guid (roles AND ROLE_ANY) ?ds"
  let ?c1 = "foldl ?f (lm_core m) (rc_roles rc)" let ?c2 = "lfg_SetState gguid LFG_STATE_QUEUED ?c1"
  let ?qi = "GetQueueId ?c2 gguid"
  let ?m3 = "on_queue ?qi (AddQueueData gguid (en_now e) (rc_dungeons rc) (rc_roles rc) False)
     (on_core (lfg_SetState gguid LFG_STATE_QUEUED) (on_core (\<lambda>c. foldl ?f c (rc_roles rc)) m))"
  have u: "UpdateRoleCheck e gguid guid roles m = ?m3\<lparr>lm_roleChecks := om_del gguid (lm_roleChecks m)\<rparr>"
    using g rc0(1) rc(2) by (simp add: UpdateRoleCheck_def Let_def rc(1)[symmetric] lm_GetQueue_def)
  note fm = finished_members[OF rc(2) ks, of e ?sc guid "roles AND ROLE_ANY" ?ds "lm_core m"]
  have qi: "?qi = lm_GetQueue m gguid"
    using same_teams_queue[OF same_teams_trans[OF conjunct2[OF conjunct2[OF conjunct2[OF fm]]] same_teams_SetState]]
    by (simp add: lm_GetQueue_def)
  let ?q = "AddQueueData gguid (en_now e) (rc_dungeons rc) (rc_roles rc) False (queue_at m ?qi)"
  have qa: "queue_at (?m3\<lparr>lm_roleChecks := om_del gguid (lm_roleChecks m)\<rparr>) ?qi = ?q"
    using queue_at_on_queue[of "on_core (lfg_SetState gguid LFG_STATE_QUEUED) (on_core (\<lambda>c. foldl ?f c (rc_roles rc)) m)"] q
    by (simp add: queue_at_def)
  have qd: "map_of (q_data ?q) gguid = Some (LfgQueueData_new (en_now e) (rc_dungeons rc) (rc_roles rc))" "gguid \<in> set (q_new ?q)"
    by (simp_all add: AddQueueData_def AddToQueue_def AddToNewQueue_def map_of_om_set_same)
  have st: "lfg_GetState ?c2 (fst x) = LFG_STATE_QUEUED \<and> lfg_GetRoles ?c2 (fst x) = snd x" if "x \<in> set (rc_roles rc)" for x
    using fm that by (auto simp: GetState_SetState)
  have Q: "queue_at (UpdateRoleCheck e gguid guid roles m) (lm_GetQueue m gguid) = ?q"
    unfolding u qi[symmetric] by (rule qa)
  have core: "lm_core (UpdateRoleCheck e gguid guid roles m) = ?c2"
    "lm_roleChecks (UpdateRoleCheck e gguid guid roles m) = om_del gguid (lm_roleChecks m)"
    unfolding u by simp_all
  show ?thesis
    unfolding Let_def Q core using an(1) st qd by (simp add: GetState_SetState map_of_om_del)
qed

text \<open>
  C1: When a role check fails or is aborted, the state of the group and of every member is \<open>NONE\<close>, and so
  is the state they remember: the restore that follows the reset cannot bring back the dungeon a group
  was in. The check is over and the queues are as before.
\<close>
theorem UpdateRoleCheck_failed_forgets:
  assumes "\<not> og_IsEmpty gguid" "map_of (lm_roleChecks m) gguid = Some rc0"
    and "og_IsEmpty guid \<or> en_inWorld e guid"
    and "rc_state (answer_role_check guid (roles AND ROLE_ANY) rc0) \<notin> {LFG_ROLECHECK_FINISHED, LFG_ROLECHECK_INITIALITING}"
    and "h \<in> insert gguid (fst ` set (rc_roles (answer_role_check guid (roles AND ROLE_ANY) rc0)))"
  shows "let m' = UpdateRoleCheck e gguid guid roles m in
     lfg_GetState (lm_core m') h = LFG_STATE_NONE \<and> lfg_GetOldState (lm_core m') h = LFG_STATE_NONE
     \<and> map_of (lm_roleChecks m') gguid = None \<and> lm_queues m' = lm_queues m"
proof -
  let ?rc = "answer_role_check guid (roles AND ROLE_ANY) rc0"
  let ?sc = "rc_state rc0 \<noteq> LFG_ROLECHECK_DEFAULT \<and> \<not> og_IsEmpty guid"
  let ?ds = "if rc_rDungeonId ?rc \<noteq> 0 then {rc_rDungeonId ?rc} else rc_dungeons ?rc"
  let ?c1 = "foldl (role_check_member e ?rc ?sc guid (roles AND ROLE_ANY) ?ds) (lm_core m) (rc_roles ?rc)"
  have fm: "rc_state ?rc \<noteq> LFG_ROLECHECK_FINISHED" "rc_state ?rc \<noteq> LFG_ROLECHECK_INITIALITING" using assms(4) by auto
  have u: "lm_core (UpdateRoleCheck e gguid guid roles m) = lfg_RestoreState gguid (lfg_SetState gguid LFG_STATE_NONE ?c1)"
    "lm_queues (UpdateRoleCheck e gguid guid roles m) = lm_queues m"
    "lm_roleChecks (UpdateRoleCheck e gguid guid roles m) = om_del gguid (lm_roleChecks m)"
    using assms fm by (auto simp: UpdateRoleCheck_def Let_def)
  show ?thesis
    unfolding Let_def u using failed_members[OF fm, of e ?sc guid "roles AND ROLE_ANY" ?ds "lm_core m" "rc_roles ?rc" h] assms(5)
    by (auto simp: state_rules stable_state_def map_of_om_del)
qed

definition witness_check :: lfg_role_check where
  "witness_check = \<lparr>rc_cancelTime = 200, rc_roles = [(CreatePlayer 1 0 5, 2), (CreatePlayer 1 0 6, 0)],
     rc_state = LFG_ROLECHECK_INITIALITING, rc_dungeons = {285}, rc_rDungeonId = 0, rc_leader = CreatePlayer 1 0 5\<rparr>"

definition witness_mgr :: lfg_mgr where
  "witness_mgr = \<lparr>lm_core = witness_core, lm_queues = [], lm_roleChecks = [(CreateGlobal HG_Party 0 9, witness_check)],
     lm_boots = [], lm_queueTimer = 0, lm_options = 1\<rparr>"

lemma witness_guids:
  "\<not> og_IsEmpty (CreateGlobal HG_Party 0 9)" "IsParty (CreateGlobal HG_Party 0 9)"
  "\<not> og_IsEmpty (CreatePlayer 1 0 d)" "(CreatePlayer 1 0 d < CreatePlayer 1 0 d') = (d < d')"
  "(CreatePlayer 1 0 d = CreatePlayer 1 0 d') = (d = d')" "\<not> IsParty (CreatePlayer 1 0 5)"
  by (simp_all add: og_IsEmpty_def CreateGlobal_def CreatePlayer_def high_bits_def HG_defs less_ObjectGuid_def
      IsParty_def GetHigh_def GetRealmIdForObjectGuid_def)

lemma witness_answer:
  "answer_role_check (CreatePlayer 1 0 6) (8 AND ROLE_ANY) witness_check
     = witness_check\<lparr>rc_roles := [(CreatePlayer 1 0 5, 2), (CreatePlayer 1 0 6, 8)], rc_state := LFG_ROLECHECK_FINISHED\<rparr>"
proof -
  let ?r = "[(CreatePlayer 1 0 5, 2 :: u8), (CreatePlayer 1 0 6, 8)]"
  have "assignment ?r ?r"
    by (simp add: assignment_def narrows_def single_role_def fits_def role_count_def role_defs)
  moreover have "roles_ok ?r" by (simp add: roles_ok_def role_ok_def ROLE_ANY_def role_defs)
  ultimately have "fst (CheckGroupRoles ?r)"
    using CheckGroupRoles_cases(2)[of ?r] by (auto simp: cgr_spec_def split: if_splits)
  then show ?thesis
    by (simp add: answer_role_check_def witness_check_def witness_guids ROLE_ANY_def role_defs Let_def)
qed

lemma UpdateRoleCheck_finishes_witness:
  "lfg_GetState (lm_core (UpdateRoleCheck witness_env (CreateGlobal HG_Party 0 9) (CreatePlayer 1 0 6) 8 witness_mgr))
     (CreatePlayer 1 0 5) = LFG_STATE_QUEUED"
proof -
  have "map_of (lm_roleChecks witness_mgr) (CreateGlobal HG_Party 0 9) = Some witness_check" "queues_ok witness_mgr"
    by (simp_all add: witness_mgr_def queues_ok_def)
  moreover have "rc_state witness_check \<noteq> LFG_ROLECHECK_FINISHED" "keys_strict (rc_roles witness_check)"
    "roles_ok (rc_roles witness_check)" "length (rc_roles witness_check) < 255"
    by (simp_all add: witness_check_def witness_guids roles_ok_def role_ok_def ROLE_ANY_def role_defs)
  ultimately show ?thesis
    using UpdateRoleCheck_finishes[of "CreateGlobal HG_Party 0 9" "CreatePlayer 1 0 6" witness_env witness_mgr witness_check
        "witness_check\<lparr>rc_roles := [(CreatePlayer 1 0 5, 2), (CreatePlayer 1 0 6, 8)], rc_state := LFG_ROLECHECK_FINISHED\<rparr>" 8]
    by (simp add: witness_guids witness_answer[symmetric] Let_def) (simp add: witness_answer witness_env_def)
qed

lemma UpdateRoleCheck_failed_forgets_witness:
  "lfg_GetOldState (lm_core (UpdateRoleCheck witness_env (CreateGlobal HG_Party 0 9) og_Empty 0
     (on_core (lfg_SetState (CreateGlobal HG_Party 0 9) LFG_STATE_DUNGEON) witness_mgr))) (CreateGlobal HG_Party 0 9) = LFG_STATE_NONE"
proof -
  let ?gg = "CreateGlobal HG_Party 0 9"
  let ?m = "on_core (lfg_SetState ?gg LFG_STATE_DUNGEON) witness_mgr"
  have "map_of (lm_roleChecks ?m) ?gg = Some witness_check" by (simp add: witness_mgr_def)
  moreover have "og_IsEmpty og_Empty" by (simp add: og_IsEmpty_def og_Empty_def)
  moreover from this have "rc_state (answer_role_check og_Empty (0 AND ROLE_ANY) witness_check) = LFG_ROLECHECK_ABORTED"
    by (simp add: answer_role_check_def Let_def)
  ultimately show ?thesis
    using UpdateRoleCheck_failed_forgets[of ?gg ?m witness_check og_Empty witness_env 0 ?gg] witness_guids(1)
    by (auto simp: Let_def)
qed

end
