(* ===== verification/CombatManager.thy ===== *)
theory CombatManager
  imports ObjectGuid "HOL-Library.Monad_Syntax"
begin

text \<open>
  Which units fight each other (\<open>src/src/server/game/Combat/CombatManager.cpp\<close>). Every combat between two
  units is one reference object, allocated when it begins and deleted when it ends, that both units'
  managers point to. Here the objects are a heap \<open>cw_refs\<close> from addresses to references, each unit has its
  two maps from the other unit's guid to an address, and its flag \<open>UNIT_FLAG_IN_COMBAT\<close>. Following a
  pointer to a deleted object and a failed assertion are \<open>None\<close>. A unit is its guid.

  What the manager asks of units is the environment \<open>combat_env\<close>; what it triggers in them (AI, threat
  lists, pets) is a list of events in the order of the calls: the effects of these calls are later
  operations of a run. The maps are unordered; the lists stand for the order in which they are iterated.
\<close>

type_synonym unit_id = ObjectGuid

record combat_ref =
  cr_first :: unit_id
  cr_second :: unit_id
  cr_isPvP :: bool
  cr_suppressFirst :: bool
  cr_suppressSecond :: bool
  cr_combatTimer :: u32

definition PVP_COMBAT_TIMEOUT :: u32 where "PVP_COMBAT_TIMEOUT = 5 * 1000"

definition CombatReference_new :: "unit_id \<Rightarrow> unit_id \<Rightarrow> combat_ref" where
  "CombatReference_new a b = \<lparr>cr_first = a, cr_second = b, cr_isPvP = False, cr_suppressFirst = False,
     cr_suppressSecond = False, cr_combatTimer = 0\<rparr>"

definition PvPCombatReference_new :: "unit_id \<Rightarrow> unit_id \<Rightarrow> combat_ref" where
  "PvPCombatReference_new a b = (CombatReference_new a b)\<lparr>cr_isPvP := True, cr_combatTimer := PVP_COMBAT_TIMEOUT\<rparr>"

definition cr_GetOther :: "combat_ref \<Rightarrow> unit_id \<Rightarrow> unit_id" where
  "cr_GetOther r me = (if cr_first r = me then cr_second r else cr_first r)"

definition cr_IsSuppressedFor :: "combat_ref \<Rightarrow> unit_id \<Rightarrow> bool" where
  "cr_IsSuppressedFor r who = (if who = cr_first r then cr_suppressFirst r else cr_suppressSecond r)"

definition cr_Suppress :: "unit_id \<Rightarrow> combat_ref \<Rightarrow> combat_ref" where
  "cr_Suppress who r = (if who = cr_first r then r\<lparr>cr_suppressFirst := True\<rparr> else r\<lparr>cr_suppressSecond := True\<rparr>)"

definition pvp_Update :: "u32 \<Rightarrow> combat_ref \<Rightarrow> bool \<times> combat_ref" where
  "pvp_Update tdiff r = (if cr_combatTimer r \<le> tdiff then (False, r)
     else (True, r\<lparr>cr_combatTimer := cr_combatTimer r - tdiff\<rparr>))"

definition pvp_RefreshTimer :: "combat_ref \<Rightarrow> combat_ref" where
  "pvp_RefreshTimer r = r\<lparr>cr_combatTimer := PVP_COMBAT_TIMEOUT\<rparr>"

section \<open>The world around the managers\<close>

record combat_env =
  ce_isInWorld :: "unit_id \<Rightarrow> bool"
  ce_isAlive :: "unit_id \<Rightarrow> bool"
  ce_map :: "unit_id \<Rightarrow> nat"
  ce_samePhase :: "unit_id \<Rightarrow> unit_id \<Rightarrow> bool"
  ce_evade :: "unit_id \<Rightarrow> bool"
  ce_inFlight :: "unit_id \<Rightarrow> bool"
  ce_combatDisallowed :: "unit_id \<Rightarrow> bool"
  ce_friendly :: "unit_id \<Rightarrow> unit_id \<Rightarrow> bool"
  ce_playerOf :: "unit_id \<Rightarrow> unit_id option"
  ce_gameMaster :: "unit_id \<Rightarrow> bool"
  ce_controlledByPlayer :: "unit_id \<Rightarrow> bool"
  ce_flagPlayerControlled :: "unit_id \<Rightarrow> bool"
  ce_immuneToPC :: "unit_id \<Rightarrow> bool"
  ce_immuneToNPC :: "unit_id \<Rightarrow> bool"
  ce_isTypeUnit :: "unit_id \<Rightarrow> bool"
  ce_isTypePlayer :: "unit_id \<Rightarrow> bool"
  ce_master :: "unit_id \<Rightarrow> unit_id option"
  ce_hasAI :: "unit_id \<Rightarrow> bool"

datatype combat_event =
    AtEnterCombat unit_id
  | AtEngage unit_id "unit_id option"
  | AtExitCombat unit_id
  | AtDisengage unit_id
  | UpdatePetCombatState unit_id
  | JustEnteredCombat unit_id unit_id
  | JustExitedCombat unit_id
  | ClearThreat unit_id unit_id
  | RemoveMeFromThreatLists unit_id
  | ClearAllThreat unit_id

record combat_world =
  cw_refs :: "nat \<Rightarrow> combat_ref option"
  cw_next :: nat
  cw_pveRefs :: "unit_id \<Rightarrow> (unit_id \<times> nat) list"
  cw_pvpRefs :: "unit_id \<Rightarrow> (unit_id \<times> nat) list"
  cw_inCombat :: "unit_id \<Rightarrow> bool"
  cw_events :: "combat_event list"

definition combat_start :: combat_world where
  "combat_start = \<lparr>cw_refs = (\<lambda>_. None), cw_next = 0, cw_pveRefs = (\<lambda>_. []), cw_pvpRefs = (\<lambda>_. []),
     cw_inCombat = (\<lambda>_. False), cw_events = []\<rparr>"

definition emit :: "combat_event \<Rightarrow> combat_world \<Rightarrow> combat_world" where
  "emit ev w = w\<lparr>cw_events := cw_events w @ [ev]\<rparr>"

definition set_ref :: "nat \<Rightarrow> combat_ref \<Rightarrow> combat_world \<Rightarrow> combat_world" where
  "set_ref i r w = w\<lparr>cw_refs := (cw_refs w)(i \<mapsto> r)\<rparr>"

definition CanBeginCombat :: "combat_env \<Rightarrow> unit_id \<Rightarrow> unit_id \<Rightarrow> bool" where
  "CanBeginCombat e a b =
     (if a = b then False
      else if \<not> ce_isInWorld e a \<or> \<not> ce_isInWorld e b then False
      else if \<not> ce_isAlive e a \<or> \<not> ce_isAlive e b then False
      else if ce_map e a \<noteq> ce_map e b then False
      else if \<not> ce_samePhase e a b then False
      else if ce_evade e a \<or> ce_evade e b then False
      else if ce_inFlight e a \<or> ce_inFlight e b then False
      else if ce_combatDisallowed e a \<or> ce_combatDisallowed e b then False
      else if ce_friendly e a b \<or> ce_friendly e b a then False
      else if (case ce_playerOf e a of Some p \<Rightarrow> ce_gameMaster e p | None \<Rightarrow> False)
            \<or> (case ce_playerOf e b of Some p \<Rightarrow> ce_gameMaster e p | None \<Rightarrow> False) then False
      else True)"

section \<open>What a manager knows\<close>

text \<open>The other unit of the first reference that is not suppressed for the owner.\<close>

fun first_active :: "combat_world \<Rightarrow> unit_id \<Rightarrow> (unit_id \<times> nat) list \<Rightarrow> unit_id option option" where
  "first_active w u [] = Some None"
| "first_active w u ((g, i) # xs) = do {
     r \<leftarrow> cw_refs w i;
     if \<not> cr_IsSuppressedFor r u then Some (Some (cr_GetOther r u)) else first_active w u xs }"

definition HasPvECombat :: "combat_world \<Rightarrow> unit_id \<Rightarrow> bool option" where
  "HasPvECombat w u = map_option (\<lambda>t. t \<noteq> None) (first_active w u (cw_pveRefs w u))"

definition HasPvPCombat :: "combat_world \<Rightarrow> unit_id \<Rightarrow> bool option" where
  "HasPvPCombat w u = map_option (\<lambda>t. t \<noteq> None) (first_active w u (cw_pvpRefs w u))"

definition HasCombat :: "combat_world \<Rightarrow> unit_id \<Rightarrow> bool option" where
  "HasCombat w u = do { pve \<leftarrow> HasPvECombat w u; if pve then Some True else HasPvPCombat w u }"

fun with_players :: "combat_env \<Rightarrow> combat_world \<Rightarrow> unit_id \<Rightarrow> (unit_id \<times> nat) list \<Rightarrow> bool option" where
  "with_players e w u [] = Some False"
| "with_players e w u ((g, i) # xs) = do {
     r \<leftarrow> cw_refs w i;
     if \<not> cr_IsSuppressedFor r u \<and> ce_isTypePlayer e (cr_GetOther r u) then Some True else with_players e w u xs }"

definition HasPvECombatWithPlayers :: "combat_env \<Rightarrow> combat_world \<Rightarrow> unit_id \<Rightarrow> bool option" where
  "HasPvECombatWithPlayers e w u = with_players e w u (cw_pveRefs w u)"

definition cm_GetAnyTarget :: "combat_world \<Rightarrow> unit_id \<Rightarrow> unit_id option option" where
  "cm_GetAnyTarget w u = do {
     t \<leftarrow> first_active w u (cw_pveRefs w u);
     if t \<noteq> None then Some t else first_active w u (cw_pvpRefs w u) }"

definition IsInCombatWith :: "combat_world \<Rightarrow> unit_id \<Rightarrow> unit_id \<Rightarrow> bool" where
  "IsInCombatWith w u g = (map_of (cw_pveRefs w u) g \<noteq> None \<or> map_of (cw_pvpRefs w u) g \<noteq> None)"

section \<open>Operations\<close>

definition NotifyAICombat :: "combat_env \<Rightarrow> unit_id \<Rightarrow> unit_id \<Rightarrow> combat_world \<Rightarrow> combat_world" where
  "NotifyAICombat e me other w = (if ce_hasAI e me then emit (JustEnteredCombat me other) w else w)"

definition notify_exit :: "combat_env \<Rightarrow> unit_id \<Rightarrow> combat_world \<Rightarrow> combat_world" where
  "notify_exit e me w = (if ce_hasAI e me then emit (JustExitedCombat me) w else w)"

definition UpdateOwnerCombatState :: "combat_env \<Rightarrow> unit_id \<Rightarrow> combat_world \<Rightarrow> (bool \<times> combat_world) option" where
  "UpdateOwnerCombatState e u w = do {
     combatState \<leftarrow> HasCombat w u;
     if combatState = cw_inCombat w u then Some (False, w)
     else do {
       w3 \<leftarrow> (if combatState then do {
                let w1 = w\<lparr>cw_inCombat := (cw_inCombat w)(u := True)\<rparr>;
                let w2 = emit (AtEnterCombat u) w1;
                (if \<not> ce_isTypeUnit e u
                 then do { t \<leftarrow> cm_GetAnyTarget w2 u; Some (emit (AtEngage u t) w2) }
                 else Some w2) }
              else do {
                let w1 = w\<lparr>cw_inCombat := (cw_inCombat w)(u := False)\<rparr>;
                let w2 = emit (AtExitCombat u) w1;
                Some (if \<not> ce_isTypeUnit e u then emit (AtDisengage u) w2 else w2) });
       Some (True, case ce_master e u of Some m \<Rightarrow> emit (UpdatePetCombatState m) w3 | None \<Rightarrow> w3) } }"

definition PutReference :: "unit_id \<Rightarrow> unit_id \<Rightarrow> nat \<Rightarrow> combat_world \<Rightarrow> combat_world option" where
  "PutReference owner g i w = do {
     r \<leftarrow> cw_refs w i;
     if cr_isPvP r then
       (if map_of (cw_pvpRefs w owner) g \<noteq> None then None
        else Some (w\<lparr>cw_pvpRefs := (cw_pvpRefs w)(owner := cw_pvpRefs w owner @ [(g, i)])\<rparr>))
     else
       (if map_of (cw_pveRefs w owner) g \<noteq> None then None
        else Some (w\<lparr>cw_pveRefs := (cw_pveRefs w)(owner := cw_pveRefs w owner @ [(g, i)])\<rparr>)) }"

definition PurgeReference :: "unit_id \<Rightarrow> unit_id \<Rightarrow> bool \<Rightarrow> combat_world \<Rightarrow> combat_world" where
  "PurgeReference owner g pvp w =
     (if pvp then w\<lparr>cw_pvpRefs := (cw_pvpRefs w)(owner := om_del g (cw_pvpRefs w owner))\<rparr>
      else w\<lparr>cw_pveRefs := (cw_pveRefs w)(owner := om_del g (cw_pveRefs w owner))\<rparr>)"

definition EndCombat :: "combat_env \<Rightarrow> nat \<Rightarrow> combat_world \<Rightarrow> combat_world option" where
  "EndCombat e i w = do {
     r \<leftarrow> cw_refs w i;
     let a = cr_first r;
     let b = cr_second r;
     let w1 = emit (ClearThreat b a) (emit (ClearThreat a b) w);
     let w2 = PurgeReference b a (cr_isPvP r) (PurgeReference a b (cr_isPvP r) w1);
     (needFirstAI, w3) \<leftarrow> UpdateOwnerCombatState e a w2;
     (needSecondAI, w4) \<leftarrow> UpdateOwnerCombatState e b w3;
     let w5 = (if needFirstAI then notify_exit e a w4 else w4);
     let w6 = (if needSecondAI then notify_exit e b w5 else w5);
     Some (w6\<lparr>cw_refs := (cw_refs w6)(i := None)\<rparr>) }"

definition cr_Refresh :: "combat_env \<Rightarrow> nat \<Rightarrow> combat_world \<Rightarrow> combat_world option" where
  "cr_Refresh e i w = do {
     r \<leftarrow> cw_refs w i;
     (needFirstAI, w1) \<leftarrow> (if cr_suppressFirst r
        then UpdateOwnerCombatState e (cr_first r) (set_ref i (r\<lparr>cr_suppressFirst := False\<rparr>) w) else Some (False, w));
     r1 \<leftarrow> cw_refs w1 i;
     (needSecondAI, w2) \<leftarrow> (if cr_suppressSecond r1
        then UpdateOwnerCombatState e (cr_second r1) (set_ref i (r1\<lparr>cr_suppressSecond := False\<rparr>) w1) else Some (False, w1));
     let w3 = (if needFirstAI then NotifyAICombat e (cr_first r) (cr_second r) w2 else w2);
     Some (if needSecondAI then NotifyAICombat e (cr_second r) (cr_first r) w3 else w3) }"

definition SuppressFor :: "combat_env \<Rightarrow> nat \<Rightarrow> unit_id \<Rightarrow> combat_world \<Rightarrow> combat_world option" where
  "SuppressFor e i who w = do {
     r \<leftarrow> cw_refs w i;
     (left, w1) \<leftarrow> UpdateOwnerCombatState e who (set_ref i (cr_Suppress who r) w);
     Some (if left then notify_exit e who w1 else w1) }"

definition SetInCombatWith :: "combat_env \<Rightarrow> unit_id \<Rightarrow> unit_id \<Rightarrow> bool \<Rightarrow> combat_world \<Rightarrow> (bool \<times> combat_world) option" where
  "SetInCombatWith e owner who addSecondUnitSuppressed w =
     (case map_of (cw_pvpRefs w owner) who of
        Some i \<Rightarrow> do {
          r \<leftarrow> cw_refs w i;
          w1 \<leftarrow> cr_Refresh e i (set_ref i (pvp_RefreshTimer r) w);
          Some (True, w1) }
      | None \<Rightarrow>
     (case map_of (cw_pveRefs w owner) who of
        Some i \<Rightarrow> do { w1 \<leftarrow> cr_Refresh e i w; Some (True, w1) }
      | None \<Rightarrow>
          if \<not> CanBeginCombat e owner who then Some (False, w)
          else do {
            let r0 = (if ce_controlledByPlayer e owner \<and> ce_controlledByPlayer e who
                      then PvPCombatReference_new owner who else CombatReference_new owner who);
            let r = (if addSecondUnitSuppressed then cr_Suppress who r0 else r0);
            let i = cw_next w;
            let w1 = set_ref i r (w\<lparr>cw_next := i + 1\<rparr>);
            w2 \<leftarrow> PutReference owner who i w1;
            w3 \<leftarrow> PutReference who owner i w2;
            (needSelfAI, w4) \<leftarrow> UpdateOwnerCombatState e owner w3;
            (needOtherAI, w5) \<leftarrow> UpdateOwnerCombatState e who w4;
            let w6 = (if needSelfAI then NotifyAICombat e owner who w5 else w5);
            let w7 = (if needOtherAI then NotifyAICombat e who owner w6 else w6);
            Some (IsInCombatWith w7 owner who, w7) }))"

text \<open>Loops over a map that erase: the entry leaves the owner's map first, then the combat ends.\<close>

definition erase_and_end :: "combat_env \<Rightarrow> unit_id \<Rightarrow> bool \<Rightarrow> unit_id \<times> nat \<Rightarrow> combat_world \<Rightarrow> combat_world option" where
  "erase_and_end e owner pvp x w = EndCombat e (snd x) (PurgeReference owner (fst x) pvp w)"

fun cm_update_loop :: "combat_env \<Rightarrow> unit_id \<Rightarrow> u32 \<Rightarrow> (unit_id \<times> nat) list \<Rightarrow> combat_world \<Rightarrow> combat_world option" where
  "cm_update_loop e owner tdiff [] w = Some w"
| "cm_update_loop e owner tdiff (x # xs) w = do {
     r \<leftarrow> cw_refs w (snd x);
     if cr_first r = owner then do {
       let (alive, r') = pvp_Update tdiff r;
       let w1 = set_ref (snd x) r' w;
       w2 \<leftarrow> (if \<not> alive then erase_and_end e owner True x w1 else Some w1);
       cm_update_loop e owner tdiff xs w2 }
     else cm_update_loop e owner tdiff xs w }"

definition cm_Update :: "combat_env \<Rightarrow> unit_id \<Rightarrow> u32 \<Rightarrow> combat_world \<Rightarrow> combat_world option" where
  "cm_Update e owner tdiff w = cm_update_loop e owner tdiff (cw_pvpRefs w owner) w"

fun end_loop :: "combat_env \<Rightarrow> unit_id \<Rightarrow> bool \<Rightarrow> (combat_ref \<Rightarrow> bool) \<Rightarrow> (unit_id \<times> nat) list \<Rightarrow> combat_world
    \<Rightarrow> combat_world option" where
  "end_loop e owner pvp ends [] w = Some w"
| "end_loop e owner pvp ends (x # xs) w = do {
     r \<leftarrow> cw_refs w (snd x);
     w1 \<leftarrow> (if ends r then erase_and_end e owner pvp x w else Some w);
     end_loop e owner pvp ends xs w1 }"

definition EndCombatBeyondRange ::
  "combat_env \<Rightarrow> unit_id \<Rightarrow> (unit_id \<Rightarrow> unit_id \<Rightarrow> bool) \<Rightarrow> bool \<Rightarrow> combat_world \<Rightarrow> combat_world option" where
  "EndCombatBeyondRange e owner withinRange includingPvP w = do {
     let ends = (\<lambda>r. \<not> withinRange (cr_first r) (cr_second r));
     w1 \<leftarrow> end_loop e owner False ends (cw_pveRefs w owner) w;
     if \<not> includingPvP then Some w1 else end_loop e owner True ends (cw_pvpRefs w1 owner) w1 }"

definition RevalidateCombat :: "combat_env \<Rightarrow> unit_id \<Rightarrow> combat_world \<Rightarrow> combat_world option" where
  "RevalidateCombat e owner w = do {
     let ends = (\<lambda>r. \<not> CanBeginCombat e owner (cr_GetOther r owner));
     w1 \<leftarrow> end_loop e owner False ends (cw_pveRefs w owner) w;
     end_loop e owner True ends (cw_pvpRefs w1 owner) w1 }"

fun suppress_loop :: "unit_id \<Rightarrow> (unit_id \<times> nat) list \<Rightarrow> combat_world \<Rightarrow> combat_world option" where
  "suppress_loop owner [] w = Some w"
| "suppress_loop owner (x # xs) w = do {
     r \<leftarrow> cw_refs w (snd x);
     suppress_loop owner xs (set_ref (snd x) (cr_Suppress owner r) w) }"

definition SuppressPvPCombat :: "combat_env \<Rightarrow> unit_id \<Rightarrow> combat_world \<Rightarrow> combat_world option" where
  "SuppressPvPCombat e owner w = do {
     w1 \<leftarrow> suppress_loop owner (cw_pvpRefs w owner) w;
     (left, w2) \<leftarrow> UpdateOwnerCombatState e owner w1;
     Some (if left then notify_exit e owner w2 else w2) }"

text \<open>The loops that run until a map is empty; one that never ends would be \<open>None\<close>.\<close>

partial_function (option) end_all_pve :: "combat_env \<Rightarrow> unit_id \<Rightarrow> combat_world \<Rightarrow> combat_world option" where
  "end_all_pve e owner w = (case cw_pveRefs w owner of
     [] \<Rightarrow> Some w
   | x # _ \<Rightarrow> Option.bind (EndCombat e (snd x) w) (end_all_pve e owner))"

partial_function (option) EndAllPvPCombat :: "combat_env \<Rightarrow> unit_id \<Rightarrow> combat_world \<Rightarrow> combat_world option" where
  "EndAllPvPCombat e owner w = (case cw_pvpRefs w owner of
     [] \<Rightarrow> Some w
   | x # _ \<Rightarrow> Option.bind (EndCombat e (snd x) w) (EndAllPvPCombat e owner))"

definition EndAllPvECombat :: "combat_env \<Rightarrow> unit_id \<Rightarrow> combat_world \<Rightarrow> combat_world option" where
  "EndAllPvECombat e owner w =
     end_all_pve e owner (emit (ClearAllThreat owner) (emit (RemoveMeFromThreatLists owner) w))"

definition EndAllCombat :: "combat_env \<Rightarrow> unit_id \<Rightarrow> combat_world \<Rightarrow> combat_world option" where
  "EndAllCombat e owner w = Option.bind (EndAllPvECombat e owner w) (EndAllPvPCombat e owner)"

definition inherit_blocked :: "combat_env \<Rightarrow> unit_id \<Rightarrow> unit_id \<Rightarrow> bool" where
  "inherit_blocked e owner target =
     (ce_immuneToPC e owner \<and> ce_flagPlayerControlled e target
      \<or> ce_immuneToNPC e owner \<and> \<not> ce_flagPlayerControlled e target)"

fun inherit_loop :: "combat_env \<Rightarrow> unit_id \<Rightarrow> unit_id \<Rightarrow> bool \<Rightarrow> (unit_id \<times> nat) list \<Rightarrow> combat_world
    \<Rightarrow> combat_world option" where
  "inherit_loop e owner who pvp [] w = Some w"
| "inherit_loop e owner who pvp (x # xs) w =
     (if \<not> pvp \<and> IsInCombatWith w owner (fst x) then inherit_loop e owner who pvp xs w
      else do {
        r \<leftarrow> cw_refs w (snd x);
        let target = cr_GetOther r who;
        if inherit_blocked e owner target then inherit_loop e owner who pvp xs w
        else do { (_, w1) \<leftarrow> SetInCombatWith e owner target False w; inherit_loop e owner who pvp xs w1 } })"

definition InheritCombatStatesFrom :: "combat_env \<Rightarrow> unit_id \<Rightarrow> unit_id \<Rightarrow> combat_world \<Rightarrow> combat_world option" where
  "InheritCombatStatesFrom e owner who w = do {
     w1 \<leftarrow> inherit_loop e owner who False (cw_pveRefs w who) w;
     inherit_loop e owner who True (cw_pvpRefs w1 who) w1 }"

text \<open>The assertions of the destructor of a unit's manager.\<close>

definition may_destroy :: "combat_world \<Rightarrow> unit_id \<Rightarrow> bool" where
  "may_destroy w u = (cw_pveRefs w u = [] \<and> cw_pvpRefs w u = [])"



section \<open>How references and maps belong together\<close>

definition cw_entries :: "bool \<Rightarrow> combat_world \<Rightarrow> unit_id \<Rightarrow> (unit_id \<times> nat) list" where
  "cw_entries pvp w u = (if pvp then cw_pvpRefs w u else cw_pveRefs w u)"

definition joins :: "combat_ref \<Rightarrow> unit_id \<Rightarrow> unit_id \<Rightarrow> bool" where
  "joins r u v = (cr_first r = u \<and> cr_second r = v \<or> cr_first r = v \<and> cr_second r = u)"

text \<open>A reference is in the maps of exactly its two units, and two units share at most one.\<close>

definition linked :: "combat_world \<Rightarrow> bool" where
  "linked w =
     ((\<forall>p u v i. (v, i) \<in> set (cw_entries p w u) \<longleftrightarrow> (\<exists>r. cw_refs w i = Some r \<and> cr_isPvP r = p \<and> joins r u v))
      \<and> (\<forall>p u. distinct (map fst (cw_entries p w u)))
      \<and> (\<forall>i j r s u v. cw_refs w i = Some r \<longrightarrow> cw_refs w j = Some s \<longrightarrow> joins r u v \<longrightarrow> joins s u v \<longrightarrow> i = j)
      \<and> (\<forall>i r. cw_refs w i = Some r \<longrightarrow> i < cw_next w \<and> cr_first r \<noteq> cr_second r))"

text \<open>A unit is active if one of its references is not suppressed for it.\<close>

definition active :: "combat_world \<Rightarrow> unit_id \<Rightarrow> bool" where
  "active w u = (\<exists>p v i r. (v, i) \<in> set (cw_entries p w u) \<and> cw_refs w i = Some r \<and> \<not> cr_IsSuppressedFor r u)"

definition cw_ok :: "combat_world \<Rightarrow> bool" where
  "cw_ok w = (linked w \<and> (\<forall>u. cw_inCombat w u = active w u))"

definition heap :: "combat_world \<Rightarrow> (nat \<Rightarrow> combat_ref option) \<times> nat \<times> (unit_id \<Rightarrow> (unit_id \<times> nat) list) \<times> (unit_id \<Rightarrow> (unit_id \<times> nat) list)" where
  "heap w = (cw_refs w, cw_next w, cw_pveRefs w, cw_pvpRefs w)"

lemma heap_cong:
  assumes "heap w' = heap w"
  shows "cw_refs w' = cw_refs w" "cw_next w' = cw_next w" "cw_entries p w' = cw_entries p w"
    "active w' = active w" "linked w' = linked w" "IsInCombatWith w' = IsInCombatWith w"
  using assms by (auto simp: heap_def cw_entries_def active_def linked_def IsInCombatWith_def fun_eq_iff)

lemma heap_updates [simp]:
  "heap (emit ev w) = heap w" "heap (NotifyAICombat e a b w) = heap w" "heap (notify_exit e a w) = heap w"
  "cw_inCombat (emit ev w) = cw_inCombat w" "cw_inCombat (NotifyAICombat e a b w) = cw_inCombat w"
  "cw_inCombat (notify_exit e a w) = cw_inCombat w"
  by (simp_all add: heap_def emit_def NotifyAICombat_def notify_exit_def)

lemma set_ref_simps [simp]:
  "cw_refs (set_ref i r w) = (cw_refs w)(i \<mapsto> r)" "cw_next (set_ref i r w) = cw_next w"
  "cw_entries p (set_ref i r w) = cw_entries p w" "cw_inCombat (set_ref i r w) = cw_inCombat w"
  "cw_pveRefs (set_ref i r w) = cw_pveRefs w" "cw_pvpRefs (set_ref i r w) = cw_pvpRefs w"
  by (simp_all add: set_ref_def cw_entries_def fun_eq_iff)

lemma ok_cong: "heap w' = heap w \<Longrightarrow> cw_inCombat w' = cw_inCombat w \<Longrightarrow> cw_ok w' = cw_ok w"
  by (simp only: cw_ok_def heap_cong(4,5)[of w' w])

lemma linkedD:
  assumes "linked w"
  shows "(v, i) \<in> set (cw_entries p w u) \<longleftrightarrow> (\<exists>r. cw_refs w i = Some r \<and> cr_isPvP r = p \<and> joins r u v)"
    and "distinct (map fst (cw_entries p w u))"
    and "cw_refs w i = Some r \<Longrightarrow> cw_refs w j = Some s \<Longrightarrow> joins r u v \<Longrightarrow> joins s u v \<Longrightarrow> i = j"
    and "cw_refs w i = Some r \<Longrightarrow> i < cw_next w \<and> cr_first r \<noteq> cr_second r"
proof -
  note l = assms[unfolded linked_def]
  show "(v, i) \<in> set (cw_entries p w u) \<longleftrightarrow> (\<exists>r. cw_refs w i = Some r \<and> cr_isPvP r = p \<and> joins r u v)"
    by (rule l[THEN conjunct1, rule_format])
  show "distinct (map fst (cw_entries p w u))"
    by (rule l[THEN conjunct2, THEN conjunct1, rule_format])
  show "cw_refs w i = Some r \<Longrightarrow> cw_refs w j = Some s \<Longrightarrow> joins r u v \<Longrightarrow> joins s u v \<Longrightarrow> i = j"
    by (rule l[THEN conjunct2, THEN conjunct2, THEN conjunct1, rule_format])
  show "cw_refs w i = Some r \<Longrightarrow> i < cw_next w \<and> cr_first r \<noteq> cr_second r"
    by (rule l[THEN conjunct2, THEN conjunct2, THEN conjunct2, rule_format])
qed

lemma active_linked:
  "linked w \<Longrightarrow> active w u \<longleftrightarrow>
     (\<exists>i r. cw_refs w i = Some r \<and> (u = cr_first r \<or> u = cr_second r) \<and> \<not> cr_IsSuppressedFor r u)"
proof
  assume l: "linked w" and "active w u"
  then show "\<exists>i r. cw_refs w i = Some r \<and> (u = cr_first r \<or> u = cr_second r) \<and> \<not> cr_IsSuppressedFor r u"
    unfolding active_def linkedD(1)[OF l] joins_def by (elim exE conjE) (metis option.inject)
next
  assume l: "linked w" and "\<exists>i r. cw_refs w i = Some r \<and> (u = cr_first r \<or> u = cr_second r) \<and> \<not> cr_IsSuppressedFor r u"
  then obtain i r where r: "cw_refs w i = Some r" "u = cr_first r \<or> u = cr_second r" "\<not> cr_IsSuppressedFor r u" by blast
  then have "joins r u (cr_GetOther r u)" by (auto simp: joins_def cr_GetOther_def)
  with r show "active w u" unfolding active_def linkedD(1)[OF l] by blast
qed

section \<open>The flag of a unit\<close>

definition valid :: "combat_world \<Rightarrow> unit_id \<Rightarrow> bool" where
  "valid w u = (\<forall>p x. x \<in> set (cw_entries p w u) \<longrightarrow> cw_refs w (snd x) \<noteq> None)"

lemma linked_valid: "linked w \<Longrightarrow> valid w u"
  using linkedD(1) by (fastforce simp: valid_def)

lemma first_active_total:
  "\<forall>x \<in> set xs. cw_refs w (snd x) \<noteq> None \<Longrightarrow>
   \<exists>t. first_active w u xs = Some t \<and> (t \<noteq> None) = (\<exists>x \<in> set xs. \<exists>r. cw_refs w (snd x) = Some r \<and> \<not> cr_IsSuppressedFor r u)"
proof (induction xs)
  case (Cons x xs)
  obtain g i where x: "x = (g, i)" by (cases x)
  with Cons.prems obtain r where "cw_refs w i = Some r" by auto
  with Cons x show ?case by auto
qed simp

lemma HasCombat_valid:
  assumes "valid w u"
  shows "HasCombat w u = Some (active w u)" and "\<exists>t. cm_GetAnyTarget w u = Some t"
proof -
  have v: "\<forall>x \<in> set (cw_pveRefs w u). cw_refs w (snd x) \<noteq> None" "\<forall>x \<in> set (cw_pvpRefs w u). cw_refs w (snd x) \<noteq> None"
    using assms unfolding valid_def cw_entries_def by (metis (full_types))+
  obtain t where t: "first_active w u (cw_pveRefs w u) = Some t"
    "(t \<noteq> None) = (\<exists>x \<in> set (cw_pveRefs w u). \<exists>r. cw_refs w (snd x) = Some r \<and> \<not> cr_IsSuppressedFor r u)"
    using first_active_total[OF v(1)] by blast
  obtain s where s: "first_active w u (cw_pvpRefs w u) = Some s"
    "(s \<noteq> None) = (\<exists>x \<in> set (cw_pvpRefs w u). \<exists>r. cw_refs w (snd x) = Some r \<and> \<not> cr_IsSuppressedFor r u)"
    using first_active_total[OF v(2)] by blast
  have "active w u = (t \<noteq> None \<or> s \<noteq> None)"
    unfolding t(2) s(2) by (auto simp: active_def cw_entries_def split: if_splits) (fastforce+)?
  with t(1) s(1) show "HasCombat w u = Some (active w u)" "\<exists>t. cm_GetAnyTarget w u = Some t"
    by (auto simp: HasCombat_def HasPvECombat_def HasPvPCombat_def cm_GetAnyTarget_def)
qed

lemma UpdateOwner_valid:
  assumes "valid w u"
  shows "\<exists>w'. UpdateOwnerCombatState e u w = Some (cw_inCombat w u \<noteq> active w u, w')
    \<and> heap w' = heap w \<and> cw_inCombat w' = (cw_inCombat w)(u := active w u)"
proof (cases "active w u = cw_inCombat w u")
  case True
  then have "UpdateOwnerCombatState e u w = Some (False, w)"
    by (simp add: UpdateOwnerCombatState_def HasCombat_valid(1)[OF assms])
  then show ?thesis using True by (simp add: fun_upd_idem)
next
  case False
  let ?w1 = "w\<lparr>cw_inCombat := (cw_inCombat w)(u := active w u)\<rparr>"
  let ?pet = "\<lambda>w'. case ce_master e u of Some m \<Rightarrow> emit (UpdatePetCombatState m) w' | None \<Rightarrow> w'"
  have h1: "heap ?w1 = heap w" by (simp add: heap_def)
  have pet: "heap (?pet w') = heap w'" "cw_inCombat (?pet w') = cw_inCombat w'" for w'
    by (simp_all split: option.splits)
  have "valid (emit (AtEnterCombat u) ?w1) u"
    using assms heap_cong[of "emit (AtEnterCombat u) ?w1" w] h1 by (simp add: valid_def)
  then obtain t where t: "cm_GetAnyTarget (emit (AtEnterCombat u) ?w1) u = Some t" using HasCombat_valid(2) by blast
  let ?in = "if \<not> ce_isTypeUnit e u then emit (AtEngage u t) (emit (AtEnterCombat u) ?w1) else emit (AtEnterCombat u) ?w1"
  let ?out = "if \<not> ce_isTypeUnit e u then emit (AtDisengage u) (emit (AtExitCombat u) ?w1) else emit (AtExitCombat u) ?w1"
  have "UpdateOwnerCombatState e u w = Some (True, ?pet (if active w u then ?in else ?out))"
    using False t by (cases "active w u") (simp_all add: UpdateOwnerCombatState_def HasCombat_valid(1)[OF assms] Let_def split: option.split)
  moreover have "heap ?in = heap w" "heap ?out = heap w" "cw_inCombat ?in = cw_inCombat ?w1" "cw_inCombat ?out = cw_inCombat ?w1"
    using h1 by simp_all
  ultimately show ?thesis using False pet by simp
qed

section \<open>Ending a combat\<close>

lemma Purge_simps [simp]:
  "cw_refs (PurgeReference a b p w) = cw_refs w" "cw_next (PurgeReference a b p w) = cw_next w"
  "cw_inCombat (PurgeReference a b p w) = cw_inCombat w"
  "cw_entries q (PurgeReference a b p w) = (cw_entries q w)(a := if q = p then om_del b (cw_entries q w a) else cw_entries q w a)"
  by (simp_all add: PurgeReference_def cw_entries_def fun_eq_iff)

lemma Purge_idem:
  "PurgeReference b a p (PurgeReference a b p (emit x (emit y (PurgeReference a b p w))))
     = PurgeReference b a p (PurgeReference a b p (emit x (emit y w)))"
  "PurgeReference b a p (PurgeReference a b p (emit x (emit y (PurgeReference b a p w))))
     = PurgeReference b a p (PurgeReference a b p (emit x (emit y w)))"
  by (auto simp: PurgeReference_def emit_def om_del_def fun_upd_twist)

lemma erase_and_end_eq:
  assumes "linked w" "x \<in> set (cw_entries p w owner)"
  shows "erase_and_end e owner p x w = EndCombat e (snd x) w"
proof -
  obtain g i where x: "x = (g, i)" by (cases x)
  with assms linkedD(1) obtain r where "cw_refs w i = Some r" "cr_isPvP r = p" "joins r owner g" by blast
  then show ?thesis unfolding joins_def
  proof (elim disjE conjE)
    assume "cw_refs w i = Some r" "cr_isPvP r = p" "cr_first r = owner" "cr_second r = g"
    then show ?thesis by (simp add: erase_and_end_def EndCombat_def x Purge_idem(1))
  next
    assume "cw_refs w i = Some r" "cr_isPvP r = p" "cr_first r = g" "cr_second r = owner"
    then show ?thesis by (simp add: erase_and_end_def EndCombat_def x Purge_idem(2))
  qed
qed

lemma entries_after_purge:
  assumes "linked w" "cw_refs w i = Some r"
  shows "cw_entries q (PurgeReference (cr_second r) (cr_first r) (cr_isPvP r)
            (PurgeReference (cr_first r) (cr_second r) (cr_isPvP r) w)) u
         = filter (\<lambda>x. snd x \<noteq> i) (cw_entries q w u)"
proof -
  note L = linkedD[OF assms(1)]
  have ne: "cr_first r \<noteq> cr_second r" using L(4) assms(2) by blast
  have key: "fst x \<noteq> v \<longleftrightarrow> snd x \<noteq> i" if "x \<in> set (cw_entries (cr_isPvP r) w k)" "joins r k v" for x k v
  proof -
    obtain g j where x: "x = (g, j)" by (cases x)
    have "(g, j) \<in> set (cw_entries (cr_isPvP r) w k)" using that(1) x by simp
    then obtain s where s: "cw_refs w j = Some s" "joins s k g" unfolding L(1) by blast
    have "g = v \<longleftrightarrow> j = i"
    proof
      assume "g = v"
      then show "j = i" using L(3)[OF s(1) assms(2) s(2)] that(2) by simp
    next
      assume "j = i"
      then have "s = r" using s(1) assms(2) by simp
      then show "g = v" using s(2) that(2) ne by (auto simp: joins_def)
    qed
    then show ?thesis by (simp add: x)
  qed
  have other: "snd x \<noteq> i" if "x \<in> set (cw_entries q w u)" "q \<noteq> cr_isPvP r \<or> u \<notin> {cr_first r, cr_second r}" for x
    using that L(1)[of "fst x" "snd x" q u] assms(2) by (auto simp: joins_def)
  have "joins r (cr_first r) (cr_second r)" "joins r (cr_second r) (cr_first r)" by (auto simp: joins_def)
  note j = this
  have keep: "filter (\<lambda>x. snd x \<noteq> i) (cw_entries q w u) = cw_entries q w u" if "q \<noteq> cr_isPvP r \<or> u \<notin> {cr_first r, cr_second r}"
    using other that by (simp add: filter_id_conv)
  have del: "om_del (cr_GetOther r u) (cw_entries q w u) = filter (\<lambda>x. snd x \<noteq> i) (cw_entries q w u)"
    if "q = cr_isPvP r" "u \<in> {cr_first r, cr_second r}"
    unfolding om_del_def using key[of _ u "cr_GetOther r u"] that j by (intro filter_cong) (auto simp: cr_GetOther_def)
  show ?thesis using keep del ne by (auto simp: cr_GetOther_def)
qed

lemma active_cong:
  assumes "\<And>p. cw_entries p w' u = cw_entries p w u" "\<And>p v i. (v, i) \<in> set (cw_entries p w u) \<Longrightarrow> cw_refs w' i = cw_refs w i"
  shows "active w' u = active w u"
  unfolding active_def assms(1) using assms(2) by metis

lemma linked_remove:
  assumes "linked w" "cw_refs w' = (cw_refs w)(i := None)" "cw_next w' = cw_next w"
    "\<And>p u. cw_entries p w' u = filter (\<lambda>x. snd x \<noteq> i) (cw_entries p w u)"
  shows "linked w'"
proof -
  note L = linkedD[OF assms(1)]
  have "(v, j) \<in> set (cw_entries p w' u) \<longleftrightarrow> (\<exists>r. cw_refs w' j = Some r \<and> cr_isPvP r = p \<and> joins r u v)" for p u v j
    by (auto simp: assms(2,4) L(1))
  moreover have "distinct (map fst (cw_entries p w' u))" for p u
    by (simp add: assms(4) distinct_map_filter L(2))
  moreover have "j = k" if "cw_refs w' j = Some r" "cw_refs w' k = Some s" "joins r u v" "joins s u v" for j k r s u v
    using that L(3)[of j r k s u v] by (auto simp: assms(2) split: if_splits)
  moreover have "j < cw_next w' \<and> cr_first r \<noteq> cr_second r" if "cw_refs w' j = Some r" for j r
    using that L(4)[of j r] by (auto simp: assms(2,3) split: if_splits)
  ultimately show ?thesis unfolding linked_def by blast
qed

lemma EndCombat_ok:
  assumes ok: "cw_ok w" and r: "cw_refs w i = Some r"
  shows "\<exists>w'. EndCombat e i w = Some w' \<and> cw_ok w' \<and> cw_refs w' = (cw_refs w)(i := None) \<and> cw_next w' = cw_next w
    \<and> (\<forall>p u. cw_entries p w' u = filter (\<lambda>x. snd x \<noteq> i) (cw_entries p w u))"
proof -
  let ?a = "cr_first r" let ?b = "cr_second r" let ?p = "cr_isPvP r"
  have l: "linked w" and fl: "cw_inCombat w u = active w u" for u using ok by (simp_all add: cw_ok_def)
  let ?w1 = "emit (ClearThreat ?b ?a) (emit (ClearThreat ?a ?b) w)"
  let ?w2 = "PurgeReference ?b ?a ?p (PurgeReference ?a ?b ?p ?w1)"
  have h1: "heap ?w1 = heap w" by simp
  have l1: "linked ?w1" and r1: "cw_refs ?w1 i = Some r" using l r by (simp_all add: heap_cong[OF h1])
  have ent: "cw_entries q ?w2 u = filter (\<lambda>x. snd x \<noteq> i) (cw_entries q w u)" for q u
    unfolding entries_after_purge[OF l1 r1] by (simp only: heap_cong(3)[OF h1])
  have ref: "cw_refs ?w2 = cw_refs w" "cw_next ?w2 = cw_next w" "cw_inCombat ?w2 = cw_inCombat w"
    by (simp_all add: heap_cong[OF h1])
  have val: "valid ?w2 u" for u
    using linked_valid[OF l, of u] unfolding valid_def ent ref(1) by auto
  obtain w3 where w3: "UpdateOwnerCombatState e ?a ?w2 = Some (cw_inCombat w ?a \<noteq> active ?w2 ?a, w3)"
    "heap w3 = heap ?w2" "cw_inCombat w3 = (cw_inCombat w)(?a := active ?w2 ?a)"
    using UpdateOwner_valid[OF val, of e ?a] unfolding ref(3) by blast
  have "valid w3 ?b" using val[of ?b] unfolding valid_def heap_cong[OF w3(2)] .
  then obtain b4 w4 where w4: "UpdateOwnerCombatState e ?b w3 = Some (b4, w4)" "heap w4 = heap w3"
    "cw_inCombat w4 = (cw_inCombat w3)(?b := active ?w2 ?b)"
    using UpdateOwner_valid[of w3 ?b e] unfolding heap_cong(4)[OF w3(2)] by blast
  let ?w5 = "if cw_inCombat w ?a \<noteq> active ?w2 ?a then notify_exit e ?a w4 else w4"
  define w6 where "w6 = (if b4 then notify_exit e ?b ?w5 else ?w5)"
  let ?w = "w6\<lparr>cw_refs := (cw_refs w6)(i := None)\<rparr>"
  have h6: "heap w6 = heap ?w2" "cw_inCombat w6 = cw_inCombat w4"
    using w3(2) w4(2) unfolding w6_def by simp_all
  have run: "EndCombat e i w = Some ?w"
    using w3(1) w4(1) by (simp add: EndCombat_def r Let_def w6_def)
  have refs: "cw_refs ?w = (cw_refs w)(i := None)" and nxt: "cw_next ?w = cw_next w"
    using heap_cong(1,2)[OF h6(1)] ref by simp_all
  have e6: "cw_entries q ?w = cw_entries q w6" for q by (simp add: cw_entries_def fun_eq_iff)
  have e': "cw_entries q ?w u = filter (\<lambda>x. snd x \<noteq> i) (cw_entries q w u)" for q u
    unfolding e6 heap_cong(3)[OF h6(1)] by (rule ent)
  have lk: "linked ?w" by (rule linked_remove[OF l refs nxt e'])
  have act2: "active ?w u = active ?w2 u" for u
    by (rule active_cong) (unfold e' ent refs ref(1), auto)
  have same: "active ?w2 u = active w u" if "u \<noteq> ?a" "u \<noteq> ?b" for u
  proof (rule active_cong)
    fix p show "cw_entries p ?w2 u = cw_entries p w u"
      unfolding ent using linkedD(1)[OF l] r that by (fastforce simp: filter_id_conv joins_def)
  qed (rule fun_cong[OF ref(1)])
  have "cw_inCombat ?w u = active ?w u" for u
    unfolding act2 using same[of u] fl[of u] by (cases "u = ?b"; cases "u = ?a") (simp_all add: h6(2) w3(3) w4(3))
  with lk have "cw_ok ?w" by (simp add: cw_ok_def)
  with run refs nxt e' show ?thesis by blast
qed

section \<open>Changing a reference\<close>

lemma set_ref_linked:
  assumes "linked w" "cw_refs w i = Some r" "cr_first s = cr_first r" "cr_second s = cr_second r" "cr_isPvP s = cr_isPvP r"
  shows "linked (set_ref i s w)"
proof -
  note L = linkedD[OF assms(1)]
  have j: "joins s u v = joins r u v" for u v using assms(3,4) by (simp add: joins_def)
  have orig: "\<exists>q. cw_refs w k = Some q \<and> cr_first t = cr_first q \<and> cr_second t = cr_second q \<and> cr_isPvP t = cr_isPvP q"
    if "cw_refs (set_ref i s w) k = Some t" for k t
    using that assms by (cases "k = i") auto
  have "(v, k) \<in> set (cw_entries p (set_ref i s w) u) \<longleftrightarrow>
      (\<exists>t. cw_refs (set_ref i s w) k = Some t \<and> cr_isPvP t = p \<and> joins t u v)" for p u v k
    using assms(2,5) j by (cases "k = i") (auto simp: L(1))
  moreover have "distinct (map fst (cw_entries p (set_ref i s w) u))" for p u by (simp add: L(2))
  moreover have "k = m" if "cw_refs (set_ref i s w) k = Some t" "cw_refs (set_ref i s w) m = Some t'" "joins t u v" "joins t' u v" for k m t t' u v
    using orig[OF that(1)] orig[OF that(2)] that(3,4) L(3)[of k _ m _ u v] unfolding joins_def by metis
  moreover have "k < cw_next (set_ref i s w) \<and> cr_first t \<noteq> cr_second t" if "cw_refs (set_ref i s w) k = Some t" for k t
    using orig[OF that] L(4)[of k] by fastforce
  ultimately show ?thesis unfolding linked_def by blast
qed

lemma active_set_ref:
  assumes "linked w" "cw_refs w i = Some r" "u = cr_first r \<or> u = cr_second r \<Longrightarrow> cr_IsSuppressedFor s u = cr_IsSuppressedFor r u"
    "cr_first s = cr_first r" "cr_second s = cr_second r" "cr_isPvP s = cr_isPvP r"
  shows "active (set_ref i s w) u = active w u"
  unfolding active_linked[OF set_ref_linked[OF assms(1,2,4,5,6)]] active_linked[OF assms(1)]
  using assms(2-5) by (auto split: if_splits) (metis option.inject)+

text \<open>A change of one side's suppression followed by the update of that side.\<close>

lemma change_then_update:
  assumes ok: "cw_ok w" "cw_refs w i = Some r"
    and s: "cr_first s = cr_first r" "cr_second s = cr_second r" "cr_isPvP s = cr_isPvP r"
    and other: "\<And>x. x \<noteq> u \<Longrightarrow> x = cr_first r \<or> x = cr_second r \<Longrightarrow> cr_IsSuppressedFor s x = cr_IsSuppressedFor r x"
  shows "\<exists>b w'. UpdateOwnerCombatState e u (set_ref i s w) = Some (b, w') \<and> cw_ok w' \<and> heap w' = heap (set_ref i s w)"
proof -
  have l: "linked w" and fl: "\<And>x. cw_inCombat w x = active w x" using ok(1) by (simp_all add: cw_ok_def)
  note l' = set_ref_linked[OF l ok(2) s]
  obtain b w' where w': "UpdateOwnerCombatState e u (set_ref i s w) = Some (b, w')" "heap w' = heap (set_ref i s w)"
    "cw_inCombat w' = (cw_inCombat w)(u := active (set_ref i s w) u)"
    using UpdateOwner_valid[OF linked_valid[OF l'], of e u] by auto
  have "cw_inCombat w' x = active w' x" for x
    unfolding heap_cong(4)[OF w'(2)] w'(3) using active_set_ref[OF l ok(2) other s, of x] fl[of x] by (cases "x = u") simp_all
  then have "cw_ok w'" unfolding cw_ok_def heap_cong(5)[OF w'(2)] using l' by blast
  with w' show ?thesis by blast
qed

lemma set_ref_ok:
  assumes "cw_ok w" "cw_refs w i = Some r" "cr_first s = cr_first r" "cr_second s = cr_second r" "cr_isPvP s = cr_isPvP r"
    "\<And>x. cr_IsSuppressedFor s x = cr_IsSuppressedFor r x"
  shows "cw_ok (set_ref i s w)"
proof -
  have l: "linked w" using assms(1) by (simp add: cw_ok_def)
  have "active (set_ref i s w) u = active w u" for u by (rule active_set_ref[OF l assms(2) assms(6) assms(3-5)])
  with assms(1) set_ref_linked[OF l assms(2-5)] show ?thesis by (simp add: cw_ok_def)
qed

text \<open>What an operation does to the references, as a function on them; everything else follows.\<close>

definition refreshed :: "combat_ref \<Rightarrow> combat_ref" where
  "refreshed r = r\<lparr>cr_suppressFirst := False, cr_suppressSecond := False\<rparr>"

lemma Refresh_ok:
  assumes "cw_ok w" "cw_refs w i = Some r"
  shows "\<exists>w'. cr_Refresh e i w = Some w' \<and> cw_ok w' \<and> heap w' = heap (set_ref i (refreshed r) w)"
proof -
  have ne: "cr_first r \<noteq> cr_second r" using assms by (auto simp: cw_ok_def dest: linkedD(4))
  let ?r1 = "r\<lparr>cr_suppressFirst := False\<rparr>"
  obtain b1 w1 where w1: "(if cr_suppressFirst r then UpdateOwnerCombatState e (cr_first r) (set_ref i ?r1 w) else Some (False, w)) = Some (b1, w1)"
    "cw_ok w1" "heap w1 = heap (set_ref i ?r1 w)"
  proof (cases "cr_suppressFirst r")
    case True
    with change_then_update[OF assms, of ?r1 "cr_first r" e] that show ?thesis by (auto simp: cr_IsSuppressedFor_def)
  next
    case False
    then have "?r1 = r" by simp
    with False assms that[of False w] show ?thesis by (simp add: set_ref_def heap_def fun_upd_idem)
  qed
  have r1: "cw_refs w1 i = Some ?r1" using heap_cong(1)[OF w1(3)] by simp
  let ?r2 = "?r1\<lparr>cr_suppressSecond := False\<rparr>"
  obtain b2 w2 where w2: "(if cr_suppressSecond ?r1 then UpdateOwnerCombatState e (cr_second ?r1) (set_ref i ?r2 w1) else Some (False, w1)) = Some (b2, w2)"
    "cw_ok w2" "heap w2 = heap (set_ref i ?r2 w1)"
  proof (cases "cr_suppressSecond ?r1")
    case True
    with change_then_update[OF w1(2) r1, of ?r2 "cr_second ?r1" e] that ne show ?thesis by (auto simp: cr_IsSuppressedFor_def)
  next
    case False
    then have "?r2 = ?r1" by simp
    with False w1(2) r1 that[of False w1] show ?thesis by (simp add: set_ref_def heap_def fun_upd_idem)
  qed
  let ?w3 = "if b1 then NotifyAICombat e (cr_first r) (cr_second r) w2 else w2"
  let ?w4 = "if b2 then NotifyAICombat e (cr_second r) (cr_first r) ?w3 else ?w3"
  have run: "cr_Refresh e i w = Some ?w4"
    using w1(1) r1 w2(1) unfolding cr_Refresh_def by (simp add: assms(2) Let_def)
  have "heap w2 = heap (set_ref i (refreshed r) w)"
    unfolding w2(3) using heap_cong(1,2)[OF w1(3)] w1(3) by (simp add: heap_def set_ref_def refreshed_def)
  moreover have "heap ?w4 = heap w2" "cw_inCombat ?w4 = cw_inCombat w2" by simp_all
  moreover from this have "cw_ok ?w4" using ok_cong w2(2) by blast
  ultimately show ?thesis using run by metis
qed

lemma SuppressFor_ok:
  assumes "cw_ok w" "cw_refs w i = Some r" "who = cr_first r \<or> who = cr_second r"
  shows "\<exists>w'. SuppressFor e i who w = Some w' \<and> cw_ok w' \<and> heap w' = heap (set_ref i (cr_Suppress who r) w)"
proof -
  have ne: "cr_first r \<noteq> cr_second r" using assms(1,2) by (auto simp: cw_ok_def dest: linkedD(4))
  obtain b w1 where w1: "UpdateOwnerCombatState e who (set_ref i (cr_Suppress who r) w) = Some (b, w1)" "cw_ok w1"
    "heap w1 = heap (set_ref i (cr_Suppress who r) w)"
    using change_then_update[OF assms(1,2), of "cr_Suppress who r" who e] assms(3) ne
    by (auto simp: cr_Suppress_def cr_IsSuppressedFor_def)
  let ?w2 = "if b then notify_exit e who w1 else w1"
  have "SuppressFor e i who w = Some ?w2" using w1(1) by (simp add: SuppressFor_def assms(2))
  moreover have "heap ?w2 = heap w1" "cw_inCombat ?w2 = cw_inCombat w1" by simp_all
  moreover from this have "cw_ok ?w2" using ok_cong w1(2) by blast
  ultimately show ?thesis using w1(3) by metis
qed

section \<open>Beginning a combat\<close>

lemma in_combat_linked:
  assumes "linked w"
  shows "IsInCombatWith w u v \<longleftrightarrow> (\<exists>i r. cw_refs w i = Some r \<and> joins r u v)"
proof -
  have "map_of (cw_entries p w u) v \<noteq> None \<longleftrightarrow> (\<exists>i r. cw_refs w i = Some r \<and> cr_isPvP r = p \<and> joins r u v)" for p
    unfolding map_of_eq_None_iff using linkedD(1)[OF assms, of v _ p u] by force
  note m = this
  have "IsInCombatWith w u v \<longleftrightarrow> (\<exists>p. map_of (cw_entries p w u) v \<noteq> None)"
    unfolding IsInCombatWith_def cw_entries_def by (metis (full_types))
  then show ?thesis unfolding m by blast
qed

lemma joins_sym: "joins r u v = joins r v u"
  by (auto simp: joins_def)

lemma in_combat_sym: "linked w \<Longrightarrow> IsInCombatWith w u v = IsInCombatWith w v u"
  by (simp add: in_combat_linked joins_sym)

lemma in_combat_irrefl: "linked w \<Longrightarrow> \<not> IsInCombatWith w u u"
  by (auto simp: in_combat_linked joins_def dest: linkedD(4))

lemma PutReference_new:
  assumes "cw_refs w i = Some r" "map_of (cw_entries (cr_isPvP r) w owner) g = None"
  shows "\<exists>w'. PutReference owner g i w = Some w' \<and> cw_refs w' = cw_refs w \<and> cw_next w' = cw_next w
    \<and> cw_inCombat w' = cw_inCombat w \<and> cw_events w' = cw_events w
    \<and> (\<forall>q u. cw_entries q w' u = cw_entries q w u @ (if q = cr_isPvP r \<and> u = owner then [(g, i)] else []))"
  using assms by (auto simp: PutReference_def cw_entries_def split: if_splits)

lemma linked_insert:
  assumes l: "linked w" and new: "\<not> IsInCombatWith w a b" "a \<noteq> b" "cw_refs w i = None"
    and r: "cr_first r = a" "cr_second r = b" and ref: "cw_refs w' = (cw_refs w)(i \<mapsto> r)" "cw_next w \<le> i" "cw_next w' = i + 1"
    and ent: "\<And>q u. cw_entries q w' u = cw_entries q w u
        @ (if q = cr_isPvP r \<and> u = a then [(b, i)] else []) @ (if q = cr_isPvP r \<and> u = b then [(a, i)] else [])"
  shows "linked w'"
proof -
  note L = linkedD[OF l]
  have no: "\<not> joins s a b" "\<not> joins s b a" if "cw_refs w j = Some s" for j s
    using new(1) that unfolding in_combat_linked[OF l] by (auto simp: joins_sym)
  have j: "joins r u v \<longleftrightarrow> u = a \<and> v = b \<or> u = b \<and> v = a" for u v using r by (auto simp: joins_def)
  have "(v, k) \<in> set (cw_entries p w' u) \<longleftrightarrow> (\<exists>t. cw_refs w' k = Some t \<and> cr_isPvP t = p \<and> joins t u v)" for p u v k
    unfolding ent set_append Un_iff L(1) ref(1) using new(3) by (cases "k = i") (auto simp: j)
  moreover have "distinct (map fst (cw_entries p w' u))" for p u
  proof -
    have "b \<notin> fst ` set (cw_entries p w a)" "a \<notin> fst ` set (cw_entries p w b)"
      using L(1)[of _ _ p a] L(1)[of _ _ p b] no by auto
    then show ?thesis unfolding ent using L(2)[of p u] new(2) by (auto split: if_splits)
  qed
  moreover have "k = m" if "cw_refs w' k = Some t" "cw_refs w' m = Some t'" "joins t u v" "joins t' u v" for k m t t' u v
  proof -
    have absurd: False if "joins r u v" "cw_refs w n = Some q" "joins q u v" for n q
      using that no[of n q] by (auto simp: j)
    show ?thesis using that L(3)[of k t m t' u v] absurd unfolding ref(1) by (auto split: if_splits)
  qed
  moreover have "k < cw_next w' \<and> cr_first t \<noteq> cr_second t" if "cw_refs w' k = Some t" for k t
    using that L(4)[of k t] new(2) r ref(2) unfolding ref(1,3) by (auto split: if_splits)
  ultimately show ?thesis unfolding linked_def by blast
qed

text \<open>What a successful request guarantees about the pair, and that all other references stay.\<close>

definition set_in_combat_spec :: "combat_env \<Rightarrow> unit_id \<Rightarrow> unit_id \<Rightarrow> bool \<Rightarrow> combat_world \<Rightarrow> bool \<Rightarrow> combat_world \<Rightarrow> bool" where
  "set_in_combat_spec e a b addS w res w' \<longleftrightarrow>
     cw_ok w' \<and> res = (IsInCombatWith w a b \<or> CanBeginCombat e a b) \<and> res = IsInCombatWith w' a b
     \<and> (\<forall>i r. \<not> joins r a b \<longrightarrow> (cw_refs w' i = Some r) = (cw_refs w i = Some r))
     \<and> (\<forall>i r. cw_refs w i = Some r \<longrightarrow> (\<exists>s. cw_refs w' i = Some s \<and> cr_first s = cr_first r \<and> cr_second s = cr_second r))
     \<and> (res \<longrightarrow> (\<exists>i r. cw_refs w' i = Some r \<and> joins r a b \<and> \<not> cr_IsSuppressedFor r a
          \<and> (addS \<and> \<not> IsInCombatWith w a b \<or> \<not> cr_IsSuppressedFor r b)
          \<and> (cr_isPvP r \<longrightarrow> cr_combatTimer r = PVP_COMBAT_TIMEOUT)))"

lemma refresh_spec:
  assumes ok: "cw_ok w" and i: "(b, i) \<in> set (cw_entries p w a)" and r: "cw_refs w i = Some r"
    and s: "cr_first s = cr_first r" "cr_second s = cr_second r" "cr_isPvP s = cr_isPvP r"
      "\<And>x. cr_IsSuppressedFor s x = cr_IsSuppressedFor r x" "cr_isPvP s \<longrightarrow> cr_combatTimer s = PVP_COMBAT_TIMEOUT"
    and w0: "w0 = set_ref i s w"
  shows "\<exists>w'. cr_Refresh e i w0 = Some w' \<and> set_in_combat_spec e a b addS w True w'"
proof -
  have l: "linked w" using ok by (simp add: cw_ok_def)
  have j: "joins r a b" using i r unfolding linkedD(1)[OF l] by simp
  have c: "IsInCombatWith w a b" using j r in_combat_linked[OF l] by blast
  have s0: "cw_ok w0" "cw_refs w0 i = Some s" using set_ref_ok[OF ok r s(1-4)] by (simp_all add: w0)
  obtain w' where w': "cr_Refresh e i w0 = Some w'" "cw_ok w'" "heap w' = heap (set_ref i (refreshed s) w0)"
    using Refresh_ok[OF s0] by blast
  have refs: "cw_refs w' = (cw_refs w)(i \<mapsto> refreshed s)" using heap_cong(1)[OF w'(3)] by (simp add: w0)
  have js: "joins (refreshed s) a b" using j s(1,2) by (simp add: joins_def refreshed_def)
  have "IsInCombatWith w' a b" using js refs in_combat_linked[of w'] w'(2) by (auto simp: cw_ok_def)
  moreover have "(cw_refs w' k = Some t) = (cw_refs w k = Some t)" if "\<not> joins t a b" for k t
    using that r j js by (auto simp: refs)
  moreover have "\<exists>t. cw_refs w' k = Some t \<and> cr_first t = cr_first q \<and> cr_second t = cr_second q" if "cw_refs w k = Some q" for k q
    using that r s(1,2) by (auto simp: refs refreshed_def)
  moreover have "\<not> cr_IsSuppressedFor (refreshed s) x" for x by (simp add: cr_IsSuppressedFor_def refreshed_def)
  moreover have "cr_isPvP (refreshed s) \<longrightarrow> cr_combatTimer (refreshed s) = PVP_COMBAT_TIMEOUT" using s(5) by (simp add: refreshed_def)
  moreover have "cw_refs w' i = Some (refreshed s)" by (simp add: refs)
  ultimately show ?thesis using w'(1,2) c js unfolding set_in_combat_spec_def by blast
qed

lemma begin_spec:
  assumes ok: "cw_ok w" and none: "\<not> IsInCombatWith w a b" and can: "CanBeginCombat e a b"
  shows "\<exists>w'. SetInCombatWith e a b addS w = Some (True, w') \<and> set_in_combat_spec e a b addS w True w'"
proof -
  have l: "linked w" and fl: "\<And>u. cw_inCombat w u = active w u" using ok by (simp_all add: cw_ok_def)
  have ne: "a \<noteq> b" using can by (auto simp: CanBeginCombat_def)
  let ?i = "cw_next w"
  define r0 where "r0 = (if ce_controlledByPlayer e a \<and> ce_controlledByPlayer e b then PvPCombatReference_new a b else CombatReference_new a b)"
  define r where "r = (if addS then cr_Suppress b r0 else r0)"
  have rr: "cr_first r = a" "cr_second r = b" "\<not> cr_IsSuppressedFor r a" "cr_IsSuppressedFor r b = addS"
    "cr_isPvP r \<longrightarrow> cr_combatTimer r = PVP_COMBAT_TIMEOUT"
    using ne by (auto simp: r_def r0_def PvPCombatReference_new_def CombatReference_new_def cr_Suppress_def cr_IsSuppressedFor_def)
  have fresh: "cw_refs w ?i = None" using linkedD(4)[OF l, of ?i] by (cases "cw_refs w ?i") auto
  define w1 where "w1 = set_ref ?i r (w\<lparr>cw_next := ?i + 1\<rparr>)"
  have w1: "cw_refs w1 = (cw_refs w)(?i \<mapsto> r)" "cw_next w1 = ?i + 1" "cw_inCombat w1 = cw_inCombat w" "\<And>q. cw_entries q w1 = cw_entries q w"
    by (simp_all add: w1_def set_ref_def cw_entries_def fun_eq_iff)
  have nk: "map_of (cw_entries p w a) b = None" "map_of (cw_entries p w b) a = None" for p
    using none in_combat_sym[OF l, of a b] unfolding IsInCombatWith_def cw_entries_def by auto
  obtain w2 where w2: "PutReference a b ?i w1 = Some w2" "cw_refs w2 = cw_refs w1" "cw_next w2 = cw_next w1" "cw_inCombat w2 = cw_inCombat w1"
    "\<And>q u. cw_entries q w2 u = cw_entries q w u @ (if q = cr_isPvP r \<and> u = a then [(b, ?i)] else [])"
    using PutReference_new[of w1 ?i r a b] nk by (auto simp: w1)
  have nk2: "map_of (cw_entries (cr_isPvP r) w2 b) a = None" using nk(2) ne by (simp add: w2(5))
  have w2i: "cw_refs w2 ?i = Some r" by (simp add: w2(2) w1(1))
  obtain w3 where w3: "PutReference b a ?i w2 = Some w3" "cw_refs w3 = cw_refs w2" "cw_next w3 = cw_next w2" "cw_inCombat w3 = cw_inCombat w2"
    "\<And>q u. cw_entries q w3 u = cw_entries q w2 u @ (if q = cr_isPvP r \<and> u = b then [(a, ?i)] else [])"
    using PutReference_new[OF w2i nk2] by metis
  have refs: "cw_refs w3 = (cw_refs w)(?i \<mapsto> r)" "cw_next w3 = ?i + 1" by (simp_all add: w3 w2 w1)
  have l3: "linked w3"
    by (rule linked_insert[OF l none ne fresh rr(1,2) refs(1) order_refl refs(2)]) (simp add: w3(5) w2(5))
  have same: "active w3 u = active w u" if "u \<noteq> a" "u \<noteq> b" for u
  proof (rule active_cong)
    fix p v k assume "(v, k) \<in> set (cw_entries p w u)"
    then have "k \<noteq> ?i" using linkedD(1)[OF l] fresh by auto
    then show "cw_refs w3 k = cw_refs w k" by (simp add: refs)
  qed (use that in \<open>simp add: w3(5) w2(5)\<close>)
  obtain b4 w4 where w4: "UpdateOwnerCombatState e a w3 = Some (b4, w4)" "heap w4 = heap w3" "cw_inCombat w4 = (cw_inCombat w)(a := active w3 a)"
    using UpdateOwner_valid[OF linked_valid[OF l3], of e a] by (auto simp: w3(4) w2(4) w1(3))
  have "valid w4 b" using linked_valid[OF l3, of b] unfolding valid_def heap_cong[OF w4(2)] .
  then obtain b5 w5 where w5: "UpdateOwnerCombatState e b w4 = Some (b5, w5)" "heap w5 = heap w4" "cw_inCombat w5 = (cw_inCombat w4)(b := active w3 b)"
    using UpdateOwner_valid[of w4 b e] unfolding heap_cong(4)[OF w4(2)] by blast
  define w7 where "w7 = (let w6 = (if b4 then NotifyAICombat e a b w5 else w5) in if b5 then NotifyAICombat e b a w6 else w6)"
  have h7: "heap w7 = heap w3" "cw_inCombat w7 = cw_inCombat w5" using w4(2) w5(2) by (simp_all add: w7_def Let_def)
  have "cw_inCombat w7 u = active w7 u" for u
    unfolding heap_cong(4)[OF h7(1)] h7(2) w5(3) w4(3) using same[of u] fl[of u] by (cases "u = b"; cases "u = a") simp_all
  then have ok7: "cw_ok w7" unfolding cw_ok_def heap_cong(5)[OF h7(1)] using l3 by blast
  have refs7: "cw_refs w7 = (cw_refs w)(?i \<mapsto> r)" unfolding heap_cong(1)[OF h7(1)] by (rule refs(1))
  have jr: "joins r a b" using rr by (simp add: joins_def)
  have in7: "IsInCombatWith w7 a b" using ok7 jr refs7 by (auto simp: cw_ok_def in_combat_linked)
  have "map_of (cw_pvpRefs w a) b = None" "map_of (cw_pveRefs w a) b = None" using none by (auto simp: IsInCombatWith_def)
  then have "SetInCombatWith e a b addS w = Some (IsInCombatWith w7 a b, w7)"
    using can w2(1) w3(1) w4(1) w5(1) unfolding SetInCombatWith_def w7_def w1_def r_def r0_def by (simp add: Let_def)
  moreover have "set_in_combat_spec e a b addS w True w7"
  proof -
    have old: "(cw_refs w7 k = Some t) = (cw_refs w k = Some t)" if "\<not> joins t a b" for k t
      using that jr fresh by (auto simp: refs7)
    have keep: "\<exists>s. cw_refs w7 k = Some s \<and> cr_first s = cr_first q \<and> cr_second s = cr_second q" if "cw_refs w k = Some q" for k q
      using that fresh by (auto simp: refs7)
    have "cw_refs w7 ?i = Some r" by (simp add: refs7)
    then show ?thesis unfolding set_in_combat_spec_def using ok7 can in7 old keep jr rr none by blast
  qed
  ultimately show ?thesis using in7 by auto
qed

lemma SetInCombatWith_ok:
  assumes "cw_ok w"
  shows "\<exists>res w'. SetInCombatWith e a b addS w = Some (res, w') \<and> set_in_combat_spec e a b addS w res w'"
proof -
  have l: "linked w" using assms by (simp add: cw_ok_def)
  consider (pvp) i where "map_of (cw_pvpRefs w a) b = Some i"
    | (pve) i where "map_of (cw_pvpRefs w a) b = None" "map_of (cw_pveRefs w a) b = Some i"
    | (can) "\<not> IsInCombatWith w a b" "CanBeginCombat e a b"
    | (no) "\<not> IsInCombatWith w a b" "\<not> CanBeginCombat e a b"
    by (cases "map_of (cw_pvpRefs w a) b"; cases "map_of (cw_pveRefs w a) b"; cases "CanBeginCombat e a b")
       (auto simp: IsInCombatWith_def)
  then show ?thesis
  proof cases
    case pvp
    then have i: "(b, i) \<in> set (cw_entries True w a)" by (auto simp: cw_entries_def dest: map_of_SomeD)
    then obtain r where r: "cw_refs w i = Some r" unfolding linkedD(1)[OF l] by blast
    let ?s = "pvp_RefreshTimer r"
    have s: "cr_first ?s = cr_first r" "cr_second ?s = cr_second r" "cr_isPvP ?s = cr_isPvP r"
      "cr_IsSuppressedFor ?s x = cr_IsSuppressedFor r x" "cr_isPvP ?s \<longrightarrow> cr_combatTimer ?s = PVP_COMBAT_TIMEOUT" for x
      by (simp_all add: pvp_RefreshTimer_def cr_IsSuppressedFor_def)
    obtain w' where "cr_Refresh e i (set_ref i ?s w) = Some w'" "set_in_combat_spec e a b addS w True w'"
      using refresh_spec[OF assms i r s refl] by blast
    with pvp r show ?thesis by (auto simp: SetInCombatWith_def)
  next
    case pve
    then have i: "(b, i) \<in> set (cw_entries False w a)" by (auto simp: cw_entries_def dest: map_of_SomeD)
    then obtain r where r: "cw_refs w i = Some r" "\<not> cr_isPvP r" unfolding linkedD(1)[OF l] by blast
    have "set_ref i r w = w" using r(1) by (simp add: set_ref_def fun_upd_idem)
    then obtain w' where "cr_Refresh e i w = Some w'" "set_in_combat_spec e a b addS w True w'"
      using refresh_spec[OF assms i r(1), of r w e addS] r(2) by auto
    with pve show ?thesis by (auto simp: SetInCombatWith_def)
  next
    case can
    with begin_spec[OF assms] show ?thesis by blast
  next
    case no
    then have "SetInCombatWith e a b addS w = Some (False, w)" by (auto simp: SetInCombatWith_def IsInCombatWith_def)
    with no assms show ?thesis by (auto simp: set_in_combat_spec_def)
  qed
qed

section \<open>The loops\<close>

lemma entry_ids:
  assumes "linked w" "x \<in> set (cw_entries p w u)" "y \<in> set (cw_entries p w u)" "snd x = snd y"
  shows "x = y"
proof -
  obtain r where r: "cw_refs w (snd x) = Some r" "joins r u (fst x)" using assms(1,2) linkedD(1)[of w "fst x" "snd x" p u] by auto
  moreover have "joins r u (fst y)" using assms linkedD(1)[of w "fst y" "snd y" p u] r by auto
  ultimately have "fst x = fst y" using linkedD(4)[OF assms(1) r(1)] by (auto simp: joins_def)
  then show ?thesis using assms(4) by (simp add: prod_eq_iff)
qed

lemma entries_distinct: "linked w \<Longrightarrow> distinct (cw_entries p w u)"
  using linkedD(2) by (metis distinct_map)

lemma end_loop_ok:
  assumes "cw_ok w" "set xs \<subseteq> set (cw_entries p w u)" "distinct xs"
  shows "\<exists>w'. end_loop e u p ends xs w = Some w' \<and> cw_ok w'
    \<and> cw_refs w' = (\<lambda>j. if \<exists>x \<in> set xs. snd x = j \<and> ends (the (cw_refs w j)) then None else cw_refs w j)"
  using assms
proof (induction xs arbitrary: w)
  case (Cons x xs)
  have l: "linked w" using Cons.prems(1) by (simp add: cw_ok_def)
  have xin: "x \<in> set (cw_entries p w u)" using Cons.prems(2) by simp
  then obtain r where r: "cw_refs w (snd x) = Some r" using linkedD(1)[OF l, of "fst x" "snd x" p u] by auto
  have rest: "y \<in> set xs \<Longrightarrow> snd y \<noteq> snd x" for y using entry_ids[OF l xin, of y] Cons.prems(2,3) by auto
  show ?case
  proof (cases "ends r")
    case False
    with Cons.IH[OF Cons.prems(1)] Cons.prems r show ?thesis by (auto simp: fun_eq_iff)
  next
    case True
    obtain w1 where w1: "EndCombat e (snd x) w = Some w1" "cw_ok w1" "cw_refs w1 = (cw_refs w)(snd x := None)"
      "\<And>p u. cw_entries p w1 u = filter (\<lambda>y. snd y \<noteq> snd x) (cw_entries p w u)"
      using EndCombat_ok[OF Cons.prems(1) r] by blast
    have "set xs \<subseteq> set (cw_entries p w1 u)" using Cons.prems(2) rest by (auto simp: w1(4))
    then obtain w' where w': "end_loop e u p ends xs w1 = Some w'" "cw_ok w'"
      "cw_refs w' = (\<lambda>j. if \<exists>x \<in> set xs. snd x = j \<and> ends (the (cw_refs w1 j)) then None else cw_refs w1 j)"
      using Cons.IH[OF w1(2)] Cons.prems(3) by auto
    have "end_loop e u p ends (x # xs) w = Some w'"
      using w'(1) True by (simp add: r erase_and_end_eq[OF l xin] w1(1))
    moreover have "cw_refs w' = (\<lambda>j. if \<exists>y \<in> set (x # xs). snd y = j \<and> ends (the (cw_refs w j)) then None else cw_refs w j)"
      using r True rest by (fastforce simp: fun_eq_iff w'(3) w1(3))
    ultimately show ?thesis using w'(2) by blast
  qed
qed simp

text \<open>Of a whole map: exactly the references of its kind and owner that are to end are gone.\<close>

lemma end_loop_all:
  assumes "cw_ok w"
  shows "\<exists>w'. end_loop e u p ends (cw_entries p w u) w = Some w' \<and> cw_ok w'
    \<and> cw_refs w' = (\<lambda>j. case cw_refs w j of None \<Rightarrow> None
        | Some r \<Rightarrow> if cr_isPvP r = p \<and> (u = cr_first r \<or> u = cr_second r) \<and> ends r then None else Some r)"
proof -
  have l: "linked w" using assms by (simp add: cw_ok_def)
  have "(\<exists>x \<in> set (cw_entries p w u). snd x = j \<and> ends (the (cw_refs w j)))
      \<longleftrightarrow> (\<exists>r. cw_refs w j = Some r \<and> cr_isPvP r = p \<and> (u = cr_first r \<or> u = cr_second r) \<and> ends r)" for j
  proof -
    have "(\<exists>x \<in> set (cw_entries p w u). snd x = j) \<longleftrightarrow> (\<exists>v. (v, j) \<in> set (cw_entries p w u))" by force
    also have "\<dots> \<longleftrightarrow> (\<exists>r. cw_refs w j = Some r \<and> cr_isPvP r = p \<and> (u = cr_first r \<or> u = cr_second r))"
      unfolding linkedD(1)[OF l] joins_def by blast
    finally show ?thesis by auto
  qed
  with end_loop_ok[OF assms, of "cw_entries p w u" p u e ends] entries_distinct[OF l]
  show ?thesis by (auto simp: fun_eq_iff split: option.splits)
qed

lemma suppress_loop_ok:
  assumes "linked w" "set xs \<subseteq> set (cw_entries p w u)"
  shows "\<exists>w'. suppress_loop u xs w = Some w' \<and> linked w' \<and> cw_inCombat w' = cw_inCombat w
    \<and> (\<forall>x. x \<noteq> u \<longrightarrow> active w' x = active w x)"
  using assms
proof (induction xs arbitrary: w)
  case (Cons x xs)
  obtain r where r: "cw_refs w (snd x) = Some r" "joins r u (fst x)"
    using Cons.prems linkedD(1)[OF Cons.prems(1), of "fst x" "snd x" p u] by auto
  let ?s = "cr_Suppress u r" let ?w = "set_ref (snd x) ?s w"
  have s: "cr_first ?s = cr_first r" "cr_second ?s = cr_second r" "cr_isPvP ?s = cr_isPvP r" by (simp_all add: cr_Suppress_def)
  have l: "linked ?w" by (rule set_ref_linked[OF Cons.prems(1) r(1) s])
  have "set xs \<subseteq> set (cw_entries p ?w u)" using Cons.prems(2) by simp
  then obtain w' where w': "suppress_loop u xs ?w = Some w'" "linked w'" "cw_inCombat w' = cw_inCombat w"
    "\<And>x. x \<noteq> u \<Longrightarrow> active w' x = active ?w x" using Cons.IH[OF l] by auto
  have "active ?w y = active w y" if "y \<noteq> u" for y
  proof (rule active_set_ref[OF Cons.prems(1) r(1) _ s])
    assume y: "y = cr_first r \<or> y = cr_second r"
    with that r(2) show "cr_IsSuppressedFor ?s y = cr_IsSuppressedFor r y"
      by (auto simp: cr_IsSuppressedFor_def cr_Suppress_def joins_def)
  qed
  with w' show ?case by (simp add: r(1))
qed simp

lemma SuppressPvPCombat_ok:
  assumes "cw_ok w"
  shows "\<exists>w'. SuppressPvPCombat e u w = Some w' \<and> cw_ok w'"
proof -
  have l: "linked w" and fl: "\<And>x. cw_inCombat w x = active w x" using assms by (simp_all add: cw_ok_def)
  obtain w1 where w1: "suppress_loop u (cw_pvpRefs w u) w = Some w1" "linked w1" "cw_inCombat w1 = cw_inCombat w"
    "\<And>x. x \<noteq> u \<Longrightarrow> active w1 x = active w x"
    using suppress_loop_ok[OF l, of "cw_pvpRefs w u" True u] by (auto simp: cw_entries_def)
  obtain b w2 where w2: "UpdateOwnerCombatState e u w1 = Some (b, w2)" "heap w2 = heap w1" "cw_inCombat w2 = (cw_inCombat w)(u := active w1 u)"
    using UpdateOwner_valid[OF linked_valid[OF w1(2)], of e u] by (auto simp: w1(3))
  let ?w3 = "if b then notify_exit e u w2 else w2"
  have "heap ?w3 = heap w2" "cw_inCombat ?w3 = cw_inCombat w2" by simp_all
  moreover have "cw_ok w2" unfolding cw_ok_def heap_cong(4,5)[OF w2(2)] w2(3) using w1(2,4) fl by auto
  ultimately have "cw_ok ?w3" using ok_cong by blast
  then show ?thesis using w1(1) w2(1) by (simp add: SuppressPvPCombat_def)
qed

lemma inherit_loop_ok:
  assumes "cw_ok w" "\<forall>x \<in> set xs. cw_refs w (snd x) \<noteq> None"
  shows "\<exists>w'. inherit_loop e u who p xs w = Some w' \<and> cw_ok w'"
  using assms
proof (induction xs arbitrary: w)
  case (Cons x xs)
  obtain r where r: "cw_refs w (snd x) = Some r" using Cons.prems(2) by auto
  obtain res w1 where w1: "SetInCombatWith e u (cr_GetOther r who) False w = Some (res, w1)" "set_in_combat_spec e u (cr_GetOther r who) False w res w1"
    using SetInCombatWith_ok[OF Cons.prems(1)] by blast
  have "cw_ok w1" "\<forall>x \<in> set xs. cw_refs w1 (snd x) \<noteq> None"
    using w1(2) Cons.prems(2) unfolding set_in_combat_spec_def by fastforce+
  with Cons.IH[of w1] Cons.IH[OF Cons.prems(1)] Cons.prems(2) r w1(1) show ?case by (auto simp: Let_def)
qed simp

lemma Inherit_ok:
  assumes "cw_ok w"
  shows "\<exists>w'. InheritCombatStatesFrom e u who w = Some w' \<and> cw_ok w'"
proof -
  have v: "\<forall>x \<in> set (cw_pveRefs w who). cw_refs w (snd x) \<noteq> None" if "cw_ok w" for w
    using linked_valid[of w who] that unfolding valid_def cw_ok_def cw_entries_def by (metis (full_types))
  have v': "\<forall>x \<in> set (cw_pvpRefs w who). cw_refs w (snd x) \<noteq> None" if "cw_ok w" for w
    using linked_valid[of w who] that unfolding valid_def cw_ok_def cw_entries_def by (metis (full_types))
  obtain w1 where "inherit_loop e u who False (cw_pveRefs w who) w = Some w1" "cw_ok w1"
    using inherit_loop_ok[OF assms v[OF assms]] by blast
  then show ?thesis using inherit_loop_ok[OF _ v'] by (fastforce simp: InheritCombatStatesFrom_def)
qed

text \<open>One update of the owner: the timers of its own PvP references run, those that are up are gone.\<close>

definition tick_ref :: "unit_id \<Rightarrow> u32 \<Rightarrow> combat_ref \<Rightarrow> combat_ref option" where
  "tick_ref u d r = (if cr_isPvP r \<and> cr_first r = u
     then (if cr_combatTimer r \<le> d then None else Some (r\<lparr>cr_combatTimer := cr_combatTimer r - d\<rparr>)) else Some r)"

lemma update_loop_ok:
  assumes "cw_ok w" "set xs \<subseteq> set (cw_entries True w u)" "distinct xs"
  shows "\<exists>w'. cm_update_loop e u d xs w = Some w' \<and> cw_ok w'
    \<and> cw_refs w' = (\<lambda>j. if j \<in> snd ` set xs then Option.bind (cw_refs w j) (tick_ref u d) else cw_refs w j)"
  using assms
proof (induction xs arbitrary: w)
  case (Cons x xs)
  have l: "linked w" using Cons.prems(1) by (simp add: cw_ok_def)
  have xin: "x \<in> set (cw_entries True w u)" using Cons.prems(2) by simp
  then obtain r where r: "cw_refs w (snd x) = Some r" "cr_isPvP r" using linkedD(1)[OF l, of "fst x" "snd x" True u] by auto
  have rest: "snd x \<notin> snd ` set xs" using entry_ids[OF l xin] Cons.prems(2,3) by fastforce
  obtain alive s where up: "pvp_Update d r = (alive, s)" by (cases "pvp_Update d r")
  have se: "s = r \<or> s = r\<lparr>cr_combatTimer := cr_combatTimer r - d\<rparr>"
    using up unfolding pvp_Update_def by (metis prod.inject)
  let ?w1 = "set_ref (snd x) s w"
  have s: "cr_first s = cr_first r" "cr_second s = cr_second r" "cr_isPvP s = cr_isPvP r" "cr_IsSuppressedFor s y = cr_IsSuppressedFor r y" for y
    using se by (elim disjE; simp add: cr_IsSuppressedFor_def)+
  have ok1: "cw_ok ?w1" by (rule set_ref_ok[OF Cons.prems(1) r(1) s])
  then have l1: "linked ?w1" by (simp add: cw_ok_def)
  have r1: "cw_refs ?w1 (snd x) = Some s" by simp
  let ?goal = "\<lambda>w'. cw_ok w' \<and> cw_refs w' = (\<lambda>j. if j \<in> snd ` set (x # xs) then Option.bind (cw_refs w j) (tick_ref u d) else cw_refs w j)"
  show ?case
  proof (cases "cr_first r = u")
    case False
    obtain w' where "cm_update_loop e u d xs w = Some w'" "cw_ok w'"
      "cw_refs w' = (\<lambda>j. if j \<in> snd ` set xs then Option.bind (cw_refs w j) (tick_ref u d) else cw_refs w j)"
      using Cons.IH[OF Cons.prems(1)] Cons.prems(2,3) by auto
    with False r rest show ?thesis by (auto simp: fun_eq_iff tick_ref_def)
  next
    case own: True
    show ?thesis
    proof (cases "cr_combatTimer r \<le> d")
      case False
      then have u: "alive" "tick_ref u d r = Some s" using up r(2) own by (simp_all add: pvp_Update_def tick_ref_def)
      have "set xs \<subseteq> set (cw_entries True ?w1 u)" using Cons.prems(2) by simp
      then obtain w' where w': "cm_update_loop e u d xs ?w1 = Some w'" "cw_ok w'"
        "cw_refs w' = (\<lambda>j. if j \<in> snd ` set xs then Option.bind (cw_refs ?w1 j) (tick_ref u d) else cw_refs ?w1 j)"
        using Cons.IH[OF ok1] Cons.prems(3) by auto
      have "cm_update_loop e u d (x # xs) w = Some w'" using w'(1) u(1) own by (simp add: r(1) up)
      moreover have "?goal w'" using w'(2) rest u(2) r(1) by (auto simp: fun_eq_iff w'(3))
      ultimately show ?thesis by blast
    next
      case True
      then have u: "\<not> alive" "s = r" "tick_ref u d r = None" using up r(2) own by (simp_all add: pvp_Update_def tick_ref_def)
      obtain w2 where w2: "EndCombat e (snd x) ?w1 = Some w2" "cw_ok w2" "cw_refs w2 = (cw_refs ?w1)(snd x := None)"
        "\<And>p u. cw_entries p w2 u = filter (\<lambda>y. snd y \<noteq> snd x) (cw_entries p ?w1 u)"
        using EndCombat_ok[OF ok1 r1] by blast
      have "set xs \<subseteq> set (cw_entries True w2 u)" 
      proof
        fix y assume y: "y \<in> set xs"
        then have "snd y \<noteq> snd x" using rest by (metis imageI)
        then show "y \<in> set (cw_entries True w2 u)" using y Cons.prems(2) by (auto simp: w2(4))
      qed
      then obtain w' where w': "cm_update_loop e u d xs w2 = Some w'" "cw_ok w'"
        "cw_refs w' = (\<lambda>j. if j \<in> snd ` set xs then Option.bind (cw_refs w2 j) (tick_ref u d) else cw_refs w2 j)"
        using Cons.IH[OF w2(2)] Cons.prems(3) by auto
      have x1: "x \<in> set (cw_entries True ?w1 u)" using xin by simp
      have "cm_update_loop e u d (x # xs) w = Some w'"
        using w'(1) own by (simp add: r(1) u(1) up erase_and_end_eq[OF l1 x1] w2(1))
      moreover have "?goal w'" using w'(2) rest u(3) r(1) by (auto simp: fun_eq_iff w'(3) w2(3))
      ultimately show ?thesis by blast
    qed
  qed
qed simp

lemma cm_Update_ok:
  assumes "cw_ok w"
  shows "\<exists>w'. cm_Update e u d w = Some w' \<and> cw_ok w' \<and> cw_refs w' = (\<lambda>j. Option.bind (cw_refs w j) (tick_ref u d))"
proof -
  have l: "linked w" using assms by (simp add: cw_ok_def)
  have "j \<in> snd ` set (cw_pvpRefs w u)" if "cw_refs w j = Some r" "cr_isPvP r" "cr_first r = u" for j r
    using linkedD(1)[OF l, of "cr_second r" j True u] that by (force simp: joins_def cw_entries_def)
  then have "(if j \<in> snd ` set (cw_entries True w u) then Option.bind (cw_refs w j) (tick_ref u d) else cw_refs w j)
      = Option.bind (cw_refs w j) (tick_ref u d)" for j
    by (cases "cw_refs w j") (auto simp: tick_ref_def cw_entries_def)
  with update_loop_ok[OF assms subset_refl entries_distinct[OF l], of e u d]
  show ?thesis by (simp add: cm_Update_def cw_entries_def)
qed

lemma end_first:
  assumes "cw_ok w" "cw_entries p w u = x # xs"
  shows "\<exists>w'. EndCombat e (snd x) w = Some w' \<and> cw_ok w' \<and> cw_entries p w' u = xs \<and> cw_refs w' = (cw_refs w)(snd x := None)
    \<and> (\<exists>r. cw_refs w (snd x) = Some r \<and> cr_isPvP r = p \<and> (u = cr_first r \<or> u = cr_second r))"
proof -
  have l: "linked w" using assms(1) by (simp add: cw_ok_def)
  have xin: "x \<in> set (cw_entries p w u)" by (simp add: assms(2))
  then obtain r where r: "cw_refs w (snd x) = Some r" "cr_isPvP r = p" "joins r u (fst x)"
    using linkedD(1)[OF l, of "fst x" "snd x" p u] by auto
  have "filter (\<lambda>y. snd y \<noteq> snd x) (x # xs) = xs"
    using entry_ids[OF l xin] entries_distinct[OF l, of p u] unfolding assms(2) by (fastforce simp: filter_id_conv)
  with EndCombat_ok[OF assms(1) r(1), of e] r assms(2) show ?thesis by (fastforce simp: joins_def)
qed

definition without :: "bool \<Rightarrow> unit_id \<Rightarrow> (nat \<Rightarrow> combat_ref option) \<Rightarrow> nat \<Rightarrow> combat_ref option" where
  "without p u refs j = (case refs j of None \<Rightarrow> None
     | Some r \<Rightarrow> if cr_isPvP r = p \<and> (u = cr_first r \<or> u = cr_second r) then None else Some r)"

lemma without_drop:
  "refs i = Some r \<Longrightarrow> cr_isPvP r = p \<Longrightarrow> u = cr_first r \<or> u = cr_second r \<Longrightarrow> without p u (refs(i := None)) = without p u refs"
  by (auto simp: without_def fun_eq_iff)

lemma without_none:
  assumes "linked w" "cw_entries p w u = []"
  shows "without p u (cw_refs w) = cw_refs w"
  using linkedD(1)[OF assms(1), of _ _ p u] assms(2)
  by (auto simp: without_def fun_eq_iff joins_def split: option.splits)

lemma EndAllPvPCombat_ok:
  assumes "cw_ok w"
  shows "\<exists>w'. EndAllPvPCombat e u w = Some w' \<and> cw_ok w' \<and> cw_pvpRefs w' u = [] \<and> cw_refs w' = without True u (cw_refs w)"
  using assms
proof (induction "cw_entries True w u" arbitrary: w)
  case Nil
  then show ?case using without_none[of w True u]
    by (simp add: EndAllPvPCombat.simps[of e u w] cw_entries_def cw_ok_def)
next
  case (Cons x xs)
  obtain w1 r where w1: "EndCombat e (snd x) w = Some w1" "cw_ok w1" "cw_entries True w1 u = xs" "cw_refs w1 = (cw_refs w)(snd x := None)"
    and r: "cw_refs w (snd x) = Some r" "cr_isPvP r" "u = cr_first r \<or> u = cr_second r"
    using end_first[OF Cons.prems Cons.hyps(2)[symmetric], of e] by auto
  have "EndAllPvPCombat e u w = EndAllPvPCombat e u w1"
    using Cons.hyps(2)[symmetric] w1(1) by (simp add: EndAllPvPCombat.simps[of e u w] cw_entries_def)
  moreover have "without True u (cw_refs w1) = without True u (cw_refs w)"
    unfolding w1(4) using r by (intro without_drop) auto
  ultimately show ?case using Cons.hyps(1)[OF w1(3)[symmetric] w1(2)] by simp
qed

lemma end_all_pve_ok:
  assumes "cw_ok w"
  shows "\<exists>w'. end_all_pve e u w = Some w' \<and> cw_ok w' \<and> cw_pveRefs w' u = [] \<and> cw_refs w' = without False u (cw_refs w)"
  using assms
proof (induction "cw_entries False w u" arbitrary: w)
  case Nil
  then show ?case using without_none[of w False u]
    by (simp add: end_all_pve.simps[of e u w] cw_entries_def cw_ok_def)
next
  case (Cons x xs)
  obtain w1 r where w1: "EndCombat e (snd x) w = Some w1" "cw_ok w1" "cw_entries False w1 u = xs" "cw_refs w1 = (cw_refs w)(snd x := None)"
    and r: "cw_refs w (snd x) = Some r" "\<not> cr_isPvP r" "u = cr_first r \<or> u = cr_second r"
    using end_first[OF Cons.prems Cons.hyps(2)[symmetric], of e] by auto
  have "end_all_pve e u w = end_all_pve e u w1"
    using Cons.hyps(2)[symmetric] w1(1) by (simp add: end_all_pve.simps[of e u w] cw_entries_def)
  moreover have "without False u (cw_refs w1) = without False u (cw_refs w)"
    unfolding w1(4) using r by (intro without_drop) auto
  ultimately show ?case using Cons.hyps(1)[OF w1(3)[symmetric] w1(2)] by simp
qed

lemma EndAllPvECombat_ok:
  assumes "cw_ok w"
  shows "\<exists>w'. EndAllPvECombat e u w = Some w' \<and> cw_ok w' \<and> cw_pveRefs w' u = [] \<and> cw_refs w' = without False u (cw_refs w)"
proof -
  let ?w = "emit (ClearAllThreat u) (emit (RemoveMeFromThreatLists u) w)"
  have h: "heap ?w = heap w" "cw_inCombat ?w = cw_inCombat w" by simp_all
  have "cw_ok ?w" using ok_cong[OF h] assms by simp
  from end_all_pve_ok[OF this, of e u] show ?thesis unfolding EndAllPvECombat_def heap_cong(1)[OF h(1)] .
qed

lemma EndAllCombat_ok:
  assumes "cw_ok w"
  shows "\<exists>w'. EndAllCombat e u w = Some w' \<and> cw_ok w'
    \<and> cw_refs w' = (\<lambda>j. case cw_refs w j of None \<Rightarrow> None | Some r \<Rightarrow> if u = cr_first r \<or> u = cr_second r then None else Some r)"
proof -
  obtain w1 where w1: "EndAllPvECombat e u w = Some w1" "cw_ok w1" "cw_refs w1 = without False u (cw_refs w)"
    using EndAllPvECombat_ok[OF assms] by blast
  obtain w2 where w2: "EndAllPvPCombat e u w1 = Some w2" "cw_ok w2" "cw_refs w2 = without True u (cw_refs w1)"
    using EndAllPvPCombat_ok[OF w1(2)] by blast
  have "without True u (without False u refs) = (\<lambda>j. case refs j of None \<Rightarrow> None | Some r \<Rightarrow> if u = cr_first r \<or> u = cr_second r then None else Some r)" for refs
    by (auto simp: without_def fun_eq_iff split: option.splits)
  with w1 w2 show ?thesis by (simp add: EndAllCombat_def)
qed

section \<open>Runs of operations\<close>

text \<open>The operations units call on their managers and on the references they find there.\<close>

datatype combat_op =
    OpSetInCombatWith combat_env unit_id unit_id bool
  | OpEndCombat combat_env unit_id unit_id
  | OpSuppressFor combat_env unit_id unit_id
  | OpUpdate combat_env unit_id u32
  | OpInherit combat_env unit_id unit_id
  | OpBeyondRange combat_env unit_id "unit_id \<Rightarrow> unit_id \<Rightarrow> bool" bool
  | OpSuppressPvP combat_env unit_id
  | OpEndAllPvE combat_env unit_id
  | OpEndAllPvP combat_env unit_id
  | OpRevalidate combat_env unit_id

definition find_ref :: "combat_world \<Rightarrow> unit_id \<Rightarrow> unit_id \<Rightarrow> nat option" where
  "find_ref w u v = (case map_of (cw_pveRefs w u) v of Some i \<Rightarrow> Some i | None \<Rightarrow> map_of (cw_pvpRefs w u) v)"

fun cm_step :: "combat_world \<Rightarrow> combat_op \<Rightarrow> combat_world option" where
  "cm_step w (OpSetInCombatWith e u v s) = map_option snd (SetInCombatWith e u v s w)"
| "cm_step w (OpEndCombat e u v) = (case find_ref w u v of None \<Rightarrow> Some w | Some i \<Rightarrow> EndCombat e i w)"
| "cm_step w (OpSuppressFor e u v) = (case find_ref w u v of None \<Rightarrow> Some w | Some i \<Rightarrow> SuppressFor e i u w)"
| "cm_step w (OpUpdate e u d) = cm_Update e u d w"
| "cm_step w (OpInherit e u v) = InheritCombatStatesFrom e u v w"
| "cm_step w (OpBeyondRange e u within pvp) = EndCombatBeyondRange e u within pvp w"
| "cm_step w (OpSuppressPvP e u) = SuppressPvPCombat e u w"
| "cm_step w (OpEndAllPvE e u) = EndAllPvECombat e u w"
| "cm_step w (OpEndAllPvP e u) = EndAllPvPCombat e u w"
| "cm_step w (OpRevalidate e u) = RevalidateCombat e u w"

lemma find_ref_linked:
  assumes "linked w" "find_ref w u v = Some i"
  shows "\<exists>r. cw_refs w i = Some r \<and> joins r u v"
proof -
  have "(v, i) \<in> set (cw_entries False w u) \<or> (v, i) \<in> set (cw_entries True w u)"
    using assms(2) by (auto simp: find_ref_def cw_entries_def split: option.splits dest: map_of_SomeD)
  then show ?thesis unfolding linkedD(1)[OF assms(1)] by blast
qed

lemma two_end_loops:
  assumes "cw_ok w"
  shows "\<exists>w'. Option.bind (end_loop e u False f (cw_pveRefs w u) w) (\<lambda>w1. end_loop e u True g (cw_pvpRefs w1 u) w1) = Some w' \<and> cw_ok w'"
    and "\<exists>w'. end_loop e u False f (cw_pveRefs w u) w = Some w' \<and> cw_ok w'"
proof -
  obtain w1 where w1: "end_loop e u False f (cw_pveRefs w u) w = Some w1" "cw_ok w1"
    using end_loop_all[OF assms, of e u False f] by (auto simp: cw_entries_def)
  then show "\<exists>w'. end_loop e u False f (cw_pveRefs w u) w = Some w' \<and> cw_ok w'" by blast
  show "\<exists>w'. Option.bind (end_loop e u False f (cw_pveRefs w u) w) (\<lambda>w1. end_loop e u True g (cw_pvpRefs w1 u) w1) = Some w' \<and> cw_ok w'"
    using end_loop_all[OF w1(2), of e u True g] w1(1) by (auto simp: cw_entries_def)
qed

lemma cm_step_ok:
  assumes ok: "cw_ok w"
  shows "\<exists>w'. cm_step w op = Some w' \<and> cw_ok w'"
proof -
  have l: "linked w" using ok by (simp add: cw_ok_def)
  show ?thesis
  proof (cases op)
    case (OpSetInCombatWith e u v s)
    with SetInCombatWith_ok[OF ok, of e u v s] show ?thesis by (auto simp: set_in_combat_spec_def)
  next
    case (OpEndCombat e u v)
    show ?thesis
    proof (cases "find_ref w u v")
      case (Some i)
      with find_ref_linked[OF l] EndCombat_ok[OF ok, of i] OpEndCombat show ?thesis by fastforce
    qed (use OpEndCombat ok in auto)
  next
    case (OpSuppressFor e u v)
    show ?thesis
    proof (cases "find_ref w u v")
      case (Some i)
      obtain r where "cw_refs w i = Some r" "u = cr_first r \<or> u = cr_second r"
        using find_ref_linked[OF l Some] by (auto simp: joins_def)
      with SuppressFor_ok[OF ok] OpSuppressFor Some show ?thesis by fastforce
    qed (use OpSuppressFor ok in auto)
  next
    case (OpUpdate e u d)
    with cm_Update_ok[OF ok, of e u d] show ?thesis by auto
  next
    case (OpInherit e u v)
    with Inherit_ok[OF ok, of e u v] show ?thesis by simp
  next
    case (OpBeyondRange e u f p)
    with two_end_loops[OF ok, of e u] show ?thesis by (cases p) (auto simp: EndCombatBeyondRange_def Let_def)
  next
    case (OpSuppressPvP e u)
    with SuppressPvPCombat_ok[OF ok, of e u] show ?thesis by simp
  next
    case (OpEndAllPvE e u)
    with EndAllPvECombat_ok[OF ok, of e u] show ?thesis by auto
  next
    case (OpEndAllPvP e u)
    with EndAllPvPCombat_ok[OF ok, of e u] show ?thesis by auto
  next
    case (OpRevalidate e u)
    with two_end_loops(1)[OF ok, of e u] show ?thesis by (simp add: RevalidateCombat_def Let_def)
  qed
qed

interpretation cm: safe_machine cm_step cw_ok
  by unfold_locales (rule cm_step_ok)

lemma combat_start_ok: "cw_ok combat_start"
  by (simp add: cw_ok_def linked_def active_def combat_start_def cw_entries_def)

lemma run_ok: "run_opt cm_step combat_start ops = Some w \<Longrightarrow> cw_ok w"
  using cm.run_safe[OF combat_start_ok, of ops] by auto

text \<open>
  C1: Whatever operations units call in whatever world, no step follows a pointer to a deleted reference
  or fails an assertion; two units are in each other's managers exactly if a living reference joins them,
  so being in combat is mutual and no reference is lost; no unit fights itself; and a unit carries the flag
  \<open>IN_COMBAT\<close> exactly if one of its references is not suppressed for it.
\<close>
theorem combat_is_mutual:
  "\<exists>w. run_opt cm_step combat_start ops = Some w
     \<and> (\<forall>u v. IsInCombatWith w u v \<longleftrightarrow> (\<exists>i r. cw_refs w i = Some r \<and> joins r u v))
     \<and> (\<forall>u v. IsInCombatWith w u v \<longleftrightarrow> IsInCombatWith w v u) \<and> (\<forall>u. \<not> IsInCombatWith w u u)
     \<and> (\<forall>u. cw_inCombat w u \<longleftrightarrow> (\<exists>i r. cw_refs w i = Some r \<and> (u = cr_first r \<or> u = cr_second r) \<and> \<not> cr_IsSuppressedFor r u))"
proof -
  obtain w where w: "run_opt cm_step combat_start ops = Some w" "cw_ok w"
    using cm.run_safe[OF combat_start_ok, of ops] by blast
  then have l: "linked w" "\<And>u. cw_inCombat w u = active w u" by (simp_all add: cw_ok_def)
  show ?thesis
    by (rule exI[of _ w]) (use w(1) in_combat_linked[OF l(1)] in_combat_sym[OF l(1)] in_combat_irrefl[OF l(1)] l(2) active_linked[OF l(1)] in blast)
qed

text \<open>
  C1: In every reachable state \<open>SetInCombatWith\<close> answers whether the two units are in combat afterwards: they
  are if they were before or are allowed to begin. Then the asking unit is in combat, the other one too
  unless the combat was to begin suppressed for it; combats of other pairs are as before.
\<close>
theorem SetInCombatWith_answers:
  assumes "run_opt cm_step combat_start ops = Some w"
  shows "\<exists>res w'. SetInCombatWith e a b addS w = Some (res, w') \<and> res = IsInCombatWith w' a b
     \<and> res = (IsInCombatWith w a b \<or> CanBeginCombat e a b)
     \<and> (res \<longrightarrow> cw_inCombat w' a) \<and> (res \<and> \<not> (addS \<and> \<not> IsInCombatWith w a b) \<longrightarrow> cw_inCombat w' b)
     \<and> (\<forall>x y. {x, y} \<noteq> {a, b} \<longrightarrow> IsInCombatWith w' x y = IsInCombatWith w x y)"
proof -
  have ok: "cw_ok w" by (rule run_ok[OF assms])
  obtain res w' where w': "SetInCombatWith e a b addS w = Some (res, w')" "set_in_combat_spec e a b addS w res w'"
    using SetInCombatWith_ok[OF ok] by blast
  note s = w'(2)[unfolded set_in_combat_spec_def]
  have l: "linked w" "linked w'" "\<And>u. cw_inCombat w' u = active w' u" using ok s by (simp_all add: cw_ok_def)
  have pairs: "IsInCombatWith w' x y = IsInCombatWith w x y" if "{x, y} \<noteq> {a, b}" for x y
  proof -
    have "\<not> joins r a b" if "joins r x y" for r using that \<open>{x, y} \<noteq> {a, b}\<close> by (auto simp: joins_def doubleton_eq_iff)
    moreover have "\<forall>i r. \<not> joins r a b \<longrightarrow> (cw_refs w' i = Some r) = (cw_refs w i = Some r)" using s by blast
    ultimately show ?thesis unfolding in_combat_linked[OF l(1)] in_combat_linked[OF l(2)] by blast
  qed
  have "cw_inCombat w' a \<and> (\<not> (addS \<and> \<not> IsInCombatWith w a b) \<longrightarrow> cw_inCombat w' b)" if res: res
  proof -
    obtain i r where r: "cw_refs w' i = Some r" "joins r a b" "\<not> cr_IsSuppressedFor r a"
      "addS \<and> \<not> IsInCombatWith w a b \<or> \<not> cr_IsSuppressedFor r b" using s res by blast
    then have ends: "a = cr_first r \<or> a = cr_second r" "b = cr_first r \<or> b = cr_second r" by (auto simp: joins_def)
    have "cw_inCombat w' a" unfolding l(3) active_linked[OF l(2)] using r(1,3) ends(1) by blast
    moreover have "cw_inCombat w' b" if "\<not> (addS \<and> \<not> IsInCombatWith w a b)"
      unfolding l(3) active_linked[OF l(2)] using r(1,4) ends(2) that by blast
    ultimately show ?thesis by blast
  qed
  with w'(1) s pairs show ?thesis by blast
qed

definition arena :: combat_env where
  "arena = \<lparr>ce_isInWorld = (\<lambda>_. True), ce_isAlive = (\<lambda>_. True), ce_map = (\<lambda>_. 1), ce_samePhase = (\<lambda>_ _. True),
     ce_evade = (\<lambda>_. False), ce_inFlight = (\<lambda>_. False), ce_combatDisallowed = (\<lambda>_. False), ce_friendly = (\<lambda>_ _. False),
     ce_playerOf = (\<lambda>_. None), ce_gameMaster = (\<lambda>_. False), ce_controlledByPlayer = (\<lambda>_. True),
     ce_flagPlayerControlled = (\<lambda>_. True), ce_immuneToPC = (\<lambda>_. False), ce_immuneToNPC = (\<lambda>_. False),
     ce_isTypeUnit = (\<lambda>_. False), ce_isTypePlayer = (\<lambda>_. True), ce_master = (\<lambda>_. None), ce_hasAI = (\<lambda>_. True)\<rparr>"

lemma SetInCombatWith_answers_witness:
  "\<exists>w'. SetInCombatWith arena (Guid 1 1) (Guid 1 2) False combat_start = Some (True, w') \<and> cw_inCombat w' (Guid 1 2)"
  using SetInCombatWith_answers[of "[]" combat_start arena "Guid 1 1" "Guid 1 2" False]
  by (auto simp: CanBeginCombat_def arena_def)

text \<open>
  C1: In every reachable state \<open>EndAllCombat\<close> comes to an end. Afterwards the unit has no reference left, so
  its manager may be destroyed, and it is not in combat; combats between other units are as before.
\<close>
theorem EndAllCombat_ends:
  assumes "run_opt cm_step combat_start ops = Some w"
  shows "\<exists>w'. EndAllCombat e u w = Some w' \<and> may_destroy w' u \<and> \<not> cw_inCombat w' u \<and> (\<forall>v. \<not> IsInCombatWith w' v u)
     \<and> (\<forall>x y. x \<noteq> u \<and> y \<noteq> u \<longrightarrow> IsInCombatWith w' x y = IsInCombatWith w x y)"
proof -
  have ok: "cw_ok w" by (rule run_ok[OF assms])
  obtain w' where w': "EndAllCombat e u w = Some w'" "cw_ok w'"
    "cw_refs w' = (\<lambda>j. case cw_refs w j of None \<Rightarrow> None | Some r \<Rightarrow> if u = cr_first r \<or> u = cr_second r then None else Some r)"
    using EndAllCombat_ok[OF ok] by blast
  have l: "linked w" "linked w'" using ok w'(2) by (simp_all add: cw_ok_def)
  have live: "cw_refs w' i = Some r \<longleftrightarrow> cw_refs w i = Some r \<and> u \<noteq> cr_first r \<and> u \<noteq> cr_second r" for i r
    by (auto simp: w'(3) split: option.splits if_splits)
  have none: "cw_entries p w' u = []" for p
  proof (rule ccontr)
    assume "cw_entries p w' u \<noteq> []"
    then obtain v j where "(v, j) \<in> set (cw_entries p w' u)" by (metis list.set_sel(1) surj_pair)
    then show False unfolding linkedD(1)[OF l(2)] joins_def live by auto
  qed
  have "may_destroy w' u" using none[of True] none[of False] unfolding may_destroy_def cw_entries_def by simp
  moreover have "\<not> cw_inCombat w' u" using w'(2) none by (simp add: cw_ok_def active_def)
  moreover have "\<not> IsInCombatWith w' v u" for v
    unfolding in_combat_linked[OF l(2)] live by (auto simp: joins_def)
  moreover have "IsInCombatWith w' x y = IsInCombatWith w x y" if "x \<noteq> u" "y \<noteq> u" for x y
    unfolding in_combat_linked[OF l(1)] in_combat_linked[OF l(2)] live using that by (auto simp: joins_def)
  ultimately show ?thesis using w'(1) by blast
qed

lemma EndAllCombat_ends_witness:
  "\<exists>w w'. run_opt cm_step combat_start [OpSetInCombatWith arena (Guid 1 1) (Guid 1 2) False] = Some w
     \<and> EndAllCombat arena (Guid 1 1) w = Some w' \<and> may_destroy w' (Guid 1 1)"
proof -
  obtain w where w: "run_opt cm_step combat_start [OpSetInCombatWith arena (Guid 1 1) (Guid 1 2) False] = Some w"
    using cm.run_safe[OF combat_start_ok] by blast
  with EndAllCombat_ends[OF w, of arena "Guid 1 1"] show ?thesis by blast
qed

text \<open>
  C24: A PvP combat lasts until the updates of its first unit add up to its timer. From a reachable state,
  after any updates of that unit with no other operation between, the reference is still there exactly
  if their durations add up to less than the timer, which is then what is left of it.
\<close>
theorem PvP_combat_times_out:
  assumes "run_opt cm_step combat_start ops = Some w"
    and "cw_refs w i = Some r" "cr_isPvP r" "0 < cr_combatTimer r"
  shows "\<exists>w'. run_opt (\<lambda>w d. cm_Update e (cr_first r) d w) w ds = Some w'
     \<and> (case cw_refs w' i of
          None \<Rightarrow> (\<Sum>d\<leftarrow>ds. unat d) \<ge> unat (cr_combatTimer r)
        | Some r' \<Rightarrow> cr_first r' = cr_first r \<and> cr_second r' = cr_second r
            \<and> unat (cr_combatTimer r') + (\<Sum>d\<leftarrow>ds. unat d) = unat (cr_combatTimer r) \<and> 0 < cr_combatTimer r')"
proof -
  let ?u = "cr_first r"
  have gone: "\<exists>w'. run_opt (\<lambda>w d. cm_Update e ?u d w) w ds = Some w' \<and> cw_refs w' i = None" if "cw_ok w" "cw_refs w i = None" for w ds
    using that
  proof (induction ds arbitrary: w)
    case (Cons d ds)
    then show ?case using cm_Update_ok[OF Cons.prems(1), of e ?u d] by fastforce
  qed simp
  have "\<exists>w'. run_opt (\<lambda>w d. cm_Update e ?u d w) w ds = Some w'
     \<and> (case cw_refs w' i of None \<Rightarrow> (\<Sum>d\<leftarrow>ds. unat d) \<ge> unat (cr_combatTimer s)
        | Some r' \<Rightarrow> cr_first r' = ?u \<and> cr_second r' = cr_second s
            \<and> unat (cr_combatTimer r') + (\<Sum>d\<leftarrow>ds. unat d) = unat (cr_combatTimer s) \<and> 0 < cr_combatTimer r')"
    if "cw_ok w" "cw_refs w i = Some s" "cr_isPvP s" "0 < cr_combatTimer s" "cr_first s = ?u" for s
    using that
  proof (induction ds arbitrary: w s)
    case (Cons d ds)
    obtain w1 where w1: "cm_Update e ?u d w = Some w1" "cw_ok w1" "cw_refs w1 i = tick_ref ?u d s"
      using cm_Update_ok[OF Cons.prems(1), of e ?u d] Cons.prems(2) by auto
    show ?case
    proof (cases "cr_combatTimer s \<le> d")
      case True
      then have "cw_refs w1 i = None" using w1(3) Cons.prems(3,5) by (simp add: tick_ref_def)
      with gone[OF w1(2)] w1(1) True show ?thesis by (fastforce simp: word_le_nat_alt)
    next
      case False
      let ?t = "s\<lparr>cr_combatTimer := cr_combatTimer s - d\<rparr>"
      have t: "cw_refs w1 i = Some ?t" "unat (cr_combatTimer ?t) + unat d = unat (cr_combatTimer s)" "0 < cr_combatTimer ?t"
        using w1(3) Cons.prems(3,5) False by (auto simp: tick_ref_def unat_sub word_le_nat_alt word_less_nat_alt)
      obtain w' where w': "run_opt (\<lambda>w d. cm_Update e ?u d w) w1 ds = Some w'"
        "case cw_refs w' i of None \<Rightarrow> (\<Sum>d\<leftarrow>ds. unat d) \<ge> unat (cr_combatTimer ?t)
          | Some r' \<Rightarrow> cr_first r' = ?u \<and> cr_second r' = cr_second ?t
              \<and> unat (cr_combatTimer r') + (\<Sum>d\<leftarrow>ds. unat d) = unat (cr_combatTimer ?t) \<and> 0 < cr_combatTimer r'"
        using Cons.IH[OF w1(2) t(1) _ t(3)] Cons.prems(3,5) by auto
      show ?thesis
      proof (intro exI conjI)
        show "run_opt (\<lambda>w d. cm_Update e ?u d w) w (d # ds) = Some w'" using w1(1) w'(1) by simp
        show "case cw_refs w' i of None \<Rightarrow> (\<Sum>d\<leftarrow>d # ds. unat d) \<ge> unat (cr_combatTimer s)
          | Some r' \<Rightarrow> cr_first r' = ?u \<and> cr_second r' = cr_second s
              \<and> unat (cr_combatTimer r') + (\<Sum>d\<leftarrow>d # ds. unat d) = unat (cr_combatTimer s) \<and> 0 < cr_combatTimer r'"
          using w'(2) t(2) by (cases "cw_refs w' i") simp_all
      qed
    qed
  qed simp
  then show ?thesis using run_ok[OF assms(1)] assms(2-4) by blast
qed

lemma PvP_combat_times_out_witness:
  "\<exists>w w'. run_opt cm_step combat_start [OpSetInCombatWith arena (Guid 1 1) (Guid 1 2) False] = Some w
     \<and> run_opt (\<lambda>w d. cm_Update arena (Guid 1 1) d w) w [4000, 1000] = Some w' \<and> cw_refs w' 0 = None"
proof -
  obtain w where w: "run_opt cm_step combat_start [OpSetInCombatWith arena (Guid 1 1) (Guid 1 2) False] = Some w"
    using cm.run_safe[OF combat_start_ok] by blast
  have r: "cw_refs w 0 = Some (PvPCombatReference_new (Guid 1 1) (Guid 1 2))"
    using w by (auto simp: arena_def combat_start_def SetInCombatWith_def CanBeginCombat_def PutReference_def set_ref_def
        UpdateOwnerCombatState_def HasCombat_def HasPvECombat_def HasPvPCombat_def cm_GetAnyTarget_def cr_IsSuppressedFor_def
        PvPCombatReference_new_def CombatReference_new_def NotifyAICombat_def emit_def Let_def split: if_splits)
  have p: "cr_isPvP (PvPCombatReference_new (Guid 1 1) (Guid 1 2))" "0 < cr_combatTimer (PvPCombatReference_new (Guid 1 1) (Guid 1 2))"
    "cr_first (PvPCombatReference_new (Guid 1 1) (Guid 1 2)) = Guid 1 1" "cr_combatTimer (PvPCombatReference_new (Guid 1 1) (Guid 1 2)) = 5000"
    by (simp_all add: PvPCombatReference_new_def CombatReference_new_def PVP_COMBAT_TIMEOUT_def)
  obtain w' where w': "run_opt (\<lambda>w d. cm_Update arena (Guid 1 1) d w) w [4000, 1000] = Some w'"
    "case cw_refs w' 0 of None \<Rightarrow> True | Some r' \<Rightarrow> unat (cr_combatTimer r') + (\<Sum>d\<leftarrow>[4000, 1000 :: u32]. unat d) = 5000 \<and> 0 < cr_combatTimer r'"
    using PvP_combat_times_out[OF w r p(1,2), of arena "[4000, 1000]"] unfolding p(3,4) by (auto split: option.splits)
  then have "cw_refs w' 0 = None" by (auto simp: word_less_nat_alt split: option.splits)
  with w w'(1) show ?thesis by blast
qed

end
