(* ===== verification/InstanceTime.thy ===== *)
theory InstanceTime
  imports Prelude "HOL-Library.Signed_Division"
begin

text \<open>
  When instance locks expire: the calendar part of \<open>src/src/server/game/Instances/InstanceLockMgr.cpp\<close>
  with the rows of the client's tables it reads. A time point of the system clock counts nanoseconds
  and is an \<open>int\<close>, \<open>time_t\<close> counts seconds. The time zone is the parameter \<open>le_zone\<close>: the offset from
  UTC at a local time. The two table rows of an instance (\<open>MapEntry\<close> and \<open>MapDifficultyEntry\<close>) are one
  record; looking them up is the parameter \<open>le_entries\<close>, whose \<open>None\<close> is a failed assertion.
\<close>

section \<open>Broken-down time of the C library\<close>

record tm =
  tm_sec :: int
  tm_min :: int
  tm_hour :: int
  tm_mday :: int
  tm_mon :: int
  tm_year :: int
  tm_wday :: int

definition days_before_month :: "int list" where
  "days_before_month = [0, 31, 59, 90, 120, 151, 181, 212, 243, 273, 304, 334]"

definition leap_year :: "int \<Rightarrow> bool" where
  "leap_year y = (y mod 4 = 0 \<and> (y mod 100 \<noteq> 0 \<or> y mod 400 = 0))"

text \<open>The days since 1970 and the seconds in local time, for a month in range and any day of the month.\<close>

definition tm_days :: "tm \<Rightarrow> int" where
  "tm_days t =
     (tm_year t - 70) * 365 + (tm_year t - 69) div 4 - (tm_year t - 1) div 100 + (tm_year t + 299) div 400
     + days_before_month ! nat (tm_mon t)
     + (if leap_year (tm_year t + 1900) \<and> 2 \<le> tm_mon t then 1 else 0) + tm_mday t - 1"

definition tm_local :: "tm \<Rightarrow> int" where
  "tm_local t = tm_days t * 86400 + tm_hour t * 3600 + tm_min t * 60 + tm_sec t"

definition mktime :: "(int \<Rightarrow> int) \<Rightarrow> tm \<Rightarrow> int" where
  "mktime zone t = tm_local t - zone (tm_local t)"

definition from_time_t :: "int \<Rightarrow> int" where
  "from_time_t t = t * 1000000000"

definition to_time_t :: "int \<Rightarrow> int" where
  "to_time_t p = p sdiv 1000000000"

definition Seconds :: "int \<Rightarrow> int" where
  "Seconds s = s * 1000000000"

definition time_point_min :: int where
  "time_point_min = - (2 ^ 63)"

section \<open>Rows of the client's tables\<close>

record map_entries =
  me_map_flags :: u32
  me_map_id :: u32
  me_difficulty :: u8
  me_lock_id :: u8
  me_interval :: u8
  me_flags :: u8

abbreviation "RESET_ANYTIME \<equiv> 0 :: u8"
abbreviation "RESET_DAILY \<equiv> 1 :: u8"
abbreviation "RESET_WEEKLY \<equiv> 2 :: u8"
abbreviation "RESET_EVERY_3_DAYS \<equiv> 3 :: u8"
abbreviation "RESET_EVERY_5_DAYS \<equiv> 4 :: u8"

definition IsFlexLocking :: "map_entries \<Rightarrow> bool" where
  "IsFlexLocking m = (me_map_flags m AND 0x00008000 \<noteq> 0)"

definition IsUsingEncounterLocks :: "map_entries \<Rightarrow> bool" where
  "IsUsingEncounterLocks m = (me_flags m AND 0x02 \<noteq> 0)"

definition IsRestoringDungeonState :: "map_entries \<Rightarrow> bool" where
  "IsRestoringDungeonState m = (me_flags m AND 0x08 \<noteq> 0)"

definition HasResetSchedule :: "map_entries \<Rightarrow> bool" where
  "HasResetSchedule m = (me_interval m \<noteq> RESET_ANYTIME)"

definition GetRaidDuration :: "map_entries \<Rightarrow> int" where
  "GetRaidDuration m =
     (if me_interval m = RESET_DAILY then 86400
      else if me_interval m = RESET_WEEKLY then 604800
      else 0)"

type_synonym lock_key = "u32 \<times> u32"

definition GetKey :: "map_entries \<Rightarrow> lock_key" where
  "GetKey m = (me_map_id m, ucast (me_lock_id m))"

definition IsInstanceIdBound :: "map_entries \<Rightarrow> bool" where
  "IsInstanceIdBound m = (\<not> IsFlexLocking m \<and> \<not> IsUsingEncounterLocks m)"

section \<open>The next reset\<close>

record lock_env =
  le_now :: int
  le_date :: tm
  le_clock :: int
  le_zone :: "int \<Rightarrow> int"
  le_reset_hour :: int
  le_reset_day :: int
  le_entries :: "u32 \<Rightarrow> u8 \<Rightarrow> map_entries option"

text \<open>The intervals of three and five days share their code but for the number of days.\<close>

definition days_to_add :: "lock_env \<Rightarrow> int \<Rightarrow> tm \<Rightarrow> int" where
  "days_to_add e n d =
     (let daysSinceEpoch = signed_take_bit 31 (to_time_t (le_clock e) sdiv 86400);
          daysToAdd = n - daysSinceEpoch smod n
      in if le_reset_hour e \<le> tm_hour d then daysToAdd + 1 else daysToAdd)"

definition GetNextResetTime :: "lock_env \<Rightarrow> map_entries \<Rightarrow> int" where
  "GetNextResetTime e m =
     (let d = (le_date e)\<lparr>tm_sec := 0, tm_min := 0\<rparr>;
          resetHour = le_reset_hour e;
          d' =
            (if me_interval m = RESET_DAILY then
               let d1 = (if resetHour \<le> tm_hour d then d\<lparr>tm_mday := tm_mday d + 1\<rparr> else d)
               in d1\<lparr>tm_hour := resetHour\<rparr>
             else if me_interval m = RESET_WEEKLY then
               let resetDay = le_reset_day e;
                   daysAdjust = resetDay - tm_wday d;
                   daysAdjust' =
                     (if resetDay < tm_wday d \<or> (tm_wday d = resetDay \<and> resetHour \<le> tm_hour d)
                      then daysAdjust + 7 else daysAdjust)
               in d\<lparr>tm_hour := resetHour, tm_mday := tm_mday d + daysAdjust'\<rparr>
             else if me_interval m = RESET_EVERY_3_DAYS then
               d\<lparr>tm_hour := resetHour, tm_mday := tm_mday d + days_to_add e 3 d\<rparr>
             else if me_interval m = RESET_EVERY_5_DAYS then
               d\<lparr>tm_hour := resetHour, tm_mday := tm_mday d + days_to_add e 5 d\<rparr>
             else d)
      in from_time_t (mktime (le_zone e) d'))"

section \<open>Lemmas\<close>

lemma to_time_t_from_time_t [simp]: "to_time_t (from_time_t t) = t"
  by (simp add: to_time_t_def from_time_t_def signed_divide_int_def sgn_mult abs_mult
      sgn_mult_abs mult.commute abs_mult_sgn)

lemma from_time_t_Seconds: "from_time_t t + Seconds s = from_time_t (t + s)"
  "from_time_t t - Seconds s = from_time_t (t - s)"
  by (simp_all add: from_time_t_def Seconds_def algebra_simps)

lemma tm_local_shift:
  "tm_local (d\<lparr>tm_sec := 0, tm_min := 0, tm_hour := h, tm_mday := tm_mday d + k\<rparr>)
     = tm_local d + k * 86400 + (h - tm_hour d) * 3600 - tm_min d * 60 - tm_sec d"
  by (simp add: tm_local_def tm_days_def algebra_simps)

text \<open>
  A date as \<open>localtime_r\<close> fills it in: the time of day is in range and the day of the week is that of the
  day (day 0 was a Thursday).
\<close>

definition date_ok :: "tm \<Rightarrow> bool" where
  "date_ok d = (0 \<le> tm_sec d \<and> tm_sec d < 60 \<and> 0 \<le> tm_min d \<and> tm_min d < 60 \<and> 0 \<le> tm_hour d \<and> tm_hour d < 24
     \<and> tm_wday d = (tm_days d + 4) mod 7)"

definition day_of :: "int \<Rightarrow> int" where "day_of l = l div 86400"
definition time_of_day :: "int \<Rightarrow> int" where "time_of_day l = l mod 86400"

lemma local_parts:
  assumes "date_ok d"
  shows "day_of (tm_local d) = tm_days d"
    and "time_of_day (tm_local d) = tm_hour d * 3600 + tm_min d * 60 + tm_sec d"
proof -
  let ?s = "tm_hour d * 3600 + tm_min d * 60 + tm_sec d"
  from assms have s: "0 \<le> ?s" "?s < 86400" by (auto simp: date_ok_def)
  have l: "tm_local d = ?s + tm_days d * 86400" by (simp add: tm_local_def)
  show "day_of (tm_local d) = tm_days d" using s by (simp add: day_of_def l)
  show "time_of_day (tm_local d) = ?s" using s by (simp add: time_of_day_def l)
qed

text \<open>A reset is a day and the reset hour; it lies after the moment exactly if the day does or the hour does.\<close>

lemma reset_point:
  assumes ok: "date_ok d" and h: "0 \<le> h" "h < 24"
    and r_def: "r = tm_local (d\<lparr>tm_sec := 0, tm_min := 0, tm_hour := h, tm_mday := tm_mday d + k\<rparr>)"
  shows "day_of r = tm_days d + k" and "time_of_day r = h * 3600"
    and "r - tm_local d = k * 86400 + h * 3600 - time_of_day (tm_local d)"
proof -
  have r: "r = h * 3600 + (tm_days d + k) * 86400"
    by (simp add: r_def tm_local_def tm_days_def algebra_simps)
  from h have s: "0 \<le> h * 3600" "h * 3600 < 86400" by auto
  show "day_of r = tm_days d + k" using s by (simp add: day_of_def r)
  show "time_of_day r = h * 3600" using s by (simp only: time_of_day_def r mod_mult_self1 mod_pos_pos_trivial)
  show "r - tm_local d = k * 86400 + h * 3600 - time_of_day (tm_local d)"
    unfolding local_parts(2) [OF ok] r by (simp add: tm_local_def algebra_simps)
qed

lemma past_hour:
  assumes ok: "date_ok d"
  shows "h * 3600 \<le> time_of_day (tm_local d) \<longleftrightarrow> h \<le> tm_hour d"
    and "0 \<le> time_of_day (tm_local d)" and "time_of_day (tm_local d) < 86400"
  using assms by (auto simp: local_parts [OF ok] date_ok_def)


text \<open>
  The moments (in local time) at which the locks of a daily or weekly instance run out: every day, or on the
  day of the week of the configuration, at the hour of the configuration.
\<close>

definition reset_moment :: "lock_env \<Rightarrow> map_entries \<Rightarrow> int \<Rightarrow> bool" where
  "reset_moment e m l =
     (time_of_day l = le_reset_hour e * 3600
      \<and> (me_interval m = RESET_WEEKLY \<longrightarrow> (day_of l + 4) mod 7 = le_reset_day e))"

lemma reset_moments_apart:
  assumes r: "reset_moment e m a" "reset_moment e m b" and lt: "a < b"
    and i: "me_interval m = RESET_DAILY \<or> me_interval m = RESET_WEEKLY"
  shows "GetRaidDuration m \<le> b - a"
proof -
  have ab: "b - a = (day_of b - day_of a) * 86400" if "time_of_day a = time_of_day b"
    using that mult_div_mod_eq [of 86400 a] mult_div_mod_eq [of 86400 b]
    unfolding day_of_def time_of_day_def left_diff_distrib by linarith
  with r have ab: "b - a = (day_of b - day_of a) * 86400" by (simp add: reset_moment_def)
  with lt have pos: "0 < day_of b - day_of a" by simp
  show ?thesis
  proof (cases "me_interval m = RESET_WEEKLY")
    case True
    with r have "(day_of b + 4) mod 7 = (day_of a + 4) mod 7" by (simp add: reset_moment_def)
    then have "7 dvd day_of b - day_of a" by (simp add: mod_eq_dvd_iff)
    with pos have "7 \<le> day_of b - day_of a" by (simp add: zdvd_imp_le)
    with ab True show ?thesis by (simp add: GetRaidDuration_def)
  next
    case False
    with ab pos i show ?thesis by (simp add: GetRaidDuration_def)
  qed
qed

text \<open>The number of days that \<open>GetNextResetTime\<close> goes forward.\<close>

definition reset_days :: "lock_env \<Rightarrow> map_entries \<Rightarrow> int" where
  "reset_days e m =
     (if me_interval m = RESET_DAILY then (if le_reset_hour e \<le> tm_hour (le_date e) then 1 else 0)
      else le_reset_day e - tm_wday (le_date e)
        + (if le_reset_day e < tm_wday (le_date e)
              \<or> tm_wday (le_date e) = le_reset_day e \<and> le_reset_hour e \<le> tm_hour (le_date e)
           then 7 else 0))"

lemma tm_day_hour: "t\<lparr>tm_mday := a, tm_hour := b\<rparr> = t\<lparr>tm_hour := b, tm_mday := a\<rparr>"
  by (cases t) simp

lemma GetNextResetTime_days:
  assumes "me_interval m = RESET_DAILY \<or> me_interval m = RESET_WEEKLY"
  shows "GetNextResetTime e m = from_time_t (mktime (le_zone e) ((le_date e)\<lparr>tm_sec := 0, tm_min := 0,
      tm_hour := le_reset_hour e, tm_mday := tm_mday (le_date e) + reset_days e m\<rparr>))"
  using assms by (auto simp: GetNextResetTime_def reset_days_def Let_def tm_day_hour)

lemma GetNextResetTime_local:
  assumes d: "date_ok (le_date e)" and h: "0 \<le> le_reset_hour e" "le_reset_hour e < 24"
    and wd: "0 \<le> le_reset_day e" "le_reset_day e < 7" and z: "\<And>l. le_zone e l = c"
    and i: "me_interval m = RESET_DAILY \<or> me_interval m = RESET_WEEKLY"
  shows "reset_moment e m (to_time_t (GetNextResetTime e m) + c)"
    and "tm_local (le_date e) < to_time_t (GetNextResetTime e m) + c"
    and "to_time_t (GetNextResetTime e m) + c \<le> tm_local (le_date e) + GetRaidDuration m"
proof -
  define r where "r = tm_local ((le_date e)\<lparr>tm_sec := 0, tm_min := 0,
    tm_hour := le_reset_hour e, tm_mday := tm_mday (le_date e) + reset_days e m\<rparr>)"
  note rp = reset_point [OF d h r_def] and ph = past_hour [OF d]
  have r: "to_time_t (GetNextResetTime e m) + c = r"
    by (simp add: GetNextResetTime_days [OF i] mktime_def z r_def)
  have w: "tm_wday (le_date e) = (tm_days (le_date e) + 4) mod 7" using d by (simp add: date_ok_def)
  have wd7: "0 \<le> tm_wday (le_date e)" "tm_wday (le_date e) < 7" unfolding w by simp_all
  have wk: "(day_of r + 4) mod 7 = le_reset_day e" if "me_interval m = RESET_WEEKLY"
  proof -
    have "(day_of r + 4) mod 7 = ((tm_days (le_date e) + 4) mod 7 + reset_days e m) mod 7"
      unfolding rp(1) mod_add_left_eq by (simp add: algebra_simps)
    also have "\<dots> = (tm_wday (le_date e) + reset_days e m) mod 7" unfolding w by (rule refl)
    also have "\<dots> = le_reset_day e mod 7" using that by (simp add: reset_days_def)
    finally show ?thesis using wd by simp
  qed
  show "reset_moment e m (to_time_t (GetNextResetTime e m) + c)"
    using rp(2) wk unfolding r reset_moment_def by blast
  have past: "le_reset_hour e \<le> tm_hour (le_date e) \<longleftrightarrow> le_reset_hour e * 3600 \<le> time_of_day (tm_local (le_date e))"
    by (rule ph(1) [symmetric])
  have "0 < r - tm_local (le_date e) \<and> r - tm_local (le_date e) \<le> GetRaidDuration m"
    unfolding rp(3) reset_days_def GetRaidDuration_def past using ph(2,3) h wd wd7 i by auto
  then show "tm_local (le_date e) < to_time_t (GetNextResetTime e m) + c"
    and "to_time_t (GetNextResetTime e m) + c \<le> tm_local (le_date e) + GetRaidDuration m"
    unfolding r by simp_all
qed

section \<open>Properties\<close>

definition sample_date :: tm where
  "sample_date = \<lparr>tm_sec = 5, tm_min = 30, tm_hour = 9, tm_mday = 31, tm_mon = 11, tm_year = 124, tm_wday = 2\<rparr>"

definition sample_env :: lock_env where
  "sample_env = \<lparr>le_now = 1735633805000000001, le_date = sample_date, le_clock = 1735633805000000002, le_zone = (\<lambda>_. 3600),
     le_reset_hour = 8, le_reset_day = 2, le_entries = (\<lambda>_ _. None)\<rparr>"

definition weekly_raid :: map_entries where
  "weekly_raid = \<lparr>me_map_flags = 0, me_map_id = 533, me_difficulty = 3, me_lock_id = 1, me_interval = RESET_WEEKLY,
     me_flags = 0\<rparr>"

text \<open>
  C1: for a daily or weekly instance \<open>GetNextResetTime\<close> is the first reset moment after the given time, at most
  one period away, in a zone of constant offset.
\<close>

theorem GetNextResetTime_first:
  assumes "date_ok (le_date e)" and "0 \<le> le_reset_hour e" and "le_reset_hour e < 24"
    and "0 \<le> le_reset_day e" and "le_reset_day e < 7" and "\<forall>l. le_zone e l = c"
    and "me_interval m = RESET_DAILY \<or> me_interval m = RESET_WEEKLY"
    and "t = mktime (le_zone e) (le_date e)" and "r = to_time_t (GetNextResetTime e m)"
  shows "t < r \<and> r \<le> t + GetRaidDuration m \<and> reset_moment e m (r + c)
    \<and> (\<forall>x. t < x \<and> x < r \<longrightarrow> \<not> reset_moment e m (x + c))"
proof -
  from assms(6) have z: "\<And>l. le_zone e l = c" by blast
  note L = GetNextResetTime_local [OF assms(1-5) z assms(7)]
  from L(1) have rm: "reset_moment e m (r + c)" by (simp add: assms(9))
  from L(2) have tr: "t < r" by (simp add: assms(8,9) mktime_def z)
  from L(3) have rd: "r \<le> t + GetRaidDuration m" by (simp add: assms(8,9) mktime_def z)
  have "\<not> reset_moment e m (x + c)" if x: "t < x" "x < r" for x
  proof
    assume "reset_moment e m (x + c)"
    then have "GetRaidDuration m \<le> (r + c) - (x + c)"
      using rm x by (intro reset_moments_apart [OF _ _ _ assms(7)]) auto
    with x rd show False by simp
  qed
  with rm tr rd show ?thesis by blast
qed

lemma GetNextResetTime_first_witness:
  "mktime (le_zone sample_env) sample_date = 1735633805
   \<and> to_time_t (GetNextResetTime sample_env weekly_raid) = 1736233200
   \<and> 1735633805 < (1736233200 :: int) \<and> (1736233200 :: int) \<le> 1735633805 + GetRaidDuration weekly_raid
   \<and> reset_moment sample_env weekly_raid (1736233200 + 3600)
   \<and> (\<nexists>x. 1735633805 < x \<and> x < 1736233200 \<and> reset_moment sample_env weekly_raid (x + 3600))"
proof -
  have t: "mktime (le_zone sample_env) sample_date = 1735633805" and d: "le_date sample_env = sample_date"
    and r: "to_time_t (GetNextResetTime sample_env weekly_raid) = 1736233200"
    by code_simp+
  have ok: "date_ok (le_date sample_env)" by code_simp
  have z: "\<forall>l. le_zone sample_env l = 3600" by (simp add: sample_env_def)
  have c: "0 \<le> le_reset_hour sample_env" "le_reset_hour sample_env < 24" "0 \<le> le_reset_day sample_env"
    "le_reset_day sample_env < 7" by (simp_all add: sample_env_def)
  have i: "me_interval weekly_raid = RESET_DAILY \<or> me_interval weekly_raid = RESET_WEEKLY"
    by (simp add: weekly_raid_def)
  from t d have t': "1735633805 = mktime (le_zone sample_env) (le_date sample_env)" by simp
  show ?thesis using GetNextResetTime_first [OF ok c z i t' r [symmetric]] t r by blast
qed

text \<open>
  The intervals of three and five days do not have this property: what is called the next reset moves by a day
  when the reset hour passes, and a reset due on the same day is never answered. Day 20088 is a multiple of
  three; asked at half past seven the next reset is day 20091, asked at half past nine it is day 20092.
\<close>

lemma reset_3_days_moves:
  fixes m :: map_entries
  defines "m \<equiv> weekly_raid\<lparr>me_interval := RESET_EVERY_3_DAYS\<rparr>"
    and "at \<equiv> \<lambda>h. sample_env\<lparr>le_date := sample_date\<lparr>tm_hour := h\<rparr>, le_zone := (\<lambda>_. 0),
      le_clock := from_time_t (20088 * 86400 + h * 3600)\<rparr>"
  shows "to_time_t (GetNextResetTime (at 7) m) = 20091 * 86400 + 8 * 3600"
    and "to_time_t (GetNextResetTime (at 9) m) = 20092 * 86400 + 8 * 3600"
  unfolding m_def at_def by code_simp+

end
