(* ===== verification/InstanceLocks.thy ===== *)
theory InstanceLocks
  imports InstanceTime ObjectGuid "HOL-Library.AList"
begin

text \<open>
  Which instance a player is locked to: \<open>src/src/server/game/Instances/InstanceLockMgr.h\<close> and \<open>.cpp\<close>, the
  operations of \<open>MapManager.cpp\<close> that hand out instance ids and choose the lock of a new instance map, and
  the ones of \<open>InstanceMap\<close> (\<open>Map.cpp\<close>) that save it.

  \<^item> A lock is a value kept in one of the two stores, named by the owner's guid and the key; raw pointers
    are such names. The nested hash maps are association lists from the pair.
  \<^item> The state shared by the locks of one instance (\<open>shared_ptr\<close>) is on the heap \<open>lm_heap\<close>. Its owners are
    the locks that hold its address; when the last one goes the destructor runs, \<open>destroy_shared\<close>. A
    \<open>weak_ptr\<close> is an address, expired when nothing lives there; addresses are not used again.
  \<^item> The two database tables are part of the state. What \<open>Execute\<close> sends is applied at once, what is
    appended to a transaction is a list that the caller applies when it commits.
  \<^item> \<open>None\<close> is a failed assertion or undefined behaviour. Log lines and the mutex are left out.
\<close>

section \<open>The tables\<close>

record char_lock_row =
  cl_guid :: u64
  cl_mapId :: u32
  cl_lockId :: u32
  cl_instanceId :: u32
  cl_difficulty :: u8
  cl_data :: string
  cl_mask :: u32
  cl_entrance :: u32
  cl_expiry :: u64
  cl_extended :: bool

record instance_row =
  in_instanceId :: u32
  in_data :: string
  in_mask :: u32
  in_entrance :: u32

record lock_tables =
  lt_locks :: "char_lock_row list"
  lt_instances :: "instance_row list"

datatype lock_stmt =
    DelCharacterInstanceLock u64 u32 u32
  | InsCharacterInstanceLock char_lock_row
  | UpdCharacterInstanceLockExtension bool u64 u32 u32
  | UpdCharacterInstanceLockForceExpire u64 u64 u32 u32
  | DelCharacterInstanceLocksOf u32
  | DelInstance u32
  | InsInstance instance_row

definition cl_key :: "char_lock_row \<Rightarrow> u64 \<times> u32 \<times> u32" where
  "cl_key r = (cl_guid r, cl_mapId r, cl_lockId r)"

text \<open>An insertion of a row whose primary key is there fails.\<close>

fun exec_stmt :: "lock_stmt \<Rightarrow> lock_tables \<Rightarrow> lock_tables" where
  "exec_stmt (DelCharacterInstanceLock g m l) t =
     t\<lparr>lt_locks := filter (\<lambda>r. cl_key r \<noteq> (g, m, l)) (lt_locks t)\<rparr>"
| "exec_stmt (InsCharacterInstanceLock r) t =
     (if cl_key r \<in> cl_key ` set (lt_locks t) then t else t\<lparr>lt_locks := lt_locks t @ [r]\<rparr>)"
| "exec_stmt (UpdCharacterInstanceLockExtension x g m l) t =
     t\<lparr>lt_locks := map (\<lambda>r. if cl_key r = (g, m, l) then r\<lparr>cl_extended := x\<rparr> else r) (lt_locks t)\<rparr>"
| "exec_stmt (UpdCharacterInstanceLockForceExpire p g m l) t =
     t\<lparr>lt_locks := map (\<lambda>r. if cl_key r = (g, m, l) then r\<lparr>cl_expiry := p, cl_extended := False\<rparr> else r) (lt_locks t)\<rparr>"
| "exec_stmt (DelCharacterInstanceLocksOf i) t =
     t\<lparr>lt_locks := filter (\<lambda>r. cl_instanceId r \<noteq> i) (lt_locks t)\<rparr>"
| "exec_stmt (DelInstance i) t =
     t\<lparr>lt_instances := filter (\<lambda>r. in_instanceId r \<noteq> i) (lt_instances t)\<rparr>"
| "exec_stmt (InsInstance r) t =
     (if in_instanceId r \<in> in_instanceId ` set (lt_instances t) then t
      else t\<lparr>lt_instances := lt_instances t @ [r]\<rparr>)"

section \<open>Instance ids (MapManager)\<close>

record instance_ids =
  ii_free :: "bool list"
  ii_next :: u32

definition ids_set :: "nat \<Rightarrow> bool \<Rightarrow> instance_ids \<Rightarrow> instance_ids option" where
  "ids_set i b s = (if i < length (ii_free s) then Some (s\<lparr>ii_free := (ii_free s)[i := b]\<rparr>) else None)"

definition bitset_resize :: "nat \<Rightarrow> bool \<Rightarrow> bool list \<Rightarrow> bool list" where
  "bitset_resize n b xs = take n xs @ replicate (n - length xs) b"

definition find_next :: "bool list \<Rightarrow> nat \<Rightarrow> nat option" where
  "find_next xs p = find (\<lambda>i. xs ! i) [p + 1..<length xs]"

definition max_instance_id :: "lock_tables \<Rightarrow> nat" where
  "max_instance_id t =
     foldl max (foldl max 0 (map (unat \<circ> in_instanceId) (lt_instances t))) (map (unat \<circ> cl_instanceId) (lt_locks t))"

definition InitInstanceIds :: "lock_tables \<Rightarrow> instance_ids \<Rightarrow> instance_ids option" where
  "InitInstanceIds t s =
     ids_set 0 False (s\<lparr>ii_next := 1, ii_free := bitset_resize (max_instance_id t + 2) True (ii_free s)\<rparr>)"

definition RegisterInstanceId :: "u32 \<Rightarrow> instance_ids \<Rightarrow> instance_ids option" where
  "RegisterInstanceId i s =
     map_option (\<lambda>s1. if ii_next s1 = i then s1\<lparr>ii_next := ii_next s1 + 1\<rparr> else s1) (ids_set (unat i) False s)"

text \<open>The boolean tells that the ids ran out and the server was asked to stop.\<close>

definition GenerateInstanceId :: "instance_ids \<Rightarrow> (u32 \<times> bool \<times> instance_ids) option" where
  "GenerateInstanceId s =
     (if ii_next s = 0xFFFFFFFF then Some (ii_next s, True, s)
      else
        (let newInstanceId = ii_next s in
         map_option
           (\<lambda>s1. case find_next (ii_free s1) (unat newInstanceId) of
                    None \<Rightarrow> (newInstanceId, False, s1\<lparr>ii_next := of_nat (length (ii_free s1)), ii_free := ii_free s1 @ [True]\<rparr>)
                  | Some n \<Rightarrow> (newInstanceId, False, s1\<lparr>ii_next := of_nat n\<rparr>))
           (ids_set (unat newInstanceId) False s)))"

definition FreeInstanceId :: "u32 \<Rightarrow> instance_ids \<Rightarrow> instance_ids option" where
  "FreeInstanceId i s = ids_set (unat i) True (s\<lparr>ii_next := min i (ii_next s)\<rparr>)"

section \<open>Locks and the manager\<close>

record lock_data =
  ld_Data :: string
  ld_CompletedEncountersMask :: u32
  ld_EntranceWorldSafeLocId :: u32

record shared_lock_data = lock_data +
  sd_InstanceId :: u32

record instance_lock =
  il_mapId :: u32
  il_difficultyId :: u8
  il_instanceId :: u32
  il_expiryTime :: int
  il_extended :: bool
  il_data :: lock_data
  il_isInUse :: bool
  il_isNew :: bool
  il_shared :: "nat option"

definition lock_data0 :: lock_data where
  "lock_data0 = \<lparr>ld_Data = '''', ld_CompletedEncountersMask = 0, ld_EntranceWorldSafeLocId = 0\<rparr>"

definition shared_lock_data0 :: shared_lock_data where
  "shared_lock_data0 = \<lparr>ld_Data = '''', ld_CompletedEncountersMask = 0, ld_EntranceWorldSafeLocId = 0, sd_InstanceId = 0\<rparr>"

definition InstanceLock_new :: "u32 \<Rightarrow> u8 \<Rightarrow> int \<Rightarrow> u32 \<Rightarrow> instance_lock" where
  "InstanceLock_new mapId difficultyId expiryTime instanceId =
     \<lparr>il_mapId = mapId, il_difficultyId = difficultyId, il_instanceId = instanceId, il_expiryTime = expiryTime,
      il_extended = False, il_data = lock_data0, il_isInUse = False, il_isNew = False, il_shared = None\<rparr>"

definition SharedInstanceLock_new :: "u32 \<Rightarrow> u8 \<Rightarrow> int \<Rightarrow> u32 \<Rightarrow> nat \<Rightarrow> instance_lock" where
  "SharedInstanceLock_new mapId difficultyId expiryTime instanceId sharedData =
     (InstanceLock_new mapId difficultyId expiryTime instanceId)\<lparr>il_shared := Some sharedData\<rparr>"

definition il_IsExpired :: "lock_env \<Rightarrow> instance_lock \<Rightarrow> bool" where
  "il_IsExpired e l = (il_expiryTime l < le_now e)"

definition GetEffectiveExpiryTime :: "lock_env \<Rightarrow> instance_lock \<Rightarrow> int option" where
  "GetEffectiveExpiryTime e l =
     (if \<not> il_extended l then Some (il_expiryTime l)
      else map_option
             (\<lambda>entries. if il_IsExpired e l then GetNextResetTime e entries
                        else il_expiryTime l + Seconds (GetRaidDuration entries))
             (le_entries e (il_mapId l) (il_difficultyId l)))"

type_synonym lock_store = "((ObjectGuid \<times> lock_key) \<times> instance_lock) list"

record lock_mgr =
  lm_temporary :: lock_store
  lm_locks :: lock_store
  lm_heap :: "nat \<Rightarrow> shared_lock_data option"
  lm_fresh :: nat
  lm_dataById :: "(u32 \<times> nat) list"
  lm_unloading :: bool
  lm_tables :: lock_tables
  lm_ids :: instance_ids

definition lock_mgr0 :: "lock_tables \<Rightarrow> lock_mgr" where
  "lock_mgr0 t =
     \<lparr>lm_temporary = [], lm_locks = [], lm_heap = (\<lambda>_. None), lm_fresh = 0, lm_dataById = [], lm_unloading = False,
      lm_tables = t, lm_ids = \<lparr>ii_free = [], ii_next = 0\<rparr>\<rparr>"

definition lm_Execute :: "lock_stmt \<Rightarrow> lock_mgr \<Rightarrow> lock_mgr" where
  "lm_Execute q s = s\<lparr>lm_tables := exec_stmt q (lm_tables s)\<rparr>"

definition CommitTransaction :: "lock_stmt list \<Rightarrow> lock_mgr \<Rightarrow> lock_mgr" where
  "CommitTransaction tr s = s\<lparr>lm_tables := fold exec_stmt tr (lm_tables s)\<rparr>"

definition OnSharedInstanceLockDataDelete :: "u32 \<Rightarrow> lock_mgr \<Rightarrow> lock_mgr" where
  "OnSharedInstanceLockDataDelete instanceId s =
     (if lm_unloading s then s
      else case map_of (lm_dataById s) instanceId of
             None \<Rightarrow> s
           | Some a \<Rightarrow>
               if lm_heap s a \<noteq> None then s
               else lm_Execute (DelInstance instanceId) (s\<lparr>lm_dataById := AList.delete instanceId (lm_dataById s)\<rparr>))"

definition destroy_shared :: "nat \<Rightarrow> lock_mgr \<Rightarrow> lock_mgr" where
  "destroy_shared a s =
     (case lm_heap s a of
        None \<Rightarrow> s
      | Some d \<Rightarrow>
          (let s1 = s\<lparr>lm_heap := (lm_heap s)(a := None)\<rparr> in
           if sd_InstanceId d \<noteq> 0 then OnSharedInstanceLockDataDelete (sd_InstanceId d) s1 else s1))"

definition owned :: "nat \<Rightarrow> lock_mgr \<Rightarrow> bool" where
  "owned a s = (\<exists>x \<in> set (lm_temporary s @ lm_locks s). il_shared (snd x) = Some a)"

definition release_shared :: "nat option \<Rightarrow> lock_mgr \<Rightarrow> lock_mgr" where
  "release_shared p s =
     (case p of None \<Rightarrow> s | Some a \<Rightarrow> if owned a s then s else destroy_shared a s)"

text \<open>\<open>reset\<close> of the pointer under a key: the lock there before, if any, is deleted after the change.\<close>

definition reset_lock :: "bool \<Rightarrow> ObjectGuid \<times> lock_key \<Rightarrow> instance_lock \<Rightarrow> lock_mgr \<Rightarrow> lock_mgr" where
  "reset_lock temporary k l s =
     (let old = map_of (if temporary then lm_temporary s else lm_locks s) k;
          s1 = (if temporary then s\<lparr>lm_temporary := AList.update k l (lm_temporary s)\<rparr>
                else s\<lparr>lm_locks := AList.update k l (lm_locks s)\<rparr>)
      in release_shared (Option.bind old il_shared) s1)"

section \<open>Queries\<close>

definition FindInstanceLock :: "lock_store \<Rightarrow> ObjectGuid \<Rightarrow> map_entries \<Rightarrow> instance_lock option" where
  "FindInstanceLock locks playerGuid entries = map_of locks (playerGuid, GetKey entries)"

text \<open>The boolean of the result tells the store: it is \<open>True\<close> for a temporary lock.\<close>

definition FindActiveInstanceLock_with ::
    "lock_env \<Rightarrow> ObjectGuid \<Rightarrow> map_entries \<Rightarrow> bool \<Rightarrow> bool \<Rightarrow> lock_mgr \<Rightarrow> (bool \<times> instance_lock) option" where
  "FindActiveInstanceLock_with e playerGuid entries ignoreTemporary ignoreExpired s =
     (if \<not> HasResetSchedule entries then None
      else
        (let found = FindInstanceLock (lm_locks s) playerGuid entries;
             other = (if ignoreTemporary then None
                      else map_option (Pair True) (FindInstanceLock (lm_temporary s) playerGuid entries))
         in case found of
              Some l \<Rightarrow> if \<not> il_IsExpired e l \<or> il_extended l \<or> \<not> ignoreExpired then Some (False, l) else other
            | None \<Rightarrow> other))"

definition FindActiveInstanceLock :: "lock_env \<Rightarrow> ObjectGuid \<Rightarrow> map_entries \<Rightarrow> lock_mgr \<Rightarrow> (bool \<times> instance_lock) option" where
  "FindActiveInstanceLock e playerGuid entries s = FindActiveInstanceLock_with e playerGuid entries False True s"

definition GetInstanceLocksForPlayer :: "ObjectGuid \<Rightarrow> lock_mgr \<Rightarrow> instance_lock list" where
  "GetInstanceLocksForPlayer playerGuid s = map snd (filter (\<lambda>x. fst (fst x) = playerGuid) (lm_locks s))"

datatype transfer_abort = TRANSFER_ABORT_NONE | TRANSFER_ABORT_LOCKED_TO_DIFFERENT_INSTANCE
  | TRANSFER_ABORT_ALREADY_COMPLETED_ENCOUNTER

definition CanJoinInstanceLock :: "lock_env \<Rightarrow> ObjectGuid \<Rightarrow> map_entries \<Rightarrow> instance_lock \<Rightarrow> lock_mgr \<Rightarrow> transfer_abort" where
  "CanJoinInstanceLock e playerGuid entries instanceLock s =
     (case FindActiveInstanceLock e playerGuid entries s of
        None \<Rightarrow> TRANSFER_ABORT_NONE
      | Some (_, playerInstanceLock) \<Rightarrow>
          if IsFlexLocking entries then
            (if ld_CompletedEncountersMask (il_data playerInstanceLock)
                  AND NOT (ld_CompletedEncountersMask (il_data instanceLock)) \<noteq> 0
             then TRANSFER_ABORT_ALREADY_COMPLETED_ENCOUNTER else TRANSFER_ABORT_NONE)
          else if \<not> IsUsingEncounterLocks entries \<and> \<not> il_isNew playerInstanceLock
              \<and> il_instanceId playerInstanceLock \<noteq> il_instanceId instanceLock
          then TRANSFER_ABORT_LOCKED_TO_DIFFERENT_INSTANCE
          else TRANSFER_ABORT_NONE)"

definition GetStatistics :: "lock_mgr \<Rightarrow> nat \<times> nat" where
  "GetStatistics s = (length (lm_dataById s), length (remdups (map (fst \<circ> fst) (lm_locks s))))"

section \<open>Creating and updating locks\<close>

definition CreateInstanceLockForNewInstance ::
    "lock_env \<Rightarrow> ObjectGuid \<Rightarrow> map_entries \<Rightarrow> u32 \<Rightarrow> lock_mgr \<Rightarrow> instance_lock option \<times> lock_mgr" where
  "CreateInstanceLockForNewInstance e playerGuid entries instanceId s =
     (if \<not> HasResetSchedule entries then (None, s)
      else
        (let (instanceLock, s1) =
           (if IsInstanceIdBound entries then
              (let a = lm_fresh s in
               (SharedInstanceLock_new (me_map_id entries) (me_difficulty entries) (GetNextResetTime e entries) instanceId a,
                s\<lparr>lm_heap := (lm_heap s)(a \<mapsto> shared_lock_data0), lm_fresh := a + 1,
                  lm_dataById := AList.update instanceId a (lm_dataById s)\<rparr>))
            else
              (InstanceLock_new (me_map_id entries) (me_difficulty entries) (GetNextResetTime e entries) instanceId, s));
             instanceLock1 = instanceLock\<lparr>il_isNew := True\<rparr>
         in (Some instanceLock1, reset_lock True (playerGuid, GetKey entries) instanceLock1 s1)))"

record lock_update =
  lu_InstanceId :: u32
  lu_NewData :: string
  lu_InstanceCompletedEncountersMask :: u32
  lu_CompletedEncounter :: "nat option"
  lu_EntranceWorldSafeLocId :: "u32 option"

text \<open>A completed encounter is the number of its bit; \<open>1u << 32\<close> is undefined.\<close>

definition shift_ok :: "lock_update \<Rightarrow> bool" where
  "shift_ok u = (case lu_CompletedEncounter u of None \<Rightarrow> True | Some b \<Rightarrow> b < 32)"

definition complete_encounter :: "lock_update \<Rightarrow> u32 \<Rightarrow> u32" where
  "complete_encounter u w = (case lu_CompletedEncounter u of None \<Rightarrow> w | Some b \<Rightarrow> w OR push_bit b 1)"

definition promote_temporary :: "ObjectGuid \<times> lock_key \<Rightarrow> lock_mgr \<Rightarrow> instance_lock option \<times> lock_mgr" where
  "promote_temporary k s =
     (case map_of (lm_temporary s) k of
        None \<Rightarrow> (None, s)
      | Some l \<Rightarrow>
          (let s1 = reset_lock False k l s in
           (Some l, s1\<lparr>lm_temporary := AList.delete k (lm_temporary s1)\<rparr>)))"

text \<open>The lock that is updated: an active one, the promoted temporary one or a new one.\<close>

definition new_permanent_lock ::
    "lock_env \<Rightarrow> ObjectGuid \<Rightarrow> map_entries \<Rightarrow> lock_update \<Rightarrow> lock_mgr \<Rightarrow> (instance_lock \<times> lock_mgr) option" where
  "new_permanent_lock e playerGuid entries u s =
     (let add = (\<lambda>l. Some (l, reset_lock False (playerGuid, GetKey entries) l s)) in
      if IsInstanceIdBound entries then
        (case map_of (lm_dataById s) (lu_InstanceId u) of
           None \<Rightarrow> None
         | Some a \<Rightarrow>
             (case lm_heap s a of
                None \<Rightarrow> None
              | Some d \<Rightarrow>
                  if sd_InstanceId d = lu_InstanceId u then
                    add (SharedInstanceLock_new (me_map_id entries) (me_difficulty entries) (GetNextResetTime e entries)
                           (lu_InstanceId u) a)
                  else None))
      else add (InstanceLock_new (me_map_id entries) (me_difficulty entries) (GetNextResetTime e entries) (lu_InstanceId u)))"

definition same_instance :: "map_entries \<Rightarrow> lock_update \<Rightarrow> instance_lock \<Rightarrow> lock_mgr \<Rightarrow> bool" where
  "same_instance entries u l s =
     (IsInstanceIdBound entries \<longrightarrow>
        il_instanceId l = lu_InstanceId u
        \<and> (case map_of (lm_dataById s) (lu_InstanceId u) of
             None \<Rightarrow> False
           | Some a \<Rightarrow> lm_heap s a \<noteq> None \<and> il_shared l = Some a))"

definition locate_lock ::
    "lock_env \<Rightarrow> ObjectGuid \<Rightarrow> map_entries \<Rightarrow> lock_update \<Rightarrow> lock_mgr \<Rightarrow> (instance_lock \<times> lock_mgr) option" where
  "locate_lock e playerGuid entries u s =
     (let (found, s1) =
        (case FindActiveInstanceLock_with e playerGuid entries True True s of
           Some (_, l) \<Rightarrow> (Some l, s)
         | None \<Rightarrow> promote_temporary (playerGuid, GetKey entries) s)
      in case found of
           None \<Rightarrow> new_permanent_lock e playerGuid entries u s1
         | Some l \<Rightarrow> if same_instance entries u l s1 then Some (l\<lparr>il_instanceId := lu_InstanceId u\<rparr>, s1) else None)"

definition updated_lock :: "lock_env \<Rightarrow> map_entries \<Rightarrow> lock_update \<Rightarrow> instance_lock \<Rightarrow> instance_lock" where
  "updated_lock e entries u l =
     (let d = (il_data l)\<lparr>ld_Data := lu_NewData u\<rparr>;
          d1 = d\<lparr>ld_CompletedEncountersMask := complete_encounter u (ld_CompletedEncountersMask d)\<rparr>;
          d2 = (if \<not> IsUsingEncounterLocks entries
                then d1\<lparr>ld_CompletedEncountersMask := ld_CompletedEncountersMask d1 OR lu_InstanceCompletedEncountersMask u\<rparr>
                else d1);
          d3 = (case lu_EntranceWorldSafeLocId u of None \<Rightarrow> d2 | Some x \<Rightarrow> d2\<lparr>ld_EntranceWorldSafeLocId := x\<rparr>);
          l1 = l\<lparr>il_isNew := False, il_data := d3\<rparr>
      in if il_IsExpired e l1 then l1\<lparr>il_expiryTime := GetNextResetTime e entries, il_extended := False\<rparr> else l1)"

definition lock_row :: "ObjectGuid \<Rightarrow> map_entries \<Rightarrow> instance_lock \<Rightarrow> char_lock_row" where
  "lock_row playerGuid entries l =
     \<lparr>cl_guid = GetCounter playerGuid, cl_mapId = me_map_id entries, cl_lockId = ucast (me_lock_id entries),
      cl_instanceId = il_instanceId l, cl_difficulty = me_difficulty entries, cl_data = ld_Data (il_data l),
      cl_mask = ld_CompletedEncountersMask (il_data l), cl_entrance = ld_EntranceWorldSafeLocId (il_data l),
      cl_expiry = of_int (to_time_t (il_expiryTime l)), cl_extended = il_extended l\<rparr>"

definition UpdateInstanceLockForPlayer ::
    "lock_env \<Rightarrow> lock_stmt list \<Rightarrow> ObjectGuid \<Rightarrow> map_entries \<Rightarrow> lock_update \<Rightarrow> lock_mgr
     \<Rightarrow> (instance_lock \<times> lock_stmt list \<times> lock_mgr) option" where
  "UpdateInstanceLockForPlayer e tr playerGuid entries u s =
     (if \<not> shift_ok u then None
      else map_option
        (\<lambda>(l, s1).
           let l1 = updated_lock e entries u l in
           (l1,
            tr @ [DelCharacterInstanceLock (GetCounter playerGuid) (me_map_id entries) (ucast (me_lock_id entries)),
                  InsCharacterInstanceLock (lock_row playerGuid entries l1)],
            s1\<lparr>lm_locks := AList.update (playerGuid, GetKey entries) l1 (lm_locks s1)\<rparr>))
        (locate_lock e playerGuid entries u s))"

definition UpdateSharedInstanceLock :: "lock_stmt list \<Rightarrow> lock_update \<Rightarrow> lock_mgr \<Rightarrow> (lock_stmt list \<times> lock_mgr) option" where
  "UpdateSharedInstanceLock tr u s =
     (case map_of (lm_dataById s) (lu_InstanceId u) of
        None \<Rightarrow> None
      | Some a \<Rightarrow>
          (case lm_heap s a of
             None \<Rightarrow> None
           | Some sharedData \<Rightarrow>
               if (sd_InstanceId sharedData = 0 \<or> sd_InstanceId sharedData = lu_InstanceId u) \<and> shift_ok u then
                 (let d = sharedData\<lparr>ld_Data := lu_NewData u, sd_InstanceId := lu_InstanceId u\<rparr>;
                      d1 = d\<lparr>ld_CompletedEncountersMask := complete_encounter u (ld_CompletedEncountersMask d)\<rparr>;
                      d2 = (case lu_EntranceWorldSafeLocId u of None \<Rightarrow> d1 | Some x \<Rightarrow> d1\<lparr>ld_EntranceWorldSafeLocId := x\<rparr>)
                  in Some (tr @ [DelInstance (sd_InstanceId d2),
                       InsInstance \<lparr>in_instanceId = sd_InstanceId d2, in_data = ld_Data d2,
                         in_mask = ld_CompletedEncountersMask d2, in_entrance = ld_EntranceWorldSafeLocId d2\<rparr>],
                     s\<lparr>lm_heap := (lm_heap s)(a \<mapsto> d2)\<rparr>))
               else None))"

definition set_lock :: "bool \<Rightarrow> ObjectGuid \<times> lock_key \<Rightarrow> (instance_lock \<Rightarrow> instance_lock) \<Rightarrow> lock_mgr \<Rightarrow> lock_mgr" where
  "set_lock temporary k f s =
     (if temporary then s\<lparr>lm_temporary := AList.map_entry k f (lm_temporary s)\<rparr>
      else s\<lparr>lm_locks := AList.map_entry k f (lm_locks s)\<rparr>)"

definition UpdateInstanceLockExtensionForPlayer ::
    "lock_env \<Rightarrow> ObjectGuid \<Rightarrow> map_entries \<Rightarrow> bool \<Rightarrow> lock_mgr \<Rightarrow> ((int \<times> int) \<times> lock_mgr) option" where
  "UpdateInstanceLockExtensionForPlayer e playerGuid entries extended s =
     (case FindActiveInstanceLock_with e playerGuid entries True False s of
        None \<Rightarrow> Some ((time_point_min, time_point_min), s)
      | Some (_, instanceLock) \<Rightarrow>
          (let s1 = lm_Execute (UpdCharacterInstanceLockExtension extended (GetCounter playerGuid) (me_map_id entries)
                      (ucast (me_lock_id entries)))
                    (set_lock False (playerGuid, GetKey entries) (\<lambda>l. l\<lparr>il_extended := extended\<rparr>) s)
           in case (GetEffectiveExpiryTime e instanceLock,
                    GetEffectiveExpiryTime e (instanceLock\<lparr>il_extended := extended\<rparr>)) of
                (Some oldExpiryTime, Some newExpiryTime) \<Rightarrow> Some ((oldExpiryTime, newExpiryTime), s1)
              | _ \<Rightarrow> None))"

definition reset_candidates ::
    "lock_env \<Rightarrow> ObjectGuid \<Rightarrow> u32 option \<Rightarrow> u8 option \<Rightarrow> lock_mgr \<Rightarrow> lock_store" where
  "reset_candidates e playerGuid mapId difficulty s =
     filter (\<lambda>(k, l). fst k = playerGuid \<and> \<not> il_isInUse l \<and> (mapId = None \<or> mapId = Some (il_mapId l))
        \<and> (difficulty = None \<or> difficulty = Some (il_difficultyId l)) \<and> \<not> il_IsExpired e l) (lm_locks s)"

fun reset_locks :: "lock_env \<Rightarrow> ObjectGuid \<Rightarrow> lock_store \<Rightarrow> lock_stmt list \<Rightarrow> lock_mgr \<Rightarrow> (lock_stmt list \<times> lock_mgr) option" where
  "reset_locks e playerGuid [] tr s = Some (tr, s)"
| "reset_locks e playerGuid ((k, l) # ls) tr s =
     (case le_entries e (il_mapId l) (il_difficultyId l) of
        None \<Rightarrow> None
      | Some entries \<Rightarrow>
          (let newExpiryTime = GetNextResetTime e entries - Seconds (GetRaidDuration entries) in
           reset_locks e playerGuid ls
             (tr @ [UpdCharacterInstanceLockForceExpire (of_int (to_time_t newExpiryTime)) (GetCounter playerGuid)
                      (me_map_id entries) (ucast (me_lock_id entries))])
             (set_lock False k (\<lambda>l. l\<lparr>il_expiryTime := newExpiryTime, il_extended := False\<rparr>) s)))"

text \<open>The two lists of the result are the locks that were reset and the ones in use.\<close>

definition ResetInstanceLocksForPlayer ::
    "lock_env \<Rightarrow> ObjectGuid \<Rightarrow> u32 option \<Rightarrow> u8 option \<Rightarrow> lock_mgr \<Rightarrow> (lock_store \<times> lock_store \<times> lock_mgr) option" where
  "ResetInstanceLocksForPlayer e playerGuid mapId difficulty s =
     (let locksReset = reset_candidates e playerGuid mapId difficulty s;
          locksFailedToReset = filter (\<lambda>(k, l). fst k = playerGuid \<and> il_isInUse l) (lm_locks s)
      in map_option (\<lambda>(tr, s1). (locksReset, locksFailedToReset, CommitTransaction tr s1))
           (reset_locks e playerGuid locksReset [] s))"

section \<open>Loading and unloading\<close>

text \<open>
  The shared states of the \<open>instance\<close> table; the local map owns them until \<open>Load\<close> returns, so that no lock
  that is overwritten meanwhile is the last owner.
\<close>

fun load_instances :: "instance_row list \<Rightarrow> (u32 \<times> nat) list \<Rightarrow> lock_mgr \<Rightarrow> (u32 \<times> nat) list \<times> lock_mgr" where
  "load_instances [] local s = (local, s)"
| "load_instances (r # rs) local s =
     (let a = lm_fresh s;
          d = shared_lock_data0\<lparr>ld_Data := in_data r, ld_CompletedEncountersMask := in_mask r, sd_InstanceId := in_instanceId r\<rparr>;
          s1 = s\<lparr>lm_heap := (lm_heap s)(a \<mapsto> d), lm_fresh := a + 1\<rparr>;
          s2 = (case map_of local (in_instanceId r) of None \<Rightarrow> s1 | Some b \<Rightarrow> destroy_shared b s1)
      in load_instances rs (AList.update (in_instanceId r) a local) s2)"

fun load_locks ::
    "lock_env \<Rightarrow> u32 \<Rightarrow> (u32 \<times> nat) list \<Rightarrow> char_lock_row list \<Rightarrow> lock_mgr \<Rightarrow> lock_mgr option" where
  "load_locks e rlm local [] s = Some s"
| "load_locks e rlm local (r # rs) s =
     (case (RegisterInstanceId (cl_instanceId r) (lm_ids s), le_entries e (cl_mapId r) (cl_difficulty r)) of
        (Some ids, Some entries) \<Rightarrow>
          (let playerGuid = CreatePlayer rlm 0 (cl_guid r);
               expiryTime = from_time_t (sint (cl_expiry r));
               s1 = s\<lparr>lm_ids := ids\<rparr>;
               fill = (\<lambda>l. l\<lparr>il_data := (il_data l)\<lparr>ld_Data := cl_data r, ld_CompletedEncountersMask := cl_mask r\<rparr>,
                              il_extended := cl_extended r\<rparr>);
               store = (\<lambda>l s. s\<lparr>lm_locks := AList.update (playerGuid, (cl_mapId r, cl_lockId r)) (fill l) (lm_locks s)\<rparr>)
           in if IsInstanceIdBound entries then
                (case map_of local (cl_instanceId r) of
                   None \<Rightarrow> load_locks e rlm local rs (lm_Execute (DelCharacterInstanceLocksOf (cl_instanceId r)) s1)
                 | Some a \<Rightarrow>
                     load_locks e rlm local rs
                       (store (SharedInstanceLock_new (cl_mapId r) (cl_difficulty r) expiryTime (cl_instanceId r) a)
                          (s1\<lparr>lm_dataById := AList.update (cl_instanceId r) a (lm_dataById s1)\<rparr>)))
              else
                load_locks e rlm local rs
                  (store (InstanceLock_new (cl_mapId r) (cl_difficulty r) expiryTime (cl_instanceId r)) s1))
      | _ \<Rightarrow> None)"

definition InstanceLockMgr_Load :: "lock_env \<Rightarrow> u32 \<Rightarrow> lock_mgr \<Rightarrow> lock_mgr option" where
  "InstanceLockMgr_Load e rlm s =
     (let (local, s1) = load_instances (lt_instances (lm_tables s)) [] s in
      map_option (fold (\<lambda>x. release_shared (Some (snd x))) local)
        (load_locks e rlm local (sort_key cl_instanceId (lt_locks (lm_tables s1))) s1))"

definition InstanceLockMgr_Unload :: "lock_mgr \<Rightarrow> lock_mgr" where
  "InstanceLockMgr_Unload s =
     (let s1 = s\<lparr>lm_unloading := True, lm_locks := []\<rparr>;
          s2 = fold (\<lambda>x. release_shared (il_shared (snd x))) (lm_locks s) s1
      in s2\<lparr>lm_dataById := []\<rparr>)"

text \<open>The start of the server (\<open>World::SetInitialWorldSettings\<close>): the ids, then the locks.\<close>

definition start_server :: "lock_env \<Rightarrow> u32 \<Rightarrow> lock_tables \<Rightarrow> lock_mgr option" where
  "start_server e rlm t =
     Option.bind (InitInstanceIds t (lm_ids (lock_mgr0 t)))
       (\<lambda>ids. InstanceLockMgr_Load e rlm ((lock_mgr0 t)\<lparr>lm_ids := ids\<rparr>))"

section \<open>Entering and saving an instance map\<close>

text \<open>
  The lock and the id for a player entering a dungeon (the dungeon branch of \<open>MapManager::CreateMap\<close>).
  \<open>recent\<close> is the group's or player's recent instance id, \<open>elsewhere\<close> says of an id that its map exists
  and runs on another lock.
\<close>

definition enter_instance ::
    "lock_env \<Rightarrow> ObjectGuid \<Rightarrow> map_entries \<Rightarrow> u8 \<Rightarrow> u32 \<Rightarrow> (u32 \<Rightarrow> bool) \<Rightarrow> lock_mgr
     \<Rightarrow> (u32 \<times> u8 \<times> lock_mgr) option" where
  "enter_instance e owner entries difficulty recent elsewhere s =
     Option.bind
       (case FindActiveInstanceLock e owner entries s of
          Some (temporary, l) \<Rightarrow>
            Some (Some temporary, il_instanceId l, if \<not> IsFlexLocking entries then il_difficultyId l else difficulty, s)
        | None \<Rightarrow>
            (let found = (if \<not> HasResetSchedule entries then recent else 0) in
             map_option
               (\<lambda>(newInstanceId, ids).
                  let (l, s1) = CreateInstanceLockForNewInstance e owner entries newInstanceId (s\<lparr>lm_ids := ids\<rparr>)
                  in (map_option (\<lambda>_. True) l, newInstanceId, difficulty, s1))
               (if found \<noteq> 0 then Some (found, lm_ids s)
                else map_option (\<lambda>(i, _, ids). (i, ids)) (GenerateInstanceId (lm_ids s)))))
       (\<lambda>(lock, newInstanceId, d, s1).
          if \<not> IsInstanceIdBound entries \<and> elsewhere newInstanceId then
            (case lock of
               None \<Rightarrow> Some (newInstanceId, d, s1)
             | Some temporary \<Rightarrow>
                 map_option
                   (\<lambda>(i, _, ids).
                      (i, d, set_lock temporary (owner, GetKey entries) (\<lambda>l. l\<lparr>il_instanceId := i\<rparr>) (s1\<lparr>lm_ids := ids\<rparr>)))
                   (GenerateInstanceId (lm_ids s1)))
          else Some (newInstanceId, d, s1))"

text \<open>
  What the script of the map (\<open>i_data\<close>) says when it is saved: its text, a player's text updated from the
  old one, and the entrance for a set of completed encounters.
\<close>

record map_script =
  ms_SaveData :: string
  ms_UpdateSaveData :: "string \<Rightarrow> string"
  ms_Entrance :: "u32 \<Rightarrow> u32 option"

text \<open>The event for one player: the old text and the completed encounters are those of the active lock.\<close>

definition player_update ::
    "lock_env \<Rightarrow> map_entries \<Rightarrow> u32 \<Rightarrow> map_script \<Rightarrow> nat option \<Rightarrow> u32 \<Rightarrow> ObjectGuid \<Rightarrow> lock_mgr \<Rightarrow> lock_update" where
  "player_update e entries i ms enc completed player s =
     (let playerLock = map_option snd (FindActiveInstanceLock e player entries s);
          oldData = (case playerLock of None \<Rightarrow> '''' | Some l \<Rightarrow> ld_Data (il_data l));
          playerCompleted =
            (case (playerLock, enc) of
               (Some l, Some b) \<Rightarrow> ld_CompletedEncountersMask (il_data l) OR push_bit b 1
             | _ \<Rightarrow> 0)
      in \<lparr>lu_InstanceId = i, lu_NewData = ms_UpdateSaveData ms oldData,
          lu_InstanceCompletedEncountersMask = completed, lu_CompletedEncounter = enc,
          lu_EntranceWorldSafeLocId = (if enc = None then None else ms_Entrance ms playerCompleted)\<rparr>)"

text \<open>The loop over the players in the map, each with whether it is in GM mode.\<close>

fun save_players ::
    "lock_env \<Rightarrow> map_entries \<Rightarrow> u32 \<Rightarrow> map_script \<Rightarrow> nat option \<Rightarrow> u32 \<Rightarrow> (ObjectGuid \<times> bool) list
     \<Rightarrow> lock_stmt list \<Rightarrow> lock_mgr \<Rightarrow> (lock_stmt list \<times> lock_mgr) option" where
  "save_players e entries i ms enc completed [] tr s = Some (tr, s)"
| "save_players e entries i ms enc completed ((player, gm) # ps) tr s =
     (if gm then save_players e entries i ms enc completed ps tr s
      else
        Option.bind
          (UpdateInstanceLockForPlayer e tr player entries (player_update e entries i ms enc completed player s) s)
          (\<lambda>(_, tr1, s1). save_players e entries i ms enc completed ps tr1 s1))"

text \<open>
  \<open>InstanceMap::UpdateInstanceLock\<close> for a completed encounter (\<open>Some\<close> its bit) and for other data
  (\<open>None\<close>). \<open>instanceLock\<close> is the value of the map's lock.
\<close>

definition map_UpdateInstanceLock ::
    "lock_env \<Rightarrow> map_entries \<Rightarrow> u32 \<Rightarrow> instance_lock option \<Rightarrow> map_script \<Rightarrow> nat option \<Rightarrow> (ObjectGuid \<times> bool) list
     \<Rightarrow> lock_mgr \<Rightarrow> lock_mgr option" where
  "map_UpdateInstanceLock e entries i instanceLock ms enc players s =
     (case instanceLock of
        None \<Rightarrow> Some s
      | Some il \<Rightarrow>
          (let completed = (case enc of None \<Rightarrow> ld_CompletedEncountersMask (il_data il)
                            | Some b \<Rightarrow> ld_CompletedEncountersMask (il_data il) OR push_bit b 1);
               u = \<lparr>lu_InstanceId = i, lu_NewData = ms_SaveData ms, lu_InstanceCompletedEncountersMask = completed,
                    lu_CompletedEncounter = enc,
                    lu_EntranceWorldSafeLocId = (if enc = None then None else ms_Entrance ms completed)\<rparr>
           in if enc \<noteq> None \<and> \<not> shift_ok u then None
              else map_option (\<lambda>(tr, s1). CommitTransaction tr s1)
                (Option.bind (if IsInstanceIdBound entries then UpdateSharedInstanceLock [] u s else Some ([], s))
                   (\<lambda>(tr, s1). save_players e entries i ms enc completed players tr s1))))"

text \<open>\<open>InstanceMap::CreateInstanceLockForPlayer\<close>: a player accepts to be bound to the map.\<close>

definition map_CreateInstanceLockForPlayer ::
    "lock_env \<Rightarrow> map_entries \<Rightarrow> u32 \<Rightarrow> instance_lock \<Rightarrow> map_script \<Rightarrow> ObjectGuid \<Rightarrow> lock_mgr \<Rightarrow> lock_mgr option" where
  "map_CreateInstanceLockForPlayer e entries i instanceLock ms player s =
     map_option (\<lambda>(_, tr, s1). CommitTransaction tr s1)
       (UpdateInstanceLockForPlayer e [] player entries
          \<lparr>lu_InstanceId = i, lu_NewData = ms_SaveData ms,
           lu_InstanceCompletedEncountersMask = ld_CompletedEncountersMask (il_data instanceLock),
           lu_CompletedEncounter = None, lu_EntranceWorldSafeLocId = None\<rparr> s)"

text \<open>The constructor and destructor of \<open>InstanceMap\<close> mark their lock.\<close>

definition map_SetInUse :: "bool \<Rightarrow> ObjectGuid \<times> lock_key \<Rightarrow> bool \<Rightarrow> lock_mgr \<Rightarrow> lock_mgr" where
  "map_SetInUse temporary k b s = set_lock temporary k (\<lambda>l. l\<lparr>il_isInUse := b\<rparr>) s"

section \<open>The invariant\<close>

text \<open>
  The rows of the client's tables are a parameter \<open>es\<close> that does not change, \<open>bnd\<close> says which keys have
  instance id bound locks: the difficulties that share a key agree on that. \<open>rlm\<close> is the realm.
\<close>

definition entries_ok :: "(u32 \<Rightarrow> u8 \<Rightarrow> map_entries option) \<Rightarrow> (lock_key \<Rightarrow> bool) \<Rightarrow> bool" where
  "entries_ok es bnd =
     (\<forall>mp d m. es mp d = Some m \<longrightarrow> me_map_id m = mp \<and> me_difficulty m = d \<and> IsInstanceIdBound m = bnd (GetKey m))"

definition lock_at :: "bool \<Rightarrow> lock_mgr \<Rightarrow> ObjectGuid \<times> lock_key \<Rightarrow> instance_lock option" where
  "lock_at temporary s k = map_of (if temporary then lm_temporary s else lm_locks s) k"

definition lock_fields ::
    "(u32 \<Rightarrow> u8 \<Rightarrow> map_entries option) \<Rightarrow> u32 \<Rightarrow> bool \<Rightarrow> ObjectGuid \<times> lock_key \<Rightarrow> instance_lock \<Rightarrow> bool" where
  "lock_fields es rlm b k l =
     (fst k = CreatePlayer rlm 0 (GetCounter (fst k)) \<and> il_mapId l = fst (snd k)
      \<and> (\<exists>m. es (il_mapId l) (il_difficultyId l) = Some m \<and> GetKey m = snd k)
      \<and> (\<exists>x. il_expiryTime l = from_time_t x) \<and> il_instanceId l \<noteq> 0 \<and> (b \<longrightarrow> il_isNew l))"

definition lock_link ::
    "bool \<Rightarrow> (nat \<Rightarrow> shared_lock_data option) \<Rightarrow> (u32 \<times> nat) list \<Rightarrow> bool \<Rightarrow> instance_lock \<Rightarrow> bool" where
  "lock_link bound h byId b l =
     (if bound then
        \<exists>a d. il_shared l = Some a \<and> h a = Some d \<and> map_of byId (il_instanceId l) = Some a
          \<and> (sd_InstanceId d = il_instanceId l \<or> b \<and> sd_InstanceId d = 0)
      else il_shared l = None)"

definition held :: "nat \<Rightarrow> lock_mgr \<Rightarrow> bool" where
  "held a s = (\<exists>b k l. lock_at b s k = Some l \<and> il_shared l = Some a)"

definition ids_ok :: "instance_ids \<Rightarrow> bool" where
  "ids_ok ids =
     (unat (ii_next ids) < length (ii_free ids) \<and> ii_free ids ! unat (ii_next ids)
      \<and> \<not> ii_free ids ! 0 \<and> length (ii_free ids) \<le> 2 ^ 32)"

definition id_taken :: "u32 \<Rightarrow> instance_ids \<Rightarrow> bool" where
  "id_taken i ids = (unat i < length (ii_free ids) \<and> \<not> ii_free ids ! unat i)"

definition by_id_ok :: "nat \<Rightarrow> (u32 \<times> nat) list \<Rightarrow> bool" where
  "by_id_ok n m = (\<forall>i a. map_of m i = Some a \<longrightarrow> a < n \<and> (\<forall>j. map_of m j = Some a \<longrightarrow> j = i))"

text \<open>\<open>p\<close> is an address that may still be live without an owner: the one about to be released.\<close>

definition linked ::
    "(u32 \<Rightarrow> u8 \<Rightarrow> map_entries option) \<Rightarrow> (lock_key \<Rightarrow> bool) \<Rightarrow> u32 \<Rightarrow> nat option \<Rightarrow> lock_mgr \<Rightarrow> bool" where
  "linked es bnd rlm p s =
     (distinct (map fst (lm_temporary s)) \<and> distinct (map fst (lm_locks s)) \<and> \<not> lm_unloading s
      \<and> (\<forall>b k l. lock_at b s k = Some l \<longrightarrow>
           lock_fields es rlm b k l \<and> lock_link (bnd (snd k)) (lm_heap s) (lm_dataById s) b l
           \<and> id_taken (il_instanceId l) (lm_ids s))
      \<and> (\<forall>a. lm_heap s a \<noteq> None \<longrightarrow> a < lm_fresh s \<and> (held a s \<or> p = Some a))
      \<and> by_id_ok (lm_fresh s) (lm_dataById s) \<and> ids_ok (lm_ids s))"

definition rows_at :: "('r \<Rightarrow> 'k) \<Rightarrow> 'r list \<Rightarrow> 'k \<Rightarrow> 'r option" where
  "rows_at f rs q = map_of (map (\<lambda>r. (f r, r)) rs) q"

text \<open>The tables mirror the permanent locks and the shared states with an id.\<close>

definition row_at :: "lock_tables \<Rightarrow> u64 \<times> u32 \<times> u32 \<Rightarrow> char_lock_row option" where
  "row_at t = rows_at cl_key (lt_locks t)"

definition inst_at :: "lock_tables \<Rightarrow> u32 \<Rightarrow> instance_row option" where
  "inst_at t = rows_at in_instanceId (lt_instances t)"

definition row_ok :: "(u32 \<Rightarrow> u8 \<Rightarrow> map_entries option) \<Rightarrow> (lock_key \<Rightarrow> bool) \<Rightarrow> char_lock_row \<Rightarrow> instance_lock \<Rightarrow> bool" where
  "row_ok es bnd r l =
     (cl_data r = ld_Data (il_data l) \<and> cl_mask r = ld_CompletedEncountersMask (il_data l)
      \<and> cl_expiry r = of_int (to_time_t (il_expiryTime l)) \<and> cl_extended r = il_extended l
      \<and> cl_instanceId r \<noteq> 0 \<and> (bnd (cl_mapId r, cl_lockId r) \<longrightarrow> cl_instanceId r = il_instanceId l)
      \<and> (\<exists>m. es (cl_mapId r) (cl_difficulty r) = Some m \<and> GetKey m = (cl_mapId r, cl_lockId r)))"

definition inst_ok :: "shared_lock_data \<Rightarrow> instance_row \<Rightarrow> bool" where
  "inst_ok d r = (in_data r = ld_Data d \<and> in_mask r = ld_CompletedEncountersMask d)"

definition mirrored ::
    "(u32 \<Rightarrow> u8 \<Rightarrow> map_entries option) \<Rightarrow> (lock_key \<Rightarrow> bool) \<Rightarrow> u32 \<Rightarrow> lock_tables \<Rightarrow> lock_mgr \<Rightarrow> bool" where
  "mirrored es bnd rlm t s =
     (distinct (map cl_key (lt_locks t)) \<and> distinct (map in_instanceId (lt_instances t))
      \<and> (\<forall>c k. rel_option (row_ok es bnd) (row_at t (c, k)) (lock_at False s (CreatePlayer rlm 0 c, k)))
      \<and> (\<forall>a d. lm_heap s a = Some d \<and> sd_InstanceId d \<noteq> 0 \<longrightarrow> (\<exists>r. inst_at t (sd_InstanceId d) = Some r \<and> inst_ok d r)))"

section \<open>Lookups\<close>

lemma lock_at_simps [simp]:
  "lock_at True s = map_of (lm_temporary s)" "lock_at False s = map_of (lm_locks s)"
  by (auto simp: lock_at_def)

lemma owned_held:
  assumes "distinct (map fst (lm_temporary s))" and "distinct (map fst (lm_locks s))"
  shows "owned a s = held a s"
proof
  assume "owned a s"
  then obtain x where x: "x \<in> set (lm_temporary s) \<or> x \<in> set (lm_locks s)" and a: "il_shared (snd x) = Some a"
    by (auto simp: owned_def)
  from x assms have "lock_at True s (fst x) = Some (snd x) \<or> lock_at False s (fst x) = Some (snd x)" by auto
  with a show "held a s" unfolding held_def by blast
next
  assume "held a s"
  then obtain b k l where l: "lock_at b s k = Some l" and a: "il_shared l = Some a" by (auto simp: held_def)
  from l have "(k, l) \<in> set (lm_temporary s @ lm_locks s)"
    by (cases b) (auto dest: map_of_SomeD)
  with a show "owned a s" unfolding owned_def by force
qed

lemma rows_at_filter: "rows_at f (filter (\<lambda>r. f r \<noteq> q) rs) = (rows_at f rs)(q := None)"
  by (induction rs) (auto simp: rows_at_def fun_eq_iff)

lemma rows_at_map:
  "(\<And>r. f (g r) = f r) \<Longrightarrow>
   rows_at f (map (\<lambda>r. if f r = q then g r else r) rs) = (rows_at f rs)(q := map_option g (rows_at f rs q))"
  by (induction rs) (auto simp: rows_at_def fun_eq_iff)

lemma rows_at_snoc: "rows_at f rs (f r) = None \<Longrightarrow> rows_at f (rs @ [r]) = (rows_at f rs)(f r \<mapsto> r)"
  by (auto simp: rows_at_def fun_eq_iff map_add_def split: option.split)

lemma rows_at_None: "rows_at f rs q = None \<longleftrightarrow> q \<notin> f ` set rs"
  by (auto simp: rows_at_def map_of_eq_None_iff image_image)

lemma rows_at_key: "rows_at f rs q = Some r \<Longrightarrow> f r = q \<and> r \<in> set rs"
  unfolding rows_at_def by (auto dest!: map_of_SomeD)

lemma cl_key_upd [simp]:
  "cl_key (r\<lparr>cl_extended := x\<rparr>) = cl_key r" "cl_key (r\<lparr>cl_expiry := p\<rparr>) = cl_key r"
  by (simp_all add: cl_key_def)

lemma row_at_exec:
  "row_at (exec_stmt (DelCharacterInstanceLock g m l) t) = (row_at t)((g, m, l) := None)"
  "row_at (exec_stmt (UpdCharacterInstanceLockExtension x g m l) t)
     = (row_at t)((g, m, l) := map_option (\<lambda>r. r\<lparr>cl_extended := x\<rparr>) (row_at t (g, m, l)))"
  "row_at (exec_stmt (UpdCharacterInstanceLockForceExpire p g m l) t)
     = (row_at t)((g, m, l) := map_option (\<lambda>r. r\<lparr>cl_expiry := p, cl_extended := False\<rparr>) (row_at t (g, m, l)))"
  "row_at (exec_stmt (DelInstance i) t) = row_at t"
  "row_at (exec_stmt (InsInstance ir) t) = row_at t"
  by (simp_all add: row_at_def rows_at_filter rows_at_map)

lemma row_at_insert:
  "row_at t (cl_key r) = None \<Longrightarrow> row_at (exec_stmt (InsCharacterInstanceLock r) t) = (row_at t)(cl_key r \<mapsto> r)"
  by (auto simp: row_at_def rows_at_snoc rows_at_None)

lemma inst_at_exec:
  "inst_at (exec_stmt (DelInstance i) t) = (inst_at t)(i := None)"
  "inst_at t (in_instanceId r) = None \<Longrightarrow> inst_at (exec_stmt (InsInstance r) t) = (inst_at t)(in_instanceId r \<mapsto> r)"
  by (auto simp: inst_at_def rows_at_filter rows_at_snoc rows_at_None)

text \<open>Statements about characters leave the other table alone.\<close>

fun about_characters :: "lock_stmt \<Rightarrow> bool" where
  "about_characters (DelInstance i) = False"
| "about_characters (InsInstance r) = False"
| "about_characters q = True"

lemma inst_at_characters [simp]: "about_characters q \<Longrightarrow> lt_instances (exec_stmt q t) = lt_instances t"
  by (cases q) auto

lemma map_key_upd:
  "(\<And>r. f (g r) = f r) \<Longrightarrow> map f (map (\<lambda>r. if f r = q then g r else r) rs) = map f rs"
  by simp

lemma distinct_exec:
  assumes "distinct (map cl_key (lt_locks t))" and "distinct (map in_instanceId (lt_instances t))"
  shows "distinct (map cl_key (lt_locks (exec_stmt q t)))"
    and "distinct (map in_instanceId (lt_instances (exec_stmt q t)))"
proof -
  note f = distinct_map_filter [OF assms(1)] distinct_map_filter [OF assms(2)]
  show "distinct (map cl_key (lt_locks (exec_stmt q t)))"
    using assms f by (cases q) (simp_all add: map_key_upd del: map_map)
  show "distinct (map in_instanceId (lt_instances (exec_stmt q t)))"
    using assms f by (cases q) auto
qed

lemma distinct_fold_exec:
  assumes "distinct (map cl_key (lt_locks t))" and "distinct (map in_instanceId (lt_instances t))"
  shows "distinct (map cl_key (lt_locks (fold exec_stmt tr t)))
    \<and> distinct (map in_instanceId (lt_instances (fold exec_stmt tr t)))"
  using assms by (induction tr arbitrary: t) (simp_all add: distinct_exec)

text \<open>
  An immediate deletion commutes with a pending transaction that does not insert the row: it may be
  thought of as happening after it.
\<close>

lemma exec_DelInstance_commute:
  assumes "\<And>r. q = InsInstance r \<Longrightarrow> in_instanceId r \<noteq> i"
  shows "exec_stmt q (exec_stmt (DelInstance i) t) = exec_stmt (DelInstance i) (exec_stmt q t)"
  using assms by (cases q) (auto simp: conj_commute)

lemma fold_DelInstance_commute:
  "(\<And>r. InsInstance r \<in> set tr \<Longrightarrow> in_instanceId r \<noteq> i) \<Longrightarrow>
   fold exec_stmt tr (exec_stmt (DelInstance i) t) = exec_stmt (DelInstance i) (fold exec_stmt tr t)"
proof (induction tr arbitrary: t)
  case (Cons q tr)
  then have "exec_stmt q (exec_stmt (DelInstance i) t) = exec_stmt (DelInstance i) (exec_stmt q t)"
    by (intro exec_DelInstance_commute) auto
  with Cons show ?case by simp
qed simp

section \<open>Releasing a shared state\<close>

lemma linked_owned: "linked es bnd rlm p s \<Longrightarrow> owned a s = held a s"
  unfolding linked_def by (rule owned_held) blast+

lemma held_link:
  assumes "linked es bnd rlm p s" and "held a s"
  shows "\<exists>b k l d. lock_at b s k = Some l \<and> il_shared l = Some a \<and> bnd (snd k) \<and> lm_heap s a = Some d
    \<and> map_of (lm_dataById s) (il_instanceId l) = Some a
    \<and> (sd_InstanceId d = il_instanceId l \<or> b \<and> sd_InstanceId d = 0)"
proof -
  from assms(2) obtain b k l where l: "lock_at b s k = Some l" "il_shared l = Some a" by (auto simp: held_def)
  with assms(1) have "lock_link (bnd (snd k)) (lm_heap s) (lm_dataById s) b l" unfolding linked_def by blast
  with l show ?thesis unfolding lock_link_def by (cases "bnd (snd k)") fastforce+
qed

text \<open>What a release can change: unowned states die, entries of dead states are forgotten.\<close>

definition shrunk :: "lock_mgr \<Rightarrow> lock_mgr \<Rightarrow> bool" where
  "shrunk s s' =
     (lm_temporary s' = lm_temporary s \<and> lm_locks s' = lm_locks s \<and> lm_fresh s' = lm_fresh s
      \<and> lm_unloading s' = lm_unloading s \<and> lm_ids s' = lm_ids s
      \<and> lm_heap s' = (\<lambda>a. if held a s then lm_heap s a else None)
      \<and> (\<forall>i a. map_of (lm_dataById s) i = Some a \<and> held a s \<longrightarrow> map_of (lm_dataById s') i = Some a)
      \<and> (\<forall>i a. map_of (lm_dataById s') i = Some a \<longrightarrow> map_of (lm_dataById s) i = Some a)
      \<and> (lm_tables s' = lm_tables s
         \<or> (\<exists>j. lm_tables s' = exec_stmt (DelInstance j) (lm_tables s)
              \<and> (\<forall>b d. lm_heap s' b = Some d \<longrightarrow> sd_InstanceId d \<noteq> j))))"

lemma shrunkD:
  assumes "shrunk s s'"
  shows "lm_temporary s' = lm_temporary s" "lm_locks s' = lm_locks s" "lm_fresh s' = lm_fresh s"
    "lm_unloading s' = lm_unloading s" "lm_ids s' = lm_ids s" "lm_heap s' = (\<lambda>a. if held a s then lm_heap s a else None)"
    "\<And>i a. map_of (lm_dataById s) i = Some a \<Longrightarrow> held a s \<Longrightarrow> map_of (lm_dataById s') i = Some a"
    "\<And>i a. map_of (lm_dataById s') i = Some a \<Longrightarrow> map_of (lm_dataById s) i = Some a"
    "lm_tables s' = lm_tables s \<or> (\<exists>j. lm_tables s' = exec_stmt (DelInstance j) (lm_tables s)
       \<and> (\<forall>b d. lm_heap s' b = Some d \<longrightarrow> sd_InstanceId d \<noteq> j))"
  using assms unfolding shrunk_def by blast+

lemma shrunk_lock_at: "shrunk s s' \<Longrightarrow> lock_at b s' k = lock_at b s k"
  by (simp add: shrunkD(1,2) lock_at_def)

lemma shrunk_held: "shrunk s s' \<Longrightarrow> held a s' = held a s"
  by (simp add: held_def shrunk_lock_at)

lemma linked_shrunk:
  assumes L: "linked es bnd rlm p s" and S: "shrunk s s'"
  shows "linked es bnd rlm None s'"
proof -
  have link: "lock_link (bnd (snd k)) (lm_heap s') (lm_dataById s') b l" if l: "lock_at b s k = Some l" for b k l
  proof (cases "bnd (snd k)")
    case True
    from L l have "lock_link (bnd (snd k)) (lm_heap s) (lm_dataById s) b l" unfolding linked_def by blast
    with True obtain a d where a: "il_shared l = Some a" "lm_heap s a = Some d"
        "map_of (lm_dataById s) (il_instanceId l) = Some a" "sd_InstanceId d = il_instanceId l \<or> b \<and> sd_InstanceId d = 0"
      by (auto simp: lock_link_def)
    from l a(1) have h: "held a s" unfolding held_def by blast
    with a(2,3) have "lm_heap s' a = Some d" "map_of (lm_dataById s') (il_instanceId l) = Some a"
      by (simp_all add: shrunkD(6,7) [OF S])
    with True a show ?thesis by (simp add: lock_link_def)
  next
    case False
    with L l have "il_shared l = None" unfolding linked_def lock_link_def by metis
    with False show ?thesis by (simp add: lock_link_def)
  qed
  have live: "a < lm_fresh s' \<and> held a s'" if "lm_heap s' a \<noteq> None" for a
  proof -
    from that have h: "held a s" "lm_heap s a \<noteq> None" by (auto simp: shrunkD(6) [OF S] split: if_splits)
    with L have "a < lm_fresh s" unfolding linked_def by blast
    with h show ?thesis by (simp add: shrunkD(3) [OF S] shrunk_held [OF S])
  qed
  have eqs: "lm_temporary s' = lm_temporary s" "lm_locks s' = lm_locks s" "lm_unloading s' = lm_unloading s"
    "lm_ids s' = lm_ids s"
    using shrunkD [OF S] by simp_all
  have fields: "lock_fields es rlm b k l \<and> id_taken (il_instanceId l) (lm_ids s)" if "lock_at b s k = Some l" for b k l
    using L that unfolding linked_def by blast
  have sub: "map_of (lm_dataById s) i = Some a" if "map_of (lm_dataById s') i = Some a" for i a
    using shrunkD(8) [OF S that] .
  have "by_id_ok (lm_fresh s) (lm_dataById s)" using L unfolding linked_def by blast
  moreover have "lm_fresh s' = lm_fresh s" by (rule shrunkD(3) [OF S])
  ultimately have by_id: "by_id_ok (lm_fresh s') (lm_dataById s')" using sub unfolding by_id_ok_def by metis
  show ?thesis
    unfolding linked_def eqs shrunk_lock_at [OF S]
  proof (intro conjI)
    show "distinct (map fst (lm_temporary s))" "distinct (map fst (lm_locks s))" "\<not> lm_unloading s" "ids_ok (lm_ids s)"
      using L unfolding linked_def by blast+
    show "by_id_ok (lm_fresh s') (lm_dataById s')" by (rule by_id)
  qed (use link fields live in blast)+
qed

lemma OnDelete_effect:
  "OnSharedInstanceLockDataDelete j s = s
   \<or> (\<exists>c. map_of (lm_dataById s) j = Some c \<and> lm_heap s c = None
        \<and> OnSharedInstanceLockDataDelete j s = lm_Execute (DelInstance j) (s\<lparr>lm_dataById := AList.delete j (lm_dataById s)\<rparr>))"
  by (auto simp: OnSharedInstanceLockDataDelete_def split: option.split)

lemma shrunk_release:
  assumes L: "linked es bnd rlm p s"
  shows "shrunk s (release_shared p s)"
proof -
  have same: "shrunk s s" if "\<And>a. lm_heap s a \<noteq> None \<Longrightarrow> held a s" 
    using that by (force simp: shrunk_def fun_eq_iff)
  show ?thesis
  proof (cases "\<exists>a. p = Some a \<and> \<not> held a s \<and> lm_heap s a \<noteq> None")
    case False
    with L have live: "\<And>a. lm_heap s a \<noteq> None \<Longrightarrow> held a s" unfolding linked_def by blast
    have "release_shared p s = s"
      using False by (auto simp: release_shared_def destroy_shared_def linked_owned [OF L] split: option.split)
    with same [OF live] show ?thesis by simp
  next
    case True
    then obtain a d where a: "p = Some a" "\<not> held a s" "lm_heap s a = Some d" by auto
    define s1 where "s1 = s\<lparr>lm_heap := (lm_heap s)(a := None)\<rparr>"
    have h1: "lm_heap s1 = (\<lambda>b. if held b s then lm_heap s b else None)"
    proof
      fix b
      show "lm_heap s1 b = (if held b s then lm_heap s b else None)"
        using L a unfolding s1_def linked_def by (cases "b = a"; cases "lm_heap s b"; fastforce)
    qed
    have S1: "shrunk s s1" using h1 by (simp add: shrunk_def) (simp add: s1_def)
    have rel: "release_shared p s = (if sd_InstanceId d \<noteq> 0 then OnSharedInstanceLockDataDelete (sd_InstanceId d) s1 else s1)"
      using a by (simp add: release_shared_def linked_owned [OF L] destroy_shared_def s1_def)
    show ?thesis
    proof (cases "release_shared p s = s1")
      case False
      define j where "j = sd_InstanceId d"
      from False rel have j: "j \<noteq> 0" by (auto simp: j_def split: if_splits)
      from False rel obtain c where c: "map_of (lm_dataById s1) j = Some c" "lm_heap s1 c = None"
        and r: "release_shared p s = lm_Execute (DelInstance j) (s1\<lparr>lm_dataById := AList.delete j (lm_dataById s1)\<rparr>)"
        using OnDelete_effect [of j s1] by (auto simp: j_def split: if_splits)
      have by_id: "lm_dataById s1 = lm_dataById s" by (simp add: s1_def)
      have dead: "\<not> held c s"
      proof
        assume c': "held c s"
        with held_link [OF L c'] h1 c(2) show False by auto
      qed
      have other: "sd_InstanceId d' \<noteq> j" if b: "lm_heap s1 b = Some d'" for b d'
      proof
        assume e: "sd_InstanceId d' = j"
        from b h1 have hb: "held b s" "lm_heap s b = Some d'" by (simp_all split: if_splits)
        from held_link [OF L hb(1)] hb(2) e j have "map_of (lm_dataById s) j = Some b" by auto
        with c(1) by_id hb(1) dead show False by simp
      qed
      have keep: "map_of (lm_dataById s) i = Some b \<and> held b s
          \<longrightarrow> map_of (lm_dataById (s1\<lparr>lm_dataById := AList.delete j (lm_dataById s1)\<rparr>)) i = Some b" for i b
        using c(1) dead by (auto simp: by_id delete_conv')
      have tab: "lm_tables (release_shared p s) = exec_stmt (DelInstance j) (lm_tables s)"
        by (simp add: r lm_Execute_def s1_def)
      have heap: "lm_heap (release_shared p s) = lm_heap s1" by (simp add: r lm_Execute_def)
      have "\<exists>j. lm_tables (release_shared p s) = exec_stmt (DelInstance j) (lm_tables s)
          \<and> (\<forall>b d. lm_heap (release_shared p s) b = Some d \<longrightarrow> sd_InstanceId d \<noteq> j)"
        using tab other unfolding heap by blast
      moreover have "map_of (lm_dataById s) i = Some b \<and> held b s
          \<longrightarrow> map_of (lm_dataById (release_shared p s)) i = Some b" for i b
        using keep by (simp add: r lm_Execute_def)
      moreover have "lm_temporary (release_shared p s) = lm_temporary s" "lm_locks (release_shared p s) = lm_locks s"
          "lm_fresh (release_shared p s) = lm_fresh s" "lm_unloading (release_shared p s) = lm_unloading s"
          "lm_ids (release_shared p s) = lm_ids s"
        by (simp_all add: r lm_Execute_def s1_def)
      moreover have "map_of (lm_dataById (release_shared p s)) i = Some b \<longrightarrow> map_of (lm_dataById s) i = Some b" for i b
        by (simp add: r lm_Execute_def by_id delete_conv')
      ultimately show ?thesis unfolding shrunk_def heap h1 by blast
    qed (use S1 in simp)
  qed
qed

lemmas linked_release = linked_shrunk [OF _ shrunk_release]

section \<open>Changing the stores\<close>

lemma linked_change:
  assumes L: "linked es bnd rlm p s"
    and same: "lm_heap s2 = lm_heap s" "lm_dataById s2 = lm_dataById s" "lm_fresh s2 = lm_fresh s"
      "lm_unloading s2 = lm_unloading s" "lm_ids s2 = lm_ids s"
    and D: "distinct (map fst (lm_temporary s2))" "distinct (map fst (lm_locks s2))"
    and ok: "\<And>b k l. lock_at b s2 k = Some l \<Longrightarrow> lock_at b s k = Some l
      \<or> (lock_fields es rlm b k l \<and> lock_link (bnd (snd k)) (lm_heap s) (lm_dataById s) b l \<and> id_taken (il_instanceId l) (lm_ids s))"
    and H: "\<And>a. held a s \<or> p = Some a \<Longrightarrow> held a s2 \<or> q = Some a"
  shows "linked es bnd rlm q s2"
  unfolding linked_def same
proof (intro conjI D allI impI)
  show "\<not> lm_unloading s" "ids_ok (lm_ids s)" "by_id_ok (lm_fresh s) (lm_dataById s)" using L unfolding linked_def by blast+
next
  fix b k l assume "lock_at b s2 k = Some l"
  from ok [OF this] L
  show "lock_fields es rlm b k l" "lock_link (bnd (snd k)) (lm_heap s) (lm_dataById s) b l" "id_taken (il_instanceId l) (lm_ids s)"
    unfolding linked_def by blast+
next
  fix a assume "lm_heap s a \<noteq> None"
  with L have "a < lm_fresh s" "held a s \<or> p = Some a" unfolding linked_def by blast+
  then show "a < lm_fresh s" "held a s2 \<or> q = Some a" using H by blast+
qed

lemma linked_held: "linked es bnd rlm p s \<Longrightarrow> (\<And>a. p = Some a \<Longrightarrow> held a s) \<Longrightarrow> linked es bnd rlm None s"
  unfolding linked_def by blast

definition put_lock :: "bool \<Rightarrow> ObjectGuid \<times> lock_key \<Rightarrow> instance_lock \<Rightarrow> lock_mgr \<Rightarrow> lock_mgr" where
  "put_lock b k l s =
     (if b then s\<lparr>lm_temporary := AList.update k l (lm_temporary s)\<rparr> else s\<lparr>lm_locks := AList.update k l (lm_locks s)\<rparr>)"

lemma reset_lock_put: "reset_lock b k l s = release_shared (Option.bind (lock_at b s k) il_shared) (put_lock b k l s)"
  by (simp add: reset_lock_def put_lock_def lock_at_def)

lemma lock_at_put: "lock_at b' (put_lock b k l s) k' = (if b' = b \<and> k' = k then Some l else lock_at b' s k')"
  by (simp add: lock_at_def put_lock_def update_conv')

lemma put_lock_same [simp]:
  "lm_heap (put_lock b k l s) = lm_heap s" "lm_dataById (put_lock b k l s) = lm_dataById s"
  "lm_fresh (put_lock b k l s) = lm_fresh s" "lm_unloading (put_lock b k l s) = lm_unloading s"
  "lm_ids (put_lock b k l s) = lm_ids s" "lm_tables (put_lock b k l s) = lm_tables s"
  by (simp_all add: put_lock_def)

lemma held_put:
  assumes "held a s"
  shows "held a (put_lock b k l s) \<or> Option.bind (lock_at b s k) il_shared = Some a"
proof -
  from assms obtain b' k' l' where l': "lock_at b' s k' = Some l'" "il_shared l' = Some a" by (auto simp: held_def)
  show ?thesis
  proof (cases "b' = b \<and> k' = k")
    case False
    then have "lock_at b' (put_lock b k l s) k' = Some l'"
      unfolding lock_at_put l'(1) [symmetric] by (rule if_not_P)
    with l'(2) show ?thesis unfolding held_def by blast
  qed (use l' in auto)
qed

lemma linked_put:
  assumes L: "linked es bnd rlm p s" and p: "\<And>a. p = Some a \<Longrightarrow> il_shared l = Some a"
    and l: "lock_fields es rlm b k l" "lock_link (bnd (snd k)) (lm_heap s) (lm_dataById s) b l"
      "id_taken (il_instanceId l) (lm_ids s)"
  shows "linked es bnd rlm (Option.bind (lock_at b s k) il_shared) (put_lock b k l s)"
proof (rule linked_change [OF L])
  have "distinct (map fst (lm_temporary s))" "distinct (map fst (lm_locks s))" using L unfolding linked_def by blast+
  then show "distinct (map fst (lm_temporary (put_lock b k l s)))" "distinct (map fst (lm_locks (put_lock b k l s)))"
    by (simp_all add: put_lock_def distinct_update)
next
  fix a assume a: "held a s \<or> p = Some a"
  have "held a (put_lock b k l s)" if "p = Some a"
    using p [OF that] unfolding held_def by (intro exI [of _ b] exI [of _ k] exI [of _ l]) (simp add: lock_at_put)
  with a held_put [of a s b k l] show "held a (put_lock b k l s) \<or> Option.bind (lock_at b s k) il_shared = Some a"
    by blast
qed (use l in \<open>auto simp: lock_at_put split: if_splits\<close>)

lemma held_put_new: "il_shared l = Some a \<Longrightarrow> held a (put_lock b k l s)"
  unfolding held_def by (intro exI [of _ b] exI [of _ k] exI [of _ l]) (simp add: lock_at_put)

text \<open>A change of a lock that keeps its pointer has nothing to release.\<close>

lemma linked_put_same:
  assumes L: "linked es bnd rlm None s" and old: "lock_at b s k = Some l0" "il_shared l0 = il_shared l"
    and l: "lock_fields es rlm b k l" "lock_link (bnd (snd k)) (lm_heap s) (lm_dataById s) b l"
      "id_taken (il_instanceId l) (lm_ids s)"
  shows "linked es bnd rlm None (put_lock b k l s)"
proof (rule linked_held [OF linked_put [OF L _ l]])
  fix a assume "Option.bind (lock_at b s k) il_shared = Some a"
  with old show "held a (put_lock b k l s)" by (simp add: held_put_new)
qed simp

lemma linked_reset:
  assumes "linked es bnd rlm p s" and "\<And>a. p = Some a \<Longrightarrow> il_shared l = Some a"
    and "lock_fields es rlm b k l" "lock_link (bnd (snd k)) (lm_heap s) (lm_dataById s) b l"
      "id_taken (il_instanceId l) (lm_ids s)"
  shows "linked es bnd rlm None (reset_lock b k l s)" and "shrunk (put_lock b k l s) (reset_lock b k l s)"
  unfolding reset_lock_put using linked_release shrunk_release linked_put [OF assms] by blast+

definition drop_temporary :: "ObjectGuid \<times> lock_key \<Rightarrow> lock_mgr \<Rightarrow> lock_mgr" where
  "drop_temporary k s = s\<lparr>lm_temporary := AList.delete k (lm_temporary s)\<rparr>"

lemma lock_at_drop: "lock_at b (drop_temporary k s) k' = (if b \<and> k' = k then None else lock_at b s k')"
  by (simp add: lock_at_def drop_temporary_def delete_conv')

text \<open>Dropping a temporary lock whose pointer the permanent lock under the same key has.\<close>

lemma linked_drop:
  assumes L: "linked es bnd rlm None s" and t: "lock_at True s k = Some l" and p: "lock_at False s k = Some l'"
    and e: "il_shared l' = il_shared l"
  shows "linked es bnd rlm None (drop_temporary k s)"
proof (rule linked_change [OF L])
  have "distinct (map fst (lm_temporary s))" "distinct (map fst (lm_locks s))" using L unfolding linked_def by blast+
  then show "distinct (map fst (lm_temporary (drop_temporary k s)))" "distinct (map fst (lm_locks (drop_temporary k s)))"
    by (simp_all add: drop_temporary_def distinct_delete)
next
  fix a assume "held a s \<or> None = Some a"
  then obtain b k' l0 where l0: "lock_at b s k' = Some l0" "il_shared l0 = Some a" by (auto simp: held_def)
  have "\<exists>b k'' l1. lock_at b (drop_temporary k s) k'' = Some l1 \<and> il_shared l1 = Some a"
  proof (cases "b \<and> k' = k")
    case True
    with l0 t e have "il_shared l' = Some a" by simp
    moreover have "lock_at False (drop_temporary k s) k = Some l'" using p unfolding lock_at_drop by simp
    ultimately show ?thesis by blast
  next
    case False
    then have "lock_at b (drop_temporary k s) k' = Some l0"
      unfolding lock_at_drop l0(1) [symmetric] by (rule if_not_P)
    with l0(2) show ?thesis by blast
  qed
  then show "held a (drop_temporary k s) \<or> None = Some a" unfolding held_def by blast
next
  fix b k' l assume "lock_at b (drop_temporary k s) k' = Some l"
  then have "lock_at b s k' = Some l" unfolding lock_at_drop by (simp split: if_splits)
  then show "lock_at b s k' = Some l \<or> lock_fields es rlm b k' l
      \<and> lock_link (bnd (snd k')) (lm_heap s) (lm_dataById s) b l \<and> id_taken (il_instanceId l) (lm_ids s)" ..
qed (simp_all add: drop_temporary_def)

section \<open>Updating a player's lock\<close>

text \<open>The state of a running instance that is bound to its id.\<close>

definition live_id :: "lock_mgr \<Rightarrow> u32 \<Rightarrow> bool" where
  "live_id s i = (\<exists>a d. map_of (lm_dataById s) i = Some a \<and> lm_heap s a = Some d \<and> sd_InstanceId d = i)"

text \<open>What finding or making the lock of one player may change.\<close>

definition evolves :: "ObjectGuid \<times> lock_key \<Rightarrow> lock_mgr \<Rightarrow> lock_mgr \<Rightarrow> bool" where
  "evolves k s s' =
     ((\<forall>b q. q \<noteq> k \<longrightarrow> lock_at b s' q = lock_at b s q) \<and> lm_ids s' = lm_ids s
      \<and> (\<forall>a d. lm_heap s' a = Some d \<longrightarrow> lm_heap s a = Some d)
      \<and> (lm_tables s' = lm_tables s
         \<or> (\<exists>j. lm_tables s' = exec_stmt (DelInstance j) (lm_tables s)
              \<and> (\<forall>a d. lm_heap s' a = Some d \<longrightarrow> sd_InstanceId d \<noteq> j))))"

lemma evolves_refl: "evolves k s s"
  by (simp add: evolves_def)

lemma evolves_reset:
  assumes "shrunk (put_lock b k l s) s'"
  shows "evolves k s s'"
proof -
  note S = shrunkD [OF assms, unfolded put_lock_same]
  have "lock_at b' s' q = lock_at b' s q" if "q \<noteq> k" for b' q
    using shrunk_lock_at [OF assms] that by (simp add: lock_at_put)
  moreover have "lm_heap s a = Some d" if "lm_heap s' a = Some d" for a d
    using that by (auto simp: S(6) split: if_splits)
  ultimately show ?thesis using S(5,9) unfolding evolves_def by blast
qed

lemma evolves_drop: "evolves k s s' \<Longrightarrow> evolves k s (drop_temporary k s')"
  unfolding evolves_def by (simp add: lock_at_drop) (simp add: drop_temporary_def)

definition may_lock :: "lock_env \<Rightarrow> ObjectGuid \<Rightarrow> map_entries \<Rightarrow> u32 \<Rightarrow> lock_mgr \<Rightarrow> bool" where
  "may_lock e p m i s =
     (IsInstanceIdBound m \<longrightarrow>
        (case FindActiveInstanceLock e p m s of None \<Rightarrow> True | Some (_, l) \<Rightarrow> il_instanceId l = i))"

lemma FindActive_permanent:
  "FindActiveInstanceLock_with e p m True x s = Some (b, l) \<Longrightarrow> \<not> b \<and> lock_at False s (p, GetKey m) = Some l"
  by (auto simp: FindActiveInstanceLock_with_def FindInstanceLock_def Let_def split: if_splits option.splits)

lemma FindActive_cases:
  "HasResetSchedule m \<Longrightarrow> FindActiveInstanceLock e p m s =
     (case FindActiveInstanceLock_with e p m True True s of
        Some x \<Rightarrow> Some x | None \<Rightarrow> map_option (Pair True) (lock_at True s (p, GetKey m)))"
  by (auto simp: FindActiveInstanceLock_def FindActiveInstanceLock_with_def FindInstanceLock_def Let_def split: option.split)

lemma GetNextResetTime_whole: "\<exists>x. GetNextResetTime e m = from_time_t x"
  by (auto simp: GetNextResetTime_def Let_def)

lemma linked_lock:
  "linked es bnd rlm p s \<Longrightarrow> lock_at b s k = Some l \<Longrightarrow>
   lock_fields es rlm b k l \<and> lock_link (bnd (snd k)) (lm_heap s) (lm_dataById s) b l \<and> id_taken (il_instanceId l) (lm_ids s)"
  unfolding linked_def by blast

lemma GetKey_map: "fst (GetKey m) = me_map_id m"
  by (simp add: GetKey_def)

text \<open>A permanent lock of the instance that is saved, as it is when it is about to be changed.\<close>

lemma saved_lock:
  assumes L: "linked es bnd rlm None s1" and at: "lock_at False s1 k = Some l0" and i: "i \<noteq> 0"
    and same: "bnd (snd k) \<Longrightarrow> il_instanceId l0 = i" and l: "l = l0\<lparr>il_instanceId := i\<rparr>"
  shows "lock_fields es rlm False k l" and "il_shared l0 = il_shared l"
    and "lock_link (bnd (snd k)) (lm_heap s1) (lm_dataById s1) False l" and "bnd (snd k) \<Longrightarrow> live_id s1 i"
proof -
  note F = linked_lock [OF L at]
  from F i show "lock_fields es rlm False k l" by (auto simp: lock_fields_def l)
  show "il_shared l0 = il_shared l" by (simp add: l)
  show "lock_link (bnd (snd k)) (lm_heap s1) (lm_dataById s1) False l"
    using F same by (cases "bnd (snd k)") (simp_all add: lock_link_def l)
  show "live_id s1 i" if "bnd (snd k)"
    using F same that by (auto simp: lock_link_def live_id_def)
qed

lemma same_instance_saved:
  assumes "bnd (GetKey m) = IsInstanceIdBound m" and "lu_InstanceId u = i"
    and "lock_link (bnd (GetKey m)) (lm_heap s1) (lm_dataById s1) False l"
    and "IsInstanceIdBound m \<Longrightarrow> il_instanceId l = i"
  shows "same_instance m u l s1"
  using assms by (auto simp: same_instance_def lock_link_def)

lemma locate_ok:
  assumes L: "linked es bnd rlm None s" and E: "entries_ok es bnd" and m: "es mp d = Some m"
    and p: "p = CreatePlayer rlm 0 (GetCounter p)" and sched: "HasResetSchedule m" and may: "may_lock e p m i s"
    and live: "IsInstanceIdBound m \<Longrightarrow> live_id s i" and i: "i \<noteq> 0" and taken: "id_taken i (lm_ids s)"
    and u: "lu_InstanceId u = i" and k: "k = (p, GetKey m)"
  shows "\<exists>l s1 l0. locate_lock e p m u s = Some (l, s1) \<and> linked es bnd rlm None s1 \<and> evolves k s s1
    \<and> lock_at False s1 k = Some l0 \<and> (bnd (snd k) \<longrightarrow> il_instanceId l0 = i) \<and> l = l0\<lparr>il_instanceId := i\<rparr>"
proof -
  from E m have mp: "me_map_id m = mp" "me_difficulty m = d" and B: "bnd (GetKey m) = IsInstanceIdBound m"
    unfolding entries_ok_def by blast+
  have Bk: "bnd (snd k) = IsInstanceIdBound m" by (simp add: k B)
  show ?thesis
  proof (cases "FindActiveInstanceLock_with e p m True True s")
    case (Some x)
    then obtain b l0 where x: "FindActiveInstanceLock_with e p m True True s = Some (b, l0)" by (cases x) auto
    from FindActive_permanent [OF x] k have at: "lock_at False s k = Some l0" by blast
    have same: "il_instanceId l0 = i" if "IsInstanceIdBound m"
      using may that x by (simp add: may_lock_def FindActive_cases [OF sched])
    have "same_instance m u l0 s"
      using linked_lock [OF L at] same by (intro same_instance_saved [where bnd = bnd, OF B u]) (auto simp: k)
    then have "locate_lock e p m u s = Some (l0\<lparr>il_instanceId := i\<rparr>, s)" by (simp add: locate_lock_def x u)
    with L at same Bk evolves_refl show ?thesis by blast
  next
    case None
    show ?thesis
    proof (cases "lock_at True s k")
      case (Some l0)
      have same: "il_instanceId l0 = i" if "IsInstanceIdBound m"
        using may that None Some by (simp add: may_lock_def FindActive_cases [OF sched] k)
      note F = linked_lock [OF L Some]
      have fields: "lock_fields es rlm False k l0" using F by (auto simp: lock_fields_def)
      have link: "lock_link (bnd (snd k)) (lm_heap s) (lm_dataById s) False l0"
        using F same live Bk by (auto simp: lock_link_def live_id_def)
      have t0: "id_taken (il_instanceId l0) (lm_ids s)" using F by blast
      define sa where "sa = reset_lock False k l0 s"
      note R = linked_reset [OF L _ fields link t0, folded sa_def, simplified]
      have at: "lock_at False sa k = Some l0" "lock_at True sa k = Some l0"
        unfolding shrunk_lock_at [OF R(2)] using Some by (simp_all only: lock_at_put) simp_all
      have L1: "linked es bnd rlm None (drop_temporary k sa)" by (rule linked_drop [OF R(1) at(2,1) refl])
      have at1: "lock_at False (drop_temporary k sa) k = Some l0" using at by (simp only: lock_at_drop) simp
      have prom: "promote_temporary (p, GetKey m) s = (Some l0, drop_temporary k sa)"
        using Some by (simp add: promote_temporary_def k sa_def Let_def drop_temporary_def)
      have "same_instance m u l0 (drop_temporary k sa)"
        using linked_lock [OF L1 at1] same by (intro same_instance_saved [where bnd = bnd, OF B u]) (auto simp: k)
      then have "locate_lock e p m u s = Some (l0\<lparr>il_instanceId := i\<rparr>, drop_temporary k sa)"
        by (simp add: locate_lock_def None prom u)
      moreover have "evolves k s (drop_temporary k sa)" by (rule evolves_drop [OF evolves_reset [OF R(2)]])
      ultimately show ?thesis using L1 at1 same Bk by blast
    next
      case no: None
      define l where "l = (if IsInstanceIdBound m
        then SharedInstanceLock_new (me_map_id m) (me_difficulty m) (GetNextResetTime e m) i (the (map_of (lm_dataById s) i))
        else InstanceLock_new (me_map_id m) (me_difficulty m) (GetNextResetTime e m) i)"
      have li: "il_instanceId l = i" by (simp add: l_def SharedInstanceLock_new_def InstanceLock_new_def)
      have fields: "lock_fields es rlm False k l"
        using p m mp i GetNextResetTime_whole [of e m]
        by (simp add: lock_fields_def l_def SharedInstanceLock_new_def InstanceLock_new_def k GetKey_map)
      have link: "lock_link (bnd (snd k)) (lm_heap s) (lm_dataById s) False l"
        using live by (auto simp: Bk lock_link_def live_id_def l_def SharedInstanceLock_new_def InstanceLock_new_def)
      have t0: "id_taken (il_instanceId l) (lm_ids s)" using taken by (simp add: li)
      define sa where "sa = reset_lock False k l s"
      note R = linked_reset [OF L _ fields link t0, folded sa_def, simplified]
      have at: "lock_at False sa k = Some l"
        unfolding shrunk_lock_at [OF R(2)] by (simp only: lock_at_put) simp
      have prom: "promote_temporary (p, GetKey m) s = (None, s)"
        using no by (simp add: promote_temporary_def k)
      have "new_permanent_lock e p m u s = Some (l, sa)"
        using live by (auto simp: new_permanent_lock_def live_id_def u l_def sa_def k Let_def)
      then have "locate_lock e p m u s = Some (l, sa)" by (simp add: locate_lock_def None prom)
      moreover have "l = l\<lparr>il_instanceId := i\<rparr>" using li by (cases l) simp
      ultimately show ?thesis using R(1) at li evolves_reset [OF R(2)] by blast
    qed
  qed
qed

lemma updated_lock_simps [simp]:
  "il_mapId (updated_lock e m u l) = il_mapId l" "il_difficultyId (updated_lock e m u l) = il_difficultyId l"
  "il_instanceId (updated_lock e m u l) = il_instanceId l" "il_shared (updated_lock e m u l) = il_shared l"
  "il_isNew (updated_lock e m u l) = False" "ld_Data (il_data (updated_lock e m u l)) = lu_NewData u"
  by (simp_all add: updated_lock_def Let_def split: option.split)

lemma updated_lock_expiry:
  "\<exists>x. il_expiryTime l = from_time_t x \<Longrightarrow> \<exists>x. il_expiryTime (updated_lock e m u l) = from_time_t x"
  using GetNextResetTime_whole [of e m] by (auto simp: updated_lock_def Let_def split: option.split)

lemma updated_lock_mask:
  assumes "lu_CompletedEncounter u = Some b" and "b < 32"
  shows "bit (ld_CompletedEncountersMask (il_data (updated_lock e m u l))) b"
  using assms
  by (auto simp: updated_lock_def Let_def complete_encounter_def bit_simps split: option.split)

lemma updated_lock_active:
  "il_IsExpired e (updated_lock e m u l) \<Longrightarrow> il_expiryTime (updated_lock e m u l) = GetNextResetTime e m"
  by (auto simp: updated_lock_def Let_def il_IsExpired_def split: option.splits)

lemma CreatePlayer_inj: "CreatePlayer rlm 0 c = CreatePlayer rlm 0 c' \<longleftrightarrow> c = c'"
  by (simp add: CreatePlayer_def)

text \<open>The tables after a change that touches one player's lock and forgets dead states.\<close>

lemma mirrored_evolves:
  assumes M: "mirrored es bnd rlm (fold exec_stmt tr (lm_tables s)) s" and V: "evolves k s s1"
    and tr: "\<forall>r. InsInstance r \<in> set tr \<longrightarrow> (\<exists>a d. lm_heap s1 a = Some d \<and> sd_InstanceId d = in_instanceId r)"
    and t: "t = fold exec_stmt tr (lm_tables s1)"
  shows "distinct (map cl_key (lt_locks t))" and "distinct (map in_instanceId (lt_instances t))"
    and "(CreatePlayer rlm 0 c, q) \<noteq> k \<Longrightarrow>
      rel_option (row_ok es bnd) (row_at t (c, q)) (lock_at False s1 (CreatePlayer rlm 0 c, q))"
    and "lm_heap s1 a = Some d \<Longrightarrow> sd_InstanceId d \<noteq> 0 \<Longrightarrow> \<exists>r. inst_at t (sd_InstanceId d) = Some r \<and> inst_ok d r"
    and "row_at t = row_at (fold exec_stmt tr (lm_tables s))"
proof -
  define t0 where "t0 = fold exec_stmt tr (lm_tables s)"
  note M0 = M [folded t0_def, unfolded mirrored_def]
  have t_cases: "t = t0 \<or> (\<exists>j. t = exec_stmt (DelInstance j) t0 \<and> (\<forall>a d. lm_heap s1 a = Some d \<longrightarrow> sd_InstanceId d \<noteq> j))"
  proof -
    have "t = exec_stmt (DelInstance j) t0"
      if "lm_tables s1 = exec_stmt (DelInstance j) (lm_tables s)" "\<forall>a d. lm_heap s1 a = Some d \<longrightarrow> sd_InstanceId d \<noteq> j" for j
      unfolding t that(1) t0_def using tr that(2) by (intro fold_DelInstance_commute) metis
    with V show ?thesis unfolding evolves_def t t0_def by metis
  qed
  have rows: "row_at t = row_at t0" using t_cases by (auto simp: row_at_exec simp del: exec_stmt.simps)
  then show "row_at t = row_at (fold exec_stmt tr (lm_tables s))" by (simp add: t0_def)
  from t_cases M0 show "distinct (map cl_key (lt_locks t))" "distinct (map in_instanceId (lt_instances t))"
    using distinct_exec by metis+
  show "rel_option (row_ok es bnd) (row_at t (c, q)) (lock_at False s1 (CreatePlayer rlm 0 c, q))"
    if "(CreatePlayer rlm 0 c, q) \<noteq> k"
    using M0 V that unfolding rows evolves_def by metis
  show "\<exists>r. inst_at t (sd_InstanceId d) = Some r \<and> inst_ok d r" if h: "lm_heap s1 a = Some d" and n: "sd_InstanceId d \<noteq> 0"
  proof -
    have "lm_heap s a = Some d" using V h unfolding evolves_def by blast
    with M0 n have r: "\<exists>r. inst_at t0 (sd_InstanceId d) = Some r \<and> inst_ok d r" by blast
    from t_cases show ?thesis
    proof (elim disjE exE conjE)
      fix j assume j: "t = exec_stmt (DelInstance j) t0" "\<forall>a d. lm_heap s1 a = Some d \<longrightarrow> sd_InstanceId d \<noteq> j"
      then have "inst_at t (sd_InstanceId d) = inst_at t0 (sd_InstanceId d)" using h by (auto simp: inst_at_exec simp del: exec_stmt.simps)
      with r show ?thesis by simp
    qed (use r in simp)
  qed
qed

lemma evolves_put:
  assumes "evolves k s s1"
  shows "evolves k s (put_lock b k l s1)"
proof -
  have "lock_at b' (put_lock b k l s1) q = lock_at b' s1 q" if "q \<noteq> k" for b' q
    using that by (simp add: lock_at_put)
  with assms show ?thesis unfolding evolves_def by simp
qed

lemma update_ok:
  assumes L: "linked es bnd rlm None s" and E: "entries_ok es bnd" and m: "es mp d = Some m"
    and p: "p = CreatePlayer rlm 0 (GetCounter p)" and sched: "HasResetSchedule m" and may: "may_lock e p m i s"
    and live: "IsInstanceIdBound m \<Longrightarrow> live_id s i" and i: "i \<noteq> 0" and taken: "id_taken i (lm_ids s)"
    and u: "lu_InstanceId u = i" and k: "k = (p, GetKey m)" and shift: "shift_ok u"
    and M: "mirrored es bnd rlm (fold exec_stmt tr (lm_tables s)) s"
    and tr: "\<And>r. InsInstance r \<in> set tr \<Longrightarrow> IsInstanceIdBound m \<and> in_instanceId r = i"
  shows "\<exists>l l1 s2. UpdateInstanceLockForPlayer e tr p m u s = Some (l1,
      tr @ [DelCharacterInstanceLock (GetCounter p) (me_map_id m) (ucast (me_lock_id m)), InsCharacterInstanceLock (lock_row p m l1)], s2)
    \<and> l1 = updated_lock e m u l \<and> il_instanceId l1 = i \<and> linked es bnd rlm None s2 \<and> evolves k s s2
    \<and> lock_at False s2 k = Some l1 \<and> (IsInstanceIdBound m \<longrightarrow> live_id s2 i)
    \<and> mirrored es bnd rlm (fold exec_stmt (tr @ [DelCharacterInstanceLock (GetCounter p) (me_map_id m) (ucast (me_lock_id m)),
        InsCharacterInstanceLock (lock_row p m l1)]) (lm_tables s2)) s2"
proof -
  from locate_ok [OF L E m p sched may live i taken u k]
  obtain l s1 l0 where loc: "locate_lock e p m u s = Some (l, s1)" and L1: "linked es bnd rlm None s1"
    and V: "evolves k s s1" and at: "lock_at False s1 k = Some l0" and same: "bnd (snd k) \<longrightarrow> il_instanceId l0 = i"
    and l: "l = l0\<lparr>il_instanceId := i\<rparr>"
    by blast
  from E m have B: "bnd (snd k) = IsInstanceIdBound m" and mp: "me_map_id m = mp" "me_difficulty m = d"
    unfolding entries_ok_def k by auto
  note S = saved_lock [OF L1 at i _ l]
  have S1: "lock_fields es rlm False k l" "il_shared l0 = il_shared l"
    "lock_link (bnd (snd k)) (lm_heap s1) (lm_dataById s1) False l" "bnd (snd k) \<Longrightarrow> live_id s1 i"
    using S same by blast+
  define l1 where "l1 = updated_lock e m u l"
  define s2 where "s2 = put_lock False k l1 s1"
  define tr' where "tr' = tr @ [DelCharacterInstanceLock (GetCounter p) (me_map_id m) (ucast (me_lock_id m)),
    InsCharacterInstanceLock (lock_row p m l1)]"
  have l1: "il_shared l1 = il_shared l" "il_instanceId l1 = i" by (simp_all add: l1_def l)
  have fields: "lock_fields es rlm False k l1"
    using S1(1) updated_lock_expiry [of l e m u] by (auto simp: lock_fields_def l1_def)
  have link: "lock_link (bnd (snd k)) (lm_heap s1) (lm_dataById s1) False l1"
    using S1(3) by (simp only: lock_link_def l1_def updated_lock_simps)
  have ids: "lm_ids s1 = lm_ids s" using V by (simp add: evolves_def)
  have L2: "linked es bnd rlm None s2"
    unfolding s2_def using S1(2) l1 taken ids by (intro linked_put_same [OF L1 at _ fields link]) simp_all
  have at2: "lock_at False s2 k = Some l1" unfolding s2_def lock_at_put by simp
  have V2: "evolves k s s2" unfolding s2_def by (rule evolves_put [OF V])
  have live2: "live_id s2 i" if "IsInstanceIdBound m" using S1(4) that B by (simp add: live_id_def s2_def)
  have Upd: "UpdateInstanceLockForPlayer e tr p m u s = Some (l1, tr', s2)"
    by (simp add: UpdateInstanceLockForPlayer_def shift loc l1_def Let_def tr'_def s2_def put_lock_def k)
  have M2: "mirrored es bnd rlm (fold exec_stmt tr' (lm_tables s2)) s2"
  proof -
    have hold: "\<forall>r. InsInstance r \<in> set tr \<longrightarrow> (\<exists>a d. lm_heap s2 a = Some d \<and> sd_InstanceId d = in_instanceId r)"
      using tr live2 by (fastforce simp: live_id_def)
    define t where "t = fold exec_stmt tr (lm_tables s2)"
    note MV = mirrored_evolves [OF M V2 hold t_def]
    define q where "q = (GetCounter p, GetKey m)"
    define r where "r = lock_row p m l1"
    have rk: "cl_key r = q" by (simp add: r_def lock_row_def cl_key_def q_def GetKey_def)
    define t1 where "t1 = exec_stmt (DelCharacterInstanceLock (GetCounter p) (me_map_id m) (ucast (me_lock_id m))) t"
    define t2 where "t2 = exec_stmt (InsCharacterInstanceLock r) t1"
    have fold: "fold exec_stmt tr' (lm_tables s2) = t2" by (simp add: tr'_def t2_def t1_def t_def r_def)
    have r1: "row_at t1 = (row_at t)(q := None)" by (simp only: t1_def row_at_exec q_def GetKey_def)
    then have r2: "row_at t2 = (row_at t)(q \<mapsto> r)" unfolding t2_def by (subst row_at_insert) (simp_all add: rk)
    have rows: "rel_option (row_ok es bnd) (row_at t2 (c, q')) (lock_at False s2 (CreatePlayer rlm 0 c, q'))" for c q'
    proof (cases "(c, q') = q")
      case True
      have "row_ok es bnd r l1"
        using m mp i l1 by (auto simp: row_ok_def r_def lock_row_def GetKey_def)
      with True show ?thesis using p at2 by (simp add: r2 q_def k)
    next
      case False
      then have "(CreatePlayer rlm 0 c, q') \<noteq> k" using p CreatePlayer_inj by (auto simp: k q_def)
      from MV(3) [OF this] False show ?thesis by (simp add: r2)
    qed
    have inst: "inst_at t2 = inst_at t" by (simp add: inst_at_def t2_def t1_def)
    have dist: "distinct (map cl_key (lt_locks t2))" "distinct (map in_instanceId (lt_instances t2))"
      unfolding t2_def t1_def using MV(1,2) distinct_exec by metis+
    show ?thesis unfolding fold mirrored_def inst using dist rows MV(4) by blast
  qed
  show ?thesis
    using Upd l1 L2 V2 at2 live2 M2 unfolding tr'_def l1_def by blast
qed

section \<open>Saving a map\<close>

lemma by_id_unique:
  assumes "linked es bnd rlm p s" and "map_of (lm_dataById s) i = Some a" and "map_of (lm_dataById s) j = Some a"
  shows "j = i"
  using assms unfolding linked_def by_id_ok_def by metis

lemma linked_shared:
  assumes L: "linked es bnd rlm None s" and a: "map_of (lm_dataById s) i = Some a" "lm_heap s a = Some d0"
    and d: "sd_InstanceId d = i" and s1: "s1 = s\<lparr>lm_heap := (lm_heap s)(a \<mapsto> d)\<rparr>"
  shows "linked es bnd rlm None s1"
proof -
  have at: "lock_at b s1 k = lock_at b s k" for b k by (simp add: lock_at_def s1)
  have link: "lock_link (bnd (snd k)) (lm_heap s1) (lm_dataById s1) b l"
    if l: "lock_link (bnd (snd k)) (lm_heap s) (lm_dataById s) b l" for b k l
  proof (cases "bnd (snd k)")
    case True
    with l obtain a' d' where l': "il_shared l = Some a'" "lm_heap s a' = Some d'"
        "map_of (lm_dataById s) (il_instanceId l) = Some a'" "sd_InstanceId d' = il_instanceId l \<or> b \<and> sd_InstanceId d' = 0"
      by (auto simp: lock_link_def)
    have "il_instanceId l = i" if "a' = a" using by_id_unique [OF L a(1)] l'(3) that by blast
    with True l' d show ?thesis by (cases "a' = a") (simp_all add: lock_link_def s1)
  qed (use l in \<open>simp add: lock_link_def\<close>)
  have held: "held b s1 = held b s" for b by (simp add: held_def at)
  have live: "b < lm_fresh s1 \<and> held b s1" if "lm_heap s1 b \<noteq> None" for b
  proof -
    from that a(2) have "lm_heap s b \<noteq> None" by (auto simp: s1 split: if_splits)
    with L show ?thesis unfolding held linked_def by (simp add: s1)
  qed
  have eqs: "lm_temporary s1 = lm_temporary s" "lm_locks s1 = lm_locks s" "lm_unloading s1 = lm_unloading s"
    "lm_ids s1 = lm_ids s"
    by (simp_all add: s1)
  show ?thesis
    unfolding linked_def eqs at
  proof (intro conjI)
    show "distinct (map fst (lm_temporary s))" "distinct (map fst (lm_locks s))" "\<not> lm_unloading s" "ids_ok (lm_ids s)"
      using L unfolding linked_def by blast+
    show "by_id_ok (lm_fresh s1) (lm_dataById s1)" using L unfolding linked_def by (simp add: s1)
  qed (use linked_lock [OF L] link live in blast)+
qed

lemma update_shared_ok:
  assumes L: "linked es bnd rlm None s" and M: "mirrored es bnd rlm (lm_tables s) s"
    and run: "lock_at b s k = Some l" "bnd (snd k)" and u: "lu_InstanceId u = il_instanceId l" and shift: "shift_ok u"
    and i: "i = il_instanceId l"
  shows "\<exists>r s1. UpdateSharedInstanceLock [] u s = Some ([DelInstance i, InsInstance r], s1) \<and> in_instanceId r = i
    \<and> linked es bnd rlm None s1 \<and> live_id s1 i \<and> (\<forall>b k. lock_at b s1 k = lock_at b s k) \<and> lm_ids s1 = lm_ids s
    \<and> mirrored es bnd rlm (fold exec_stmt [DelInstance i, InsInstance r] (lm_tables s1)) s1"
proof -
  note F = linked_lock [OF L run(1)]
  then obtain a d where a: "lm_heap s a = Some d" "map_of (lm_dataById s) i = Some a"
      "sd_InstanceId d = i \<or> b \<and> sd_InstanceId d = 0"
    using run(2) by (auto simp: lock_link_def i)
  from F have i0: "i \<noteq> 0" by (simp add: lock_fields_def i)
  define d1 where "d1 = d\<lparr>ld_Data := lu_NewData u, sd_InstanceId := i,
    ld_CompletedEncountersMask := complete_encounter u (ld_CompletedEncountersMask d)\<rparr>"
  define d2 where "d2 = (case lu_EntranceWorldSafeLocId u of None \<Rightarrow> d1 | Some x \<Rightarrow> d1\<lparr>ld_EntranceWorldSafeLocId := x\<rparr>)"
  define r where "r = \<lparr>in_instanceId = sd_InstanceId d2, in_data = ld_Data d2, in_mask = ld_CompletedEncountersMask d2,
    in_entrance = ld_EntranceWorldSafeLocId d2\<rparr>"
  define s1 where "s1 = s\<lparr>lm_heap := (lm_heap s)(a \<mapsto> d2)\<rparr>"
  have d2: "sd_InstanceId d2 = i" by (simp add: d2_def d1_def split: option.split)
  have ri: "in_instanceId r = i" by (simp add: r_def d2)
  have upd: "UpdateSharedInstanceLock [] u s = Some ([DelInstance i, InsInstance r], s1)"
    using a shift by (auto simp: UpdateSharedInstanceLock_def u i [symmetric] Let_def d2_def d1_def r_def s1_def split: option.split)
  have L1: "linked es bnd rlm None s1" by (rule linked_shared [OF L a(2,1) d2 s1_def])
  have live: "live_id s1 i" using a d2 by (simp add: live_id_def s1_def)
  have at: "lock_at b s1 k = lock_at b s k" for b k by (simp add: lock_at_def s1_def)
  define t where "t = fold exec_stmt [DelInstance i, InsInstance r] (lm_tables s1)"
  have t: "t = exec_stmt (InsInstance r) (exec_stmt (DelInstance i) (lm_tables s))" by (simp add: t_def s1_def)
  have dist: "distinct (map cl_key (lt_locks (lm_tables s)))" "distinct (map in_instanceId (lt_instances (lm_tables s)))"
    using M unfolding mirrored_def by blast+
  have "mirrored es bnd rlm t s1"
    unfolding mirrored_def
  proof (intro conjI allI impI)
    show "distinct (map cl_key (lt_locks t))" "distinct (map in_instanceId (lt_instances t))"
      using distinct_fold_exec [OF dist, of "[DelInstance i, InsInstance r]"] unfolding t_def
      by (simp_all add: s1_def del: exec_stmt.simps)
    have rows: "row_at t = row_at (lm_tables s)" unfolding t by (simp only: row_at_exec)
    show "rel_option (row_ok es bnd) (row_at t (c, q)) (lock_at False s1 (CreatePlayer rlm 0 c, q))" for c q
      using M unfolding mirrored_def at rows by blast
    fix b d' assume b: "lm_heap s1 b = Some d' \<and> sd_InstanceId d' \<noteq> 0"
    have inst: "inst_at t = (inst_at (lm_tables s))(i \<mapsto> r)"
      unfolding t by (subst inst_at_exec(2)) (simp_all only: inst_at_exec ri fun_upd_upd, simp)
    show "\<exists>r. inst_at t (sd_InstanceId d') = Some r \<and> inst_ok d' r"
    proof (cases "b = a")
      case True
      with b have "d' = d2" by (simp add: s1_def)
      then show ?thesis by (simp add: d2 inst inst_ok_def r_def)
    next
      case False
      with b have h: "lm_heap s b = Some d'" by (simp add: s1_def)
      with L have "held b s" unfolding linked_def by blast
      from held_link [OF L this] h b have "map_of (lm_dataById s) (sd_InstanceId d') = Some b" by auto
      with a(2) False have "sd_InstanceId d' \<noteq> i" by auto
      moreover from M h b have "\<exists>r. inst_at (lm_tables s) (sd_InstanceId d') = Some r \<and> inst_ok d' r"
        unfolding mirrored_def by blast
      ultimately show ?thesis by (simp add: inst)
    qed
  qed
  moreover have "lm_ids s1 = lm_ids s" by (simp add: s1_def)
  ultimately show ?thesis using upd ri L1 live at unfolding t_def by blast
qed

lemma may_lock_evolves:
  assumes "evolves k s s1" and "(p, GetKey m) \<noteq> k"
  shows "may_lock e p m i s1 = may_lock e p m i s"
proof -
  from assms have "lock_at False s1 (p, GetKey m) = lock_at False s (p, GetKey m)"
    "lock_at True s1 (p, GetKey m) = lock_at True s (p, GetKey m)"
    unfolding evolves_def by blast+
  then show ?thesis
    by (simp add: may_lock_def FindActiveInstanceLock_def FindActiveInstanceLock_with_def FindInstanceLock_def)
qed

text \<open>A player's lock after the map was saved.\<close>

definition saved_ok :: "lock_env \<Rightarrow> map_entries \<Rightarrow> u32 \<Rightarrow> nat option \<Rightarrow> instance_lock \<Rightarrow> bool" where
  "saved_ok e m i enc l =
     (\<not> il_isNew l \<and> il_instanceId l = i
      \<and> (case enc of None \<Rightarrow> True | Some b \<Rightarrow> bit (ld_CompletedEncountersMask (il_data l)) b)
      \<and> (\<not> il_IsExpired e l \<or> il_expiryTime l = GetNextResetTime e m))"

lemma saved_ok_updated:
  assumes "lu_CompletedEncounter u = enc" and "shift_ok u" and "il_instanceId l = i"
  shows "saved_ok e m i enc (updated_lock e m u l)"
proof -
  have "bit (ld_CompletedEncountersMask (il_data (updated_lock e m u l))) b" if "enc = Some b" for b
    using assms that by (intro updated_lock_mask) (auto simp: shift_ok_def)
  with assms(3) updated_lock_active [of e m u l] show ?thesis by (auto simp: saved_ok_def split: option.split)
qed

lemma save_players_ok:
  assumes "linked es bnd rlm None s" and E: "entries_ok es bnd" and m: "es mp d = Some m" and sched: "HasResetSchedule m"
    and "\<forall>(p, gm) \<in> set ps. \<not> gm \<longrightarrow> p = CreatePlayer rlm 0 (GetCounter p) \<and> may_lock e p m i s"
    and "distinct (map fst ps)" and "IsInstanceIdBound m \<longrightarrow> live_id s i" and i: "i \<noteq> 0" and "id_taken i (lm_ids s)"
    and enc: "\<forall>b. enc = Some b \<longrightarrow> b < 32" and "mirrored es bnd rlm (fold exec_stmt tr (lm_tables s)) s"
    and "\<forall>r. InsInstance r \<in> set tr \<longrightarrow> IsInstanceIdBound m \<and> in_instanceId r = i"
  shows "\<exists>tr' s'. save_players e m i ms enc c ps tr s = Some (tr', s') \<and> linked es bnd rlm None s'
    \<and> mirrored es bnd rlm (fold exec_stmt tr' (lm_tables s')) s'
    \<and> (\<forall>(p, gm) \<in> set ps. \<not> gm \<longrightarrow> (\<exists>l. lock_at False s' (p, GetKey m) = Some l \<and> saved_ok e m i enc l))
    \<and> (\<forall>b q. (\<forall>(p, gm) \<in> set ps. \<not> gm \<longrightarrow> q \<noteq> (p, GetKey m)) \<longrightarrow> lock_at b s' q = lock_at b s q)"
  using assms(1,5-7,9,11,12)
proof (induction ps arbitrary: tr s)
  case (Cons x ps)
  obtain p gm where x: "x = (p, gm)" by (cases x)
  show ?case
  proof (cases gm)
    case True
    with Cons.prems Cons.IH [of s tr] show ?thesis by (simp add: x)
  next
    case False
    from Cons.prems(2) False have p: "p = CreatePlayer rlm 0 (GetCounter p)" and may: "may_lock e p m i s"
      by (simp_all add: x)
    define u where "u = player_update e m i ms enc c p s"
    have u: "lu_InstanceId u = i" "lu_CompletedEncounter u = enc" by (simp_all add: u_def player_update_def Let_def)
    have shift: "shift_ok u" using enc by (auto simp: shift_ok_def u split: option.split)
    have trs: "\<And>r. InsInstance r \<in> set tr \<Longrightarrow> IsInstanceIdBound m \<and> in_instanceId r = i" using Cons.prems(7) by blast
    from Cons.prems(4) have live: "IsInstanceIdBound m \<Longrightarrow> live_id s i" by blast
    from update_ok [OF Cons.prems(1) E m p sched may live i Cons.prems(5) u(1) refl shift Cons.prems(6) trs]
    obtain l s2 where upd: "UpdateInstanceLockForPlayer e tr p m u s = Some (updated_lock e m u l,
        tr @ [DelCharacterInstanceLock (GetCounter p) (me_map_id m) (ucast (me_lock_id m)),
          InsCharacterInstanceLock (lock_row p m (updated_lock e m u l))], s2)"
      and il: "il_instanceId (updated_lock e m u l) = i" and L2: "linked es bnd rlm None s2"
      and V: "evolves (p, GetKey m) s s2" and at: "lock_at False s2 (p, GetKey m) = Some (updated_lock e m u l)"
      and live2: "IsInstanceIdBound m \<longrightarrow> live_id s2 i"
      and M2: "mirrored es bnd rlm (fold exec_stmt (tr @ [DelCharacterInstanceLock (GetCounter p) (me_map_id m) (ucast (me_lock_id m)),
          InsCharacterInstanceLock (lock_row p m (updated_lock e m u l))]) (lm_tables s2)) s2"
      by blast
    define tr2 where "tr2 = tr @ [DelCharacterInstanceLock (GetCounter p) (me_map_id m) (ucast (me_lock_id m)),
      InsCharacterInstanceLock (lock_row p m (updated_lock e m u l))]"
    have step: "save_players e m i ms enc c (x # ps) tr s = save_players e m i ms enc c ps tr2 s2"
      using False upd by (simp add: x u_def [symmetric] tr2_def)
    have ids: "lm_ids s2 = lm_ids s" using V by (simp add: evolves_def)
    have rest: "\<forall>(p', gm) \<in> set ps. \<not> gm \<longrightarrow> p' = CreatePlayer rlm 0 (GetCounter p') \<and> may_lock e p' m i s2"
    proof (clarify, intro conjI)
      fix p' b assume p': "(p', b) \<in> set ps" "\<not> b"
      with Cons.prems(2) show "p' = CreatePlayer rlm 0 (GetCounter p')" by fastforce
      from Cons.prems(3) p'(1) have "p' \<noteq> p" by (force simp: x)
      then have "may_lock e p' m i s2 = may_lock e p' m i s" by (intro may_lock_evolves [OF V]) simp
      with Cons.prems(2) p' show "may_lock e p' m i s2" by fastforce
    qed
    have tr2: "\<forall>r. InsInstance r \<in> set tr2 \<longrightarrow> IsInstanceIdBound m \<and> in_instanceId r = i"
      using Cons.prems(7) by (auto simp: tr2_def)
    from Cons.IH [OF L2 rest _ live2 _ M2 [folded tr2_def] tr2] Cons.prems(3,5)
    obtain tr' s' where IH: "save_players e m i ms enc c ps tr2 s2 = Some (tr', s')" "linked es bnd rlm None s'"
        "mirrored es bnd rlm (fold exec_stmt tr' (lm_tables s')) s'"
        "\<forall>(p, gm) \<in> set ps. \<not> gm \<longrightarrow> (\<exists>l. lock_at False s' (p, GetKey m) = Some l \<and> saved_ok e m i enc l)"
        "\<forall>b q. (\<forall>(p, gm) \<in> set ps. \<not> gm \<longrightarrow> q \<noteq> (p, GetKey m)) \<longrightarrow> lock_at b s' q = lock_at b s2 q"
      by (auto simp: ids x)
    have "\<forall>(p', gm) \<in> set ps. \<not> gm \<longrightarrow> (p, GetKey m) \<noteq> (p', GetKey m)"
      using Cons.prems(3) by (force simp: x)
    with IH(5) at have at': "lock_at False s' (p, GetKey m) = Some (updated_lock e m u l)" by metis
    have sv: "saved_ok e m i enc (updated_lock e m u l)" using il by (intro saved_ok_updated [OF u(2) shift]) simp
    have frame: "lock_at b s' q = lock_at b s q"
      if "\<forall>(p, gm) \<in> set (x # ps). \<not> gm \<longrightarrow> q \<noteq> (p, GetKey m)" for b q
    proof -
      from that False have "q \<noteq> (p, GetKey m)" and "\<forall>(p, gm) \<in> set ps. \<not> gm \<longrightarrow> q \<noteq> (p, GetKey m)"
        by (simp_all add: x)
      with IH(5) V show ?thesis unfolding evolves_def by metis
    qed
    show ?thesis
      unfolding step using IH(1-4) at' sv False frame by (fastforce simp: x)
  qed
qed simp

text \<open>The state between the operations: pointers are right and the tables agree with memory.\<close>

definition locks_ok :: "(u32 \<Rightarrow> u8 \<Rightarrow> map_entries option) \<Rightarrow> (lock_key \<Rightarrow> bool) \<Rightarrow> u32 \<Rightarrow> lock_mgr \<Rightarrow> bool" where
  "locks_ok es bnd rlm s = (linked es bnd rlm None s \<and> mirrored es bnd rlm (lm_tables s) s)"

lemma linked_tables: "linked es bnd rlm p (s\<lparr>lm_tables := t\<rparr>) = linked es bnd rlm p s"
proof -
  have at: "lock_at b (s\<lparr>lm_tables := t\<rparr>) k = lock_at b s k" for b k by (simp add: lock_at_def)
  have "held a (s\<lparr>lm_tables := t\<rparr>) = held a s" for a by (simp add: held_def at)
  then show ?thesis by (simp add: linked_def at)
qed

lemma mirrored_tables: "mirrored es bnd rlm t (s\<lparr>lm_tables := t'\<rparr>) = mirrored es bnd rlm t s"
  by (simp add: mirrored_def)

lemma locks_ok_commit:
  assumes "linked es bnd rlm None s" and "mirrored es bnd rlm (fold exec_stmt tr (lm_tables s)) s"
  shows "locks_ok es bnd rlm (CommitTransaction tr s)"
  using assms by (simp add: locks_ok_def CommitTransaction_def linked_tables mirrored_tables)

lemma lock_at_commit [simp]: "lock_at b (CommitTransaction tr s) k = lock_at b s k"
  by (simp add: lock_at_def CommitTransaction_def)

lemma map_update_ok:
  assumes ok: "locks_ok es bnd rlm s" and E: "entries_ok es bnd" and m: "es mp d = Some m" and sched: "HasResetSchedule m"
    and run: "lock_at b s k = Some il" "snd k = GetKey m" and enc: "\<forall>b. enc = Some b \<longrightarrow> b < 32"
    and ps: "\<forall>(p, gm) \<in> set ps. \<not> gm \<longrightarrow> p = CreatePlayer rlm 0 (GetCounter p) \<and> may_lock e p m (il_instanceId il) s"
      "distinct (map fst ps)"
  shows "\<exists>s'. map_UpdateInstanceLock e m (il_instanceId il) (Some il) ms enc ps s = Some s' \<and> locks_ok es bnd rlm s'
    \<and> (\<forall>(p, gm) \<in> set ps. \<not> gm \<longrightarrow> (\<exists>l. lock_at False s' (p, GetKey m) = Some l \<and> saved_ok e m (il_instanceId il) enc l))
    \<and> (\<forall>b q. (\<forall>(p, gm) \<in> set ps. \<not> gm \<longrightarrow> q \<noteq> (p, GetKey m)) \<longrightarrow> lock_at b s' q = lock_at b s q)"
proof -
  from ok have L: "linked es bnd rlm None s" and M: "mirrored es bnd rlm (lm_tables s) s" by (simp_all add: locks_ok_def)
  define i where "i = il_instanceId il"
  define completed where "completed = (case enc of None \<Rightarrow> ld_CompletedEncountersMask (il_data il)
    | Some b \<Rightarrow> ld_CompletedEncountersMask (il_data il) OR push_bit b 1)"
  define u where "u = \<lparr>lu_InstanceId = i, lu_NewData = ms_SaveData ms, lu_InstanceCompletedEncountersMask = completed,
    lu_CompletedEncounter = enc, lu_EntranceWorldSafeLocId = (if enc = None then None else ms_Entrance ms completed)\<rparr>"
  have shift: "shift_ok u" using enc by (auto simp: shift_ok_def u_def split: option.split)
  note F = linked_lock [OF L run(1), folded i_def]
  from F have i: "i \<noteq> 0" "id_taken i (lm_ids s)" by (auto simp: lock_fields_def i_def)
  from E m have B: "bnd (GetKey m) = IsInstanceIdBound m" unfolding entries_ok_def by blast
  have "\<exists>tr s1. (if IsInstanceIdBound m then UpdateSharedInstanceLock [] u s else Some ([], s)) = Some (tr, s1)
      \<and> linked es bnd rlm None s1 \<and> (IsInstanceIdBound m \<longrightarrow> live_id s1 i)
      \<and> (\<forall>b k. lock_at b s1 k = lock_at b s k) \<and> lm_ids s1 = lm_ids s
      \<and> mirrored es bnd rlm (fold exec_stmt tr (lm_tables s1)) s1
      \<and> (\<forall>r. InsInstance r \<in> set tr \<longrightarrow> IsInstanceIdBound m \<and> in_instanceId r = i)"
  proof (cases "IsInstanceIdBound m")
    case True
    have bk: "bnd (snd k)" using True B run(2) by simp
    have ui: "lu_InstanceId u = il_instanceId il" by (simp add: u_def i_def)
    from update_shared_ok [OF L M run(1) bk ui shift i_def]
    obtain r s1 where "UpdateSharedInstanceLock [] u s = Some ([DelInstance i, InsInstance r], s1)" "in_instanceId r = i"
        "linked es bnd rlm None s1" "live_id s1 i" "\<forall>b k. lock_at b s1 k = lock_at b s k" "lm_ids s1 = lm_ids s"
        "mirrored es bnd rlm (fold exec_stmt [DelInstance i, InsInstance r] (lm_tables s1)) s1"
      by blast
    with True show ?thesis by (intro exI [of _ "[DelInstance i, InsInstance r]"] exI [of _ s1]) simp
  qed (use L M in simp)
  then obtain tr s1 where pre: "(if IsInstanceIdBound m then UpdateSharedInstanceLock [] u s else Some ([], s)) = Some (tr, s1)"
      and L1: "linked es bnd rlm None s1" and live: "IsInstanceIdBound m \<longrightarrow> live_id s1 i"
      and at: "\<And>b k. lock_at b s1 k = lock_at b s k" and ids: "lm_ids s1 = lm_ids s"
      and M1: "mirrored es bnd rlm (fold exec_stmt tr (lm_tables s1)) s1"
      and tr: "\<forall>r. InsInstance r \<in> set tr \<longrightarrow> IsInstanceIdBound m \<and> in_instanceId r = i"
    by blast
  have may: "may_lock e p m i s1 = may_lock e p m i s" for p
    using at [of False "(p, GetKey m)"] at [of True "(p, GetKey m)"]
    by (simp add: may_lock_def FindActiveInstanceLock_def FindActiveInstanceLock_with_def FindInstanceLock_def)
  have ps1: "\<forall>(p, gm) \<in> set ps. \<not> gm \<longrightarrow> p = CreatePlayer rlm 0 (GetCounter p) \<and> may_lock e p m i s1"
    using ps(1) may by (simp add: i_def)
  from save_players_ok [OF L1 E m sched ps1 ps(2) live i(1) _ enc M1 tr, of ms completed] i(2) ids
  obtain tr' s' where S: "save_players e m i ms enc completed ps tr s1 = Some (tr', s')" "linked es bnd rlm None s'"
      "mirrored es bnd rlm (fold exec_stmt tr' (lm_tables s')) s'"
      "\<forall>(p, gm) \<in> set ps. \<not> gm \<longrightarrow> (\<exists>l. lock_at False s' (p, GetKey m) = Some l \<and> saved_ok e m i enc l)"
      "\<forall>b q. (\<forall>(p, gm) \<in> set ps. \<not> gm \<longrightarrow> q \<noteq> (p, GetKey m)) \<longrightarrow> lock_at b s' q = lock_at b s1 q"
    by auto
  have "map_UpdateInstanceLock e m i (Some il) ms enc ps s =
      (if enc \<noteq> None \<and> \<not> shift_ok u then None
       else map_option (\<lambda>(tr, s1). CommitTransaction tr s1)
         (Option.bind (if IsInstanceIdBound m then UpdateSharedInstanceLock [] u s else Some ([], s))
            (\<lambda>(tr, s1). save_players e m i ms enc completed ps tr s1)))"
    by (simp only: map_UpdateInstanceLock_def Let_def option.case completed_def u_def)
  then have "map_UpdateInstanceLock e m i (Some il) ms enc ps s = Some (CommitTransaction tr' s')"
    unfolding pre using shift by (simp add: S(1))
  moreover have "locks_ok es bnd rlm (CommitTransaction tr' s')" by (rule locks_ok_commit [OF S(2,3)])
  ultimately show ?thesis
    using S(4,5) unfolding at i_def by (intro exI [of _ "CommitTransaction tr' s'"]) (simp only: lock_at_commit)
qed

lemma map_bind_ok:
  assumes ok: "locks_ok es bnd rlm s" and E: "entries_ok es bnd" and m: "es mp d = Some m" and sched: "HasResetSchedule m"
    and run: "lock_at b s k = Some il" "snd k = GetKey m" and old: "\<not> il_isNew il"
    and p: "p = CreatePlayer rlm 0 (GetCounter p)" and may: "may_lock e p m (il_instanceId il) s"
  shows "\<exists>s' l. map_CreateInstanceLockForPlayer e m (il_instanceId il) il ms p s = Some s' \<and> locks_ok es bnd rlm s'
    \<and> lock_at False s' (p, GetKey m) = Some l \<and> saved_ok e m (il_instanceId il) None l"
proof -
  from ok have L: "linked es bnd rlm None s" and M: "mirrored es bnd rlm (fold exec_stmt [] (lm_tables s)) s"
    by (simp_all add: locks_ok_def)
  define i where "i = il_instanceId il"
  define u where "u = \<lparr>lu_InstanceId = i, lu_NewData = ms_SaveData ms,
    lu_InstanceCompletedEncountersMask = ld_CompletedEncountersMask (il_data il), lu_CompletedEncounter = None,
    lu_EntranceWorldSafeLocId = None\<rparr>"
  have u: "lu_InstanceId u = i" "lu_CompletedEncounter u = None" by (simp_all add: u_def)
  have shift: "shift_ok u" by (simp add: shift_ok_def u_def)
  note F = linked_lock [OF L run(1)]
  from F have i: "i \<noteq> 0" "id_taken i (lm_ids s)" by (simp_all add: lock_fields_def i_def)
  from F old have b: "\<not> b" by (auto simp: lock_fields_def)
  from E m have B: "bnd (GetKey m) = IsInstanceIdBound m" unfolding entries_ok_def by blast
  have live: "live_id s i" if "IsInstanceIdBound m"
    using F that B b run(2) by (auto simp: lock_link_def live_id_def i_def)
  have none: "\<And>r. InsInstance r \<in> set [] \<Longrightarrow> IsInstanceIdBound m \<and> in_instanceId r = i" by simp
  from update_ok [OF L E m p sched may [folded i_def] live i u(1) refl shift M none]
  obtain l s2 where U: "UpdateInstanceLockForPlayer e [] p m u s = Some (updated_lock e m u l,
        [] @ [DelCharacterInstanceLock (GetCounter p) (me_map_id m) (ucast (me_lock_id m)),
          InsCharacterInstanceLock (lock_row p m (updated_lock e m u l))], s2)"
      "il_instanceId (updated_lock e m u l) = i" "linked es bnd rlm None s2"
      "lock_at False s2 (p, GetKey m) = Some (updated_lock e m u l)"
      "mirrored es bnd rlm (fold exec_stmt ([] @ [DelCharacterInstanceLock (GetCounter p) (me_map_id m) (ucast (me_lock_id m)),
          InsCharacterInstanceLock (lock_row p m (updated_lock e m u l))]) (lm_tables s2)) s2"
    by blast
  have sv: "saved_ok e m i None (updated_lock e m u l)" using U(2) by (intro saved_ok_updated [OF u(2) shift]) simp
  have eq: "map_CreateInstanceLockForPlayer e m i il ms p s = Some (CommitTransaction
      ([] @ [DelCharacterInstanceLock (GetCounter p) (me_map_id m) (ucast (me_lock_id m)),
          InsCharacterInstanceLock (lock_row p m (updated_lock e m u l))]) s2)"
    using U(1) by (simp add: map_CreateInstanceLockForPlayer_def u_def [symmetric])
  show ?thesis
    using eq locks_ok_commit [OF U(3,5)] U(4) sv unfolding i_def [symmetric]
    by (metis lock_at_commit)
qed

section \<open>Changing single fields\<close>

lemma map_entry_update: "map_of xs k = Some v \<Longrightarrow> AList.map_entry k f xs = AList.update k (f v) xs"
  by (induction xs) auto

lemma set_lock_put: "lock_at b s k = Some l \<Longrightarrow> set_lock b k f s = put_lock b k (f l) s"
  by (simp add: set_lock_def put_lock_def lock_at_def map_entry_update split: if_splits)

lemma set_lock_absent: "lock_at b s k = None \<Longrightarrow> set_lock b k f s = s"
proof -
  have "AList.map_entry k f xs = xs" if "map_of xs k = None" for xs :: lock_store
    using that by (induction xs) (auto split: if_splits)
  then show "lock_at b s k = None \<Longrightarrow> set_lock b k f s = s"
    by (simp add: set_lock_def lock_at_def split: if_splits)
qed

lemma mirrored_put:
  assumes M: "mirrored es bnd rlm t s" and at: "lock_at False s k = Some l"
    and k: "fst k = CreatePlayer rlm 0 (GetCounter (fst k))"
    and rows: "row_at t' = (row_at t)((GetCounter (fst k), snd k) := map_option g (row_at t (GetCounter (fst k), snd k)))"
    and t': "distinct (map cl_key (lt_locks t'))" "lt_instances t' = lt_instances t"
    and g: "\<And>r. row_ok es bnd r l \<Longrightarrow> cl_key r = (GetCounter (fst k), snd k) \<Longrightarrow> row_ok es bnd (g r) l'"
  shows "mirrored es bnd rlm t' (put_lock False k l' s)"
  unfolding mirrored_def put_lock_same
proof (intro conjI allI)
  show "distinct (map cl_key (lt_locks t'))" by (rule t'(1))
  show "distinct (map in_instanceId (lt_instances t'))" using M unfolding t'(2) mirrored_def by blast
  have R: "rel_option (row_ok es bnd) (row_at t (c, q)) (lock_at False s (CreatePlayer rlm 0 c, q))" for c q
    using M unfolding mirrored_def by blast
  show "rel_option (row_ok es bnd) (row_at t' (c, q)) (lock_at False (put_lock False k l' s) (CreatePlayer rlm 0 c, q))" for c q
  proof (cases "(CreatePlayer rlm 0 c, q) = k")
    case True
    with k have c: "c = GetCounter (fst k)" "q = snd k" by (auto simp: CreatePlayer_inj)
    have "rel_option (row_ok es bnd) (row_at t (c, q)) (Some l)" using R [of c q] at True by simp
    then obtain r where r: "row_at t (c, q) = Some r" "row_ok es bnd r l" by (cases "row_at t (c, q)") auto
    from rows_at_key r(1) have "cl_key r = (c, q)" unfolding row_at_def by metis
    with r show ?thesis using g unfolding rows c [symmetric] lock_at_put True by simp
  next
    case False
    with k have "(c, q) \<noteq> (GetCounter (fst k), snd k)" by (metis prod.collapse prod.inject)
    with False R [of c q] show ?thesis unfolding rows lock_at_put by (auto simp: fun_upd_def split: if_splits)
  qed
  show "lm_heap s a = Some d \<and> sd_InstanceId d \<noteq> 0 \<longrightarrow> (\<exists>r. inst_at t' (sd_InstanceId d) = Some r \<and> inst_ok d r)" for a d
    using M unfolding inst_at_def t'(2) mirrored_def by blast
qed

text \<open>A changed permanent lock with the statement that changes its row.\<close>

lemma change_ok:
  assumes L: "linked es bnd rlm None s" and M: "mirrored es bnd rlm (fold exec_stmt tr (lm_tables s)) s"
    and at: "lock_at False s k = Some l"
    and l': "il_mapId l' = il_mapId l" "il_difficultyId l' = il_difficultyId l" "il_instanceId l' = il_instanceId l"
      "il_shared l' = il_shared l" "\<exists>x. il_expiryTime l' = from_time_t x"
    and q: "about_characters q" "\<And>t. row_at (exec_stmt q t) =
      (row_at t)((GetCounter (fst k), snd k) := map_option g (row_at t (GetCounter (fst k), snd k)))"
    and g: "\<And>r. row_ok es bnd r l \<Longrightarrow> row_ok es bnd (g r) l'"
  shows "linked es bnd rlm None (put_lock False k l' s)"
    and "mirrored es bnd rlm (fold exec_stmt (tr @ [q]) (lm_tables (put_lock False k l' s))) (put_lock False k l' s)"
proof -
  note F = linked_lock [OF L at]
  have "lock_fields es rlm False k l'" using F l' by (auto simp: lock_fields_def)
  moreover have "lock_link (bnd (snd k)) (lm_heap s) (lm_dataById s) False l'"
    using F unfolding lock_link_def l'(3,4) by blast
  ultimately show "linked es bnd rlm None (put_lock False k l' s)"
    using F l' by (intro linked_put_same [OF L at]) simp_all
  define t where "t = fold exec_stmt tr (lm_tables s)"
  have k: "fst k = CreatePlayer rlm 0 (GetCounter (fst k))" using F by (simp add: lock_fields_def)
  have dist: "distinct (map cl_key (lt_locks (exec_stmt q t)))"
    using M distinct_exec(1) [of t q] unfolding mirrored_def t_def by blast
  have "mirrored es bnd rlm (exec_stmt q t) (put_lock False k l' s)"
    using mirrored_put [OF M at k, folded t_def, OF q(2) dist _ g] inst_at_characters [OF q(1)] by blast
  then show "mirrored es bnd rlm (fold exec_stmt (tr @ [q]) (lm_tables (put_lock False k l' s))) (put_lock False k l' s)"
    by (simp add: t_def)
qed

lemma extension_ok:
  assumes ok: "locks_ok es bnd rlm s" and es: "le_entries e = es"
  shows "\<exists>x s'. UpdateInstanceLockExtensionForPlayer e p m b s = Some (x, s') \<and> locks_ok es bnd rlm s'
    \<and> (\<forall>l. HasResetSchedule m \<and> lock_at False s (p, GetKey m) = Some l
         \<longrightarrow> lock_at False s' (p, GetKey m) = Some (l\<lparr>il_extended := b\<rparr>))
    \<and> (\<forall>b' q. q \<noteq> (p, GetKey m) \<longrightarrow> lock_at b' s' q = lock_at b' s q)"
proof (cases "FindActiveInstanceLock_with e p m True False s")
  case None
  then have "\<not> (HasResetSchedule m \<and> lock_at False s (p, GetKey m) = Some l)" for l
    by (auto simp: FindActiveInstanceLock_with_def FindInstanceLock_def Let_def split: if_splits option.splits)
  with None ok show ?thesis by (auto simp: UpdateInstanceLockExtensionForPlayer_def simp del: lock_at_simps)
next
  case (Some x)
  then obtain b0 l where x: "FindActiveInstanceLock_with e p m True False s = Some (b0, l)" by (cases x) auto
  define k where "k = (p, GetKey m)"
  from FindActive_permanent [OF x] have at: "lock_at False s k = Some l" by (simp add: k_def)
  define l' where "l' = l\<lparr>il_extended := b\<rparr>"
  define q where "q = UpdCharacterInstanceLockExtension b (GetCounter p) (me_map_id m) (ucast (me_lock_id m))"
  from ok have L: "linked es bnd rlm None s" and M: "mirrored es bnd rlm (fold exec_stmt [] (lm_tables s)) s"
    by (simp_all add: locks_ok_def)
  note F = linked_lock [OF L at]
  have qr: "row_at (exec_stmt q t) = (row_at t)((GetCounter (fst k), snd k) :=
      map_option (\<lambda>r. r\<lparr>cl_extended := b\<rparr>) (row_at t (GetCounter (fst k), snd k)))" for t
    by (simp only: q_def row_at_exec k_def GetKey_def fst_conv snd_conv)
  have g: "row_ok es bnd (r\<lparr>cl_extended := b\<rparr>) l'" if "row_ok es bnd r l" for r
    using that by (simp add: row_ok_def l'_def)
  have lx: "il_mapId l' = il_mapId l" "il_difficultyId l' = il_difficultyId l" "il_instanceId l' = il_instanceId l"
    "il_shared l' = il_shared l" "\<exists>x. il_expiryTime l' = from_time_t x"
    using F by (simp_all add: l'_def lock_fields_def)
  have ac: "about_characters q" by (simp add: q_def)
  note C = change_ok [OF L M at lx ac qr g]
  obtain m' where m': "le_entries e (il_mapId l) (il_difficultyId l) = Some m'" using F es by (auto simp: lock_fields_def)
  have eff: "\<exists>y. GetEffectiveExpiryTime e l0 = Some y" if "il_mapId l0 = il_mapId l" "il_difficultyId l0 = il_difficultyId l" for l0
    using that m' by (simp add: GetEffectiveExpiryTime_def)
  obtain y y' where y: "GetEffectiveExpiryTime e l = Some y" "GetEffectiveExpiryTime e (l\<lparr>il_extended := b\<rparr>) = Some y'"
    using eff [of l] eff [of "l\<lparr>il_extended := b\<rparr>"] by auto
  have "set_lock False (p, GetKey m) (\<lambda>l. l\<lparr>il_extended := b\<rparr>) s = put_lock False k l' s"
    using set_lock_put [OF at, of "\<lambda>l. l\<lparr>il_extended := b\<rparr>"] by (simp add: k_def l'_def)
  then have U: "UpdateInstanceLockExtensionForPlayer e p m b s = Some ((y, y'), lm_Execute q (put_lock False k l' s))"
    by (simp add: UpdateInstanceLockExtensionForPlayer_def x y q_def)
  have "lm_Execute q (put_lock False k l' s) = CommitTransaction ([] @ [q]) (put_lock False k l' s)"
    by (simp add: lm_Execute_def CommitTransaction_def)
  with U locks_ok_commit [OF C] have
    "UpdateInstanceLockExtensionForPlayer e p m b s = Some ((y, y'), CommitTransaction ([] @ [q]) (put_lock False k l' s))"
    "locks_ok es bnd rlm (CommitTransaction ([] @ [q]) (put_lock False k l' s))" by simp_all
  moreover have "lock_at False (CommitTransaction ([] @ [q]) (put_lock False k l' s)) (p, GetKey m) = Some l'"
    "\<forall>b' q'. q' \<noteq> (p, GetKey m) \<longrightarrow> lock_at b' (CommitTransaction ([] @ [q]) (put_lock False k l' s)) q' = lock_at b' s q'"
    unfolding lock_at_commit lock_at_put k_def by simp_all
  ultimately show ?thesis using at unfolding l'_def k_def by (metis option.inject)
qed

definition expired_now :: "lock_env \<Rightarrow> map_entries \<Rightarrow> instance_lock \<Rightarrow> instance_lock" where
  "expired_now e m l = l\<lparr>il_expiryTime := GetNextResetTime e m - Seconds (GetRaidDuration m), il_extended := False\<rparr>"

lemma reset_locks_ok:
  assumes "linked es bnd rlm None s" and "mirrored es bnd rlm (fold exec_stmt tr (lm_tables s)) s"
    and es: "le_entries e = es" and "\<forall>(k, l) \<in> set ls. fst k = g \<and> lock_at False s k = Some l" and "distinct (map fst ls)"
  shows "\<exists>tr' s'. reset_locks e g ls tr s = Some (tr', s') \<and> linked es bnd rlm None s'
    \<and> mirrored es bnd rlm (fold exec_stmt tr' (lm_tables s')) s'
    \<and> (\<forall>(k, l) \<in> set ls. \<exists>m. es (il_mapId l) (il_difficultyId l) = Some m \<and> GetKey m = snd k
          \<and> lock_at False s' k = Some (expired_now e m l))
    \<and> (\<forall>b k. (\<forall>l. (k, l) \<notin> set ls) \<or> b \<longrightarrow> lock_at b s' k = lock_at b s k)"
  using assms(1,2,4,5)
proof (induction ls arbitrary: tr s)
  case (Cons x ls)
  obtain k l where x: "x = (k, l)" by (cases x)
  from Cons.prems(3) x have g: "fst k = g" and at: "lock_at False s k = Some l" by simp_all
  note F = linked_lock [OF Cons.prems(1) at]
  then obtain m where m: "es (il_mapId l) (il_difficultyId l) = Some m" and mk: "GetKey m = snd k"
    by (auto simp: lock_fields_def)
  define n where "n = GetNextResetTime e m - Seconds (GetRaidDuration m)"
  define l' where "l' = expired_now e m l"
  define q where "q = UpdCharacterInstanceLockForceExpire (of_int (to_time_t n)) (GetCounter g) (me_map_id m) (ucast (me_lock_id m))"
  have n: "\<exists>x. n = from_time_t x"
    using GetNextResetTime_whole [of e m] by (auto simp: n_def from_time_t_Seconds)
  have qr: "row_at (exec_stmt q t) = (row_at t)((GetCounter (fst k), snd k) :=
      map_option (\<lambda>r. r\<lparr>cl_expiry := of_int (to_time_t n), cl_extended := False\<rparr>) (row_at t (GetCounter (fst k), snd k)))" for t
    by (simp only: q_def row_at_exec g mk [symmetric] GetKey_def)
  have gr: "row_ok es bnd (r\<lparr>cl_expiry := of_int (to_time_t n), cl_extended := False\<rparr>) l'" if "row_ok es bnd r l" for r
    using that by (simp add: row_ok_def l'_def expired_now_def n_def)
  define s1 where "s1 = put_lock False k l' s"
  have lx: "il_mapId l' = il_mapId l" "il_difficultyId l' = il_difficultyId l" "il_instanceId l' = il_instanceId l"
    "il_shared l' = il_shared l" "\<exists>x. il_expiryTime l' = from_time_t x"
    using n by (simp_all add: l'_def expired_now_def n_def)
  have ac: "about_characters q" by (simp add: q_def)
  note C = change_ok [OF Cons.prems(1,2) at lx ac qr gr, folded s1_def]
  have "set_lock False k (\<lambda>l. l\<lparr>il_expiryTime := n, il_extended := False\<rparr>) s = s1"
    using set_lock_put [OF at, of "\<lambda>l. l\<lparr>il_expiryTime := n, il_extended := False\<rparr>"]
    by (simp add: s1_def l'_def expired_now_def n_def)
  then have step: "reset_locks e g (x # ls) tr s = reset_locks e g ls (tr @ [q]) s1"
    using m by (simp add: x es n_def q_def)
  have nk: "k \<noteq> fst y" if "y \<in> set ls" for y using Cons.prems(4) that by (force simp: x)
  have rest: "\<forall>(k, l) \<in> set ls. fst k = g \<and> lock_at False s1 k = Some l"
    using Cons.prems(3) nk by (force simp: x s1_def lock_at_put simp del: lock_at_simps)
  from Cons.IH [OF C rest] Cons.prems(4)
  obtain tr' s' where IH: "reset_locks e g ls (tr @ [q]) s1 = Some (tr', s')" "linked es bnd rlm None s'"
      "mirrored es bnd rlm (fold exec_stmt tr' (lm_tables s')) s'"
      "\<forall>(k, l) \<in> set ls. \<exists>m. es (il_mapId l) (il_difficultyId l) = Some m \<and> GetKey m = snd k
          \<and> lock_at False s' k = Some (expired_now e m l)"
      "\<forall>b k. (\<forall>l. (k, l) \<notin> set ls) \<or> b \<longrightarrow> lock_at b s' k = lock_at b s1 k"
    by (auto simp: x simp del: lock_at_simps)
  have "\<forall>l. (k, l) \<notin> set ls" using nk by fastforce
  with IH(5) have "lock_at False s' k = lock_at False s1 k" by blast
  then have at': "lock_at False s' k = Some l'" unfolding s1_def lock_at_put by simp
  have frame: "lock_at b s' k' = lock_at b s k'" if "(\<forall>l. (k', l) \<notin> set (x # ls)) \<or> b" for b k'
  proof -
    from that have "(\<forall>l. (k', l) \<notin> set ls) \<or> b" by auto
    with IH(5) have "lock_at b s' k' = lock_at b s1 k'" by blast
    also have "\<dots> = lock_at b s k'"
    proof -
      from that x have "\<not> (b = False \<and> k' = k)" by auto
      then show ?thesis unfolding s1_def lock_at_put by (rule if_not_P)
    qed
    finally show ?thesis .
  qed
  have head: "\<exists>m. es (il_mapId l) (il_difficultyId l) = Some m \<and> GetKey m = snd k \<and> lock_at False s' k = Some (expired_now e m l)"
    using m mk at' l'_def by blast
  show ?case unfolding step using IH(1-4) head frame x by (intro exI [of _ tr'] exI [of _ s']) auto
qed simp

section \<open>Instance ids and new instances\<close>

lemma find_next_Some:
  "find_next xs p = Some n \<Longrightarrow> p < n \<and> n < length xs \<and> xs ! n"
  by (auto simp: find_next_def find_Some_iff)

lemma Generate_ok:
  assumes ok: "ids_ok ids" and room: "length (ii_free ids) < 2 ^ 32 - 1"
  shows "\<exists>ids'. GenerateInstanceId ids = Some (ii_next ids, False, ids') \<and> ids_ok ids' \<and> id_taken (ii_next ids) ids'
    \<and> (\<forall>j. id_taken j ids \<longrightarrow> id_taken j ids') \<and> \<not> id_taken (ii_next ids) ids \<and> ii_next ids \<noteq> 0
    \<and> length (ii_free ids') \<le> length (ii_free ids) + 1"
proof -
  define n where "n = unat (ii_next ids)"
  define f where "f = (ii_free ids)[n := False]"
  from ok have n: "n < length (ii_free ids)" "ii_free ids ! n" "\<not> ii_free ids ! 0" by (simp_all add: ids_ok_def n_def)
  have next0: "ii_next ids \<noteq> 0" using n by (auto simp: n_def)
  have last: "ii_next ids \<noteq> 0xFFFFFFFF"
  proof
    assume "ii_next ids = 0xFFFFFFFF"
    then have "n = 4294967295" by (simp add: n_def)
    with n(1) room show False by simp
  qed
  have set: "ids_set n False ids = Some (ids\<lparr>ii_free := f\<rparr>)" using n by (simp add: ids_set_def f_def)
  have fn: "\<not> f ! n" "\<not> f ! 0" "length f = length (ii_free ids)" using n by (auto simp: f_def nth_list_update)
  have keep: "\<not> f ! j" if "j < length (ii_free ids)" "\<not> ii_free ids ! j" for j
    using that by (cases "j = n") (simp_all add: f_def)
  have new: "\<not> id_taken (ii_next ids) ids" using n by (simp add: id_taken_def n_def)
  show ?thesis
  proof (cases "find_next f n")
    case None
    define ids' where "ids' = ids\<lparr>ii_free := f @ [True], ii_next := of_nat (length f)\<rparr>"
    have g: "GenerateInstanceId ids = Some (ii_next ids, False, ids')"
      using last set None by (simp add: GenerateInstanceId_def n_def [symmetric] ids'_def Let_def)
    have "unat (of_nat (length f) :: u32) = length f" using room fn by (simp add: unat_of_nat)
    with fn room n have "ids_ok ids'" by (auto simp: ids_ok_def ids'_def nth_append)
    moreover have "id_taken (ii_next ids) ids'" using fn n by (simp add: id_taken_def ids'_def nth_append n_def [symmetric])
    moreover have "id_taken j ids \<longrightarrow> id_taken j ids'" for j
      using keep fn by (auto simp: id_taken_def ids'_def nth_append)
    moreover have "length (ii_free ids') \<le> length (ii_free ids) + 1" using fn by (simp add: ids'_def)
    ultimately show ?thesis using g new next0 by blast
  next
    case (Some n')
    define ids' where "ids' = ids\<lparr>ii_free := f, ii_next := of_nat n'\<rparr>"
    have g: "GenerateInstanceId ids = Some (ii_next ids, False, ids')"
      using last set Some by (simp add: GenerateInstanceId_def n_def [symmetric] ids'_def Let_def)
    from find_next_Some [OF Some] fn have n': "n' < length f" "f ! n'" by auto
    then have "unat (of_nat n' :: u32) = n'" using room fn by (simp add: unat_of_nat)
    with fn room n' have "ids_ok ids'" by (simp add: ids_ok_def ids'_def)
    moreover have "id_taken (ii_next ids) ids'" using fn n by (simp add: id_taken_def ids'_def n_def [symmetric])
    moreover have "id_taken j ids \<longrightarrow> id_taken j ids'" for j
      using keep fn by (auto simp: id_taken_def ids'_def)
    moreover have "length (ii_free ids') \<le> length (ii_free ids) + 1" using fn by (simp add: ids'_def)
    ultimately show ?thesis using g new next0 by blast
  qed
qed

lemma linked_ids:
  assumes L: "linked es bnd rlm p s" and ok: "ids_ok ids'"
    and keep: "\<And>b k l. lock_at b s k = Some l \<Longrightarrow> id_taken (il_instanceId l) ids'"
  shows "linked es bnd rlm p (s\<lparr>lm_ids := ids'\<rparr>)"
proof -
  have at: "lock_at b (s\<lparr>lm_ids := ids'\<rparr>) k = lock_at b s k" for b k by (simp add: lock_at_def)
  have held: "held a (s\<lparr>lm_ids := ids'\<rparr>) = held a s" for a by (simp add: held_def at)
  have sel: "lm_temporary (s\<lparr>lm_ids := ids'\<rparr>) = lm_temporary s" "lm_locks (s\<lparr>lm_ids := ids'\<rparr>) = lm_locks s"
    "lm_unloading (s\<lparr>lm_ids := ids'\<rparr>) = lm_unloading s" "lm_heap (s\<lparr>lm_ids := ids'\<rparr>) = lm_heap s"
    "lm_dataById (s\<lparr>lm_ids := ids'\<rparr>) = lm_dataById s" "lm_fresh (s\<lparr>lm_ids := ids'\<rparr>) = lm_fresh s"
    "lm_ids (s\<lparr>lm_ids := ids'\<rparr>) = ids'"
    by simp_all
  show ?thesis
    unfolding linked_def at held sel
  proof (intro conjI)
    show "distinct (map fst (lm_temporary s))" "distinct (map fst (lm_locks s))" "\<not> lm_unloading s"
      "by_id_ok (lm_fresh s) (lm_dataById s)"
      using L unfolding linked_def by blast+
  qed (use L ok keep in \<open>unfold linked_def, blast\<close>)+
qed

lemma lock_at_ids [simp]: "lock_at b (s\<lparr>lm_ids := x\<rparr>) k = lock_at b s k"
  by (simp add: lock_at_def)

lemma mirrored_ids [simp]: "mirrored es bnd rlm t (s\<lparr>lm_ids := x\<rparr>) = mirrored es bnd rlm t s"
  by (simp add: mirrored_def)

lemma create_ok:
  assumes ok: "locks_ok es bnd rlm s" and E: "entries_ok es bnd" and m: "es mp d = Some m" and sched: "HasResetSchedule m"
    and p: "p = CreatePlayer rlm 0 (GetCounter p)" and i: "i \<noteq> 0" "id_taken i (lm_ids s)"
    and new: "\<forall>b k l. lock_at b s k = Some l \<longrightarrow> il_instanceId l \<noteq> i"
  shows "\<exists>l s'. CreateInstanceLockForNewInstance e p m i s = (Some l, s') \<and> locks_ok es bnd rlm s' \<and> il_instanceId l = i
    \<and> lock_at True s' (p, GetKey m) = Some l \<and> (\<forall>b q. q \<noteq> (p, GetKey m) \<or> \<not> b \<longrightarrow> lock_at b s' q = lock_at b s q)
    \<and> lm_ids s' = lm_ids s"
proof -
  from ok have L: "linked es bnd rlm None s" and M: "mirrored es bnd rlm (lm_tables s) s" by (simp_all add: locks_ok_def)
  from E m have B: "bnd (GetKey m) = IsInstanceIdBound m" and mp: "me_map_id m = mp" "me_difficulty m = d"
    unfolding entries_ok_def by blast+
  define a where "a = lm_fresh s"
  define k where "k = (p, GetKey m)"
  define l where "l = (if IsInstanceIdBound m
    then SharedInstanceLock_new (me_map_id m) (me_difficulty m) (GetNextResetTime e m) i a
    else InstanceLock_new (me_map_id m) (me_difficulty m) (GetNextResetTime e m) i)\<lparr>il_isNew := True\<rparr>"
  define s1 where "s1 = (if IsInstanceIdBound m
    then s\<lparr>lm_heap := (lm_heap s)(a \<mapsto> shared_lock_data0), lm_fresh := a + 1, lm_dataById := AList.update i a (lm_dataById s)\<rparr>
    else s)"
  define s' where "s' = reset_lock True k l s1"
  have eq: "CreateInstanceLockForNewInstance e p m i s = (Some l, s')"
    using sched by (simp add: CreateInstanceLockForNewInstance_def Let_def s'_def s1_def l_def k_def a_def)
  have at1: "lock_at b s1 q = lock_at b s q" for b q by (simp add: lock_at_def s1_def)
  have li: "il_instanceId l = i" by (simp add: l_def SharedInstanceLock_new_def InstanceLock_new_def)
  have free: "lm_heap s a = None" using L unfolding linked_def a_def by blast
  have L1: "linked es bnd rlm (if IsInstanceIdBound m then Some a else None) s1"
  proof (cases "IsInstanceIdBound m")
    case True
    have link: "lock_link (bnd (snd q)) (lm_heap s1) (lm_dataById s1) b l0" if q: "lock_at b s q = Some l0" for b q l0
    proof (cases "bnd (snd q)")
      case bq: True
      with linked_lock [OF L q] obtain a' d' where l0: "il_shared l0 = Some a'" "lm_heap s a' = Some d'"
          "map_of (lm_dataById s) (il_instanceId l0) = Some a'" "sd_InstanceId d' = il_instanceId l0 \<or> b \<and> sd_InstanceId d' = 0"
        by (auto simp: lock_link_def)
      with free have "a' \<noteq> a" by auto
      moreover from new q have "il_instanceId l0 \<noteq> i" by blast
      ultimately have "lm_heap s1 a' = Some d'" "map_of (lm_dataById s1) (il_instanceId l0) = Some a'"
        using l0 True by (simp_all add: s1_def update_conv')
      with bq l0 show ?thesis by (simp add: lock_link_def)
    next
      case False
      with linked_lock [OF L q] show ?thesis by (simp add: lock_link_def)
    qed
    have by_id: "by_id_ok (lm_fresh s1) (lm_dataById s1)"
    proof -
      have old: "x < a \<and> (\<forall>j'. map_of (lm_dataById s) j' = Some x \<longrightarrow> j' = j)" if "map_of (lm_dataById s) j = Some x" for j x
        using L that unfolding linked_def by_id_ok_def a_def by blast
      have look: "map_of (lm_dataById s1) j = (if j = i then Some a else map_of (lm_dataById s) j)" for j
        using True by (simp add: s1_def update_conv')
      have "x < a + 1 \<and> (\<forall>j'. map_of (lm_dataById s1) j' = Some x \<longrightarrow> j' = j)"
        if "map_of (lm_dataById s1) j = Some x" for j x
      proof (cases "j = i")
        case True
        with that have x: "x = a" unfolding look by simp
        have "j' = j" if "map_of (lm_dataById s1) j' = Some a" for j'
          using that old [of j' a] True unfolding look by (cases "j' = i") auto
        with x show ?thesis by simp
      next
        case False
        with that have "map_of (lm_dataById s) j = Some x" unfolding look by simp
        from old [OF this] have x: "x < a" "\<And>j'. map_of (lm_dataById s) j' = Some x \<Longrightarrow> j' = j" by blast+
        have "j' = j" if "map_of (lm_dataById s1) j' = Some x" for j'
          using that x unfolding look by (cases "j' = i") auto
        with x(1) show ?thesis by simp
      qed
      then show ?thesis unfolding by_id_ok_def using True by (simp add: s1_def)
    qed
    have held: "held b s1 = held b s" for b by (simp add: held_def at1)
    have live: "b < lm_fresh s1 \<and> (held b s1 \<or> Some a = Some b)" if "lm_heap s1 b \<noteq> None" for b
      using L that True unfolding held linked_def by (auto simp: s1_def a_def split: if_splits)
    have sel: "lm_temporary s1 = lm_temporary s" "lm_locks s1 = lm_locks s" "lm_unloading s1 = lm_unloading s"
      "lm_ids s1 = lm_ids s"
      by (simp_all add: s1_def)
    have "linked es bnd rlm (Some a) s1"
      unfolding linked_def sel at1
    proof (intro conjI)
      show "distinct (map fst (lm_temporary s))" "distinct (map fst (lm_locks s))" "\<not> lm_unloading s" "ids_ok (lm_ids s)"
        using L unfolding linked_def by blast+
    qed (use linked_lock [OF L] link by_id live in blast)+
    with True show ?thesis by simp
  qed (use L in \<open>simp add: s1_def\<close>)
  have fields: "lock_fields es rlm True k l"
    using p m mp i GetNextResetTime_whole [of e m]
    by (simp add: lock_fields_def l_def SharedInstanceLock_new_def InstanceLock_new_def k_def GetKey_map)
  have link: "lock_link (bnd (snd k)) (lm_heap s1) (lm_dataById s1) True l"
    by (simp add: lock_link_def k_def B l_def s1_def SharedInstanceLock_new_def InstanceLock_new_def update_conv' shared_lock_data0_def)
  have pend: "il_shared l = Some b" if "(if IsInstanceIdBound m then Some a else None) = Some b" for b
    using that by (simp add: l_def SharedInstanceLock_new_def split: if_splits)
  have t0: "id_taken (il_instanceId l) (lm_ids s1)" using i li by (simp add: s1_def)
  have R: "linked es bnd rlm None s'" "shrunk (put_lock True k l s1) s'"
    unfolding s'_def by (rule linked_reset [OF L1 _ fields link t0], erule pend)+
  have at: "lock_at b s' q = (if b \<and> q = k then Some l else lock_at b s q)" for b q
    unfolding shrunk_lock_at [OF R(2)] lock_at_put at1 by simp
  have V: "evolves k s1 s'" by (rule evolves_reset [OF R(2)])
  have tab: "fold exec_stmt [] (lm_tables s1) = lm_tables s" by (simp add: s1_def)
  have M1: "mirrored es bnd rlm (fold exec_stmt [] (lm_tables s1)) s1"
    unfolding mirrored_def at1 tab
  proof (intro conjI allI)
    fix b d
    show "lm_heap s1 b = Some d \<and> sd_InstanceId d \<noteq> 0 \<longrightarrow>
        (\<exists>r. inst_at (lm_tables s) (sd_InstanceId d) = Some r \<and> inst_ok d r)"
    proof
      assume b: "lm_heap s1 b = Some d \<and> sd_InstanceId d \<noteq> 0"
      then have "lm_heap s b = Some d" by (auto simp: s1_def shared_lock_data0_def split: if_splits)
      with b M show "\<exists>r. inst_at (lm_tables s) (sd_InstanceId d) = Some r \<and> inst_ok d r"
        unfolding mirrored_def by blast
    qed
  qed (use M in \<open>unfold mirrored_def, blast\<close>)+
  have none: "\<forall>r. InsInstance r \<in> set [] \<longrightarrow> (\<exists>a d. lm_heap s' a = Some d \<and> sd_InstanceId d = in_instanceId r)" by simp
  have t: "lm_tables s' = fold exec_stmt [] (lm_tables s')" by simp
  note MV = mirrored_evolves [OF M1 V none t]
  have rows: "rel_option (row_ok es bnd) (row_at (lm_tables s') (c, q)) (lock_at False s' (CreatePlayer rlm 0 c, q))" for c q
  proof -
    have "lock_at False s' (CreatePlayer rlm 0 c, q) = lock_at False s (CreatePlayer rlm 0 c, q)" unfolding at by simp
    moreover have "row_at (lm_tables s') = row_at (lm_tables s)" using MV(5) by (simp add: s1_def)
    ultimately show ?thesis using M unfolding mirrored_def by metis
  qed
  have "mirrored es bnd rlm (lm_tables s') s'" unfolding mirrored_def using MV(1,2,4) rows by blast
  with R(1) have "locks_ok es bnd rlm s'" by (simp add: locks_ok_def)
  moreover have "lm_ids s' = lm_ids s" using V by (simp add: evolves_def s1_def)
  moreover have "lock_at True s' k = Some l" "\<forall>b q. q \<noteq> k \<or> \<not> b \<longrightarrow> lock_at b s' q = lock_at b s q" unfolding at by auto
  ultimately show ?thesis using eq li unfolding k_def by blast
qed
end
