(* ===== verification/InstanceSafety.thy ===== *)
theory InstanceSafety
  imports InstanceLocks
begin

text \<open>
  Entering instances, restarts of the server and runs of any operations over InstanceLocks: no assertion
  of the code fails as long as players are only saved with a map they may be locked to, and a restart
  brings every permanent lock back.
\<close>

section \<open>Entering an instance\<close>

definition player_guid :: "u32 \<Rightarrow> ObjectGuid \<Rightarrow> bool" where
  "player_guid rlm p = (p = CreatePlayer rlm 0 (GetCounter p))"

lemma locks_ok_put_same:
  assumes ok: "locks_ok es bnd rlm s" and at: "lock_at b s k = Some l"
    and l': "lock_fields es rlm b k l'" "il_shared l' = il_shared l"
      "lock_link (bnd (snd k)) (lm_heap s) (lm_dataById s) b l'" "id_taken (il_instanceId l') (lm_ids s)"
    and r: "\<And>r. \<not> b \<Longrightarrow> row_ok es bnd r l \<Longrightarrow> cl_key r = (GetCounter (fst k), snd k) \<Longrightarrow> row_ok es bnd r l'"
  shows "locks_ok es bnd rlm (put_lock b k l' s)"
proof -
  from ok have L: "linked es bnd rlm None s" and M: "mirrored es bnd rlm (lm_tables s) s" by (simp_all add: locks_ok_def)
  have "linked es bnd rlm None (put_lock b k l' s)"
    using l' by (intro linked_put_same [OF L at]) simp_all
  moreover have "mirrored es bnd rlm (lm_tables s) (put_lock b k l' s)"
  proof (cases b)
    case True
    then have at': "lock_at False (put_lock b k l' s) q = lock_at False s q" for q by (simp add: lock_at_put del: lock_at_simps)
    show ?thesis using M unfolding mirrored_def put_lock_same at' by blast
  next
    case False
    have "fst k = CreatePlayer rlm 0 (GetCounter (fst k))" using l'(1) by (simp add: lock_fields_def)
    moreover have "row_at (lm_tables s) = (row_at (lm_tables s))((GetCounter (fst k), snd k) :=
        map_option id (row_at (lm_tables s) (GetCounter (fst k), snd k)))"
      by (simp add: option.map_id)
    moreover have "distinct (map cl_key (lt_locks (lm_tables s)))" using M unfolding mirrored_def by blast
    ultimately have "mirrored es bnd rlm (lm_tables s) (put_lock False k l' s)"
      using at r False by (intro mirrored_put [OF M, where g = id and l = l]) auto
    with False show ?thesis by simp
  qed
  ultimately show ?thesis by (simp add: locks_ok_def)
qed

lemma in_use_ok:
  assumes ok: "locks_ok es bnd rlm s"
  shows "locks_ok es bnd rlm (map_SetInUse b k x s)"
proof (cases "lock_at b s k")
  case None
  with ok show ?thesis by (simp add: map_SetInUse_def set_lock_absent)
next
  case (Some l)
  from ok have "linked es bnd rlm None s" by (simp add: locks_ok_def)
  note F = linked_lock [OF this Some]
  have eq: "map_SetInUse b k x s = put_lock b k (l\<lparr>il_isInUse := x\<rparr>) s"
    by (simp add: map_SetInUse_def set_lock_put [OF Some])
  show ?thesis
    unfolding eq using F by (intro locks_ok_put_same [OF ok Some]) (auto simp: lock_fields_def lock_link_def row_ok_def)
qed

lemma free_ok:
  assumes ok: "locks_ok es bnd rlm s" and i: "i \<noteq> 0" "unat i < length (ii_free (lm_ids s))"
    and new: "\<And>b k l. lock_at b s k = Some l \<Longrightarrow> il_instanceId l \<noteq> i"
  shows "\<exists>ids. FreeInstanceId i (lm_ids s) = Some ids \<and> locks_ok es bnd rlm (s\<lparr>lm_ids := ids\<rparr>)"
proof -
  from ok have L: "linked es bnd rlm None s" by (simp add: locks_ok_def)
  define f where "f = (ii_free (lm_ids s))[unat i := True]"
  define ids where "ids = (lm_ids s)\<lparr>ii_next := min i (ii_next (lm_ids s)), ii_free := f\<rparr>"
  have eq: "FreeInstanceId i (lm_ids s) = Some ids"
    using i by (simp add: FreeInstanceId_def ids_set_def ids_def f_def)
  from L have old: "ids_ok (lm_ids s)" unfolding linked_def by blast
  have "unat i \<noteq> 0" using i(1) by (simp add: unat_eq_zero)
  with old i(2) have "ids_ok ids"
    by (auto simp: ids_ok_def ids_def f_def nth_list_update min_def word_le_nat_alt)
  moreover have "id_taken (il_instanceId l) ids" if "lock_at b s k = Some l" for b k l
  proof -
    from new [OF that] have "unat (il_instanceId l) \<noteq> unat i" by (simp add: word_unat_eq_iff)
    with linked_lock [OF L that] show ?thesis by (auto simp: id_taken_def ids_def f_def)
  qed
  ultimately have "linked es bnd rlm None (s\<lparr>lm_ids := ids\<rparr>)" by (intro linked_ids [OF L])
  with ok eq show ?thesis by (simp add: locks_ok_def)
qed

lemma generate_ok:
  assumes ok: "locks_ok es bnd rlm s" and room: "length (ii_free (lm_ids s)) < 2 ^ 32 - 1"
  shows "\<exists>i ids. GenerateInstanceId (lm_ids s) = Some (i, False, ids) \<and> locks_ok es bnd rlm (s\<lparr>lm_ids := ids\<rparr>)
    \<and> i \<noteq> 0 \<and> id_taken i ids \<and> (\<forall>b k l. lock_at b s k = Some l \<longrightarrow> il_instanceId l \<noteq> i)
    \<and> length (ii_free ids) \<le> length (ii_free (lm_ids s)) + 1"
proof -
  from ok have L: "linked es bnd rlm None s" by (simp add: locks_ok_def)
  then have io: "ids_ok (lm_ids s)" unfolding linked_def by blast
  from Generate_ok [OF io room] obtain ids where
    G: "GenerateInstanceId (lm_ids s) = Some (ii_next (lm_ids s), False, ids)" "ids_ok ids" "id_taken (ii_next (lm_ids s)) ids"
      "\<forall>j. id_taken j (lm_ids s) \<longrightarrow> id_taken j ids" "\<not> id_taken (ii_next (lm_ids s)) (lm_ids s)" "ii_next (lm_ids s) \<noteq> 0"
      "length (ii_free ids) \<le> length (ii_free (lm_ids s)) + 1"
    by blast
  have taken: "id_taken (il_instanceId l) (lm_ids s)" if "lock_at b s k = Some l" for b k l
    using linked_lock [OF L that] by blast
  have "linked es bnd rlm None (s\<lparr>lm_ids := ids\<rparr>)" using taken G(4) by (intro linked_ids [OF L G(2)]) blast
  with ok have "locks_ok es bnd rlm (s\<lparr>lm_ids := ids\<rparr>)" by (simp add: locks_ok_def)
  moreover have "il_instanceId l \<noteq> ii_next (lm_ids s)" if "lock_at b s k = Some l" for b k l
    using taken [OF that] G(5) by metis
  ultimately show ?thesis using G by blast
qed

text \<open>The lock that a map is created with and the id it gets.\<close>

definition has_lock :: "ObjectGuid \<times> lock_key \<Rightarrow> u32 \<Rightarrow> lock_mgr \<Rightarrow> bool" where
  "has_lock k i s = (\<exists>b l. lock_at b s k = Some l \<and> il_instanceId l = i)"

lemma enter_found_ok:
  assumes ok: "locks_ok es bnd rlm s" and E: "entries_ok es bnd" and m: "es mp d = Some m"
    and at: "lock_at b s (p, GetKey m) = Some l" and room: "length (ii_free (lm_ids s)) < 2 ^ 32 - 1"
    and x: "x = (if \<not> IsInstanceIdBound m \<and> elsewhere (il_instanceId l) then
        map_option (\<lambda>(i, _, ids). (i, d', set_lock b (p, GetKey m) (\<lambda>l. l\<lparr>il_instanceId := i\<rparr>) (s\<lparr>lm_ids := ids\<rparr>)))
          (GenerateInstanceId (lm_ids s))
      else Some (il_instanceId l, d', s))"
  shows "\<exists>i d' s'. x = Some (i, d', s') \<and> locks_ok es bnd rlm s' \<and> has_lock (p, GetKey m) i s'
    \<and> (\<forall>b q. q \<noteq> (p, GetKey m) \<longrightarrow> lock_at b s' q = lock_at b s q)"
proof (cases "\<not> IsInstanceIdBound m \<and> elsewhere (il_instanceId l)")
  case False
  then have "x = Some (il_instanceId l, d', s)" unfolding x by (rule if_not_P)
  with ok at show ?thesis unfolding has_lock_def by blast
next
  case True
  from generate_ok [OF ok room] obtain i ids where G: "GenerateInstanceId (lm_ids s) = Some (i, False, ids)"
      "locks_ok es bnd rlm (s\<lparr>lm_ids := ids\<rparr>)" "i \<noteq> 0" "id_taken i ids"
    by blast
  define s1 where "s1 = s\<lparr>lm_ids := ids\<rparr>"
  define k where "k = (p, GetKey m)"
  define l' where "l' = l\<lparr>il_instanceId := i\<rparr>"
  have at1: "lock_at b s1 k = Some l" using at by (simp add: s1_def k_def)
  from G(2) have L1: "linked es bnd rlm None s1" by (simp add: locks_ok_def s1_def)
  note F = linked_lock [OF L1 at1]
  from E m True have nb: "\<not> bnd (snd k)" unfolding entries_ok_def k_def by auto
  have "locks_ok es bnd rlm (put_lock b k l' s1)"
  proof (rule locks_ok_put_same [OF G(2) [folded s1_def] at1])
    show "lock_fields es rlm b k l'" using F G(3) by (auto simp: lock_fields_def l'_def)
    show "lock_link (bnd (snd k)) (lm_heap s1) (lm_dataById s1) b l'" using F nb by (simp add: lock_link_def l'_def)
    show "id_taken (il_instanceId l') (lm_ids s1)" using G(4) by (simp add: l'_def s1_def)
    fix r assume "row_ok es bnd r l" and "cl_key r = (GetCounter (fst k), snd k)"
    with nb show "row_ok es bnd r l'" by (auto simp: row_ok_def l'_def cl_key_def)
  qed (simp add: l'_def)
  moreover have "x = Some (i, d', put_lock b k l' s1)"
    using True G(1) set_lock_put [OF at1, of "\<lambda>l. l\<lparr>il_instanceId := i\<rparr>"]
    by (simp add: x s1_def [symmetric] k_def [symmetric] l'_def)
  moreover have "has_lock k i (put_lock b k l' s1)"
    unfolding has_lock_def by (intro exI [of _ b] exI [of _ l']) (simp add: lock_at_put l'_def)
  moreover have "lock_at b' (put_lock b k l' s1) q = lock_at b' s q" if "q \<noteq> k" for b' q
    using that by (simp add: lock_at_put s1_def del: lock_at_simps)
  ultimately show ?thesis unfolding k_def by blast
qed

lemma enter_ok:
  assumes ok: "locks_ok es bnd rlm s" and E: "entries_ok es bnd" and m: "es mp d = Some m" and sched: "HasResetSchedule m"
    and p: "player_guid rlm p" and room: "length (ii_free (lm_ids s)) < 2 ^ 32 - 2"
  shows "\<exists>i d' s'. enter_instance e p m diff recent elsewhere s = Some (i, d', s') \<and> locks_ok es bnd rlm s'
    \<and> has_lock (p, GetKey m) i s' \<and> (\<forall>b q. q \<noteq> (p, GetKey m) \<longrightarrow> lock_at b s' q = lock_at b s q)"
proof (cases "FindActiveInstanceLock e p m s")
  case (Some y)
  then obtain b l where y: "FindActiveInstanceLock e p m s = Some (b, l)" by (cases y) auto
  have at: "lock_at b s (p, GetKey m) = Some l"
  proof (cases "FindActiveInstanceLock_with e p m True True s")
    case None
    with y show ?thesis by (auto simp: FindActive_cases [OF sched])
  next
    case (Some z)
    with y have "FindActiveInstanceLock_with e p m True True s = Some (b, l)" by (simp add: FindActive_cases [OF sched])
    from FindActive_permanent [OF this] show ?thesis by simp
  qed
  from room have room': "length (ii_free (lm_ids s)) < 2 ^ 32 - 1" by simp
  define d' where "d' = (if \<not> IsFlexLocking m then il_difficultyId l else diff)"
  have eq: "enter_instance e p m diff recent elsewhere s =
      (if \<not> IsInstanceIdBound m \<and> elsewhere (il_instanceId l) then
        map_option (\<lambda>(i, _, ids). (i, d', set_lock b (p, GetKey m) (\<lambda>l. l\<lparr>il_instanceId := i\<rparr>) (s\<lparr>lm_ids := ids\<rparr>)))
          (GenerateInstanceId (lm_ids s))
      else Some (il_instanceId l, d', s))"
    by (simp add: enter_instance_def y d'_def)
  show ?thesis by (rule enter_found_ok [where elsewhere = elsewhere, OF ok E m at room' eq])
next
  case None
  from room have room': "length (ii_free (lm_ids s)) < 2 ^ 32 - 1" by simp
  from generate_ok [OF ok room'] obtain i ids where G: "GenerateInstanceId (lm_ids s) = Some (i, False, ids)"
      "locks_ok es bnd rlm (s\<lparr>lm_ids := ids\<rparr>)" "i \<noteq> 0" "id_taken i ids"
      "\<forall>b k l. lock_at b s k = Some l \<longrightarrow> il_instanceId l \<noteq> i" "length (ii_free ids) \<le> length (ii_free (lm_ids s)) + 1"
    by blast
  define s1 where "s1 = s\<lparr>lm_ids := ids\<rparr>"
  have new: "\<forall>b k l. lock_at b s1 k = Some l \<longrightarrow> il_instanceId l \<noteq> i" using G(5) unfolding s1_def lock_at_ids .
  have taken: "id_taken i (lm_ids s1)" using G(4) by (simp add: s1_def)
  from create_ok [where e = e, OF G(2) [folded s1_def] E m sched p [unfolded player_guid_def] G(3) taken new]
  obtain l s2 where C: "CreateInstanceLockForNewInstance e p m i s1 = (Some l, s2)" "locks_ok es bnd rlm s2"
      "il_instanceId l = i" "lock_at True s2 (p, GetKey m) = Some l"
      "\<forall>b q. q \<noteq> (p, GetKey m) \<or> \<not> b \<longrightarrow> lock_at b s2 q = lock_at b s1 q" "lm_ids s2 = lm_ids s1"
    by blast
  have room2: "length (ii_free (lm_ids s2)) < 2 ^ 32 - 1" using G(6) room C(6) by (simp add: s1_def)
  have eq: "enter_instance e p m diff recent elsewhere s =
      (if \<not> IsInstanceIdBound m \<and> elsewhere (il_instanceId l) then
        map_option (\<lambda>(i, _, ids). (i, diff, set_lock True (p, GetKey m) (\<lambda>l. l\<lparr>il_instanceId := i\<rparr>) (s2\<lparr>lm_ids := ids\<rparr>)))
          (GenerateInstanceId (lm_ids s2))
      else Some (il_instanceId l, diff, s2))"
    using sched C(1,3) G(1) by (simp add: enter_instance_def None s1_def)
  from enter_found_ok [where elsewhere = elsewhere, OF C(2) E m C(4) room2 eq]
  obtain i' d' s' where "enter_instance e p m diff recent elsewhere s = Some (i', d', s')" "locks_ok es bnd rlm s'"
      "has_lock (p, GetKey m) i' s'" "\<forall>b q. q \<noteq> (p, GetKey m) \<longrightarrow> lock_at b s' q = lock_at b s2 q"
    by blast
  with C(5) show ?thesis unfolding s1_def by (metis lock_at_ids)
qed

section \<open>Restarting the server\<close>

definition shared_of_row :: "instance_row \<Rightarrow> shared_lock_data" where
  "shared_of_row r =
     shared_lock_data0\<lparr>ld_Data := in_data r, ld_CompletedEncountersMask := in_mask r, sd_InstanceId := in_instanceId r\<rparr>"

text \<open>The local map of \<open>Load\<close> and the heap: exactly the rows read so far.\<close>

definition rows_loaded :: "instance_row list \<Rightarrow> (u32 \<times> nat) list \<Rightarrow> lock_mgr \<Rightarrow> bool" where
  "rows_loaded rs local s =
     (distinct (map fst local) \<and> by_id_ok (lm_fresh s) local
      \<and> (\<forall>i. map_of local i = None \<longleftrightarrow> i \<notin> in_instanceId ` set rs)
      \<and> (\<forall>r \<in> set rs. \<forall>a. map_of local (in_instanceId r) = Some a \<longrightarrow> lm_heap s a = Some (shared_of_row r))
      \<and> (\<forall>a. lm_heap s a \<noteq> None \<longrightarrow> a < lm_fresh s \<and> (\<exists>i. map_of local i = Some a)))"

lemma rows_loaded_snoc:
  assumes R: "rows_loaded rs local s" and new: "in_instanceId r \<notin> in_instanceId ` set rs"
  shows "rows_loaded (rs @ [r]) (AList.update (in_instanceId r) (lm_fresh s) local)
    (s\<lparr>lm_heap := (lm_heap s)(lm_fresh s \<mapsto> shared_of_row r), lm_fresh := lm_fresh s + 1\<rparr>)"
proof -
  define a where "a = lm_fresh s"
  define i where "i = in_instanceId r"
  define local' where "local' = AList.update i a local"
  define s' where "s' = s\<lparr>lm_heap := (lm_heap s)(a \<mapsto> shared_of_row r), lm_fresh := a + 1\<rparr>"
  have look: "map_of local' j = (if j = i then Some a else map_of local j)" for j
    by (simp add: local'_def update_conv')
  from R have old: "b < a" "\<And>j'. map_of local j' = Some b \<Longrightarrow> j' = j" if "map_of local j = Some b" for j b
    using that unfolding rows_loaded_def by_id_ok_def a_def by blast+
  have by_id: "by_id_ok (a + 1) local'"
    unfolding by_id_ok_def
  proof (intro allI impI)
    fix j b assume jb: "map_of local' j = Some b"
    show "b < a + 1 \<and> (\<forall>j'. map_of local' j' = Some b \<longrightarrow> j' = j)"
    proof (cases "j = i")
      case True
      with jb have b: "b = a" unfolding look by simp
      have "j' = i" if "map_of local' j' = Some a" for j'
        using that old(1) [of j' a] unfolding look by (cases "j' = i") auto
      with b True show ?thesis by simp
    next
      case False
      with jb have "map_of local j = Some b" unfolding look by simp
      from old [OF this] have x: "b < a" "\<And>j'. map_of local j' = Some b \<Longrightarrow> j' = j" by blast+
      have "j' = j" if "map_of local' j' = Some b" for j'
        using that x unfolding look by (cases "j' = i") auto
      with x(1) show ?thesis by simp
    qed
  qed
  have dom: "map_of local' j = None \<longleftrightarrow> j \<notin> in_instanceId ` set (rs @ [r])" for j
    using R unfolding rows_loaded_def look i_def by auto
  have heap: "lm_heap s' b = Some (shared_of_row r')" if r': "r' \<in> set (rs @ [r])" and b: "map_of local' (in_instanceId r') = Some b" for r' b
  proof (cases "r' = r")
    case True
    with b show ?thesis unfolding look by (simp add: i_def s'_def)
  next
    case False
    with r' have r1: "r' \<in> set rs" by simp
    then have "in_instanceId r' \<in> in_instanceId ` set rs" by (rule imageI)
    with r1 new have r'': "r' \<in> set rs" "in_instanceId r' \<noteq> i" unfolding i_def by metis+
    with b have b': "map_of local (in_instanceId r') = Some b" unfolding look by simp
    with R r''(1) have "lm_heap s b = Some (shared_of_row r')" unfolding rows_loaded_def by blast
    with old(1) [OF b'] show ?thesis by (simp add: s'_def)
  qed
  have live: "b < a + 1 \<and> (\<exists>j. map_of local' j = Some b)" if "lm_heap s' b \<noteq> None" for b
  proof (cases "b = a")
    case True
    have "map_of local' i = Some a" unfolding look by simp
    with True show ?thesis by auto
  next
    case False
    with that have "lm_heap s b \<noteq> None" by (simp add: s'_def)
    with R obtain j where j: "b < a" "map_of local j = Some b" unfolding rows_loaded_def a_def by blast
    have "map_of local i = None" using R new unfolding rows_loaded_def i_def by blast
    with j(2) have "j \<noteq> i" by auto
    with j have "map_of local' j = Some b" unfolding look by simp
    with j(1) show ?thesis by auto
  qed
  have dist: "distinct (map fst local')" using R by (simp add: rows_loaded_def local'_def distinct_update)
  have fresh: "lm_fresh s' = a + 1" by (simp add: s'_def)
  have "rows_loaded (rs @ [r]) local' s'"
    unfolding rows_loaded_def fresh
  proof (intro conjI)
    show "distinct (map fst local')" "by_id_ok (a + 1) local'" by (rule dist by_id)+
    show "\<forall>i. map_of local' i = None \<longleftrightarrow> i \<notin> in_instanceId ` set (rs @ [r])" using dom by blast
    show "\<forall>r' \<in> set (rs @ [r]). \<forall>b. map_of local' (in_instanceId r') = Some b \<longrightarrow> lm_heap s' b = Some (shared_of_row r')"
      using heap by blast
    show "\<forall>b. lm_heap s' b \<noteq> None \<longrightarrow> b < a + 1 \<and> (\<exists>j. map_of local' j = Some b)" using live by blast
  qed
  then show ?thesis by (simp add: local'_def s'_def a_def i_def)
qed

lemma load_instances_ok:
  assumes "rows_loaded rs local s" and "distinct (map in_instanceId (rs @ rs'))"
  shows "\<exists>local' h n. load_instances rs' local s = (local', s\<lparr>lm_heap := h, lm_fresh := n\<rparr>)
    \<and> rows_loaded (rs @ rs') local' (s\<lparr>lm_heap := h, lm_fresh := n\<rparr>)"
  using assms
proof (induction rs' arbitrary: rs local s)
  case Nil
  then show ?case by (intro exI [of _ local] exI [of _ "lm_heap s"] exI [of _ "lm_fresh s"]) simp
next
  case (Cons r rs')
  from Cons.prems(2) have new: "in_instanceId r \<notin> in_instanceId ` set rs" by auto
  with Cons.prems(1) have none: "map_of local (in_instanceId r) = None" unfolding rows_loaded_def by blast
  define s1 where "s1 = s\<lparr>lm_heap := (lm_heap s)(lm_fresh s \<mapsto> shared_of_row r), lm_fresh := lm_fresh s + 1\<rparr>"
  define local1 where "local1 = AList.update (in_instanceId r) (lm_fresh s) local"
  have step: "load_instances (r # rs') local s = load_instances rs' local1 s1"
    by (simp add: Let_def none s1_def local1_def shared_of_row_def)
  have "distinct (map in_instanceId ((rs @ [r]) @ rs'))" using Cons.prems(2) by simp
  from Cons.IH [OF rows_loaded_snoc [OF Cons.prems(1) new, folded s1_def local1_def] this]
  obtain local' h n where "load_instances rs' local1 s1 = (local', s1\<lparr>lm_heap := h, lm_fresh := n\<rparr>)"
      "rows_loaded ((rs @ [r]) @ rs') local' (s1\<lparr>lm_heap := h, lm_fresh := n\<rparr>)"
    by blast
  then show ?case unfolding step by (intro exI [of _ local'] exI [of _ h] exI [of _ n]) (simp add: s1_def)
qed

text \<open>The ids while the rows are read in ascending order: the next id is the least free one.\<close>

definition registered :: "nat \<Rightarrow> char_lock_row list \<Rightarrow> instance_ids \<Rightarrow> bool" where
  "registered n ds ids =
     (length (ii_free ids) = n \<and> n \<le> 2 ^ 32
      \<and> (\<forall>j < n. ii_free ids ! j \<longleftrightarrow> j \<noteq> 0 \<and> (\<forall>r \<in> set ds. unat (cl_instanceId r) \<noteq> j))
      \<and> unat (ii_next ids) < n \<and> ii_free ids ! unat (ii_next ids) \<and> (\<forall>j < unat (ii_next ids). \<not> ii_free ids ! j))"

lemma register_ok:
  assumes R: "registered n ds ids" and i: "i = cl_instanceId r" "unat i + 1 < n"
    and le: "\<forall>r' \<in> set ds. cl_instanceId r' \<le> i"
  shows "\<exists>ids'. RegisterInstanceId i ids = Some ids' \<and> registered n (ds @ [r]) ids'"
proof -
  define x where "x = unat i"
  define f where "f = (ii_free ids)[x := False]"
  have n: "length (ii_free ids) = n" "n \<le> 2 ^ 32" "x < n" using R i by (simp_all add: registered_def x_def)
  have flags: "f ! j \<longleftrightarrow> j \<noteq> 0 \<and> (\<forall>r' \<in> set (ds @ [r]). unat (cl_instanceId r') \<noteq> j)" if "j < n" for j
  proof (cases "j = x")
    case True
    with n show ?thesis by (simp add: f_def x_def i(1))
  next
    case False
    then have "f ! j = ii_free ids ! j" by (simp add: f_def)
    moreover have "ii_free ids ! j \<longleftrightarrow> j \<noteq> 0 \<and> (\<forall>r' \<in> set ds. unat (cl_instanceId r') \<noteq> j)"
      using R that unfolding registered_def by blast
    ultimately show ?thesis using False by (auto simp: x_def i(1))
  qed
  have nx: "unat (ii_next ids) < n" "ii_free ids ! unat (ii_next ids)" "\<And>j. j < unat (ii_next ids) \<Longrightarrow> \<not> ii_free ids ! j"
    using R unfolding registered_def by blast+
  have low: "\<not> f ! j" if "j < unat (ii_next ids)" for j
    using nx(1) nx(3) [OF that] that n by (cases "j = x") (simp_all add: f_def)
  have set: "ids_set (unat i) False ids = Some (ids\<lparr>ii_free := f\<rparr>)"
    using n by (simp add: ids_set_def f_def x_def)
  show ?thesis
  proof (cases "ii_next ids = i")
    case True
    have u: "unat (i + 1) = x + 1"
      using i(2) n(2) by (simp add: x_def unat_word_ariths(1))
    define ids' where "ids' = ids\<lparr>ii_free := f, ii_next := i + 1\<rparr>"
    have "RegisterInstanceId i ids = Some ids'" using set True by (simp add: RegisterInstanceId_def ids'_def)
    moreover have "f ! (x + 1)"
    proof -
      have "unat (cl_instanceId r') \<noteq> x + 1" if "r' \<in> set (ds @ [r])" for r'
        using that le i(1) by (auto simp: x_def word_le_nat_alt)
      with flags [of "x + 1"] i(2) show ?thesis by (auto simp: x_def)
    qed
    moreover have "\<not> f ! j" if "j < x + 1" for j
    proof (cases "j = x")
      case False
      with that True show ?thesis by (intro low) (simp add: x_def)
    qed (use n in \<open>simp add: f_def\<close>)
    ultimately show ?thesis
      using n flags i(2) u by (auto simp: registered_def ids'_def f_def [symmetric] x_def f_def)
  next
    case False
    define ids' where "ids' = ids\<lparr>ii_free := f\<rparr>"
    have reg: "RegisterInstanceId i ids = Some ids'" using set False by (simp add: RegisterInstanceId_def ids'_def)
    have "unat (ii_next ids) \<noteq> x" using False by (simp add: x_def word_unat_eq_iff)
    then have "f ! unat (ii_next ids)" using nx(2) by (simp add: f_def)
    moreover have "length f = n" using n by (simp add: f_def)
    ultimately have "registered n (ds @ [r]) ids'"
      unfolding registered_def using n(2) flags low nx(1) by (simp add: ids'_def)
    with reg show ?thesis by blast
  qed
qed

lemma foldl_max_ge: "a \<le> foldl max a xs" "x \<in> set xs \<Longrightarrow> x \<le> foldl max a xs" for x :: nat
proof (induction xs arbitrary: a)
  case (Cons y ys)
  { case 1 show ?case using Cons(1) [of "max a y"] by simp
  next
    case 2 then show ?case using Cons(1) [of "max a y"] Cons(2) [of "max a y"] by auto }
qed simp_all

lemma max_instance_id_ge: "r \<in> set (lt_locks t) \<Longrightarrow> unat (cl_instanceId r) \<le> max_instance_id t"
  unfolding max_instance_id_def by (intro foldl_max_ge(2)) auto

section \<open>Reading the locks\<close>

definition lock_of_row :: "(u32 \<times> nat) list \<Rightarrow> (lock_key \<Rightarrow> bool) \<Rightarrow> char_lock_row \<Rightarrow> instance_lock" where
  "lock_of_row local bnd r =
     (let l = (if bnd (cl_mapId r, cl_lockId r)
               then SharedInstanceLock_new (cl_mapId r) (cl_difficulty r) (from_time_t (sint (cl_expiry r))) (cl_instanceId r)
                      (the (map_of local (cl_instanceId r)))
               else InstanceLock_new (cl_mapId r) (cl_difficulty r) (from_time_t (sint (cl_expiry r))) (cl_instanceId r))
      in l\<lparr>il_data := (il_data l)\<lparr>ld_Data := cl_data r, ld_CompletedEncountersMask := cl_mask r\<rparr>, il_extended := cl_extended r\<rparr>)"

definition row_key :: "u32 \<Rightarrow> char_lock_row \<Rightarrow> ObjectGuid \<times> lock_key" where
  "row_key rlm r = (CreatePlayer rlm 0 (cl_guid r), (cl_mapId r, cl_lockId r))"

definition row_good ::
    "(u32 \<Rightarrow> u8 \<Rightarrow> map_entries option) \<Rightarrow> (lock_key \<Rightarrow> bool) \<Rightarrow> u32 \<Rightarrow> (u32 \<times> nat) list \<Rightarrow> char_lock_row \<Rightarrow> bool" where
  "row_good es bnd rlm local r =
     ((\<exists>m. es (cl_mapId r) (cl_difficulty r) = Some m \<and> GetKey m = (cl_mapId r, cl_lockId r)) \<and> cl_instanceId r \<noteq> 0
      \<and> (bnd (cl_mapId r, cl_lockId r) \<longrightarrow> map_of local (cl_instanceId r) \<noteq> None)
      \<and> player_guid rlm (CreatePlayer rlm 0 (cl_guid r)))"

definition loading ::
    "(lock_key \<Rightarrow> bool) \<Rightarrow> u32 \<Rightarrow> (u32 \<times> nat) list \<Rightarrow> nat \<Rightarrow> lock_mgr \<Rightarrow> char_lock_row list \<Rightarrow> lock_mgr \<Rightarrow> bool" where
  "loading bnd rlm local n s0 ds s =
     ((\<exists>byId ids. s = s0\<lparr>lm_locks := map (\<lambda>r. (row_key rlm r, lock_of_row local bnd r)) ds, lm_dataById := byId, lm_ids := ids\<rparr>)
      \<and> (\<forall>i a. map_of (lm_dataById s) i = Some a \<longrightarrow>
           map_of local i = Some a \<and> (\<exists>r \<in> set ds. bnd (cl_mapId r, cl_lockId r) \<and> cl_instanceId r = i))
      \<and> (\<forall>r \<in> set ds. bnd (cl_mapId r, cl_lockId r) \<longrightarrow> map_of (lm_dataById s) (cl_instanceId r) = map_of local (cl_instanceId r))
      \<and> registered n ds (lm_ids s))"

lemma row_key_inj: "row_key rlm r = row_key rlm r' \<longleftrightarrow> cl_key r = cl_key r'"
  by (auto simp: row_key_def cl_key_def CreatePlayer_inj)

lemma update_new: "k \<notin> fst ` set xs \<Longrightarrow> AList.update k v xs = xs @ [(k, v)]"
  by (induction xs) auto

lemma load_locks_ok:
  assumes es: "le_entries e = es" and E: "entries_ok es bnd"
    and "loading bnd rlm local n s0 ds s" and "\<forall>r \<in> set rs. row_good es bnd rlm local r \<and> unat (cl_instanceId r) + 1 < n"
    and "sorted (map cl_instanceId (ds @ rs))" and "distinct (map cl_key (ds @ rs))"
  shows "\<exists>s'. load_locks e rlm local rs s = Some s' \<and> loading bnd rlm local n s0 (ds @ rs) s'"
  using assms(3-)
proof (induction rs arbitrary: ds s)
  case (Cons r rs)
  define k where "k = (cl_mapId r, cl_lockId r)"
  define l where "l = lock_of_row local bnd r"
  note D = Cons.prems(1) [unfolded loading_def]
  from Cons.prems(2) have good: "row_good es bnd rlm local r" and small: "unat (cl_instanceId r) + 1 < n" by simp_all
  from good obtain m where m: "es (cl_mapId r) (cl_difficulty r) = Some m" "GetKey m = k" unfolding row_good_def k_def by blast
  from E m have B: "IsInstanceIdBound m = bnd k" unfolding entries_ok_def by blast
  have le: "\<forall>r' \<in> set ds. cl_instanceId r' \<le> cl_instanceId r" using Cons.prems(3) by (simp add: sorted_append)
  from D have reg: "registered n ds (lm_ids s)" by blast
  from register_ok [OF reg refl small le]
  obtain ids where ids: "RegisterInstanceId (cl_instanceId r) (lm_ids s) = Some ids" "registered n (ds @ [r]) ids" by blast
  define byId where "byId = (if bnd k then AList.update (cl_instanceId r) (the (map_of local (cl_instanceId r))) (lm_dataById s)
    else lm_dataById s)"
  define s1 where "s1 = s\<lparr>lm_ids := ids, lm_dataById := byId, lm_locks := AList.update (row_key rlm r) l (lm_locks s)\<rparr>"
  have loc: "\<exists>a. map_of local (cl_instanceId r) = Some a" if "bnd k" using good that unfolding row_good_def k_def by blast
  have step: "load_locks e rlm local (r # rs) s = load_locks e rlm local rs s1"
    using ids(1) m loc
    by (auto simp: es B Let_def s1_def byId_def l_def lock_of_row_def k_def row_key_def)
  have locks: "lm_locks s = map (\<lambda>r. (row_key rlm r, lock_of_row local bnd r)) ds" using D by auto
  have "row_key rlm r \<notin> fst ` set (lm_locks s)"
    using Cons.prems(4) unfolding locks by (auto simp: row_key_inj)
  then have locks1: "lm_locks s1 = map (\<lambda>r. (row_key rlm r, lock_of_row local bnd r)) (ds @ [r])"
    by (simp add: s1_def update_new locks l_def)
  have look: "map_of byId i = (if bnd k \<and> i = cl_instanceId r then map_of local i else map_of (lm_dataById s) i)" for i
    using loc by (auto simp: byId_def update_conv')
  have "loading bnd rlm local n s0 (ds @ [r]) s1"
    unfolding loading_def
  proof (intro conjI)
    from D obtain b' i' where "s = s0\<lparr>lm_locks := map (\<lambda>r. (row_key rlm r, lock_of_row local bnd r)) ds,
        lm_dataById := b', lm_ids := i'\<rparr>" by blast
    then show "\<exists>byId ids. s1 = s0\<lparr>lm_locks := map (\<lambda>r. (row_key rlm r, lock_of_row local bnd r)) (ds @ [r]),
        lm_dataById := byId, lm_ids := ids\<rparr>"
      using locks1 by (intro exI [of _ byId] exI [of _ ids]) (simp add: s1_def)
    have by1: "lm_dataById s1 = byId" by (simp add: s1_def)
    show "\<forall>i a. map_of (lm_dataById s1) i = Some a \<longrightarrow> map_of local i = Some a
        \<and> (\<exists>r \<in> set (ds @ [r]). bnd (cl_mapId r, cl_lockId r) \<and> cl_instanceId r = i)"
    proof (intro allI impI)
      fix i a assume ia: "map_of (lm_dataById s1) i = Some a"
      show "map_of local i = Some a \<and> (\<exists>r \<in> set (ds @ [r]). bnd (cl_mapId r, cl_lockId r) \<and> cl_instanceId r = i)"
      proof (cases "bnd k \<and> i = cl_instanceId r")
        case True
        with ia show ?thesis unfolding by1 look by (auto simp: k_def)
      next
        case False
        with ia have "map_of (lm_dataById s) i = Some a" unfolding by1 look by (simp only: if_False)
        with D have "map_of local i = Some a" "\<exists>r \<in> set ds. bnd (cl_mapId r, cl_lockId r) \<and> cl_instanceId r = i" by blast+
        then show ?thesis by auto
      qed
    qed
    show "\<forall>r' \<in> set (ds @ [r]). bnd (cl_mapId r', cl_lockId r')
        \<longrightarrow> map_of (lm_dataById s1) (cl_instanceId r') = map_of local (cl_instanceId r')"
    proof (intro ballI impI)
      fix r' assume r': "r' \<in> set (ds @ [r])" "bnd (cl_mapId r', cl_lockId r')"
      show "map_of (lm_dataById s1) (cl_instanceId r') = map_of local (cl_instanceId r')"
      proof (cases "r' \<in> set ds")
        case True
        with D r'(2) have "map_of (lm_dataById s) (cl_instanceId r') = map_of local (cl_instanceId r')" by blast
        then show ?thesis unfolding by1 look by simp
      next
        case False
        with r' have "r' = r" by simp
        with r'(2) show ?thesis unfolding by1 look by (simp add: k_def)
      qed
    qed
    show "registered n (ds @ [r]) (lm_ids s1)" using ids(2) by (simp add: s1_def)
  qed
  from Cons.IH [OF this] Cons.prems(2-4) show ?case unfolding step by simp
qed simp

section \<open>The state after a restart\<close>

lemma rows_at_iff: "distinct (map f rs) \<Longrightarrow> rows_at f rs q = Some r \<longleftrightarrow> r \<in> set rs \<and> f r = q"
  unfolding rows_at_def by (subst map_of_eq_Some_iff) (auto simp: comp_def)

lemma rows_at_perm:
  assumes "distinct (map f rs)" and "mset rs = mset rs'"
  shows "rows_at f rs' q = rows_at f rs q"
proof -
  from assms have "distinct (map f rs')" by (metis mset_eq_imp_distinct_iff mset_map)
  moreover have "set rs' = set rs" using assms(2) by (metis set_mset_mset)
  ultimately have "rows_at f rs' q = Some r \<longleftrightarrow> rows_at f rs q = Some r" for r by (simp add: rows_at_iff assms(1))
  then show ?thesis by (metis option.exhaust)
qed

lemma lookup_rows:
  "map_of (map (\<lambda>r. (row_key rlm r, g r)) rs) (CreatePlayer rlm 0 c, k) = map_option g (rows_at cl_key rs (c, k))"
  by (induction rs) (auto simp: rows_at_def row_key_def cl_key_def CreatePlayer_inj)

lemma held_heap [simp]: "held a (s\<lparr>lm_heap := h\<rparr>) = held a s"
  by (simp add: held_def lock_at_def)

text \<open>The states that no lock took over go when the local map does; none of them is registered.\<close>

lemma release_unowned:
  assumes "distinct (map fst (lm_temporary s))" and "distinct (map fst (lm_locks s))"
    and "\<forall>x \<in> set xs. \<forall>d. \<not> held (snd x) s \<and> lm_heap s (snd x) = Some d \<longrightarrow> map_of (lm_dataById s) (sd_InstanceId d) = None"
  shows "fold (\<lambda>x. release_shared (Some (snd x))) xs s
    = s\<lparr>lm_heap := (\<lambda>a. if a \<in> snd ` set xs \<and> \<not> held a s then None else lm_heap s a)\<rparr>"
  using assms
proof (induction xs arbitrary: s)
  case Nil
  then show ?case by simp
next
  case (Cons x xs)
  define s1 where "s1 = (if held (snd x) s then s else s\<lparr>lm_heap := (lm_heap s)(snd x := None)\<rparr>)"
  have ow: "owned (snd x) s = held (snd x) s" by (rule owned_held [OF Cons.prems(1,2)])
  have rel: "release_shared (Some (snd x)) s = s1"
  proof (cases "held (snd x) s")
    case False
    show ?thesis
    proof (cases "lm_heap s (snd x)")
      case None
      then have "(lm_heap s)(snd x := None) = lm_heap s" by auto
      with None False show ?thesis by (simp add: release_shared_def ow destroy_shared_def s1_def)
    next
      case (Some d)
      with Cons.prems(3) False have "map_of (lm_dataById s) (sd_InstanceId d) = None" by simp
      with Some False show ?thesis
        by (simp add: release_shared_def ow destroy_shared_def s1_def OnSharedInstanceLockDataDelete_def Let_def)
    qed
  qed (simp add: release_shared_def ow s1_def)
  have eqs: "lm_temporary s1 = lm_temporary s" "lm_locks s1 = lm_locks s" "lm_dataById s1 = lm_dataById s" by (simp_all add: s1_def)
  have h1: "held a s1 = held a s" for a by (simp add: s1_def)
  have p: "\<forall>y \<in> set xs. \<forall>d. \<not> held (snd y) s1 \<and> lm_heap s1 (snd y) = Some d \<longrightarrow> map_of (lm_dataById s1) (sd_InstanceId d) = None"
    using Cons.prems(3) unfolding h1 eqs by (auto simp: s1_def split: if_splits)
  have "fold (\<lambda>x. release_shared (Some (snd x))) (x # xs) s = fold (\<lambda>x. release_shared (Some (snd x))) xs s1"
    by (simp add: rel)
  also have "\<dots> = s1\<lparr>lm_heap := (\<lambda>a. if a \<in> snd ` set xs \<and> \<not> held a s1 then None else lm_heap s1 a)\<rparr>"
    by (rule Cons.IH) (use Cons.prems(1,2) p in \<open>simp_all add: eqs\<close>)
  also have "\<dots> = s\<lparr>lm_heap := (\<lambda>a. if a \<in> snd ` set (x # xs) \<and> \<not> held a s then None else lm_heap s a)\<rparr>"
  proof -
    have "(if a \<in> snd ` set xs \<and> \<not> held a s1 then None else lm_heap s1 a)
        = (if a \<in> snd ` set (x # xs) \<and> \<not> held a s then None else lm_heap s a)" for a
      unfolding h1 by (auto simp: s1_def)
    then show ?thesis unfolding fun_eq_iff [symmetric] by (simp add: s1_def cong: if_cong)
  qed
  finally show ?case .
qed

text \<open>A lock and the one a restart makes of its row.\<close>

definition reloaded ::
    "bool \<Rightarrow> (nat \<Rightarrow> shared_lock_data option) \<Rightarrow> (nat \<Rightarrow> shared_lock_data option) \<Rightarrow> instance_lock \<Rightarrow> instance_lock \<Rightarrow> bool" where
  "reloaded bound h h' l l' =
     (il_mapId l' = il_mapId l \<and> il_extended l' = il_extended l \<and> \<not> il_isNew l' \<and> \<not> il_isInUse l'
      \<and> ld_Data (il_data l') = ld_Data (il_data l)
      \<and> ld_CompletedEncountersMask (il_data l') = ld_CompletedEncountersMask (il_data l)
      \<and> (\<forall>t. il_expiryTime l = from_time_t t \<and> - (2 ^ 63) \<le> t \<and> t < 2 ^ 63 \<longrightarrow> il_expiryTime l' = il_expiryTime l)
      \<and> (bound \<longrightarrow> il_instanceId l' = il_instanceId l
           \<and> (\<exists>a d a' d'. il_shared l = Some a \<and> h a = Some d \<and> il_shared l' = Some a' \<and> h' a' = Some d'
                \<and> ld_Data d' = ld_Data d \<and> ld_CompletedEncountersMask d' = ld_CompletedEncountersMask d)))"

lemma Init_ok:
  assumes "max_instance_id t + 2 \<le> 2 ^ 32"
  shows "\<exists>ids. InitInstanceIds t \<lparr>ii_free = [], ii_next = x\<rparr> = Some ids \<and> registered (max_instance_id t + 2) [] ids"
proof -
  define n where "n = max_instance_id t + 2"
  define ids where "ids = \<lparr>ii_free = (replicate n True)[0 := False], ii_next = 1 :: u32\<rparr>"
  have "InitInstanceIds t \<lparr>ii_free = [], ii_next = x\<rparr> = Some ids"
    by (simp add: InitInstanceIds_def ids_set_def bitset_resize_def ids_def n_def)
  moreover have "registered n [] ids"
    using assms by (auto simp: registered_def ids_def n_def nth_Cons split: nat.splits)
  ultimately show ?thesis unfolding n_def by blast
qed

lemma time_roundtrip: "- (2 ^ 63) \<le> t \<Longrightarrow> t < 2 ^ 63 \<Longrightarrow> sint (of_int t :: u64) = t"
  by (simp add: signed_of_int signed_take_bit_int_eq_self)

text \<open>The state that \<open>Load\<close> builds from good tables.\<close>

definition restarted :: "(lock_key \<Rightarrow> bool) \<Rightarrow> u32 \<Rightarrow> lock_tables \<Rightarrow> (u32 \<times> nat) list \<Rightarrow> lock_mgr \<Rightarrow> bool" where
  "restarted bnd rlm t local s =
     (lm_temporary s = [] \<and> \<not> lm_unloading s \<and> lm_tables s = t
      \<and> lm_locks s = map (\<lambda>r. (row_key rlm r, lock_of_row local bnd r)) (sort_key cl_instanceId (lt_locks t))
      \<and> by_id_ok (lm_fresh s) (lm_dataById s)
      \<and> (\<forall>r \<in> set (lt_locks t). bnd (cl_mapId r, cl_lockId r) \<longrightarrow>
           (\<exists>a ir. map_of local (cl_instanceId r) = Some a \<and> map_of (lm_dataById s) (cl_instanceId r) = Some a
              \<and> lm_heap s a = Some (shared_of_row ir) \<and> inst_at t (cl_instanceId r) = Some ir))
      \<and> (\<forall>a. lm_heap s a \<noteq> None \<longrightarrow> a < lm_fresh s \<and> held a s)
      \<and> registered (max_instance_id t + 2) (sort_key cl_instanceId (lt_locks t)) (lm_ids s))"

lemma lock_of_row_simps [simp]:
  "il_shared (lock_of_row local bnd r) =
     (if bnd (cl_mapId r, cl_lockId r) then Some (the (map_of local (cl_instanceId r))) else None)"
  "il_mapId (lock_of_row local bnd r) = cl_mapId r" "il_difficultyId (lock_of_row local bnd r) = cl_difficulty r"
  "il_instanceId (lock_of_row local bnd r) = cl_instanceId r" "il_extended (lock_of_row local bnd r) = cl_extended r"
  "il_expiryTime (lock_of_row local bnd r) = from_time_t (sint (cl_expiry r))"
  "\<not> il_isNew (lock_of_row local bnd r)" "\<not> il_isInUse (lock_of_row local bnd r)"
  "ld_Data (il_data (lock_of_row local bnd r)) = cl_data r"
  "ld_CompletedEncountersMask (il_data (lock_of_row local bnd r)) = cl_mask r"
  by (simp_all add: lock_of_row_def Let_def SharedInstanceLock_new_def InstanceLock_new_def)

lemma locks_rows:
  assumes "lm_temporary s = []" and "lm_locks s = map (\<lambda>r. (row_key rlm r, g r)) rs" and "distinct (map cl_key rs)"
  shows "distinct (map fst (lm_temporary s)) \<and> distinct (map fst (lm_locks s))"
    and "lock_at b s k = Some l \<longleftrightarrow> \<not> b \<and> (\<exists>r \<in> set rs. k = row_key rlm r \<and> l = g r)"
proof -
  have "map fst (lm_locks s) = map (row_key rlm) rs" by (simp add: assms(2))
  moreover have "distinct (map (row_key rlm) rs)"
    using assms(3) by (simp add: distinct_map inj_on_def row_key_inj)
  ultimately have d: "distinct (map fst (lm_locks s))" by simp
  then show "distinct (map fst (lm_temporary s)) \<and> distinct (map fst (lm_locks s))" by (simp add: assms(1))
  show "lock_at b s k = Some l \<longleftrightarrow> \<not> b \<and> (\<exists>r \<in> set rs. k = row_key rlm r \<and> l = g r)"
    using d by (cases b) (auto simp: lock_at_def assms(1,2) map_of_eq_Some_iff)
qed

text \<open>The rows of good tables can be loaded.\<close>

lemma rows_good:
  assumes ok: "locks_ok es bnd rlm s" and r: "r \<in> set (lt_locks (lm_tables s))"
    and dom: "\<And>i. map_of local i = None \<longleftrightarrow> i \<notin> in_instanceId ` set (lt_instances (lm_tables s))"
  shows "\<exists>l. lock_at False s (row_key rlm r) = Some l \<and> row_ok es bnd r l" and "row_good es bnd rlm local r"
proof -
  from ok have L: "linked es bnd rlm None s" and M: "mirrored es bnd rlm (lm_tables s) s" by (simp_all add: locks_ok_def)
  from M have dist: "distinct (map cl_key (lt_locks (lm_tables s)))" unfolding mirrored_def by blast
  have "row_at (lm_tables s) (cl_key r) = Some r" using r dist by (simp add: row_at_def rows_at_iff)
  moreover have "rel_option (row_ok es bnd) (row_at (lm_tables s) (cl_key r)) (lock_at False s (row_key rlm r))"
    using M unfolding mirrored_def row_key_def cl_key_def by blast
  ultimately show l: "\<exists>l. lock_at False s (row_key rlm r) = Some l \<and> row_ok es bnd r l"
    by (cases "lock_at False s (row_key rlm r)") auto
  then obtain l where l: "lock_at False s (row_key rlm r) = Some l" "row_ok es bnd r l" by blast
  note F = linked_lock [OF L l(1)]
  have "map_of local (cl_instanceId r) \<noteq> None" if "bnd (cl_mapId r, cl_lockId r)"
  proof -
    from F that obtain a d where d: "lm_heap s a = Some d" "sd_InstanceId d = il_instanceId l"
      by (auto simp: lock_link_def row_key_def)
    with F M have "\<exists>r'. inst_at (lm_tables s) (sd_InstanceId d) = Some r' \<and> inst_ok d r'"
      unfolding mirrored_def lock_fields_def by metis
    with d l(2) that obtain r' where "inst_at (lm_tables s) (cl_instanceId r) = Some r'" by (auto simp: row_ok_def)
    then have "cl_instanceId r \<in> in_instanceId ` set (lt_instances (lm_tables s))"
      unfolding inst_at_def by (metis rows_at_key imageI)
    with dom [of "cl_instanceId r"] show ?thesis by blast
  qed
  moreover have "player_guid rlm (CreatePlayer rlm 0 (cl_guid r))"
    using F by (simp add: lock_fields_def row_key_def player_guid_def)
  ultimately show "row_good es bnd rlm local r" using l(2) by (auto simp: row_good_def row_ok_def)
qed

lemma load_state:
  assumes R: "rows_loaded (lt_instances t) local s1" and D: "loading bnd rlm local n s1 rs s2"
    and rs: "rs = sort_key cl_instanceId (lt_locks t)" and n: "n = max_instance_id t + 2"
    and s1: "lm_temporary s1 = []" "\<not> lm_unloading s1" "lm_tables s1 = t"
    and dist: "distinct (map cl_key (lt_locks t))" "distinct (map in_instanceId (lt_instances t))"
    and good: "\<forall>r \<in> set rs. row_good es bnd rlm local r"
  shows "restarted bnd rlm t local (fold (\<lambda>x. release_shared (Some (snd x))) local s2)"
proof -
  from D obtain b' i' where s2: "s2 = s1\<lparr>lm_locks := map (\<lambda>r. (row_key rlm r, lock_of_row local bnd r)) rs,
      lm_dataById := b', lm_ids := i'\<rparr>" unfolding loading_def by blast
  have s2': "lm_dataById s2 = b'" "lm_ids s2 = i'" "lm_heap s2 = lm_heap s1" "lm_fresh s2 = lm_fresh s1" "lm_temporary s2 = []"
    "lm_locks s2 = map (\<lambda>r. (row_key rlm r, lock_of_row local bnd r)) rs"
    by (simp_all add: s2 s1)
  have by_id: "\<And>i a. map_of b' i = Some a \<Longrightarrow>
      map_of local i = Some a \<and> (\<exists>r \<in> set rs. bnd (cl_mapId r, cl_lockId r) \<and> cl_instanceId r = i)"
    and by_rows: "\<And>r. r \<in> set rs \<Longrightarrow> bnd (cl_mapId r, cl_lockId r) \<Longrightarrow> map_of b' (cl_instanceId r) = map_of local (cl_instanceId r)"
    and reg: "registered n rs i'"
    using D unfolding loading_def s2' by blast+
  have loc_dist: "distinct (map fst local)" and loc_ids: "by_id_ok (lm_fresh s1) local"
    and loc_dom: "\<And>i. map_of local i = None \<longleftrightarrow> i \<notin> in_instanceId ` set (lt_instances t)"
    and loc_heap: "\<And>r a. r \<in> set (lt_instances t) \<Longrightarrow> map_of local (in_instanceId r) = Some a \<Longrightarrow> lm_heap s1 a = Some (shared_of_row r)"
    and loc_live: "\<And>a. lm_heap s1 a \<noteq> None \<Longrightarrow> a < lm_fresh s1 \<and> (\<exists>i. map_of local i = Some a)"
    using R unfolding rows_loaded_def by blast+
  have rows: "\<exists>ir. inst_at t i = Some ir \<and> in_instanceId ir = i \<and> lm_heap s1 a = Some (shared_of_row ir)"
    if a: "map_of local i = Some a" for i a
  proof -
    from a have "i \<in> in_instanceId ` set (lt_instances t)" using loc_dom [of i] by auto
    then obtain ir where ir: "ir \<in> set (lt_instances t)" "in_instanceId ir = i" by auto
    with loc_heap [of ir a] a dist(2) show ?thesis by (auto simp: inst_at_def rows_at_iff)
  qed
  have "distinct (map cl_key rs)" using dist(1) by (metis rs mset_eq_imp_distinct_iff mset_map mset_sort)
  note LR = locks_rows [OF s2'(5,6) this]
  have own: "held a s2 \<longleftrightarrow> (\<exists>r \<in> set rs. bnd (cl_mapId r, cl_lockId r) \<and> map_of local (cl_instanceId r) = Some a)" for a
  proof
    assume "held a s2"
    then obtain b k l where l: "lock_at b s2 k = Some l" "il_shared l = Some a" unfolding held_def by blast
    from l(1) obtain r where r: "r \<in> set rs" "l = lock_of_row local bnd r" unfolding LR(2) by blast
    with l(2) have b: "bnd (cl_mapId r, cl_lockId r)" "a = the (map_of local (cl_instanceId r))" by (auto split: if_splits)
    with good r(1) have "map_of local (cl_instanceId r) = Some a" by (auto simp: row_good_def)
    with r(1) b(1) show "\<exists>r \<in> set rs. bnd (cl_mapId r, cl_lockId r) \<and> map_of local (cl_instanceId r) = Some a" by blast
  next
    assume "\<exists>r \<in> set rs. bnd (cl_mapId r, cl_lockId r) \<and> map_of local (cl_instanceId r) = Some a"
    then obtain r where r: "r \<in> set rs" "bnd (cl_mapId r, cl_lockId r)" "map_of local (cl_instanceId r) = Some a" by blast
    then have "lock_at False s2 (row_key rlm r) = Some (lock_of_row local bnd r)" unfolding LR(2) by blast
    moreover have "il_shared (lock_of_row local bnd r) = Some a" using r by simp
    ultimately show "held a s2" unfolding held_def by blast
  qed
  have "\<forall>x \<in> set local. \<forall>d. \<not> held (snd x) s2 \<and> lm_heap s2 (snd x) = Some d \<longrightarrow> map_of (lm_dataById s2) (sd_InstanceId d) = None"
  proof (intro ballI allI impI)
    fix x d assume x: "x \<in> set local" and d: "\<not> held (snd x) s2 \<and> lm_heap s2 (snd x) = Some d"
    from x have lx: "map_of local (fst x) = Some (snd x)" using loc_dist by simp
    from rows [OF lx] d have sd: "sd_InstanceId d = fst x" by (auto simp: s2' shared_of_row_def shared_lock_data0_def)
    show "map_of (lm_dataById s2) (sd_InstanceId d) = None"
    proof (rule ccontr)
      assume "map_of (lm_dataById s2) (sd_InstanceId d) \<noteq> None"
      then obtain a where "map_of b' (fst x) = Some a" by (auto simp: s2' sd)
      from by_id [OF this] lx own [of "snd x"] d show False by auto
    qed
  qed
  from release_unowned [OF _ _ this] LR(1)
  have rel: "fold (\<lambda>x. release_shared (Some (snd x))) local s2
      = s2\<lparr>lm_heap := (\<lambda>a. if a \<in> snd ` set local \<and> \<not> held a s2 then None else lm_heap s2 a)\<rparr>" by blast
  have heap: "(if a \<in> snd ` set local \<and> \<not> held a s2 then None else lm_heap s2 a) = (if held a s2 then lm_heap s1 a else None)" for a
  proof (cases "lm_heap s1 a")
    case None
    then show ?thesis by (simp add: s2')
  next
    case (Some d)
    with loc_live [of a] obtain i where "map_of local i = Some a" by auto
    then have "a \<in> snd ` set local" by (force dest: map_of_SomeD)
    then show ?thesis by (simp add: s2')
  qed
  have "by_id_ok (lm_fresh s1) b'" using loc_ids by_id unfolding by_id_ok_def by metis
  moreover have "\<exists>a ir. map_of local (cl_instanceId r) = Some a \<and> map_of b' (cl_instanceId r) = Some a
      \<and> held a s2 \<and> lm_heap s1 a = Some (shared_of_row ir) \<and> inst_at t (cl_instanceId r) = Some ir"
    if r: "r \<in> set (lt_locks t)" "bnd (cl_mapId r, cl_lockId r)" for r
  proof -
    from r(1) have r': "r \<in> set rs" by (simp add: rs)
    with good r(2) obtain a where a: "map_of local (cl_instanceId r) = Some a" by (auto simp: row_good_def)
    with rows [OF a] by_rows [OF r' r(2)] own [of a] r(2) r' show ?thesis by auto
  qed
  ultimately have parts: "by_id_ok (lm_fresh s1) b'"
    "\<And>r. r \<in> set (lt_locks t) \<Longrightarrow> bnd (cl_mapId r, cl_lockId r) \<Longrightarrow>
      \<exists>a ir. map_of local (cl_instanceId r) = Some a \<and> map_of b' (cl_instanceId r) = Some a
        \<and> held a s2 \<and> lm_heap s1 a = Some (shared_of_row ir) \<and> inst_at t (cl_instanceId r) = Some ir"
    by blast+
  define s3 where "s3 = s2\<lparr>lm_heap := (\<lambda>a. if held a s2 then lm_heap s1 a else None)\<rparr>"
  have s3: "lm_temporary s3 = []" "\<not> lm_unloading s3" "lm_tables s3 = t" "lm_fresh s3 = lm_fresh s1" "lm_dataById s3 = b'"
    "lm_ids s3 = i'" "lm_locks s3 = map (\<lambda>r. (row_key rlm r, lock_of_row local bnd r)) rs"
    "\<And>a. lm_heap s3 a = (if held a s2 then lm_heap s1 a else None)"
    using s1 by (simp_all add: s3_def s2' ) (simp_all add: s2)
  have h3: "held a s3 = held a s2" for a by (simp add: s3_def)
  have "restarted bnd rlm t local s3"
    unfolding restarted_def s3(3-7) h3 rs [symmetric] n [symmetric]
  proof (intro conjI ballI impI allI)
    show "lm_temporary s3 = []" "\<not> lm_unloading s3" "t = t" by (simp_all add: s3)
    show "by_id_ok (lm_fresh s1) b'" "registered n rs i'" by (rule parts(1) reg)+
    show "map (\<lambda>r. (row_key rlm r, lock_of_row local bnd r)) rs = map (\<lambda>r. (row_key rlm r, lock_of_row local bnd r)) rs"
      by (rule refl)
  next
    fix r assume "r \<in> set (lt_locks t)" and "bnd (cl_mapId r, cl_lockId r)"
    from parts(2) [OF this] show "\<exists>a ir. map_of local (cl_instanceId r) = Some a \<and> map_of b' (cl_instanceId r) = Some a
        \<and> lm_heap s3 a = Some (shared_of_row ir) \<and> inst_at t (cl_instanceId r) = Some ir"
      unfolding s3(8) by auto
  next
    fix a assume "lm_heap s3 a \<noteq> None"
    then have "held a s2" "lm_heap s1 a \<noteq> None" unfolding s3(8) by (auto split: if_splits)
    with loc_live [of a] show "a < lm_fresh s1" "held a s2" by blast+
  qed
  moreover have "fold (\<lambda>x. release_shared (Some (snd x))) local s2 = s3"
    unfolding rel heap s3_def by (rule refl)
  ultimately show ?thesis by simp
qed

lemma restarted_locks:
  assumes S: "restarted bnd rlm t local s'" and dist: "distinct (map cl_key (lt_locks t))"
  shows "distinct (map fst (lm_temporary s')) \<and> distinct (map fst (lm_locks s'))"
    and "lock_at b s' k = Some l \<longleftrightarrow> \<not> b \<and> (\<exists>r \<in> set (lt_locks t). k = row_key rlm r \<and> l = lock_of_row local bnd r)"
    and "lock_at False s' (CreatePlayer rlm 0 c, q) = map_option (lock_of_row local bnd) (row_at t (c, q))"
proof -
  define rs where "rs = sort_key cl_instanceId (lt_locks t)"
  have m: "mset rs = mset (lt_locks t)" by (simp add: rs_def)
  have d: "distinct (map cl_key rs)" using dist m by (metis mset_eq_imp_distinct_iff mset_map)
  have s: "lm_temporary s' = []" "lm_locks s' = map (\<lambda>r. (row_key rlm r, lock_of_row local bnd r)) rs"
    using S unfolding restarted_def rs_def by blast+
  note LR = locks_rows [OF s d]
  show "distinct (map fst (lm_temporary s')) \<and> distinct (map fst (lm_locks s'))" by (rule LR(1))
  show "lock_at b s' k = Some l \<longleftrightarrow> \<not> b \<and> (\<exists>r \<in> set (lt_locks t). k = row_key rlm r \<and> l = lock_of_row local bnd r)"
    unfolding LR(2) by (simp add: rs_def)
  show "lock_at False s' (CreatePlayer rlm 0 c, q) = map_option (lock_of_row local bnd) (row_at t (c, q))"
    by (simp add: s lookup_rows row_at_def rows_at_perm [OF dist m [symmetric]])
qed

lemma restarted_ok:
  assumes S: "restarted bnd rlm t local s'" and dist: "distinct (map cl_key (lt_locks t))" "distinct (map in_instanceId (lt_instances t))"
    and good: "\<forall>r \<in> set (lt_locks t). row_good es bnd rlm local r"
  shows "locks_ok es bnd rlm s'"
proof -
  have P: "\<not> lm_unloading s'" "lm_tables s' = t" "by_id_ok (lm_fresh s') (lm_dataById s')"
    "registered (max_instance_id t + 2) (sort_key cl_instanceId (lt_locks t)) (lm_ids s')"
    using S unfolding restarted_def by blast+
  have bound: "\<And>r. r \<in> set (lt_locks t) \<Longrightarrow> bnd (cl_mapId r, cl_lockId r) \<Longrightarrow>
      \<exists>a ir. map_of local (cl_instanceId r) = Some a \<and> map_of (lm_dataById s') (cl_instanceId r) = Some a
        \<and> lm_heap s' a = Some (shared_of_row ir) \<and> inst_at t (cl_instanceId r) = Some ir"
    and live: "\<And>a. lm_heap s' a \<noteq> None \<Longrightarrow> a < lm_fresh s' \<and> held a s'"
    using S unfolding restarted_def by blast+
  note LR = restarted_locks [OF S dist(1)]
  have sd: "sd_InstanceId (shared_of_row ir) = i" if "inst_at t i = Some ir" for ir i
    using that rows_at_key unfolding inst_at_def by (fastforce simp: shared_of_row_def shared_lock_data0_def)
  have taken: "id_taken (cl_instanceId r) (lm_ids s')" if "r \<in> set (lt_locks t)" for r
    using P(4) that max_instance_id_ge [OF that] unfolding registered_def id_taken_def by auto
  have lock: "lock_fields es rlm b k l \<and> lock_link (bnd (snd k)) (lm_heap s') (lm_dataById s') b l \<and> id_taken (il_instanceId l) (lm_ids s')"
    if at: "lock_at b s' k = Some l" for b k l
  proof -
    from at obtain r where r: "\<not> b" "r \<in> set (lt_locks t)" "k = row_key rlm r" "l = lock_of_row local bnd r" unfolding LR(2) by blast
    from good r(2) have g: "row_good es bnd rlm local r" by blast
    then have "lock_fields es rlm b k l" using r by (auto simp: lock_fields_def row_good_def row_key_def player_guid_def)
    moreover have "lock_link (bnd (snd k)) (lm_heap s') (lm_dataById s') b l"
    proof (cases "bnd (snd k)")
      case True
      with bound [OF r(2)] r(3) obtain a ir where a: "map_of local (cl_instanceId r) = Some a"
          "map_of (lm_dataById s') (cl_instanceId r) = Some a" "lm_heap s' a = Some (shared_of_row ir)" "inst_at t (cl_instanceId r) = Some ir"
        by (auto simp: row_key_def)
      with True r sd [OF a(4)] show ?thesis by (simp add: lock_link_def row_key_def)
    qed (use r in \<open>simp add: lock_link_def row_key_def\<close>)
    ultimately show ?thesis using taken [OF r(2)] r(4) by simp
  qed
  have ids: "ids_ok (lm_ids s')" using P(4) by (auto simp: registered_def ids_ok_def)
  have "linked es bnd rlm None s'"
    unfolding linked_def using LR(1) P(1,3) lock live ids by blast
  moreover have "mirrored es bnd rlm t s'"
    unfolding mirrored_def
  proof (intro conjI allI impI)
    show "distinct (map cl_key (lt_locks t))" "distinct (map in_instanceId (lt_instances t))" by (rule dist)+
    fix c q
    show "rel_option (row_ok es bnd) (row_at t (c, q)) (lock_at False s' (CreatePlayer rlm 0 c, q))"
    proof (cases "row_at t (c, q)")
      case (Some r)
      then have r: "r \<in> set (lt_locks t)" "cl_key r = (c, q)" using rows_at_key unfolding row_at_def by metis+
      with good have "row_good es bnd rlm local r" by blast
      then have "row_ok es bnd r (lock_of_row local bnd r)"
        by (auto simp: row_ok_def row_good_def)
      with Some show ?thesis unfolding LR(3) by simp
    next
      case None
      then show ?thesis unfolding LR(3) by simp
    qed
  next
    fix a d assume d: "lm_heap s' a = Some d \<and> sd_InstanceId d \<noteq> 0"
    with live [of a] obtain b k l where l: "lock_at b s' k = Some l" "il_shared l = Some a" unfolding held_def by blast
    from l(1) obtain r where r: "r \<in> set (lt_locks t)" "l = lock_of_row local bnd r" unfolding LR(2) by blast
    with l(2) bound [of r] d obtain ir where "d = shared_of_row ir" "inst_at t (cl_instanceId r) = Some ir"
      by (auto split: if_splits)
    with sd show "\<exists>r. inst_at t (sd_InstanceId d) = Some r \<and> inst_ok d r"
      by (auto simp: inst_ok_def shared_of_row_def shared_lock_data0_def)
  qed
  ultimately show ?thesis by (simp add: locks_ok_def P(2))
qed

lemma restarted_reloaded:
  assumes ok: "locks_ok es bnd rlm s" and S: "restarted bnd rlm (lm_tables s) local s'"
  shows "rel_option (reloaded (bnd (snd k)) (lm_heap s) (lm_heap s')) (lock_at False s k) (lock_at False s' k)"
proof -
  from ok have L: "linked es bnd rlm None s" and M: "mirrored es bnd rlm (lm_tables s) s" by (simp_all add: locks_ok_def)
  from M have dist: "distinct (map cl_key (lt_locks (lm_tables s)))" unfolding mirrored_def by blast
  note LR = restarted_locks [OF S dist]
  have bound: "\<And>r. r \<in> set (lt_locks (lm_tables s)) \<Longrightarrow> bnd (cl_mapId r, cl_lockId r) \<Longrightarrow>
      \<exists>a ir. map_of local (cl_instanceId r) = Some a \<and> map_of (lm_dataById s') (cl_instanceId r) = Some a
        \<and> lm_heap s' a = Some (shared_of_row ir) \<and> inst_at (lm_tables s) (cl_instanceId r) = Some ir"
    using S unfolding restarted_def by blast
  have key: "\<exists>c. fst k = CreatePlayer rlm 0 c" if "lock_at False s k \<noteq> None \<or> lock_at False s' k \<noteq> None"
    using that
  proof
    assume "lock_at False s k \<noteq> None"
    then obtain l where "lock_at False s k = Some l" by blast
    from linked_lock [OF L this] show ?thesis unfolding lock_fields_def by blast
  next
    assume "lock_at False s' k \<noteq> None"
    then obtain l where "lock_at False s' k = Some l" by blast
    then show ?thesis unfolding LR(2) by (auto simp: row_key_def)
  qed
  show ?thesis
  proof (cases "lock_at False s k = None \<and> lock_at False s' k = None")
    case False
    with key obtain c where k: "k = (CreatePlayer rlm 0 c, snd k)" by (metis prod.collapse)
    have rel: "rel_option (row_ok es bnd) (row_at (lm_tables s) (c, snd k)) (lock_at False s k)"
      using M k unfolding mirrored_def by metis
    have at': "lock_at False s' k = map_option (lock_of_row local bnd) (row_at (lm_tables s) (c, snd k))"
      using LR(3) k by metis
    from False rel at' obtain r l where r: "row_at (lm_tables s) (c, snd k) = Some r" "lock_at False s k = Some l" "row_ok es bnd r l"
      by (cases "row_at (lm_tables s) (c, snd k)"; cases "lock_at False s k") (auto simp del: lock_at_simps)
    have rr: "r \<in> set (lt_locks (lm_tables s))" "cl_key r = (c, snd k)" using r(1) rows_at_key unfolding row_at_def by metis+
    then have sk: "snd k = (cl_mapId r, cl_lockId r)" by (simp add: cl_key_def)
    note F = linked_lock [OF L r(2)]
    have shared: "il_instanceId (lock_of_row local bnd r) = il_instanceId l
        \<and> (\<exists>a d a' d'. il_shared l = Some a \<and> lm_heap s a = Some d \<and> il_shared (lock_of_row local bnd r) = Some a' \<and> lm_heap s' a' = Some d'
            \<and> ld_Data d' = ld_Data d \<and> ld_CompletedEncountersMask d' = ld_CompletedEncountersMask d)" if b: "bnd (snd k)"
    proof -
      from F b obtain a d where a: "il_shared l = Some a" "lm_heap s a = Some d" "sd_InstanceId d = il_instanceId l" "il_instanceId l \<noteq> 0"
        by (auto simp: lock_link_def lock_fields_def)
      with M have "\<exists>ir. inst_at (lm_tables s) (il_instanceId l) = Some ir \<and> inst_ok d ir" unfolding mirrored_def by metis
      moreover have i: "cl_instanceId r = il_instanceId l" using r(3) b by (simp add: row_ok_def sk)
      moreover from bound [OF rr(1)] b sk obtain a' ir where a': "map_of local (cl_instanceId r) = Some a'"
          "lm_heap s' a' = Some (shared_of_row ir)" "inst_at (lm_tables s) (cl_instanceId r) = Some ir" by auto
      ultimately have "inst_ok d ir" by simp
      with a a' b sk i show ?thesis by (simp add: inst_ok_def shared_of_row_def)
    qed
    have "il_expiryTime (lock_of_row local bnd r) = il_expiryTime l"
      if "il_expiryTime l = from_time_t x" "- (2 ^ 63) \<le> x" "x < 2 ^ 63" for x
      using that r(3) time_roundtrip [OF that(2,3)] by (simp add: row_ok_def)
    moreover have "il_mapId (lock_of_row local bnd r) = il_mapId l" using F by (simp add: lock_fields_def sk)
    ultimately have "reloaded (bnd (snd k)) (lm_heap s) (lm_heap s') l (lock_of_row local bnd r)"
      using r(3) shared unfolding reloaded_def by (auto simp: row_ok_def simp del: lock_of_row_simps(1))
    then show ?thesis unfolding at' r(1,2) by simp
  qed simp
qed

lemma restart_ok:
  assumes ok: "locks_ok es bnd rlm s" and E: "entries_ok es bnd" and es: "le_entries e = es"
    and room: "max_instance_id (lm_tables s) + 2 \<le> 2 ^ 32"
  shows "\<exists>s'. start_server e rlm (lm_tables s) = Some s' \<and> locks_ok es bnd rlm s' \<and> lm_tables s' = lm_tables s
    \<and> lm_temporary s' = []
    \<and> (\<forall>k. rel_option (reloaded (bnd (snd k)) (lm_heap s) (lm_heap s')) (lock_at False s k) (lock_at False s' k))"
proof -
  define t where "t = lm_tables s"
  define n where "n = max_instance_id t + 2"
  have dist: "distinct (map cl_key (lt_locks t))" "distinct (map in_instanceId (lt_instances t))"
    using ok unfolding locks_ok_def mirrored_def t_def by blast+
  from Init_ok [of t] room obtain ids where init: "InitInstanceIds t \<lparr>ii_free = [], ii_next = 0\<rparr> = Some ids" "registered n [] ids"
    by (auto simp: t_def n_def)
  define s0 where "s0 = (lock_mgr0 t)\<lparr>lm_ids := ids\<rparr>"
  have "rows_loaded [] [] s0" by (simp add: rows_loaded_def s0_def lock_mgr0_def by_id_ok_def)
  from load_instances_ok [OF this, of "lt_instances t"] dist(2)
  obtain local h m where li: "load_instances (lt_instances t) [] s0 = (local, s0\<lparr>lm_heap := h, lm_fresh := m\<rparr>)"
      and R: "rows_loaded (lt_instances t) local (s0\<lparr>lm_heap := h, lm_fresh := m\<rparr>)"
    by auto
  define s1 where "s1 = s0\<lparr>lm_heap := h, lm_fresh := m\<rparr>"
  define rs where "rs = sort_key cl_instanceId (lt_locks t)"
  have dom: "\<And>i. map_of local i = None \<longleftrightarrow> i \<notin> in_instanceId ` set (lt_instances (lm_tables s))"
    using R unfolding rows_loaded_def t_def by blast
  have good: "row_good es bnd rlm local r \<and> unat (cl_instanceId r) + 1 < n" if "r \<in> set (lt_locks t)" for r
    using rows_good(2) [OF ok _ dom] max_instance_id_ge [OF that] that by (simp add: t_def n_def)
  have L0: "loading bnd rlm local n s1 [] s1"
    using init(2) by (auto simp: loading_def s1_def s0_def lock_mgr0_def)
  have "distinct (map cl_key rs)" using dist(1) by (metis rs_def mset_eq_imp_distinct_iff mset_map mset_sort)
  with load_locks_ok [OF es E L0, of rs] good obtain s2 where ll: "load_locks e rlm local rs s1 = Some s2"
      and D: "loading bnd rlm local n s1 rs s2"
    by (auto simp: rs_def)
  have s1: "lm_temporary s1 = []" "\<not> lm_unloading s1" "lm_tables s1 = t" by (simp_all add: s1_def s0_def lock_mgr0_def)
  define s3 where "s3 = fold (\<lambda>x. release_shared (Some (snd x))) local s2"
  have goods: "\<forall>r \<in> set rs. row_good es bnd rlm local r" using good by (simp add: rs_def)
  have S: "restarted bnd rlm t local s3"
    unfolding s3_def by (rule load_state [OF R [folded s1_def] D rs_def n_def s1 dist goods])
  have "lt_instances (lm_tables s0) = lt_instances t" by (simp add: s0_def lock_mgr0_def)
  then have "InstanceLockMgr_Load e rlm s0 = Some s3"
    using li ll s1(3) by (simp add: InstanceLockMgr_Load_def s1_def [symmetric] rs_def [symmetric] s3_def)
  then have start: "start_server e rlm t = Some s3" using init(1) by (simp add: start_server_def s0_def lock_mgr0_def)
  have "locks_ok es bnd rlm s3" using good by (intro restarted_ok [OF S dist]) blast
  moreover have "lm_tables s3 = t" "lm_temporary s3 = []" using S unfolding restarted_def by blast+
  ultimately show ?thesis using start restarted_reloaded [OF ok S [unfolded t_def]] unfolding t_def by blast
qed

section \<open>Runs\<close>

text \<open>
  What the server does with the locks, from an empty database on: players enter instances (only those
  with a reset schedule have locks), maps are saved, players accept a lock, change an extension, are
  reset by a command, maps mark their lock, ids of other maps are freed, and the server is restarted.
  \<open>es\<close> are the client's tables; time, date and the scripts of the maps are different in every step. A
  map is saved with players who have no lock to another instance, and the ids do not run out.
\<close>

definition save_allowed ::
    "u32 \<Rightarrow> lock_env \<Rightarrow> map_entries \<Rightarrow> u32 \<Rightarrow> (ObjectGuid \<times> bool) list \<Rightarrow> lock_mgr \<Rightarrow> bool" where
  "save_allowed rlm e m i ps s =
     (distinct (map fst ps) \<and> (\<forall>(p, gm) \<in> set ps. \<not> gm \<longrightarrow> player_guid rlm p \<and> may_lock e p m i s))"

inductive lock_step ::
    "(u32 \<Rightarrow> u8 \<Rightarrow> map_entries option) \<Rightarrow> u32 \<Rightarrow> lock_mgr \<Rightarrow> lock_mgr \<Rightarrow> bool" for es rlm where
  enter: "\<lbrakk>le_entries e = es; es mp d = Some m; HasResetSchedule m; player_guid rlm p;
     length (ii_free (lm_ids s)) < 2 ^ 32 - 2; enter_instance e p m diff recent elsewhere s = Some (i, d', s')\<rbrakk>
     \<Longrightarrow> lock_step es rlm s s'"
| save: "\<lbrakk>le_entries e = es; es mp d = Some m; HasResetSchedule m; lock_at b s k = Some il; snd k = GetKey m;
     \<forall>n. enc = Some n \<longrightarrow> n < 32; save_allowed rlm e m (il_instanceId il) ps s;
     map_UpdateInstanceLock e m (il_instanceId il) (Some il) ms enc ps s = Some s'\<rbrakk>
     \<Longrightarrow> lock_step es rlm s s'"
| bind: "\<lbrakk>le_entries e = es; es mp d = Some m; HasResetSchedule m; lock_at b s k = Some il; snd k = GetKey m;
     \<not> il_isNew il; player_guid rlm p; may_lock e p m (il_instanceId il) s;
     map_CreateInstanceLockForPlayer e m (il_instanceId il) il ms p s = Some s'\<rbrakk>
     \<Longrightarrow> lock_step es rlm s s'"
| extend: "\<lbrakk>le_entries e = es; UpdateInstanceLockExtensionForPlayer e p m x s = Some (expiries, s')\<rbrakk>
     \<Longrightarrow> lock_step es rlm s s'"
| reset: "\<lbrakk>le_entries e = es; ResetInstanceLocksForPlayer e p mapId diff s = Some (done_locks, failed, s')\<rbrakk>
     \<Longrightarrow> lock_step es rlm s s'"
| in_use: "lock_step es rlm s (map_SetInUse b k x s)"
| free: "\<lbrakk>i \<noteq> 0; \<forall>b k l. lock_at b s k = Some l \<longrightarrow> il_instanceId l \<noteq> i; FreeInstanceId i (lm_ids s) = Some ids\<rbrakk>
     \<Longrightarrow> lock_step es rlm s (s\<lparr>lm_ids := ids\<rparr>)"
| restart: "\<lbrakk>le_entries e = es; max_instance_id (lm_tables s) + 2 \<le> 2 ^ 32; start_server e rlm (lm_tables s) = Some s'\<rbrakk>
     \<Longrightarrow> lock_step es rlm s s'"

inductive lock_reach :: "(u32 \<Rightarrow> u8 \<Rightarrow> map_entries option) \<Rightarrow> u32 \<Rightarrow> lock_mgr \<Rightarrow> bool" for es rlm where
  start: "start_server e rlm \<lparr>lt_locks = [], lt_instances = []\<rparr> = Some s \<Longrightarrow> lock_reach es rlm s"
| step: "lock_reach es rlm s \<Longrightarrow> lock_step es rlm s s' \<Longrightarrow> lock_reach es rlm s'"

lemma reset_ok:
  assumes ok: "locks_ok es bnd rlm s" and es: "le_entries e = es"
  shows "\<exists>failed s'. ResetInstanceLocksForPlayer e p mapId diff s = Some (reset_candidates e p mapId diff s, failed, s')
    \<and> locks_ok es bnd rlm s'
    \<and> (\<forall>(k, l) \<in> set (reset_candidates e p mapId diff s).
         \<exists>m. es (il_mapId l) (il_difficultyId l) = Some m \<and> GetKey m = snd k \<and> lock_at False s' k = Some (expired_now e m l))
    \<and> (\<forall>b k. (\<forall>l. (k, l) \<notin> set (reset_candidates e p mapId diff s)) \<or> b \<longrightarrow> lock_at b s' k = lock_at b s k)"
proof -
  define ls where "ls = reset_candidates e p mapId diff s"
  from ok have L: "linked es bnd rlm None s" and M: "mirrored es bnd rlm (fold exec_stmt [] (lm_tables s)) s"
    by (simp_all add: locks_ok_def)
  from L have d: "distinct (map fst (lm_locks s))" unfolding linked_def by blast
  then have "\<forall>(k, l) \<in> set ls. fst k = p \<and> lock_at False s k = Some l" "distinct (map fst ls)"
    by (auto simp: ls_def reset_candidates_def distinct_map_filter)
  from reset_locks_ok [OF L M es this] obtain tr s1 where R: "reset_locks e p ls [] s = Some (tr, s1)"
      "linked es bnd rlm None s1" "mirrored es bnd rlm (fold exec_stmt tr (lm_tables s1)) s1"
      "\<forall>(k, l) \<in> set ls. \<exists>m. es (il_mapId l) (il_difficultyId l) = Some m \<and> GetKey m = snd k
          \<and> lock_at False s1 k = Some (expired_now e m l)"
      "\<forall>b k. (\<forall>l. (k, l) \<notin> set ls) \<or> b \<longrightarrow> lock_at b s1 k = lock_at b s k"
    by blast
  then show ?thesis
    using locks_ok_commit [OF R(2,3)] unfolding ls_def [symmetric]
    by (intro exI [of _ "filter (\<lambda>(k, l). fst k = p \<and> il_isInUse l) (lm_locks s)"] exI [of _ "CommitTransaction tr s1"])
       (simp add: ResetInstanceLocksForPlayer_def ls_def [symmetric] Let_def del: lock_at_simps)
qed

lemma step_ok:
  assumes "lock_step es rlm s s'" and E: "entries_ok es bnd" and ok: "locks_ok es bnd rlm s"
  shows "locks_ok es bnd rlm s'"
  using assms(1)
proof cases
  case (enter e mp d m p diff recent elsewhere i d')
  from enter_ok [OF ok E enter(2-5), of e diff recent elsewhere] enter(6) show ?thesis by auto
next
  case (save e mp d m b k il enc ps ms)
  from save(7) have ps: "\<forall>(p, gm) \<in> set ps. \<not> gm \<longrightarrow> p = CreatePlayer rlm 0 (GetCounter p) \<and> may_lock e p m (il_instanceId il) s"
      "distinct (map fst ps)"
    by (simp_all add: save_allowed_def player_guid_def)
  from map_update_ok [OF ok E save(2-6) ps, of ms] save(8) show ?thesis by auto
next
  case (bind e mp d m b k il p ms)
  from map_bind_ok [OF ok E bind(2-6) bind(7) [unfolded player_guid_def] bind(8), of ms] bind(9) show ?thesis by auto
next
  case (extend e p m x expiries)
  from extension_ok [OF ok extend(1), of p m x] extend(2) show ?thesis by auto
next
  case (reset e p mapId diff done_locks failed)
  from reset_ok [OF ok reset(1), of p mapId diff] reset(2) show ?thesis by auto
next
  case (in_use b k x)
  with in_use_ok [OF ok] show ?thesis by simp
next
  case (free i ids)
  from free(4) have "unat i < length (ii_free (lm_ids s))"
    by (auto simp: FreeInstanceId_def ids_set_def split: if_splits)
  with free_ok [OF ok free(2) this] free show ?thesis by auto
next
  case (restart e)
  from restart_ok [OF ok E restart(1,2)] restart(3) show ?thesis by auto
qed

lemma start_empty: "\<exists>s. start_server e rlm \<lparr>lt_locks = [], lt_instances = []\<rparr> = Some s \<and> locks_ok es bnd rlm s"
proof -
  define t :: lock_tables where "t = \<lparr>lt_locks = [], lt_instances = []\<rparr>"
  define s where "s = (lock_mgr0 t)\<lparr>lm_ids := \<lparr>ii_free = [False, True], ii_next = 1\<rparr>\<rparr>"
  have "start_server e rlm t = Some s"
    by (simp add: start_server_def InitInstanceIds_def max_instance_id_def ids_set_def bitset_resize_def s_def t_def
        InstanceLockMgr_Load_def lock_mgr0_def numeral_2_eq_2)
  moreover have "locks_ok es bnd rlm s"
    by (simp add: locks_ok_def linked_def mirrored_def s_def t_def lock_mgr0_def lock_at_def row_at_def rows_at_def
        ids_ok_def by_id_ok_def)
  ultimately show ?thesis by (simp add: t_def)
qed

lemma reach_ok:
  assumes "lock_reach es rlm s" and "entries_ok es bnd"
  shows "locks_ok es bnd rlm s"
  using assms(1)
proof induction
  case (start e s)
  with start_empty [of e rlm es bnd] show ?case by auto
next
  case (step s s')
  with step_ok assms(2) show ?case by blast
qed

section \<open>Properties\<close>

definition sample_tables :: "u32 \<Rightarrow> u8 \<Rightarrow> map_entries option" where
  "sample_tables mp d = (if mp = 533 \<and> d = 3 then Some weekly_raid else None)"

definition sample_lock_env :: lock_env where
  "sample_lock_env = sample_env\<lparr>le_entries := sample_tables\<rparr>"

definition sample_player :: "u64 \<Rightarrow> ObjectGuid" where
  "sample_player c = CreatePlayer 1 0 c"

definition sample_script :: map_script where
  "sample_script = \<lparr>ms_SaveData = ''NAX'', ms_UpdateSaveData = (\<lambda>t. t @ ''x''), ms_Entrance = (\<lambda>_. None)\<rparr>"

text \<open>One player enters the raid, then another one on their own.\<close>

definition sample_first :: lock_mgr where
  "sample_first = snd (snd (the (Option.bind (start_server sample_lock_env 1 \<lparr>lt_locks = [], lt_instances = []\<rparr>)
     (enter_instance sample_lock_env (sample_player 7) weekly_raid 3 0 (\<lambda>_. False)))))"

definition sample_second :: lock_mgr where
  "sample_second = snd (snd (the (enter_instance sample_lock_env (sample_player 8) weekly_raid 3 0 (\<lambda>_. False) sample_first)))"

definition sample_lock :: "u32 \<Rightarrow> nat \<Rightarrow> instance_lock" where
  "sample_lock i a = (SharedInstanceLock_new 533 3 (from_time_t 1736233200) i a)\<lparr>il_isNew := True\<rparr>"

lemma sample_tables_ok: "entries_ok sample_tables (\<lambda>k. k = (533, 1))"
  by (auto simp: entries_ok_def sample_tables_def weekly_raid_def GetKey_def IsInstanceIdBound_def IsFlexLocking_def
      IsUsingEncounterLocks_def split: if_splits)

lemma sample_player_guid: "player_guid 1 (sample_player 7)" "player_guid 1 (sample_player 8)"
  by code_simp+

lemma sample_eval_start:
  "case start_server sample_lock_env 1 \<lparr>lt_locks = [], lt_instances = []\<rparr> of None \<Rightarrow> False
   | Some s \<Rightarrow> length (ii_free (lm_ids s)) = 2
       \<and> \<not> Option.is_none (enter_instance sample_lock_env (sample_player 7) weekly_raid 3 0 (\<lambda>_. False) s)"
  by code_simp

lemma sample_eval_first:
  "length (ii_free (lm_ids sample_first)) = 3
   \<and> FindActiveInstanceLock sample_lock_env (sample_player 7) weekly_raid sample_first = Some (True, sample_lock 1 0)
   \<and> \<not> Option.is_none (enter_instance sample_lock_env (sample_player 8) weekly_raid 3 0 (\<lambda>_. False) sample_first)"
  by code_simp

lemma sample_eval_second:
  "FindActiveInstanceLock sample_lock_env (sample_player 8) weekly_raid sample_second = Some (True, sample_lock 2 1)
   \<and> FindActiveInstanceLock sample_lock_env (sample_player 7) weekly_raid sample_second = Some (True, sample_lock 1 0)"
  by code_simp

lemmas sample_eval = sample_eval_start sample_eval_first sample_eval_second

lemma sample_facts:
  "le_entries sample_lock_env = sample_tables" "sample_tables 533 3 = Some weekly_raid" "HasResetSchedule weekly_raid"
  by (simp_all add: sample_lock_env_def sample_tables_def HasResetSchedule_def weekly_raid_def)

lemma sample_reach: "lock_reach sample_tables 1 sample_first" "lock_reach sample_tables 1 sample_second"
proof -
  from sample_eval(1) obtain s where s: "start_server sample_lock_env 1 \<lparr>lt_locks = [], lt_instances = []\<rparr> = Some s"
      "length (ii_free (lm_ids s)) = 2"
      "\<not> Option.is_none (enter_instance sample_lock_env (sample_player 7) weekly_raid 3 0 (\<lambda>_. False) s)"
    by (auto split: option.splits)
  then obtain i d where e1: "enter_instance sample_lock_env (sample_player 7) weekly_raid 3 0 (\<lambda>_. False) s = Some (i, d, sample_first)"
    by (cases "enter_instance sample_lock_env (sample_player 7) weekly_raid 3 0 (\<lambda>_. False) s") (auto simp: sample_first_def)
  have r0: "lock_reach sample_tables 1 s" by (rule lock_reach.start [OF s(1)])
  have "lock_step sample_tables 1 s sample_first"
    by (rule lock_step.enter [OF sample_facts sample_player_guid(1) _ e1]) (simp add: s(2))
  with r0 show r1: "lock_reach sample_tables 1 sample_first" by (rule lock_reach.step)
  from sample_eval(2) obtain i d where
    e2: "enter_instance sample_lock_env (sample_player 8) weekly_raid 3 0 (\<lambda>_. False) sample_first = Some (i, d, sample_second)"
    by (cases "enter_instance sample_lock_env (sample_player 8) weekly_raid 3 0 (\<lambda>_. False) sample_first") (auto simp: sample_second_def)
  have "lock_step sample_tables 1 sample_first sample_second"
    by (rule lock_step.enter [OF sample_facts sample_player_guid(2) _ e2]) (simp add: sample_eval(2))
  with r1 show "lock_reach sample_tables 1 sample_second" by (rule lock_reach.step)
qed

lemma FindActive_lock_at:
  assumes "HasResetSchedule m" and "FindActiveInstanceLock e p m s = Some (b, l)"
  shows "lock_at b s (p, GetKey m) = Some l"
proof (cases "FindActiveInstanceLock_with e p m True True s")
  case None
  with assms(2) show ?thesis by (auto simp: FindActive_cases [OF assms(1)])
next
  case (Some z)
  with assms(2) have "FindActiveInstanceLock_with e p m True True s = Some (b, l)" by (simp add: FindActive_cases [OF assms(1)])
  from FindActive_permanent [OF this] show ?thesis by simp
qed



text \<open>
  C9: a restart brings every permanent lock back: loading the tables of a reachable state succeeds, deletes
  nothing, and gives each player the same locks with the same text, completed encounters, expiry, extension
  and, for id bound ones, instance and shared state. (Temporary locks and the entrance are not brought back.)
\<close>

theorem restart_keeps_locks:
  assumes "lock_reach es rlm s" and "entries_ok es bnd" and "le_entries e = es"
    and "max_instance_id (lm_tables s) + 2 \<le> 2 ^ 32"
  shows "\<exists>s'. start_server e rlm (lm_tables s) = Some s' \<and> lm_tables s' = lm_tables s \<and> lm_temporary s' = []
    \<and> (\<forall>k. rel_option (reloaded (bnd (snd k)) (lm_heap s) (lm_heap s')) (lock_at False s k) (lock_at False s' k))"
  using restart_ok [OF reach_ok [OF assms(1,2)] assms(2-4)] by blast

definition sample_saved :: lock_mgr where
  "sample_saved = the (map_UpdateInstanceLock sample_lock_env weekly_raid 1 (Some (sample_lock 1 0)) sample_script (Some 4)
      [(sample_player 7, False)] sample_first)"

lemma sample_saved_eval:
  "\<not> Option.is_none (map_UpdateInstanceLock sample_lock_env weekly_raid 1 (Some (sample_lock 1 0)) sample_script (Some 4)
     [(sample_player 7, False)] sample_first)"
  "max_instance_id (lm_tables sample_saved) = 1 \<and> length (lt_locks (lm_tables sample_saved)) = 1"
  by code_simp+

lemma sample_saved_reach: "lock_reach sample_tables 1 sample_saved"
proof -
  have il: "il_instanceId (sample_lock 1 0) = 1"
    by (simp add: sample_lock_def SharedInstanceLock_new_def InstanceLock_new_def)
  have f: "FindActiveInstanceLock sample_lock_env (sample_player 7) weekly_raid sample_first = Some (True, sample_lock 1 0)"
    using sample_eval(2) by blast
  have allowed: "save_allowed 1 sample_lock_env weekly_raid (il_instanceId (sample_lock 1 0)) [(sample_player 7, False)] sample_first"
    using sample_player_guid(1) by (simp add: save_allowed_def may_lock_def f il)
  have enc: "\<forall>n. Some (4 :: nat) = Some n \<longrightarrow> n < 32" by simp
  have upd: "map_UpdateInstanceLock sample_lock_env weekly_raid (il_instanceId (sample_lock 1 0)) (Some (sample_lock 1 0)) sample_script
      (Some 4) [(sample_player 7, False)] sample_first = Some sample_saved"
    using sample_saved_eval(1) unfolding sample_saved_def il by (simp add: Option.is_none_def)
  have "lock_step sample_tables 1 sample_first sample_saved"
    by (rule lock_step.save [OF sample_facts FindActive_lock_at [OF sample_facts(3) f] snd_conv enc allowed upd])
  with sample_reach(1) show ?thesis by (rule lock_reach.step)
qed

lemma restart_keeps_locks_witness:
  "\<exists>s'. length (lt_locks (lm_tables sample_saved)) = 1
    \<and> start_server sample_lock_env 1 (lm_tables sample_saved) = Some s' \<and> lm_tables s' = lm_tables sample_saved \<and> lm_temporary s' = []
    \<and> (\<forall>k. rel_option (reloaded (snd k = (533, 1)) (lm_heap sample_saved) (lm_heap s')) (lock_at False sample_saved k) (lock_at False s' k))"
proof -
  have "max_instance_id (lm_tables sample_saved) + 2 \<le> 2 ^ 32" using sample_saved_eval(2) by simp
  from restart_keeps_locks [OF sample_saved_reach sample_tables_ok sample_facts(1) this] sample_saved_eval(2)
  show ?thesis by blast
qed



text \<open>
  C27: a player whose temporary lock belongs to another instance may join an id bound one, but the first
  encounter that is completed there with this player in the map fails the assertion on the instance id.
\<close>

theorem temporary_lock_elsewhere_fails:
  assumes "HasResetSchedule m" and "IsInstanceIdBound m"
    and "FindActiveInstanceLock e p m s = Some (True, l)" and "il_isNew l" and "il_instanceId l \<noteq> lu_InstanceId u"
  shows "CanJoinInstanceLock e p m il s = TRANSFER_ABORT_NONE \<and> UpdateInstanceLockForPlayer e tr p m u s = None"
proof
  show "CanJoinInstanceLock e p m il s = TRANSFER_ABORT_NONE"
    using assms by (simp add: CanJoinInstanceLock_def IsInstanceIdBound_def)
  have none: "FindActiveInstanceLock_with e p m True True s = None"
  proof (cases "FindActiveInstanceLock_with e p m True True s")
    case (Some x)
    with FindActive_permanent [of e p m True s "fst x" "snd x"] assms(3) show ?thesis
      by (simp add: FindActive_cases [OF assms(1)])
  qed
  then have at: "lock_at True s (p, GetKey m) = Some l"
    using FindActive_lock_at [OF assms(1,3)] by blast
  then obtain s1 where "promote_temporary (p, GetKey m) s = (Some l, s1)"
    by (simp add: promote_temporary_def Let_def)
  then show "UpdateInstanceLockForPlayer e tr p m u s = None"
    using assms(2,5) by (simp add: UpdateInstanceLockForPlayer_def locate_lock_def none same_instance_def)
qed

definition sample_update :: lock_update where
  "sample_update = \<lparr>lu_InstanceId = 1, lu_NewData = ''NAX'', lu_InstanceCompletedEncountersMask = 16,
     lu_CompletedEncounter = Some 4, lu_EntranceWorldSafeLocId = None\<rparr>"

lemma temporary_lock_elsewhere_fails_witness:
  "CanJoinInstanceLock sample_lock_env (sample_player 8) weekly_raid (sample_lock 1 0) sample_second = TRANSFER_ABORT_NONE
   \<and> UpdateInstanceLockForPlayer sample_lock_env [] (sample_player 8) weekly_raid sample_update sample_second = None"
proof (rule temporary_lock_elsewhere_fails)
  show "FindActiveInstanceLock sample_lock_env (sample_player 8) weekly_raid sample_second = Some (True, sample_lock 2 1)"
    using sample_eval(3) by blast
qed (code_simp+)



end
