(* ===== verification/BgPools.thy ===== *)
theory BgPools
  imports ObjectGuid
begin

text \<open>
  How the battleground queue selects whom to invite to a running battleground:
  \<open>src/src/server/game/Battlegrounds/BattlegroundQueue.h\<close> and \<open>.cpp\<close> (groups, selection pools,
  \<open>FillPlayersToBG\<close>) and the free slots of \<open>Battleground.cpp\<close>.

  \<^item> A queued group is a cell of a heap; queues and pools hold addresses. \<open>None\<close> is the use of a deleted
    group, an iterator that leaves its list, or a loop that does not end.
  \<^item> The keys of the map \<open>Players\<close> are a sorted list; the values, pointers into \<open>m_QueuedPlayers\<close>, are never
    read. Counts of players are \<open>nat\<close> and differences of free slots \<open>int\<close>: they are bounded by the size of a
    team, 16 bits. The counters of a battleground keep their width.
\<close>

section \<open>Groups, teams and battlegrounds\<close>

datatype team = HORDE | ALLIANCE | TEAM_OTHER

datatype team_id = TEAM_ALLIANCE | TEAM_HORDE

fun other_team :: "team_id \<Rightarrow> team_id" where
  "other_team TEAM_ALLIANCE = TEAM_HORDE"
| "other_team TEAM_HORDE = TEAM_ALLIANCE"

fun team_of :: "team_id \<Rightarrow> team" where
  "team_of TEAM_ALLIANCE = ALLIANCE"
| "team_of TEAM_HORDE = HORDE"

record group_queue_info =
  gq_Players :: "ObjectGuid list"
  gq_Team :: team
  gq_ArenaTeamId :: u32
  gq_JoinTime :: u32
  gq_RemoveInviteTime :: u32
  gq_IsInvitedToBGInstanceGUID :: u32
  gq_ArenaTeamRating :: u32
  gq_ArenaMatchmakerRating :: u32
  gq_OpponentsTeamRating :: u32
  gq_OpponentsMatchmakerRating :: u32

type_synonym group_heap = "nat \<Rightarrow> group_queue_info option"

datatype bg_status = STATUS_NONE | STATUS_WAIT_QUEUE | STATUS_WAIT_JOIN | STATUS_IN_PROGRESS | STATUS_WAIT_LEAVE

datatype invitation_type = BG_QUEUE_INVITATION_TYPE_NO_BALANCE | BG_QUEUE_INVITATION_TYPE_BALANCED
  | BG_QUEUE_INVITATION_TYPE_EVEN

record battleground =
  bg_InstanceID :: u32
  bg_MapId :: u32
  bg_BracketId :: nat
  bg_Status :: bg_status
  bg_isRated :: bool
  bg_isArena :: bool
  bg_ArenaType :: u8
  bg_MinPlayers :: u16
  bg_MaxPlayers :: u16
  bg_InvitedAlliance :: u32
  bg_InvitedHorde :: u32
  bg_PlayersCount :: "team_id \<Rightarrow> u32"
  bg_PlayersSize :: u32
  bg_InBGFreeSlotQueue :: bool
  bg_ArenaTeamIds :: "team_id \<Rightarrow> u32"
  bg_ArenaTeamMMR :: "team_id \<Rightarrow> u32"

definition GetTeamIndexByTeamId :: "team \<Rightarrow> team_id" where
  "GetTeamIndexByTeamId t = (if t = ALLIANCE then TEAM_ALLIANCE else TEAM_HORDE)"

definition DecreaseInvitedCount :: "team \<Rightarrow> battleground \<Rightarrow> battleground" where
  "DecreaseInvitedCount t b =
     (if t = ALLIANCE then b\<lparr>bg_InvitedAlliance := bg_InvitedAlliance b - 1\<rparr>
      else b\<lparr>bg_InvitedHorde := bg_InvitedHorde b - 1\<rparr>)"

definition IncreaseInvitedCount :: "team \<Rightarrow> battleground \<Rightarrow> battleground" where
  "IncreaseInvitedCount t b =
     (if t = ALLIANCE then b\<lparr>bg_InvitedAlliance := bg_InvitedAlliance b + 1\<rparr>
      else b\<lparr>bg_InvitedHorde := bg_InvitedHorde b + 1\<rparr>)"

definition GetInvitedCount :: "team \<Rightarrow> battleground \<Rightarrow> u32" where
  "GetInvitedCount t b = (if t = ALLIANCE then bg_InvitedAlliance b else bg_InvitedHorde b)"

definition GetPlayersCountByTeam :: "team \<Rightarrow> battleground \<Rightarrow> u32" where
  "GetPlayersCountByTeam t b = bg_PlayersCount b (GetTeamIndexByTeamId t)"

definition GetMaxPlayersPerTeam :: "battleground \<Rightarrow> u32" where
  "GetMaxPlayersPerTeam b =
     (if bg_isArena b \<and> bg_ArenaType b \<in> {2, 3, 5} then ucast (bg_ArenaType b) else ucast (bg_MaxPlayers b))"

definition GetMinPlayersPerTeam :: "battleground \<Rightarrow> u32" where
  "GetMinPlayersPerTeam b = ucast (bg_MinPlayers b)"

definition HasFreeSlots :: "battleground \<Rightarrow> bool" where
  "HasFreeSlots b = (bg_PlayersSize b < GetMaxPlayersPerTeam b * 2)"

definition GetFreeSlotsForTeam :: "invitation_type \<Rightarrow> team \<Rightarrow> battleground \<Rightarrow> u32" where
  "GetFreeSlotsForTeam it t b =
     (let maxp = GetMaxPlayersPerTeam b; minp = GetMinPlayersPerTeam b;
          other = (if t = ALLIANCE then HORDE else ALLIANCE);
          own = (if t = ALLIANCE then ALLIANCE else HORDE);
          thisInvited = GetInvitedCount own b; otherInvited = GetInvitedCount other b;
          thisPlayers = GetPlayersCountByTeam own b; otherPlayers = GetPlayersCountByTeam other b
      in if bg_Status b = STATUS_WAIT_JOIN \<and> it = BG_QUEUE_INVITATION_TYPE_NO_BALANCE
         then (if GetInvitedCount t b < maxp then maxp - GetInvitedCount t b else 0)
         else if bg_Status b = STATUS_IN_PROGRESS \<or> bg_Status b = STATUS_WAIT_JOIN
         then
           (let diff = (if otherInvited = thisInvited then 1
                        else if thisInvited < otherInvited then otherInvited - thisInvited else 0);
                diff2 = (if thisInvited < maxp then maxp - thisInvited else 0);
                diff3 = (if otherPlayers = thisPlayers then 1
                         else if thisPlayers < otherPlayers then otherPlayers - thisPlayers
                         else if thisInvited \<le> minp then minp - thisInvited + 1 else 0)
            in min (min diff diff2) diff3)
         else 0)"

section \<open>Selection pools\<close>

record selection_pool =
  sp_SelectedGroups :: "nat list"
  sp_PlayerCount :: nat

definition sp_Init :: selection_pool where
  "sp_Init = \<lparr>sp_SelectedGroups = [], sp_PlayerCount = 0\<rparr>"

definition gq_size :: "group_queue_info \<Rightarrow> nat" where
  "gq_size g = length (gq_Players g)"

text \<open>
  The group to kick: the last one whose size is within one of \<open>sz\<close>, or else the last of the largest ones.
  \<open>k\<close> and \<open>n\<close> are the position and size of \<open>groupToKick\<close>, \<open>i\<close> is the position of the loop.
\<close>

fun kick_scan :: "group_heap \<Rightarrow> nat \<Rightarrow> nat list \<Rightarrow> nat \<Rightarrow> bool \<Rightarrow> nat \<Rightarrow> nat \<Rightarrow> nat option" where
  "kick_scan h sz [] i found k n = Some k"
| "kick_scan h sz (x # xs) i found k n =
     (case h x of
        None \<Rightarrow> None
      | Some g \<Rightarrow>
          if \<bar>int (gq_size g) - int sz\<bar> \<le> 1 then kick_scan h sz xs (i + 1) True i (gq_size g)
          else if \<not> found \<and> n \<le> gq_size g then kick_scan h sz xs (i + 1) found i (gq_size g)
          else kick_scan h sz xs (i + 1) found k n)"

definition sp_KickGroup :: "group_heap \<Rightarrow> nat \<Rightarrow> selection_pool \<Rightarrow> (bool \<times> selection_pool) option" where
  "sp_KickGroup h sz p =
     (case sp_SelectedGroups p of
        [] \<Rightarrow> if sp_PlayerCount p = 0 then Some (True, p) else None
      | x # xs \<Rightarrow>
          Option.bind (h x) (\<lambda>g0.
          Option.bind (kick_scan h sz (x # xs) 0 False 0 (gq_size g0)) (\<lambda>k.
            if sp_PlayerCount p = 0 then Some (True, p)
            else
              map_option
                (\<lambda>g. (\<not> gq_size g \<le> sz + 1,
                  \<lparr>sp_SelectedGroups = take k (x # xs) @ drop (k + 1) (x # xs),
                   sp_PlayerCount = sp_PlayerCount p - gq_size g\<rparr>))
                (h ((x # xs) ! k)))))"

definition sp_AddGroup :: "group_heap \<Rightarrow> nat \<Rightarrow> nat \<Rightarrow> selection_pool \<Rightarrow> (bool \<times> selection_pool) option" where
  "sp_AddGroup h ginfo desiredCount p =
     map_option
       (\<lambda>g. if gq_IsInvitedToBGInstanceGUID g = 0 \<and> sp_PlayerCount p + gq_size g \<le> desiredCount
            then (True, \<lparr>sp_SelectedGroups = sp_SelectedGroups p @ [ginfo], sp_PlayerCount = sp_PlayerCount p + gq_size g\<rparr>)
            else (sp_PlayerCount p < desiredCount, p))
       (h ginfo)"

section \<open>Filling a running battleground\<close>

text \<open>The loop that offers the rest of a queue to a pool; what is left of the queue is returned.\<close>

fun add_groups :: "group_heap \<Rightarrow> nat \<Rightarrow> nat list \<Rightarrow> selection_pool \<Rightarrow> (nat list \<times> selection_pool) option" where
  "add_groups h desired [] p = Some ([], p)"
| "add_groups h desired (x # xs) p =
     Option.bind (sp_AddGroup h x desired p)
       (\<lambda>(more, p1). if more then add_groups h desired xs p1 else Some (x # xs, p1))"

type_synonym fill_state = "(team_id \<Rightarrow> nat list) \<times> (team_id \<Rightarrow> selection_pool)"

abbreviation fill_rest :: "fill_state \<Rightarrow> team_id \<Rightarrow> nat list" where "fill_rest s \<equiv> fst s"
abbreviation fill_pool :: "fill_state \<Rightarrow> team_id \<Rightarrow> selection_pool" where "fill_pool s \<equiv> snd s"

text \<open>What is free for a team after its pool joins, \<open>diffAli\<close> and \<open>diffHorde\<close>.\<close>

definition fill_diff :: "(team_id \<Rightarrow> int) \<Rightarrow> fill_state \<Rightarrow> team_id \<Rightarrow> int" where
  "fill_diff free s t = free t - int (sp_PlayerCount (fill_pool s t))"

definition offer :: "group_heap \<Rightarrow> team_id \<Rightarrow> nat \<Rightarrow> fill_state \<Rightarrow> fill_state option" where
  "offer h t desired s =
     map_option (\<lambda>(r, p). ((fill_rest s)(t := r), (fill_pool s)(t := p)))
       (add_groups h desired (fill_rest s t) (fill_pool s t))"

definition kick :: "group_heap \<Rightarrow> team_id \<Rightarrow> nat \<Rightarrow> fill_state \<Rightarrow> (bool \<times> fill_state) option" where
  "kick h t sz s =
     map_option (\<lambda>(b, p). (b, fill_rest s, (fill_pool s)(t := p))) (sp_KickGroup h sz (fill_pool s t))"

text \<open>The two branches of the loop are each other's mirror images; the boolean is \<open>False\<close> at the \<open>break\<close>.\<close>

definition fill_branch :: "group_heap \<Rightarrow> (team_id \<Rightarrow> int) \<Rightarrow> team_id \<Rightarrow> fill_state \<Rightarrow> (bool \<times> fill_state) option" where
  "fill_branch h free t s =
     (let u = other_team t; dt = fill_diff free s t; du = fill_diff free s u in
      Option.bind (kick h t (nat (du - dt)) s) (\<lambda>(more, s1).
      Option.bind (if more then offer h t (if du \<le> free t then nat (free t - du) else 0) s1 else Some s1) (\<lambda>s2.
        if sp_PlayerCount (fill_pool s2 t) = 0 then
          (if free t \<le> du + 1 then Some (False, s2)
           else map_option (\<lambda>(_, s3). (True, s3)) (kick h u (nat (du - dt)) s2))
        else Some (True, s2))))"

partial_function (option) fill_loop :: "group_heap \<Rightarrow> (team_id \<Rightarrow> int) \<Rightarrow> fill_state \<Rightarrow> fill_state option" where
  "fill_loop h free s =
     (let diffAli = fill_diff free s TEAM_ALLIANCE; diffHorde = fill_diff free s TEAM_HORDE in
      if \<bar>diffAli - diffHorde\<bar> > 1
         \<and> (sp_PlayerCount (fill_pool s TEAM_HORDE) > 0 \<or> sp_PlayerCount (fill_pool s TEAM_ALLIANCE) > 0)
      then Option.bind (fill_branch h free (if diffAli < diffHorde then TEAM_ALLIANCE else TEAM_HORDE) s)
             (\<lambda>(go, s1). if go then fill_loop h free s1 else Some s1)
      else Some s)"

declare fill_loop.simps [code]

text \<open>The free slots with the correction for even teams. The counts are those of the groups in the queues.\<close>

definition fill_free :: "invitation_type \<Rightarrow> battleground \<Rightarrow> (team_id \<Rightarrow> nat list) \<Rightarrow> team_id \<Rightarrow> int" where
  "fill_free it bg queue =
     (let hordeFree = sint (GetFreeSlotsForTeam it HORDE bg); aliFree = sint (GetFreeSlotsForTeam it ALLIANCE bg);
          aliCount = int (length (queue TEAM_ALLIANCE)); hordeCount = int (length (queue TEAM_HORDE));
          hordeExtra = max (hordeCount - aliCount) 0; aliExtra = max (aliCount - hordeCount) 0
      in if it = BG_QUEUE_INVITATION_TYPE_EVEN \<and> hordeFree = 1 \<and> aliFree = 1 \<and> aliCount \<noteq> hordeCount
         then (\<lambda>t. if t = TEAM_ALLIANCE then max (aliFree - aliExtra) 0 else max (hordeFree - hordeExtra) 0)
         else (\<lambda>t. if t = TEAM_ALLIANCE then aliFree else hordeFree))"

definition FillPlayersToBG ::
    "invitation_type \<Rightarrow> group_heap \<Rightarrow> battleground \<Rightarrow> (team_id \<Rightarrow> nat list) \<Rightarrow> (team_id \<Rightarrow> selection_pool)
     \<Rightarrow> (team_id \<Rightarrow> selection_pool) option" where
  "FillPlayersToBG it h bg queue pools =
     (let free = fill_free it bg queue in
      Option.bind (offer h TEAM_ALLIANCE (nat (free TEAM_ALLIANCE)) (queue, pools)) (\<lambda>s1.
      Option.bind (offer h TEAM_HORDE (nat (free TEAM_HORDE)) s1) (\<lambda>s2.
        if it = BG_QUEUE_INVITATION_TYPE_NO_BALANCE then Some (fill_pool s2)
        else map_option snd (fill_loop h free s2))))"

section \<open>Pools hold whole groups that wait\<close>

definition waiting :: "group_heap \<Rightarrow> nat \<Rightarrow> bool" where
  "waiting h a \<longleftrightarrow> (\<exists>g. h a = Some g \<and> gq_Players g \<noteq> [])"

definition uninvited :: "group_heap \<Rightarrow> nat \<Rightarrow> bool" where
  "uninvited h a \<longleftrightarrow> (\<exists>g. h a = Some g \<and> gq_IsInvitedToBGInstanceGUID g = 0)"

definition players_in :: "group_heap \<Rightarrow> nat list \<Rightarrow> nat" where
  "players_in h xs = sum_list (map (\<lambda>a. gq_size (the (h a))) xs)"

lemma players_in_simps [simp]:
  "players_in h [] = 0" "players_in h (x # xs) = gq_size (the (h x)) + players_in h xs"
  "players_in h (xs @ ys) = players_in h xs + players_in h ys"
  by (simp_all add: players_in_def)

definition pool_ok :: "group_heap \<Rightarrow> selection_pool \<Rightarrow> bool" where
  "pool_ok h p \<longleftrightarrow> distinct (sp_SelectedGroups p)
     \<and> (\<forall>a \<in> set (sp_SelectedGroups p). waiting h a \<and> uninvited h a)
     \<and> sp_PlayerCount p = players_in h (sp_SelectedGroups p)"

lemma pool_ok_Init [simp]: "pool_ok h sp_Init"
  by (simp add: pool_ok_def sp_Init_def)

lemma pool_empty: "pool_ok h p \<Longrightarrow> sp_PlayerCount p = 0 \<longleftrightarrow> sp_SelectedGroups p = []"
  by (cases "sp_SelectedGroups p") (auto simp: pool_ok_def waiting_def gq_size_def)

lemma kick_scan_ok:
  "\<forall>a \<in> set xs. waiting h a \<Longrightarrow> \<exists>k'. kick_scan h sz xs i found k n = Some k' \<and> (k' = k \<or> i \<le> k' \<and> k' < i + length xs)"
proof (induction h sz xs i found k n rule: kick_scan.induct)
  case (2 h sz x xs i found k n)
  then obtain g where g: "h x = Some g" by (auto simp: waiting_def)
  with 2 show ?case by (fastforce split: if_splits)
qed simp

text \<open>Kicking from a pool with players takes out exactly one group.\<close>

lemma sp_KickGroup_ok:
  assumes "pool_ok h p"
  shows "\<exists>b p'. sp_KickGroup h sz p = Some (b, p') \<and> pool_ok h p'
    \<and> set (sp_SelectedGroups p') \<subseteq> set (sp_SelectedGroups p) \<and> sp_PlayerCount p' \<le> sp_PlayerCount p
    \<and> (if sp_PlayerCount p = 0 then b \<and> p' = p
       else length (sp_SelectedGroups p') < length (sp_SelectedGroups p))"
proof (cases "sp_SelectedGroups p")
  case Nil
  with assms have "sp_KickGroup h sz p = Some (True, p)" "sp_PlayerCount p = 0"
    by (simp_all add: sp_KickGroup_def pool_ok_def)
  with assms show ?thesis by (intro exI [of _ True] exI [of _ p]) simp
next
  case (Cons x xs)
  note ok = assms [unfolded pool_ok_def Cons]
  from ok obtain g0 where g0: "h x = Some g0" by (auto simp: waiting_def)
  from ok kick_scan_ok [of "x # xs" h sz 0 False 0 "gq_size g0"] obtain k
    where k: "kick_scan h sz (x # xs) 0 False 0 (gq_size g0) = Some k" and kl: "k < length (x # xs)" by auto
  let ?ys = "take k (x # xs)" and ?zs = "drop (k + 1) (x # xs)" and ?y = "(x # xs) ! k"
  from kl have split: "x # xs = ?ys @ ?y # ?zs" using id_take_nth_drop [OF kl] by simp
  then have y: "?y \<in> set (x # xs)" by (metis in_set_conv_decomp)
  with ok obtain g where g: "h ?y = Some g" by (auto simp: waiting_def)
  from arg_cong [OF split, of distinct] ok have "distinct (?ys @ ?zs)" by auto
  moreover from arg_cong [OF split, of set] have sub: "set (?ys @ ?zs) \<subseteq> set (x # xs)" by auto
  moreover from arg_cong [OF split, of "players_in h"] ok g
  have cnt: "sp_PlayerCount p = players_in h (?ys @ ?zs) + gq_size g" by simp
  ultimately have "pool_ok h \<lparr>sp_SelectedGroups = ?ys @ ?zs, sp_PlayerCount = sp_PlayerCount p - gq_size g\<rparr>"
    using ok unfolding pool_ok_def by auto
  moreover have "length (?ys @ ?zs) < length (x # xs)" using arg_cong [OF split, of length] by simp
  moreover have "sp_KickGroup h sz p = (if sp_PlayerCount p = 0 then Some (True, p)
      else Some (\<not> gq_size g \<le> sz + 1, \<lparr>sp_SelectedGroups = ?ys @ ?zs, sp_PlayerCount = sp_PlayerCount p - gq_size g\<rparr>))"
    unfolding sp_KickGroup_def Cons list.case g0 Option.bind.simps k g option.map by (rule refl)
  ultimately show ?thesis using sub assms by (cases "sp_PlayerCount p = 0") (auto simp: Cons)
qed

lemma pool_ok_add:
  assumes "pool_ok h p" and "waiting h a" and "uninvited h a" and "a \<notin> set (sp_SelectedGroups p)"
  shows "pool_ok h \<lparr>sp_SelectedGroups = sp_SelectedGroups p @ [a], sp_PlayerCount = sp_PlayerCount p + gq_size (the (h a))\<rparr>"
  using assms by (auto simp: pool_ok_def)

definition room_left :: "nat list \<times> selection_pool \<Rightarrow> nat" where
  "room_left s = 2 * length (fst s) + length (sp_SelectedGroups (snd s))"

text \<open>Offering the rest of a queue: a front part of it is used up, and the pool stays within what is desired.\<close>

lemma add_groups_ok:
  assumes "pool_ok h p" and "\<forall>a \<in> set xs. waiting h a" and "distinct xs"
    and "set xs \<inter> set (sp_SelectedGroups p) = {}"
  shows "\<exists>ys r p'. add_groups h d xs p = Some (r, p') \<and> xs = ys @ r \<and> pool_ok h p'
    \<and> set (sp_SelectedGroups p') \<subseteq> set (sp_SelectedGroups p) \<union> set ys
    \<and> sp_PlayerCount p' \<le> max (sp_PlayerCount p) d
    \<and> (if ys = [] then p' = p else room_left (r, p') < room_left (xs, p))"
  using assms
proof (induction xs arbitrary: p)
  case Nil
  then show ?case by auto
next
  case (Cons x xs)
  then obtain g where g: "h x = Some g" by (auto simp: waiting_def)
  consider (taken) "gq_IsInvitedToBGInstanceGUID g = 0" "sp_PlayerCount p + gq_size g \<le> d"
    | (passed) "\<not> (gq_IsInvitedToBGInstanceGUID g = 0 \<and> sp_PlayerCount p + gq_size g \<le> d)" "sp_PlayerCount p < d"
    | (full) "\<not> (gq_IsInvitedToBGInstanceGUID g = 0 \<and> sp_PlayerCount p + gq_size g \<le> d)" "\<not> sp_PlayerCount p < d"
    by blast
  then show ?case
  proof cases
    case taken
    let ?p = "\<lparr>sp_SelectedGroups = sp_SelectedGroups p @ [x], sp_PlayerCount = sp_PlayerCount p + gq_size g\<rparr>"
    have "pool_ok h ?p" using pool_ok_add [of h p x] Cons.prems taken(1) g by (auto simp: uninvited_def)
    moreover have "set xs \<inter> set (sp_SelectedGroups ?p) = {}" using Cons.prems by auto
    ultimately obtain ys r p' where IH: "add_groups h d xs ?p = Some (r, p')" "xs = ys @ r" "pool_ok h p'"
        "set (sp_SelectedGroups p') \<subseteq> set (sp_SelectedGroups ?p) \<union> set ys"
        "sp_PlayerCount p' \<le> max (sp_PlayerCount ?p) d" "if ys = [] then p' = ?p else room_left (r, p') < room_left (xs, ?p)"
      using Cons.IH [of ?p] Cons.prems by auto
    then have "add_groups h d (x # xs) p = Some (r, p')" "x # xs = (x # ys) @ r"
      "room_left (r, p') < room_left (x # xs, p)"
      using taken g by (auto simp: sp_AddGroup_def room_left_def split: if_splits)
    then show ?thesis using IH taken by (intro exI [of _ "x # ys"] exI [of _ r] exI [of _ p']) auto
  next
    case passed
    then obtain ys r p' where IH: "add_groups h d xs p = Some (r, p')" "xs = ys @ r" "pool_ok h p'"
        "set (sp_SelectedGroups p') \<subseteq> set (sp_SelectedGroups p) \<union> set ys"
        "sp_PlayerCount p' \<le> max (sp_PlayerCount p) d" "if ys = [] then p' = p else room_left (r, p') < room_left (xs, p)"
      using Cons.IH [of p] Cons.prems by auto
    then have "add_groups h d (x # xs) p = Some (r, p')" "x # xs = (x # ys) @ r"
      "room_left (r, p') < room_left (x # xs, p)"
      using passed g by (auto simp: sp_AddGroup_def room_left_def split: if_splits)
    then show ?thesis using IH by (intro exI [of _ "x # ys"] exI [of _ r] exI [of _ p']) auto
  next
    case full
    then show ?thesis using g Cons.prems by (auto simp: sp_AddGroup_def)
  qed
qed

section \<open>The loop ends\<close>

text \<open>The state of the loop: for each team a front part of its queue was looked at, and the pool fits.\<close>

definition fill_ok :: "group_heap \<Rightarrow> (team_id \<Rightarrow> int) \<Rightarrow> (team_id \<Rightarrow> nat list) \<Rightarrow> fill_state \<Rightarrow> bool" where
  "fill_ok h free queue s \<longleftrightarrow>
     (\<forall>t. pool_ok h (fill_pool s t) \<and> int (sp_PlayerCount (fill_pool s t)) \<le> free t
       \<and> (\<exists>ys. queue t = ys @ fill_rest s t \<and> set (sp_SelectedGroups (fill_pool s t)) \<subseteq> set ys))"

definition queues_fine :: "group_heap \<Rightarrow> (team_id \<Rightarrow> nat list) \<Rightarrow> bool" where
  "queues_fine h queue \<longleftrightarrow> (\<forall>t. distinct (queue t) \<and> (\<forall>a \<in> set (queue t). waiting h a))"

definition fill_size :: "fill_state \<Rightarrow> nat" where
  "fill_size s = room_left (fill_rest s TEAM_ALLIANCE, fill_pool s TEAM_ALLIANCE)
     + room_left (fill_rest s TEAM_HORDE, fill_pool s TEAM_HORDE)"

lemma fill_size_team: "fill_size s = room_left (fill_rest s t, fill_pool s t)
    + room_left (fill_rest s (other_team t), fill_pool s (other_team t))"
  by (cases t) (simp_all add: fill_size_def)

lemma other_team_simps [simp]: "other_team t \<noteq> t" "t \<noteq> other_team t" "other_team (other_team t) = t"
  by (cases t; simp)+

lemma fill_ok_upd:
  assumes "fill_ok h free queue s" and "pool_ok h p" and "int (sp_PlayerCount p) \<le> free t"
    and "queue t = ys @ r" and "set (sp_SelectedGroups p) \<subseteq> set ys"
  shows "fill_ok h free queue ((fill_rest s)(t := r), (fill_pool s)(t := p))"
  using assms unfolding fill_ok_def by auto

lemma kick_ok:
  assumes "fill_ok h free queue s"
  shows "\<exists>b s'. kick h t sz s = Some (b, s') \<and> fill_ok h free queue s' \<and> fill_pool s' (other_team t) = fill_pool s (other_team t)
    \<and> fill_rest s' = fill_rest s
    \<and> (if sp_PlayerCount (fill_pool s t) = 0 then b \<and> s' = s else fill_size s' < fill_size s)"
proof -
  from assms have pt: "pool_ok h (fill_pool s t)" and f: "int (sp_PlayerCount (fill_pool s t)) \<le> free t"
    by (simp_all add: fill_ok_def)
  from assms obtain ys where ys: "queue t = ys @ fill_rest s t" "set (sp_SelectedGroups (fill_pool s t)) \<subseteq> set ys"
    unfolding fill_ok_def by blast
  from sp_KickGroup_ok [OF pt, of sz] obtain b p' where k: "sp_KickGroup h sz (fill_pool s t) = Some (b, p')" "pool_ok h p'"
      "set (sp_SelectedGroups p') \<subseteq> set (sp_SelectedGroups (fill_pool s t))" "sp_PlayerCount p' \<le> sp_PlayerCount (fill_pool s t)"
      "if sp_PlayerCount (fill_pool s t) = 0 then b \<and> p' = fill_pool s t
       else length (sp_SelectedGroups p') < length (sp_SelectedGroups (fill_pool s t))" by blast
  let ?s = "((fill_rest s)(t := fill_rest s t), (fill_pool s)(t := p'))"
  have "fill_ok h free queue ?s" using k ys f by (intro fill_ok_upd [OF assms, of p' t ys "fill_rest s t"]) auto
  then have "fill_ok h free queue (fill_rest s, (fill_pool s)(t := p'))" by simp
  moreover have "kick h t sz s = Some (b, fill_rest s, (fill_pool s)(t := p'))" by (simp add: kick_def k(1))
  moreover have "fill_size (fill_rest s, (fill_pool s)(t := p')) < fill_size s" if "sp_PlayerCount (fill_pool s t) \<noteq> 0"
    using k(5) that by (simp add: fill_size_team [of _ t] room_left_def)
  moreover have "(fill_rest s, (fill_pool s)(t := fill_pool s t)) = s" by (simp add: prod_eq_iff)
  ultimately show ?thesis using k(5) by (intro exI [of _ b] exI [of _ "(fill_rest s, (fill_pool s)(t := p'))"]) auto
qed

lemma offer_ok:
  assumes "fill_ok h free queue s" and "queues_fine h queue" and "int d \<le> free t"
  shows "\<exists>s'. offer h t d s = Some s' \<and> fill_ok h free queue s'
    \<and> fill_pool s' (other_team t) = fill_pool s (other_team t) \<and> fill_rest s' (other_team t) = fill_rest s (other_team t)
    \<and> (s' = s \<or> fill_size s' < fill_size s)"
proof -
  from assms have pt: "pool_ok h (fill_pool s t)" and f: "int (sp_PlayerCount (fill_pool s t)) \<le> free t"
    by (simp_all add: fill_ok_def)
  from assms obtain ys where ys: "queue t = ys @ fill_rest s t" "set (sp_SelectedGroups (fill_pool s t)) \<subseteq> set ys"
    unfolding fill_ok_def by blast
  from assms(2) have "distinct (queue t)" "\<forall>a \<in> set (queue t). waiting h a" by (simp_all add: queues_fine_def)
  with ys have "\<forall>a \<in> set (fill_rest s t). waiting h a" "distinct (fill_rest s t)"
    "set (fill_rest s t) \<inter> set (sp_SelectedGroups (fill_pool s t)) = {}" by auto
  from add_groups_ok [OF pt this, of d] obtain zs r p' where a: "add_groups h d (fill_rest s t) (fill_pool s t) = Some (r, p')"
      "fill_rest s t = zs @ r" "pool_ok h p'" "set (sp_SelectedGroups p') \<subseteq> set (sp_SelectedGroups (fill_pool s t)) \<union> set zs"
      "sp_PlayerCount p' \<le> max (sp_PlayerCount (fill_pool s t)) d"
      "if zs = [] then p' = fill_pool s t else room_left (r, p') < room_left (fill_rest s t, fill_pool s t)" by blast
  let ?s = "((fill_rest s)(t := r), (fill_pool s)(t := p'))"
  have "fill_ok h free queue ?s"
    using a ys f assms(3) by (intro fill_ok_upd [OF assms(1), of p' t "ys @ zs" r]) auto
  moreover have "offer h t d s = Some ?s" by (simp add: offer_def a(1))
  moreover have "?s = s \<or> fill_size ?s < fill_size s"
    using a(2,6) by (cases "zs = []") (auto simp: prod_eq_iff fill_size_team [of _ t])
  ultimately show ?thesis by auto
qed

text \<open>
  One round of the loop, for the team with fewer free slots: a group is kicked or the rest of a queue gets
  shorter, except at the break, where the team got nobody although the other one keeps at most one slot less.
\<close>

lemma fill_branch_ok:
  assumes ok: "fill_ok h free queue s" and qs: "queues_fine h queue"
    and some: "0 < sp_PlayerCount (fill_pool s t) \<or> 0 < sp_PlayerCount (fill_pool s (other_team t))"
  shows "\<exists>go s'. fill_branch h free t s = Some (go, s') \<and> fill_ok h free queue s'
    \<and> (if go then fill_size s' < fill_size s
       else sp_PlayerCount (fill_pool s' t) = 0 \<and> free t \<le> fill_diff free s' (other_team t) + 1)"
proof -
  let ?u = "other_team t"
  let ?dt = "fill_diff free s t" and ?du = "fill_diff free s ?u"
  have du: "0 \<le> ?du" using ok by (simp add: fill_ok_def fill_diff_def)
  obtain b s1 where k: "kick h t (nat (?du - ?dt)) s = Some (b, s1)" "fill_ok h free queue s1"
      "fill_pool s1 ?u = fill_pool s ?u" "fill_rest s1 = fill_rest s"
      "if sp_PlayerCount (fill_pool s t) = 0 then b \<and> s1 = s else fill_size s1 < fill_size s"
    using kick_ok [OF ok, of t] by blast
  let ?d = "if ?du \<le> free t then nat (free t - ?du) else 0"
  have "0 \<le> free t" using ok by (metis fill_ok_def of_nat_0_le_iff order_trans)
  with du have d: "int ?d \<le> free t" by auto
  define s2 where "s2 = (if b then the (offer h t ?d s1) else s1)"
  have o: "(if b then offer h t ?d s1 else Some s1) = Some s2 \<and> fill_ok h free queue s2
      \<and> fill_pool s2 ?u = fill_pool s ?u \<and> (s2 = s1 \<or> fill_size s2 < fill_size s1)"
    using offer_ok [OF k(2) qs d] k(2,3) by (cases b) (fastforce simp: s2_def)+
  have size2: "fill_size s2 < fill_size s \<or> s2 = s \<and> sp_PlayerCount (fill_pool s t) = 0"
    using o k(5) by (auto split: if_splits)
  show ?thesis
  proof (cases "sp_PlayerCount (fill_pool s2 t) = 0 \<and> \<not> free t \<le> ?du + 1")
    case True
    obtain b3 s3 where k3: "kick h ?u (nat (?du - ?dt)) s2 = Some (b3, s3)" "fill_ok h free queue s3"
        "if sp_PlayerCount (fill_pool s2 ?u) = 0 then b3 \<and> s3 = s2 else fill_size s3 < fill_size s2"
      using kick_ok [of h free queue s2 ?u] o by blast
    have "fill_size s3 < fill_size s" using k3(3) size2 some o by (auto split: if_splits)
    moreover have "fill_branch h free t s = Some (True, s3)"
      using True k(1) o k3(1) by (simp add: fill_branch_def Let_def split: if_splits)
    ultimately show ?thesis using k3(2) by auto
  next
    case False
    show ?thesis
    proof (cases "sp_PlayerCount (fill_pool s2 t) = 0")
      case True
      with False have "fill_branch h free t s = Some (False, s2)"
        using k(1) o by (simp add: fill_branch_def Let_def split: if_splits)
      moreover have "fill_diff free s2 ?u = ?du" using o by (simp add: fill_diff_def)
      ultimately show ?thesis using True False o by auto
    next
      case nonempty: False
      then have "fill_size s2 < fill_size s" using size2 by auto
      moreover from nonempty have "fill_branch h free t s = Some (True, s2)"
        using k(1) o by (simp add: fill_branch_def Let_def split: if_splits)
      ultimately show ?thesis using o by auto
    qed
  qed
qed

definition balanced :: "(team_id \<Rightarrow> int) \<Rightarrow> fill_state \<Rightarrow> bool" where
  "balanced free s \<longleftrightarrow> \<bar>fill_diff free s TEAM_ALLIANCE - fill_diff free s TEAM_HORDE\<bar> \<le> 1
     \<or> (\<exists>t. sp_PlayerCount (fill_pool s t) = 0
          \<and> (sp_PlayerCount (fill_pool s (other_team t)) = 0 \<or> free t \<le> fill_diff free s (other_team t) + 1))"

lemma fill_loop_ok:
  "fill_ok h free queue s \<Longrightarrow> queues_fine h queue \<Longrightarrow>
    \<exists>s'. fill_loop h free s = Some s' \<and> fill_ok h free queue s' \<and> balanced free s'"
proof (induction "fill_size s" arbitrary: s rule: less_induct)
  case less
  let ?a = "fill_diff free s TEAM_ALLIANCE" and ?h = "fill_diff free s TEAM_HORDE"
  let ?c = "\<bar>?a - ?h\<bar> > 1 \<and> (sp_PlayerCount (fill_pool s TEAM_HORDE) > 0 \<or> sp_PlayerCount (fill_pool s TEAM_ALLIANCE) > 0)"
  let ?t = "if ?a < ?h then TEAM_ALLIANCE else TEAM_HORDE"
  show ?case
  proof (cases ?c)
    case False
    then have "balanced free s"
      unfolding balanced_def by (metis gr0I linorder_not_less other_team.simps(1))
    moreover from False have "fill_loop h free s = Some s" by (subst fill_loop.simps) (simp only: Let_def False if_False)
    ultimately show ?thesis using less.prems by simp
  next
    case True
    then have "0 < sp_PlayerCount (fill_pool s ?t) \<or> 0 < sp_PlayerCount (fill_pool s (other_team ?t))" by auto
    from fill_branch_ok [OF less.prems this] obtain go s1 where b: "fill_branch h free ?t s = Some (go, s1)"
        "fill_ok h free queue s1" "if go then fill_size s1 < fill_size s
          else sp_PlayerCount (fill_pool s1 ?t) = 0 \<and> free ?t \<le> fill_diff free s1 (other_team ?t) + 1"
      by blast
    then have loop: "fill_loop h free s = (if go then fill_loop h free s1 else Some s1)"
      using True by (subst fill_loop.simps) (simp add: Let_def)
    show ?thesis
    proof (cases go)
      case True
      with b less.hyps [of s1] less.prems(2) loop show ?thesis by simp
    next
      case False
      with b have "balanced free s1" unfolding balanced_def by (intro disjI2 exI [of _ ?t]) simp
      with False b loop show ?thesis by simp
    qed
  qed
qed

section \<open>Free slots\<close>

lemma unat_ucast_le: "unat (ucast (w :: 'a::len word) :: 'b::len word) \<le> unat w"
  by (simp add: unsigned_ucast_eq take_bit_nat_less_eq_self)

lemma max_players_bound: "unat (GetMaxPlayersPerTeam b) < 2 ^ 16"
  using unat_ucast_le [of "bg_ArenaType b", where ?'b = 32] unat_ucast_le [of "bg_MaxPlayers b", where ?'b = 32]
    unsigned_less [of "bg_ArenaType b", where ?'a = nat] unsigned_less [of "bg_MaxPlayers b", where ?'a = nat]
  by (simp add: GetMaxPlayersPerTeam_def)

lemma free_slots_bound:
  assumes "t = ALLIANCE \<or> t = HORDE"
  shows "unat (GetFreeSlotsForTeam it t b) \<le> unat (GetMaxPlayersPerTeam b) - unat (GetInvitedCount t b)"
proof -
  let ?m = "GetMaxPlayersPerTeam b" and ?i = "GetInvitedCount t b"
  let ?x = "if ?i < ?m then ?m - ?i else 0"
  have own: "(if t = ALLIANCE then ALLIANCE else HORDE) = t" using assms by auto
  have "\<exists>P Q x y. GetFreeSlotsForTeam it t b = (if P then ?x else if Q then min (min x ?x) y else 0)"
    unfolding GetFreeSlotsForTeam_def Let_def own by (intro exI, rule refl)
  then have "GetFreeSlotsForTeam it t b \<le> ?x"
    by (elim exE) (simp only: min.coboundedI1 min.cobounded2 order_refl word_zero_le split: if_split, simp)
  then have "unat (GetFreeSlotsForTeam it t b) \<le> unat (if ?i < ?m then ?m - ?i else 0)"
    by (simp only: word_le_nat_alt)
  also have "\<dots> = unat ?m - unat ?i" by (cases "?i < ?m") (simp_all add: unat_sub less_imp_le, simp add: word_less_nat_alt)
  finally show ?thesis .
qed

lemma sint_small:
  assumes "unat (w :: u32) < 2 ^ 16"
  shows "sint w = int (unat w)"
proof -
  have u: "uint w = int (unat w)" by (rule uint_nat)
  have "uint w < 2 ^ 16"
    using of_nat_less_iff [THEN iffD2, OF assms, where ?'a1 = int] unfolding u by (simp only: of_nat_power of_nat_numeral)
  then have "signed_take_bit 31 (uint w) = uint w"
    by (intro signed_take_bit_int_eq_self) (rule order_trans [OF _ uint_ge_0], simp_all)
  then show ?thesis by (simp add: sint_uint)
qed

lemma free_slots_sint:
  "0 \<le> sint (GetFreeSlotsForTeam it (team_of t) b)"
  "sint (GetFreeSlotsForTeam it (team_of t) b) \<le> int (unat (GetMaxPlayersPerTeam b) - unat (GetInvitedCount (team_of t) b))"
proof -
  let ?f = "GetFreeSlotsForTeam it (team_of t) b"
  have f: "unat ?f \<le> unat (GetMaxPlayersPerTeam b) - unat (GetInvitedCount (team_of t) b)"
    by (rule free_slots_bound) (cases t; simp)
  have "sint ?f = int (unat ?f)"
    by (rule sint_small) (rule le_less_trans [OF f], rule le_less_trans [OF diff_le_self max_players_bound])
  with f show "0 \<le> sint ?f" "sint ?f \<le> int (unat (GetMaxPlayersPerTeam b) - unat (GetInvitedCount (team_of t) b))"
    by (simp_all only: of_nat_0_le_iff of_nat_le_iff)
qed

lemma fill_free_le: "0 \<le> fill_free it b queue t \<and> fill_free it b queue t \<le> sint (GetFreeSlotsForTeam it (team_of t) b)"
  using free_slots_sint(1) [of it TEAM_ALLIANCE b] free_slots_sint(1) [of it TEAM_HORDE b]
  by (cases t) (auto simp: fill_free_def Let_def)

lemma fill_free_bounds:
  "0 \<le> fill_free it b queue t"
  "fill_free it b queue t \<le> int (unat (GetMaxPlayersPerTeam b) - unat (GetInvitedCount (team_of t) b))"
  using fill_free_le [of it b queue t] free_slots_sint(2) [of it t b] by linarith+

lemma FillPlayersToBG_ok:
  assumes "queues_fine h queue"
  shows "\<exists>s. FillPlayersToBG it h b queue (\<lambda>_. sp_Init) = Some (fill_pool s)
    \<and> fill_ok h (fill_free it b queue) queue s
    \<and> (it \<noteq> BG_QUEUE_INVITATION_TYPE_NO_BALANCE \<longrightarrow> balanced (fill_free it b queue) s)"
proof -
  let ?f = "fill_free it b queue"
  have 0: "fill_ok h ?f queue (queue, \<lambda>_. sp_Init)" by (simp add: fill_ok_def fill_free_bounds) (simp add: sp_Init_def fill_free_bounds)
  from offer_ok [OF 0 assms, of "nat (?f TEAM_ALLIANCE)" TEAM_ALLIANCE] obtain s1
    where s1: "offer h TEAM_ALLIANCE (nat (?f TEAM_ALLIANCE)) (queue, \<lambda>_. sp_Init) = Some s1" "fill_ok h ?f queue s1"
    by (auto simp: fill_free_bounds)
  from offer_ok [OF s1(2) assms, of "nat (?f TEAM_HORDE)" TEAM_HORDE] obtain s2
    where s2: "offer h TEAM_HORDE (nat (?f TEAM_HORDE)) s1 = Some s2" "fill_ok h ?f queue s2"
    by (auto simp: fill_free_bounds)
  from fill_loop_ok [OF s2(2) assms] obtain s3 where s3: "fill_loop h ?f s2 = Some s3" "fill_ok h ?f queue s3" "balanced ?f s3"
    by blast
  show ?thesis
  proof (cases "it = BG_QUEUE_INVITATION_TYPE_NO_BALANCE")
    case True
    with s1 s2 show ?thesis by (intro exI [of _ s2]) (simp add: FillPlayersToBG_def)
  next
    case False
    with s1 s2 s3 show ?thesis by (intro exI [of _ s3]) (simp add: FillPlayersToBG_def)
  qed
qed

section \<open>Whom FillPlayersToBG selects\<close>


definition sample_group :: "nat \<Rightarrow> u32 \<Rightarrow> nat \<Rightarrow> group_queue_info" where
  "sample_group n invited k =
     \<lparr>gq_Players = map (\<lambda>i. CreatePlayer 1 0 (of_nat (10 * k + i))) [0..<n], gq_Team = ALLIANCE, gq_ArenaTeamId = 0, gq_JoinTime = 0,
      gq_RemoveInviteTime = 0, gq_IsInvitedToBGInstanceGUID = invited, gq_ArenaTeamRating = 0,
      gq_ArenaMatchmakerRating = 0, gq_OpponentsTeamRating = 0, gq_OpponentsMatchmakerRating = 0\<rparr>"

definition sample_heap :: group_heap where
  "sample_heap = [0 \<mapsto> sample_group 5 0 0, 1 \<mapsto> sample_group 1 0 1, 2 \<mapsto> sample_group 2 0 2, 3 \<mapsto> sample_group 1 9 3]"

definition sample_bg :: battleground where
  "sample_bg =
     \<lparr>bg_InstanceID = 9, bg_MapId = 489, bg_BracketId = 0, bg_Status = STATUS_IN_PROGRESS, bg_isRated = False,
      bg_isArena = False, bg_ArenaType = 0, bg_MinPlayers = 5, bg_MaxPlayers = 10, bg_InvitedAlliance = 4,
      bg_InvitedHorde = 10, bg_PlayersCount = (\<lambda>t. if t = TEAM_ALLIANCE then 4 else 10), bg_PlayersSize = 14,
      bg_InBGFreeSlotQueue = True, bg_ArenaTeamIds = (\<lambda>_. 0), bg_ArenaTeamMMR = (\<lambda>_. 0)\<rparr>"

definition sample_queue :: "team_id \<Rightarrow> nat list" where
  "sample_queue t = (if t = TEAM_ALLIANCE then [0, 3, 1] else [2])"


text \<open>
  With even teams required and one place free on each side, the longer of two queues of single players gets
  nobody and the shorter one gets a place: the teams are uneven afterwards.
\<close>

lemma FillPlayersToBG_even_is_uneven:
  assumes "\<forall>t. \<forall>a \<in> set (queue t). \<exists>g. h a = Some g \<and> gq_size g = 1 \<and> gq_IsInvitedToBGInstanceGUID g = 0"
    and "GetFreeSlotsForTeam BG_QUEUE_INVITATION_TYPE_EVEN ALLIANCE b = 1"
    and "GetFreeSlotsForTeam BG_QUEUE_INVITATION_TYPE_EVEN HORDE b = 1"
    and "queue TEAM_HORDE = x # xs" and "length (queue TEAM_HORDE) < length (queue TEAM_ALLIANCE)"
  shows "\<exists>pools. FillPlayersToBG BG_QUEUE_INVITATION_TYPE_EVEN h b queue (\<lambda>_. sp_Init) = Some pools
    \<and> sp_SelectedGroups (pools TEAM_ALLIANCE) = [] \<and> sp_SelectedGroups (pools TEAM_HORDE) = [x]"
proof -
  let ?f = "fill_free BG_QUEUE_INVITATION_TYPE_EVEN b queue"
  from assms(5) obtain y ys where y: "queue TEAM_ALLIANCE = y # ys" by (cases "queue TEAM_ALLIANCE") auto
  from assms(2-5) have f: "?f TEAM_ALLIANCE = 0" "?f TEAM_HORDE = 1" by (simp_all add: fill_free_def Let_def)
  from assms(1) obtain gy where gy: "h y = Some gy" "gq_size gy = 1" using y by (metis list.set_intros(1))
  from assms(1) obtain gx where gx: "h x = Some gx" "gq_size gx = 1" "gq_IsInvitedToBGInstanceGUID gx = 0"
    using assms(4) by (metis list.set_intros(1))
  define p where "p = \<lparr>sp_SelectedGroups = [x], sp_PlayerCount = 1\<rparr>"
  have xs: "\<forall>a \<in> set xs. \<exists>g. h a = Some g \<and> gq_size g = 1" using assms(1,4) by (metis list.set_intros(2))
  then have rest: "add_groups h 1 xs p = Some (xs, p)" by (cases xs) (auto simp: sp_AddGroup_def p_def)
  have 1: "offer h TEAM_ALLIANCE (nat (?f TEAM_ALLIANCE)) (queue, \<lambda>_. sp_Init) = Some (queue, \<lambda>_. sp_Init)"
    by (simp add: offer_def f y sp_AddGroup_def gy sp_Init_def fun_upd_idem)
  have 2: "offer h TEAM_HORDE (nat (?f TEAM_HORDE)) (queue, \<lambda>_. sp_Init)
      = Some (queue(TEAM_HORDE := xs), (\<lambda>_. sp_Init)(TEAM_HORDE := p))"
    using rest by (simp add: offer_def f assms(4) sp_AddGroup_def gx sp_Init_def p_def)
  have 3: "fill_loop h ?f (queue(TEAM_HORDE := xs), (\<lambda>_. sp_Init)(TEAM_HORDE := p))
      = Some (queue(TEAM_HORDE := xs), (\<lambda>_. sp_Init)(TEAM_HORDE := p))"
    by (subst fill_loop.simps) (simp add: Let_def fill_diff_def f p_def sp_Init_def)
  show ?thesis by (simp add: FillPlayersToBG_def Let_def 1 2 3) (simp add: p_def sp_Init_def)
qed

end
