(* ===== verification/BgQueue.thy ===== *)
theory BgQueue
  imports BgPools EventProcessor
begin

text \<open>
  The battleground queue: \<open>src/src/server/game/Battlegrounds/BattlegroundQueue.h\<close> and \<open>.cpp\<close>. One queue, with
  the battlegrounds it fills (the counters of \<open>Battleground\<close>, BgPools) and its delayed events (EventProcessor).

  \<^item> \<open>m_QueuedPlayers\<close> maps a player to the address of the group; the queues of the brackets hold addresses.
    Battlegrounds are found by instance id, \<open>bq_bgs\<close>, as \<open>GetBattleground\<close> does.
  \<^item> \<open>CreateNewBattleground\<close>, configuration, templates and what is asked of players are the environment; what is
    done to players, arena teams and clients is the list \<open>bq_out\<close>, in the order of the calls.
  \<^item> \<open>None\<close> is the use of a deleted group, an iterator that leaves its list, an index out of bounds, or a
    recursion that does not end. World announcements and log lines are left out.
\<close>

section \<open>State\<close>

datatype group_type = BG_QUEUE_PREMADE_ALLIANCE | BG_QUEUE_PREMADE_HORDE | BG_QUEUE_NORMAL_ALLIANCE
  | BG_QUEUE_NORMAL_HORDE

fun premade_type :: "team_id \<Rightarrow> group_type" where
  "premade_type TEAM_ALLIANCE = BG_QUEUE_PREMADE_ALLIANCE"
| "premade_type TEAM_HORDE = BG_QUEUE_PREMADE_HORDE"

fun normal_type :: "team_id \<Rightarrow> group_type" where
  "normal_type TEAM_ALLIANCE = BG_QUEUE_NORMAL_ALLIANCE"
| "normal_type TEAM_HORDE = BG_QUEUE_NORMAL_HORDE"

abbreviation "MAX_BATTLEGROUND_BRACKETS \<equiv> 16 :: nat"
abbreviation "COUNT_OF_PLAYERS_TO_AVERAGE_WAIT_TIME \<equiv> 10 :: nat"
abbreviation "INVITATION_REMIND_TIME \<equiv> 20000"
abbreviation "INVITE_ACCEPT_WAIT_TIME \<equiv> 90000"

datatype bg_event =
    BGQueueInviteEvent ObjectGuid u32 u32
  | BGQueueRemoveEvent ObjectGuid u32 u32

datatype bg_effect =
    OutMemberLost ObjectGuid u32 u32 bool
  | OutRemoveBattlegroundQueueId ObjectGuid
  | OutStatusNone ObjectGuid
  | OutNeedConfirmation ObjectGuid u32
  | OutSetInvite ObjectGuid u32
  | OutScheduleQueueUpdate nat

record bg_queue =
  bq_players :: "(ObjectGuid \<times> u32 \<times> nat) list"
  bq_groups :: "nat \<Rightarrow> group_type \<Rightarrow> nat list"
  bq_heap :: group_heap
  bq_fresh :: nat
  bq_pools :: "team_id \<Rightarrow> selection_pool"
  bq_WaitTimes :: "team_id \<Rightarrow> nat \<Rightarrow> u32 list"
  bq_WaitTimeLastPlayer :: "team_id \<Rightarrow> nat \<Rightarrow> nat"
  bq_SumOfWaitTimes :: "team_id \<Rightarrow> nat \<Rightarrow> u32"
  bq_bgs :: "u32 \<Rightarrow> battleground option"
  bq_freeSlots :: "u32 \<Rightarrow> u32 list"
  bq_out :: "bg_effect list"

type_synonym bg_state = "bg_event event_processor \<times> bg_queue"

record bg_template =
  bt_isArena :: bool
  bt_MinPlayers :: u16
  bt_MaxPlayers :: u16
  bt_MapIDs :: "16 word list"

record bg_env =
  qe_now :: u32
  qe_Rated :: bool
  qe_TeamSize :: u8
  qe_template :: "bg_template option"
  qe_connected :: "ObjectGuid \<Rightarrow> bool"
  qe_hasQueueSlot :: "ObjectGuid \<Rightarrow> bool"
  qe_arenaTeamExists :: "u32 \<Rightarrow> bool"
  qe_invitation :: invitation_type
  qe_premadeWait :: u32
  qe_testing :: bool
  qe_arenaTesting :: bool
  qe_maxRatingDifference :: u32
  qe_ratingDiscardTimer :: u32
  qe_Create :: "bool \<Rightarrow> battleground option"

definition BattlegroundQueue_new :: bg_queue where
  "BattlegroundQueue_new =
     \<lparr>bq_players = [], bq_groups = (\<lambda>_ _. []), bq_heap = (\<lambda>_. None), bq_fresh = 0, bq_pools = (\<lambda>_. sp_Init),
      bq_WaitTimes = (\<lambda>_ _. replicate COUNT_OF_PLAYERS_TO_AVERAGE_WAIT_TIME 0), bq_WaitTimeLastPlayer = (\<lambda>_ _. 0),
      bq_SumOfWaitTimes = (\<lambda>_ _. 0), bq_bgs = (\<lambda>_. None), bq_freeSlots = (\<lambda>_. []), bq_out = []\<rparr>"

definition bq_emit :: "bg_effect \<Rightarrow> bg_queue \<Rightarrow> bg_queue" where
  "bq_emit x q = q\<lparr>bq_out := bq_out q @ [x]\<rparr>"

definition set_group :: "nat \<Rightarrow> group_queue_info \<Rightarrow> bg_queue \<Rightarrow> bg_queue" where
  "set_group a g q = q\<lparr>bq_heap := (bq_heap q)(a \<mapsto> g)\<rparr>"

definition set_list :: "nat \<Rightarrow> group_type \<Rightarrow> nat list \<Rightarrow> bg_queue \<Rightarrow> bg_queue" where
  "set_list b j xs q = q\<lparr>bq_groups := (bq_groups q)(b := (bq_groups q b)(j := xs))\<rparr>"

definition set_bg :: "battleground \<Rightarrow> bg_queue \<Rightarrow> bg_queue" where
  "set_bg x q = q\<lparr>bq_bgs := (bq_bgs q)(bg_InstanceID x \<mapsto> x)\<rparr>"

definition set_pool :: "team_id \<Rightarrow> selection_pool \<Rightarrow> bg_queue \<Rightarrow> bg_queue" where
  "set_pool t p q = q\<lparr>bq_pools := (bq_pools q)(t := p)\<rparr>"

definition init_pools :: "bg_queue \<Rightarrow> bg_queue" where
  "init_pools q = set_pool TEAM_HORDE sp_Init (set_pool TEAM_ALLIANCE sp_Init q)"

section \<open>Joining and leaving\<close>

text \<open>\<open>members\<close> are the players of the leader's group, or the leader alone.\<close>

definition bq_AddGroup ::
    "bg_env \<Rightarrow> ObjectGuid list \<Rightarrow> team \<Rightarrow> nat \<Rightarrow> bool \<Rightarrow> u32 \<Rightarrow> u32 \<Rightarrow> u32 \<Rightarrow> bg_queue \<Rightarrow> nat \<times> bg_queue" where
  "bq_AddGroup e members t bracketId isPremade arenaRating matchmakerRating arenateamid q =
     (let ginfo = bq_fresh q;
          g = \<lparr>gq_Players = sorted_list_of_set (set members), gq_Team = t, gq_ArenaTeamId = arenateamid,
               gq_JoinTime = qe_now e, gq_RemoveInviteTime = 0, gq_IsInvitedToBGInstanceGUID = 0,
               gq_ArenaTeamRating = arenaRating, gq_ArenaMatchmakerRating = matchmakerRating,
               gq_OpponentsTeamRating = 0, gq_OpponentsMatchmakerRating = 0\<rparr>;
          ti = (if t = HORDE then TEAM_HORDE else TEAM_ALLIANCE);
          index = (if \<not> qe_Rated e \<and> \<not> isPremade then normal_type ti else premade_type ti);
          q1 = q\<lparr>bq_fresh := ginfo + 1, bq_heap := (bq_heap q)(ginfo \<mapsto> g),
                 bq_players := foldl (\<lambda>m p. om_set p (qe_now e, ginfo) m) (bq_players q) members\<rparr>
      in (ginfo, set_list bracketId index (bq_groups q1 bracketId index @ [ginfo]) q1))"

text \<open>The queue that holds the group of a player: brackets from the last to the first, both types of the team.\<close>

definition team_types :: "team \<Rightarrow> group_type list" where
  "team_types t = (if t = HORDE then [BG_QUEUE_PREMADE_HORDE, BG_QUEUE_NORMAL_HORDE]
                   else [BG_QUEUE_PREMADE_ALLIANCE, BG_QUEUE_NORMAL_ALLIANCE])"

definition find_group :: "nat \<Rightarrow> team \<Rightarrow> bg_queue \<Rightarrow> (nat \<times> group_type) option" where
  "find_group a t q =
     map_option (\<lambda>b. (b, last (filter (\<lambda>j. a \<in> set (bq_groups q b j)) (team_types t))))
       (find (\<lambda>b. \<exists>j \<in> set (team_types t). a \<in> set (bq_groups q b j)) (rev [0..<MAX_BATTLEGROUND_BRACKETS]))"

text \<open>What \<open>RemovePlayer\<close> does to the battleground, the arena team and the player before the group shrinks.\<close>

definition leave_effects :: "bg_env \<Rightarrow> ObjectGuid \<Rightarrow> bool \<Rightarrow> group_queue_info \<Rightarrow> bg_queue \<Rightarrow> bg_queue" where
  "leave_effects e guid decreaseInvitedCount g q =
     (let i = gq_IsInvitedToBGInstanceGUID g;
          q1 = (if decreaseInvitedCount \<and> i \<noteq> 0
                then (case bq_bgs q i of None \<Rightarrow> q | Some bg \<Rightarrow> q\<lparr>bq_bgs := (bq_bgs q)(i \<mapsto> DecreaseInvitedCount (gq_Team g) bg)\<rparr>)
                else q);
          q2 = q1\<lparr>bq_players := om_del guid (bq_players q1)\<rparr>
      in if i \<noteq> 0 \<and> qe_Rated e \<and> decreaseInvitedCount \<and> qe_arenaTeamExists e (gq_ArenaTeamId g)
         then bq_emit (OutMemberLost guid (gq_ArenaTeamId g) (gq_OpponentsMatchmakerRating g) (qe_connected e guid)) q2
         else q2)"

partial_function (option) bq_RemovePlayer :: "bg_env \<Rightarrow> ObjectGuid \<Rightarrow> bool \<Rightarrow> bg_queue \<Rightarrow> bg_queue option" where
  "bq_RemovePlayer e guid decreaseInvitedCount q =
     (case map_of (bq_players q) guid of
        None \<Rightarrow> Some q
      | Some (_, a) \<Rightarrow>
          (case bq_heap q a of
             None \<Rightarrow> None
           | Some g \<Rightarrow>
               (case find_group a (gq_Team g) q of
                  None \<Rightarrow> Some q
                | Some (b, j) \<Rightarrow>
                    (let g1 = g\<lparr>gq_Players := remove1 guid (gq_Players g)\<rparr>;
                         q1 = leave_effects e guid decreaseInvitedCount g (set_group a g1 q)
                     in if gq_Players g1 = []
                        then Some (set_list b j (remove1 a (bq_groups q1 b j)) (q1\<lparr>bq_heap := (bq_heap q1)(a := None)\<rparr>))
                        else if gq_IsInvitedToBGInstanceGUID g = 0 \<and> qe_Rated e
                        then (let p2 = hd (gq_Players g1) in
                              bq_RemovePlayer e p2 decreaseInvitedCount
                                (if qe_connected e p2 then bq_emit (OutStatusNone p2) (bq_emit (OutRemoveBattlegroundQueueId p2) q1)
                                 else q1))
                        else Some q1))))"

definition IsPlayerInvited :: "ObjectGuid \<Rightarrow> u32 \<Rightarrow> u32 \<Rightarrow> bg_queue \<Rightarrow> bool option" where
  "IsPlayerInvited pl_guid bgInstanceGuid removeTime q =
     (case map_of (bq_players q) pl_guid of
        None \<Rightarrow> Some False
      | Some (_, a) \<Rightarrow>
          map_option (\<lambda>g. gq_IsInvitedToBGInstanceGUID g = bgInstanceGuid \<and> gq_RemoveInviteTime g = removeTime)
            (bq_heap q a))"

definition GetPlayerGroupInfoData :: "ObjectGuid \<Rightarrow> bg_queue \<Rightarrow> group_queue_info option option" where
  "GetPlayerGroupInfoData guid q =
     (case map_of (bq_players q) guid of None \<Rightarrow> Some None | Some (_, a) \<Rightarrow> map_option Some (bq_heap q a))"

definition GetPlayersInQueue :: "team_id \<Rightarrow> bg_queue \<Rightarrow> nat" where
  "GetPlayersInQueue t q = sp_PlayerCount (bq_pools q t)"

section \<open>Waiting times\<close>

definition getMSTimeDiff :: "u32 \<Rightarrow> u32 \<Rightarrow> u32" where
  "getMSTimeDiff oldMSTime newMSTime =
     (if newMSTime < oldMSTime then (0xFFFFFFFF - oldMSTime) + newMSTime else newMSTime - oldMSTime)"

definition wait_team :: "bg_env \<Rightarrow> group_queue_info \<Rightarrow> team_id" where
  "wait_team e g =
     (if qe_TeamSize e = 0 then (if gq_Team g = HORDE then TEAM_HORDE else TEAM_ALLIANCE)
      else if qe_Rated e then TEAM_HORDE else TEAM_ALLIANCE)"

definition PlayerInvitedToBGUpdateAverageWaitTime :: "bg_env \<Rightarrow> group_queue_info \<Rightarrow> nat \<Rightarrow> bg_queue \<Rightarrow> bg_queue option" where
  "PlayerInvitedToBGUpdateAverageWaitTime e g b q =
     (let timeInQueue = getMSTimeDiff (gq_JoinTime g) (qe_now e); t = wait_team e g;
          lastPlayer = bq_WaitTimeLastPlayer q t b; times = bq_WaitTimes q t b
      in if lastPlayer < length times then
           Some (q\<lparr>bq_WaitTimes := (bq_WaitTimes q)(t := (bq_WaitTimes q t)(b := times[lastPlayer := timeInQueue])),
                   bq_SumOfWaitTimes := (bq_SumOfWaitTimes q)(t := (bq_SumOfWaitTimes q t)
                     (b := bq_SumOfWaitTimes q t b - times ! lastPlayer + timeInQueue)),
                   bq_WaitTimeLastPlayer := (bq_WaitTimeLastPlayer q)(t := (bq_WaitTimeLastPlayer q t)
                     (b := (lastPlayer + 1) mod COUNT_OF_PLAYERS_TO_AVERAGE_WAIT_TIME))\<rparr>)
         else None)"

definition GetAverageQueueWaitTime :: "bg_env \<Rightarrow> group_queue_info \<Rightarrow> nat \<Rightarrow> bg_queue \<Rightarrow> u32" where
  "GetAverageQueueWaitTime e g b q =
     (let t = wait_team e g in
      if bq_WaitTimes q t b ! (COUNT_OF_PLAYERS_TO_AVERAGE_WAIT_TIME - 1) \<noteq> 0
      then bq_SumOfWaitTimes q t b div of_nat COUNT_OF_PLAYERS_TO_AVERAGE_WAIT_TIME else 0)"

section \<open>Inviting a group\<close>

text \<open>The loop body for one player: counters, the player's slot, and the two delayed events.\<close>

definition invite_player ::
    "bg_env \<Rightarrow> nat \<Rightarrow> u32 \<Rightarrow> bg_state \<Rightarrow> ObjectGuid \<Rightarrow> bg_state option" where
  "invite_player e a i s p =
     (if \<not> qe_connected e p then Some s
      else
        (case (bq_heap (snd s) a, bq_bgs (snd s) i) of
           (Some g, Some bg) \<Rightarrow>
             Option.bind (PlayerInvitedToBGUpdateAverageWaitTime e g (bg_BracketId bg) (snd s)) (\<lambda>q1.
             let q2 = bq_emit (OutSetInvite p i) (q1\<lparr>bq_bgs := (bq_bgs q1)(i \<mapsto> IncreaseInvitedCount (gq_Team g) bg)\<rparr>);
                 (ev1, p1) = ep_new (BGQueueInviteEvent p i (gq_RemoveInviteTime g)) (fst s)
             in Option.bind (AddEventAtOffset ev1 INVITATION_REMIND_TIME p1) (\<lambda>p2.
                let (ev2, p3) = ep_new (BGQueueRemoveEvent p i (gq_RemoveInviteTime g)) p2
                in map_option (\<lambda>p4. (p4, bq_emit (OutNeedConfirmation p i) q2))
                     (AddEventAtOffset ev2 INVITE_ACCEPT_WAIT_TIME p3)))
         | _ \<Rightarrow> None))"

definition InviteGroupToBG :: "bg_env \<Rightarrow> u32 \<Rightarrow> team \<Rightarrow> nat \<Rightarrow> bg_state \<Rightarrow> (bool \<times> bg_state) option" where
  "InviteGroupToBG e i side a s =
     (case (bq_heap (snd s) a, bq_bgs (snd s) i) of
        (Some g0, Some bg) \<Rightarrow>
          (let g1 = (if side \<noteq> TEAM_OTHER then g0\<lparr>gq_Team := side\<rparr> else g0) in
           if gq_IsInvitedToBGInstanceGUID g1 = 0
           then
             (let g2 = g1\<lparr>gq_IsInvitedToBGInstanceGUID := bg_InstanceID bg,
                          gq_RemoveInviteTime := qe_now e + INVITE_ACCEPT_WAIT_TIME\<rparr>;
                  bg1 = (if bg_isArena bg \<and> bg_isRated bg
                         then bg\<lparr>bg_ArenaTeamIds := (bg_ArenaTeamIds bg)(GetTeamIndexByTeamId (gq_Team g2) := gq_ArenaTeamId g2)\<rparr>
                         else bg);
                  q1 = (set_group a g2 (snd s))\<lparr>bq_bgs := (bq_bgs (snd s))(i \<mapsto> bg1)\<rparr>
              in map_option (Pair True) (run_opt (invite_player e a i) (fst s, q1) (gq_Players g2)))
           else Some (False, fst s, set_group a g1 (snd s)))
      | _ \<Rightarrow> None)"

text \<open>Inviting the groups of a pool, each on its own side.\<close>

definition invite_own_side :: "bg_env \<Rightarrow> u32 \<Rightarrow> bg_state \<Rightarrow> nat \<Rightarrow> bg_state option" where
  "invite_own_side e i s a =
     Option.bind (bq_heap (snd s) a) (\<lambda>g. map_option snd (InviteGroupToBG e i (gq_Team g) a s))"

definition invite_pools :: "bg_env \<Rightarrow> u32 \<Rightarrow> bg_state \<Rightarrow> bg_state option" where
  "invite_pools e i s =
     Option.bind (run_opt (invite_own_side e i) s (sp_SelectedGroups (bq_pools (snd s) TEAM_ALLIANCE)))
       (\<lambda>s1. run_opt (invite_own_side e i) s1 (sp_SelectedGroups (bq_pools (snd s1) TEAM_HORDE)))"

section \<open>Making a match\<close>

text \<open>The part of a list from its first uninvited group on.\<close>

fun first_uninvited :: "group_heap \<Rightarrow> nat list \<Rightarrow> nat list option" where
  "first_uninvited h [] = Some []"
| "first_uninvited h (x # xs) =
     (case h x of
        None \<Rightarrow> None
      | Some g \<Rightarrow> if gq_IsInvitedToBGInstanceGUID g = 0 then Some (x # xs) else first_uninvited h xs)"

text \<open>The loops that offer the uninvited groups of a list until one does not fit a full pool.\<close>

fun offer_uninvited :: "group_heap \<Rightarrow> nat \<Rightarrow> nat list \<Rightarrow> selection_pool \<Rightarrow> selection_pool option" where
  "offer_uninvited h desired [] p = Some p"
| "offer_uninvited h desired (x # xs) p =
     (case h x of
        None \<Rightarrow> None
      | Some g \<Rightarrow>
          if gq_IsInvitedToBGInstanceGUID g \<noteq> 0 then offer_uninvited h desired xs p
          else Option.bind (sp_AddGroup h x desired p)
                 (\<lambda>(more, p1). if more then offer_uninvited h desired xs p1 else Some p1))"

text \<open>The two teams one after the other.\<close>

definition both_teams :: "(team_id \<Rightarrow> bg_queue \<Rightarrow> bg_queue option) \<Rightarrow> bg_queue \<Rightarrow> bg_queue option" where
  "both_teams f q = Option.bind (f TEAM_ALLIANCE q) (f TEAM_HORDE)"

definition premade_to_normal :: "bg_env \<Rightarrow> nat \<Rightarrow> nat \<Rightarrow> team_id \<Rightarrow> bg_queue \<Rightarrow> bg_queue option" where
  "premade_to_normal e b minPlayersPerTeam t q =
     (case bq_groups q b (premade_type t) of
        [] \<Rightarrow> Some q
      | x # xs \<Rightarrow>
          map_option
            (\<lambda>g. if gq_IsInvitedToBGInstanceGUID g = 0
                    \<and> (gq_JoinTime g < qe_now e - qe_premadeWait e \<or> gq_size g < minPlayersPerTeam)
                 then set_list b (premade_type t) xs
                        (set_list b (normal_type t) (x # bq_groups q b (normal_type t)) q)
                 else q)
            (bq_heap q x))"

definition CheckPremadeMatch :: "bg_env \<Rightarrow> nat \<Rightarrow> nat \<Rightarrow> nat \<Rightarrow> bg_queue \<Rightarrow> (bool \<times> bg_queue) option" where
  "CheckPremadeMatch e b minPlayersPerTeam maxPlayersPerTeam q =
     (let h = bq_heap q; ali = bq_groups q b BG_QUEUE_PREMADE_ALLIANCE; horde = bq_groups q b BG_QUEUE_PREMADE_HORDE;
          later = map_option (Pair False) (both_teams (premade_to_normal e b minPlayersPerTeam) q)
      in if ali \<noteq> [] \<and> horde \<noteq> [] then
           Option.bind (first_uninvited h ali) (\<lambda>ali_group.
           Option.bind (first_uninvited h horde) (\<lambda>horde_group.
             case (ali_group, horde_group) of
               (x # _, y # _) \<Rightarrow>
                 Option.bind (sp_AddGroup h x maxPlayersPerTeam (bq_pools q TEAM_ALLIANCE)) (\<lambda>(_, pa).
                 Option.bind (sp_AddGroup h y maxPlayersPerTeam (bq_pools q TEAM_HORDE)) (\<lambda>(_, ph).
                   let maxPlayers = min (sp_PlayerCount pa) (sp_PlayerCount ph) in
                   map_option (Pair True)
                     (both_teams
                       (\<lambda>t q. map_option (\<lambda>p. set_pool t p q)
                          (offer_uninvited h maxPlayers (bq_groups q b (normal_type t)) (bq_pools q t)))
                       (set_pool TEAM_HORDE ph (set_pool TEAM_ALLIANCE pa q)))))
             | _ \<Rightarrow> later))
         else later)"

text \<open>The first loop of \<open>CheckNormalMatch\<close> for one team; it returns where the iterator stopped.\<close>

fun normal_scan :: "group_heap \<Rightarrow> nat \<Rightarrow> nat \<Rightarrow> nat list \<Rightarrow> selection_pool \<Rightarrow> (nat list \<times> selection_pool) option" where
  "normal_scan h minPlayers maxPlayers [] p = Some ([], p)"
| "normal_scan h minPlayers maxPlayers (x # xs) p =
     (case h x of
        None \<Rightarrow> None
      | Some g \<Rightarrow>
          if gq_IsInvitedToBGInstanceGUID g \<noteq> 0 then normal_scan h minPlayers maxPlayers xs p
          else Option.bind (sp_AddGroup h x maxPlayers p)
                 (\<lambda>(_, p1). if minPlayers \<le> sp_PlayerCount p1 then Some (x # xs, p1)
                            else normal_scan h minPlayers maxPlayers xs p1))"

definition CheckNormalMatch :: "bg_env \<Rightarrow> nat \<Rightarrow> nat \<Rightarrow> nat \<Rightarrow> bg_queue \<Rightarrow> (bool \<times> bg_queue) option" where
  "CheckNormalMatch e b minPlayers maxPlayers q =
     (let h = bq_heap q in
      Option.bind (normal_scan h minPlayers maxPlayers (bq_groups q b BG_QUEUE_NORMAL_ALLIANCE) (bq_pools q TEAM_ALLIANCE)) (\<lambda>(ra, pa).
      Option.bind (normal_scan h minPlayers maxPlayers (bq_groups q b BG_QUEUE_NORMAL_HORDE) (bq_pools q TEAM_HORDE)) (\<lambda>(rh, ph).
        let q1 = set_pool TEAM_HORDE ph (set_pool TEAM_ALLIANCE pa q);
            j = (if sp_PlayerCount ph < sp_PlayerCount pa then TEAM_HORDE else TEAM_ALLIANCE);
            answer = (\<lambda>q. let a = sp_PlayerCount (bq_pools q TEAM_ALLIANCE); c = sp_PlayerCount (bq_pools q TEAM_HORDE) in
              if qe_testing e \<and> (a \<noteq> 0 \<or> c \<noteq> 0) then True else minPlayers \<le> a \<and> minPlayers \<le> c)
        in if qe_invitation e \<noteq> BG_QUEUE_INVITATION_TYPE_NO_BALANCE
              \<and> minPlayers \<le> sp_PlayerCount ph \<and> minPlayers \<le> sp_PlayerCount pa
           then
             (case (if j = TEAM_ALLIANCE then ra else rh) of
                [] \<Rightarrow> None
              | _ # rest \<Rightarrow>
                  map_option
                    (\<lambda>p. let q2 = set_pool j p q1 in
                      if \<bar>int (sp_PlayerCount (bq_pools q2 TEAM_HORDE)) - int (sp_PlayerCount (bq_pools q2 TEAM_ALLIANCE))\<bar> > 2
                      then (False, q2) else (answer q2, q2))
                    (offer_uninvited h (sp_PlayerCount (bq_pools q1 (other_team j))) rest (bq_pools q1 j)))
           else Some (answer q1, q1))))"

text \<open>Moving a selected group to the other side: its team, its queue. The search starts behind the last selected group.\<close>

definition change_side :: "nat \<Rightarrow> team_id \<Rightarrow> nat list \<Rightarrow> bg_queue \<Rightarrow> nat \<Rightarrow> bg_queue option" where
  "change_side b otherTeam front q a =
     map_option
       (\<lambda>g. let q1 = set_group a (g\<lparr>gq_Team := team_of otherTeam\<rparr>) q;
                q2 = set_list b (normal_type otherTeam) (a # bq_groups q1 b (normal_type otherTeam)) q1;
                own = normal_type (other_team otherTeam)
            in set_list b own (front @ remove1 a (drop (length front) (bq_groups q2 b own))) q2)
       (bq_heap q a)"

definition CheckSkirmishForSameFaction :: "nat \<Rightarrow> nat \<Rightarrow> bg_queue \<Rightarrow> (bool \<times> bg_queue) option" where
  "CheckSkirmishForSameFaction b minPlayersPerTeam q =
     (if GetPlayersInQueue TEAM_ALLIANCE q < minPlayersPerTeam \<and> GetPlayersInQueue TEAM_HORDE q < minPlayersPerTeam
      then Some (False, q)
      else
        (let t = (if GetPlayersInQueue TEAM_HORDE q = minPlayersPerTeam then TEAM_HORDE else TEAM_ALLIANCE);
             u = other_team t;
             q1 = set_pool u sp_Init q;
             queue = bq_groups q1 b (normal_type t)
         in if sp_SelectedGroups (bq_pools q1 t) = [] then None
            else
              (let ginfo = last (sp_SelectedGroups (bq_pools q1 t));
                   front = takeWhile (\<lambda>x. x \<noteq> ginfo) queue @ [ginfo]
               in if ginfo \<notin> set queue then Some (False, q1)
                  else Option.bind (offer_uninvited (bq_heap q1) minPlayersPerTeam (drop (length front) queue) (bq_pools q1 u)) (\<lambda>p.
                    let q2 = set_pool u p q1 in
                    if sp_PlayerCount p \<noteq> minPlayersPerTeam then Some (False, q2)
                    else map_option (Pair True) (run_opt (change_side b u front) q2 (sp_SelectedGroups p))))))"

section \<open>The update of the queue\<close>

definition AddToBGFreeSlotQueue :: "u32 \<Rightarrow> bg_queue \<Rightarrow> bg_queue option" where
  "AddToBGFreeSlotQueue i q =
     map_option
       (\<lambda>bg. if \<not> bg_InBGFreeSlotQueue bg \<and> \<not> bg_isArena bg
             then set_bg (bg\<lparr>bg_InBGFreeSlotQueue := True\<rparr>)
                    (q\<lparr>bq_freeSlots := (bq_freeSlots q)(bg_MapId bg := i # bq_freeSlots q (bg_MapId bg))\<rparr>)
             else q)
       (bq_bgs q i)"

definition RemoveFromBGFreeSlotQueue :: "u32 \<Rightarrow> bg_queue \<Rightarrow> bg_queue option" where
  "RemoveFromBGFreeSlotQueue i q =
     map_option
       (\<lambda>bg. if bg_InBGFreeSlotQueue bg
             then set_bg (bg\<lparr>bg_InBGFreeSlotQueue := False\<rparr>)
                    (q\<lparr>bq_freeSlots := (bq_freeSlots q)(bg_MapId bg := remove1 i (bq_freeSlots q (bg_MapId bg)))\<rparr>)
             else q)
       (bq_bgs q i)"

text \<open>One battleground with free slots.\<close>

definition fill_one :: "bg_env \<Rightarrow> nat \<Rightarrow> bg_state \<Rightarrow> u32 \<Rightarrow> bg_state option" where
  "fill_one e b s i =
     (case bq_bgs (snd s) i of
        None \<Rightarrow> None
      | Some bg \<Rightarrow>
          if \<not> bg_isRated bg \<and> bg_BracketId bg = b \<and> bg_Status bg \<in> {STATUS_WAIT_JOIN, STATUS_IN_PROGRESS}
          then
            (let q1 = init_pools (snd s) in
             Option.bind (FillPlayersToBG (qe_invitation e) (bq_heap q1) bg (\<lambda>t. bq_groups q1 b (normal_type t)) (bq_pools q1)) (\<lambda>pools.
             Option.bind (invite_pools e i (fst s, q1\<lparr>bq_pools := pools\<rparr>)) (\<lambda>s2.
               case bq_bgs (snd s2) i of
                 None \<Rightarrow> None
               | Some bg2 \<Rightarrow>
                   if HasFreeSlots bg2 then Some s2
                   else map_option (Pair (fst s2)) (RemoveFromBGFreeSlotQueue i (snd s2)))))
          else Some s)"

definition fill_map :: "bg_env \<Rightarrow> nat \<Rightarrow> bg_state \<Rightarrow> 16 word \<Rightarrow> bg_state option" where
  "fill_map e b s m = run_opt (fill_one e b) s (bq_freeSlots (snd s) (scast m))"

text \<open>A new battleground with the selected pools. The boolean is \<open>False\<close> when none could be created.\<close>

definition start_match :: "bg_env \<Rightarrow> bool \<Rightarrow> bg_state \<Rightarrow> (bool \<times> bg_state) option" where
  "start_match e premade s =
     (case qe_Create e premade of
        None \<Rightarrow> Some (False, s)
      | Some bg2 \<Rightarrow>
          Option.bind (invite_pools e (bg_InstanceID bg2) (fst s, set_bg bg2 (snd s)))
            (\<lambda>s1. map_option (\<lambda>q. (True, fst s1, q)) (AddToBGFreeSlotQueue (bg_InstanceID bg2) (snd s1))))"

text \<open>Rated arenas: the rating to search for, and the part of a list from its first suitable group on.\<close>

definition default_rating :: "nat list \<Rightarrow> nat list \<Rightarrow> group_heap \<Rightarrow> u32 option option" where
  "default_rating ali horde h =
     (case (ali, horde) of
        ([], []) \<Rightarrow> Some None
      | (x # _, []) \<Rightarrow> map_option (\<lambda>g. Some (gq_ArenaMatchmakerRating g)) (h x)
      | ([], y # _) \<Rightarrow> map_option (\<lambda>g. Some (gq_ArenaMatchmakerRating g)) (h y)
      | (x # _, y # _) \<Rightarrow>
          Option.bind (h x) (\<lambda>g. map_option (\<lambda>k. Some (if gq_JoinTime g < gq_JoinTime k then gq_ArenaMatchmakerRating g
                                                          else gq_ArenaMatchmakerRating k)) (h y)))"

definition rated_match :: "bg_env \<Rightarrow> u32 \<Rightarrow> group_queue_info \<Rightarrow> bool" where
  "rated_match e arenaRating g =
     (let maxd = (if qe_maxRatingDifference e = 0 then 5000 else qe_maxRatingDifference e);
          arenaMinRating = (if arenaRating \<le> maxd then 0 else arenaRating - maxd);
          arenaMaxRating = arenaRating + maxd;
          discardTime = qe_now e - qe_ratingDiscardTimer e
      in gq_IsInvitedToBGInstanceGUID g = 0
         \<and> (arenaMinRating \<le> gq_ArenaMatchmakerRating g \<and> gq_ArenaMatchmakerRating g \<le> arenaMaxRating
            \<or> sint (gq_JoinTime g) < sint discardTime))"

fun find_rated :: "(group_queue_info \<Rightarrow> bool) \<Rightarrow> group_heap \<Rightarrow> nat list \<Rightarrow> nat list option" where
  "find_rated P h [] = Some []"
| "find_rated P h (x # xs) =
     (case h x of None \<Rightarrow> None | Some g \<Rightarrow> if P g then Some (x # xs) else find_rated P h xs)"

text \<open>The two groups of the next rated match, if there are two.\<close>

definition rated_pair :: "bg_env \<Rightarrow> u32 \<Rightarrow> group_heap \<Rightarrow> nat list \<Rightarrow> nat list \<Rightarrow> (nat \<times> nat) option option" where
  "rated_pair e arenaRating h ali horde =
     Option.bind (find_rated (rated_match e arenaRating) h ali) (\<lambda>ra.
     Option.bind (find_rated (rated_match e arenaRating) h horde) (\<lambda>rh.
       case (ra, rh) of
         ([], []) \<Rightarrow> Some None
       | (x # _, y # _) \<Rightarrow> Some (Some (x, y))
       | _ \<Rightarrow>
           (let rest = ra @ rh; x = hd rest in
            Option.bind (h x) (\<lambda>g.
              map_option (\<lambda>r. case r of [] \<Rightarrow> None | y # _ \<Rightarrow> Some (x, y))
                (find_rated (\<lambda>k. rated_match e arenaRating k \<and> gq_ArenaTeamId g \<noteq> gq_ArenaTeamId k) h rest)))))"

text \<open>A group whose side changes is moved to the front of the other side's list.\<close>

definition move_rated :: "nat \<Rightarrow> team_id \<Rightarrow> nat \<Rightarrow> bg_queue \<Rightarrow> bg_queue option" where
  "move_rated b t a q =
     Option.bind (bq_heap q a)
       (\<lambda>g. if gq_Team g = team_of t then Some q
            else
              (let q1 = set_list b (premade_type t) (a # bq_groups q b (premade_type t)) q;
                   own = premade_type (other_team t)
               in if a \<in> set (bq_groups q1 b own) then Some (set_list b own (remove1 a (bq_groups q1 b own)) q1) else None))"

definition start_rated :: "bg_env \<Rightarrow> nat \<Rightarrow> nat \<Rightarrow> nat \<Rightarrow> bg_state \<Rightarrow> bg_state option" where
  "start_rated e b aTeam hTeam s =
     (case (qe_Create e False, bq_heap (snd s) aTeam, bq_heap (snd s) hTeam) of
        (None, Some _, Some _) \<Rightarrow> Some s
      | (Some arena, Some ga, Some gh) \<Rightarrow>
          (let ga1 = ga\<lparr>gq_OpponentsTeamRating := gq_ArenaTeamRating gh,
                        gq_OpponentsMatchmakerRating := gq_ArenaMatchmakerRating gh\<rparr>;
               gh1 = gh\<lparr>gq_OpponentsTeamRating := gq_ArenaTeamRating ga,
                        gq_OpponentsMatchmakerRating := gq_ArenaMatchmakerRating ga\<rparr>;
               arena1 = arena\<lparr>bg_ArenaTeamMMR := (bg_ArenaTeamMMR arena)(TEAM_ALLIANCE := gq_ArenaMatchmakerRating ga,
                          TEAM_HORDE := gq_ArenaMatchmakerRating gh)\<rparr>;
               i = bg_InstanceID arena
           in Option.bind (move_rated b TEAM_ALLIANCE aTeam (set_group hTeam gh1 (set_group aTeam ga1 (snd s)))) (\<lambda>q1.
              Option.bind (move_rated b TEAM_HORDE hTeam q1) (\<lambda>q2.
              Option.bind (InviteGroupToBG e i ALLIANCE aTeam (fst s, set_bg arena1 q2)) (\<lambda>(_, s3).
              Option.bind (InviteGroupToBG e i HORDE hTeam s3) (\<lambda>(_, s4).
                map_option (Pair (fst s4)) (AddToBGFreeSlotQueue i (snd s4)))))))
      | _ \<Rightarrow> None)"

definition update_rated :: "bg_env \<Rightarrow> nat \<Rightarrow> u32 \<Rightarrow> bg_state \<Rightarrow> bg_state option" where
  "update_rated e b arenaRating s =
     (let h = bq_heap (snd s); ali = bq_groups (snd s) b BG_QUEUE_PREMADE_ALLIANCE;
          horde = bq_groups (snd s) b BG_QUEUE_PREMADE_HORDE
      in Option.bind (if arenaRating = 0 then default_rating ali horde h else Some (Some arenaRating)) (\<lambda>r.
           case r of
             None \<Rightarrow> Some s
           | Some rating \<Rightarrow>
               Option.bind (rated_pair e rating h ali horde) (\<lambda>pair.
                 case pair of None \<Rightarrow> Some s | Some (aTeam, hTeam) \<Rightarrow> start_rated e b aTeam hTeam s)))"

definition match_limits :: "bg_env \<Rightarrow> bg_template \<Rightarrow> nat \<times> nat" where
  "match_limits e t =
     (if bt_isArena t then (if qe_arenaTesting e then 1 else unat (qe_TeamSize e), unat (qe_TeamSize e))
      else (if qe_testing e then 1 else unat (bt_MinPlayers t), unat (bt_MaxPlayers t)))"

text \<open>The premade match of the update; the boolean is \<open>False\<close> when the update returns.\<close>

definition update_premade :: "bg_env \<Rightarrow> nat \<Rightarrow> bg_template \<Rightarrow> bg_state \<Rightarrow> (bool \<times> bg_state) option" where
  "update_premade e b t s =
     (if bt_isArena t then Some (True, s)
      else
        Option.bind (CheckPremadeMatch e b (fst (match_limits e t)) (snd (match_limits e t)) (snd s)) (\<lambda>(ok, q).
          if \<not> ok then Some (True, fst s, q)
          else map_option (\<lambda>(created, s1). (created, if created then (fst s1, init_pools (snd s1)) else s1))
                 (start_match e True (fst s, q))))"

definition update_normal :: "bg_env \<Rightarrow> nat \<Rightarrow> bg_template \<Rightarrow> bg_state \<Rightarrow> bg_state option" where
  "update_normal e b t s =
     Option.bind (CheckNormalMatch e b (fst (match_limits e t)) (snd (match_limits e t)) (snd s)) (\<lambda>(ok, q).
     Option.bind (if \<not> ok \<and> bt_isArena t then CheckSkirmishForSameFaction b (fst (match_limits e t)) q else Some (ok, q)) (\<lambda>(ok1, q1).
       if ok1 then map_option snd (start_match e False (fst s, q1)) else Some (fst s, q1)))"

definition BattlegroundQueueUpdate :: "bg_env \<Rightarrow> nat \<Rightarrow> u32 \<Rightarrow> bg_state \<Rightarrow> bg_state option" where
  "BattlegroundQueueUpdate e b arenaRating s =
     (if \<forall>j \<in> {BG_QUEUE_PREMADE_ALLIANCE, BG_QUEUE_PREMADE_HORDE, BG_QUEUE_NORMAL_ALLIANCE, BG_QUEUE_NORMAL_HORDE}.
           bq_groups (snd s) b j = []
      then Some s
      else
        (case qe_template e of
           None \<Rightarrow> Some s
         | Some t \<Rightarrow>
             Option.bind (run_opt (fill_map e b) s (takeWhile (\<lambda>m. m \<noteq> -1) (bt_MapIDs t))) (\<lambda>s1.
             Option.bind (update_premade e b t (fst s1, init_pools (snd s1))) (\<lambda>(go, s2).
               if \<not> go then Some s2
               else if \<not> qe_Rated e then update_normal e b t s2
               else if bt_isArena t then update_rated e b arenaRating s2
               else Some s2))))"

section \<open>The delayed events\<close>

definition run_bg_event :: "bg_env \<Rightarrow> bg_event \<Rightarrow> u64 \<Rightarrow> u32 \<Rightarrow> bg_queue \<Rightarrow> bg_queue option" where
  "run_bg_event e ev e_time p_time q =
     (case ev of
        BGQueueInviteEvent p i removeTime \<Rightarrow>
          if \<not> qe_connected e p \<or> bq_bgs q i = None \<or> \<not> qe_hasQueueSlot e p then Some q
          else map_option (\<lambda>invited. if invited then bq_emit (OutNeedConfirmation p i) q else q)
                 (IsPlayerInvited p i removeTime q)
      | BGQueueRemoveEvent p i removeTime \<Rightarrow>
          if \<not> qe_connected e p \<or> \<not> qe_hasQueueSlot e p then Some q
          else
            Option.bind (IsPlayerInvited p i removeTime q) (\<lambda>invited.
              if \<not> invited then Some q
              else
                map_option
                  (\<lambda>q1. bq_emit (OutStatusNone p)
                     (case bq_bgs q i of
                        Some bg \<Rightarrow> if \<not> bg_isArena bg \<and> bg_Status bg \<noteq> STATUS_WAIT_LEAVE
                                    then bq_emit (OutScheduleQueueUpdate (bg_BracketId bg)) q1 else q1
                      | None \<Rightarrow> q1))
                  (bq_RemovePlayer e p True (bq_emit (OutRemoveBattlegroundQueueId p) q))))"

definition bg_handlers :: "bg_env \<Rightarrow> (bg_event, bg_queue) event_handlers" where
  "bg_handlers e =
     \<lparr>eh_Execute = (\<lambda>a t d (p, q). Option.bind (ep_heap p a)
        (\<lambda>ev. map_option (\<lambda>q1. (True, p, q1)) (run_bg_event e (be_event ev) t d q))),
      eh_Abort = (\<lambda>_ _ q. Some q), eh_IsDeletable = (\<lambda>_ _. True)\<rparr>"

definition bq_UpdateEvents :: "bg_env \<Rightarrow> u32 \<Rightarrow> bg_state \<Rightarrow> bg_state option" where
  "bq_UpdateEvents e diff s = EventProcessor_Update (bg_handlers e) diff s"

section \<open>Destruction\<close>

definition delete_group :: "bg_queue \<Rightarrow> nat \<Rightarrow> bg_queue option" where
  "delete_group q a = map_option (\<lambda>_. q\<lparr>bq_heap := (bq_heap q)(a := None)\<rparr>) (bq_heap q a)"

definition all_groups :: "bg_queue \<Rightarrow> nat list" where
  "all_groups q = concat (map (\<lambda>b. concat (map (bq_groups q b)
     [BG_QUEUE_PREMADE_ALLIANCE, BG_QUEUE_PREMADE_HORDE, BG_QUEUE_NORMAL_ALLIANCE, BG_QUEUE_NORMAL_HORDE]))
     [0..<MAX_BATTLEGROUND_BRACKETS])"

definition BattlegroundQueue_delete :: "bg_env \<Rightarrow> bg_state \<Rightarrow> bg_state option" where
  "BattlegroundQueue_delete e s =
     Option.bind (KillAllEvents (bg_handlers e) False s)
       (\<lambda>(p, q). map_option (Pair p) (run_opt delete_group q (all_groups q)))"

interpretation bg_events: quiet_events "bg_handlers e" "run_bg_event e" for e
  by unfold_locales (simp add: quiet_def bg_handlers_def)

end
