(* ===== verification/BgQueueSafe.thy ===== *)
theory BgQueueSafe
  imports BgQueue
begin

text \<open>
  The invariant of the battleground queue and the proof that every operation of it keeps it. Each queued player
  is in one group, the group waits in exactly one list of one bracket, on the side of its team, so that leaving
  always finds it; no deleted group is used.
\<close>

section \<open>Who waits where\<close>

text \<open>
  The side of a group's list is that of its team, except while a rated match changes sides: \<open>X\<close> names the
  groups whose list is already the new one.
\<close>

definition side_of :: "(nat \<Rightarrow> team option) \<Rightarrow> nat \<Rightarrow> group_queue_info \<Rightarrow> team" where
  "side_of X a g = (case X a of None \<Rightarrow> gq_Team g | Some t \<Rightarrow> t)"

definition placed :: "bg_queue \<Rightarrow> nat \<Rightarrow> nat \<Rightarrow> group_type \<Rightarrow> bool" where
  "placed q a b j \<longleftrightarrow> (\<forall>b' j'. a \<in> set (bq_groups q b' j') \<longleftrightarrow> b' = b \<and> j' = j)"

definition group_ok :: "(nat \<Rightarrow> team option) \<Rightarrow> bg_queue \<Rightarrow> nat \<Rightarrow> group_queue_info \<Rightarrow> bool" where
  "group_ok X q a g \<longleftrightarrow> a < bq_fresh q \<and> gq_Players g \<noteq> [] \<and> distinct (gq_Players g) \<and> gq_Team g \<noteq> TEAM_OTHER
     \<and> (\<forall>p \<in> set (gq_Players g). \<exists>t. map_of (bq_players q) p = Some (t, a))
     \<and> (\<exists>b j. b < MAX_BATTLEGROUND_BRACKETS \<and> j \<in> set (team_types (side_of X a g)) \<and> placed q a b j)"

definition queue_okx :: "(nat \<Rightarrow> team option) \<Rightarrow> bg_queue \<Rightarrow> bool" where
  "queue_okx X q \<longleftrightarrow> keys_strict (bq_players q)
     \<and> (\<forall>p t a. map_of (bq_players q) p = Some (t, a) \<longrightarrow> (\<exists>g. bq_heap q a = Some g \<and> p \<in> set (gq_Players g)))
     \<and> (\<forall>a g. bq_heap q a = Some g \<longrightarrow> group_ok X q a g)
     \<and> (\<forall>b j. distinct (bq_groups q b j) \<and> (\<forall>a \<in> set (bq_groups q b j). bq_heap q a \<noteq> None))"

abbreviation queue_ok :: "bg_queue \<Rightarrow> bool" where
  "queue_ok q \<equiv> queue_okx (\<lambda>_. None) q"

lemma queue_okD:
  assumes "queue_okx X q"
  shows "keys_strict (bq_players q)"
    and "\<And>p t a. map_of (bq_players q) p = Some (t, a) \<Longrightarrow> \<exists>g. bq_heap q a = Some g \<and> p \<in> set (gq_Players g)"
    and "\<And>a g. bq_heap q a = Some g \<Longrightarrow> group_ok X q a g"
    and "\<And>b j. distinct (bq_groups q b j)" and "\<And>a b j. a \<in> set (bq_groups q b j) \<Longrightarrow> bq_heap q a \<noteq> None"
  using assms unfolding queue_okx_def by blast+

lemma queue_okI:
  assumes "keys_strict (bq_players q)"
    and "\<And>p t a. map_of (bq_players q) p = Some (t, a) \<Longrightarrow> \<exists>g. bq_heap q a = Some g \<and> p \<in> set (gq_Players g)"
    and "\<And>a g. bq_heap q a = Some g \<Longrightarrow> group_ok X q a g"
    and "\<And>b j. distinct (bq_groups q b j)" and "\<And>a b j. a \<in> set (bq_groups q b j) \<Longrightarrow> bq_heap q a \<noteq> None"
  shows "queue_okx X q"
  using assms unfolding queue_okx_def by blast

lemma queue_ok_cong:
  assumes "queue_okx X q" and "bq_players q' = bq_players q" and "bq_groups q' = bq_groups q"
    and "bq_heap q' = bq_heap q" and "bq_fresh q' = bq_fresh q"
  shows "queue_okx X q'"
  using assms unfolding queue_okx_def group_ok_def placed_def by simp

lemma group_okD:
  assumes "group_ok X q a g"
  shows "a < bq_fresh q" "gq_Players g \<noteq> []" "distinct (gq_Players g)"
    and "\<And>p. p \<in> set (gq_Players g) \<Longrightarrow> \<exists>t. map_of (bq_players q) p = Some (t, a)"
    and "\<exists>b j. b < MAX_BATTLEGROUND_BRACKETS \<and> j \<in> set (team_types (side_of X a g)) \<and> placed q a b j"
    and "gq_Team g \<noteq> TEAM_OTHER"
  using assms unfolding group_ok_def by blast+

lemma placedD: "placed q a b j \<Longrightarrow> a \<in> set (bq_groups q b' j') \<longleftrightarrow> b' = b \<and> j' = j"
  by (simp add: placed_def)

lemma team_types_distinct: "distinct (team_types t)"
  by (simp add: team_types_def)

lemma find_unique:
  assumes "x \<in> set xs" and "P x" and "\<And>y. y \<in> set xs \<Longrightarrow> P y \<Longrightarrow> y = x"
  shows "find P xs = Some x"
proof -
  from assms(1,2) obtain z where z: "find P xs = Some z" by (metis find_None_iff not_None_eq)
  then have "z \<in> set xs" "P z" by (auto simp: find_Some_iff)
  with assms(3) z show ?thesis by blast
qed

lemma filter_unique:
  assumes "distinct xs" and "x \<in> set xs" and "P x" and "\<And>y. y \<in> set xs \<Longrightarrow> P y \<Longrightarrow> y = x"
  shows "filter P xs = [x]"
proof -
  have x: "set (filter P xs) = {x}" using assms(2,3) by (auto dest: assms(4))
  with distinct_card [of "filter P xs"] assms(1) have "length (filter P xs) = Suc 0" by simp
  then obtain y where "filter P xs = [y]" by (metis length_0_conv length_Suc_conv)
  with x show ?thesis by simp
qed

lemma find_group_placed:
  assumes "placed q a b j" and "b < MAX_BATTLEGROUND_BRACKETS" and "j \<in> set (team_types t)"
  shows "find_group a t q = Some (b, j)"
proof -
  note at = placedD [OF assms(1)]
  have "find (\<lambda>b. \<exists>j \<in> set (team_types t). a \<in> set (bq_groups q b j)) (rev [0..<MAX_BATTLEGROUND_BRACKETS]) = Some b"
    using assms(2,3) by (intro find_unique) (auto simp: at)
  moreover have "filter (\<lambda>j. a \<in> set (bq_groups q b j)) (team_types t) = [j]"
    using assms(3) by (intro filter_unique team_types_distinct) (auto simp: at)
  ultimately show ?thesis by (simp add: find_group_def)
qed

section \<open>Changing one group\<close>

lemma placed_cong: "bq_groups q' = bq_groups q \<Longrightarrow> placed q' a b j = placed q a b j"
  by (simp add: placed_def)

text \<open>A change of a group that keeps its players, and its side as \<open>X'\<close> sees it.\<close>

lemma queue_ok_set_group:
  assumes "queue_okx X q" and "bq_heap q a = Some g" and "gq_Players g' = gq_Players g"
    and "team_types (side_of X' a g') = team_types (side_of X a g)" and "\<And>c. c \<noteq> a \<Longrightarrow> X' c = X c"
    and "gq_Team g' \<noteq> TEAM_OTHER"
  shows "queue_okx X' (set_group a g' q)"
proof -
  note ok = queue_okD [OF assms(1)]
  let ?q = "set_group a g' q"
  have same: "bq_players ?q = bq_players q" "bq_groups ?q = bq_groups q" "bq_fresh ?q = bq_fresh q"
    "bq_heap ?q = (bq_heap q)(a \<mapsto> g')" by (simp_all add: set_group_def)
  have "group_ok X' ?q c k" if "bq_heap ?q c = Some k" for c k
  proof (cases "c = a")
    case True
    with that have "k = g'" by (simp add: same)
    with ok(3) [OF assms(2)] show ?thesis unfolding True
      by (simp add: group_ok_def same assms(3,4,6) placed_cong [OF same(2)])
  next
    case False
    with that have "group_ok X q c k" by (intro ok(3)) (simp add: same)
    moreover from False have "side_of X' c k = side_of X c k" by (simp add: side_of_def assms(5))
    ultimately show ?thesis by (simp add: group_ok_def same placed_cong [OF same(2)])
  qed
  with ok assms(2,3) show ?thesis
    by (intro queue_okI) (auto simp: same split: if_splits, metis option.inject)
qed

lemma set_list_simps [simp]:
  "bq_players (set_list b j xs q) = bq_players q" "bq_heap (set_list b j xs q) = bq_heap q"
  "bq_fresh (set_list b j xs q) = bq_fresh q" "bq_pools (set_list b j xs q) = bq_pools q"
  "bq_bgs (set_list b j xs q) = bq_bgs q" "bq_freeSlots (set_list b j xs q) = bq_freeSlots q"
  "bq_WaitTimes (set_list b j xs q) = bq_WaitTimes q" "bq_SumOfWaitTimes (set_list b j xs q) = bq_SumOfWaitTimes q"
  "bq_WaitTimeLastPlayer (set_list b j xs q) = bq_WaitTimeLastPlayer q"
  by (simp_all add: set_list_def)

lemma set_list_groups: "bq_groups (set_list b j xs q) b' j' = (if b' = b \<and> j' = j then xs else bq_groups q b' j')"
  by (simp add: set_list_def)

text \<open>A group moves from one list of its bracket to another one, on the side \<open>X'\<close> gives it.\<close>

lemma queue_ok_move:
  assumes "queue_okx X q" and "bq_heap q a = Some g" and "a \<in> set (bq_groups q b j)" and "j' \<noteq> j"
    and "bq_heap q' = bq_heap q" and "bq_players q' = bq_players q" and "bq_fresh q' = bq_fresh q"
    and "\<And>c k. bq_groups q' c k = (if c = b \<and> k = j' then a # bq_groups q b j'
                                  else if c = b \<and> k = j then remove1 a (bq_groups q b j) else bq_groups q c k)"
    and "j' \<in> set (team_types (side_of X' a g))" and "\<And>c. c \<noteq> a \<Longrightarrow> X' c = X c"
  shows "queue_okx X' q'"
proof -
  note ok = queue_okD [OF assms(1)]
  note same = assms(5-7)
  obtain b0 j0 where b0: "b0 < MAX_BATTLEGROUND_BRACKETS" "placed q a b0 j0"
    using group_okD(5) [OF ok(3) [OF assms(2)]] by blast
  with assms(3) have p: "placed q a b j" "b < MAX_BATTLEGROUND_BRACKETS" by (auto simp: placedD)
  have mem: "c \<in> set (bq_groups q' b' k) \<longleftrightarrow> (if c = a then b' = b \<and> k = j' else c \<in> set (bq_groups q b' k))" for c b' k
    using ok(4) [of b j] placedD [OF p(1), of b' k] assms(4) by (auto simp: assms(8) set_remove1_eq)
  have "group_ok X' q' c k" if "bq_heap q' c = Some k" for c k
  proof (cases "c = a")
    case True
    with that assms(2) have k: "k = g" by (simp add: same)
    have "placed q' a b j'" by (simp add: placed_def mem)
    with ok(3) [OF assms(2)] p(2) assms(9) show ?thesis unfolding True k by (auto simp: group_ok_def same)
  next
    case False
    with that have "group_ok X q c k" by (intro ok(3)) (simp add: same)
    moreover from False have "side_of X' c k = side_of X c k" by (simp add: side_of_def assms(10))
    moreover from False have "placed q' c b' j = placed q c b' j" for b' j by (simp add: placed_def mem)
    ultimately show ?thesis by (simp add: group_ok_def same)
  qed
  moreover have "a \<notin> set (bq_groups q b j')" using assms(4) by (simp add: placedD [OF p(1)])
  then have "distinct (bq_groups q' b' k)" for b' k
    using ok(4) [of b j'] ok(4) [of b j] ok(4) [of b' k] by (simp add: assms(8))
  moreover have "bq_heap q' c \<noteq> None" if "c \<in> set (bq_groups q' b' k)" for c b' k
    using that ok(5) [of c b' k] assms(2) by (cases "c = a") (auto simp: mem same split: if_splits)
  ultimately show ?thesis using ok(1,2) by (intro queue_okI) (auto simp: same)
qed

section \<open>Joining\<close>

lemma foldl_om_set:
  "keys_strict m \<Longrightarrow> keys_strict (foldl (\<lambda>m p. om_set p v m) m ps)
    \<and> map_of (foldl (\<lambda>m p. om_set p v m) m ps) = (\<lambda>p. if p \<in> set ps then Some v else map_of m p)"
proof (induction ps arbitrary: m)
  case (Cons x ps)
  from Cons.IH [OF om.ok_store [OF Cons.prems, of x v]] show ?case
    by (auto simp: om.lookup_store [OF Cons.prems] fun_eq_iff)
qed simp

lemma index_side: "(if P then normal_type (if t = HORDE then TEAM_HORDE else TEAM_ALLIANCE)
    else premade_type (if t = HORDE then TEAM_HORDE else TEAM_ALLIANCE)) \<in> set (team_types t)"
  by (simp add: team_types_def)

lemma AddGroup_ok:
  assumes ok: "queue_ok q" and new: "\<forall>p \<in> set members. map_of (bq_players q) p = None" and "members \<noteq> []"
    and "b < MAX_BATTLEGROUND_BRACKETS" and "t \<noteq> TEAM_OTHER"
  shows "queue_ok (snd (bq_AddGroup e members t b pre ar mr at q))"
proof -
  note wf = queue_okD [OF ok]
  define a where "a = bq_fresh q"
  define j where "j = (if \<not> qe_Rated e \<and> \<not> pre then normal_type (if t = HORDE then TEAM_HORDE else TEAM_ALLIANCE)
    else premade_type (if t = HORDE then TEAM_HORDE else TEAM_ALLIANCE))"
  define g where "g = \<lparr>gq_Players = sorted_list_of_set (set members), gq_Team = t, gq_ArenaTeamId = at,
    gq_JoinTime = qe_now e, gq_RemoveInviteTime = 0, gq_IsInvitedToBGInstanceGUID = 0,
    gq_ArenaTeamRating = ar, gq_ArenaMatchmakerRating = mr, gq_OpponentsTeamRating = 0, gq_OpponentsMatchmakerRating = 0\<rparr>"
  define q' where "q' = snd (bq_AddGroup e members t b pre ar mr at q)"
  have j: "j \<in> set (team_types t)" unfolding j_def by (rule index_side)
  have pl: "bq_players q' = foldl (\<lambda>m p. om_set p (qe_now e, a) m) (bq_players q) members"
    and hp: "bq_heap q' = (bq_heap q)(a \<mapsto> g)" and fr: "bq_fresh q' = a + 1"
    and gr: "bq_groups q' b' j' = (if b' = b \<and> j' = j then bq_groups q b j @ [a] else bq_groups q b' j')" for b' j'
    by (simp_all add: q'_def bq_AddGroup_def Let_def a_def g_def j_def set_list_def)
  have map: "map_of (bq_players q') p = (if p \<in> set members then Some (qe_now e, a) else map_of (bq_players q) p)" for p
    unfolding pl using foldl_om_set [OF wf(1), of "(qe_now e, a)" members] by simp
  have free: "bq_heap q a = None" using group_okD(1) [OF wf(3), of a] unfolding a_def by (metis less_irrefl not_None_eq)
  then have nowhere: "a \<notin> set (bq_groups q b' j')" for b' j' using wf(5) by blast
  have gp: "set (gq_Players g) = set members" "distinct (gq_Players g)" "gq_Players g \<noteq> []"
    using assms(3) by (simp_all add: g_def)
  have "c \<noteq> a \<Longrightarrow> c \<in> set (bq_groups q' b' j') \<longleftrightarrow> c \<in> set (bq_groups q b' j')" for c b' j' by (simp add: gr)
  then have old: "c \<noteq> a \<Longrightarrow> placed q' c b' j' = placed q c b' j'" for c b' j' by (simp add: placed_def)
  have "placed q' a b j" using nowhere by (simp add: placed_def gr)
  then have new_ok: "group_ok (\<lambda>_. None) q' a g"
    using gp assms(4,5) j by (auto simp: group_ok_def fr map side_of_def g_def)
  have "group_ok (\<lambda>_. None) q' c k" if "bq_heap q' c = Some k" for c k
  proof (cases "c = a")
    case True
    with that new_ok show ?thesis by (simp add: hp)
  next
    case False
    with that have k: "bq_heap q c = Some k" by (simp add: hp)
    from wf(3) [OF k] have o: "group_ok (\<lambda>_. None) q c k" .
    have "p \<notin> set members" if "p \<in> set (gq_Players k)" for p using group_okD(4) [OF o that] new by auto
    with o show ?thesis unfolding group_ok_def by (simp add: fr map old [OF False] a_def less_Suc_eq)
  qed
  moreover have "keys_strict (bq_players q')" unfolding pl using foldl_om_set [OF wf(1)] by blast
  moreover have "\<exists>k. bq_heap q' c = Some k \<and> p \<in> set (gq_Players k)" if "map_of (bq_players q') p = Some (t', c)" for p t' c
    using that wf(2) [of p t' c] gp(1) free by (cases "p \<in> set members") (auto simp: map hp)
  moreover have "distinct (bq_groups q' b' j')" for b' j' using wf(4) nowhere by (simp add: gr)
  moreover have "bq_heap q' c \<noteq> None" if "c \<in> set (bq_groups q' b' j')" for c b' j'
    using that wf(5) [of c] by (auto simp: gr hp split: if_splits)
  ultimately have "queue_ok q'" by (intro queue_okI)
  then show ?thesis by (simp add: q'_def)
qed

section \<open>Leaving\<close>

text \<open>What an operation must not touch: the waiting times, the pools, and which battlegrounds there are.\<close>

definition rest_kept :: "bg_queue \<Rightarrow> bg_queue \<Rightarrow> bool" where
  "rest_kept q q' \<longleftrightarrow> bq_WaitTimes q' = bq_WaitTimes q \<and> bq_WaitTimeLastPlayer q' = bq_WaitTimeLastPlayer q
     \<and> bq_SumOfWaitTimes q' = bq_SumOfWaitTimes q \<and> bq_pools q' = bq_pools q \<and> bq_freeSlots q' = bq_freeSlots q
     \<and> (\<forall>i. map_option bg_InstanceID (bq_bgs q' i) = map_option bg_InstanceID (bq_bgs q i))"

lemma rest_kept_refl [simp]: "rest_kept q q"
  by (simp add: rest_kept_def)

lemma rest_kept_trans: "rest_kept q q1 \<Longrightarrow> rest_kept q1 q2 \<Longrightarrow> rest_kept q q2"
  by (simp add: rest_kept_def)

lemma emit_simps [simp]:
  "bq_players (bq_emit x q) = bq_players q" "bq_groups (bq_emit x q) = bq_groups q" "bq_heap (bq_emit x q) = bq_heap q"
  "bq_fresh (bq_emit x q) = bq_fresh q" "bq_bgs (bq_emit x q) = bq_bgs q"
  by (simp_all add: bq_emit_def)

lemma rest_kept_emit [simp]: "rest_kept q (bq_emit x q1) = rest_kept q q1"
  by (simp add: bq_emit_def rest_kept_def)

lemma queue_ok_emit [simp]: "queue_okx X (bq_emit x q) = queue_okx X q"
  by (auto elim: queue_ok_cong)

lemma leave_effects_simps:
  "bq_players (leave_effects e p d g q) = om_del p (bq_players q)" "bq_groups (leave_effects e p d g q) = bq_groups q"
  "bq_heap (leave_effects e p d g q) = bq_heap q" "bq_fresh (leave_effects e p d g q) = bq_fresh q"
  "rest_kept q (leave_effects e p d g q)"
  by (simp_all add: leave_effects_def Let_def bq_emit_def rest_kept_def DecreaseInvitedCount_def split: option.splits)

text \<open>One player leaves a group that stays, and the last player of a group.\<close>

lemma leave_group_ok:
  assumes ok: "queue_ok q" and "map_of (bq_players q) p = Some (t, a)" and h: "bq_heap q a = Some g"
    and q': "bq_players q' = om_del p (bq_players q)" "bq_fresh q' = bq_fresh q"
    and more: "remove1 p (gq_Players g) \<noteq> []" "bq_groups q' = bq_groups q"
      "bq_heap q' = (bq_heap q)(a \<mapsto> g\<lparr>gq_Players := remove1 p (gq_Players g)\<rparr>)"
  shows "queue_ok q'"
proof -
  note wf = queue_okD [OF ok] and o = group_okD [OF queue_okD(3) [OF ok h]]
  have map: "map_of (bq_players q') x = (if x = p then None else map_of (bq_players q) x)" for x
    by (simp add: q'(1) map_of_om_del)
  have "group_ok (\<lambda>_. None) q' c k" if "bq_heap q' c = Some k" for c k
  proof (cases "c = a")
    case True
    with that have k: "k = g\<lparr>gq_Players := remove1 p (gq_Players g)\<rparr>" by (simp add: more)
    with True o more show ?thesis
      by (auto simp: group_ok_def q'(2) map placed_cong [OF more(2)] side_of_def set_remove1_eq)
  next
    case False
    with that have k: "group_ok (\<lambda>_. None) q c k" by (intro wf(3)) (simp add: more)
    have "x \<noteq> p" if "x \<in> set (gq_Players k)" for x
      using group_okD(4) [OF k that] assms(2) False by auto
    with k show ?thesis unfolding group_ok_def by (simp add: q'(2) map placed_cong [OF more(2)])
  qed
  moreover have "\<exists>k. bq_heap q' c = Some k \<and> x \<in> set (gq_Players k)" if "map_of (bq_players q') x = Some (t', c)" for x t' c
    using that wf(2) [of x t' c] h o(3) by (auto simp: map more set_remove1_eq split: if_splits)
  moreover have "keys_strict (bq_players q')" unfolding q'(1) by (rule keys_strict_om_del [OF wf(1)])
  moreover have "bq_heap q' c \<noteq> None" if "c \<in> set (bq_groups q' b j)" for c b j
    using that wf(5) [of c b j] by (simp add: more)
  ultimately show ?thesis using wf(4) by (intro queue_okI) (simp_all add: more(2))
qed

lemma leave_last_ok:
  assumes ok: "queue_ok q" and "map_of (bq_players q) p = Some (t, a)" and h: "bq_heap q a = Some g"
    and q': "bq_players q' = om_del p (bq_players q)" "bq_fresh q' = bq_fresh q"
    and last: "remove1 p (gq_Players g) = []" "placed q a b j" "bq_heap q' = (bq_heap q)(a := None)"
      "\<And>b' j'. bq_groups q' b' j' = (if b' = b \<and> j' = j then remove1 a (bq_groups q b j) else bq_groups q b' j')"
  shows "queue_ok q'"
proof -
  note wf = queue_okD [OF ok] and o = group_okD [OF queue_okD(3) [OF ok h]]
  have map: "map_of (bq_players q') x = (if x = p then None else map_of (bq_players q) x)" for x
    by (simp add: q'(1) map_of_om_del)
  have mem: "c \<in> set (bq_groups q' b' k) \<longleftrightarrow> c \<noteq> a \<and> c \<in> set (bq_groups q b' k)" for c b' k
    using wf(4) [of b j] placedD [OF last(2), of b' k] by (auto simp: last(4) set_remove1_eq)
  have alone: "set (gq_Players g) \<subseteq> {p}" using last(1) o(3) set_remove1_eq [of "gq_Players g" p] by auto
  have "group_ok (\<lambda>_. None) q' c k" if "bq_heap q' c = Some k" for c k
  proof -
    from that have ca: "c \<noteq> a" and k: "group_ok (\<lambda>_. None) q c k" by (auto simp: last(3) intro: wf(3) split: if_splits)
    have "x \<noteq> p" if "x \<in> set (gq_Players k)" for x
      using group_okD(4) [OF k that] assms(2) ca by auto
    moreover have "placed q' c b' k' = placed q c b' k'" for b' k' using ca by (simp add: placed_def mem)
    ultimately show ?thesis using k unfolding group_ok_def by (simp add: q'(2) map)
  qed
  moreover have "\<exists>k. bq_heap q' c = Some k \<and> x \<in> set (gq_Players k)" if "map_of (bq_players q') x = Some (t', c)" for x t' c
    using that wf(2) [of x t' c] h alone by (auto simp: map last(3) split: if_splits)
  moreover have "keys_strict (bq_players q')" unfolding q'(1) by (rule keys_strict_om_del [OF wf(1)])
  moreover have "distinct (bq_groups q' b' k)" for b' k using wf(4) by (simp add: last(4))
  moreover have "bq_heap q' c \<noteq> None" if "c \<in> set (bq_groups q' b' k)" for c b' k
    using that wf(5) [of c b' k] by (simp add: mem last(3))
  ultimately show ?thesis by (intro queue_okI)
qed

text \<open>
  \<open>RemovePlayer\<close> ends, finds the group, and leaves the player out; only members of the group are affected.
\<close>

lemma RemovePlayer_ok:
  assumes "queue_ok q"
  shows "\<exists>q'. bq_RemovePlayer e p d q = Some q' \<and> queue_ok q' \<and> rest_kept q q' \<and> map_of (bq_players q') p = None
    \<and> (\<forall>x. map_of (bq_players q') x = map_of (bq_players q) x
        \<or> map_of (bq_players q') x = None \<and> map_option snd (map_of (bq_players q) x) = map_option snd (map_of (bq_players q) p))"
  using assms
proof (induction "length (bq_players q)" arbitrary: p q rule: less_induct)
  case less
  note wf = queue_okD [OF less.prems]
  show ?case
  proof (cases "map_of (bq_players q) p")
    case None
    then show ?thesis using less.prems by (subst bq_RemovePlayer.simps) simp
  next
    case (Some ta)
    obtain t a where ta: "map_of (bq_players q) p = Some (t, a)" using Some by (cases ta) auto
    from wf(2) [OF ta] obtain g where g: "bq_heap q a = Some g" "p \<in> set (gq_Players g)" by blast
    obtain b j where b: "b < MAX_BATTLEGROUND_BRACKETS" "j \<in> set (team_types (gq_Team g))" "placed q a b j"
      using group_okD(5) [OF wf(3) [OF g(1)]] by (auto simp: side_of_def)
    note found = find_group_placed [OF b(3,1,2)]
    define g1 where "g1 = g\<lparr>gq_Players := remove1 p (gq_Players g)\<rparr>"
    define q1 where "q1 = leave_effects e p d g (set_group a g1 q)"
    have q1: "bq_players q1 = om_del p (bq_players q)" "bq_groups q1 = bq_groups q" "bq_heap q1 = (bq_heap q)(a \<mapsto> g1)"
      "bq_fresh q1 = bq_fresh q" "rest_kept q q1"
      using leave_effects_simps [where e = e and p = p and d = d and g = g and q = "set_group a g1 q"]
      by (simp_all add: q1_def set_group_def rest_kept_def)
    have map: "map_of (bq_players q1) x = (if x = p then None else map_of (bq_players q) x)" for x
      by (simp add: q1(1) map_of_om_del)
    show ?thesis
    proof (cases "gq_Players g1 = []")
      case True
      let ?q = "set_list b j (remove1 a (bq_groups q1 b j)) (q1\<lparr>bq_heap := (bq_heap q1)(a := None)\<rparr>)"
      have "queue_ok ?q"
        using True by (intro leave_last_ok [OF less.prems ta g(1) _ _ _ b(3)]) (simp_all add: g1_def q1 set_list_groups)
      moreover have "bq_RemovePlayer e p d q = Some ?q"
        using True by (subst bq_RemovePlayer.simps) (simp add: ta g found Let_def flip: g1_def q1_def)
      moreover have "rest_kept q ?q" using q1(5) by (simp add: rest_kept_def)
      ultimately show ?thesis using ta by (intro exI [of _ ?q]) (simp add: map)
    next
      case False
      have ok1: "queue_ok q1"
        using False by (intro leave_group_ok [OF less.prems ta g(1)]) (simp_all add: g1_def q1)
      show ?thesis
      proof (cases "gq_IsInvitedToBGInstanceGUID g = 0 \<and> qe_Rated e")
        case False
        with \<open>gq_Players g1 \<noteq> []\<close> have "bq_RemovePlayer e p d q = Some q1"
          by (subst bq_RemovePlayer.simps) (auto simp: ta g found Let_def simp flip: g1_def q1_def)
        with ok1 q1(5) ta show ?thesis by (intro exI [of _ q1]) (simp add: map)
      next
        case True
        define p2 where "p2 = hd (gq_Players g1)"
        define q2 where "q2 = (if qe_connected e p2 then bq_emit (OutStatusNone p2) (bq_emit (OutRemoveBattlegroundQueueId p2) q1) else q1)"
        have step: "bq_RemovePlayer e p d q = bq_RemovePlayer e p2 d q2"
          using True \<open>gq_Players g1 \<noteq> []\<close>
          by (subst bq_RemovePlayer.simps) (simp add: ta g found Let_def p2_def q2_def flip: g1_def q1_def)
        have q2: "queue_ok q2" "bq_players q2 = bq_players q1" "rest_kept q q2"
          using ok1 q1(5) by (auto simp: q2_def intro: rest_kept_trans)
        have "p2 \<in> set (gq_Players g1)" using False by (simp add: p2_def)
        then have "p2 \<in> set (gq_Players g)" using set_remove1_subset by (fastforce simp: g1_def)
        then obtain t2 where p2: "map_of (bq_players q) p2 = Some (t2, a)" using group_okD(4) [OF wf(3) [OF g(1)]] by blast
        have "length (bq_players q2) < length (bq_players q)"
          using ta unfolding q2(2) q1(1) om_del_def by (intro length_filter_less [of "(p, t, a)"]) (auto dest: map_of_SomeD)
        from less.hyps [OF this q2(1), where p = p2] obtain q' where q': "bq_RemovePlayer e p2 d q2 = Some q'" "queue_ok q'"
            "rest_kept q2 q'" "map_of (bq_players q') p2 = None"
            "\<forall>x. map_of (bq_players q') x = map_of (bq_players q2) x
              \<or> map_of (bq_players q') x = None \<and> map_option snd (map_of (bq_players q2) x) = map_option snd (map_of (bq_players q2) p2)"
          by blast
        have "map_of (bq_players q') p = None" using q'(5) by (metis map q2(2))
        moreover have "map_of (bq_players q') x = map_of (bq_players q) x
            \<or> map_of (bq_players q') x = None \<and> map_option snd (map_of (bq_players q) x) = map_option snd (map_of (bq_players q) p)" for x
        proof (cases "x = p")
          case False
          then show ?thesis using q'(5) [rule_format, of x] p2 ta by (auto simp: q2(2) map split: if_splits)
        qed (use calculation in simp)
        ultimately show ?thesis using step q' rest_kept_trans [OF q2(3) q'(3)] by auto
      qed
    qed
  qed
qed

section \<open>The whole state\<close>

definition wait_ok :: "bg_queue \<Rightarrow> bool" where
  "wait_ok q \<longleftrightarrow> (\<forall>t b. length (bq_WaitTimes q t b) = COUNT_OF_PLAYERS_TO_AVERAGE_WAIT_TIME
     \<and> bq_WaitTimeLastPlayer q t b < COUNT_OF_PLAYERS_TO_AVERAGE_WAIT_TIME
     \<and> bq_SumOfWaitTimes q t b = sum_list (bq_WaitTimes q t b))"

definition bgs_ok :: "bg_queue \<Rightarrow> bool" where
  "bgs_ok q \<longleftrightarrow> (\<forall>i bg. bq_bgs q i = Some bg \<longrightarrow> bg_InstanceID bg = i)
     \<and> (\<forall>m. \<forall>i \<in> set (bq_freeSlots q m). bq_bgs q i \<noteq> None)"

definition bg_okx :: "(nat \<Rightarrow> team option) \<Rightarrow> bg_state \<Rightarrow> bool" where
  "bg_okx X s \<longleftrightarrow> queue_okx X (snd s) \<and> wait_ok (snd s) \<and> bgs_ok (snd s) \<and> ep_wf (fst s)"

abbreviation bg_ok :: "bg_state \<Rightarrow> bool" where
  "bg_ok s \<equiv> bg_okx (\<lambda>_. None) s"

lemma bg_okD:
  assumes "bg_okx X s"
  shows "queue_okx X (snd s)" "wait_ok (snd s)" "bgs_ok (snd s)" "ep_wf (fst s)"
  using assms by (simp_all add: bg_okx_def)

lemma bgs_ok_cong:
  assumes "bgs_ok q" and "\<And>i. map_option bg_InstanceID (bq_bgs q' i) = map_option bg_InstanceID (bq_bgs q i)"
    and "\<And>m. set (bq_freeSlots q' m) \<subseteq> set (bq_freeSlots q m)"
  shows "bgs_ok q'"
proof -
  have "bg_InstanceID bg = i" if "bq_bgs q' i = Some bg" for i bg
    using that assms(1) assms(2) [of i] by (cases "bq_bgs q i") (auto simp: bgs_ok_def)
  moreover have "bq_bgs q' i \<noteq> None" if "i \<in> set (bq_freeSlots q' m)" for i m
  proof -
    from that assms(1) assms(3) [of m] have "bq_bgs q i \<noteq> None" unfolding bgs_ok_def by blast
    with assms(2) [of i] show ?thesis by auto
  qed
  ultimately show ?thesis by (simp add: bgs_ok_def)
qed

lemma rest_kept_ok: "rest_kept q q' \<Longrightarrow> wait_ok q \<Longrightarrow> wait_ok q'" "rest_kept q q' \<Longrightarrow> bgs_ok q \<Longrightarrow> bgs_ok q'"
  by (simp add: rest_kept_def wait_ok_def) (erule bgs_ok_cong; simp add: rest_kept_def)

lemma sum_list_replace:
  "k < length xs \<Longrightarrow> sum_list (xs[k := x]) = sum_list xs - xs ! k + (x :: 'a::ab_group_add)"
  by (induction xs arbitrary: k) (auto split: nat.split simp: algebra_simps)

text \<open>The sum of the waiting times is kept up to date, and the position stays within the array.\<close>

lemma update_wait_ok:
  assumes "wait_ok q"
  shows "\<exists>q'. PlayerInvitedToBGUpdateAverageWaitTime e g b q = Some q' \<and> wait_ok q'
    \<and> bq_players q' = bq_players q \<and> bq_groups q' = bq_groups q \<and> bq_heap q' = bq_heap q \<and> bq_fresh q' = bq_fresh q
    \<and> bq_pools q' = bq_pools q \<and> bq_bgs q' = bq_bgs q \<and> bq_freeSlots q' = bq_freeSlots q"
  using assms
  by (auto simp: PlayerInvitedToBGUpdateAverageWaitTime_def Let_def wait_ok_def sum_list_replace)

section \<open>Inviting\<close>

text \<open>What inviting does not touch.\<close>

definition only_invites :: "bg_queue \<Rightarrow> bg_queue \<Rightarrow> bool" where
  "only_invites q q' \<longleftrightarrow> bq_players q' = bq_players q \<and> bq_groups q' = bq_groups q \<and> bq_fresh q' = bq_fresh q
     \<and> bq_pools q' = bq_pools q \<and> bq_freeSlots q' = bq_freeSlots q
     \<and> (\<forall>a. map_option gq_Players (bq_heap q' a) = map_option gq_Players (bq_heap q a))
     \<and> (\<forall>i. map_option bg_InstanceID (bq_bgs q' i) = map_option bg_InstanceID (bq_bgs q i))"

lemma only_invites_refl [simp]: "only_invites q q"
  by (simp add: only_invites_def)

lemma only_invites_trans: "only_invites q q1 \<Longrightarrow> only_invites q1 q2 \<Longrightarrow> only_invites q q2"
  by (simp add: only_invites_def)

lemma only_invites_bgs: "only_invites q q' \<Longrightarrow> bgs_ok q \<Longrightarrow> bgs_ok q'"
  by (erule bgs_ok_cong) (simp_all add: only_invites_def)

lemma only_invites_heap: "only_invites q q' \<Longrightarrow> bq_heap q' a = None \<longleftrightarrow> bq_heap q a = None"
  unfolding only_invites_def by (metis map_option_is_None)

lemma only_invites_bg: "only_invites q q' \<Longrightarrow> bq_bgs q' i = None \<longleftrightarrow> bq_bgs q i = None"
  unfolding only_invites_def by (metis map_option_is_None)

lemma ep_new_heap: "ep_heap (snd (ep_new x p)) (fst (ep_new x p)) \<noteq> None"
  by (simp add: ep_new_def)

lemma AddEventAtOffset_ok:
  assumes "ep_wf p" and "a \<notin> snd ` set (ep_events p)" and "ep_heap p a \<noteq> None"
  shows "\<exists>q. AddEventAtOffset a d p = Some q \<and> ep_wf q"
proof -
  from assms(3) obtain q where q: "AddEventAtOffset a d p = Some q"
    by (auto simp: AddEventAtOffset_def ep_AddEvent_def ep_change_def)
  with ep_wf_AddEvent [OF assms(1,2)] show ?thesis by (auto simp: AddEventAtOffset_def)
qed

lemma new_event_ok:
  assumes "ep_wf p"
  shows "\<exists>q. AddEventAtOffset (fst (ep_new x p)) d (snd (ep_new x p)) = Some q \<and> ep_wf q"
proof -
  note n = ep_wf_new [OF assms, of x]
  have "ep_events (snd (ep_new x p)) = ep_events p" by (simp add: ep_new_def)
  with n show ?thesis by (intro AddEventAtOffset_ok ep_new_heap) auto
qed

text \<open>One player: two events and a waiting time, and one more on the side of the group.\<close>

lemma invite_player_ok:
  assumes ok: "bg_okx X s" and a: "bq_heap (snd s) a = Some g" and i: "bq_bgs (snd s) i = Some bg"
  shows "\<exists>s'. invite_player e a i s p = Some s' \<and> bg_okx X s' \<and> only_invites (snd s) (snd s')
    \<and> bq_heap (snd s') = bq_heap (snd s)
    \<and> bq_bgs (snd s') = (bq_bgs (snd s))(i \<mapsto> if qe_connected e p then IncreaseInvitedCount (gq_Team g) bg else bg)"
proof (cases "qe_connected e p")
  case False
  with ok i show ?thesis by (simp add: invite_player_def fun_upd_idem)
next
  case True
  note wf = bg_okD [OF ok]
  from update_wait_ok [OF wf(2), of e g "bg_BracketId bg"] obtain q1
    where q1: "PlayerInvitedToBGUpdateAverageWaitTime e g (bg_BracketId bg) (snd s) = Some q1" "wait_ok q1"
      "bq_players q1 = bq_players (snd s)" "bq_groups q1 = bq_groups (snd s)" "bq_heap q1 = bq_heap (snd s)"
      "bq_fresh q1 = bq_fresh (snd s)" "bq_pools q1 = bq_pools (snd s)" "bq_bgs q1 = bq_bgs (snd s)"
      "bq_freeSlots q1 = bq_freeSlots (snd s)" by blast
  define x where "x = BGQueueInviteEvent p i (gq_RemoveInviteTime g)"
  define y where "y = BGQueueRemoveEvent p i (gq_RemoveInviteTime g)"
  from new_event_ok [OF wf(4), of x INVITATION_REMIND_TIME] obtain p2
    where p2: "AddEventAtOffset (fst (ep_new x (fst s))) INVITATION_REMIND_TIME (snd (ep_new x (fst s))) = Some p2" "ep_wf p2" by blast
  from new_event_ok [OF p2(2), of y INVITE_ACCEPT_WAIT_TIME] obtain p4
    where p4: "AddEventAtOffset (fst (ep_new y p2)) INVITE_ACCEPT_WAIT_TIME (snd (ep_new y p2)) = Some p4" "ep_wf p4" by blast
  let ?bg = "IncreaseInvitedCount (gq_Team g) bg"
  define q2 where "q2 = bq_emit (OutNeedConfirmation p i) (bq_emit (OutSetInvite p i) (q1\<lparr>bq_bgs := (bq_bgs q1)(i \<mapsto> ?bg)\<rparr>))"
  have step: "invite_player e a i s p = Some (p4, q2)"
    using True by (simp add: invite_player_def a i q1(1) q2_def Let_def split_beta p2(1) p4(1) flip: x_def y_def)
  have same: "bq_players q2 = bq_players (snd s)" "bq_groups q2 = bq_groups (snd s)" "bq_heap q2 = bq_heap (snd s)"
      "bq_fresh q2 = bq_fresh (snd s)" "bq_pools q2 = bq_pools (snd s)" "bq_freeSlots q2 = bq_freeSlots (snd s)"
      "bq_bgs q2 = (bq_bgs (snd s))(i \<mapsto> ?bg)"
    by (simp_all add: q2_def q1 bq_emit_def)
  have id: "bg_InstanceID ?bg = bg_InstanceID bg" by (simp add: IncreaseInvitedCount_def)
  have inv: "only_invites (snd s) q2" unfolding only_invites_def using i by (simp add: same id)
  have "wait_ok q2" using q1(2) by (simp add: q2_def wait_ok_def bq_emit_def)
  moreover have "bgs_ok q2" by (rule only_invites_bgs [OF inv wf(3)])
  moreover have "queue_okx X q2" by (rule queue_ok_cong [OF wf(1) same(1,2,3,4)])
  ultimately have "bg_okx X (p4, q2)" using p4(2) by (simp add: bg_okx_def)
  with step inv same True show ?thesis by (intro exI [of _ "(p4, q2)"]) simp
qed

definition count_up :: "team \<Rightarrow> nat \<Rightarrow> battleground \<Rightarrow> battleground" where
  "count_up t n bg = (IncreaseInvitedCount t ^^ n) bg"

lemma invite_players_ok:
  assumes "bg_okx X s" and "bq_heap (snd s) a = Some g" and "bq_bgs (snd s) i = Some bg"
  shows "\<exists>s'. run_opt (invite_player e a i) s ps = Some s' \<and> bg_okx X s' \<and> only_invites (snd s) (snd s')
    \<and> bq_heap (snd s') = bq_heap (snd s)
    \<and> bq_bgs (snd s') = (bq_bgs (snd s))(i \<mapsto> count_up (gq_Team g) (length (filter (qe_connected e) ps)) bg)"
  using assms
proof (induction ps arbitrary: s bg)
  case Nil
  then show ?case by (auto simp: count_up_def)
next
  case (Cons p ps)
  define bg1 where "bg1 = (if qe_connected e p then IncreaseInvitedCount (gq_Team g) bg else bg)"
  from invite_player_ok [OF Cons.prems, of e p] obtain s1 where s1: "invite_player e a i s p = Some s1" "bg_okx X s1"
      "only_invites (snd s) (snd s1)" "bq_heap (snd s1) = bq_heap (snd s)" "bq_bgs (snd s1) = (bq_bgs (snd s))(i \<mapsto> bg1)"
    unfolding bg1_def by blast
  from s1(4,5) Cons.prems(2) have h: "bq_heap (snd s1) a = Some g" "bq_bgs (snd s1) i = Some bg1" by simp_all
  from Cons.IH [OF s1(2) h]
  obtain s2 where s2: "run_opt (invite_player e a i) s1 ps = Some s2" "bg_okx X s2" "only_invites (snd s1) (snd s2)"
      "bq_heap (snd s2) = bq_heap (snd s1)"
      "bq_bgs (snd s2) = (bq_bgs (snd s1))(i \<mapsto> count_up (gq_Team g) (length (filter (qe_connected e) ps)) bg1)" by blast
  have "count_up (gq_Team g) (length (filter (qe_connected e) ps)) bg1
      = count_up (gq_Team g) (length (filter (qe_connected e) (p # ps))) bg"
    by (simp add: bg1_def count_up_def funpow_swap1)
  with s1(5) s2(5) have "bq_bgs (snd s2) = (bq_bgs (snd s))
      (i \<mapsto> count_up (gq_Team g) (length (filter (qe_connected e) (p # ps))) bg)" by simp
  with s1(1) s2(1,2) only_invites_trans [OF s1(3) s2(3)] s2(4) s1(4) show ?case by (intro exI [of _ s2]) simp
qed

text \<open>What becomes of the group.\<close>

definition invited_group :: "bg_env \<Rightarrow> battleground \<Rightarrow> team \<Rightarrow> group_queue_info \<Rightarrow> group_queue_info" where
  "invited_group e bg side g =
     (if gq_IsInvitedToBGInstanceGUID g = 0
      then g\<lparr>gq_Team := side, gq_IsInvitedToBGInstanceGUID := bg_InstanceID bg,
             gq_RemoveInviteTime := qe_now e + INVITE_ACCEPT_WAIT_TIME\<rparr>
      else g\<lparr>gq_Team := side\<rparr>)"

text \<open>A group on the side of its list: the side it is given, or its team when it stays.\<close>

lemma InviteGroupToBG_ok:
  assumes ok: "bg_okx X s" and a: "bq_heap (snd s) a = Some g" and i: "bq_bgs (snd s) i = Some bg"
    and side: "side \<noteq> TEAM_OTHER" "X a = Some side \<or> X a = None \<and> gq_Team g = side"
  shows "\<exists>b s' bg'. InviteGroupToBG e i side a s = Some (b, s') \<and> bg_okx (X(a := None)) s' \<and> only_invites (snd s) (snd s')
    \<and> (\<forall>c. c \<noteq> a \<longrightarrow> bq_heap (snd s') c = bq_heap (snd s) c)
    \<and> bq_bgs (snd s') = (bq_bgs (snd s))(i \<mapsto> bg')
    \<and> (\<exists>m. bg' = count_up side (if gq_IsInvitedToBGInstanceGUID g = 0 then length (filter (qe_connected e) (gq_Players g)) else 0)
            (bg\<lparr>bg_ArenaTeamIds := m\<rparr>))
    \<and> bq_heap (snd s') a = Some (invited_group e bg side g)"
proof -
  note wf = bg_okD [OF ok]
  define g1 where "g1 = g\<lparr>gq_Team := side\<rparr>"
  show ?thesis
  proof (cases "gq_IsInvitedToBGInstanceGUID g = 0")
    case False
    let ?q = "set_group a g1 (snd s)"
    have "queue_okx (X(a := None)) ?q" using side
      by (intro queue_ok_set_group [OF wf(1) a]) (auto simp: g1_def side_of_def)
    moreover have inv: "only_invites (snd s) ?q" using a by (auto simp: only_invites_def set_group_def g1_def)
    moreover have "wait_ok ?q" using wf(2) by (simp add: wait_ok_def set_group_def)
    ultimately have "bg_okx (X(a := None)) (fst s, ?q)" using wf only_invites_bgs [OF inv wf(3)] by (simp add: bg_okx_def)
    moreover have "InviteGroupToBG e i side a s = Some (False, fst s, ?q)"
      using False side(1) by (simp add: InviteGroupToBG_def a i g1_def)
    moreover have "bq_bgs ?q = (bq_bgs (snd s))(i \<mapsto> bg)" using i by (simp add: set_group_def fun_upd_idem)
    moreover have "\<exists>m. bg = count_up side 0 (bg\<lparr>bg_ArenaTeamIds := m\<rparr>)"
      by (intro exI [of _ "bg_ArenaTeamIds bg"]) (simp add: count_up_def)
    moreover have "bq_heap ?q c = bq_heap (snd s) c" if "c \<noteq> a" for c using that by (simp add: set_group_def)
    moreover have "bq_heap ?q a = Some (invited_group e bg side g)" using False by (simp add: set_group_def invited_group_def g1_def)
    ultimately show ?thesis using False inv
      by (intro exI [of _ False] exI [of _ "(fst s, ?q)"] exI [of _ bg] conjI) (auto simp del: fun_upd_apply)
  next
    case True
    define g2 where "g2 = g1\<lparr>gq_IsInvitedToBGInstanceGUID := bg_InstanceID bg, gq_RemoveInviteTime := qe_now e + INVITE_ACCEPT_WAIT_TIME\<rparr>"
    define bg1 where "bg1 = (if bg_isArena bg \<and> bg_isRated bg
      then bg\<lparr>bg_ArenaTeamIds := (bg_ArenaTeamIds bg)(GetTeamIndexByTeamId (gq_Team g2) := gq_ArenaTeamId g2)\<rparr> else bg)"
    define q1 where "q1 = (set_group a g2 (snd s))\<lparr>bq_bgs := (bq_bgs (snd s))(i \<mapsto> bg1)\<rparr>"
    have "bg = bg\<lparr>bg_ArenaTeamIds := bg_ArenaTeamIds bg\<rparr>" by simp
    then have bg1: "\<exists>m. bg1 = bg\<lparr>bg_ArenaTeamIds := m\<rparr>" unfolding bg1_def by (metis (full_types))
    then have id: "bg_InstanceID bg1 = bg_InstanceID bg" by auto
    have "queue_okx (X(a := None)) (set_group a g2 (snd s))" using side
      by (intro queue_ok_set_group [OF wf(1) a]) (auto simp: g1_def g2_def side_of_def)
    then have "queue_okx (X(a := None)) q1" by (rule queue_ok_cong) (simp_all add: q1_def)
    moreover have inv: "only_invites (snd s) q1" using a i id
      by (auto simp: only_invites_def q1_def set_group_def g1_def g2_def)
    moreover have "wait_ok q1" using wf(2) by (simp add: wait_ok_def q1_def set_group_def)
    ultimately have ok1: "bg_okx (X(a := None)) (fst s, q1)" using wf only_invites_bgs [OF inv wf(3)] by (simp add: bg_okx_def)
    have h1: "bq_heap (snd (fst s, q1)) a = Some g2" "bq_bgs (snd (fst s, q1)) i = Some bg1"
      by (simp_all add: q1_def set_group_def)
    from invite_players_ok [OF ok1 h1, of e "gq_Players g2"] obtain s' where s': "run_opt (invite_player e a i) (fst s, q1) (gq_Players g2) = Some s'"
        "bg_okx (X(a := None)) s'" "only_invites q1 (snd s')" "bq_heap (snd s') = bq_heap q1"
        "bq_bgs (snd s') = (bq_bgs q1)(i \<mapsto> count_up (gq_Team g2) (length (filter (qe_connected e) (gq_Players g2))) bg1)"
      unfolding snd_conv by blast
    have g1z: "gq_IsInvitedToBGInstanceGUID g1 = 0" using True by (simp add: g1_def)
    have "InviteGroupToBG e i side a s = map_option (Pair True) (run_opt (invite_player e a i) (fst s, q1) (gq_Players g2))"
      unfolding InviteGroupToBG_def a i prod.case option.case Let_def
      by (simp only: side(1) simp_thms if_True g1_def [symmetric] g1z g2_def [symmetric] bg1_def [symmetric] q1_def [symmetric])
    then have "InviteGroupToBG e i side a s = Some (True, s')" by (simp add: s'(1))
    moreover have "gq_Players g2 = gq_Players g" "gq_Team g2 = side" by (simp_all add: g1_def g2_def)
    moreover have "bq_heap (snd s') c = bq_heap (snd s) c" if "c \<noteq> a" for c
      using that by (simp add: s'(4) q1_def set_group_def)
    moreover have "bq_bgs q1 = (bq_bgs (snd s))(i \<mapsto> bg1)" by (simp add: q1_def)
    moreover have "bq_heap (snd s') a = Some (invited_group e bg side g)"
      using True by (simp add: s'(4) q1_def set_group_def invited_group_def g2_def g1_def)
    moreover have "\<exists>m. count_up side n bg1 = count_up side n (bg\<lparr>bg_ArenaTeamIds := m\<rparr>)" for n using bg1 by blast
    ultimately show ?thesis using s'(2,5) True only_invites_trans [OF inv s'(3)]
      by (intro exI [of _ True] exI [of _ s']
          exI [of _ "count_up side (length (filter (qe_connected e) (gq_Players g))) bg1"] conjI) (simp_all del: fun_upd_apply)
  qed
qed

end
