(* ===== verification/BgQueueMatch.thy ===== *)
theory BgQueueMatch
  imports BgQueueSafe "HOL-Library.Sublist"
begin

text \<open>
  How the battleground queue fills battlegrounds and makes matches: each part of the update returns, keeps the
  invariant of BgQueueSafe, and does not invite more players to a side than it has places for.
\<close>

section \<open>The lists of a bracket\<close>

lemma list_side:
  assumes "queue_okx X q" and "a \<in> set (bq_groups q b j)"
  shows "\<exists>g. bq_heap q a = Some g \<and> gq_Players g \<noteq> [] \<and> gq_Team g \<noteq> TEAM_OTHER \<and> j \<in> set (team_types (side_of X a g))
    \<and> placed q a b j \<and> b < MAX_BATTLEGROUND_BRACKETS"
proof -
  from queue_okD(5) [OF assms] obtain g where g: "bq_heap q a = Some g" by auto
  note o = group_okD [OF queue_okD(3) [OF assms(1) g]]
  from o(5) obtain b' j' where p: "b' < MAX_BATTLEGROUND_BRACKETS" "j' \<in> set (team_types (side_of X a g))" "placed q a b' j'"
    by blast
  with placedD [OF p(3), of b j] assms(2) have "b = b'" "j = j'" by auto
  with p g o(2,6) show ?thesis by auto
qed

lemma list_team:
  assumes "queue_ok q" and "a \<in> set (bq_groups q b j)"
  shows "\<exists>g. bq_heap q a = Some g \<and> gq_Players g \<noteq> [] \<and> gq_Team g \<noteq> TEAM_OTHER \<and> j \<in> set (team_types (gq_Team g))
    \<and> placed q a b j \<and> b < MAX_BATTLEGROUND_BRACKETS"
  using list_side [OF assms] by (simp add: side_of_def)

lemma type_team: "T \<noteq> TEAM_OTHER \<Longrightarrow> premade_type t \<in> set (team_types T) \<or> normal_type t \<in> set (team_types T) \<Longrightarrow> T = team_of t"
  by (cases T; cases t) (auto simp: team_types_def)

definition of_team :: "group_heap \<Rightarrow> team_id \<Rightarrow> nat \<Rightarrow> bool" where
  "of_team h t a \<longleftrightarrow> (\<exists>g. h a = Some g \<and> gq_Team g = team_of t)"

lemma list_of_team:
  assumes "queue_ok q" and "a \<in> set (bq_groups q b j)" and "j = premade_type t \<or> j = normal_type t"
  shows "of_team (bq_heap q) t a" and "waiting (bq_heap q) a"
proof -
  from list_team [OF assms(1,2)] obtain g where g: "bq_heap q a = Some g" "gq_Players g \<noteq> []" "gq_Team g \<noteq> TEAM_OTHER"
      "j \<in> set (team_types (gq_Team g))" by blast
  with type_team [OF g(3), of t] assms(3) show "of_team (bq_heap q) t a" "waiting (bq_heap q) a"
    by (auto simp: of_team_def waiting_def)
qed

lemma lists_disjoint:
  assumes "queue_ok q" and "j \<noteq> j'"
  shows "set (bq_groups q b j) \<inter> set (bq_groups q b j') = {}"
proof -
  have False if "a \<in> set (bq_groups q b j)" "a \<in> set (bq_groups q b j')" for a
  proof -
    from list_team [OF assms(1) that(1)] obtain g where "placed q a b j" by blast
    from placedD [OF this, of b j'] that(2) assms(2) show False by simp
  qed
  then show ?thesis by blast
qed

lemma queues_fine_normal: "queue_ok q \<Longrightarrow> queues_fine (bq_heap q) (\<lambda>t. bq_groups q b (normal_type t))"
  unfolding queues_fine_def using queue_okD(4) list_of_team(2) by blast

section \<open>Inviting whole pools\<close>

text \<open>Pools of whole groups of their own side, of at most \<open>l\<close> players.\<close>

definition match_ready :: "(team_id \<Rightarrow> nat) \<Rightarrow> bg_queue \<Rightarrow> bool" where
  "match_ready l q \<longleftrightarrow> (\<forall>t. pool_ok (bq_heap q) (bq_pools q t) \<and> sp_PlayerCount (bq_pools q t) \<le> l t
     \<and> (\<forall>a \<in> set (sp_SelectedGroups (bq_pools q t)). of_team (bq_heap q) t a))"

lemma GetInvitedCount_up:
  "t \<noteq> TEAM_OTHER \<Longrightarrow> u \<noteq> TEAM_OTHER \<Longrightarrow>
    GetInvitedCount u (count_up t n bg) = GetInvitedCount u bg + (if u = t then of_nat n else 0)"
  by (induction n) (cases t; cases u; simp add: count_up_def GetInvitedCount_def IncreaseInvitedCount_def)+

lemma GetMaxPlayersPerTeam_cong:
  "bg_isArena x = bg_isArena y \<Longrightarrow> bg_ArenaType x = bg_ArenaType y \<Longrightarrow> bg_MaxPlayers x = bg_MaxPlayers y \<Longrightarrow>
    GetMaxPlayersPerTeam x = GetMaxPlayersPerTeam y"
  by (simp only: GetMaxPlayersPerTeam_def)

lemma GetMaxPlayersPerTeam_up [simp]: "GetMaxPlayersPerTeam (count_up t n bg) = GetMaxPlayersPerTeam bg"
proof (induction n)
  case (Suc n)
  have "GetMaxPlayersPerTeam (IncreaseInvitedCount t x) = GetMaxPlayersPerTeam x" for x
    by (rule GetMaxPlayersPerTeam_cong) (simp_all add: IncreaseInvitedCount_def)
  with Suc show ?case by (simp add: count_up_def)
qed (simp add: count_up_def)

lemma arena_ids_simps [simp]:
  "GetMaxPlayersPerTeam (bg\<lparr>bg_ArenaTeamIds := m\<rparr>) = GetMaxPlayersPerTeam bg"
  "GetInvitedCount t (bg\<lparr>bg_ArenaTeamIds := m\<rparr>) = GetInvitedCount t bg"
  by (rule GetMaxPlayersPerTeam_cong) (simp_all add: GetInvitedCount_def)

lemma team_of_simps [simp]: "team_of t \<noteq> TEAM_OTHER" "team_of t = team_of u \<longleftrightarrow> t = u"
  by (cases t; cases u; simp)+

text \<open>The groups of one side: \<open>k\<close> players of theirs are counted, the other side is as before.\<close>

lemma invite_team_ok:
  assumes "bg_ok s" and "distinct as" and "\<forall>a \<in> set as. of_team (bq_heap (snd s)) t a \<and> uninvited (bq_heap (snd s)) a"
    and "bq_bgs (snd s) i = Some bg"
  shows "\<exists>s' bg' k. run_opt (invite_own_side e i) s as = Some s' \<and> bg_ok s' \<and> only_invites (snd s) (snd s')
    \<and> (\<forall>c. c \<notin> set as \<longrightarrow> bq_heap (snd s') c = bq_heap (snd s) c)
    \<and> bq_bgs (snd s') = (bq_bgs (snd s))(i \<mapsto> bg') \<and> GetMaxPlayersPerTeam bg' = GetMaxPlayersPerTeam bg
    \<and> k \<le> players_in (bq_heap (snd s)) as
    \<and> (\<forall>u. GetInvitedCount (team_of u) bg' = GetInvitedCount (team_of u) bg + (if u = t then of_nat k else 0))"
  using assms
proof (induction as arbitrary: s bg)
  case Nil
  then show ?case by (intro exI [of _ s] exI [of _ bg] exI [of _ 0]) (simp add: fun_upd_idem)
next
  case (Cons a as)
  from Cons.prems(3) obtain g where g: "bq_heap (snd s) a = Some g" "gq_Team g = team_of t" "gq_IsInvitedToBGInstanceGUID g = 0"
    by (auto simp: of_team_def uninvited_def)
  define n where "n = length (filter (qe_connected e) (gq_Players g))"
  from InviteGroupToBG_ok [OF Cons.prems(1) g(1) Cons.prems(4) _ disjI2, of "team_of t" e] g(2,3)
  obtain b s1 bg1 m where s1: "InviteGroupToBG e i (gq_Team g) a s = Some (b, s1)" "bg_ok s1" "only_invites (snd s) (snd s1)"
      "\<forall>c. c \<noteq> a \<longrightarrow> bq_heap (snd s1) c = bq_heap (snd s) c" "bq_bgs (snd s1) = (bq_bgs (snd s))(i \<mapsto> bg1)"
      "bg1 = count_up (team_of t) n (bg\<lparr>bg_ArenaTeamIds := m\<rparr>)"
    by (auto simp: n_def fun_upd_idem)
  from Cons.prems(2,3) s1(4) have "\<forall>c \<in> set as. of_team (bq_heap (snd s1)) t c \<and> uninvited (bq_heap (snd s1)) c"
    unfolding of_team_def uninvited_def by (metis distinct.simps(2) list.set_intros(2))
  with Cons.IH [OF s1(2) _ this, of bg1] Cons.prems(2) s1(5)
  obtain s2 bg2 k where s2: "run_opt (invite_own_side e i) s1 as = Some s2" "bg_ok s2" "only_invites (snd s1) (snd s2)"
      "\<forall>c. c \<notin> set as \<longrightarrow> bq_heap (snd s2) c = bq_heap (snd s1) c" "bq_bgs (snd s2) = (bq_bgs (snd s1))(i \<mapsto> bg2)"
      "GetMaxPlayersPerTeam bg2 = GetMaxPlayersPerTeam bg1" "k \<le> players_in (bq_heap (snd s1)) as"
      "\<forall>u. GetInvitedCount (team_of u) bg2 = GetInvitedCount (team_of u) bg1 + (if u = t then of_nat k else 0)"
    by (metis distinct.simps(2) fun_upd_same)
  have "players_in (bq_heap (snd s1)) as = players_in (bq_heap (snd s)) as"
    using s1(4) Cons.prems(2) unfolding players_in_def by (intro arg_cong [where f = sum_list] map_cong) auto
  moreover have "n \<le> gq_size (the (bq_heap (snd s) a))" by (simp add: g n_def gq_size_def)
  ultimately have "n + k \<le> players_in (bq_heap (snd s)) (a # as)" using s2(7) by simp
  moreover have "GetInvitedCount (team_of u) bg2 = GetInvitedCount (team_of u) bg + (if u = t then of_nat (n + k) else 0)" for u
    using s2(8) by (simp add: s1(6) GetInvitedCount_up)
  moreover have "run_opt (invite_own_side e i) s (a # as) = Some s2" using s1(1) s2(1) g(1) by (simp add: invite_own_side_def)
  moreover have "bq_bgs (snd s2) = (bq_bgs (snd s))(i \<mapsto> bg2)" by (simp add: s2(5) s1(5))
  ultimately show ?case using s2 s1 only_invites_trans [OF s1(3) s2(3)]
    by (intro exI [of _ s2] exI [of _ bg2] exI [of _ "n + k"] conjI) simp_all
qed

lemma of_team_unique: "of_team h t a \<Longrightarrow> of_team h u a \<Longrightarrow> t = u"
  by (auto simp: of_team_def)

lemma invite_pools_ok:
  assumes ok: "bg_ok s" and r: "match_ready l (snd s)" and bg: "bq_bgs (snd s) i = Some bg"
  shows "\<exists>s' bg' k. invite_pools e i s = Some s' \<and> bg_ok s' \<and> only_invites (snd s) (snd s')
    \<and> bq_bgs (snd s') = (bq_bgs (snd s))(i \<mapsto> bg') \<and> GetMaxPlayersPerTeam bg' = GetMaxPlayersPerTeam bg
    \<and> (\<forall>u. k u \<le> sp_PlayerCount (bq_pools (snd s) u)
         \<and> GetInvitedCount (team_of u) bg' = GetInvitedCount (team_of u) bg + of_nat (k u))"
proof -
  let ?p = "bq_pools (snd s)" and ?h = "bq_heap (snd s)"
  have pool: "distinct (sp_SelectedGroups (?p t))" "\<forall>a \<in> set (sp_SelectedGroups (?p t)). of_team ?h t a \<and> uninvited ?h a"
    "sp_PlayerCount (?p t) = players_in ?h (sp_SelectedGroups (?p t))" for t
    using r unfolding match_ready_def pool_ok_def by blast+
  from invite_team_ok [OF ok pool(1) [of TEAM_ALLIANCE] pool(2) bg, of e]
  obtain s1 bg1 k1 where s1: "run_opt (invite_own_side e i) s (sp_SelectedGroups (?p TEAM_ALLIANCE)) = Some s1" "bg_ok s1"
      "only_invites (snd s) (snd s1)" "\<forall>c. c \<notin> set (sp_SelectedGroups (?p TEAM_ALLIANCE)) \<longrightarrow> bq_heap (snd s1) c = ?h c"
      "bq_bgs (snd s1) = (bq_bgs (snd s))(i \<mapsto> bg1)" "GetMaxPlayersPerTeam bg1 = GetMaxPlayersPerTeam bg"
      "k1 \<le> players_in ?h (sp_SelectedGroups (?p TEAM_ALLIANCE))"
      "\<forall>u. GetInvitedCount (team_of u) bg1 = GetInvitedCount (team_of u) bg + (if u = TEAM_ALLIANCE then of_nat k1 else 0)"
    by blast
  let ?H = "sp_SelectedGroups (?p TEAM_HORDE)"
  have h: "bq_heap (snd s1) c = ?h c" if "c \<in> set ?H" for c
  proof -
    have "c \<notin> set (sp_SelectedGroups (?p TEAM_ALLIANCE))" using pool(2) that of_team_unique by blast
    with s1(4) show ?thesis by blast
  qed
  then have "\<forall>a \<in> set ?H. of_team (bq_heap (snd s1)) TEAM_HORDE a \<and> uninvited (bq_heap (snd s1)) a"
    using pool(2) [of TEAM_HORDE] by (simp add: of_team_def uninvited_def)
  from invite_team_ok [OF s1(2) pool(1) this, where i = i and bg = bg1 and e = e] s1(5)
  obtain s2 bg2 k2 where s2: "run_opt (invite_own_side e i) s1 ?H = Some s2" "bg_ok s2"
      "only_invites (snd s1) (snd s2)"
      "bq_bgs (snd s2) = (bq_bgs (snd s1))(i \<mapsto> bg2)" "GetMaxPlayersPerTeam bg2 = GetMaxPlayersPerTeam bg1"
      "k2 \<le> players_in (bq_heap (snd s1)) ?H"
      "\<forall>u. GetInvitedCount (team_of u) bg2 = GetInvitedCount (team_of u) bg1 + (if u = TEAM_HORDE then of_nat k2 else 0)"
    by (metis fun_upd_same)
  have "players_in (bq_heap (snd s1)) ?H = players_in ?h ?H"
    using h unfolding players_in_def by (intro arg_cong [where f = sum_list] map_cong) auto
  with s2(6) s1(7) pool(3) have k: "(if u = TEAM_ALLIANCE then k1 else k2) \<le> sp_PlayerCount (?p u)" for u by (cases u) simp_all
  have "bq_pools (snd s1) = ?p" using s1(3) by (simp add: only_invites_def)
  then have "invite_pools e i s = Some s2" using s1(1) s2(1) by (simp add: invite_pools_def)
  moreover have "GetInvitedCount (team_of u) bg2 = GetInvitedCount (team_of u) bg + of_nat (if u = TEAM_ALLIANCE then k1 else k2)" for u
    using s1(8) [rule_format, of u] s2(7) [rule_format, of u] by (cases u) simp_all
  moreover have "bq_bgs (snd s2) = (bq_bgs (snd s))(i \<mapsto> bg2)" by (simp add: s2(4) s1(5))
  ultimately show ?thesis using s2 s1 k only_invites_trans [OF s1(3) s2(3)]
    by (intro exI [of _ s2] exI [of _ bg2] exI [of _ "\<lambda>u. if u = TEAM_ALLIANCE then k1 else k2"]) (simp del: fun_upd_apply)
qed

section \<open>The number of invited players\<close>

definition within :: "battleground \<Rightarrow> bool" where
  "within bg \<longleftrightarrow> (\<forall>t. unat (GetInvitedCount (team_of t) bg) \<le> unat (GetMaxPlayersPerTeam bg))"

definition all_within :: "bg_queue \<Rightarrow> bool" where
  "all_within q \<longleftrightarrow> (\<forall>i bg. bq_bgs q i = Some bg \<longrightarrow> within bg)"

lemma within_up:
  assumes "within bg" and "GetMaxPlayersPerTeam bg' = GetMaxPlayersPerTeam bg"
    and "\<And>u. k u \<le> l u \<and> GetInvitedCount (team_of u) bg' = GetInvitedCount (team_of u) bg + of_nat (k u)"
    and "\<And>u. l u = 0 \<or> unat (GetInvitedCount (team_of u) bg) + l u \<le> unat (GetMaxPlayersPerTeam bg)"
  shows "within bg'"
  unfolding within_def
proof
  fix t
  let ?i = "GetInvitedCount (team_of t) bg"
  have "unat ?i + k t \<le> unat (GetMaxPlayersPerTeam bg)" using assms(1) assms(3,4) [of t] unfolding within_def by fastforce
  moreover from this have "unat (?i + of_nat (k t)) = unat ?i + k t"
    using max_players_bound [of bg] by (simp add: unat_word_ariths unat_of_nat)
  ultimately show "unat (GetInvitedCount (team_of t) bg') \<le> unat (GetMaxPlayersPerTeam bg')"
    using assms(2) assms(3) [of t] by simp
qed

lemma within_flag: "within (bg\<lparr>bg_InBGFreeSlotQueue := v\<rparr>) = within bg"
proof -
  have "GetMaxPlayersPerTeam (bg\<lparr>bg_InBGFreeSlotQueue := v\<rparr>) = GetMaxPlayersPerTeam bg"
    by (rule GetMaxPlayersPerTeam_cong) simp_all
  then show ?thesis by (simp add: within_def GetInvitedCount_def)
qed

section \<open>Filling the battlegrounds with free slots\<close>

text \<open>What no update changes: who is queued, who belongs to a group; battlegrounds are only added.\<close>

definition kept :: "bg_queue \<Rightarrow> bg_queue \<Rightarrow> bool" where
  "kept q q' \<longleftrightarrow> bq_players q' = bq_players q
     \<and> (\<forall>a. map_option gq_Players (bq_heap q' a) = map_option gq_Players (bq_heap q a))
     \<and> (\<forall>i. bq_bgs q i \<noteq> None \<longrightarrow> bq_bgs q' i \<noteq> None)"

lemma kept_refl [simp]: "kept q q"
  by (simp add: kept_def)

lemma kept_trans [trans]: "kept q q1 \<Longrightarrow> kept q1 q2 \<Longrightarrow> kept q q2"
  by (simp add: kept_def)

lemma only_invites_kept: "only_invites q q' \<Longrightarrow> kept q q'"
  using only_invites_bg [of q q'] by (simp add: kept_def) (simp add: only_invites_def)

text \<open>Pools, the list of free slots, and the flags of a battleground are no part of the invariant.\<close>

lemma init_pools_simps [simp]:
  "bq_players (init_pools q) = bq_players q" "bq_groups (init_pools q) = bq_groups q" "bq_heap (init_pools q) = bq_heap q"
  "bq_fresh (init_pools q) = bq_fresh q" "bq_bgs (init_pools q) = bq_bgs q" "bq_freeSlots (init_pools q) = bq_freeSlots q"
  "bq_WaitTimes (init_pools q) = bq_WaitTimes q" "bq_SumOfWaitTimes (init_pools q) = bq_SumOfWaitTimes q"
  "bq_WaitTimeLastPlayer (init_pools q) = bq_WaitTimeLastPlayer q" "bq_pools (init_pools q) t = sp_Init"
  by (cases t; simp add: init_pools_def set_pool_def)+

lemma bg_ok_cong:
  assumes "bg_okx X s" and "queue_okx X q" and "bq_WaitTimes q = bq_WaitTimes (snd s)"
    and "bq_SumOfWaitTimes q = bq_SumOfWaitTimes (snd s)" and "bq_WaitTimeLastPlayer q = bq_WaitTimeLastPlayer (snd s)"
    and "bgs_ok q"
  shows "bg_okx X (fst s, q)"
  using assms by (simp add: bg_okx_def wait_ok_def)

lemma bg_ok_pools:
  assumes "bg_okx X s"
  shows "bg_okx X (fst s, init_pools (snd s))" and "bg_okx X (fst s, (snd s)\<lparr>bq_pools := p\<rparr>)"
  using bg_okD [OF assms] by (auto simp: bg_okx_def wait_ok_def bgs_ok_def intro: queue_ok_cong)

lemma bg_ok_set_bg:
  assumes "bg_ok s" and "bg_InstanceID bg = i"
  shows "bg_ok (fst s, set_bg bg (snd s))"
  using bg_okD [OF assms(1)] assms(2)
  by (auto simp: bg_okx_def wait_ok_def bgs_ok_def set_bg_def intro: queue_ok_cong)

lemma RemoveFromBGFreeSlotQueue_ok:
  assumes ok: "bg_ok s" and i: "bq_bgs (snd s) i = Some bg"
  shows "\<exists>q bg'. RemoveFromBGFreeSlotQueue i (snd s) = Some q \<and> bg_ok (fst s, q) \<and> kept (snd s) q
    \<and> bq_bgs q = (bq_bgs (snd s))(i \<mapsto> bg') \<and> within bg' = within bg"
proof (cases "bg_InBGFreeSlotQueue bg")
  case False
  with assms show ?thesis by (auto simp: RemoveFromBGFreeSlotQueue_def fun_upd_idem intro: exI [of _ bg])
next
  case True
  note wf = bg_okD [OF ok]
  have id: "bg_InstanceID bg = i" using wf(3) i by (simp add: bgs_ok_def)
  define q where "q = set_bg (bg\<lparr>bg_InBGFreeSlotQueue := False\<rparr>)
    ((snd s)\<lparr>bq_freeSlots := (bq_freeSlots (snd s))(bg_MapId bg := remove1 i (bq_freeSlots (snd s) (bg_MapId bg)))\<rparr>)"
  have same: "bq_players q = bq_players (snd s)" "bq_groups q = bq_groups (snd s)" "bq_heap q = bq_heap (snd s)"
    "bq_fresh q = bq_fresh (snd s)" "bq_WaitTimes q = bq_WaitTimes (snd s)" "bq_SumOfWaitTimes q = bq_SumOfWaitTimes (snd s)"
    "bq_WaitTimeLastPlayer q = bq_WaitTimeLastPlayer (snd s)"
    "bq_bgs q = (bq_bgs (snd s))(i \<mapsto> bg\<lparr>bg_InBGFreeSlotQueue := False\<rparr>)"
    by (simp_all add: q_def set_bg_def id)
  have "bgs_ok q"
    by (rule bgs_ok_cong [OF wf(3)])
      (use i in \<open>auto simp: same, auto simp: q_def set_bg_def dest: set_remove1_subset [THEN subsetD] split: if_splits\<close>)
  then have "bg_ok (fst s, q)" by (intro bg_ok_cong [OF ok] queue_ok_cong [OF wf(1)]) (simp_all add: same)
  moreover have "RemoveFromBGFreeSlotQueue i (snd s) = Some q" by (simp add: RemoveFromBGFreeSlotQueue_def i True q_def)
  moreover have "within (bg\<lparr>bg_InBGFreeSlotQueue := False\<rparr>) = within bg" by (rule within_flag)
  moreover have "kept (snd s) q" by (simp add: kept_def same)
  ultimately show ?thesis using same(8) by blast
qed

lemma AddToBGFreeSlotQueue_ok:
  assumes ok: "bg_ok s" and i: "bq_bgs (snd s) i = Some bg"
  shows "\<exists>q bg'. AddToBGFreeSlotQueue i (snd s) = Some q \<and> bg_ok (fst s, q) \<and> kept (snd s) q
    \<and> bq_bgs q = (bq_bgs (snd s))(i \<mapsto> bg') \<and> within bg' = within bg \<and> bq_heap q = bq_heap (snd s)"
proof (cases "\<not> bg_InBGFreeSlotQueue bg \<and> \<not> bg_isArena bg")
  case False
  then have "AddToBGFreeSlotQueue i (snd s) = Some (snd s)" by (auto simp: AddToBGFreeSlotQueue_def i)
  with assms show ?thesis by (auto simp: fun_upd_idem intro: exI [of _ bg])
next
  case True
  note wf = bg_okD [OF ok]
  have id: "bg_InstanceID bg = i" using wf(3) i by (simp add: bgs_ok_def)
  define q where "q = set_bg (bg\<lparr>bg_InBGFreeSlotQueue := True\<rparr>)
    ((snd s)\<lparr>bq_freeSlots := (bq_freeSlots (snd s))(bg_MapId bg := i # bq_freeSlots (snd s) (bg_MapId bg))\<rparr>)"
  have same: "bq_players q = bq_players (snd s)" "bq_groups q = bq_groups (snd s)" "bq_heap q = bq_heap (snd s)"
    "bq_fresh q = bq_fresh (snd s)" "bq_WaitTimes q = bq_WaitTimes (snd s)" "bq_SumOfWaitTimes q = bq_SumOfWaitTimes (snd s)"
    "bq_WaitTimeLastPlayer q = bq_WaitTimeLastPlayer (snd s)"
    "bq_bgs q = (bq_bgs (snd s))(i \<mapsto> bg\<lparr>bg_InBGFreeSlotQueue := True\<rparr>)"
    by (simp_all add: q_def set_bg_def id)
  have "bgs_ok q" using wf(3) id by (auto simp: bgs_ok_def same q_def set_bg_def)
  then have "bg_ok (fst s, q)" by (intro bg_ok_cong [OF ok] queue_ok_cong [OF wf(1)]) (simp_all add: same)
  moreover have "AddToBGFreeSlotQueue i (snd s) = Some q" using True by (simp add: AddToBGFreeSlotQueue_def i q_def)
  moreover have "within (bg\<lparr>bg_InBGFreeSlotQueue := True\<rparr>) = within bg" by (rule within_flag)
  moreover have "kept (snd s) q" by (simp add: kept_def same)
  ultimately show ?thesis using same(3,8) by blast
qed

lemma all_within_upd: "all_within q \<Longrightarrow> bq_bgs q' = (bq_bgs q)(i \<mapsto> bg) \<Longrightarrow> within bg \<Longrightarrow> all_within q'"
  by (simp add: all_within_def)

lemma fill_one_ok:
  assumes ok: "bg_ok s" and i: "bq_bgs (snd s) i \<noteq> None"
  shows "\<exists>s'. fill_one e b s i = Some s' \<and> bg_ok s' \<and> kept (snd s) (snd s') \<and> (all_within (snd s) \<longrightarrow> all_within (snd s'))"
proof -
  from i obtain bg where bg: "bq_bgs (snd s) i = Some bg" by blast
  show ?thesis
  proof (cases "\<not> bg_isRated bg \<and> bg_BracketId bg = b \<and> bg_Status bg \<in> {STATUS_WAIT_JOIN, STATUS_IN_PROGRESS}")
    case False
    with bg have "fill_one e b s i = Some s" by (auto simp: fill_one_def)
    with ok show ?thesis by simp
  next
    case True
    define q1 where "q1 = init_pools (snd s)"
    define queue where "queue = (\<lambda>t. bq_groups q1 b (normal_type t))"
    have pools: "bq_pools q1 = (\<lambda>_. sp_Init)" and heap: "bq_heap q1 = bq_heap (snd s)" by (auto simp: q1_def)
    have "queues_fine (bq_heap q1) queue"
      using queues_fine_normal [OF bg_okD(1) [OF ok]] by (simp add: queue_def q1_def)
    from FillPlayersToBG_ok [OF this, of "qe_invitation e" bg] obtain f
      where f: "FillPlayersToBG (qe_invitation e) (bq_heap q1) bg queue (bq_pools q1) = Some (fill_pool f)"
        "fill_ok (bq_heap q1) (fill_free (qe_invitation e) bg queue) queue f" unfolding pools by blast
    define q2 where "q2 = q1\<lparr>bq_pools := fill_pool f\<rparr>"
    have ok2: "bg_ok (fst s, q2)" using bg_ok_pools(2) [OF bg_ok_pools(1) [OF ok]] by (simp add: q2_def q1_def)
    have sel: "set (sp_SelectedGroups (fill_pool f t)) \<subseteq> set (bq_groups (snd s) b (normal_type t))" for t
      using f(2) unfolding fill_ok_def queue_def q1_def by (metis Un_upper1 init_pools_simps(2) order_trans set_append)
    let ?l = "\<lambda>t. sp_PlayerCount (fill_pool f t)"
    have mr: "match_ready ?l (snd (fst s, q2))"
      using f(2) sel list_of_team(1) [OF bg_okD(1) [OF ok]]
      unfolding match_ready_def fill_ok_def by (fastforce simp: q2_def heap)
    have b2: "bq_bgs (snd (fst s, q2)) i = Some bg" by (simp add: q2_def q1_def bg)
    have p2: "bq_pools q2 = fill_pool f" by (simp add: q2_def)
    from invite_pools_ok [OF ok2 mr b2, of e] obtain s2 bg2 k where s2: "invite_pools e i (fst s, q2) = Some s2" "bg_ok s2" "only_invites q2 (snd s2)"
        "bq_bgs (snd s2) = (bq_bgs q2)(i \<mapsto> bg2)" "GetMaxPlayersPerTeam bg2 = GetMaxPlayersPerTeam bg"
        "\<forall>u. k u \<le> ?l u \<and> GetInvitedCount (team_of u) bg2 = GetInvitedCount (team_of u) bg + of_nat (k u)"
      unfolding snd_conv p2 by blast
    have room: "?l u = 0 \<or> unat (GetInvitedCount (team_of u) bg) + ?l u \<le> unat (GetMaxPlayersPerTeam bg)" for u
    proof -
      have "int (?l u) \<le> fill_free (qe_invitation e) bg queue u" using f(2) by (simp add: fill_ok_def)
      with fill_free_bounds(2) [of "qe_invitation e" bg queue u] show ?thesis by linarith
    qed
    have win: "within bg \<Longrightarrow> within bg2" by (rule within_up [OF _ s2(5) s2(6) [rule_format] room])
    have kept: "kept (snd s) (snd s2)"
      using only_invites_kept [OF s2(3)] by (simp add: kept_def q2_def q1_def)
    from RemoveFromBGFreeSlotQueue_ok [OF s2(2), of i bg2] s2(4)
    obtain q3 bg3 where q3: "RemoveFromBGFreeSlotQueue i (snd s2) = Some q3" "bg_ok (fst s2, q3)" "kept (snd s2) q3"
        "bq_bgs q3 = (bq_bgs (snd s2))(i \<mapsto> bg3)" "within bg3 = within bg2" by auto
    define s3 where "s3 = (if HasFreeSlots bg2 then s2 else (fst s2, q3))"
    have "fill_one e b s i = Some s3"
      using True bg f(1) s2(1,4) q3(1) by (auto simp: fill_one_def Let_def queue_def s3_def q2_def simp flip: q1_def)
    moreover have "bg_ok s3" using s2(2) q3(2) by (simp add: s3_def)
    moreover have "kept (snd s) (snd s3)" using kept kept_trans [OF kept q3(3)] by (simp add: s3_def)
    moreover have "bq_bgs (snd s3) = (bq_bgs (snd s))(i \<mapsto> if HasFreeSlots bg2 then bg2 else bg3)"
      using s2(4) q3(4) by (simp add: s3_def q2_def q1_def)
    then have "all_within (snd s3)" if "all_within (snd s)"
      by (rule all_within_upd [OF that]) (use that bg win q3(5) in \<open>simp add: all_within_def\<close>)
    ultimately show ?thesis by blast
  qed
qed

lemma fill_list_ok:
  assumes "bg_ok s" and "\<forall>i \<in> set is. bq_bgs (snd s) i \<noteq> None"
  shows "\<exists>s'. run_opt (fill_one e b) s is = Some s' \<and> bg_ok s' \<and> kept (snd s) (snd s') \<and> (all_within (snd s) \<longrightarrow> all_within (snd s'))"
  using assms
proof (induction "is" arbitrary: s)
  case (Cons i "is")
  from fill_one_ok [OF Cons.prems(1), of i e b] Cons.prems(2) obtain s1 where s1: "fill_one e b s i = Some s1" "bg_ok s1"
      "kept (snd s) (snd s1)" "all_within (snd s) \<longrightarrow> all_within (snd s1)" by auto
  have "\<forall>i \<in> set is. bq_bgs (snd s1) i \<noteq> None" using Cons.prems(2) s1(3) by (simp add: kept_def)
  from Cons.IH [OF s1(2) this] s1 show ?case by (auto intro: kept_trans)
qed simp

lemma fill_map_ok:
  assumes "bg_ok s"
  shows "\<exists>s'. run_opt (fill_map e b) s ms = Some s' \<and> bg_ok s' \<and> kept (snd s) (snd s') \<and> (all_within (snd s) \<longrightarrow> all_within (snd s'))"
  using assms
proof (induction ms arbitrary: s)
  case (Cons m ms)
  have "\<forall>i \<in> set (bq_freeSlots (snd s) (scast m)). bq_bgs (snd s) i \<noteq> None"
    using bg_okD(3) [OF Cons.prems] unfolding bgs_ok_def by blast
  from fill_list_ok [OF Cons.prems this, of e b] obtain s1 where s1: "fill_map e b s m = Some s1" "bg_ok s1"
      "kept (snd s) (snd s1)" "all_within (snd s) \<longrightarrow> all_within (snd s1)" by (auto simp: fill_map_def)
  from Cons.IH [OF s1(2)] s1 show ?case by (auto intro: kept_trans)
qed simp

section \<open>Matches\<close>

text \<open>What creating a match promises, for a match of at most \<open>n\<close> players a side: nobody is invited yet.\<close>

definition create_ok :: "bg_env \<Rightarrow> nat \<Rightarrow> bool" where
  "create_ok e n \<longleftrightarrow> (\<forall>premade bg. qe_Create e premade = Some bg \<longrightarrow>
     (\<forall>t. GetInvitedCount (team_of t) bg = 0) \<and> n \<le> unat (GetMaxPlayersPerTeam bg))"

lemma start_match_ok:
  assumes ok: "bg_ok s" and r: "match_ready (\<lambda>_. n) (snd s)"
  shows "\<exists>c s'. start_match e premade s = Some (c, s') \<and> bg_ok s' \<and> kept (snd s) (snd s')
    \<and> (all_within (snd s) \<longrightarrow> create_ok e n \<longrightarrow> all_within (snd s'))"
proof (cases "qe_Create e premade")
  case None
  with ok show ?thesis by (intro exI [of _ False] exI [of _ s]) (simp add: start_match_def)
next
  case (Some bg)
  let ?i = "bg_InstanceID bg" and ?s = "(fst s, set_bg bg (snd s))"
  have ok1: "bg_ok ?s" by (rule bg_ok_set_bg [OF ok refl])
  have r1: "match_ready (\<lambda>_. n) (snd ?s)" using r by (simp add: match_ready_def set_bg_def)
  have b1: "bq_bgs (snd ?s) ?i = Some bg" by (simp add: set_bg_def)
  from invite_pools_ok [OF ok1 r1 b1, of e] obtain s2 bg2 k where s2: "invite_pools e ?i ?s = Some s2" "bg_ok s2"
      "only_invites (snd ?s) (snd s2)" "bq_bgs (snd s2) = (bq_bgs (snd ?s))(?i \<mapsto> bg2)"
      "GetMaxPlayersPerTeam bg2 = GetMaxPlayersPerTeam bg"
      "\<forall>u. k u \<le> sp_PlayerCount (bq_pools (snd ?s) u)
         \<and> GetInvitedCount (team_of u) bg2 = GetInvitedCount (team_of u) bg + of_nat (k u)" by blast
  have b2: "bq_bgs (snd s2) ?i = Some bg2" by (simp add: s2(4))
  from AddToBGFreeSlotQueue_ok [OF s2(2) b2] obtain q bg3 where q: "AddToBGFreeSlotQueue ?i (snd s2) = Some q"
      "bg_ok (fst s2, q)" "kept (snd s2) q" "bq_bgs q = (bq_bgs (snd s2))(?i \<mapsto> bg3)" "within bg3 = within bg2" by blast
  have "kept (snd s) (set_bg bg (snd s))" by (simp add: kept_def set_bg_def)
  with only_invites_kept [OF s2(3)] q(3) have "kept (snd s) q" by (auto intro: kept_trans)
  moreover have "all_within q" if a: "all_within (snd s)" and c: "create_ok e n"
  proof -
    have u: "k u \<le> n" for u using s2(6) r1 unfolding match_ready_def by (meson order_trans)
    from c Some have b0: "\<forall>t. GetInvitedCount (team_of t) bg = 0" "n \<le> unat (GetMaxPlayersPerTeam bg)"
      by (auto simp: create_ok_def)
    then have w: "within bg" by (simp add: within_def)
    have "k u \<le> n \<and> GetInvitedCount (team_of u) bg2 = GetInvitedCount (team_of u) bg + of_nat (k u)" for u
      using s2(6) u by blast
    then have "within bg2" by (rule within_up [OF w s2(5)]) (simp add: b0)
    moreover have "bq_bgs q = (bq_bgs (snd s))(?i \<mapsto> bg3)" by (simp add: q(4) s2(4) set_bg_def)
    ultimately show ?thesis using all_within_upd [OF a] q(5) by blast
  qed
  moreover have "start_match e premade s = Some (True, fst s2, q)" by (simp add: start_match_def Some s2(1) q(1))
  ultimately show ?thesis using q(2) by auto
qed

text \<open>Offering groups to a pool, as in \<open>add_groups_ok\<close>.\<close>

lemma sp_AddGroup_ok:
  assumes "pool_ok h p" and "waiting h a" and "uninvited h a" and "a \<notin> set (sp_SelectedGroups p)"
  shows "\<exists>m p'. sp_AddGroup h a d p = Some (m, p') \<and> pool_ok h p' \<and> sp_PlayerCount p' \<le> max (sp_PlayerCount p) d
    \<and> (p' = p \<or> sp_SelectedGroups p' = sp_SelectedGroups p @ [a])"
proof -
  from assms(2) obtain g where g: "h a = Some g" by (auto simp: waiting_def)
  show ?thesis
  proof (cases "gq_IsInvitedToBGInstanceGUID g = 0 \<and> sp_PlayerCount p + gq_size g \<le> d")
    case True
    with pool_ok_add [OF assms] show ?thesis by (auto simp: sp_AddGroup_def g)
  next
    case False
    then have "sp_AddGroup h a d p = Some (sp_PlayerCount p < d, p)" by (auto simp: sp_AddGroup_def g)
    with assms(1) show ?thesis by auto
  qed
qed

definition offered :: "nat list \<Rightarrow> selection_pool \<Rightarrow> selection_pool \<Rightarrow> bool" where
  "offered xs p p' \<longleftrightarrow> (\<exists>ys. sp_SelectedGroups p' = sp_SelectedGroups p @ ys \<and> subseq ys xs)"

lemma offered_set: "offered xs p p' \<Longrightarrow> set (sp_SelectedGroups p') \<subseteq> set (sp_SelectedGroups p) \<union> set xs"
  by (auto simp: offered_def dest: list_emb_set)

lemma offered_skip [simp]: "offered xs p p" "offered xs p p' \<Longrightarrow> offered (x # xs) p p'"
  by (auto simp: offered_def)

lemma offered_append: "offered xs p p1 \<Longrightarrow> offered ys p1 p2 \<Longrightarrow> offered (xs @ ys) p p2"
  by (auto simp: offered_def intro: list_emb_append_mono)

lemma offered_step: "p1 = p \<or> sp_SelectedGroups p1 = sp_SelectedGroups p @ [x] \<Longrightarrow> offered xs p1 p' \<Longrightarrow> offered (x # xs) p p'"
  by (auto simp: offered_def)

lemma offer_uninvited_ok:
  assumes "pool_ok h p" and "\<forall>a \<in> set xs. waiting h a" and "distinct xs" and "set xs \<inter> set (sp_SelectedGroups p) = {}"
  shows "\<exists>p'. offer_uninvited h d xs p = Some p' \<and> pool_ok h p' \<and> sp_PlayerCount p' \<le> max (sp_PlayerCount p) d
    \<and> offered xs p p'"
  using assms
proof (induction xs arbitrary: p)
  case (Cons x xs)
  then obtain g where g: "h x = Some g" by (auto simp: waiting_def)
  show ?case
  proof (cases "gq_IsInvitedToBGInstanceGUID g = 0")
    case False
    from Cons.IH [OF Cons.prems(1)] Cons.prems obtain p' where "offer_uninvited h d xs p = Some p'" "pool_ok h p'"
        "sp_PlayerCount p' \<le> max (sp_PlayerCount p) d" "offered xs p p'" by auto
    with False g show ?thesis by auto
  next
    case True
    with g have "uninvited h x" by (simp add: uninvited_def)
    from sp_AddGroup_ok [OF Cons.prems(1) _ this, of d] Cons.prems obtain m p1 where p1: "sp_AddGroup h x d p = Some (m, p1)"
        "pool_ok h p1" "sp_PlayerCount p1 \<le> max (sp_PlayerCount p) d"
        "p1 = p \<or> sp_SelectedGroups p1 = sp_SelectedGroups p @ [x]" by auto
    show ?thesis
    proof (cases m)
      case False
      with p1 g True offered_step [OF p1(4) offered_skip(1)] show ?thesis by auto
    next
      case more: True
      have "set xs \<inter> set (sp_SelectedGroups p1) = {}" using p1(4) Cons.prems by auto
      from Cons.IH [OF p1(2) _ _ this] Cons.prems obtain p' where p': "offer_uninvited h d xs p1 = Some p'" "pool_ok h p'"
          "sp_PlayerCount p' \<le> max (sp_PlayerCount p1) d" "offered xs p1 p'" by auto
      have "offer_uninvited h d (x # xs) p = Some p'" using g True more p1(1) p'(1) by simp
      then show ?thesis using p' p1(3) offered_step [OF p1(4) p'(4)] by (intro exI [of _ p']) linarith
    qed
  qed
qed simp

text \<open>The scan of one team: when it finds enough players it stops at a group it has looked at.\<close>

lemma normal_scan_ok:
  assumes "pool_ok h p" and "\<forall>a \<in> set xs. waiting h a" and "distinct xs" and "set xs \<inter> set (sp_SelectedGroups p) = {}"
    and "sp_PlayerCount p < lo"
  shows "\<exists>zs r p'. normal_scan h lo hi xs p = Some (r, p') \<and> pool_ok h p' \<and> sp_PlayerCount p' \<le> max (sp_PlayerCount p) hi
    \<and> xs = zs @ tl r \<and> offered zs p p' \<and> (lo \<le> sp_PlayerCount p' \<longrightarrow> r \<noteq> [])"
  using assms
proof (induction xs arbitrary: p)
  case (Cons x xs)
  then obtain g where g: "h x = Some g" by (auto simp: waiting_def)
  show ?case
  proof (cases "gq_IsInvitedToBGInstanceGUID g = 0")
    case False
    from Cons.IH [OF Cons.prems(1)] Cons.prems obtain zs r p' where IH: "normal_scan h lo hi xs p = Some (r, p')" "pool_ok h p'"
        "sp_PlayerCount p' \<le> max (sp_PlayerCount p) hi" "xs = zs @ tl r" "offered zs p p'" "lo \<le> sp_PlayerCount p' \<longrightarrow> r \<noteq> []"
      by auto
    moreover have "x # xs = (x # zs) @ tl r" using IH(4) by simp
    moreover have "normal_scan h lo hi (x # xs) p = Some (r, p')" using False g IH(1) by simp
    ultimately show ?thesis using offered_skip(2) [OF IH(5), of x] by blast
  next
    case True
    with g have "uninvited h x" by (simp add: uninvited_def)
    from sp_AddGroup_ok [OF Cons.prems(1) _ this, of hi] Cons.prems obtain m p1 where p1: "sp_AddGroup h x hi p = Some (m, p1)"
        "pool_ok h p1" "sp_PlayerCount p1 \<le> max (sp_PlayerCount p) hi"
        "p1 = p \<or> sp_SelectedGroups p1 = sp_SelectedGroups p @ [x]" by auto
    have dis: "set xs \<inter> set (sp_SelectedGroups p1) = {}" using p1(4) Cons.prems by auto
    show ?thesis
    proof (cases "lo \<le> sp_PlayerCount p1")
      case enough: True
      then have "normal_scan h lo hi (x # xs) p = Some (x # xs, p1)" using g True p1(1) by simp
      moreover have "offered [x] p p1" by (rule offered_step [OF p1(4) offered_skip(1)])
      moreover have "x # xs = [x] @ tl (x # xs)" by simp
      ultimately show ?thesis using p1(2,3) by blast
    next
      case False
      with Cons.IH [OF p1(2) _ _ dis] Cons.prems obtain zs r p' where p': "normal_scan h lo hi xs p1 = Some (r, p')" "pool_ok h p'"
          "sp_PlayerCount p' \<le> max (sp_PlayerCount p1) hi" "xs = zs @ tl r" "offered zs p1 p'" "lo \<le> sp_PlayerCount p' \<longrightarrow> r \<noteq> []"
        by auto
      have "normal_scan h lo hi (x # xs) p = Some (r, p')" using g True False p1(1) p'(1) by simp
      moreover have "offered (x # zs) p p'" by (rule offered_step [OF p1(4) p'(5)])
      moreover have "x # xs = (x # zs) @ tl r" using p'(4) by simp
      moreover have "sp_PlayerCount p' \<le> max (sp_PlayerCount p) hi" using p'(3) p1(3) by linarith
      ultimately show ?thesis using p'(2,6) by blast
    qed
  qed
next
  case Nil
  then show ?case by (intro exI [of _ "[]"] exI [of _ p]) simp
qed

section \<open>Preparing a match\<close>

text \<open>What preparing a match does not touch: everything but lists, pools and sides.\<close>

definition only_lists :: "bg_queue \<Rightarrow> bg_queue \<Rightarrow> bool" where
  "only_lists q q' \<longleftrightarrow> bq_players q' = bq_players q \<and> bq_fresh q' = bq_fresh q \<and> bq_bgs q' = bq_bgs q
     \<and> bq_freeSlots q' = bq_freeSlots q \<and> bq_WaitTimes q' = bq_WaitTimes q \<and> bq_SumOfWaitTimes q' = bq_SumOfWaitTimes q
     \<and> bq_WaitTimeLastPlayer q' = bq_WaitTimeLastPlayer q
     \<and> (\<forall>a. map_option gq_Players (bq_heap q' a) = map_option gq_Players (bq_heap q a))"

lemma only_lists_refl [simp]: "only_lists q q"
  by (simp add: only_lists_def)

lemma only_lists_trans [trans]: "only_lists q q1 \<Longrightarrow> only_lists q1 q2 \<Longrightarrow> only_lists q q2"
  by (simp add: only_lists_def)

lemma set_pool_simps [simp]:
  "bq_players (set_pool t p q) = bq_players q" "bq_groups (set_pool t p q) = bq_groups q" "bq_heap (set_pool t p q) = bq_heap q"
  "bq_fresh (set_pool t p q) = bq_fresh q" "bq_bgs (set_pool t p q) = bq_bgs q"
  "bq_pools (set_pool t p q) = (bq_pools q)(t := p)" "only_lists q (set_pool t p q)"
  by (simp_all add: set_pool_def only_lists_def)

lemma queue_ok_set_pool [simp]: "queue_okx X (set_pool t p q) = queue_okx X q"
  by (auto elim: queue_ok_cong)

lemma only_lists_ok:
  assumes "bg_ok s" and "queue_okx X q" and "only_lists (snd s) q"
  shows "bg_okx X (fst s, q)" and "kept (snd s) q" and "all_within q = all_within (snd s)"
proof -
  from assms(3) show "kept (snd s) q" "all_within q = all_within (snd s)"
    by (simp_all add: only_lists_def kept_def all_within_def)
  show "bg_okx X (fst s, q)"
    using bg_okD [OF assms(1)] assms(2,3) by (simp add: bg_okx_def wait_ok_def bgs_ok_def only_lists_def)
qed

abbreviation fresh_pools :: "bg_queue \<Rightarrow> bool" where
  "fresh_pools q \<equiv> bq_pools q = (\<lambda>_. sp_Init)"

lemma sp_Init_simps [simp]: "sp_PlayerCount sp_Init = 0" "sp_SelectedGroups sp_Init = []"
  by (simp_all add: sp_Init_def)

lemma side_none [simp]: "side_of (\<lambda>_. None) a g = gq_Team g"
  by (simp add: side_of_def)

lemma premade_normal [simp]: "premade_type t \<noteq> normal_type u" "normal_type t \<noteq> premade_type u"
  "normal_type t = normal_type u \<longleftrightarrow> t = u" "premade_type t = premade_type u \<longleftrightarrow> t = u"
  by (cases t; cases u; simp)+

lemma own_types [simp]: "normal_type t \<in> set (team_types (team_of t))" "premade_type t \<in> set (team_types (team_of t))"
  by (cases t; simp add: team_types_def)+

lemma premade_to_normal_ok:
  assumes ok: "queue_ok q"
  shows "\<exists>q'. premade_to_normal e b lo t q = Some q' \<and> queue_ok q' \<and> only_lists q q' \<and> bq_pools q' = bq_pools q"
proof (cases "bq_groups q b (premade_type t)")
  case Nil
  with ok show ?thesis by (simp add: premade_to_normal_def)
next
  case (Cons x xs)
  then have x: "x \<in> set (bq_groups q b (premade_type t))" by simp
  from list_of_team(1) [OF ok x] obtain g where g: "bq_heap q x = Some g" "gq_Team g = team_of t" by (auto simp: of_team_def)
  let ?q = "set_list b (premade_type t) xs (set_list b (normal_type t) (x # bq_groups q b (normal_type t)) q)"
  have "queue_ok ?q"
    by (rule queue_ok_move [OF ok g(1) x, of "normal_type t"]) (simp_all add: set_list_groups g(2) Cons)
  moreover have "only_lists q ?q" by (simp add: only_lists_def)
  ultimately show ?thesis using ok by (simp add: premade_to_normal_def Cons g(1))
qed

lemma both_teams_ok:
  assumes "\<And>t q. I q \<Longrightarrow> \<exists>q'. f t q = Some q' \<and> I q'"
  shows "I q \<Longrightarrow> \<exists>q'. both_teams f q = Some q' \<and> I q'"
proof -
  assume "I q"
  from assms [OF this, of TEAM_ALLIANCE] obtain q1 where q1: "f TEAM_ALLIANCE q = Some q1" "I q1" by blast
  from assms [OF q1(2), of TEAM_HORDE] q1(1) show ?thesis by (auto simp: both_teams_def)
qed

lemma later_ok:
  assumes "queue_ok q"
  shows "\<exists>q'. both_teams (premade_to_normal e b lo) q = Some q' \<and> queue_ok q' \<and> only_lists q q' \<and> bq_pools q' = bq_pools q"
proof (rule both_teams_ok [of "\<lambda>q'. queue_ok q' \<and> only_lists q q' \<and> bq_pools q' = bq_pools q"])
  fix t q1 assume q1: "queue_ok q1 \<and> only_lists q q1 \<and> bq_pools q1 = bq_pools q"
  then have ok: "queue_ok q1" by blast
  from premade_to_normal_ok [OF ok, of e b lo t] q1
  show "\<exists>q'. premade_to_normal e b lo t q1 = Some q' \<and> queue_ok q' \<and> only_lists q q' \<and> bq_pools q' = bq_pools q"
    by (metis only_lists_trans)
qed (use assms in simp)

lemma first_uninvited_ok:
  "\<forall>a \<in> set xs. waiting h a \<Longrightarrow> \<exists>r. first_uninvited h xs = Some r \<and> set r \<subseteq> set xs \<and> (r \<noteq> [] \<longrightarrow> uninvited h (hd r))"
proof (induction xs)
  case (Cons x xs)
  then obtain g where g: "h x = Some g" by (auto simp: waiting_def)
  show ?case
  proof (cases "gq_IsInvitedToBGInstanceGUID g = 0")
    case True
    with g show ?thesis by (intro exI [of _ "x # xs"]) (simp add: uninvited_def)
  next
    case False
    with Cons g show ?thesis by (auto simp: subset_iff)
  qed
qed simp

lemma CheckPremadeMatch_ok:
  assumes ok: "queue_ok q" and pools: "fresh_pools q"
  shows "\<exists>m q'. CheckPremadeMatch e b lo hi q = Some (m, q') \<and> queue_ok q' \<and> only_lists q q'
    \<and> (if m then match_ready (\<lambda>_. hi) q' else fresh_pools q')"
proof -
  let ?h = "bq_heap q"
  define P where "P = (\<lambda>t. bq_groups q b (premade_type t))"
  define N where "N = (\<lambda>t. bq_groups q b (normal_type t))"
  have P: "bq_groups q b BG_QUEUE_PREMADE_ALLIANCE = P TEAM_ALLIANCE" "bq_groups q b BG_QUEUE_PREMADE_HORDE = P TEAM_HORDE"
    by (simp_all add: P_def)
  from later_ok [OF ok, of e b lo] obtain q1 where q1: "both_teams (premade_to_normal e b lo) q = Some q1" "queue_ok q1"
      "only_lists q q1" "bq_pools q1 = bq_pools q" by blast
  have wait: "\<forall>a \<in> set (P t). waiting ?h a \<and> of_team ?h t a" "\<forall>a \<in> set (N t). waiting ?h a \<and> of_team ?h t a" for t
    using list_of_team [OF ok] unfolding P_def N_def by blast+
  from first_uninvited_ok [of "P TEAM_ALLIANCE" ?h] wait(1) obtain ra where ra: "first_uninvited ?h (P TEAM_ALLIANCE) = Some ra"
      "set ra \<subseteq> set (P TEAM_ALLIANCE)" "ra \<noteq> [] \<Longrightarrow> uninvited ?h (hd ra)" by blast
  from first_uninvited_ok [of "P TEAM_HORDE" ?h] wait(1) obtain rh where rh: "first_uninvited ?h (P TEAM_HORDE) = Some rh"
      "set rh \<subseteq> set (P TEAM_HORDE)" "rh \<noteq> [] \<Longrightarrow> uninvited ?h (hd rh)" by blast
  show ?thesis
  proof (cases "P TEAM_ALLIANCE \<noteq> [] \<and> P TEAM_HORDE \<noteq> [] \<and> ra \<noteq> [] \<and> rh \<noteq> []")
    case False
    then have "CheckPremadeMatch e b lo hi q = Some (False, q1)"
      by (cases ra; cases rh) (auto simp: CheckPremadeMatch_def Let_def P q1(1) ra(1) rh(1))
    with q1 pools show ?thesis by (intro exI [of _ False] exI [of _ q1]) simp
  next
    case True
    obtain x xs y ys where xy: "ra = x # xs" "rh = y # ys" using True by (cases ra; cases rh) auto
    have x: "x \<in> set (P TEAM_ALLIANCE)" "uninvited ?h x" and y: "y \<in> set (P TEAM_HORDE)" "uninvited ?h y"
      using ra(2,3) rh(2,3) xy by auto
    define z where "z = (\<lambda>t. if t = TEAM_ALLIANCE then x else y)"
    have z: "z t \<in> set (P t)" "uninvited ?h (z t)" for t using x y by (cases t; simp add: z_def)+
    have "\<exists>m p. sp_AddGroup ?h (z t) hi sp_Init = Some (m, p) \<and> pool_ok ?h p \<and> sp_PlayerCount p \<le> hi
        \<and> set (sp_SelectedGroups p) \<subseteq> {z t}" for t
      using sp_AddGroup_ok [OF pool_ok_Init _ z(2), of t hi] wait(1) z(1) by fastforce
    then obtain m p where p: "\<And>t. sp_AddGroup ?h (z t) hi sp_Init = Some (m t, p t)" "\<And>t. pool_ok ?h (p t)"
        "\<And>t. sp_PlayerCount (p t) \<le> hi" "\<And>t. set (sp_SelectedGroups (p t)) \<subseteq> {z t}" by metis
    define n where "n = min (sp_PlayerCount (p TEAM_ALLIANCE)) (sp_PlayerCount (p TEAM_HORDE))"
    have n: "n \<le> hi" using p(3) [of TEAM_ALLIANCE] by (simp add: n_def min.coboundedI1)
    have dis: "set (N t) \<inter> set (sp_SelectedGroups (p t)) = {}" for t
      using lists_disjoint [OF ok, of "normal_type t" "premade_type t" b] z(1) [of t] p(4) [of t] by (auto simp: N_def P_def)
    have "\<exists>p'. offer_uninvited ?h n (N t) (p t) = Some p' \<and> pool_ok ?h p' \<and> sp_PlayerCount p' \<le> hi \<and> offered (N t) (p t) p'" for t
      using offer_uninvited_ok [OF p(2) _ _ dis, of t n] wait(2) queue_okD(4) [OF ok] p(3) [of t] n by (fastforce simp: N_def)
    then obtain p' where p': "\<And>t. offer_uninvited ?h n (N t) (p t) = Some (p' t)" "\<And>t. pool_ok ?h (p' t)"
        "\<And>t. sp_PlayerCount (p' t) \<le> hi" "\<And>t. offered (N t) (p t) (p' t)" by metis
    let ?q = "set_pool TEAM_HORDE (p' TEAM_HORDE) (set_pool TEAM_ALLIANCE (p' TEAM_ALLIANCE)
      (set_pool TEAM_HORDE (p TEAM_HORDE) (set_pool TEAM_ALLIANCE (p TEAM_ALLIANCE) q)))"
    have add: "sp_AddGroup ?h x hi sp_Init = Some (m TEAM_ALLIANCE, p TEAM_ALLIANCE)"
      "sp_AddGroup ?h y hi sp_Init = Some (m TEAM_HORDE, p TEAM_HORDE)"
      using p(1) [of TEAM_ALLIANCE] p(1) [of TEAM_HORDE] by (simp_all add: z_def)
    have run: "CheckPremadeMatch e b lo hi q = Some (True, ?q)"
      using True xy p'(1) [of TEAM_ALLIANCE] p'(1) [of TEAM_HORDE]
      by (simp add: CheckPremadeMatch_def Let_def P ra(1) rh(1) pools add both_teams_def N_def flip: n_def)
    have sel: "\<forall>a \<in> set (sp_SelectedGroups (p' t)). of_team ?h t a" for t
      using offered_set [OF p'(4) [of t]] p(4) [of t] wait [of t] z(1) [of t] by blast
    have "bq_pools ?q t = p' t" for t by (cases t) simp_all
    then have "match_ready (\<lambda>_. hi) ?q" using p'(2,3) sel by (simp add: match_ready_def)
    moreover have "only_lists q ?q" by (simp add: only_lists_def set_pool_def)
    ultimately show ?thesis using run ok by (intro exI [of _ True] exI [of _ ?q]) simp
  qed
qed

text \<open>
  A normal match: its pools are ready, taken in order from the lists of their sides. Unless battlegrounds are
  tested, it is found only with enough players on both sides, and with balanced teams only when these differ by
  at most two.
\<close>

lemma CheckNormalMatch_ok:
  assumes ok: "queue_ok q" and pools: "fresh_pools q" and lo: "0 < lo"
  shows "\<exists>m p. CheckNormalMatch e b lo hi q = Some (m, set_pool TEAM_HORDE (p TEAM_HORDE) (set_pool TEAM_ALLIANCE (p TEAM_ALLIANCE) q))
    \<and> (\<forall>t. pool_ok (bq_heap q) (p t) \<and> sp_PlayerCount (p t) \<le> hi
         \<and> subseq (sp_SelectedGroups (p t)) (bq_groups q b (normal_type t)))
    \<and> (m \<longrightarrow> qe_testing e \<or> (\<forall>t. lo \<le> sp_PlayerCount (p t)))
    \<and> (m \<longrightarrow> lo \<le> sp_PlayerCount (p TEAM_ALLIANCE) \<and> lo \<le> sp_PlayerCount (p TEAM_HORDE)
         \<longrightarrow> qe_invitation e \<noteq> BG_QUEUE_INVITATION_TYPE_NO_BALANCE
         \<longrightarrow> \<bar>int (sp_PlayerCount (p TEAM_HORDE)) - int (sp_PlayerCount (p TEAM_ALLIANCE))\<bar> \<le> 2)"
proof -
  let ?h = "bq_heap q"
  define N where "N = (\<lambda>t. bq_groups q b (normal_type t))"
  have N: "bq_groups q b BG_QUEUE_NORMAL_ALLIANCE = N TEAM_ALLIANCE" "bq_groups q b BG_QUEUE_NORMAL_HORDE = N TEAM_HORDE"
    by (simp_all add: N_def)
  have wait: "\<forall>a \<in> set (N t). waiting ?h a" "distinct (N t)" for t
    using list_of_team(2) [OF ok] queue_okD(4) [OF ok] unfolding N_def by blast+
  have "\<exists>zs r p'. normal_scan ?h lo hi (N t) sp_Init = Some (r, p') \<and> pool_ok ?h p' \<and> sp_PlayerCount p' \<le> hi
      \<and> N t = zs @ tl r \<and> offered zs sp_Init p' \<and> (lo \<le> sp_PlayerCount p' \<longrightarrow> r \<noteq> [])" for t
    using normal_scan_ok [OF pool_ok_Init wait(1) wait(2), of t lo hi] lo by simp
  then obtain zs r p where p: "\<And>t. normal_scan ?h lo hi (N t) sp_Init = Some (r t, p t)" "\<And>t. pool_ok ?h (p t)"
      "\<And>t. sp_PlayerCount (p t) \<le> hi" "\<And>t. N t = zs t @ tl (r t)" "\<And>t. offered (zs t) sp_Init (p t)"
      "\<And>t. lo \<le> sp_PlayerCount (p t) \<Longrightarrow> r t \<noteq> []" by metis
  have sub: "subseq (sp_SelectedGroups (p t)) (N t)" for t
    using p(5) [of t] by (auto simp: offered_def p(4) [of t] intro: list_emb_append2)
  define a where "a = sp_PlayerCount (p TEAM_ALLIANCE)"
  define c where "c = sp_PlayerCount (p TEAM_HORDE)"
  define answer where "answer = (\<lambda>a c. if qe_testing e \<and> (a \<noteq> 0 \<or> c \<noteq> 0) then True else lo \<le> a \<and> lo \<le> c)"
  let ?set = "\<lambda>p. set_pool TEAM_HORDE (p TEAM_HORDE) (set_pool TEAM_ALLIANCE (p TEAM_ALLIANCE) q)"
  show ?thesis
  proof (cases "qe_invitation e \<noteq> BG_QUEUE_INVITATION_TYPE_NO_BALANCE \<and> lo \<le> c \<and> lo \<le> a")
    case False
    then have "CheckNormalMatch e b lo hi q = Some (answer a c, ?set p)"
      using p(1) [of TEAM_ALLIANCE] p(1) [of TEAM_HORDE]
      by (auto simp: CheckNormalMatch_def N pools Let_def answer_def a_def c_def)
    moreover have "answer a c \<longrightarrow> qe_testing e \<or> (\<forall>t. lo \<le> sp_PlayerCount (p t))"
      by (auto simp: answer_def a_def c_def split: if_splits) (metis team_id.exhaust)
    ultimately show ?thesis using p(2,3) sub False
      by (intro exI [of _ "answer a c"] exI [of _ p]) (auto simp: N_def a_def c_def)
  next
    case True
    define j where "j = (if c < a then TEAM_HORDE else TEAM_ALLIANCE)"
    define d where "d = sp_PlayerCount (p (other_team j))"
    have enough: "lo \<le> sp_PlayerCount (p j)" using True by (simp add: j_def a_def c_def)
    obtain x rest where r: "r j = x # rest" using p(6) [OF enough] by (cases "r j") auto
    have split: "N j = zs j @ rest" using p(4) [of j] r by simp
    have "set (sp_SelectedGroups (p j)) \<subseteq> set (zs j)" using offered_set [OF p(5) [of j]] by simp
    then have "set rest \<inter> set (sp_SelectedGroups (p j)) = {}" "distinct rest" "\<forall>a \<in> set rest. waiting ?h a"
      using wait [of j] unfolding split by auto
    from offer_uninvited_ok [OF p(2) this(3,2,1), of d] obtain p' where p': "offer_uninvited ?h d rest (p j) = Some p'"
        "pool_ok ?h p'" "sp_PlayerCount p' \<le> max (sp_PlayerCount (p j)) d" "offered rest (p j) p'" by blast
    define P where "P = p(j := p')"
    have off: "offered (zs j @ rest) sp_Init p'" by (rule offered_append [OF p(5) p'(4)])
    have "subseq (sp_SelectedGroups p') (N j)" using off by (simp add: offered_def split)
    then have subP: "subseq (sp_SelectedGroups (P t)) (N t)" for t using sub by (simp add: P_def)
    have "sp_PlayerCount p' \<le> hi" using p'(3) p(3) [of j] p(3) [of "other_team j"] by (simp add: d_def)
    then have P: "pool_ok ?h (P t) \<and> sp_PlayerCount (P t) \<le> hi" for t using p(2,3) p'(2) by (simp add: P_def)
    have other: "P (other_team j) = p (other_team j)" by (simp add: P_def)
    have same: "set_pool j p' (?set p) = ?set P"
      by (cases j) (simp_all add: P_def set_pool_def fun_upd_twist)
    let ?a = "sp_PlayerCount (P TEAM_ALLIANCE)" and ?c = "sp_PlayerCount (P TEAM_HORDE)"
    have d: "(if j = TEAM_ALLIANCE then sp_PlayerCount (p TEAM_HORDE) else sp_PlayerCount (p TEAM_ALLIANCE)) = d"
      by (cases j) (simp_all add: d_def)
    have pj: "bq_pools (?set p) t = p t" for t by (cases t) simp_all
    have rj: "(if j = TEAM_ALLIANCE then r TEAM_ALLIANCE else r TEAM_HORDE) = x # rest" using r by (cases j) simp_all
    have run: "CheckNormalMatch e b lo hi q = Some (if \<bar>int ?c - int ?a\<bar> > 2 then False else answer ?a ?c, ?set P)"
    proof -
      have "bq_pools (?set P) t = P t" for t by (cases t) simp_all
      with True p'(1) p(1) [of TEAM_ALLIANCE] p(1) [of TEAM_HORDE] rj show ?thesis
        by (auto simp: CheckNormalMatch_def N pools Let_def a_def [symmetric] c_def [symmetric] answer_def
            j_def [symmetric] pj d_def [symmetric] same simp del: set_pool_simps)
    qed
    moreover have "answer ?a ?c \<longrightarrow> qe_testing e \<or> (\<forall>t. lo \<le> sp_PlayerCount (P t))"
      by (auto simp: answer_def split: if_splits) (metis team_id.exhaust)
    ultimately show ?thesis using P subP
      by (intro exI [of _ "if \<bar>int ?c - int ?a\<bar> > 2 then False else answer ?a ?c"] exI [of _ P]) (auto simp: N_def)
  qed
qed

text \<open>Changing sides: selected groups behind \<open>front\<close> move to the list of the other side.\<close>

lemma change_side_ok:
  assumes "queue_ok q" and "bq_groups q b (normal_type (other_team u)) = front @ rest" and "set as \<subseteq> set rest" and "distinct as"
  shows "\<exists>q'. run_opt (change_side b u front) q as = Some q' \<and> queue_ok q' \<and> only_lists q q' \<and> bq_pools q' = bq_pools q
    \<and> (\<forall>c. bq_heap q' c = map_option (\<lambda>g. if c \<in> set as then g\<lparr>gq_Team := team_of u\<rparr> else g) (bq_heap q c))"
  using assms
proof (induction as arbitrary: q rest)
  case Nil
  then show ?case by (auto simp: option.map_ident)
next
  case (Cons a as)
  let ?own = "normal_type (other_team u)"
  from Cons.prems(2,3) have a: "a \<in> set (bq_groups q b ?own)" "a \<in> set rest" by auto
  from list_of_team(1) [OF Cons.prems(1) a(1)] obtain g where g: "bq_heap q a = Some g" "gq_Team g = team_of (other_team u)"
    by (auto simp: of_team_def)
  let ?g = "g\<lparr>gq_Team := team_of u\<rparr>"
  define q1 where "q1 = set_group a ?g q"
  have q1: "bq_groups q1 = bq_groups q" "bq_players q1 = bq_players q" "bq_fresh q1 = bq_fresh q" "bq_pools q1 = bq_pools q"
    "bq_heap q1 = (bq_heap q)(a \<mapsto> ?g)" "only_lists q q1"
    using g(1) by (simp_all add: q1_def set_group_def only_lists_def)
  let ?X = "(\<lambda>_. None)(a \<mapsto> team_of (other_team u))"
  have ok1: "queue_okx ?X q1" unfolding q1_def
    using g by (intro queue_ok_set_group [OF Cons.prems(1) g(1)]) (simp_all add: side_of_def)
  define q2 where "q2 = set_list b ?own (front @ remove1 a rest)
    (set_list b (normal_type u) (a # bq_groups q b (normal_type u)) q1)"
  have notfront: "a \<notin> set front" using queue_okD(4) [OF Cons.prems(1), of b ?own] a(2) by (auto simp: Cons.prems(2))
  have "queue_okx (\<lambda>_. None) q2"
  proof (rule queue_ok_move [OF ok1, of a ?g b ?own "normal_type u"])
    show "bq_groups q2 c k = (if c = b \<and> k = normal_type u then a # bq_groups q1 b (normal_type u)
        else if c = b \<and> k = ?own then remove1 a (bq_groups q1 b ?own) else bq_groups q1 c k)" for c k
      using notfront by (auto simp: q2_def set_list_groups q1(1) Cons.prems(2) remove1_append)
  qed (use a in \<open>simp_all add: q1 q2_def\<close>)
  moreover have "bq_groups q2 b ?own = front @ remove1 a rest" by (simp add: q2_def set_list_groups)
  moreover have "set as \<subseteq> set (remove1 a rest)"
    using Cons.prems(3,4) by (auto intro: in_set_remove1 [THEN iffD2])
  moreover have "distinct as" using Cons.prems(4) by simp
  ultimately obtain q' where q': "run_opt (change_side b u front) q2 as = Some q'" "queue_ok q'" "only_lists q2 q'"
      "bq_pools q' = bq_pools q2"
      "\<forall>c. bq_heap q' c = map_option (\<lambda>g. if c \<in> set as then g\<lparr>gq_Team := team_of u\<rparr> else g) (bq_heap q2 c)"
    using Cons.IH [of q2 "remove1 a rest"] by auto
  have "change_side b u front q a = Some q2"
    by (simp add: change_side_def g(1) Let_def set_list_groups q2_def Cons.prems(2) q1(1) flip: q1_def)
  moreover have "only_lists q q2" using q1(6) by (simp add: q2_def only_lists_def)
  moreover have "bq_heap q2 = (bq_heap q)(a \<mapsto> ?g)" "bq_pools q2 = bq_pools q" by (simp_all add: q2_def q1)
  ultimately show ?case using q' Cons.prems(4) g(1) only_lists_trans [of q q2 q'] by auto
qed

lemma after_last_selected:
  assumes "subseq (xs @ [x]) ys" and "distinct ys"
  shows "x \<in> set ys" and "set (drop (length (takeWhile (\<lambda>y. y \<noteq> x) ys @ [x])) ys) \<inter> set (xs @ [x]) = {}"
    and "takeWhile (\<lambda>y. y \<noteq> x) ys @ [x] @ drop (length (takeWhile (\<lambda>y. y \<noteq> x) ys @ [x])) ys = ys"
proof -
  from list_emb_appendD [OF assms(1)] obtain us vs where uv: "ys = us @ vs" "subseq xs us" "subseq [x] vs" by blast
  then obtain v1 v2 where v: "vs = v1 @ x # v2" by (metis subseq_singleton_left split_list)
  with assms(2) uv(1) have x: "x \<notin> set (us @ v1)" "x \<notin> set v2" "set (us @ v1) \<inter> set v2 = {}" by auto
  have ys: "ys = (us @ v1) @ x # v2" using uv(1) v by simp
  have tw: "takeWhile (\<lambda>y. y \<noteq> x) ys = us @ v1" 
    unfolding ys using x(1) by (subst takeWhile_append2) auto
  have "set xs \<subseteq> set us" using uv(2) by (auto dest: list_emb_set)
  with x show "x \<in> set ys" "set (drop (length (takeWhile (\<lambda>y. y \<noteq> x) ys @ [x])) ys) \<inter> set (xs @ [x]) = {}"
    "takeWhile (\<lambda>y. y \<noteq> x) ys @ [x] @ drop (length (takeWhile (\<lambda>y. y \<noteq> x) ys @ [x])) ys = ys"
    unfolding tw by (auto simp: ys)
qed

lemma pool_ok_sides:
  assumes "pool_ok h p" and "\<And>a. a \<in> set (sp_SelectedGroups p) \<Longrightarrow> \<exists>t. h' a = map_option (\<lambda>g. g\<lparr>gq_Team := t\<rparr>) (h a)"
  shows "pool_ok h' p"
proof -
  have "waiting h' a \<and> uninvited h' a" "gq_size (the (h' a)) = gq_size (the (h a))" if "a \<in> set (sp_SelectedGroups p)" for a
  proof -
    from assms(1) that obtain g where g: "h a = Some g" "gq_Players g \<noteq> []" "gq_IsInvitedToBGInstanceGUID g = 0"
      by (auto simp: pool_ok_def waiting_def uninvited_def)
    from assms(2) [OF that] obtain t where "h' a = Some (g\<lparr>gq_Team := t\<rparr>)" by (auto simp: g(1))
    with g show "waiting h' a \<and> uninvited h' a" "gq_size (the (h' a)) = gq_size (the (h a))"
      by (simp_all add: waiting_def uninvited_def gq_size_def)
  qed
  moreover from this(2) have "players_in h' (sp_SelectedGroups p) = players_in h (sp_SelectedGroups p)"
    unfolding players_in_def by (intro arg_cong [where f = sum_list] map_cong) auto
  ultimately show ?thesis using assms(1) by (simp add: pool_ok_def)
qed

lemma CheckSkirmish_ok:
  assumes ok: "queue_ok q" and lo: "0 < lo"
    and pools: "\<And>t. pool_ok (bq_heap q) (bq_pools q t)" "\<And>t. sp_PlayerCount (bq_pools q t) \<le> lo"
      "\<And>t. subseq (sp_SelectedGroups (bq_pools q t)) (bq_groups q b (normal_type t))"
  shows "\<exists>m q'. CheckSkirmishForSameFaction b lo q = Some (m, q') \<and> queue_ok q' \<and> only_lists q q'
    \<and> (m \<longrightarrow> match_ready (\<lambda>_. lo) q')"
proof (cases "GetPlayersInQueue TEAM_ALLIANCE q < lo \<and> GetPlayersInQueue TEAM_HORDE q < lo")
  case True
  with ok show ?thesis by (intro exI [of _ False] exI [of _ q]) (simp add: CheckSkirmishForSameFaction_def)
next
  case False
  define t where "t = (if GetPlayersInQueue TEAM_HORDE q = lo then TEAM_HORDE else TEAM_ALLIANCE)"
  define u where "u = other_team t"
  let ?h = "bq_heap q" and ?sel = "sp_SelectedGroups (bq_pools q t)"
  define queue where "queue = bq_groups q b (normal_type t)"
  have tu: "t \<noteq> u" "other_team u = t" by (simp_all add: u_def)
  have "sp_PlayerCount (bq_pools q t) = lo"
    using False pools(2) [of TEAM_ALLIANCE] pools(2) [of TEAM_HORDE] by (auto simp: t_def GetPlayersInQueue_def)
  with lo pool_empty [OF pools(1) [of t]] have sel: "?sel \<noteq> []" by simp
  define x where "x = last ?sel"
  define front where "front = takeWhile (\<lambda>y. y \<noteq> x) queue @ [x]"
  define rest where "rest = drop (length front) queue"
  have dq: "distinct queue" using queue_okD(4) [OF ok] by (simp add: queue_def)
  have "subseq (butlast ?sel @ [x]) queue" using pools(3) [of t] sel by (simp add: x_def queue_def)
  note al = after_last_selected [OF this dq]
  have x: "x \<in> set queue" and dis: "set rest \<inter> set ?sel = {}" and split: "front @ rest = queue"
    using al sel by (simp_all add: rest_def front_def x_def)
  define q1 where "q1 = set_pool u sp_Init q"
  have q1: "bq_groups q1 = bq_groups q" "bq_heap q1 = ?h" "bq_pools q1 t = bq_pools q t" "bq_pools q1 u = sp_Init"
    using tu by (simp_all add: q1_def)
  have "set rest \<subseteq> set queue" using split by auto
  then have rw: "\<forall>a \<in> set rest. waiting ?h a" using list_of_team(2) [OF ok] unfolding queue_def by blast
  have rd: "distinct rest" using dq by (simp add: rest_def)
  from offer_uninvited_ok [OF pool_ok_Init rw rd, of lo] obtain p where p: "offer_uninvited ?h lo rest sp_Init = Some p"
      "pool_ok ?h p" "sp_PlayerCount p \<le> lo" "offered rest sp_Init p" by auto
  define q2 where "q2 = set_pool u p q1"
  have q2: "queue_ok q2" "only_lists q q2" "bq_groups q2 = bq_groups q" "bq_heap q2 = ?h"
    "bq_pools q2 t = bq_pools q t" "bq_pools q2 u = p"
    using ok tu by (simp_all add: q2_def q1_def only_lists_def set_pool_def queue_okx_def group_ok_def placed_def)
  have run: "CheckSkirmishForSameFaction b lo q = (if sp_PlayerCount p \<noteq> lo then Some (False, q2)
      else map_option (Pair True) (run_opt (change_side b u front) q2 (sp_SelectedGroups p)))"
    using False sel x p(1)
    by (auto simp: CheckSkirmishForSameFaction_def Let_def t_def [symmetric] u_def [symmetric] q1_def [symmetric] q1
        queue_def [symmetric] x_def [symmetric] front_def [symmetric] rest_def [symmetric] q2_def [symmetric])
  show ?thesis
  proof (cases "sp_PlayerCount p = lo")
    case False
    with run q2 show ?thesis by (intro exI [of _ False] exI [of _ q2]) simp
  next
    case True
    have own: "bq_groups q2 b (normal_type (other_team u)) = front @ rest" by (simp add: q2 tu split queue_def)
    have sub: "set (sp_SelectedGroups p) \<subseteq> set rest" using offered_set [OF p(4)] by simp
    have "distinct (sp_SelectedGroups p)" using p(2) by (simp add: pool_ok_def)
    from change_side_ok [OF q2(1) own sub this] obtain q' where q': "run_opt (change_side b u front) q2 (sp_SelectedGroups p) = Some q'"
        "queue_ok q'" "only_lists q2 q'" "bq_pools q' = bq_pools q2"
        "\<forall>c. bq_heap q' c = map_option (\<lambda>g. if c \<in> set (sp_SelectedGroups p) then g\<lparr>gq_Team := team_of u\<rparr> else g) (bq_heap q2 c)"
      by blast
    have same: "bq_heap q' c = ?h c" if "c \<in> set ?sel" for c
    proof -
      have "c \<notin> set (sp_SelectedGroups p)" using that sub dis by blast
      then show ?thesis by (simp add: q'(5) q2 option.map_ident)
    qed
    have moved: "bq_heap q' c = map_option (\<lambda>g. g\<lparr>gq_Team := team_of u\<rparr>) (?h c)" if "c \<in> set (sp_SelectedGroups p)" for c
      using that by (simp add: q'(5) q2)
    have "pool_ok (bq_heap q') (bq_pools q' t) \<and> sp_PlayerCount (bq_pools q' t) \<le> lo
        \<and> (\<forall>a \<in> set (sp_SelectedGroups (bq_pools q' t)). of_team (bq_heap q') t a)"
    proof (intro conjI ballI)
      have "\<exists>s. bq_heap q' a = map_option (\<lambda>g. g\<lparr>gq_Team := s\<rparr>) (?h a)" if "a \<in> set ?sel" for a
      proof (cases "?h a")
        case (Some g)
        then have "bq_heap q' a = map_option (\<lambda>k. k\<lparr>gq_Team := gq_Team g\<rparr>) (?h a)" using same [OF that] by simp
        then show ?thesis by (rule exI)
      qed (use same [OF that] in simp)
      then show "pool_ok (bq_heap q') (bq_pools q' t)"
        unfolding q'(4) q2(5) by (rule pool_ok_sides [OF pools(1)])
      show "sp_PlayerCount (bq_pools q' t) \<le> lo" by (simp add: q'(4) q2 pools(2))
      fix a assume "a \<in> set (sp_SelectedGroups (bq_pools q' t))"
      then have a: "a \<in> set ?sel" by (simp add: q'(4) q2)
      with pools(3) [of t] have "a \<in> set (bq_groups q b (normal_type t))" by (auto dest: list_emb_set)
      from list_of_team(1) [OF ok this] same [OF a] show "of_team (bq_heap q') t a" by (simp add: of_team_def)
    qed
    moreover have "pool_ok (bq_heap q') (bq_pools q' u) \<and> sp_PlayerCount (bq_pools q' u) \<le> lo
        \<and> (\<forall>a \<in> set (sp_SelectedGroups (bq_pools q' u)). of_team (bq_heap q') u a)"
    proof (intro conjI ballI)
      show "pool_ok (bq_heap q') (bq_pools q' u)"
        unfolding q'(4) q2(6) by (rule pool_ok_sides [OF p(2)]) (intro exI, rule moved)
      show "sp_PlayerCount (bq_pools q' u) \<le> lo" by (simp add: q'(4) q2 True)
      fix a assume "a \<in> set (sp_SelectedGroups (bq_pools q' u))"
      then have a: "a \<in> set (sp_SelectedGroups p)" by (simp add: q'(4) q2)
      with p(2) obtain g where "?h a = Some g" by (auto simp: pool_ok_def waiting_def)
      with moved [OF a] show "of_team (bq_heap q') u a" by (simp add: of_team_def)
    qed
    ultimately have "match_ready (\<lambda>_. lo) q'"
      unfolding match_ready_def by (metis (full_types) team_id.exhaust tu(1))
    moreover have "only_lists q q'" using q2(2) q'(3) by (rule only_lists_trans)
    ultimately show ?thesis using run True q'(1,2) by (intro exI [of _ True] exI [of _ q']) simp
  qed
qed

section \<open>Normal and premade matches of the update\<close>

text \<open>
  Teams of at least one player; arenas need full teams, so tests with arenas are excluded (with them
  \<open>CheckSkirmishForSameFaction\<close> may look at the last group of an empty pool).
\<close>

definition limits_ok :: "bg_env \<Rightarrow> bg_template \<Rightarrow> bool" where
  "limits_ok e t \<longleftrightarrow> 0 < fst (match_limits e t) \<and> \<not> (bt_isArena t \<and> qe_arenaTesting e)"

lemma limits_arena: "limits_ok e t \<Longrightarrow> bt_isArena t \<Longrightarrow> snd (match_limits e t) = fst (match_limits e t)"
  by (simp add: limits_ok_def match_limits_def)

lemma update_normal_ok:
  assumes ok: "bg_ok s" and pools: "fresh_pools (snd s)" and lim: "limits_ok e t"
  shows "\<exists>s'. update_normal e b t s = Some s' \<and> bg_ok s' \<and> kept (snd s) (snd s')
    \<and> (all_within (snd s) \<longrightarrow> create_ok e (snd (match_limits e t)) \<longrightarrow> all_within (snd s'))"
proof -
  let ?lo = "fst (match_limits e t)" and ?hi = "snd (match_limits e t)"
  have lo: "0 < ?lo" using lim by (simp add: limits_ok_def)
  from CheckNormalMatch_ok [OF bg_okD(1) [OF ok] pools lo, of e b ?hi] obtain m p where
      m: "CheckNormalMatch e b ?lo ?hi (snd s)
        = Some (m, set_pool TEAM_HORDE (p TEAM_HORDE) (set_pool TEAM_ALLIANCE (p TEAM_ALLIANCE) (snd s)))"
    and p: "\<And>u. pool_ok (bq_heap (snd s)) (p u)" "\<And>u. sp_PlayerCount (p u) \<le> ?hi"
      "\<And>u. subseq (sp_SelectedGroups (p u)) (bq_groups (snd s) b (normal_type u))" by metis
  define q where "q = set_pool TEAM_HORDE (p TEAM_HORDE) (set_pool TEAM_ALLIANCE (p TEAM_ALLIANCE) (snd s))"
  have q: "queue_ok q" "bq_heap q = bq_heap (snd s)" "bq_groups q = bq_groups (snd s)" "only_lists (snd s) q"
    using bg_okD(1) [OF ok] by (simp_all add: q_def) (simp add: only_lists_def set_pool_def)
  have qp: "bq_pools q u = p u" for u by (cases u) (simp_all add: q_def)
  have "of_team (bq_heap q) u a" if "a \<in> set (sp_SelectedGroups (p u))" for a u
    using that p(3) [of u] list_of_team(1) [OF q(1), of a b "normal_type u" u] q(3) by (auto dest: list_emb_set)
  then have ready: "match_ready (\<lambda>_. ?hi) q" using p by (simp add: match_ready_def qp q(2))
  define r where "r = (if \<not> m \<and> bt_isArena t then CheckSkirmishForSameFaction b ?lo q else Some (m, q))"
  have "\<exists>m1 q1. r = Some (m1, q1) \<and> queue_ok q1 \<and> only_lists q q1 \<and> (m1 \<longrightarrow> match_ready (\<lambda>_. ?hi) q1)"
  proof (cases "\<not> m \<and> bt_isArena t")
    case False
    then have "r = Some (m, q)" by (auto simp: r_def)
    with q(1) ready show ?thesis by simp
  next
    case True
    then have hi: "?hi = ?lo" using limits_arena [OF lim] by blast
    have "\<exists>m1 q1. CheckSkirmishForSameFaction b ?lo q = Some (m1, q1) \<and> queue_ok q1 \<and> only_lists q q1
        \<and> (m1 \<longrightarrow> match_ready (\<lambda>_. ?lo) q1)"
      using p hi by (intro CheckSkirmish_ok [OF q(1) lo]) (simp_all add: qp q)
    moreover have "r = CheckSkirmishForSameFaction b ?lo q" using True by (simp add: r_def)
    ultimately show ?thesis by (simp add: hi)
  qed
  then obtain m1 q1 where r: "r = Some (m1, q1)" "queue_ok q1" "only_lists q q1" "m1 \<Longrightarrow> match_ready (\<lambda>_. ?hi) q1" by blast
  note l1 = only_lists_ok [OF ok r(2) only_lists_trans [OF q(4) r(3)]]
  have run: "update_normal e b t s = (if m1 then map_option snd (start_match e False (fst s, q1)) else Some (fst s, q1))"
    using r(1) by (simp add: update_normal_def m r_def flip: q_def)
  show ?thesis
  proof (cases m1)
    case False
    with run l1 show ?thesis by simp
  next
    case True
    from start_match_ok [OF l1(1), of ?hi e False] r(4) [OF True] obtain c s' where s': "start_match e False (fst s, q1) = Some (c, s')"
        "bg_ok s'" "kept q1 (snd s')" "all_within q1 \<longrightarrow> create_ok e ?hi \<longrightarrow> all_within (snd s')" by auto
    with run True l1(3) kept_trans [OF l1(2) s'(3)] show ?thesis by simp
  qed
qed

lemma update_premade_ok:
  assumes ok: "bg_ok s" and pools: "fresh_pools (snd s)"
  shows "\<exists>go s'. update_premade e b t s = Some (go, s') \<and> bg_ok s' \<and> kept (snd s) (snd s') \<and> (go \<longrightarrow> fresh_pools (snd s'))
    \<and> (all_within (snd s) \<longrightarrow> create_ok e (snd (match_limits e t)) \<longrightarrow> all_within (snd s'))"
proof (cases "bt_isArena t")
  case True
  with assms show ?thesis by (intro exI [of _ True] exI [of _ s]) (simp add: update_premade_def)
next
  case False
  let ?lo = "fst (match_limits e t)" and ?hi = "snd (match_limits e t)"
  from CheckPremadeMatch_ok [OF bg_okD(1) [OF ok] pools, of e b ?lo ?hi] obtain m q where
    m: "CheckPremadeMatch e b ?lo ?hi (snd s) = Some (m, q)" "queue_ok q" "only_lists (snd s) q"
      "if m then match_ready (\<lambda>_. ?hi) q else fresh_pools q" by blast
  note l = only_lists_ok [OF ok m(2,3)]
  show ?thesis
  proof (cases m)
    case notm: False
    with False m have "update_premade e b t s = Some (True, fst s, q)" by (simp add: update_premade_def)
    with l m(4) notm show ?thesis by auto
  next
    case True
    from start_match_ok [OF l(1), of ?hi e True] m(4) True obtain c s1 where s1: "start_match e True (fst s, q) = Some (c, s1)"
        "bg_ok s1" "kept q (snd s1)" "all_within q \<longrightarrow> create_ok e ?hi \<longrightarrow> all_within (snd s1)" by auto
    let ?s = "if c then (fst s1, init_pools (snd s1)) else s1"
    have "update_premade e b t s = Some (c, ?s)" using False True m(1) s1(1) by (simp add: update_premade_def)
    moreover have "bg_ok ?s" using s1(2) bg_ok_pools(1) [OF s1(2)] by simp
    moreover have "kept (snd s) (snd ?s)" using kept_trans [OF l(2) s1(3)] by (simp add: kept_def)
    moreover have "all_within (snd ?s) = all_within (snd s1)" by (simp add: all_within_def)
    moreover have "c \<longrightarrow> fresh_pools (snd ?s)" by auto
    ultimately show ?thesis using s1(4) l(3) by auto
  qed
qed

section \<open>Rated arenas\<close>

lemma find_rated_ok:
  "\<forall>a \<in> set xs. h a \<noteq> None \<Longrightarrow> find_rated P h xs = Some (dropWhile (\<lambda>a. \<not> P (the (h a))) xs)"
  by (induction xs) auto

text \<open>The pair: the first suitable groups of the two lists, or two of different teams of one list.\<close>

lemma rated_pair_ok:
  assumes "\<forall>a \<in> set ali \<union> set horde. h a \<noteq> None" and "set ali \<inter> set horde = {}"
  shows "\<exists>r. rated_pair e rating h ali horde = Some r
    \<and> (\<forall>x y. r = Some (x, y) \<longrightarrow> x \<noteq> y \<and> {x, y} \<subseteq> set ali \<union> set horde
         \<and> rated_match e rating (the (h x)) \<and> rated_match e rating (the (h y))
         \<and> (x \<in> set ali \<and> y \<in> set horde \<or> gq_ArenaTeamId (the (h x)) \<noteq> gq_ArenaTeamId (the (h y))))
    \<and> (r = None \<longrightarrow> (\<forall>x \<in> set ali \<union> set horde. \<forall>y \<in> set ali \<union> set horde.
         rated_match e rating (the (h x)) \<longrightarrow> rated_match e rating (the (h y)) \<longrightarrow>
           \<not> (x \<in> set ali \<and> y \<in> set horde) \<and> gq_ArenaTeamId (the (h x)) = gq_ArenaTeamId (the (h y))))"
proof -
  let ?P = "\<lambda>a. \<not> rated_match e rating (the (h a))"
  define ra where "ra = dropWhile ?P ali"
  define rh where "rh = dropWhile ?P horde"
  have f: "find_rated (rated_match e rating) h ali = Some ra" "find_rated (rated_match e rating) h horde = Some rh"
    using assms(1) by (simp_all add: find_rated_ok ra_def rh_def)
  have sub: "set ra \<subseteq> set ali" "set rh \<subseteq> set horde" unfolding ra_def rh_def by (auto dest: set_dropWhileD)
  have hd: "ra \<noteq> [] \<Longrightarrow> rated_match e rating (the (h (hd ra)))" "rh \<noteq> [] \<Longrightarrow> rated_match e rating (the (h (hd rh)))"
    using hd_dropWhile [of ?P ali] hd_dropWhile [of ?P horde] by (simp_all add: ra_def rh_def)
  have drop: "a \<in> set xs \<Longrightarrow> \<not> P a \<Longrightarrow> a \<in> set (dropWhile P xs)" for P and xs :: "nat list" and a
    by (induction xs) auto
  have in_rest: "a \<in> set ali \<Longrightarrow> rated_match e rating (the (h a)) \<Longrightarrow> a \<in> set ra"
    "a \<in> set horde \<Longrightarrow> rated_match e rating (the (h a)) \<Longrightarrow> a \<in> set rh" for a
    unfolding ra_def rh_def by (simp_all add: drop)
  consider (none) "ra = []" "rh = []" | (both) x xs y ys where "ra = x # xs" "rh = y # ys" | (one) "(ra = []) \<noteq> (rh = [])"
    by (cases ra; cases rh) auto
  then show ?thesis
  proof cases
    case none
    with in_rest have "\<not> rated_match e rating (the (h a))" if "a \<in> set ali \<union> set horde" for a using that by fastforce
    moreover have "rated_pair e rating h ali horde = Some None" using none f by (simp add: rated_pair_def)
    ultimately show ?thesis by blast
  next
    case both
    then have "rated_pair e rating h ali horde = Some (Some (x, y))" using f by (simp add: rated_pair_def)
    with both hd sub assms(2) show ?thesis by auto
  next
    case one
    let ?rest = "ra @ rh" and ?x = "hd (ra @ rh)"
    let ?Q = "\<lambda>a. \<not> (rated_match e rating (the (h a)) \<and> gq_ArenaTeamId (the (h ?x)) \<noteq> gq_ArenaTeamId (the (h a)))"
    define d where "d = dropWhile ?Q ?rest"
    have ne: "?rest \<noteq> []" using one by auto
    then have x: "?x \<in> set ?rest" by (rule hd_in_set)
    have rest: "set ?rest \<subseteq> set ali \<union> set horde" using sub by auto
    with x assms(1) obtain g where g: "h ?x = Some g" by blast
    have "\<forall>a \<in> set ?rest. h a \<noteq> None" using rest assms(1) by blast
    note fr = find_rated_ok [OF this, of "\<lambda>k. rated_match e rating k \<and> gq_ArenaTeamId g \<noteq> gq_ArenaTeamId k"]
    have run: "rated_pair e rating h ali horde = Some (case d of [] \<Rightarrow> None | y # _ \<Rightarrow> Some (?x, y))"
      using one f g fr by (cases ra; cases rh) (simp_all add: rated_pair_def Let_def d_def cong: list.case_cong)
    have mx: "rated_match e rating (the (h ?x))" using one hd by (cases ra) auto
    show ?thesis
    proof (cases d)
      case Nil
      then have "\<forall>a \<in> set ?rest. ?Q a" unfolding d_def by (simp only: dropWhile_eq_Nil_conv)
      then have same: "gq_ArenaTeamId (the (h a)) = gq_ArenaTeamId (the (h ?x))"
        if "a \<in> set ali \<union> set horde" "rated_match e rating (the (h a))" for a using in_rest that by fastforce
      have "\<not> (a \<in> set ali \<and> c \<in> set horde)" if "rated_match e rating (the (h a))" "rated_match e rating (the (h c))" for a c
        using one in_rest that by fastforce
      moreover have "rated_pair e rating h ali horde = Some None" using run Nil by simp
      moreover have "gq_ArenaTeamId (the (h a)) = gq_ArenaTeamId (the (h c))"
        if "a \<in> set ali \<union> set horde" "rated_match e rating (the (h a))" "c \<in> set ali \<union> set horde" "rated_match e rating (the (h c))"
        for a c by (rule trans [OF same [OF that(1,2)] same [OF that(3,4), symmetric]])
      ultimately show ?thesis by (intro exI [of _ None]) blast
    next
      case (Cons y ys)
      then have y: "y \<in> set ?rest" unfolding d_def by (metis list.set_intros(1) set_dropWhileD)
      have dy: "dropWhile ?Q ?rest \<noteq> []" "hd (dropWhile ?Q ?rest) = y" using Cons by (simp_all only: d_def list.distinct list.sel simp_thms)
      have "\<not> ?Q y" using hd_dropWhile [of ?Q ?rest, OF dy(1)] unfolding dy(2) .
      then have ry: "rated_match e rating (the (h y))" "gq_ArenaTeamId (the (h ?x)) \<noteq> gq_ArenaTeamId (the (h y))" by blast+
      then have ne: "?x \<noteq> y" by metis
      have "rated_pair e rating h ali horde = Some (Some (?x, y))" using run Cons by simp
      moreover have "{?x, y} \<subseteq> set ali \<union> set horde" using x y rest by blast
      ultimately show ?thesis using ry ne mx by (intro exI [of _ "Some (?x, y)"]) blast
    qed
  qed
qed

text \<open>A change that keeps who is in which group, the lists of the other groups, and the battlegrounds.\<close>

lemma move_rated_ok:
  assumes ok: "queue_okx X q" and X: "X a = None" and h: "bq_heap q a = Some g"
    and a: "a \<in> set (bq_groups q b (premade_type t)) \<union> set (bq_groups q b (premade_type (other_team t)))"
  shows "\<exists>q' X'. move_rated b t a q = Some q' \<and> queue_okx X' q' \<and> only_lists q q' \<and> bq_heap q' = bq_heap q
    \<and> (X' a = Some (team_of t) \<or> X' a = None \<and> gq_Team g = team_of t) \<and> (\<forall>c. c \<noteq> a \<longrightarrow> X' c = X c)
    \<and> (\<forall>c b' j. c \<noteq> a \<longrightarrow> c \<in> set (bq_groups q' b' j) \<longleftrightarrow> c \<in> set (bq_groups q b' j))"
proof (cases "gq_Team g = team_of t")
  case True
  with assms show ?thesis by (intro exI [of _ q] exI [of _ X]) (simp add: move_rated_def)
next
  case False
  let ?own = "premade_type (other_team t)"
  obtain j where j: "a \<in> set (bq_groups q b j)" "j = premade_type t \<or> j = ?own" using a by blast
  from list_side [OF ok j(1)] h X have "j \<in> set (team_types (gq_Team g))" "gq_Team g \<noteq> TEAM_OTHER" by (auto simp: side_of_def)
  with type_team [of "gq_Team g" t] False j(2) have own: "j = ?own" by auto
  define q' where "q' = set_list b ?own (remove1 a (bq_groups q b ?own))
    (set_list b (premade_type t) (a # bq_groups q b (premade_type t)) q)"
  have g': "bq_groups q' c k = (if c = b \<and> k = premade_type t then a # bq_groups q b (premade_type t)
      else if c = b \<and> k = ?own then remove1 a (bq_groups q b ?own) else bq_groups q c k)" for c k
    by (auto simp: q'_def set_list_groups)
  have "queue_okx (X(a \<mapsto> team_of t)) q'"
    by (rule queue_ok_move [OF ok h, of b ?own "premade_type t"])
      (use j own g' in \<open>simp_all add: q'_def side_of_def\<close>)
  moreover have "move_rated b t a q = Some q'"
    using False h j(1) own by (simp add: move_rated_def Let_def set_list_groups q'_def)
  moreover have "only_lists q q'" by (simp add: q'_def only_lists_def)
  moreover have "bq_heap q' = bq_heap q" by (simp add: q'_def)
  moreover have "c \<in> set (bq_groups q' b' k) \<longleftrightarrow> c \<in> set (bq_groups q b' k)" if "c \<noteq> a" for c b' k
    using that by (simp add: g')
  ultimately show ?thesis by (intro exI [of _ q'] exI [of _ "X(a \<mapsto> team_of t)"]) simp
qed

lemma start_rated_ok:
  assumes ok: "bg_ok s" and ne: "x \<noteq> y"
    and x: "x \<in> set (bq_groups (snd s) b BG_QUEUE_PREMADE_ALLIANCE) \<union> set (bq_groups (snd s) b BG_QUEUE_PREMADE_HORDE)"
    and y: "y \<in> set (bq_groups (snd s) b BG_QUEUE_PREMADE_ALLIANCE) \<union> set (bq_groups (snd s) b BG_QUEUE_PREMADE_HORDE)"
  shows "\<exists>s'. start_rated e b x y s = Some s' \<and> bg_ok s' \<and> kept (snd s) (snd s')
    \<and> (\<forall>arena gx gy. qe_Create e False = Some arena \<longrightarrow> bq_heap (snd s) x = Some gx \<longrightarrow> bq_heap (snd s) y = Some gy \<longrightarrow>
         bq_heap (snd s') x = Some (invited_group e arena ALLIANCE
           (gx\<lparr>gq_OpponentsTeamRating := gq_ArenaTeamRating gy, gq_OpponentsMatchmakerRating := gq_ArenaMatchmakerRating gy\<rparr>))
         \<and> bq_heap (snd s') y = Some (invited_group e arena HORDE
           (gy\<lparr>gq_OpponentsTeamRating := gq_ArenaTeamRating gx, gq_OpponentsMatchmakerRating := gq_ArenaMatchmakerRating gx\<rparr>)))"
proof -
  from x y bg_okD(1) [OF ok] obtain gx gy where g: "bq_heap (snd s) x = Some gx" "bq_heap (snd s) y = Some gy"
      "gq_Team gx \<noteq> TEAM_OTHER" "gq_Team gy \<noteq> TEAM_OTHER" using list_team by blast
  show ?thesis
  proof (cases "qe_Create e False")
    case None
    with ok g show ?thesis by (simp add: start_rated_def)
  next
    case (Some arena)
    define gx1 where "gx1 = gx\<lparr>gq_OpponentsTeamRating := gq_ArenaTeamRating gy, gq_OpponentsMatchmakerRating := gq_ArenaMatchmakerRating gy\<rparr>"
    define gy1 where "gy1 = gy\<lparr>gq_OpponentsTeamRating := gq_ArenaTeamRating gx, gq_OpponentsMatchmakerRating := gq_ArenaMatchmakerRating gx\<rparr>"
    define arena1 where "arena1 = arena\<lparr>bg_ArenaTeamMMR := (bg_ArenaTeamMMR arena)(TEAM_ALLIANCE := gq_ArenaMatchmakerRating gx,
                          TEAM_HORDE := gq_ArenaMatchmakerRating gy)\<rparr>"
    let ?i = "bg_InstanceID arena"
    define q0 where "q0 = set_group y gy1 (set_group x gx1 (snd s))"
    have q0: "bq_groups q0 = bq_groups (snd s)" "bq_heap q0 x = Some gx1" "bq_heap q0 y = Some gy1" "only_lists (snd s) q0"
      using g ne by (auto simp: q0_def set_group_def only_lists_def gx1_def gy1_def)
    have "queue_ok (set_group x gx1 (snd s))"
      by (rule queue_ok_set_group [OF bg_okD(1) [OF ok] g(1)]) (simp_all add: gx1_def g)
    moreover have "bq_heap (set_group x gx1 (snd s)) y = Some gy" using ne g(2) by (simp add: set_group_def)
    ultimately have ok0: "queue_ok q0" unfolding q0_def
      by (rule queue_ok_set_group) (simp_all add: gy1_def g)
    from move_rated_ok [OF ok0 refl q0(2), of b TEAM_ALLIANCE] x obtain q1 X1 where
      q1: "move_rated b TEAM_ALLIANCE x q0 = Some q1" "queue_okx X1 q1" "only_lists q0 q1" "bq_heap q1 = bq_heap q0"
        "X1 x = Some ALLIANCE \<or> X1 x = None \<and> gq_Team gx1 = ALLIANCE" "\<And>c. c \<noteq> x \<Longrightarrow> X1 c = None"
        "\<And>c b' j. c \<noteq> x \<Longrightarrow> c \<in> set (bq_groups q1 b' j) \<longleftrightarrow> c \<in> set (bq_groups q0 b' j)"
      by (auto simp: q0(1))
    have X1y: "X1 y = None" "bq_heap q1 y = Some gy1" using q1(6) [of y] ne by (simp_all add: q1(4) q0)
    have y1: "y \<in> set (bq_groups q1 b (premade_type TEAM_HORDE)) \<union> set (bq_groups q1 b (premade_type (other_team TEAM_HORDE)))"
      using y q1(7) [of y] ne by (simp add: q0(1)) blast
    from move_rated_ok [OF q1(2) X1y y1] obtain q2 X2 where
      q2: "move_rated b TEAM_HORDE y q1 = Some q2" "queue_okx X2 q2" "only_lists q1 q2" "bq_heap q2 = bq_heap q1"
        "X2 y = Some HORDE \<or> X2 y = None \<and> gq_Team gy1 = HORDE" "\<And>c. c \<noteq> y \<Longrightarrow> X2 c = X1 c"
      by auto
    have l2: "only_lists (snd s) q2" using q0(4) q1(3) q2(3) by (blast intro: only_lists_trans)
    note o2 = only_lists_ok [OF ok q2(2) l2]
    define q3 where "q3 = set_bg arena1 q2"
    have i1: "bg_InstanceID arena1 = ?i" by (simp add: arena1_def)
    have ok3: "bg_okx X2 (fst s, q3)"
      using bg_okD [OF o2(1)] by (auto simp: bg_okx_def wait_ok_def bgs_ok_def q3_def set_bg_def i1 intro: queue_ok_cong)
    have h3: "bq_heap (snd (fst s, q3)) x = Some gx1" "bq_bgs (snd (fst s, q3)) ?i = Some arena1" "bq_heap q3 y = Some gy1"
      using q0 q1(4) q2(4) by (simp_all add: q3_def set_bg_def i1)
    have sx: "X2 x = Some ALLIANCE \<or> X2 x = None \<and> gq_Team gx1 = ALLIANCE" using q1(5) q2(6) [OF ne] by simp
    have side: "ALLIANCE \<noteq> TEAM_OTHER" "HORDE \<noteq> TEAM_OTHER" by simp_all
    from InviteGroupToBG_ok [OF ok3 h3(1,2) side(1) sx, of e] obtain b4 s4 bg4 where
      s4: "InviteGroupToBG e ?i ALLIANCE x (fst s, q3) = Some (b4, s4)" "bg_okx (X2(x := None)) s4" "only_invites q3 (snd s4)"
        "\<And>c. c \<noteq> x \<Longrightarrow> bq_heap (snd s4) c = bq_heap q3 c" "bq_bgs (snd s4) = (bq_bgs q3)(?i \<mapsto> bg4)"
        "bq_heap (snd s4) x = Some (invited_group e arena1 ALLIANCE gx1)"
        "\<exists>n m. bg4 = count_up ALLIANCE n (arena1\<lparr>bg_ArenaTeamIds := m\<rparr>)"
      unfolding snd_conv by blast
    have h4: "bq_heap (snd s4) y = Some gy1" "bq_bgs (snd s4) ?i = Some bg4" using s4(4) [of y] ne h3(3) s4(5) by simp_all
    have sy: "(X2(x := None)) y = Some HORDE \<or> (X2(x := None)) y = None \<and> gq_Team gy1 = HORDE" using q2(5) ne by simp
    from InviteGroupToBG_ok [OF s4(2) h4 side(2) sy, of e] obtain b5 s5 bg5 where
      s5: "InviteGroupToBG e ?i HORDE y s4 = Some (b5, s5)" "bg_okx (X2(x := None, y := None)) s5" "only_invites (snd s4) (snd s5)"
        "bq_bgs (snd s5) = (bq_bgs (snd s4))(?i \<mapsto> bg5)"
        "\<And>c. c \<noteq> y \<Longrightarrow> bq_heap (snd s5) c = bq_heap (snd s4) c" "bq_heap (snd s5) y = Some (invited_group e bg4 HORDE gy1)"
      by blast
    have "X2(x := None, y := None) = (\<lambda>_. None)" using q1(6) q2(6) by (auto simp: fun_eq_iff)
    with s5(2) have ok5: "bg_ok s5" by simp
    from AddToBGFreeSlotQueue_ok [OF ok5, of ?i bg5] s5(4) obtain q6 where
      q6: "AddToBGFreeSlotQueue ?i (snd s5) = Some q6" "bg_ok (fst s5, q6)" "kept (snd s5) q6" "bq_heap q6 = bq_heap (snd s5)"
      by auto
    have "start_rated e b x y s = Some (fst s5, q6)"
      by (simp add: start_rated_def Some g Let_def q1(1) q2(1) s4(1) s5(1) q6(1) flip: gx1_def gy1_def arena1_def q0_def q3_def)
    moreover have "kept q2 q3" by (simp add: kept_def q3_def set_bg_def)
    then have "kept (snd s) q6"
      using o2(2) only_invites_kept [OF s4(3)] only_invites_kept [OF s5(3)] q6(3) by (blast intro: kept_trans)
    moreover have "bg_InstanceID (count_up t n bg) = bg_InstanceID bg" for t n bg
      by (induction n) (auto simp: count_up_def IncreaseInvitedCount_def)
    then have "bg_InstanceID bg4 = ?i" using s4(7) i1 by auto
    then have "bq_heap q6 x = Some (invited_group e arena ALLIANCE gx1)" "bq_heap q6 y = Some (invited_group e arena HORDE gy1)"
      using s4(6) s5(5) [of x] s5(6) ne i1 by (simp_all add: q6(4) invited_group_def)
    ultimately show ?thesis using q6(2) g(1,2) Some unfolding gx1_def gy1_def by simp
  qed
qed

lemma update_rated_ok:
  assumes ok: "bg_ok s"
  shows "\<exists>s'. update_rated e b r s = Some s' \<and> bg_ok s' \<and> kept (snd s) (snd s')"
proof -
  define ali where "ali = bq_groups (snd s) b BG_QUEUE_PREMADE_ALLIANCE"
  define horde where "horde = bq_groups (snd s) b BG_QUEUE_PREMADE_HORDE"
  let ?h = "bq_heap (snd s)"
  have live: "\<forall>a \<in> set ali \<union> set horde. ?h a \<noteq> None" using queue_okD(5) [OF bg_okD(1) [OF ok]] by (auto simp: ali_def horde_def)
  have dis: "set ali \<inter> set horde = {}" unfolding ali_def horde_def by (rule lists_disjoint [OF bg_okD(1) [OF ok]]) simp
  have "\<exists>rating. default_rating ali horde ?h = Some rating"
    using live by (cases ali; cases horde) (auto simp: default_rating_def)
  then obtain rating where rating: "(if r = 0 then default_rating ali horde ?h else Some (Some r)) = Some rating"
    by (cases "r = 0") auto
  have upd: "update_rated e b r s = (case rating of None \<Rightarrow> Some s | Some w \<Rightarrow>
      Option.bind (rated_pair e w ?h ali horde) (case_option (Some s) (\<lambda>(x, y). start_rated e b x y s)))"
    unfolding update_rated_def Let_def ali_def [symmetric] horde_def [symmetric] rating by simp
  show ?thesis
  proof (cases rating)
    case None
    with ok upd show ?thesis by simp
  next
    case (Some w)
    from rated_pair_ok [OF live dis, of e w] obtain pair where pair: "rated_pair e w ?h ali horde = Some pair"
        "\<And>x y. pair = Some (x, y) \<Longrightarrow> x \<noteq> y \<and> {x, y} \<subseteq> set ali \<union> set horde" by blast
    have run: "update_rated e b r s = (case pair of None \<Rightarrow> Some s | Some (x, y) \<Rightarrow> start_rated e b x y s)"
      using pair(1) by (simp add: upd Some)
    show ?thesis
    proof (cases pair)
      case None
      with ok run show ?thesis by simp
    next
      case (Some xy)
      obtain x y where xy: "pair = Some (x, y)" using Some by (cases xy) simp
      from pair(2) [OF xy] have "x \<noteq> y" "x \<in> set ali \<union> set horde" "y \<in> set ali \<union> set horde" by auto
      from start_rated_ok [OF ok this [unfolded ali_def horde_def], of e] obtain s'
        where "start_rated e b x y s = Some s'" "bg_ok s'" "kept (snd s) (snd s')" by blast
      with run show ?thesis by (simp add: xy)
    qed
  qed
qed

end
