(* ===== verification/BgQueueReach.thy ===== *)
theory BgQueueReach
  imports BgQueueMatch
begin

text \<open>
  The operations of the battleground queue from any state it can reach: what holds in these states, and that
  every operation returns there.
\<close>

section \<open>The operations\<close>

text \<open>The environment of an update: a template with teams of at least one player, no tests with arenas.\<close>

definition env_ok :: "bg_env \<Rightarrow> bool" where
  "env_ok e \<longleftrightarrow> (case qe_template e of None \<Rightarrow> True | Some t \<Rightarrow> limits_ok e t)"

text \<open>New battlegrounds have room for a whole match of the template.\<close>

definition creates_ok :: "bg_env \<Rightarrow> bool" where
  "creates_ok e \<longleftrightarrow> (case qe_template e of None \<Rightarrow> True | Some t \<Rightarrow> create_ok e (snd (match_limits e t)))"

lemma BattlegroundQueueUpdate_ok:
  assumes ok: "bg_ok s" and e: "env_ok e"
  shows "\<exists>s'. BattlegroundQueueUpdate e b r s = Some s' \<and> bg_ok s' \<and> kept (snd s) (snd s')
    \<and> (\<not> qe_Rated e \<longrightarrow> all_within (snd s) \<longrightarrow> creates_ok e \<longrightarrow> all_within (snd s'))"
proof -
  let ?empty = "\<forall>j \<in> {BG_QUEUE_PREMADE_ALLIANCE, BG_QUEUE_PREMADE_HORDE, BG_QUEUE_NORMAL_ALLIANCE, BG_QUEUE_NORMAL_HORDE}. bq_groups (snd s) b j = []"
  show ?thesis
  proof (cases "?empty \<or> qe_template e = None")
    case True
    then have "BattlegroundQueueUpdate e b r s = Some s" by (auto simp: BattlegroundQueueUpdate_def)
    with ok show ?thesis by simp
  next
    case False
    then obtain t where t: "qe_template e = Some t" "limits_ok e t" using e by (auto simp: env_ok_def)
    from fill_map_ok [OF ok, of e b "takeWhile (\<lambda>m. m \<noteq> -1) (bt_MapIDs t)"] obtain s1 where
      s1: "run_opt (fill_map e b) s (takeWhile (\<lambda>m. m \<noteq> -1) (bt_MapIDs t)) = Some s1" "bg_ok s1" "kept (snd s) (snd s1)"
        "all_within (snd s) \<longrightarrow> all_within (snd s1)" by blast
    let ?s1 = "(fst s1, init_pools (snd s1))"
    have ok1: "bg_ok ?s1" by (rule bg_ok_pools(1) [OF s1(2)])
    have p1: "fresh_pools (snd ?s1)" by auto
    from update_premade_ok [OF ok1 p1, of e b t] obtain go s2 where s2: "update_premade e b t ?s1 = Some (go, s2)" "bg_ok s2"
        "kept (init_pools (snd s1)) (snd s2)" "go \<Longrightarrow> fresh_pools (snd s2)"
        "all_within (init_pools (snd s1)) \<longrightarrow> create_ok e (snd (match_limits e t)) \<longrightarrow> all_within (snd s2)"
      unfolding snd_conv by blast
    have k2: "kept (snd s) (snd s2)" using s1(3) s2(3) by (auto simp: kept_def)
    have w2: "all_within (snd s) \<longrightarrow> creates_ok e \<longrightarrow> all_within (snd s2)"
    proof -
      have "all_within (init_pools (snd s1)) = all_within (snd s1)" by (simp only: all_within_def init_pools_simps)
      with s1(4) s2(5) show ?thesis unfolding creates_ok_def t option.case by blast
    qed
    let ?last = "if \<not> go then Some s2 else if \<not> qe_Rated e then update_normal e b t s2
        else if bt_isArena t then update_rated e b r s2 else Some s2"
    have run: "BattlegroundQueueUpdate e b r s = ?last"
      using False s1(1) s2(1) t(1) by (auto simp: BattlegroundQueueUpdate_def)
    consider (stop) "?last = Some s2" | (normal) "go" "\<not> qe_Rated e" | (rated) "qe_Rated e" "?last = update_rated e b r s2"
      by (cases go; cases "qe_Rated e"; cases "bt_isArena t") auto
    then show ?thesis
    proof cases
      case stop
      with run s2(2) k2 w2 show ?thesis by simp
    next
      case normal
      from update_normal_ok [OF s2(2) s2(4) t(2), of b] normal obtain s3 where s3: "update_normal e b t s2 = Some s3" "bg_ok s3"
          "kept (snd s2) (snd s3)" "all_within (snd s2) \<longrightarrow> create_ok e (snd (match_limits e t)) \<longrightarrow> all_within (snd s3)" by blast
      with run normal w2 kept_trans [OF k2 s3(3)] show ?thesis by (simp add: creates_ok_def t)
    next
      case rated
      from update_rated_ok [OF s2(2), of e b r] rated run kept_trans [OF k2] show ?thesis by auto
    qed
  qed
qed

lemma IsPlayerInvited_ok: "queue_ok q \<Longrightarrow> \<exists>v. IsPlayerInvited p i r q = Some v"
proof (cases "map_of (bq_players q) p")
  case (Some ta)
  assume ok: "queue_ok q"
  obtain t a where ta: "map_of (bq_players q) p = Some (t, a)" using Some by (cases ta) simp
  from queue_okD(2) [OF ok ta] show ?thesis by (auto simp: IsPlayerInvited_def ta)
next
  case None
  then show ?thesis by (intro exI [of _ False]) (simp add: IsPlayerInvited_def)
qed

lemma run_bg_event_ok:
  assumes ok: "queue_ok q"
  shows "\<exists>q'. run_bg_event e ev t d q = Some q' \<and> queue_ok q' \<and> rest_kept q q'"
proof (cases ev)
  case (BGQueueInviteEvent p i r)
  from IsPlayerInvited_ok [OF ok] obtain v where "IsPlayerInvited p i r q = Some v" by blast
  with ok show ?thesis by (simp add: BGQueueInviteEvent run_bg_event_def)
next
  case (BGQueueRemoveEvent p i r)
  from IsPlayerInvited_ok [OF ok] obtain v where v: "IsPlayerInvited p i r q = Some v" by blast
  let ?q = "bq_emit (OutRemoveBattlegroundQueueId p) q"
  have "queue_ok ?q" using ok by simp
  from RemovePlayer_ok [OF this, of e p True] obtain q' where "bq_RemovePlayer e p True ?q = Some q'" "queue_ok q'" "rest_kept ?q q'"
    by blast
  moreover from this have "rest_kept q q'" by (simp add: rest_kept_def bq_emit_def)
  ultimately show ?thesis using ok v by (auto simp: BGQueueRemoveEvent run_bg_event_def split: option.split)
qed

lemma deliver_inv:
  assumes "\<And>e w. I w \<Longrightarrow> \<exists>w'. run e t d w = Some w' \<and> I w'" and "\<And>e w. I w \<Longrightarrow> \<exists>w'. ab e t w = Some w' \<and> I w'"
  shows "I w \<Longrightarrow> \<exists>w'. deliver run ab t d es w = Some w' \<and> I w'"
proof (induction es arbitrary: w)
  case (Cons e es)
  have "\<exists>w'. (case be_abortState e of STATE_RUNNING \<Rightarrow> run (be_event e) t d w
      | STATE_ABORT_SCHEDULED \<Rightarrow> ab (be_event e) t w | STATE_ABORTED \<Rightarrow> Some w) = Some w' \<and> I w'"
    using assms Cons.prems by (cases "be_abortState e") auto
  with Cons.IH show ?case by fastforce
qed simp

lemma bq_UpdateEvents_ok:
  assumes ok: "bg_ok s"
  shows "\<exists>s'. bq_UpdateEvents e d s = Some s' \<and> bg_ok s'"
proof -
  define T where "T = ep_time (fst s) + ucast d"
  define due where "due = filter (\<lambda>x. fst x \<le> T) (ep_events (fst s))"
  define evs where "evs = map (the \<circ> ep_heap (fst s) \<circ> snd) due"
  let ?I = "\<lambda>q. queue_ok q \<and> rest_kept (snd s) q"
  have I: "?I (snd s)" using bg_okD(1) [OF ok] by simp
  have "\<exists>w'. deliver (run_bg_event e) (eh_Abort (bg_handlers e)) T d evs (snd s) = Some w' \<and> ?I w'"
  proof (rule deliver_inv [where I = ?I, OF _ _ I])
    fix ev q assume q: "?I q"
    then show "\<exists>q'. run_bg_event e ev T d q = Some q' \<and> ?I q'"
      using run_bg_event_ok [of q e ev T d] rest_kept_trans by blast
    show "\<exists>q'. eh_Abort (bg_handlers e) ev T q = Some q' \<and> ?I q'" using q by (simp add: bg_handlers_def)
  qed
  then obtain q where q: "deliver (run_bg_event e) (eh_Abort (bg_handlers e)) T d evs (snd s) = Some q" "queue_ok q"
      "rest_kept (snd s) q" by blast
  let ?p = "ep_drop due ((fst s)\<lparr>ep_time := T\<rparr>)"
  have "bq_UpdateEvents e d s = Some (?p, q)"
    using bg_events.update_quiet [OF bg_okD(4) [OF ok], of e d "snd s"] q(1)
    by (simp add: bq_UpdateEvents_def Let_def T_def due_def evs_def)
  moreover have "ep_wf ((fst s)\<lparr>ep_time := T\<rparr>)" using bg_okD(4) [OF ok] by (simp add: ep_wf_def)
  then have "ep_wf ?p" by (rule ep_wf_drop) (auto simp: due_def)
  then have "bg_ok (?p, q)"
    using q(2) rest_kept_ok [OF q(3)] bg_okD [OF ok] by (simp add: bg_okx_def)
  ultimately show ?thesis by blast
qed

lemma RemovePlayer_bg_ok:
  assumes "bg_ok s"
  shows "\<exists>q. bq_RemovePlayer e p d (snd s) = Some q \<and> bg_ok (fst s, q) \<and> map_of (bq_players q) p = None"
proof -
  from RemovePlayer_ok [OF bg_okD(1) [OF assms], of e p d] obtain q where q: "bq_RemovePlayer e p d (snd s) = Some q"
      "queue_ok q" "rest_kept (snd s) q" "map_of (bq_players q) p = None" by blast
  with rest_kept_ok [OF q(3)] bg_okD [OF assms] show ?thesis by (simp add: bg_okx_def)
qed

lemma AddGroup_bg_ok:
  assumes "bg_ok s" and "\<forall>p \<in> set members. map_of (bq_players (snd s)) p = None" and "members \<noteq> []" and "t \<noteq> TEAM_OTHER"
    and "b < MAX_BATTLEGROUND_BRACKETS"
  shows "bg_ok (fst s, snd (bq_AddGroup e members t b pre ar mr at (snd s)))"
proof -
  let ?q = "snd (bq_AddGroup e members t b pre ar mr at (snd s))"
  have "queue_ok ?q" by (rule AddGroup_ok [OF bg_okD(1) [OF assms(1)] assms(2,3,5,4)])
  with bg_okD [OF assms(1)] show ?thesis
    by (simp add: bg_okx_def wait_ok_def bgs_ok_def) (simp add: bq_AddGroup_def Let_def set_list_def)
qed

section \<open>Reachable states\<close>

text \<open>
  A queue in use: groups join, players leave, updates and delayed events run, and between the calls the
  battlegrounds do as they like (\<open>world\<close>). Nobody joins twice, as the handler of the join packet checks.
\<close>

inductive bg_reach :: "bg_state \<Rightarrow> bool" where
  start: "bg_reach (EventProcessor_new, BattlegroundQueue_new)"
| join: "bg_reach s \<Longrightarrow> \<forall>p \<in> set members. map_of (bq_players (snd s)) p = None \<Longrightarrow> members \<noteq> [] \<Longrightarrow> t \<noteq> TEAM_OTHER \<Longrightarrow>
    b < MAX_BATTLEGROUND_BRACKETS \<Longrightarrow> bg_reach (fst s, snd (bq_AddGroup e members t b pre ar mr at (snd s)))"
| leave: "bg_reach s \<Longrightarrow> bq_RemovePlayer e p d (snd s) = Some q \<Longrightarrow> bg_reach (fst s, q)"
| update: "bg_reach s \<Longrightarrow> env_ok e \<Longrightarrow> BattlegroundQueueUpdate e b r s = Some s' \<Longrightarrow> bg_reach s'"
| events: "bg_reach s \<Longrightarrow> bq_UpdateEvents e diff s = Some s' \<Longrightarrow> bg_reach s'"
| world: "bg_reach s \<Longrightarrow> bgs_ok ((snd s)\<lparr>bq_bgs := bgs, bq_freeSlots := free\<rparr>) \<Longrightarrow>
    bg_reach (fst s, (snd s)\<lparr>bq_bgs := bgs, bq_freeSlots := free\<rparr>)"

lemma new_bg_ok: "bg_ok (EventProcessor_new, BattlegroundQueue_new)"
  by (simp add: bg_okx_def queue_okx_def wait_ok_def bgs_ok_def ep_wf_def BattlegroundQueue_new_def EventProcessor_new_def
      sum_list_replicate)

lemma bg_reach_ok: "bg_reach s \<Longrightarrow> bg_ok s"
proof (induction rule: bg_reach.induct)
  case start
  show ?case by (rule new_bg_ok)
next
  case (join s members t b e pre ar mr at)
  then show ?case by (intro AddGroup_bg_ok)
next
  case (leave s e p d q)
  with RemovePlayer_bg_ok [OF leave.IH, of e p d] show ?case by simp
next
  case (update s e b r s')
  with BattlegroundQueueUpdate_ok [OF update.IH, of e b r] show ?case by auto
next
  case (events s e diff s')
  with bq_UpdateEvents_ok [OF events.IH, of e diff] show ?case by auto
next
  case (world s bgs free)
  then show ?case by (auto simp: bg_okx_def wait_ok_def intro: queue_ok_cong)
qed

section \<open>What holds in every reachable state\<close>

text \<open>
  C1: in every state the queue can reach, a queued player is in the group the queue knows him by, and this group
  waits in exactly one list of one bracket, on the side of its team; a list has no group twice, and every group in
  it exists, has players, and its players are queued with it.
\<close>

theorem queued_exactly_once:
  assumes "bg_reach s"
  shows "(\<forall>p t a. map_of (bq_players (snd s)) p = Some (t, a) \<longrightarrow>
      (\<exists>g b j. bq_heap (snd s) a = Some g \<and> p \<in> set (gq_Players g) \<and> b < 16 \<and> j \<in> set (team_types (gq_Team g))
         \<and> (\<forall>b' j'. a \<in> set (bq_groups (snd s) b' j') \<longleftrightarrow> b' = b \<and> j' = j)))
    \<and> (\<forall>b j. distinct (bq_groups (snd s) b j) \<and> (\<forall>a \<in> set (bq_groups (snd s) b j).
         \<exists>g. bq_heap (snd s) a = Some g \<and> gq_Players g \<noteq> []
           \<and> (\<forall>p \<in> set (gq_Players g). \<exists>t. map_of (bq_players (snd s)) p = Some (t, a))))"
proof -
  note wf = queue_okD [OF bg_okD(1) [OF bg_reach_ok [OF assms]]]
  have "\<exists>g b j. bq_heap (snd s) a = Some g \<and> p \<in> set (gq_Players g) \<and> b < 16 \<and> j \<in> set (team_types (gq_Team g))
      \<and> (\<forall>b' j'. a \<in> set (bq_groups (snd s) b' j') \<longleftrightarrow> b' = b \<and> j' = j)"
    if p: "map_of (bq_players (snd s)) p = Some (t, a)" for p t a
  proof -
    from wf(2) [OF p] obtain g where g: "bq_heap (snd s) a = Some g" "p \<in> set (gq_Players g)" by blast
    with group_okD(5) [OF wf(3) [OF g(1)]] show ?thesis unfolding placed_def side_none by blast
  qed
  moreover have "\<exists>g. bq_heap (snd s) a = Some g \<and> gq_Players g \<noteq> []
      \<and> (\<forall>p \<in> set (gq_Players g). \<exists>t. map_of (bq_players (snd s)) p = Some (t, a))"
    if "a \<in> set (bq_groups (snd s) b j)" for a b j
    using wf(5) [OF that] group_okD(2,4) [OF wf(3)] by blast
  ultimately show ?thesis using wf(4) by blast
qed

text \<open>Two players of the alliance and one of the horde wait for a battleground with teams of one or two.\<close>

definition sample_env :: bg_env where
  "sample_env =
     \<lparr>qe_now = 1000, qe_Rated = False, qe_TeamSize = 0,
      qe_template = Some \<lparr>bt_isArena = False, bt_MinPlayers = 1, bt_MaxPlayers = 2, bt_MapIDs = [489, -1]\<rparr>,
      qe_connected = (\<lambda>_. True), qe_hasQueueSlot = (\<lambda>_. True), qe_arenaTeamExists = (\<lambda>_. False),
      qe_invitation = BG_QUEUE_INVITATION_TYPE_BALANCED, qe_premadeWait = 0, qe_testing = False, qe_arenaTesting = False,
      qe_maxRatingDifference = 150, qe_ratingDiscardTimer = 600000,
      qe_Create = (\<lambda>_. Some (sample_bg\<lparr>bg_Status := STATUS_WAIT_JOIN, bg_MaxPlayers := 2, bg_InvitedAlliance := 0,
        bg_InvitedHorde := 0, bg_InBGFreeSlotQueue := False\<rparr>))\<rparr>"

definition sample_player :: "u64 \<Rightarrow> ObjectGuid" where
  "sample_player n = CreatePlayer 1 0 n"

definition sample_joined :: bg_state where
  "sample_joined =
     (EventProcessor_new, snd (bq_AddGroup sample_env [sample_player 3] HORDE 0 False 0 0 0
       (snd (bq_AddGroup sample_env [sample_player 1, sample_player 2] ALLIANCE 0 False 0 0 0 BattlegroundQueue_new))))"

lemma sample_player_simps [simp]: "sample_player 1 \<noteq> sample_player 3" "sample_player 2 \<noteq> sample_player 3"
  by code_simp+

lemma sample_joined_reach: "bg_reach sample_joined"
proof -
  let ?q = "snd (bq_AddGroup sample_env [sample_player 1, sample_player 2] ALLIANCE 0 False 0 0 0 BattlegroundQueue_new)"
  have 1: "bg_reach (EventProcessor_new, ?q)"
    using bg_reach.join [OF bg_reach.start, of "[sample_player 1, sample_player 2]" ALLIANCE 0 sample_env False 0 0 0]
    by (simp add: BattlegroundQueue_new_def)
  have "map_of (bq_players ?q) (sample_player 3) = None" by code_simp
  then show ?thesis using bg_reach.join [OF 1, of "[sample_player 3]" HORDE 0 sample_env False 0 0 0] by (simp add: sample_joined_def)
qed

lemma queued_exactly_once_witness:
  "\<exists>g b j. bq_heap (snd sample_joined) 0 = Some g \<and> sample_player 1 \<in> set (gq_Players g) \<and> b < 16
     \<and> j \<in> set (team_types (gq_Team g)) \<and> (\<forall>b' j'. 0 \<in> set (bq_groups (snd sample_joined) b' j') \<longleftrightarrow> b' = b \<and> j' = j)"
proof -
  have "map_of (bq_players (snd sample_joined)) (sample_player 1) = Some (1000, 0)" by code_simp
  with queued_exactly_once [OF sample_joined_reach] show ?thesis by blast
qed

text \<open>
  C4: from every state the queue can reach, every operation returns. Removing a player takes him out, and nobody
  who waits in another group; an update takes nobody out; the delayed events run to the end. For the update the
  teams must have at least one player, and arenas must not be tested.
\<close>

theorem queue_operations_return:
  assumes "bg_reach s" and "env_ok e"
  shows "(\<exists>q. bq_RemovePlayer e p d (snd s) = Some q \<and> map_of (bq_players q) p = None
      \<and> (\<forall>x. map_of (bq_players q) x = map_of (bq_players (snd s)) x
           \<or> map_option snd (map_of (bq_players (snd s)) x) = map_option snd (map_of (bq_players (snd s)) p)))
    \<and> (\<exists>s'. BattlegroundQueueUpdate e b r s = Some s' \<and> bq_players (snd s') = bq_players (snd s))
    \<and> (\<exists>s'. bq_UpdateEvents e diff s = Some s')"
proof -
  note ok = bg_reach_ok [OF assms(1)]
  from RemovePlayer_ok [OF bg_okD(1) [OF ok], of e p d]
  have "\<exists>q. bq_RemovePlayer e p d (snd s) = Some q \<and> map_of (bq_players q) p = None
      \<and> (\<forall>x. map_of (bq_players q) x = map_of (bq_players (snd s)) x
           \<or> map_option snd (map_of (bq_players (snd s)) x) = map_option snd (map_of (bq_players (snd s)) p))" by metis
  moreover from BattlegroundQueueUpdate_ok [OF ok assms(2), of b r]
  have "\<exists>s'. BattlegroundQueueUpdate e b r s = Some s' \<and> bq_players (snd s') = bq_players (snd s)" by (auto simp: kept_def)
  moreover from bq_UpdateEvents_ok [OF ok, of e diff] have "\<exists>s'. bq_UpdateEvents e diff s = Some s'" by blast
  ultimately show ?thesis by blast
qed

lemma sample_env_ok: "env_ok sample_env"
  by (simp add: env_ok_def sample_env_def limits_ok_def match_limits_def)

lemma queue_operations_return_witness:
  "(\<exists>q. bq_RemovePlayer sample_env (sample_player 1) True (snd sample_joined) = Some q \<and> map_of (bq_players q) (sample_player 1) = None)
   \<and> (\<exists>s'. BattlegroundQueueUpdate sample_env 0 0 sample_joined = Some s' \<and> bq_players (snd s') = bq_players (snd sample_joined))"
  using queue_operations_return [OF sample_joined_reach sample_env_ok, where p = "sample_player 1" and d = True and b = 0 and r = 0] by blast



section \<open>The end of a queue\<close>

lemma kill_loop_returns:
  assumes "\<And>e t w. eh_Abort h e t w = Some w" and "\<And>e w. eh_IsDeletable h e w"
  shows "distinct (map snd xs) \<Longrightarrow> \<forall>x \<in> set xs. ep_heap p (snd x) \<noteq> None \<Longrightarrow> \<exists>p'. kill_loop h False ks xs (p, w) = Some (p', w)"
proof (induction xs arbitrary: p)
  case (Cons x xs)
  from Cons.prems(2) obtain e where e: "ep_heap p (snd x) = Some e" by auto
  obtain p1 v where p1: "IsAborted e \<and> p1 = p \<or> \<not> IsAborted e \<and> SetAborted (snd x) p = Some p1"
      "p1 = p \<or> p1 = p\<lparr>ep_heap := (ep_heap p)(snd x \<mapsto> v)\<rparr>"
    using e by (cases "IsAborted e") (auto simp: SetAborted_def ep_change_def)
  have "snd y \<noteq> snd x" if "y \<in> set xs" for y by (rule distinct_snd [OF Cons.prems(1) that])
  then have "\<forall>y \<in> set xs. ep_heap (ep_delete (snd x) p1) (snd y) \<noteq> None" using p1(2) Cons.prems(2) by (auto simp: ep_delete_def)
  moreover have "distinct (map snd xs)" using Cons.prems(1) by simp
  ultimately obtain p' where "kill_loop h False ks xs (ep_delete (snd x) p1, w) = Some (p', w)" using Cons.IH by blast
  with e p1(1) assms show ?case by (cases "IsAborted e") auto
qed simp

lemma delete_groups_ok:
  "distinct as \<Longrightarrow> \<forall>a \<in> set as. bq_heap q a \<noteq> None \<Longrightarrow>
    run_opt delete_group q as = Some (q\<lparr>bq_heap := (\<lambda>c. if c \<in> set as then None else bq_heap q c)\<rparr>)"
proof (induction as arbitrary: q)
  case (Cons a as)
  from Cons.prems obtain g where g: "bq_heap q a = Some g" by auto
  let ?q = "q\<lparr>bq_heap := (bq_heap q)(a := None)\<rparr>"
  have "distinct as" "\<forall>c \<in> set as. bq_heap ?q c \<noteq> None" using Cons.prems by auto
  note run = Cons.IH [OF this]
  have "(\<lambda>c. if c \<in> set as then None else bq_heap ?q c) = (\<lambda>c. if c \<in> set (a # as) then None else bq_heap q c)" by auto
  moreover have "run_opt delete_group q (a # as) = run_opt delete_group ?q as" using g by (simp add: delete_group_def)
  ultimately show ?case using run by simp
qed simp

lemma all_groups_mem: "a \<in> set (all_groups q) \<longleftrightarrow> (\<exists>b j. b < MAX_BATTLEGROUND_BRACKETS \<and> a \<in> set (bq_groups q b j))"
proof -
  define row where "row b = concat (map (bq_groups q b)
     [BG_QUEUE_PREMADE_ALLIANCE, BG_QUEUE_PREMADE_HORDE, BG_QUEUE_NORMAL_ALLIANCE, BG_QUEUE_NORMAL_HORDE])" for b
  have row: "a \<in> set (row b) \<longleftrightarrow> (\<exists>j. a \<in> set (bq_groups q b j))" for b
  proof
    assume "\<exists>j. a \<in> set (bq_groups q b j)"
    then obtain j where "a \<in> set (bq_groups q b j)" ..
    then show "a \<in> set (row b)" by (cases j) (simp_all add: row_def)
  qed (auto simp: row_def)
  have "all_groups q = concat (map row [0..<MAX_BATTLEGROUND_BRACKETS])" by (simp only: all_groups_def row_def [abs_def])
  then have "a \<in> set (all_groups q) \<longleftrightarrow> (\<exists>b < MAX_BATTLEGROUND_BRACKETS. a \<in> set (row b))"
    by (simp only: set_concat set_map set_upt) auto
  then show ?thesis by (simp only: row) blast
qed

lemma distinct_concat_rows:
  assumes "\<And>b. distinct (row b)" and "\<And>a b c. a \<in> set (row b) \<Longrightarrow> a \<in> set (row c) \<Longrightarrow> b = c"
  shows "distinct xs \<Longrightarrow> distinct (concat (map row xs))"
proof (induction xs)
  case (Cons b xs)
  then have "set (row b) \<inter> set (concat (map row xs)) = {}" using assms(2) [of _ b] by fastforce
  with Cons assms(1) show ?case by simp
qed simp

lemma all_groups_distinct:
  assumes ok: "queue_ok q"
  shows "distinct (all_groups q)"
proof -
  let ?J = "[BG_QUEUE_PREMADE_ALLIANCE, BG_QUEUE_PREMADE_HORDE, BG_QUEUE_NORMAL_ALLIANCE, BG_QUEUE_NORMAL_HORDE]"
  have row: "distinct (concat (map (bq_groups q b) ?J))" for b
    using queue_okD(4) [OF ok] lists_disjoint [OF ok, of BG_QUEUE_PREMADE_ALLIANCE BG_QUEUE_PREMADE_HORDE b]
      lists_disjoint [OF ok, of BG_QUEUE_PREMADE_ALLIANCE BG_QUEUE_NORMAL_ALLIANCE b]
      lists_disjoint [OF ok, of BG_QUEUE_PREMADE_ALLIANCE BG_QUEUE_NORMAL_HORDE b]
      lists_disjoint [OF ok, of BG_QUEUE_PREMADE_HORDE BG_QUEUE_NORMAL_ALLIANCE b]
      lists_disjoint [OF ok, of BG_QUEUE_PREMADE_HORDE BG_QUEUE_NORMAL_HORDE b]
      lists_disjoint [OF ok, of BG_QUEUE_NORMAL_ALLIANCE BG_QUEUE_NORMAL_HORDE b] by auto
  have apart: "b = c" if "a \<in> set (concat (map (bq_groups q b) ?J))" "a \<in> set (concat (map (bq_groups q c) ?J))" for a b c
  proof -
    from that obtain j k where jk: "a \<in> set (bq_groups q b j)" "a \<in> set (bq_groups q c k)" by auto
    from list_team [OF ok jk(1)] obtain g where "placed q a b j" by blast
    from placedD [OF this, of c k] jk(2) show ?thesis by simp
  qed
  have "distinct (concat (map (\<lambda>b. concat (map (bq_groups q b) ?J)) [0..<MAX_BATTLEGROUND_BRACKETS]))"
    by (rule distinct_concat_rows [OF row apart distinct_upt])
  then show ?thesis by (simp only: all_groups_def)
qed

text \<open>
  C32: destroying a queue in any state it can reach aborts its events and deletes every group exactly once: nothing
  is deleted twice, and no group is left.
\<close>

theorem destruction_frees_groups:
  assumes "bg_reach s"
  shows "\<exists>p q. BattlegroundQueue_delete e s = Some (p, q) \<and> bq_heap q = (\<lambda>_. None)"
proof -
  note ok = bg_reach_ok [OF assms]
  note wf = ep_wfD [OF bg_okD(4) [OF ok]] and qok = bg_okD(1) [OF ok]
  have "\<forall>x \<in> set (ep_events (fst s)). ep_heap (fst s) (snd x) \<noteq> None" using wf(3) by fastforce
  from kill_loop_returns [OF _ _ wf(2) this, of "bg_handlers e" "[]" "snd s"]
  obtain p where "kill_loop (bg_handlers e) False [] (ep_events (fst s)) (fst s, snd s) = Some (p, snd s)"
    by (auto simp: bg_handlers_def)
  then have kill: "KillAllEvents (bg_handlers e) False s = Some (p, snd s)" by (simp add: KillAllEvents_def)
  let ?q = "(snd s)\<lparr>bq_heap := (\<lambda>c. if c \<in> set (all_groups (snd s)) then None else bq_heap (snd s) c)\<rparr>"
  have "\<forall>a \<in> set (all_groups (snd s)). bq_heap (snd s) a \<noteq> None" using queue_okD(5) [OF qok] by (auto simp: all_groups_mem)
  from delete_groups_ok [OF all_groups_distinct [OF qok] this]
  have "BattlegroundQueue_delete e s = Some (p, ?q)" by (simp add: BattlegroundQueue_delete_def kill)
  moreover have "bq_heap (snd s) c = None" if "c \<notin> set (all_groups (snd s))" for c
  proof (rule ccontr)
    assume "bq_heap (snd s) c \<noteq> None"
    then obtain g where "bq_heap (snd s) c = Some g" by blast
    from group_okD(5) [OF queue_okD(3) [OF qok this]] that show False by (auto simp: all_groups_mem placed_def)
  qed
  ultimately show ?thesis by (intro exI [of _ p] exI [of _ ?q]) (auto simp: fun_eq_iff)
qed

lemma destruction_frees_groups_witness:
  "\<exists>p q. BattlegroundQueue_delete sample_env sample_joined = Some (p, q) \<and> bq_heap q = (\<lambda>_. None)"
  by (rule destruction_frees_groups [OF sample_joined_reach])

section \<open>Which matches are made\<close>

text \<open>
  C1: for every reachable queue and teams of \<open>lo\<close> to \<open>hi\<close> players, \<open>CheckNormalMatch\<close> selects on each side, in the
  order of its list, distinct groups that were not invited, whole groups of at most \<open>hi\<close> players together. Unless
  battlegrounds are tested it finds a match only with at least \<open>lo\<close> players on each side, and with balanced teams
  only when the sides differ by at most two.
\<close>

theorem CheckNormalMatch_balances:
  assumes "bg_reach s" and "0 < lo"
  shows "\<exists>m q. CheckNormalMatch e b lo hi (init_pools (snd s)) = Some (m, q)
    \<and> (\<forall>t. let p = bq_pools q t in
         distinct (sp_SelectedGroups p) \<and> subseq (sp_SelectedGroups p) (bq_groups (snd s) b (normal_type t))
         \<and> (\<forall>a \<in> set (sp_SelectedGroups p). uninvited (bq_heap (snd s)) a)
         \<and> sp_PlayerCount p = players_in (bq_heap (snd s)) (sp_SelectedGroups p) \<and> sp_PlayerCount p \<le> hi
         \<and> (m \<and> \<not> qe_testing e \<longrightarrow> lo \<le> sp_PlayerCount p))
    \<and> (m \<and> \<not> qe_testing e \<and> qe_invitation e \<noteq> BG_QUEUE_INVITATION_TYPE_NO_BALANCE \<longrightarrow>
         \<bar>int (sp_PlayerCount (bq_pools q TEAM_HORDE)) - int (sp_PlayerCount (bq_pools q TEAM_ALLIANCE))\<bar> \<le> 2)"
proof -
  have "queue_ok (init_pools (snd s))" using bg_okD(1) [OF bg_ok_pools(1) [OF bg_reach_ok [OF assms(1)]]] by simp
  from CheckNormalMatch_ok [OF this _ assms(2), of e b hi] obtain m p where
    m: "CheckNormalMatch e b lo hi (init_pools (snd s))
      = Some (m, set_pool TEAM_HORDE (p TEAM_HORDE) (set_pool TEAM_ALLIANCE (p TEAM_ALLIANCE) (init_pools (snd s))))"
    and p: "\<And>t. pool_ok (bq_heap (snd s)) (p t)" "\<And>t. sp_PlayerCount (p t) \<le> hi"
      "\<And>t. subseq (sp_SelectedGroups (p t)) (bq_groups (snd s) b (normal_type t))"
    and enough: "m \<Longrightarrow> qe_testing e \<or> (\<forall>t. lo \<le> sp_PlayerCount (p t))"
    and even: "m \<Longrightarrow> lo \<le> sp_PlayerCount (p TEAM_ALLIANCE) \<Longrightarrow> lo \<le> sp_PlayerCount (p TEAM_HORDE) \<Longrightarrow>
      qe_invitation e \<noteq> BG_QUEUE_INVITATION_TYPE_NO_BALANCE \<Longrightarrow>
      \<bar>int (sp_PlayerCount (p TEAM_HORDE)) - int (sp_PlayerCount (p TEAM_ALLIANCE))\<bar> \<le> 2"
    by (auto simp: fun_eq_iff)
  define q where "q = set_pool TEAM_HORDE (p TEAM_HORDE) (set_pool TEAM_ALLIANCE (p TEAM_ALLIANCE) (init_pools (snd s)))"
  have qp: "bq_pools q t = p t" for t by (cases t) (simp_all add: q_def)
  show ?thesis
  proof (intro exI [of _ m] exI [of _ q] conjI allI)
    show "CheckNormalMatch e b lo hi (init_pools (snd s)) = Some (m, q)" by (simp only: m q_def)
    fix t
    show "let p = bq_pools q t in
         distinct (sp_SelectedGroups p) \<and> subseq (sp_SelectedGroups p) (bq_groups (snd s) b (normal_type t))
         \<and> (\<forall>a \<in> set (sp_SelectedGroups p). uninvited (bq_heap (snd s)) a)
         \<and> sp_PlayerCount p = players_in (bq_heap (snd s)) (sp_SelectedGroups p) \<and> sp_PlayerCount p \<le> hi
         \<and> (m \<and> \<not> qe_testing e \<longrightarrow> lo \<le> sp_PlayerCount p)"
      using p(1) [of t] p(2,3) enough unfolding Let_def qp pool_ok_def by blast
  next
    show "m \<and> \<not> qe_testing e \<and> qe_invitation e \<noteq> BG_QUEUE_INVITATION_TYPE_NO_BALANCE \<longrightarrow>
         \<bar>int (sp_PlayerCount (bq_pools q TEAM_HORDE)) - int (sp_PlayerCount (bq_pools q TEAM_ALLIANCE))\<bar> \<le> 2"
      using enough even unfolding qp by blast
  qed
qed

lemma CheckNormalMatch_balances_witness:
  "(\<exists>m q. CheckNormalMatch sample_env 0 1 2 (init_pools (snd sample_joined)) = Some (m, q)
      \<and> sp_PlayerCount (bq_pools q TEAM_HORDE) \<le> 2)
   \<and> map_option (\<lambda>(m, q). (m, map (\<lambda>t. sp_SelectedGroups (bq_pools q t)) [TEAM_ALLIANCE, TEAM_HORDE]))
       (CheckNormalMatch sample_env 0 1 2 (init_pools (snd sample_joined))) = Some (True, [[0], [1]])"
proof
  show "\<exists>m q. CheckNormalMatch sample_env 0 1 2 (init_pools (snd sample_joined)) = Some (m, q)
      \<and> sp_PlayerCount (bq_pools q TEAM_HORDE) \<le> 2"
    using CheckNormalMatch_balances [OF sample_joined_reach, of 1 sample_env 0 2] unfolding Let_def by auto
  show "map_option (\<lambda>(m, q). (m, map (\<lambda>t. sp_SelectedGroups (bq_pools q t)) [TEAM_ALLIANCE, TEAM_HORDE]))
       (CheckNormalMatch sample_env 0 1 2 (init_pools (snd sample_joined))) = Some (True, [[0], [1]])"
    by code_simp
qed

text \<open>
  C33: while arenas are tested, a horde group of at least two players that waits for a skirmish while no alliance
  group does makes the update undefined: one horde player would do, so the search for two teams of one side goes on
  with the alliance's pool, which is empty, and takes the last group of it.
\<close>

theorem skirmish_in_arena_test_undefined:
  assumes "bt_isArena t" and "qe_arenaTesting e" and "\<not> qe_testing e" and "fresh_pools (snd s)"
    and "bq_groups (snd s) b BG_QUEUE_NORMAL_ALLIANCE = []" and "bq_groups (snd s) b BG_QUEUE_NORMAL_HORDE = x # xs"
    and "bq_heap (snd s) x = Some g" and "gq_IsInvitedToBGInstanceGUID g = 0"
    and "2 \<le> gq_size g" and "gq_size g \<le> unat (qe_TeamSize e)"
  shows "update_normal e b t s = None"
proof -
  let ?n = "unat (qe_TeamSize e)"
  have lim: "match_limits e t = (1, ?n)" using assms(1,2) by (simp add: match_limits_def)
  let ?p = "\<lparr>sp_SelectedGroups = [x], sp_PlayerCount = gq_size g\<rparr>"
  have horde: "normal_scan (bq_heap (snd s)) 1 ?n (x # xs) sp_Init = Some (x # xs, ?p)"
    using assms(7-10) by (simp add: sp_AddGroup_def sp_Init_def)
  let ?q = "set_pool TEAM_HORDE ?p (set_pool TEAM_ALLIANCE sp_Init (snd s))"
  have "CheckNormalMatch e b 1 ?n (snd s) = Some (False, ?q)"
    using assms(3) by (simp add: CheckNormalMatch_def assms(4-6) horde [simplified] Let_def)
  moreover have "CheckSkirmishForSameFaction b 1 ?q = None"
    using assms(9) by (simp add: CheckSkirmishForSameFaction_def GetPlayersInQueue_def Let_def)
  ultimately show ?thesis by (simp add: update_normal_def lim assms(1))
qed

lemma skirmish_in_arena_test_undefined_witness:
  "update_normal (sample_env\<lparr>qe_TeamSize := 2, qe_arenaTesting := True\<rparr>) 0
     \<lparr>bt_isArena = True, bt_MinPlayers = 0, bt_MaxPlayers = 2, bt_MapIDs = [559, -1]\<rparr>
     (EventProcessor_new, snd (bq_AddGroup sample_env [sample_player 1, sample_player 2] HORDE 0 False 0 0 0 BattlegroundQueue_new)) = None"
proof -
  let ?q = "snd (bq_AddGroup sample_env [sample_player 1, sample_player 2] HORDE 0 False 0 0 0 BattlegroundQueue_new)"
  have lists: "bq_groups ?q 0 BG_QUEUE_NORMAL_HORDE = [0]" "bq_groups ?q 0 BG_QUEUE_NORMAL_ALLIANCE = []" by code_simp+
  have pools: "bq_pools ?q = (\<lambda>_. sp_Init)"
    by (simp add: bq_AddGroup_def Let_def set_list_def BattlegroundQueue_new_def)
  have notest: "\<not> qe_testing sample_env" by (simp add: sample_env_def)
  have g: "map_option (\<lambda>g. (gq_IsInvitedToBGInstanceGUID g, gq_size g)) (bq_heap ?q 0) = Some (0, 2)" by code_simp
  then obtain g where "bq_heap ?q 0 = Some g" "gq_IsInvitedToBGInstanceGUID g = 0" "gq_size g = 2" by auto
  then show ?thesis
    by (intro skirmish_in_arena_test_undefined [where g = g and x = 0 and xs = "[]"]) (simp_all add: lists pools notest)
qed

text \<open>The groups of a bracket and side that a rated match for teams of the given rating may take.\<close>

definition rated_candidates :: "bg_env \<Rightarrow> nat \<Rightarrow> u32 \<Rightarrow> bg_queue \<Rightarrow> team_id \<Rightarrow> nat set" where
  "rated_candidates e b rating q t =
     {a \<in> set (bq_groups q b (premade_type t)). \<exists>g. bq_heap q a = Some g \<and> rated_match e rating g}"

text \<open>
  C13: a rated update for a given rating makes a match whenever it can: nothing happens only if one side has no
  candidate and all candidates are of one arena team. Otherwise two groups that are candidates, one of each side
  or of different teams, are invited to the new arena, one as alliance and one as horde, and each knows the
  ratings of the other.
\<close>

theorem rated_match_found:
  assumes reach: "bg_reach s" and rating: "rating \<noteq> 0" and arena: "qe_Create e False = Some arena"
  shows "\<exists>s'. update_rated e b rating s = Some s'
    \<and> (let C = rated_candidates e b rating (snd s); team = (\<lambda>a. map_option gq_ArenaTeamId (bq_heap (snd s) a)) in
        s' = s \<and> (C TEAM_ALLIANCE = {} \<or> C TEAM_HORDE = {})
          \<and> (\<forall>x \<in> C TEAM_ALLIANCE \<union> C TEAM_HORDE. \<forall>y \<in> C TEAM_ALLIANCE \<union> C TEAM_HORDE. team x = team y)
        \<or> (\<exists>x y gx gy. {x, y} \<subseteq> C TEAM_ALLIANCE \<union> C TEAM_HORDE \<and> x \<noteq> y
            \<and> (x \<in> C TEAM_ALLIANCE \<and> y \<in> C TEAM_HORDE \<or> team x \<noteq> team y)
            \<and> bq_heap (snd s) x = Some gx \<and> bq_heap (snd s) y = Some gy
            \<and> bq_heap (snd s') x = Some (gx\<lparr>gq_OpponentsTeamRating := gq_ArenaTeamRating gy,
                gq_OpponentsMatchmakerRating := gq_ArenaMatchmakerRating gy, gq_Team := ALLIANCE,
                gq_IsInvitedToBGInstanceGUID := bg_InstanceID arena, gq_RemoveInviteTime := qe_now e + 90000\<rparr>)
            \<and> bq_heap (snd s') y = Some (gy\<lparr>gq_OpponentsTeamRating := gq_ArenaTeamRating gx,
                gq_OpponentsMatchmakerRating := gq_ArenaMatchmakerRating gx, gq_Team := HORDE,
                gq_IsInvitedToBGInstanceGUID := bg_InstanceID arena, gq_RemoveInviteTime := qe_now e + 90000\<rparr>)))"
proof -
  note ok = bg_reach_ok [OF reach] and qok = bg_okD(1) [OF bg_reach_ok [OF reach]]
  let ?h = "bq_heap (snd s)"
  define L where "L = (\<lambda>t. bq_groups (snd s) b (premade_type t))"
  define C where "C = rated_candidates e b rating (snd s)"
  have live: "\<forall>a \<in> set (L TEAM_ALLIANCE) \<union> set (L TEAM_HORDE). ?h a \<noteq> None"
    using queue_okD(5) [OF qok] by (auto simp: L_def)
  have dis: "set (L TEAM_ALLIANCE) \<inter> set (L TEAM_HORDE) = {}" unfolding L_def by (rule lists_disjoint [OF qok]) simp
  have C: "a \<in> C t \<longleftrightarrow> a \<in> set (L t) \<and> rated_match e rating (the (?h a))" for a t
  proof -
    have "?h a \<noteq> None" if "a \<in> set (L t)" using live that by (cases t) blast+
    then show ?thesis by (auto simp: C_def rated_candidates_def L_def)
  qed
  from rated_pair_ok [OF live dis, of e rating] obtain pair where
    run: "rated_pair e rating ?h (L TEAM_ALLIANCE) (L TEAM_HORDE) = Some pair"
    and some: "\<And>x y. pair = Some (x, y) \<Longrightarrow> x \<noteq> y \<and> {x, y} \<subseteq> set (L TEAM_ALLIANCE) \<union> set (L TEAM_HORDE)
         \<and> rated_match e rating (the (?h x)) \<and> rated_match e rating (the (?h y))
         \<and> (x \<in> set (L TEAM_ALLIANCE) \<and> y \<in> set (L TEAM_HORDE) \<or> gq_ArenaTeamId (the (?h x)) \<noteq> gq_ArenaTeamId (the (?h y)))"
    and none: "pair = None \<Longrightarrow> \<forall>x \<in> set (L TEAM_ALLIANCE) \<union> set (L TEAM_HORDE). \<forall>y \<in> set (L TEAM_ALLIANCE) \<union> set (L TEAM_HORDE).
         rated_match e rating (the (?h x)) \<longrightarrow> rated_match e rating (the (?h y)) \<longrightarrow>
           \<not> (x \<in> set (L TEAM_ALLIANCE) \<and> y \<in> set (L TEAM_HORDE)) \<and> gq_ArenaTeamId (the (?h x)) = gq_ArenaTeamId (the (?h y))"
    by blast
  have L: "L TEAM_ALLIANCE = bq_groups (snd s) b BG_QUEUE_PREMADE_ALLIANCE" "L TEAM_HORDE = bq_groups (snd s) b BG_QUEUE_PREMADE_HORDE"
    by (simp_all add: L_def)
  have upd: "update_rated e b rating s = (case pair of None \<Rightarrow> Some s | Some (x, y) \<Rightarrow> start_rated e b x y s)"
    using rating run by (simp add: update_rated_def L)
  have team: "map_option gq_ArenaTeamId (?h a) = Some (gq_ArenaTeamId (the (?h a)))" if "a \<in> set (L TEAM_ALLIANCE) \<union> set (L TEAM_HORDE)" for a
  proof -
    from live that obtain g where "?h a = Some g" by blast
    then show ?thesis by simp
  qed
  show ?thesis
  proof (cases pair)
    case None
    have "C TEAM_ALLIANCE = {} \<or> C TEAM_HORDE = {}" using none [OF None] C by blast
    moreover have "map_option gq_ArenaTeamId (?h x) = map_option gq_ArenaTeamId (?h y)"
      if "x \<in> C TEAM_ALLIANCE \<union> C TEAM_HORDE" "y \<in> C TEAM_ALLIANCE \<union> C TEAM_HORDE" for x y
    proof -
      from that C have xy: "x \<in> set (L TEAM_ALLIANCE) \<union> set (L TEAM_HORDE)" "y \<in> set (L TEAM_ALLIANCE) \<union> set (L TEAM_HORDE)"
        "rated_match e rating (the (?h x))" "rated_match e rating (the (?h y))" by blast+
      then have "gq_ArenaTeamId (the (?h x)) = gq_ArenaTeamId (the (?h y))" using none [OF None] by blast
      then show ?thesis unfolding team [OF xy(1)] team [OF xy(2)] by (rule arg_cong)
    qed
    moreover have "update_rated e b rating s = Some s" using upd None by simp
    ultimately show ?thesis unfolding C_def Let_def by (intro exI [of _ s]) blast
  next
    case (Some xy)
    obtain x y where xy: "pair = Some (x, y)" using Some by (cases xy) simp
    note p = some [OF xy]
    then have inL: "x \<in> set (L TEAM_ALLIANCE) \<union> set (L TEAM_HORDE)" "y \<in> set (L TEAM_ALLIANCE) \<union> set (L TEAM_HORDE)" by simp_all
    then obtain gx gy where g: "?h x = Some gx" "?h y = Some gy" using live by blast
    have free: "gq_IsInvitedToBGInstanceGUID gx = 0" "gq_IsInvitedToBGInstanceGUID gy = 0"
      using p g by (simp_all add: rated_match_def Let_def)
    have "x \<noteq> y" using p by blast
    from start_rated_ok [OF ok this inL [unfolded L], of e] arena g obtain s' where s': "start_rated e b x y s = Some s'"
      "bq_heap (snd s') x = Some (invited_group e arena ALLIANCE
         (gx\<lparr>gq_OpponentsTeamRating := gq_ArenaTeamRating gy, gq_OpponentsMatchmakerRating := gq_ArenaMatchmakerRating gy\<rparr>))"
      "bq_heap (snd s') y = Some (invited_group e arena HORDE
         (gy\<lparr>gq_OpponentsTeamRating := gq_ArenaTeamRating gx, gq_OpponentsMatchmakerRating := gq_ArenaMatchmakerRating gx\<rparr>))"
      by blast
    have u: "update_rated e b rating s = Some s'" using upd xy s'(1) by simp
    have c: "{x, y} \<subseteq> C TEAM_ALLIANCE \<union> C TEAM_HORDE" using p C by blast
    have d: "x \<in> C TEAM_ALLIANCE \<and> y \<in> C TEAM_HORDE \<or> map_option gq_ArenaTeamId (?h x) \<noteq> map_option gq_ArenaTeamId (?h y)"
      using p C unfolding team [OF inL(1)] team [OF inL(2)] by blast
    have h: "bq_heap (snd s') x = Some (gx\<lparr>gq_OpponentsTeamRating := gq_ArenaTeamRating gy,
          gq_OpponentsMatchmakerRating := gq_ArenaMatchmakerRating gy, gq_Team := ALLIANCE,
          gq_IsInvitedToBGInstanceGUID := bg_InstanceID arena, gq_RemoveInviteTime := qe_now e + 90000\<rparr>)"
      "bq_heap (snd s') y = Some (gy\<lparr>gq_OpponentsTeamRating := gq_ArenaTeamRating gx,
          gq_OpponentsMatchmakerRating := gq_ArenaMatchmakerRating gx, gq_Team := HORDE,
          gq_IsInvitedToBGInstanceGUID := bg_InstanceID arena, gq_RemoveInviteTime := qe_now e + 90000\<rparr>)"
      using s'(2,3) free by (simp_all add: invited_group_def)
    show ?thesis unfolding Let_def C_def [symmetric]
      by (rule exI [of _ s'], rule conjI [OF u], rule disjI2, rule exI [of _ x], rule exI [of _ y], rule exI [of _ gx],
          rule exI [of _ gy], intro conjI; fact)
  qed
qed

text \<open>Two arena teams of the horde, rated 1500 and 1600: one plays as alliance.\<close>

definition sample_rated_env :: bg_env where
  "sample_rated_env = sample_env\<lparr>qe_Rated := True, qe_TeamSize := 2\<rparr>"

definition sample_rated :: bg_state where
  "sample_rated =
     (EventProcessor_new, snd (bq_AddGroup sample_rated_env [sample_player 3] HORDE 0 False 1600 1600 2
       (snd (bq_AddGroup sample_rated_env [sample_player 1, sample_player 2] HORDE 0 False 1500 1500 1 BattlegroundQueue_new))))"

lemma sample_rated_reach: "bg_reach sample_rated"
proof -
  let ?q = "snd (bq_AddGroup sample_rated_env [sample_player 1, sample_player 2] HORDE 0 False 1500 1500 1 BattlegroundQueue_new)"
  have 1: "bg_reach (EventProcessor_new, ?q)"
    using bg_reach.join [OF bg_reach.start, of "[sample_player 1, sample_player 2]" HORDE 0 sample_rated_env False 1500 1500 1]
    by (simp add: BattlegroundQueue_new_def)
  have "map_of (bq_players ?q) (sample_player 3) = None" by code_simp
  then show ?thesis using bg_reach.join [OF 1, of "[sample_player 3]" HORDE 0 sample_rated_env False 1600 1600 2]
    by (simp add: sample_rated_def)
qed

lemma rated_match_found_witness:
  "(\<exists>s'. update_rated sample_rated_env 0 1500 sample_rated = Some s')
   \<and> map_option (\<lambda>s. map (\<lambda>a. map_option (\<lambda>g. (gq_Team g, gq_IsInvitedToBGInstanceGUID g, gq_OpponentsTeamRating g)) (bq_heap (snd s) a)) [0, 1])
       (update_rated sample_rated_env 0 1500 sample_rated) = Some [Some (ALLIANCE, 9, 1600), Some (HORDE, 9, 1500)]"
proof
  have "\<exists>arena. qe_Create sample_rated_env False = Some arena" by (simp add: sample_rated_env_def sample_env_def)
  then obtain arena where "qe_Create sample_rated_env False = Some arena" ..
  from rated_match_found [OF sample_rated_reach _ this, of 1500 0]
  show "\<exists>s'. update_rated sample_rated_env 0 1500 sample_rated = Some s'" by auto
  show "map_option (\<lambda>s. map (\<lambda>a. map_option (\<lambda>g. (gq_Team g, gq_IsInvitedToBGInstanceGUID g, gq_OpponentsTeamRating g)) (bq_heap (snd s) a)) [0, 1])
       (update_rated sample_rated_env 0 1500 sample_rated) = Some [Some (ALLIANCE, 9, 1600), Some (HORDE, 9, 1500)]"
    by code_simp
qed

end
