(* ===== verification/PoolMgr.thy ===== *)
theory PoolMgr
  imports Prelude "HOL-Library.Monad_Syntax"
begin

text \<open>
  Spawn pools (\<open>game/Pools/PoolMgr\<close>). A pool has creatures, game objects and other pools as members, of
  which at most its limit are spawned at a time on a map; when a member is due to respawn the pool
  rolls again. The manager holds the pools, one \<open>spawned_pool_data\<close> per map what is spawned there.

  A template instance is named by \<open>pool_kind\<close>. What the pools do to the map is a list of events, newest
  first; what they ask the map may depend on all events so far. Random draws are numbered. Chances
  are values of a type with the arithmetic and comparisons the code uses, without any laws; the
  equality of two floats is \<open>\<le>\<close> both ways, which is false for NaN.
\<close>

section \<open>Data\<close>

datatype pool_kind = CreatureKind | GameObjectKind | PoolKind

record pool_template =
  MaxLimit :: u32
  MapId :: int

record 'f pool_object =
  po_guid :: u64
  po_chance :: 'f

definition PoolObject :: "u64 \<Rightarrow> 'f::abs \<Rightarrow> 'f pool_object" where
  "PoolObject guid chance = \<lparr>po_guid = guid, po_chance = \<bar>chance\<bar>\<rparr>"

record 'f pool_group =
  pg_poolId :: u32
  ExplicitlyChanced :: "'f pool_object list"
  EqualChanced :: "'f pool_object list"

definition PoolGroup_new :: "'f pool_group" where
  "PoolGroup_new = \<lparr>pg_poolId = 0, ExplicitlyChanced = [], EqualChanced = []\<rparr>"

record spawned_pool_data =
  mSpawnedCreatures :: "u64 set"
  mSpawnedGameobjects :: "u64 set"
  mSpawnedPools :: "u64 \<rightharpoonup> u32"

definition SpawnedPoolData_new :: spawned_pool_data where
  "SpawnedPoolData_new = \<lparr>mSpawnedCreatures = {}, mSpawnedGameobjects = {}, mSpawnedPools = Map.empty\<rparr>"

record 'f pool_mgr =
  mPoolTemplate :: "u32 \<rightharpoonup> pool_template"
  mPoolCreatureGroups :: "u32 \<rightharpoonup> 'f pool_group"
  mPoolGameobjectGroups :: "u32 \<rightharpoonup> 'f pool_group"
  mPoolPoolGroups :: "u32 \<rightharpoonup> 'f pool_group"
  mCreatureSearchMap :: "u64 \<rightharpoonup> u32"
  mGameobjectSearchMap :: "u64 \<rightharpoonup> u32"
  mPoolSearchMap :: "u64 \<rightharpoonup> u32"
  mAutoSpawnPoolsPerMap :: "u32 \<rightharpoonup> u32 list"

definition PoolMgr_new :: "'f pool_mgr" where
  "PoolMgr_new = \<lparr>mPoolTemplate = Map.empty, mPoolCreatureGroups = Map.empty,
     mPoolGameobjectGroups = Map.empty, mPoolPoolGroups = Map.empty, mCreatureSearchMap = Map.empty,
     mGameobjectSearchMap = Map.empty, mPoolSearchMap = Map.empty, mAutoSpawnPoolsPerMap = Map.empty\<rparr>"

text \<open>What the pools do to the map, in the names of the functions they call.\<close>

datatype pool_event =
    SaveRespawnTime pool_kind nat
  | AddObjectToRemoveList pool_kind nat
  | RemoveRespawnTime pool_kind u64
  | CreateCreatureFromDB u64
  | CreateGameObjectFromDB u64
  | AddToMap u64
  | DeleteObject u64

record pool_state =
  ps_spawns :: spawned_pool_data
  ps_events :: "pool_event list"
  ps_draws :: nat

text \<open>
  What they ask: the objects of the map with a spawn id and whether each respawns in compatibility
  mode; whether a spawn id has data and its grid is loaded; whether a game object can be created, is
  spawned by default and can be added; and the random numbers.
\<close>

record 'f pool_env =
  SpawnIdStore :: "pool_event list \<Rightarrow> pool_kind \<Rightarrow> u64 \<Rightarrow> (nat \<times> bool) list"
  GridOfSpawnLoaded :: "pool_event list \<Rightarrow> pool_kind \<Rightarrow> u64 \<Rightarrow> bool option"
  gameobject_made :: "pool_event list \<Rightarrow> u64 \<Rightarrow> (bool \<times> bool) option"
  rand_chance_at :: "nat \<Rightarrow> 'f"
  urand_at :: "nat \<Rightarrow> nat \<Rightarrow> nat \<Rightarrow> nat"

definition groups_of :: "pool_kind \<Rightarrow> 'f pool_mgr \<Rightarrow> u32 \<rightharpoonup> 'f pool_group" where
  "groups_of k m = (case k of CreatureKind \<Rightarrow> mPoolCreatureGroups m
     | GameObjectKind \<Rightarrow> mPoolGameobjectGroups m | PoolKind \<Rightarrow> mPoolPoolGroups m)"

definition pm_emit :: "pool_event \<Rightarrow> pool_state \<Rightarrow> pool_state" where
  "pm_emit e s = s\<lparr>ps_events := e # ps_events s\<rparr>"

section \<open>What is spawned on a map\<close>

definition GetSpawnedObjects :: "spawned_pool_data \<Rightarrow> u32 \<Rightarrow> u32" where
  "GetSpawnedObjects sp pool_id = (case mSpawnedPools sp (ucast pool_id) of Some n \<Rightarrow> n | None \<Rightarrow> 0)"

fun IsSpawnedObject :: "spawned_pool_data \<Rightarrow> pool_kind \<Rightarrow> u64 \<Rightarrow> bool" where
  "IsSpawnedObject sp CreatureKind guid = (guid \<in> mSpawnedCreatures sp)"
| "IsSpawnedObject sp GameObjectKind guid = (guid \<in> mSpawnedGameobjects sp)"
| "IsSpawnedObject sp PoolKind guid = (mSpawnedPools sp guid \<noteq> None)"

definition inc_spawned :: "u32 \<Rightarrow> spawned_pool_data \<Rightarrow> spawned_pool_data" where
  "inc_spawned pool_id sp = sp\<lparr>mSpawnedPools := (mSpawnedPools sp)(ucast pool_id \<mapsto> GetSpawnedObjects sp pool_id + 1)\<rparr>"

definition dec_spawned :: "u32 \<Rightarrow> spawned_pool_data \<Rightarrow> spawned_pool_data" where
  "dec_spawned pool_id sp = (let val = GetSpawnedObjects sp pool_id in
     sp\<lparr>mSpawnedPools := (mSpawnedPools sp)(ucast pool_id \<mapsto> (if val > 0 then val - 1 else val))\<rparr>)"

fun AddSpawn :: "pool_kind \<Rightarrow> u64 \<Rightarrow> u32 \<Rightarrow> spawned_pool_data \<Rightarrow> spawned_pool_data" where
  "AddSpawn CreatureKind guid pool_id sp =
     inc_spawned pool_id (sp\<lparr>mSpawnedCreatures := insert guid (mSpawnedCreatures sp)\<rparr>)"
| "AddSpawn GameObjectKind guid pool_id sp =
     inc_spawned pool_id (sp\<lparr>mSpawnedGameobjects := insert guid (mSpawnedGameobjects sp)\<rparr>)"
| "AddSpawn PoolKind sub_pool_id pool_id sp =
     inc_spawned pool_id (sp\<lparr>mSpawnedPools := (mSpawnedPools sp)(sub_pool_id \<mapsto> 0)\<rparr>)"

fun RemoveSpawn :: "pool_kind \<Rightarrow> u64 \<Rightarrow> u32 \<Rightarrow> spawned_pool_data \<Rightarrow> spawned_pool_data" where
  "RemoveSpawn CreatureKind guid pool_id sp =
     dec_spawned pool_id (sp\<lparr>mSpawnedCreatures := mSpawnedCreatures sp - {guid}\<rparr>)"
| "RemoveSpawn GameObjectKind guid pool_id sp =
     dec_spawned pool_id (sp\<lparr>mSpawnedGameobjects := mSpawnedGameobjects sp - {guid}\<rparr>)"
| "RemoveSpawn PoolKind sub_pool_id pool_id sp =
     dec_spawned pool_id (sp\<lparr>mSpawnedPools := (mSpawnedPools sp)(sub_pool_id := None)\<rparr>)"

section \<open>Pool groups\<close>

definition pg_isEmpty :: "'f pool_group \<Rightarrow> bool" where
  "pg_isEmpty g = (ExplicitlyChanced g = [] \<and> EqualChanced g = [])"

definition float_eq :: "'f::ord \<Rightarrow> 'f \<Rightarrow> bool" where
  "float_eq a b = (a \<le> b \<and> b \<le> a)"

definition AddEntry :: "'f::{zero,ord} pool_object \<Rightarrow> u32 \<Rightarrow> 'f pool_group \<Rightarrow> 'f pool_group" where
  "AddEntry poolitem maxentries g =
    (if \<not> float_eq (po_chance poolitem) 0 \<and> maxentries = 1
     then g\<lparr>ExplicitlyChanced := ExplicitlyChanced g @ [poolitem]\<rparr>
     else g\<lparr>EqualChanced := EqualChanced g @ [poolitem]\<rparr>)"

text \<open>\<open>hundred\<close> is the constant 100 of the type of chances.\<close>

definition pg_CheckPool :: "'f::{zero,plus,ord} \<Rightarrow> 'f pool_group \<Rightarrow> bool" where
  "pg_CheckPool hundred g =
    (if EqualChanced g = []
     then let chance = foldl (\<lambda>c obj. c + po_chance obj) 0 (ExplicitlyChanced g) in
       float_eq chance hundred \<or> float_eq chance 0
     else True)"

subsection \<open>Despawning\<close>

definition RemoveRespawnTimeFromDB :: "pool_kind \<Rightarrow> u64 \<Rightarrow> pool_state \<Rightarrow> pool_state" where
  "RemoveRespawnTimeFromDB k guid s = (if k = PoolKind then s else pm_emit (RemoveRespawnTime k guid) s)"

text \<open>\<open>Despawn1Object\<close> of creatures and game objects; the one of pools is \<open>DespawnPool\<close>.\<close>

fun despawn_objects :: "pool_kind \<Rightarrow> bool \<Rightarrow> (nat \<times> bool) list \<Rightarrow> pool_state \<Rightarrow> pool_state" where
  "despawn_objects k saveRespawnTime [] s = s"
| "despawn_objects k saveRespawnTime ((obj, compatibility) # objs) s =
     despawn_objects k saveRespawnTime objs
       (pm_emit (AddObjectToRemoveList k obj)
         (if saveRespawnTime \<and> \<not> compatibility then pm_emit (SaveRespawnTime k obj) s else s))"

definition Despawn1Object :: "'f pool_env \<Rightarrow> pool_kind \<Rightarrow> u64 \<Rightarrow> bool \<Rightarrow> bool \<Rightarrow> pool_state \<Rightarrow> pool_state" where
  "Despawn1Object env k guid alwaysDeleteRespawnTime saveRespawnTime s =
    (let s = despawn_objects k saveRespawnTime (SpawnIdStore env (ps_events s) k guid) s in
     if alwaysDeleteRespawnTime then pm_emit (RemoveRespawnTime k guid) s else s)"

text \<open>
  The two loops of \<open>DespawnObject\<close>. What \<open>Despawn1Object\<close> does for the kind of the group is the argument
  \<open>d1\<close>; for pools it is the recursion.
\<close>

fun despawn_list :: "(u64 \<Rightarrow> bool \<Rightarrow> pool_state \<Rightarrow> pool_state option) \<Rightarrow> pool_kind \<Rightarrow> u32 \<Rightarrow> u64 \<Rightarrow> bool \<Rightarrow>
    'f pool_object list \<Rightarrow> pool_state \<Rightarrow> pool_state option" where
  "despawn_list d1 k poolId guid always [] s = Some s"
| "despawn_list d1 k poolId guid always (obj # objs) s =
    do {
      s1 \<leftarrow> (if IsSpawnedObject (ps_spawns s) k (po_guid obj)
             then if guid = 0 \<or> po_guid obj = guid
                  then do {
                    s' \<leftarrow> d1 (po_guid obj) always s;
                    Some (s'\<lparr>ps_spawns := RemoveSpawn k (po_guid obj) poolId (ps_spawns s')\<rparr>)
                  }
                  else Some s
             else Some (if always then RemoveRespawnTimeFromDB k (po_guid obj) s else s));
      despawn_list d1 k poolId guid always objs s1
    }"

definition DespawnObject :: "(u64 \<Rightarrow> bool \<Rightarrow> pool_state \<Rightarrow> pool_state option) \<Rightarrow> pool_kind \<Rightarrow>
    'f pool_group \<Rightarrow> u64 \<Rightarrow> bool \<Rightarrow> pool_state \<Rightarrow> pool_state option" where
  "DespawnObject d1 k g guid always s =
    do {
      s1 \<leftarrow> despawn_list d1 k (pg_poolId g) guid always (EqualChanced g) s;
      despawn_list d1 k (pg_poolId g) guid always (ExplicitlyChanced g) s1
    }"

definition despawn_group :: "(u64 \<Rightarrow> bool \<Rightarrow> pool_state \<Rightarrow> pool_state option) \<Rightarrow> pool_kind \<Rightarrow>
    'f pool_mgr \<Rightarrow> u32 \<Rightarrow> bool \<Rightarrow> pool_state \<Rightarrow> pool_state option" where
  "despawn_group d1 k m pool_id always s =
    (case groups_of k m pool_id of
       Some g \<Rightarrow> if pg_isEmpty g then Some s else DespawnObject d1 k g 0 always s
     | None \<Rightarrow> Some s)"

definition despawn1 :: "'f pool_env \<Rightarrow> pool_kind \<Rightarrow> u64 \<Rightarrow> bool \<Rightarrow> pool_state \<Rightarrow> pool_state option" where
  "despawn1 env k guid always s = Some (Despawn1Object env k guid always True s)"

text \<open>The recursion over pools of pools is a partial function.\<close>

lemma despawn_list_mono [partial_function_mono]:
  assumes "\<And>g b s. mono_option (\<lambda>f. d1 f g b s)"
  shows "mono_option (\<lambda>f. despawn_list (d1 f) k p guid always objs s)"
proof (induction objs arbitrary: s)
  case (Cons obj objs)
  show ?case unfolding despawn_list.simps by (intro partial_function_mono assms Cons.IH)
qed (simp add: partial_function_mono)

lemma DespawnObject_mono [partial_function_mono]:
  assumes "\<And>g b s. mono_option (\<lambda>f. d1 f g b s)"
  shows "mono_option (\<lambda>f. DespawnObject (d1 f) k g guid always s)"
  unfolding DespawnObject_def by (intro partial_function_mono assms)

lemma despawn_group_mono [partial_function_mono]:
  assumes "\<And>g b s. mono_option (\<lambda>f. d1 f g b s)"
  shows "mono_option (\<lambda>f. despawn_group (d1 f) k m p always s)"
  unfolding despawn_group_def
  by (cases "groups_of k m p") (auto intro!: partial_function_mono assms)

partial_function (option) DespawnPool ::
  "'f pool_env \<Rightarrow> 'f pool_mgr \<Rightarrow> u32 \<Rightarrow> bool \<Rightarrow> pool_state \<Rightarrow> pool_state option" where
  "DespawnPool env m pool_id always s =
    do {
      s1 \<leftarrow> despawn_group (despawn1 env CreatureKind) CreatureKind m pool_id always s;
      s2 \<leftarrow> despawn_group (despawn1 env GameObjectKind) GameObjectKind m pool_id always s1;
      despawn_group (\<lambda>child b s. DespawnPool env m (ucast child) b s) PoolKind m pool_id always s2
    }"

declare DespawnPool.simps [code]

definition despawn_of :: "'f pool_env \<Rightarrow> 'f pool_mgr \<Rightarrow> pool_kind \<Rightarrow> u64 \<Rightarrow> bool \<Rightarrow> pool_state \<Rightarrow> pool_state option" where
  "despawn_of env m k = (if k = PoolKind then \<lambda>child b s. DespawnPool env m (ucast child) b s else despawn1 env k)"

subsection \<open>Spawning\<close>

text \<open>\<open>RandomResize\<close> of \<open>Containers.h\<close>: keeps the wanted number of elements, in their order.\<close>

fun resize_loop :: "(nat \<Rightarrow> nat \<Rightarrow> nat \<Rightarrow> nat) \<Rightarrow> nat \<Rightarrow> 'a list \<Rightarrow> nat \<Rightarrow> 'a list" where
  "resize_loop rnd elementsToKeep [] n = []"
| "resize_loop rnd elementsToKeep (x # xs) n =
    (if rnd n 1 (length (x # xs)) \<le> elementsToKeep
     then x # resize_loop rnd (elementsToKeep - 1) xs (n + 1)
     else resize_loop rnd elementsToKeep xs (n + 1))"

definition RandomResize :: "(nat \<Rightarrow> nat \<Rightarrow> nat \<Rightarrow> nat) \<Rightarrow> 'a list \<Rightarrow> nat \<Rightarrow> nat \<Rightarrow> 'a list \<times> nat" where
  "RandomResize rnd xs requestedSize n =
    (if length xs \<le> requestedSize then (xs, n) else (resize_loop rnd requestedSize xs n, n + length xs))"

text \<open>The loop over the explicitly chanced members.\<close>

fun roll_explicit :: "spawned_pool_data \<Rightarrow> pool_kind \<Rightarrow> u64 \<Rightarrow> 'f::{zero,minus,ord} \<Rightarrow> 'f pool_object list \<Rightarrow>
    'f pool_object list" where
  "roll_explicit sp k triggerFrom roll [] = []"
| "roll_explicit sp k triggerFrom roll (obj # objs) =
    (let roll = roll - po_chance obj in
     if roll < 0 \<and> (po_guid obj = triggerFrom \<or> \<not> IsSpawnedObject sp k (po_guid obj))
     then [obj] else roll_explicit sp k triggerFrom roll objs)"

definition roll_objects :: "'f pool_env \<Rightarrow> pool_kind \<Rightarrow> 'f::{zero,minus,ord} pool_group \<Rightarrow> nat \<Rightarrow> u64 \<Rightarrow>
    pool_state \<Rightarrow> 'f pool_object list \<times> pool_state" where
  "roll_objects env k g num triggerFrom s =
    (let sp = ps_spawns s;
         (rolled, n) = (if ExplicitlyChanced g \<noteq> []
           then (roll_explicit sp k triggerFrom (rand_chance_at env (ps_draws s)) (ExplicitlyChanced g), ps_draws s + 1)
           else ([], ps_draws s));
         (rolled, n) = (if EqualChanced g \<noteq> [] \<and> rolled = []
           then RandomResize (urand_at env)
             (filter (\<lambda>obj. po_guid obj = triggerFrom \<or> \<not> IsSpawnedObject sp k (po_guid obj)) (EqualChanced g)) num n
           else (rolled, n))
     in (rolled, s\<lparr>ps_draws := n\<rparr>))"

definition Spawn1Object :: "'f pool_env \<Rightarrow> pool_kind \<Rightarrow> u64 \<Rightarrow> pool_state \<Rightarrow> pool_state" where
  "Spawn1Object env k guid s =
    (if GridOfSpawnLoaded env (ps_events s) k guid \<noteq> Some True then s
     else if k = CreatureKind then pm_emit (CreateCreatureFromDB guid) s
     else case gameobject_made env (ps_events s) guid of
         None \<Rightarrow> pm_emit (CreateGameObjectFromDB guid) s
       | Some (isSpawnedByDefault, added) \<Rightarrow>
           let s = pm_emit (CreateGameObjectFromDB guid) s;
               s = (if isSpawnedByDefault then pm_emit (AddToMap guid) s else s)
           in if isSpawnedByDefault \<and> \<not> added then pm_emit (DeleteObject guid) s else s)"

definition ReSpawn1Object :: "'f pool_env \<Rightarrow> pool_kind \<Rightarrow> u64 \<Rightarrow> pool_state \<Rightarrow> pool_state" where
  "ReSpawn1Object env k guid s =
    (if k = PoolKind then s else Spawn1Object env k guid (Despawn1Object env k guid False False s))"

fun spawn_rolled :: "(u64 \<Rightarrow> pool_state \<Rightarrow> pool_state option) \<Rightarrow> 'f pool_env \<Rightarrow> pool_kind \<Rightarrow> u32 \<Rightarrow> u64 \<Rightarrow>
    'f pool_object list \<Rightarrow> pool_state \<Rightarrow> (u64 \<times> pool_state) option" where
  "spawn_rolled s1 env k poolId triggerFrom [] s = Some (triggerFrom, s)"
| "spawn_rolled s1 env k poolId triggerFrom (obj # objs) s =
    (if po_guid obj = triggerFrom
     then spawn_rolled s1 env k poolId 0 objs (ReSpawn1Object env k (po_guid obj) s)
     else do {
       s' \<leftarrow> s1 (po_guid obj) (s\<lparr>ps_spawns := AddSpawn k (po_guid obj) poolId (ps_spawns s)\<rparr>);
       spawn_rolled s1 env k poolId triggerFrom objs s'
     })"

text \<open>The increment of \<open>count\<close> is on a signed integer: overflow is undefined.\<close>

definition SpawnObject :: "(u64 \<Rightarrow> pool_state \<Rightarrow> pool_state option) \<Rightarrow> 'f pool_env \<Rightarrow> 'f pool_mgr \<Rightarrow> pool_kind \<Rightarrow>
    'f::{zero,minus,ord} pool_group \<Rightarrow> u32 \<Rightarrow> u64 \<Rightarrow> pool_state \<Rightarrow> pool_state option" where
  "SpawnObject s1 env m k g limit triggerFrom s =
    (let num = sint (limit - GetSpawnedObjects (ps_spawns s) (pg_poolId g)) in
     if triggerFrom \<noteq> 0 \<and> num = 2 ^ 31 - 1 then None
     else let num = (if triggerFrom \<noteq> 0 then num + 1 else num) in
     do {
       (triggerFrom, s) \<leftarrow>
         (if num > 0
          then case roll_objects env k g (nat num) triggerFrom s of (rolled, s) \<Rightarrow>
            spawn_rolled s1 env k (pg_poolId g) triggerFrom rolled s
          else Some (triggerFrom, s));
       (if triggerFrom \<noteq> 0 then DespawnObject (despawn_of env m k) k g triggerFrom False s else Some s)
     })"

definition GetMaxLimit :: "'f pool_mgr \<Rightarrow> u32 \<Rightarrow> u32" where
  "GetMaxLimit m pool_id = (case mPoolTemplate m pool_id of Some t \<Rightarrow> MaxLimit t | None \<Rightarrow> 0)"

definition SpawnPool_kind :: "(u64 \<Rightarrow> pool_state \<Rightarrow> pool_state option) \<Rightarrow> 'f pool_env \<Rightarrow> 'f::{zero,minus,ord} pool_mgr \<Rightarrow>
    pool_kind \<Rightarrow> u32 \<Rightarrow> u64 \<Rightarrow> pool_state \<Rightarrow> pool_state option" where
  "SpawnPool_kind s1 env m k pool_id guid s =
    (case groups_of k m pool_id of
       Some g \<Rightarrow> if pg_isEmpty g then Some s else SpawnObject s1 env m k g (GetMaxLimit m pool_id) guid s
     | None \<Rightarrow> Some s)"

definition spawn1 :: "'f pool_env \<Rightarrow> pool_kind \<Rightarrow> u64 \<Rightarrow> pool_state \<Rightarrow> pool_state option" where
  "spawn1 env k guid s = Some (Spawn1Object env k guid s)"

lemma spawn_rolled_mono [partial_function_mono]:
  assumes "\<And>g s. mono_option (\<lambda>f. s1 f g s)"
  shows "mono_option (\<lambda>f. spawn_rolled (s1 f) env k p t objs s)"
proof (induction objs arbitrary: s t)
  case (Cons obj objs)
  show ?case unfolding spawn_rolled.simps by (intro partial_function_mono assms Cons.IH)
qed (simp add: partial_function_mono)

lemma SpawnObject_mono [partial_function_mono]:
  assumes "\<And>g s. mono_option (\<lambda>f. s1 f g s)"
  shows "mono_option (\<lambda>f. SpawnObject (s1 f) env m k g limit t s)"
proof -
  have "mono_option (\<lambda>f. case roll_objects env k g n t s of (r, s) \<Rightarrow> spawn_rolled (s1 f) env k p t r s)"
    for n p by (cases "roll_objects env k g n t s") (simp add: partial_function_mono assms)
  then show ?thesis unfolding SpawnObject_def Let_def
    by (intro partial_function_mono) (auto split: prod.split intro: partial_function_mono)
qed

lemma SpawnPool_kind_mono [partial_function_mono]:
  assumes "\<And>g s. mono_option (\<lambda>f. s1 f g s)"
  shows "mono_option (\<lambda>f. SpawnPool_kind (s1 f) env m k p guid s)"
  unfolding SpawnPool_kind_def
  by (cases "groups_of k m p") (auto intro!: partial_function_mono assms)

partial_function (option) SpawnPool ::
  "'f::{zero,minus,ord} pool_env \<Rightarrow> 'f pool_mgr \<Rightarrow> u32 \<Rightarrow> pool_state \<Rightarrow> pool_state option" where
  "SpawnPool env m pool_id s =
    do {
      s1 \<leftarrow> SpawnPool_kind (\<lambda>child s. SpawnPool env m (ucast child) s) env m PoolKind pool_id 0 s;
      s2 \<leftarrow> SpawnPool_kind (spawn1 env GameObjectKind) env m GameObjectKind pool_id 0 s1;
      SpawnPool_kind (spawn1 env CreatureKind) env m CreatureKind pool_id 0 s2
    }"

declare SpawnPool.simps [code]

definition spawn_of :: "'f::{zero,minus,ord} pool_env \<Rightarrow> 'f pool_mgr \<Rightarrow> pool_kind \<Rightarrow> u64 \<Rightarrow> pool_state \<Rightarrow> pool_state option" where
  "spawn_of env m k = (if k = PoolKind then \<lambda>child s. SpawnPool env m (ucast child) s else spawn1 env k)"

section \<open>Questions and updates\<close>

definition IsPartOfAPool :: "'f pool_mgr \<Rightarrow> pool_kind \<Rightarrow> u64 \<Rightarrow> u32" where
  "IsPartOfAPool m k guid =
    (case (case k of CreatureKind \<Rightarrow> mCreatureSearchMap m | GameObjectKind \<Rightarrow> mGameobjectSearchMap m
             | PoolKind \<Rightarrow> mPoolSearchMap m) guid of
       Some pool_id \<Rightarrow> pool_id | None \<Rightarrow> 0)"

definition UpdatePool :: "'f::{zero,minus,ord} pool_env \<Rightarrow> 'f pool_mgr \<Rightarrow> pool_kind \<Rightarrow> u32 \<Rightarrow> u64 \<Rightarrow>
    pool_state \<Rightarrow> pool_state option" where
  "UpdatePool env m k pool_id guid s =
    (let motherpoolid = IsPartOfAPool m PoolKind (ucast pool_id) in
     if motherpoolid \<noteq> 0
     then SpawnPool_kind (spawn_of env m PoolKind) env m PoolKind motherpoolid (ucast pool_id) s
     else SpawnPool_kind (spawn_of env m k) env m k pool_id guid s)"

datatype spawn_type = SPAWN_TYPE_CREATURE | SPAWN_TYPE_GAMEOBJECT | SPAWN_TYPE_AREATRIGGER

text \<open>The overloads by spawn type end the program on a type they do not know.\<close>

fun IsSpawnedObject_type :: "spawned_pool_data \<Rightarrow> spawn_type \<Rightarrow> u64 \<Rightarrow> bool option" where
  "IsSpawnedObject_type sp SPAWN_TYPE_CREATURE guid = Some (IsSpawnedObject sp CreatureKind guid)"
| "IsSpawnedObject_type sp SPAWN_TYPE_GAMEOBJECT guid = Some (IsSpawnedObject sp GameObjectKind guid)"
| "IsSpawnedObject_type sp SPAWN_TYPE_AREATRIGGER guid = None"

fun IsPartOfAPool_type :: "'f pool_mgr \<Rightarrow> spawn_type \<Rightarrow> u64 \<Rightarrow> u32" where
  "IsPartOfAPool_type m SPAWN_TYPE_CREATURE spawnId = IsPartOfAPool m CreatureKind spawnId"
| "IsPartOfAPool_type m SPAWN_TYPE_GAMEOBJECT spawnId = IsPartOfAPool m GameObjectKind spawnId"
| "IsPartOfAPool_type m SPAWN_TYPE_AREATRIGGER spawnId = 0"

fun UpdatePool_type :: "'f::{zero,minus,ord} pool_env \<Rightarrow> 'f pool_mgr \<Rightarrow> u32 \<Rightarrow> spawn_type \<Rightarrow> u64 \<Rightarrow>
    pool_state \<Rightarrow> pool_state option" where
  "UpdatePool_type env m pool_id SPAWN_TYPE_CREATURE spawnId s = UpdatePool env m CreatureKind pool_id spawnId s"
| "UpdatePool_type env m pool_id SPAWN_TYPE_GAMEOBJECT spawnId s = UpdatePool env m GameObjectKind pool_id spawnId s"
| "UpdatePool_type env m pool_id SPAWN_TYPE_AREATRIGGER spawnId s = None"

text \<open>The template is looked up by a number cut to 16 bits.\<close>

definition GetPoolTemplate :: "'f pool_mgr \<Rightarrow> u16 \<Rightarrow> pool_template option" where
  "GetPoolTemplate m pool_id = mPoolTemplate m (ucast pool_id)"

fun spawn_pools :: "'f::{zero,minus,ord} pool_env \<Rightarrow> 'f pool_mgr \<Rightarrow> u32 list \<Rightarrow> pool_state \<Rightarrow> pool_state option" where
  "spawn_pools env m [] s = Some s"
| "spawn_pools env m (poolId # ids) s = do { s' \<leftarrow> SpawnPool env m poolId s; spawn_pools env m ids s' }"

definition InitPoolsForMap :: "'f::{zero,minus,ord} pool_env \<Rightarrow> 'f pool_mgr \<Rightarrow> u32 \<Rightarrow> pool_state option" where
  "InitPoolsForMap env m mapId =
    (let s = \<lparr>ps_spawns = SpawnedPoolData_new, ps_events = [], ps_draws = 0\<rparr> in
     case mAutoSpawnPoolsPerMap m mapId of
       Some poolIds \<Rightarrow> spawn_pools env m poolIds s
     | None \<Rightarrow> Some s)"

text \<open>The loop of \<open>isEmptyDeepCheck\<close> over the pools of a pool.\<close>

fun all_pools_empty :: "(u32 \<Rightarrow> bool option) \<Rightarrow> 'f pool_object list \<Rightarrow> bool option" where
  "all_pools_empty e [] = Some True"
| "all_pools_empty e (obj # objs) =
    do { b \<leftarrow> e (ucast (po_guid obj)); if b then all_pools_empty e objs else Some False }"

definition pool_isEmptyDeepCheck :: "(u32 \<Rightarrow> bool option) \<Rightarrow> 'f pool_group \<Rightarrow> bool option" where
  "pool_isEmptyDeepCheck e g =
    do { b \<leftarrow> all_pools_empty e (ExplicitlyChanced g);
         if b then all_pools_empty e (EqualChanced g) else Some False }"

definition group_isEmpty :: "'f pool_mgr \<Rightarrow> pool_kind \<Rightarrow> u32 \<Rightarrow> bool" where
  "group_isEmpty m k pool_id = (case groups_of k m pool_id of Some g \<Rightarrow> pg_isEmpty g | None \<Rightarrow> True)"

lemma all_pools_empty_mono [partial_function_mono]:
  assumes "\<And>p. mono_option (\<lambda>f. e f p)"
  shows "mono_option (\<lambda>f. all_pools_empty (e f) objs)"
proof (induction objs)
  case (Cons obj objs)
  show ?case unfolding all_pools_empty.simps by (intro partial_function_mono assms Cons.IH)
qed (simp add: partial_function_mono)

lemma pool_isEmptyDeepCheck_mono [partial_function_mono]:
  assumes "\<And>p. mono_option (\<lambda>f. e f p)"
  shows "mono_option (\<lambda>f. pool_isEmptyDeepCheck (e f) g)"
  unfolding pool_isEmptyDeepCheck_def by (intro partial_function_mono assms)

lemma pool_groups_empty_mono [partial_function_mono]:
  assumes "\<And>p. mono_option (\<lambda>f. e f p)"
  shows "mono_option (\<lambda>f. case mPoolPoolGroups m p of Some g \<Rightarrow> pool_isEmptyDeepCheck (e f) g | None \<Rightarrow> Some True)"
  by (cases "mPoolPoolGroups m p") (auto intro!: partial_function_mono assms)

partial_function (option) IsEmpty :: "'f pool_mgr \<Rightarrow> u32 \<Rightarrow> bool option" where
  "IsEmpty m pool_id =
    (if \<not> group_isEmpty m GameObjectKind pool_id then Some False
     else if \<not> group_isEmpty m CreatureKind pool_id then Some False
     else case mPoolPoolGroups m pool_id of
         Some g \<Rightarrow> pool_isEmptyDeepCheck (\<lambda>p. IsEmpty m p) g
       | None \<Rightarrow> Some True)"

declare IsEmpty.simps [code]

definition CheckPool :: "'f::{zero,plus,ord} \<Rightarrow> 'f pool_mgr \<Rightarrow> u32 \<Rightarrow> bool" where
  "CheckPool hundred m pool_id = list_all
    (\<lambda>k. case groups_of k m pool_id of Some g \<Rightarrow> pg_CheckPool hundred g | None \<Rightarrow> True)
    [GameObjectKind, CreatureKind, PoolKind]"

section \<open>Loading\<close>

text \<open>
  The tables as the results of the five queries (no result is the empty list), the map of a spawn's
  data, and the order in which the templates are walked.
\<close>

record 'f pool_db =
  template_rows :: "(u32 \<times> u32) list"
  creature_rows :: "(u64 \<times> u32 \<times> 'f) list"
  gameobject_rows :: "(u64 \<times> u32 \<times> 'f) list"
  pool_rows :: "(u64 \<times> u32 \<times> 'f) list"
  start_rows :: "(u32 \<times> u64) list"
  map_of_creature :: "u64 \<Rightarrow> u32 option"
  map_of_gameobject :: "u64 \<Rightarrow> u32 option"
  template_walk :: "(u32 \<rightharpoonup> pool_template) \<Rightarrow> u32 list"

definition PoolMgr_Initialize :: "'f pool_mgr \<Rightarrow> 'f pool_mgr" where
  "PoolMgr_Initialize m = m\<lparr>mGameobjectSearchMap := Map.empty, mCreatureSearchMap := Map.empty\<rparr>"

definition load_template :: "u32 \<times> u32 \<Rightarrow> 'f pool_mgr \<Rightarrow> 'f pool_mgr" where
  "load_template row m = m\<lparr>mPoolTemplate := (mPoolTemplate m)(fst row \<mapsto> \<lparr>MaxLimit = snd row, MapId = -1\<rparr>)\<rparr>"

definition template_at :: "'f pool_mgr \<Rightarrow> u32 \<Rightarrow> pool_template" where
  "template_at m pool_id = (case mPoolTemplate m pool_id of Some t \<Rightarrow> t | None \<Rightarrow> \<lparr>MaxLimit = 0, MapId = 0\<rparr>)"

definition set_MapId :: "u32 \<Rightarrow> int \<Rightarrow> 'f pool_mgr \<Rightarrow> 'f pool_mgr" where
  "set_MapId pool_id mapId m =
    m\<lparr>mPoolTemplate := (mPoolTemplate m)(pool_id \<mapsto> (template_at m pool_id)\<lparr>MapId := mapId\<rparr>)\<rparr>"

definition map_insert :: "'k \<Rightarrow> 'v \<Rightarrow> ('k \<rightharpoonup> 'v) \<Rightarrow> 'k \<rightharpoonup> 'v" where
  "map_insert k v f = (case f k of None \<Rightarrow> f(k \<mapsto> v) | Some _ \<Rightarrow> f)"

definition put_entry :: "pool_kind \<Rightarrow> u64 \<Rightarrow> u32 \<Rightarrow> 'f::{zero,abs,ord} \<Rightarrow> 'f pool_mgr \<Rightarrow> 'f pool_mgr" where
  "put_entry k guid pool_id chance m =
    (let g = (case groups_of k m pool_id of Some g \<Rightarrow> g | None \<Rightarrow> PoolGroup_new);
         g = AddEntry (PoolObject guid chance) (MaxLimit (template_at m pool_id)) (g\<lparr>pg_poolId := pool_id\<rparr>)
     in case k of
         CreatureKind \<Rightarrow> m\<lparr>mPoolCreatureGroups := (mPoolCreatureGroups m)(pool_id \<mapsto> g),
           mCreatureSearchMap := map_insert guid pool_id (mCreatureSearchMap m)\<rparr>
       | GameObjectKind \<Rightarrow> m\<lparr>mPoolGameobjectGroups := (mPoolGameobjectGroups m)(pool_id \<mapsto> g),
           mGameobjectSearchMap := map_insert guid pool_id (mGameobjectSearchMap m)\<rparr>
       | PoolKind \<Rightarrow> m\<lparr>mPoolPoolGroups := (mPoolPoolGroups m)(pool_id \<mapsto> g),
           mPoolSearchMap := map_insert guid pool_id (mPoolSearchMap m)\<rparr>)"

text \<open>The body of the loops over the creatures and the game objects.\<close>

definition load_member :: "pool_kind \<Rightarrow> 'f::{zero,abs,ord} \<Rightarrow> (u64 \<Rightarrow> u32 option) \<Rightarrow> u64 \<times> u32 \<times> 'f \<Rightarrow>
    'f pool_mgr \<Rightarrow> 'f pool_mgr" where
  "load_member k hundred data row m = (case row of (guid, pool_id, chance) \<Rightarrow>
    (case data guid of
       None \<Rightarrow> m
     | Some mapId \<Rightarrow>
         if mPoolTemplate m pool_id = None then m
         else if chance < 0 \<or> hundred < chance then m
         else let m = (if MapId (template_at m pool_id) = -1 then set_MapId pool_id (sint mapId) m else m) in
           if MapId (template_at m pool_id) \<noteq> sint mapId then m else put_entry k guid pool_id chance m))"

definition load_pool :: "'f::{zero,abs,ord} \<Rightarrow> u64 \<times> u32 \<times> 'f \<Rightarrow> 'f pool_mgr \<Rightarrow> 'f pool_mgr" where
  "load_pool hundred row m = (case row of (spawnId, mother_pool_id, chance) \<Rightarrow>
    (let child_pool_id = ucast spawnId :: u32 in
     if mPoolTemplate m mother_pool_id = None then m
     else if mPoolTemplate m child_pool_id = None then m
     else if mother_pool_id = child_pool_id then m
     else if chance < 0 \<or> hundred < chance then m
     else put_entry PoolKind (ucast child_pool_id) mother_pool_id chance m))"

subsection \<open>Links between pools\<close>

fun remove_first :: "u64 \<Rightarrow> 'f pool_object list \<Rightarrow> 'f pool_object list" where
  "remove_first guid [] = []"
| "remove_first guid (obj # objs) = (if po_guid obj = guid then objs else obj # remove_first guid objs)"

definition RemoveOneRelation :: "u32 \<Rightarrow> 'f pool_group \<Rightarrow> 'f pool_group" where
  "RemoveOneRelation child_pool_id g = g\<lparr>ExplicitlyChanced := remove_first (ucast child_pool_id) (ExplicitlyChanced g),
     EqualChanced := remove_first (ucast child_pool_id) (EqualChanced g)\<rparr>"

definition remove_link :: "u32 \<Rightarrow> u32 \<Rightarrow> 'f pool_mgr \<Rightarrow> 'f pool_mgr" where
  "remove_link mother child m =
    (let g = (case mPoolPoolGroups m mother of Some g \<Rightarrow> g | None \<Rightarrow> PoolGroup_new) in
     m\<lparr>mPoolPoolGroups := (mPoolPoolGroups m)(mother \<mapsto> RemoveOneRelation child g),
       mPoolSearchMap := (mPoolSearchMap m)(ucast child := None)\<rparr>)"

text \<open>
  The walk from a pool over its mothers, up to the first broken link: \<open>child\<close> is the key of \<open>poolItr\<close>,
  \<open>mother\<close> its value.
\<close>

function check_links :: "u32 set \<Rightarrow> u32 \<Rightarrow> 'f pool_mgr \<Rightarrow> 'f pool_mgr" where
  "check_links checkedPools child m =
    (case mPoolSearchMap m (ucast child) of
       None \<Rightarrow> m
     | Some mother \<Rightarrow>
         let m1 = (if MapId (template_at m child) \<noteq> -1 \<and> MapId (template_at m mother) = -1
                   then set_MapId mother (MapId (template_at m child)) m else m) in
         if MapId (template_at m child) \<noteq> -1 \<and> MapId (template_at m1 mother) \<noteq> MapId (template_at m1 child)
         then remove_link mother child m1
         else if mother \<in> insert child checkedPools then remove_link mother child m1
         else check_links (insert child checkedPools) mother m1)"
  by pat_completeness auto
termination
proof (relation "measure (\<lambda>(checked, child, m). 2 * card (UNIV - checked) + (if child \<in> checked then 1 else 0))")
  fix checked :: "u32 set" and child mother :: u32
  assume "mother \<notin> insert child checked"
  moreover have "child \<notin> checked \<Longrightarrow> card (UNIV - insert child checked) < card (UNIV - checked)"
    by (rule psubset_card_mono) auto
  ultimately show "((insert child checked, mother, m1), checked, child, m) \<in>
      measure (\<lambda>(checked, child, m). 2 * card (UNIV - checked) + (if child \<in> checked then 1 else 0))"
    for m1 m :: "'f pool_mgr"
    by (auto simp: insert_absorb)
qed simp

declare check_links.simps [simp del]

definition check_all_links :: "u32 list \<Rightarrow> 'f pool_mgr \<Rightarrow> 'f pool_mgr" where
  "check_all_links ids m = fold (check_links {}) ids m"

subsection \<open>The whole load\<close>

fun assert_maps :: "'f pool_mgr \<Rightarrow> u32 list \<Rightarrow> bool option" where
  "assert_maps m [] = Some True"
| "assert_maps m (poolId # ids) =
    do { b \<leftarrow> IsEmpty m poolId;
         if b \<or> MapId (template_at m poolId) \<noteq> -1 then assert_maps m ids else None }"

fun load_start :: "'f::{zero,plus,ord} \<Rightarrow> (u32 \<times> u64) list \<Rightarrow> 'f pool_mgr \<Rightarrow> 'f pool_mgr option" where
  "load_start hundred [] m = Some m"
| "load_start hundred ((pool_entry, spawnId) # rows) m =
    do {
      b \<leftarrow> IsEmpty m pool_entry;
      load_start hundred rows
        (if b \<or> \<not> CheckPool hundred m pool_entry \<or> (ucast spawnId :: u32) \<noteq> 0 then m
         else let mapId = of_int (MapId (template_at m pool_entry));
                  ids = (case mAutoSpawnPoolsPerMap m mapId of Some ids \<Rightarrow> ids | None \<Rightarrow> [])
              in m\<lparr>mAutoSpawnPoolsPerMap := (mAutoSpawnPoolsPerMap m)(mapId \<mapsto> ids @ [pool_entry])\<rparr>)
    }"

text \<open>The tables of members, before the links are checked.\<close>

definition load_members :: "'f::{zero,abs,ord} \<Rightarrow> 'f pool_db \<Rightarrow> 'f pool_mgr \<Rightarrow> 'f pool_mgr" where
  "load_members hundred db m = fold (load_pool hundred) (pool_rows db)
     (fold (load_member GameObjectKind hundred (map_of_gameobject db)) (gameobject_rows db)
       (fold (load_member CreatureKind hundred (map_of_creature db)) (creature_rows db)
         (fold load_template (template_rows db) m)))"

definition PoolMgr_LoadFromDB :: "'f::{zero,plus,abs,ord} \<Rightarrow> 'f pool_db \<Rightarrow> 'f pool_mgr \<Rightarrow> 'f pool_mgr option" where
  "PoolMgr_LoadFromDB hundred db m =
    (if template_rows db = [] then Some (m\<lparr>mPoolTemplate := Map.empty\<rparr>)
     else let m = load_members hundred db m;
              m = (if pool_rows db = [] then m else check_all_links (template_walk db (mPoolTemplate m)) m)
       in do {
         _ \<leftarrow> assert_maps m (template_walk db (mPoolTemplate m));
         load_start hundred (start_rows db) m
       })"

end
