(* ===== verification/PoolSafe.thy ===== *)
theory PoolSafe
  imports PoolMgr
begin

text \<open>
  What holds of a map's spawned pools. \<open>pools_wf\<close> says what a loaded manager is like (every member in one
  pool, no cycles); \<open>counts_ok\<close> says that the number kept for each pool is the number of its members
  that are spawned. Spawning and despawning a pool return, keep the counts and touch only the pool and
  the pools below it (\<open>frame\<close>).
\<close>

section \<open>Well-formed managers\<close>

abbreviation all_objs :: "'f pool_group \<Rightarrow> 'f pool_object list" where
  "all_objs g \<equiv> EqualChanced g @ ExplicitlyChanced g"

definition members :: "'f pool_mgr \<Rightarrow> pool_kind \<Rightarrow> u32 \<Rightarrow> u64 set" where
  "members m k p = (case groups_of k m p of Some g \<Rightarrow> po_guid ` set (all_objs g) | None \<Rightarrow> {})"

definition child_of :: "'f pool_mgr \<Rightarrow> (u32 \<times> u32) set" where
  "child_of m = {(c, p). ucast c \<in> members m PoolKind p}"

definition pools_wf :: "'f pool_mgr \<Rightarrow> bool" where
  "pools_wf m \<longleftrightarrow>
    (\<forall>k p g. groups_of k m p = Some g \<longrightarrow> pg_poolId g = p \<and> distinct (map po_guid (all_objs g))) \<and>
    (\<forall>k p q x. x \<in> members m k p \<longrightarrow> x \<in> members m k q \<longrightarrow> p = q) \<and>
    (\<forall>k p. 0 \<notin> members m k p) \<and>
    (\<forall>p x. x \<in> members m PoolKind p \<longrightarrow> p \<noteq> 0 \<and> (\<exists>c :: u32. x = ucast c)) \<and>
    (\<forall>x p. mPoolSearchMap m x = Some p \<longleftrightarrow> x \<in> members m PoolKind p) \<and>
    acyclic (child_of m) \<and>
    (\<forall>p. unat (GetMaxLimit m p) < 2 ^ 31 - 1)"

text \<open>A pool and the pools below it.\<close>

definition below :: "'f pool_mgr \<Rightarrow> u32 \<Rightarrow> u32 set" where
  "below m p = {q. (q, p) \<in> (child_of m)\<^sup>*}"

lemma ucast_pool [simp]: "(ucast (ucast (c :: u32) :: u64) :: u32) = c"
  by (rule bit_word_eqI) (auto simp: bit_simps)

lemma ucast_pool_inj [simp]: "((ucast (a :: u32) :: u64) = ucast b) = (a = b)"
  by (metis ucast_pool)

lemma below_self [simp]: "p \<in> below m p"
  by (simp add: below_def)

lemma below_child: "(c, p) \<in> child_of m \<Longrightarrow> below m c \<subseteq> below m p"
  by (auto simp: below_def intro: rtrancl_into_rtrancl)

lemma child_in_below: "(c, p) \<in> child_of m \<Longrightarrow> c \<in> below m p"
  by (auto simp: below_def)

lemma mother_not_below:
  assumes "pools_wf m" and "(c, p) \<in> child_of m"
  shows "p \<notin> below m c"
proof
  assume "p \<in> below m c"
  then have "(p, c) \<in> (child_of m)\<^sup>*" by (simp add: below_def)
  with assms(2) have "(p, p) \<in> (child_of m)\<^sup>+" by simp
  with assms(1) show False by (auto simp: pools_wf_def acyclic_def)
qed

lemma one_mother: "pools_wf m \<Longrightarrow> (c, p) \<in> child_of m \<Longrightarrow> (c, q) \<in> child_of m \<Longrightarrow> p = q"
  unfolding pools_wf_def child_of_def by blast

lemma sibling_not_below:
  assumes wf: "pools_wf m" and c: "(c, p) \<in> child_of m" and d: "(d, p) \<in> child_of m" and "c \<noteq> d"
  shows "d \<notin> below m c"
proof
  assume "d \<in> below m c"
  then have "(d, c) \<in> (child_of m)\<^sup>*" by (simp add: below_def)
  with \<open>c \<noteq> d\<close> obtain q where "(d, q) \<in> child_of m" and "(q, c) \<in> (child_of m)\<^sup>*"
    by (metis converse_rtranclE)
  with one_mother [OF wf d] mother_not_below [OF wf c] show False by (simp add: below_def)
qed

lemma wf_child_of: "pools_wf m \<Longrightarrow> wf (child_of m)"
  by (rule finite_acyclic_wf) (simp_all add: pools_wf_def)

section \<open>Counts\<close>

instance pool_kind :: finite
proof
  have "UNIV = {CreatureKind, GameObjectKind, PoolKind}" using pool_kind.exhaust by auto
  then show "finite (UNIV :: pool_kind set)" by (metis finite.simps)
qed

abbreviation spawned_of :: "spawned_pool_data \<Rightarrow> u32 \<Rightarrow> nat" where
  "spawned_of sp p \<equiv> unat (GetSpawnedObjects sp p)"

definition spawned_set :: "'f pool_mgr \<Rightarrow> spawned_pool_data \<Rightarrow> u32 \<Rightarrow> (pool_kind \<times> u64) set" where
  "spawned_set m sp p = {(k, x). x \<in> members m k p \<and> IsSpawnedObject sp k x}"

definition counts_ok :: "'f pool_mgr \<Rightarrow> spawned_pool_data \<Rightarrow> bool" where
  "counts_ok m sp \<longleftrightarrow> (\<forall>p. spawned_of sp p = card (spawned_set m sp p))"

text \<open>A pool that is a member of another is marked as spawned.\<close>

definition live :: "'f pool_mgr \<Rightarrow> spawned_pool_data \<Rightarrow> u32 \<Rightarrow> bool" where
  "live m sp p \<longleftrightarrow> (\<forall>q. (p, q) \<in> child_of m \<longrightarrow> IsSpawnedObject sp PoolKind (ucast p))"

lemma member_pool:
  assumes "pools_wf m" and "x \<in> members m PoolKind p"
  obtains c where "x = ucast c" and "(c, p) \<in> child_of m" and "c \<noteq> p"
proof -
  from assms obtain c :: u32 where x: "x = ucast c" unfolding pools_wf_def by blast
  with assms(2) have "(c, p) \<in> child_of m" by (simp add: child_of_def)
  with mother_not_below [OF assms(1)] have "c \<noteq> p" by fastforce
  with x \<open>(c, p) \<in> child_of m\<close> show ?thesis by (rule that)
qed

lemma IsSpawnedObject_pools [simp]:
  "IsSpawnedObject (sp\<lparr>mSpawnedPools := f\<rparr>) k x = (if k = PoolKind then f x \<noteq> None else IsSpawnedObject sp k x)"
  by (cases k) auto

lemma IsSpawnedObject_AddSpawn:
  "IsSpawnedObject (AddSpawn k x p sp) k' y \<longleftrightarrow>
    (k' = k \<and> y = x) \<or> IsSpawnedObject sp k' y \<or> (k' = PoolKind \<and> y = ucast p)"
  by (cases k; cases k') (auto simp: inc_spawned_def)

lemma IsSpawnedObject_RemoveSpawn:
  "IsSpawnedObject (RemoveSpawn k x p sp) k' y \<longleftrightarrow>
    (IsSpawnedObject sp k' y \<and> \<not> (k' = k \<and> y = x)) \<or> (k' = PoolKind \<and> y = ucast p)"
  by (cases k; cases k') (auto simp: dec_spawned_def Let_def)

lemma GetSpawnedObjects_AddSpawn:
  assumes "pools_wf m" and "x \<in> members m k p" and "\<not> IsSpawnedObject sp k x"
  shows "GetSpawnedObjects (AddSpawn k x p sp) q =
    (if q = p then GetSpawnedObjects sp p + 1 else GetSpawnedObjects sp q)"
proof (cases k)
  case PoolKind
  with assms(1,2) obtain c where "x = ucast c" and "c \<noteq> p" by (auto elim: member_pool)
  with PoolKind assms(3) show ?thesis by (auto simp: inc_spawned_def GetSpawnedObjects_def)
qed (auto simp: inc_spawned_def GetSpawnedObjects_def)

lemma GetSpawnedObjects_RemoveSpawn:
  assumes "pools_wf m" and "x \<in> members m k p" and "k = PoolKind \<Longrightarrow> GetSpawnedObjects sp (ucast x) = 0"
  shows "GetSpawnedObjects (RemoveSpawn k x p sp) q =
    (if q = p then GetSpawnedObjects sp p - (if GetSpawnedObjects sp p > 0 then 1 else 0)
     else GetSpawnedObjects sp q)"
proof (cases k)
  case PoolKind
  with assms(1,2) obtain c where "x = ucast c" and "c \<noteq> p" by (auto elim: member_pool)
  with PoolKind assms(3) show ?thesis
    by (auto simp: dec_spawned_def GetSpawnedObjects_def Let_def)
qed (auto simp: dec_spawned_def GetSpawnedObjects_def Let_def)

lemma spawned_member_positive:
  "counts_ok m sp \<Longrightarrow> x \<in> members m k p \<Longrightarrow> IsSpawnedObject sp k x \<Longrightarrow> 0 < spawned_of sp p"
  by (auto simp: counts_ok_def spawned_set_def card_gt_0_iff)

lemma no_count_no_member:
  "counts_ok m sp \<Longrightarrow> GetSpawnedObjects sp p = 0 \<Longrightarrow> x \<in> members m k p \<Longrightarrow> \<not> IsSpawnedObject sp k x"
  using spawned_member_positive [of m sp x k p] by auto

lemma spawned_is_live: "0 < spawned_of sp p \<Longrightarrow> IsSpawnedObject sp PoolKind (ucast p)"
  by (auto simp: GetSpawnedObjects_def split: option.splits)

lemma AddSpawn_counts:
  assumes wf: "pools_wf m" and c: "counts_ok m sp" and x: "x \<in> members m k p"
    and new: "\<not> IsSpawnedObject sp k x" and room: "spawned_of sp p + 1 < 2 ^ 32" and l: "live m sp p"
  shows "counts_ok m (AddSpawn k x p sp)"
    and "spawned_of (AddSpawn k x p sp) q = (if q = p then spawned_of sp p + 1 else spawned_of sp q)"
proof -
  have "unat (GetSpawnedObjects sp p + 1) = spawned_of sp p + 1"
    using room by (simp add: unat_word_ariths)
  then show n: "spawned_of (AddSpawn k x p sp) q = (if q = p then spawned_of sp p + 1 else spawned_of sp q)" for q
    by (simp add: GetSpawnedObjects_AddSpawn [OF wf x new])
  have mark: "k' = PoolKind \<and> y = ucast p \<Longrightarrow> y \<in> members m k' q \<Longrightarrow> IsSpawnedObject sp k' y" for k' y q
    using l by (auto simp: live_def child_of_def)
  have "spawned_set m (AddSpawn k x p sp) q =
      (if q = p then insert (k, x) (spawned_set m sp q) else spawned_set m sp q)" for q
    using x wf mark by (auto simp: spawned_set_def IsSpawnedObject_AddSpawn pools_wf_def)
  moreover have "(k, x) \<notin> spawned_set m sp p" using new by (simp add: spawned_set_def)
  ultimately show "counts_ok m (AddSpawn k x p sp)"
    using c n by (simp add: counts_ok_def)
qed

lemma RemoveSpawn_counts:
  assumes wf: "pools_wf m" and c: "counts_ok m sp" and x: "x \<in> members m k p"
    and old: "IsSpawnedObject sp k x" and z: "k = PoolKind \<Longrightarrow> GetSpawnedObjects sp (ucast x) = 0"
  shows "counts_ok m (RemoveSpawn k x p sp)"
    and "spawned_of (RemoveSpawn k x p sp) q = (if q = p then spawned_of sp p - 1 else spawned_of sp q)"
proof -
  have pos: "0 < spawned_of sp p" by (rule spawned_member_positive [OF c x old])
  then have "GetSpawnedObjects sp p > 0" by (simp add: word_gt_0 unat_gt_0)
  moreover from pos have "unat (GetSpawnedObjects sp p - 1) = spawned_of sp p - 1"
    by (simp add: unat_minus_one word_gt_0 unat_gt_0)
  ultimately show n: "spawned_of (RemoveSpawn k x p sp) q = (if q = p then spawned_of sp p - 1 else spawned_of sp q)" for q
    by (simp add: GetSpawnedObjects_RemoveSpawn [OF wf x z])
  have mark: "k' = PoolKind \<and> y = ucast p \<Longrightarrow> IsSpawnedObject sp k' y" for k' y
    using spawned_is_live [OF pos] by auto
  have np: "k = PoolKind \<Longrightarrow> x \<noteq> ucast p"
    using wf x by (auto elim!: member_pool)
  have "spawned_set m (RemoveSpawn k x p sp) q =
      (if q = p then spawned_set m sp q - {(k, x)} else spawned_set m sp q)" for q
    using x wf mark np by (auto simp: spawned_set_def IsSpawnedObject_RemoveSpawn pools_wf_def)
  moreover have "(k, x) \<in> spawned_set m sp p" using old x by (simp add: spawned_set_def)
  ultimately show "counts_ok m (RemoveSpawn k x p sp)"
    using c n by (simp add: counts_ok_def)
qed

section \<open>What an operation may touch\<close>

definition frame :: "'f pool_mgr \<Rightarrow> u32 \<Rightarrow> spawned_pool_data \<Rightarrow> spawned_pool_data \<Rightarrow> bool" where
  "frame m p sp sp' \<longleftrightarrow>
    (\<forall>q. q \<notin> below m p \<longrightarrow> mSpawnedPools sp' (ucast q) = mSpawnedPools sp (ucast q) \<and>
      (\<forall>k x. k \<noteq> PoolKind \<longrightarrow> x \<in> members m k q \<longrightarrow> IsSpawnedObject sp' k x = IsSpawnedObject sp k x)) \<and>
    (mSpawnedPools sp (ucast p) \<noteq> None \<longrightarrow> mSpawnedPools sp' (ucast p) \<noteq> None)"

lemma frame_refl [simp]: "frame m p sp sp"
  by (simp add: frame_def)

lemma frame_trans: "frame m p a b \<Longrightarrow> frame m p b c \<Longrightarrow> frame m p a c"
  by (simp add: frame_def)

lemma frame_outside:
  assumes "frame m p a b" and "q \<notin> below m p"
  shows "mSpawnedPools b (ucast q) = mSpawnedPools a (ucast q)"
    and "k \<noteq> PoolKind \<Longrightarrow> x \<in> members m k q \<Longrightarrow> IsSpawnedObject b k x = IsSpawnedObject a k x"
  using assms unfolding frame_def by blast+

lemma frame_child:
  assumes "pools_wf m" and "(c, p) \<in> child_of m" and f: "frame m c a b"
  shows "frame m p a b"
proof -
  have "q \<notin> below m c" if "q \<notin> below m p" for q
    using that below_child [OF assms(2)] by blast
  with frame_outside [OF f]
  have "mSpawnedPools b (ucast q) = mSpawnedPools a (ucast q)"
    and "k \<noteq> PoolKind \<Longrightarrow> x \<in> members m k q \<Longrightarrow> IsSpawnedObject b k x = IsSpawnedObject a k x"
    if "q \<notin> below m p" for q k x using that by blast+
  moreover have "mSpawnedPools b (ucast p) = mSpawnedPools a (ucast p)"
    by (rule frame_outside [OF f mother_not_below [OF assms(1,2)]])
  ultimately show ?thesis unfolding frame_def by simp
qed

lemma frame_count: "frame m p a b \<Longrightarrow> q \<notin> below m p \<Longrightarrow> GetSpawnedObjects b q = GetSpawnedObjects a q"
  by (simp add: frame_def GetSpawnedObjects_def)

lemma frame_live: "frame m p a b \<Longrightarrow> live m a p \<Longrightarrow> live m b p"
  by (auto simp: frame_def live_def)

lemma frame_AddSpawn:
  assumes wf: "pools_wf m" and x: "x \<in> members m k p"
  shows "frame m p sp (AddSpawn k x p sp)"
proof -
  have "x \<noteq> ucast q" if "k = PoolKind" and "q \<notin> below m p" for q
    using that wf x by (auto elim!: member_pool dest: child_in_below)
  then have "mSpawnedPools (AddSpawn k x p sp) (ucast q) = mSpawnedPools sp (ucast q)" if "q \<notin> below m p" for q
    using that by (cases k) (auto simp: inc_spawned_def)
  moreover have "k' \<noteq> k \<or> y \<noteq> x" if "y \<in> members m k' q" and "q \<notin> below m p" for k' y q
    using that wf x below_self unfolding pools_wf_def by metis
  then have "IsSpawnedObject (AddSpawn k x p sp) k' y = IsSpawnedObject sp k' y"
    if "k' \<noteq> PoolKind" and "y \<in> members m k' q" and "q \<notin> below m p" for k' y q
    using that unfolding IsSpawnedObject_AddSpawn by blast
  moreover have "mSpawnedPools (AddSpawn k x p sp) (ucast p) \<noteq> None"
    by (cases k) (simp_all add: inc_spawned_def)
  ultimately show ?thesis unfolding frame_def by blast
qed

lemma frame_RemoveSpawn:
  assumes wf: "pools_wf m" and x: "x \<in> members m k p"
  shows "frame m p sp (RemoveSpawn k x p sp)"
proof -
  have "x \<noteq> ucast q" if "k = PoolKind" and "q \<notin> below m p" for q
    using that wf x by (auto elim!: member_pool dest: child_in_below)
  then have "mSpawnedPools (RemoveSpawn k x p sp) (ucast q) = mSpawnedPools sp (ucast q)" if "q \<notin> below m p" for q
    using that by (cases k) (auto simp: dec_spawned_def Let_def)
  moreover have "k' \<noteq> k \<or> y \<noteq> x" if "y \<in> members m k' q" and "q \<notin> below m p" for k' y q
    using that wf x below_self unfolding pools_wf_def by metis
  then have "IsSpawnedObject (RemoveSpawn k x p sp) k' y = IsSpawnedObject sp k' y"
    if "k' \<noteq> PoolKind" and "y \<in> members m k' q" and "q \<notin> below m p" for k' y q
    using that unfolding IsSpawnedObject_RemoveSpawn by blast
  moreover have "mSpawnedPools (RemoveSpawn k x p sp) (ucast p) \<noteq> None"
    by (cases k) (simp_all add: dec_spawned_def Let_def)
  ultimately show ?thesis unfolding frame_def by blast
qed

section \<open>Despawning\<close>

text \<open>No member is spawned that was not before.\<close>

definition fewer :: "'f pool_mgr \<Rightarrow> spawned_pool_data \<Rightarrow> spawned_pool_data \<Rightarrow> bool" where
  "fewer m sp sp' \<longleftrightarrow> (\<forall>k q x. x \<in> members m k q \<longrightarrow> IsSpawnedObject sp' k x \<longrightarrow> IsSpawnedObject sp k x)"

lemma fewer_refl [simp]: "fewer m sp sp"
  by (simp add: fewer_def)

lemma fewer_trans: "fewer m a b \<Longrightarrow> fewer m b c \<Longrightarrow> fewer m a c"
  unfolding fewer_def by blast

lemma fewer_count:
  assumes "fewer m a b" and "counts_ok m a" and "counts_ok m b"
  shows "spawned_of b q \<le> spawned_of a q"
proof -
  have "spawned_set m b q \<subseteq> spawned_set m a q"
    using assms(1) by (auto simp: fewer_def spawned_set_def)
  then show ?thesis using assms(2,3) by (simp add: counts_ok_def card_mono)
qed

lemma fewer_count_less:
  assumes "fewer m a b" and "counts_ok m a" and "counts_ok m b"
    and "x \<in> members m k q" and "IsSpawnedObject a k x" and "\<not> IsSpawnedObject b k x"
  shows "spawned_of b q < spawned_of a q"
proof -
  have "spawned_set m b q \<subset> spawned_set m a q"
    using assms(1,4-6) by (auto simp: fewer_def spawned_set_def)
  then show ?thesis using assms(2,3) by (simp add: counts_ok_def psubset_card_mono)
qed

lemma fewer_RemoveSpawn:
  assumes "counts_ok m sp" and "x \<in> members m k p" and "IsSpawnedObject sp k x"
  shows "fewer m sp (RemoveSpawn k x p sp)"
  using spawned_is_live [OF spawned_member_positive [OF assms]]
  by (auto simp: fewer_def IsSpawnedObject_RemoveSpawn)

text \<open>A pool without spawned members has none below it either.\<close>

lemma quiet_below:
  assumes wf: "pools_wf m" and c: "counts_ok m sp" and z: "GetSpawnedObjects sp p = 0" and "q \<in> below m p"
  shows "GetSpawnedObjects sp q = 0"
proof -
  from assms(4) have "(q, p) \<in> (child_of m)\<^sup>*" by (simp add: below_def)
  then show ?thesis
  proof (induction rule: converse_rtrancl_induct)
    case (step c' q')
    then have "ucast c' \<in> members m PoolKind q'" by (simp add: child_of_def)
    with no_count_no_member [OF c step.IH] have "mSpawnedPools sp (ucast c') = None" by force
    then show ?case by (simp add: GetSpawnedObjects_def)
  qed (rule z)
qed

definition despawn1_ok :: "'f pool_mgr \<Rightarrow> pool_kind \<Rightarrow> u32 \<Rightarrow> (u64 \<Rightarrow> bool \<Rightarrow> pool_state \<Rightarrow> pool_state option) \<Rightarrow> bool" where
  "despawn1_ok m k p d1 \<longleftrightarrow> (\<forall>x \<in> members m k p. \<forall>b s. counts_ok m (ps_spawns s) \<longrightarrow>
    (\<exists>s'. d1 x b s = Some s' \<and> counts_ok m (ps_spawns s') \<and> fewer m (ps_spawns s) (ps_spawns s') \<and>
      (if k = PoolKind
       then frame m (ucast x) (ps_spawns s) (ps_spawns s') \<and>
         (\<forall>q \<in> below m (ucast x). GetSpawnedObjects (ps_spawns s') q = 0)
       else ps_spawns s' = ps_spawns s)))"

definition despawned :: "'f pool_mgr \<Rightarrow> u32 \<Rightarrow> pool_state \<Rightarrow> pool_state \<Rightarrow> bool" where
  "despawned m p s s' \<longleftrightarrow> counts_ok m (ps_spawns s') \<and> fewer m (ps_spawns s) (ps_spawns s') \<and>
     frame m p (ps_spawns s) (ps_spawns s')"

lemma despawned_trans: "despawned m p a b \<Longrightarrow> despawned m p b c \<Longrightarrow> despawned m p a c"
  unfolding despawned_def using fewer_trans frame_trans by blast

lemma RemoveRespawnTimeFromDB_spawns [simp]: "ps_spawns (RemoveRespawnTimeFromDB k g s) = ps_spawns s"
  by (simp add: RemoveRespawnTimeFromDB_def pm_emit_def)

lemma despawn1_step:
  assumes wf: "pools_wf m" and d: "despawn1_ok m k p d1" and x: "x \<in> members m k p"
    and c: "counts_ok m (ps_spawns s)" and sp: "IsSpawnedObject (ps_spawns s) k x"
  obtains s' where "d1 x b s = Some s'"
    and "despawned m p s (s'\<lparr>ps_spawns := RemoveSpawn k x p (ps_spawns s')\<rparr>)"
    and "\<not> IsSpawnedObject (RemoveSpawn k x p (ps_spawns s')) k x"
proof -
  from d x c obtain s' where s': "d1 x b s = Some s'" "counts_ok m (ps_spawns s')"
      "fewer m (ps_spawns s) (ps_spawns s')"
    and k: "if k = PoolKind then frame m (ucast x) (ps_spawns s) (ps_spawns s') \<and>
         (\<forall>q \<in> below m (ucast x). GetSpawnedObjects (ps_spawns s') q = 0)
       else ps_spawns s' = ps_spawns s"
    unfolding despawn1_ok_def by blast
  have "frame m p (ps_spawns s) (ps_spawns s') \<and> IsSpawnedObject (ps_spawns s') k x \<and> x \<noteq> ucast p"
    if "k = PoolKind"
  proof -
    from that wf x obtain c where c: "x = ucast c" "(c, p) \<in> child_of m" "c \<noteq> p" by (auto elim: member_pool)
    with k that have f: "frame m c (ps_spawns s) (ps_spawns s')" by simp
    with sp that c(1) have "IsSpawnedObject (ps_spawns s') k x" by (simp add: frame_def)
    with frame_child [OF wf c(2) f] c show ?thesis by simp
  qed
  with k sp have f: "frame m p (ps_spawns s) (ps_spawns s')" and sp': "IsSpawnedObject (ps_spawns s') k x"
    and np: "k = PoolKind \<Longrightarrow> x \<noteq> ucast p" by (cases "k = PoolKind"; simp)+
  have z: "k = PoolKind \<Longrightarrow> GetSpawnedObjects (ps_spawns s') (ucast x) = 0" using k by simp
  show thesis
  proof (rule that [OF s'(1)])
    show "despawned m p s (s'\<lparr>ps_spawns := RemoveSpawn k x p (ps_spawns s')\<rparr>)"
      using RemoveSpawn_counts(1) [OF wf s'(2) x sp' z] fewer_trans [OF s'(3) fewer_RemoveSpawn [OF s'(2) x sp']]
        frame_trans [OF f frame_RemoveSpawn [OF wf x]]
      by (simp add: despawned_def)
    show "\<not> IsSpawnedObject (RemoveSpawn k x p (ps_spawns s')) k x"
      using np by (auto simp: IsSpawnedObject_RemoveSpawn)
  qed
qed

lemma despawn_list_ok:
  assumes wf: "pools_wf m" and d: "despawn1_ok m k p d1"
  shows "counts_ok m (ps_spawns s) \<Longrightarrow> po_guid ` set objs \<subseteq> members m k p \<Longrightarrow>
    \<exists>s'. despawn_list d1 k p guid b objs s = Some s' \<and> despawned m p s s' \<and>
      (\<forall>obj \<in> set objs. guid = 0 \<or> po_guid obj = guid \<longrightarrow> \<not> IsSpawnedObject (ps_spawns s') k (po_guid obj))"
proof (induction objs arbitrary: s)
  case (Cons obj objs)
  let ?x = "po_guid obj"
  from Cons.prems have x: "?x \<in> members m k p" and rest: "po_guid ` set objs \<subseteq> members m k p" by auto
  obtain s1 where s1: "despawn_list d1 k p guid b (obj # objs) s = despawn_list d1 k p guid b objs s1"
    and r: "despawned m p s s1"
    and u: "guid = 0 \<or> ?x = guid \<Longrightarrow> \<not> IsSpawnedObject (ps_spawns s1) k ?x"
  proof (cases "IsSpawnedObject (ps_spawns s) k ?x \<and> (guid = 0 \<or> ?x = guid)")
    case True
    then obtain s' where "d1 ?x b s = Some s'"
      and "despawned m p s (s'\<lparr>ps_spawns := RemoveSpawn k ?x p (ps_spawns s')\<rparr>)"
      and "\<not> IsSpawnedObject (RemoveSpawn k ?x p (ps_spawns s')) k ?x"
      using despawn1_step [OF wf d x Cons.prems(1)] by blast
    with True show ?thesis
      by (intro that [of "s'\<lparr>ps_spawns := RemoveSpawn k ?x p (ps_spawns s')\<rparr>"]) auto
  next
    case False
    then show ?thesis using Cons.prems(1)
      by (intro that [of "if \<not> IsSpawnedObject (ps_spawns s) k ?x \<and> b
          then RemoveRespawnTimeFromDB k ?x s else s"]) (auto simp: despawned_def)
  qed
  from Cons.IH [OF _ rest, of s1] r obtain s' where s': "despawn_list d1 k p guid b objs s1 = Some s'"
    "despawned m p s1 s'"
    and v: "\<forall>obj \<in> set objs. guid = 0 \<or> po_guid obj = guid \<longrightarrow> \<not> IsSpawnedObject (ps_spawns s') k (po_guid obj)"
    by (auto simp: despawned_def)
  have "\<not> IsSpawnedObject (ps_spawns s') k ?x" if "guid = 0 \<or> ?x = guid"
    using u [OF that] s'(2) x by (auto simp: despawned_def fewer_def)
  with v s1 s' despawned_trans [OF r s'(2)] show ?case by auto
qed (auto simp: despawned_def)

lemma members_group:
  "groups_of k m p = Some g \<Longrightarrow> members m k p = po_guid ` set (all_objs g)"
  by (simp add: members_def)

lemma wf_poolId: "pools_wf m \<Longrightarrow> groups_of k m p = Some g \<Longrightarrow> pg_poolId g = p"
  by (simp add: pools_wf_def)

lemma wf_distinct: "pools_wf m \<Longrightarrow> groups_of k m p = Some g \<Longrightarrow> distinct (map po_guid (all_objs g))"
  unfolding pools_wf_def by (elim conjE allE [of _ k] allE [of _ p] allE [of _ g]) simp

lemma DespawnObject_ok:
  assumes wf: "pools_wf m" and d: "despawn1_ok m k p d1" and g: "groups_of k m p = Some g"
    and c: "counts_ok m (ps_spawns s)"
  shows "\<exists>s'. DespawnObject d1 k g guid b s = Some s' \<and> despawned m p s s' \<and>
    (\<forall>x \<in> members m k p. guid = 0 \<or> x = guid \<longrightarrow> \<not> IsSpawnedObject (ps_spawns s') k x)"
proof -
  have sub: "po_guid ` set (EqualChanced g) \<subseteq> members m k p" "po_guid ` set (ExplicitlyChanced g) \<subseteq> members m k p"
    using g by (auto simp: members_group)
  obtain s1 where s1: "despawn_list d1 k p guid b (EqualChanced g) s = Some s1" "despawned m p s s1"
    and u: "\<forall>obj \<in> set (EqualChanced g). guid = 0 \<or> po_guid obj = guid \<longrightarrow> \<not> IsSpawnedObject (ps_spawns s1) k (po_guid obj)"
    using despawn_list_ok [OF wf d c sub(1)] by blast
  then have "counts_ok m (ps_spawns s1)" by (simp add: despawned_def)
  from despawn_list_ok [OF wf d this sub(2)] obtain s2 where
    s2: "despawn_list d1 k p guid b (ExplicitlyChanced g) s1 = Some s2" "despawned m p s1 s2"
    and v: "\<forall>obj \<in> set (ExplicitlyChanced g). guid = 0 \<or> po_guid obj = guid \<longrightarrow> \<not> IsSpawnedObject (ps_spawns s2) k (po_guid obj)"
    by blast
  have "\<forall>x \<in> members m k p. IsSpawnedObject (ps_spawns s2) k x \<longrightarrow> IsSpawnedObject (ps_spawns s1) k x"
    using s2(2) by (auto simp: despawned_def fewer_def)
  with u v have "\<forall>x \<in> members m k p. guid = 0 \<or> x = guid \<longrightarrow> \<not> IsSpawnedObject (ps_spawns s2) k x"
    using sub g by (auto simp: members_group)
  with s1 s2 despawned_trans [OF s1(2) s2(2)] wf_poolId [OF wf g] show ?thesis
    by (simp add: DespawnObject_def)
qed

lemma despawn_group_ok:
  assumes wf: "pools_wf m" and d: "despawn1_ok m k p d1" and c: "counts_ok m (ps_spawns s)"
  shows "\<exists>s'. despawn_group d1 k m p b s = Some s' \<and> despawned m p s s' \<and>
    (\<forall>x \<in> members m k p. \<not> IsSpawnedObject (ps_spawns s') k x)"
proof (cases "groups_of k m p")
  case None
  then show ?thesis using c by (simp add: despawn_group_def members_def despawned_def)
next
  case (Some g)
  show ?thesis
  proof (cases "pg_isEmpty g")
    case True
    with Some c show ?thesis by (simp add: despawn_group_def members_def despawned_def pg_isEmpty_def)
  next
    case False
    with Some DespawnObject_ok [OF wf d Some c, where guid = 0 and b = b] show ?thesis
      by (simp add: despawn_group_def)
  qed
qed

lemma despawn_objects_spawns [simp]: "ps_spawns (despawn_objects k b objs s) = ps_spawns s"
  by (induction k b objs s rule: despawn_objects.induct) (simp_all add: pm_emit_def)

lemma Despawn1Object_spawns [simp]: "ps_spawns (Despawn1Object env k g b c s) = ps_spawns s"
  by (simp add: Despawn1Object_def pm_emit_def Let_def)

lemma despawn1_is_ok: "k \<noteq> PoolKind \<Longrightarrow> despawn1_ok m k p (despawn1 env k)"
  by (simp add: despawn1_ok_def despawn1_def)

text \<open>Despawning a pool returns and leaves nothing of it and of the pools below it spawned.\<close>

lemma DespawnPool_ok:
  assumes wf: "pools_wf m"
  shows "counts_ok m (ps_spawns s) \<Longrightarrow> \<exists>s'. DespawnPool env m p b s = Some s' \<and> despawned m p s s' \<and>
    (\<forall>q \<in> below m p. GetSpawnedObjects (ps_spawns s') q = 0)"
  using wf_child_of [OF wf]
proof (induction p arbitrary: b s rule: wf_induct_rule)
  case (less p)
  let ?d1 = "\<lambda>child b s. DespawnPool env m (ucast child) b s"
  have d1: "despawn1_ok m PoolKind p ?d1"
  proof (unfold despawn1_ok_def, intro ballI allI impI)
    fix x b and s :: pool_state
    assume "x \<in> members m PoolKind p" and c: "counts_ok m (ps_spawns s)"
    with wf obtain c where c': "x = ucast c" "(c, p) \<in> child_of m" by (auto elim: member_pool)
    from less.IH [OF c'(2) c, of b] c'(1)
    show "\<exists>s'. ?d1 x b s = Some s' \<and> counts_ok m (ps_spawns s') \<and> fewer m (ps_spawns s) (ps_spawns s') \<and>
      (if PoolKind = PoolKind then frame m (ucast x) (ps_spawns s) (ps_spawns s') \<and>
         (\<forall>q \<in> below m (ucast x). GetSpawnedObjects (ps_spawns s') q = 0)
       else ps_spawns s' = ps_spawns s)"
      by (auto simp: despawned_def)
  qed
  obtain s1 where s1: "despawn_group (despawn1 env CreatureKind) CreatureKind m p b s = Some s1"
      "despawned m p s s1" and u1: "\<forall>x \<in> members m CreatureKind p. \<not> IsSpawnedObject (ps_spawns s1) CreatureKind x"
    using despawn_group_ok [OF wf despawn1_is_ok less.prems] by blast
  then have c1: "counts_ok m (ps_spawns s1)" by (simp add: despawned_def)
  obtain s2 where s2: "despawn_group (despawn1 env GameObjectKind) GameObjectKind m p b s1 = Some s2"
      "despawned m p s1 s2" and u2: "\<forall>x \<in> members m GameObjectKind p. \<not> IsSpawnedObject (ps_spawns s2) GameObjectKind x"
    using despawn_group_ok [OF wf despawn1_is_ok c1] by blast
  then have c2: "counts_ok m (ps_spawns s2)" by (simp add: despawned_def)
  obtain s3 where s3: "despawn_group ?d1 PoolKind m p b s2 = Some s3"
      "despawned m p s2 s3" and u3: "\<forall>x \<in> members m PoolKind p. \<not> IsSpawnedObject (ps_spawns s3) PoolKind x"
    using despawn_group_ok [OF wf d1 c2] by blast
  have c3: "counts_ok m (ps_spawns s3)" using s3 by (simp add: despawned_def)
  have "\<not> IsSpawnedObject (ps_spawns s3) k x" if "x \<in> members m k p" for k x
    using that u1 u2 u3 s2(2) s3(2) unfolding despawned_def fewer_def by (cases k) blast+
  then have "spawned_set m (ps_spawns s3) p = {}" by (auto simp: spawned_set_def)
  with c3 have "spawned_of (ps_spawns s3) p = 0" by (metis card.empty counts_ok_def)
  then have "GetSpawnedObjects (ps_spawns s3) p = 0" by (simp add: unat_eq_zero)
  then have "\<forall>q \<in> below m p. GetSpawnedObjects (ps_spawns s3) q = 0" using quiet_below [OF wf c3] by blast
  moreover have "DespawnPool env m p b s = Some s3"
    by (subst DespawnPool.simps) (simp add: s1 s2 s3)
  moreover have "despawned m p s s3"
    using s1(2) s2(2) s3(2) despawned_trans by blast
  ultimately show ?case by blast
qed

lemma despawn_of_ok:
  assumes wf: "pools_wf m"
  shows "despawn1_ok m k p (despawn_of env m k)"
proof (cases "k = PoolKind")
  case True
  then show ?thesis
    using DespawnPool_ok [OF wf] by (simp add: despawn1_ok_def despawn_of_def despawned_def)
qed (simp add: despawn_of_def despawn1_is_ok)

end
