(* ===== verification/PoolSpawn.thy ===== *)
theory PoolSpawn
  imports PoolSafe
begin

text \<open>
  Spawning: rolling selects distinct members that are not spawned (or the one that triggered the roll),
  spawning a pool returns and keeps the counts, and no number exceeds the limit of its pool, except
  by one where the trigger was not spawned.
\<close>

section \<open>Rolling\<close>

text \<open>The documented range of \<open>urand\<close>.\<close>

definition urand_ok :: "(nat \<Rightarrow> nat \<Rightarrow> nat \<Rightarrow> nat) \<Rightarrow> bool" where
  "urand_ok rnd \<longleftrightarrow> (\<forall>n lo hi. lo \<le> hi \<longrightarrow> lo \<le> rnd n lo hi \<and> rnd n lo hi \<le> hi)"

lemma resize_loop_set: "set (resize_loop rnd e xs n) \<subseteq> set xs"
  by (induction rnd e xs n rule: resize_loop.induct) auto

lemma resize_loop_distinct:
  "distinct (map f xs) \<Longrightarrow> distinct (map f (resize_loop rnd e xs n))"
  using resize_loop_set by (induction rnd e xs n rule: resize_loop.induct) fastforce+

lemma resize_loop_length:
  "urand_ok rnd \<Longrightarrow> e \<le> length xs \<Longrightarrow> length (resize_loop rnd e xs n) = e"
proof (induction rnd e xs n rule: resize_loop.induct)
  case (2 rnd e x xs n)
  then have r: "1 \<le> rnd n 1 (length (x # xs))" "rnd n 1 (length (x # xs)) \<le> length (x # xs)"
    unfolding urand_ok_def by simp_all
  show ?case
  proof (cases "rnd n 1 (length (x # xs)) \<le> e")
    case True
    with 2 r show ?thesis by auto
  next
    case False
    with r "2.prems" have "e \<le> length xs" by simp
    with False 2 show ?thesis by auto
  qed
qed simp

lemma RandomResize_set: "set (fst (RandomResize rnd xs k n)) \<subseteq> set xs"
  using resize_loop_set [of rnd k xs n] by (auto simp: RandomResize_def)

lemma RandomResize_distinct: "distinct (map f xs) \<Longrightarrow> distinct (map f (fst (RandomResize rnd xs k n)))"
  by (simp add: RandomResize_def resize_loop_distinct)

lemma RandomResize_length: "urand_ok rnd \<Longrightarrow> length (fst (RandomResize rnd xs k n)) = min k (length xs)"
  by (simp add: RandomResize_def resize_loop_length)

lemma roll_explicit_cases:
  "roll_explicit sp k t r objs = [] \<or>
   (\<exists>obj \<in> set objs. roll_explicit sp k t r objs = [obj] \<and> (po_guid obj = t \<or> \<not> IsSpawnedObject sp k (po_guid obj)))"
  by (induction sp k t r objs rule: roll_explicit.induct) (auto simp: Let_def)

definition candidates :: "spawned_pool_data \<Rightarrow> pool_kind \<Rightarrow> u64 \<Rightarrow> 'f pool_object list \<Rightarrow> 'f pool_object list" where
  "candidates sp k t objs = filter (\<lambda>obj. po_guid obj = t \<or> \<not> IsSpawnedObject sp k (po_guid obj)) objs"

lemma roll_objects_ok:
  assumes "urand_ok (urand_at env)" and "0 < num" and d: "distinct (map po_guid (all_objs g))"
    and r: "roll_objects env k g num t s = (rolled, s')"
  shows "ps_spawns s' = ps_spawns s" and "set rolled \<subseteq> set (all_objs g)" and "distinct (map po_guid rolled)"
    and "length rolled \<le> num"
    and "\<And>obj. obj \<in> set rolled \<Longrightarrow> po_guid obj = t \<or> \<not> IsSpawnedObject (ps_spawns s) k (po_guid obj)"
    and "ExplicitlyChanced g = [] \<Longrightarrow> length rolled = min num (length (candidates (ps_spawns s) k t (EqualChanced g)))"
proof -
  let ?sp = "ps_spawns s"
  define e where "e = (if ExplicitlyChanced g \<noteq> []
    then roll_explicit ?sp k t (rand_chance_at env (ps_draws s)) (ExplicitlyChanced g) else [])"
  define n where "n = (if ExplicitlyChanced g \<noteq> [] then ps_draws s + 1 else ps_draws s)"
  let ?c = "candidates ?sp k t (EqualChanced g)"
  have r': "rolled = (if EqualChanced g \<noteq> [] \<and> e = [] then fst (RandomResize (urand_at env) ?c num n) else e)"
    and "ps_spawns s' = ?sp"
    using r by (auto simp: roll_objects_def Let_def e_def n_def candidates_def split: prod.splits if_splits)
  show "ps_spawns s' = ?sp" by fact
  have e: "e = [] \<or> (\<exists>obj \<in> set (ExplicitlyChanced g). e = [obj] \<and> (po_guid obj = t \<or> \<not> IsSpawnedObject ?sp k (po_guid obj)))"
    using roll_explicit_cases [of ?sp k t "rand_chance_at env (ps_draws s)" "ExplicitlyChanced g"]
    by (simp add: e_def)
  have c: "set (fst (RandomResize (urand_at env) ?c num n)) \<subseteq> set ?c"
    by (rule RandomResize_set)
  have dc: "distinct (map po_guid ?c)" using d by (simp add: candidates_def distinct_map_filter)
  show "set rolled \<subseteq> set (all_objs g)" using e c by (auto simp: r' candidates_def)
  show "distinct (map po_guid rolled)" using e RandomResize_distinct [OF dc] by (auto simp: r')
  show "length rolled \<le> num"
    using e assms(1,2) by (auto simp: r' RandomResize_length)
  show "po_guid obj = t \<or> \<not> IsSpawnedObject ?sp k (po_guid obj)" if "obj \<in> set rolled" for obj
    using that e c by (auto simp: r' candidates_def split: if_splits)
  show "length rolled = min num (length ?c)" if "ExplicitlyChanced g = []"
    using that assms(1) by (auto simp: r' e_def RandomResize_length candidates_def)
qed

section \<open>Spawning what was rolled\<close>

definition grow :: "'f pool_mgr \<Rightarrow> spawned_pool_data \<Rightarrow> spawned_pool_data \<Rightarrow> u32 set \<Rightarrow> bool" where
  "grow m sp sp' S \<longleftrightarrow> (\<forall>q \<in> S. spawned_of sp' q \<le> max (spawned_of sp q) (unat (GetMaxLimit m q)))"

lemma grow_refl [simp]: "grow m sp sp S"
  by (simp add: grow_def)

lemma grow_trans: "grow m a b S \<Longrightarrow> grow m b c S \<Longrightarrow> grow m a c S"
  by (fastforce simp: grow_def)

definition kept_members :: "'f pool_mgr \<Rightarrow> u32 \<Rightarrow> spawned_pool_data \<Rightarrow> spawned_pool_data \<Rightarrow> bool" where
  "kept_members m p sp sp' \<longleftrightarrow> (\<forall>k. \<forall>x \<in> members m k p. IsSpawnedObject sp k x \<longrightarrow> IsSpawnedObject sp' k x)"

lemma kept_members_trans: "kept_members m p a b \<Longrightarrow> kept_members m p b c \<Longrightarrow> kept_members m p a c"
  unfolding kept_members_def by blast

text \<open>The state of a map's pools: counts are right and at most one too many is spawned in a pool.\<close>

definition pools_ok :: "'f pool_mgr \<Rightarrow> spawned_pool_data \<Rightarrow> bool" where
  "pools_ok m sp \<longleftrightarrow> counts_ok m sp \<and> (\<forall>q. spawned_of sp q \<le> unat (GetMaxLimit m q) + 1)"

definition spawn1_ok :: "'f pool_mgr \<Rightarrow> pool_kind \<Rightarrow> u32 \<Rightarrow> (u64 \<Rightarrow> pool_state \<Rightarrow> pool_state option) \<Rightarrow> bool" where
  "spawn1_ok m k p s1 \<longleftrightarrow> (\<forall>x \<in> members m k p. \<forall>s. pools_ok m (ps_spawns s) \<longrightarrow>
    IsSpawnedObject (ps_spawns s) k x \<longrightarrow>
    (\<exists>s'. s1 x s = Some s' \<and>
      (if k = PoolKind
       then pools_ok m (ps_spawns s') \<and> frame m (ucast x) (ps_spawns s) (ps_spawns s') \<and>
         grow m (ps_spawns s) (ps_spawns s') UNIV
       else ps_spawns s' = ps_spawns s)))"

text \<open>What one rolled member does to the marks of the members of its pool.\<close>

lemma frame_child_members:
  assumes wf: "pools_wf m" and c: "(c, p) \<in> child_of m" and f: "frame m c a b"
    and x: "x \<in> members m k p" and "k = PoolKind \<Longrightarrow> x = ucast c \<Longrightarrow> IsSpawnedObject a k x"
  shows "IsSpawnedObject b k x = IsSpawnedObject a k x"
proof (cases "k = PoolKind")
  case True
  with wf x obtain d where d: "x = ucast d" "(d, p) \<in> child_of m" by (auto elim: member_pool)
  show ?thesis
  proof (cases "d = c")
    case True
    with d \<open>k = PoolKind\<close> assms(5) f show ?thesis by (auto simp: frame_def)
  next
    case False
    then have "d \<notin> below m c" using sibling_not_below [OF wf c d(2)] by blast
    with frame_outside(1) [OF f] d \<open>k = PoolKind\<close> show ?thesis by simp
  qed
next
  case False
  then show ?thesis using frame_outside(2) [OF f mother_not_below [OF wf c] _ x] by blast
qed

lemma Spawn1Object_spawns [simp]: "ps_spawns (Spawn1Object env k g s) = ps_spawns s"
  by (simp add: Spawn1Object_def pm_emit_def Let_def split: option.splits)

lemma ReSpawn1Object_spawns [simp]: "ps_spawns (ReSpawn1Object env k g s) = ps_spawns s"
  by (simp add: ReSpawn1Object_def)

lemma spawn1_is_ok: "k \<noteq> PoolKind \<Longrightarrow> spawn1_ok m k p (spawn1 env k)"
  by (simp add: spawn1_ok_def spawn1_def)

lemma limit_small: "pools_wf m \<Longrightarrow> unat (GetMaxLimit m p) < 2 ^ 31 - 1"
  unfolding pools_wf_def by blast

lemma spawn1_step:
  assumes wf: "pools_wf m" and s1: "spawn1_ok m k p s1" and x: "x \<in> members m k p"
    and ok: "pools_ok m (ps_spawns s)" and new: "\<not> IsSpawnedObject (ps_spawns s) k x"
    and l: "live m (ps_spawns s) p" and room: "spawned_of (ps_spawns s) p \<le> unat (GetMaxLimit m p)"
  obtains s' where "s1 x (s\<lparr>ps_spawns := AddSpawn k x p (ps_spawns s)\<rparr>) = Some s'"
    and "pools_ok m (ps_spawns s')" and "frame m p (ps_spawns s) (ps_spawns s')"
    and "grow m (ps_spawns s) (ps_spawns s') (- {p})"
    and "spawned_of (ps_spawns s') p = spawned_of (ps_spawns s) p + 1"
    and "\<And>k' y. y \<in> members m k' p \<Longrightarrow>
      IsSpawnedObject (ps_spawns s') k' y \<longleftrightarrow> IsSpawnedObject (ps_spawns s) k' y \<or> (k' = k \<and> y = x)"
proof -
  let ?sp = "ps_spawns s" and ?sp1 = "AddSpawn k x p (ps_spawns s)"
  have c: "counts_ok m ?sp" using ok by (simp add: pools_ok_def)
  have "spawned_of ?sp p + 1 < 2 ^ 32" using room limit_small [OF wf, of p] by simp
  note add = AddSpawn_counts [OF wf c x new this l]
  have n1: "spawned_of ?sp1 q = (if q = p then spawned_of ?sp p + 1 else spawned_of ?sp q)" for q
    by (rule add(2))
  have ok1: "pools_ok m ?sp1"
    using add(1) ok room by (simp add: pools_ok_def n1)
  have sx: "IsSpawnedObject ?sp1 k x" by (simp add: IsSpawnedObject_AddSpawn)
  have np: "y \<in> members m PoolKind p \<Longrightarrow> y \<noteq> ucast p" for y
    using wf by (auto elim!: member_pool)
  have m1: "IsSpawnedObject ?sp1 k' y \<longleftrightarrow> IsSpawnedObject ?sp k' y \<or> (k' = k \<and> y = x)"
    if "y \<in> members m k' p" for k' y
    using that np by (auto simp: IsSpawnedObject_AddSpawn)
  from s1 x ok1 sx obtain s' where s': "s1 x (s\<lparr>ps_spawns := ?sp1\<rparr>) = Some s'"
    and r: "if k = PoolKind
       then pools_ok m (ps_spawns s') \<and> frame m (ucast x) ?sp1 (ps_spawns s') \<and>
         grow m ?sp1 (ps_spawns s') UNIV
       else ps_spawns s' = ?sp1"
    unfolding spawn1_ok_def by (metis pool_state.select_convs(1) pool_state.surjective pool_state.update_convs(1))
  have f1: "frame m p ?sp ?sp1" by (rule frame_AddSpawn [OF wf x])
  show thesis
  proof (cases "k = PoolKind")
    case False
    with r have e: "ps_spawns s' = ?sp1" by simp
    show ?thesis
      by (rule that [OF s']) (use e ok1 f1 n1 m1 in \<open>auto simp: grow_def\<close>)
  next
    case True
    with wf x obtain d where d: "x = ucast d" "(d, p) \<in> child_of m" by (auto elim: member_pool)
    from r True d have ok': "pools_ok m (ps_spawns s')" and f: "frame m d ?sp1 (ps_spawns s')"
      and g: "grow m ?sp1 (ps_spawns s') UNIV" by auto
    have p: "GetSpawnedObjects (ps_spawns s') p = GetSpawnedObjects ?sp1 p"
      by (rule frame_count [OF f mother_not_below [OF wf d(2)]])
    have mm: "IsSpawnedObject (ps_spawns s') k' y = IsSpawnedObject ?sp1 k' y"
      if "y \<in> members m k' p" for k' y
      by (rule frame_child_members [OF wf d(2) f that]) (use sx True d in auto)
    show ?thesis
    proof (rule that [OF s' ok'])
      show "frame m p ?sp (ps_spawns s')"
        using f1 frame_child [OF wf d(2) f] by (rule frame_trans)
      show "grow m ?sp (ps_spawns s') (- {p})"
        unfolding grow_def
      proof
        fix q assume "q \<in> - {p}"
        with g n1 [of q] show "spawned_of (ps_spawns s') q \<le> max (spawned_of ?sp q) (unat (GetMaxLimit m q))"
          unfolding grow_def by (metis ComplD UNIV_I singletonI)
      qed
    qed (simp_all add: p n1 mm m1)
  qed
qed

lemma spawn_rolled_ok:
  assumes wf: "pools_wf m" and s1: "spawn1_ok m k p s1"
  shows "pools_ok m (ps_spawns s) \<Longrightarrow> live m (ps_spawns s) p \<Longrightarrow> po_guid ` set objs \<subseteq> members m k p \<Longrightarrow>
    distinct (map po_guid objs) \<Longrightarrow>
    (\<And>obj. obj \<in> set objs \<Longrightarrow> po_guid obj = t \<or> \<not> IsSpawnedObject (ps_spawns s) k (po_guid obj)) \<Longrightarrow>
    spawned_of (ps_spawns s) p + length (filter (\<lambda>obj. po_guid obj \<noteq> t) objs) \<le> unat (GetMaxLimit m p) + 1 \<Longrightarrow>
    \<exists>s'. spawn_rolled s1 env k p t objs s = Some (if t \<in> po_guid ` set objs then 0 else t, s') \<and>
      pools_ok m (ps_spawns s') \<and> frame m p (ps_spawns s) (ps_spawns s') \<and>
      grow m (ps_spawns s) (ps_spawns s') (- {p}) \<and>
      spawned_of (ps_spawns s') p = spawned_of (ps_spawns s) p + length (filter (\<lambda>obj. po_guid obj \<noteq> t) objs) \<and>
      (\<forall>k'. \<forall>y \<in> members m k' p. IsSpawnedObject (ps_spawns s') k' y \<longleftrightarrow> IsSpawnedObject (ps_spawns s) k' y \<or>
        (k' = k \<and> y \<noteq> t \<and> y \<in> po_guid ` set objs))"
proof (induction objs arbitrary: t s)
  case (Cons obj objs)
  let ?x = "po_guid obj"
  have x: "?x \<in> members m k p" and rest: "po_guid ` set objs \<subseteq> members m k p"
    and d: "?x \<notin> po_guid ` set objs" "distinct (map po_guid objs)" using Cons.prems(3,4) by auto
  have nz: "y \<in> members m k p \<Longrightarrow> y \<noteq> 0" for y using wf unfolding pools_wf_def by metis
  show ?case
  proof (cases "?x = t")
    case True
    have no0: "0 \<notin> po_guid ` set objs" using rest nz by blast
    have ft: "filter (\<lambda>obj. po_guid obj \<noteq> 0) objs = objs"
      using no0 by (auto intro!: filter_True)
    have ft': "filter (\<lambda>obj. po_guid obj \<noteq> t) objs = objs"
      using d(1) unfolding True by (auto intro!: filter_True)
    let ?s = "ReSpawn1Object env k ?x s"
    have "\<exists>s'. spawn_rolled s1 env k p 0 objs ?s = Some (if 0 \<in> po_guid ` set objs then 0 else 0, s') \<and>
      pools_ok m (ps_spawns s') \<and> frame m p (ps_spawns ?s) (ps_spawns s') \<and>
      grow m (ps_spawns ?s) (ps_spawns s') (- {p}) \<and>
      spawned_of (ps_spawns s') p = spawned_of (ps_spawns ?s) p + length (filter (\<lambda>obj. po_guid obj \<noteq> 0) objs) \<and>
      (\<forall>k'. \<forall>y \<in> members m k' p. IsSpawnedObject (ps_spawns s') k' y \<longleftrightarrow> IsSpawnedObject (ps_spawns ?s) k' y \<or>
        (k' = k \<and> y \<noteq> 0 \<and> y \<in> po_guid ` set objs))"
    proof (rule Cons.IH)
      show "po_guid obj' = 0 \<or> \<not> IsSpawnedObject (ps_spawns ?s) k (po_guid obj')" if "obj' \<in> set objs" for obj'
      proof -
        have "po_guid obj' \<noteq> ?x" using that d(1) by (metis imageI)
        with Cons.prems(5) [of obj'] that True show ?thesis by simp
      qed
    qed (use Cons.prems(1,2,6) rest d ft ft' True in simp_all)
    then obtain s' where s': "spawn_rolled s1 env k p 0 objs ?s = Some (0, s')"
      "pools_ok m (ps_spawns s')" "frame m p (ps_spawns s) (ps_spawns s')"
      "grow m (ps_spawns s) (ps_spawns s') (- {p})"
      "spawned_of (ps_spawns s') p = spawned_of (ps_spawns s) p + length objs"
      and mk: "\<And>k' y. y \<in> members m k' p \<Longrightarrow> IsSpawnedObject (ps_spawns s') k' y \<longleftrightarrow>
        IsSpawnedObject (ps_spawns s) k' y \<or> (k' = k \<and> y \<noteq> 0 \<and> y \<in> po_guid ` set objs)"
      by (simp add: ft) blast
    have "IsSpawnedObject (ps_spawns s') k' y \<longleftrightarrow> IsSpawnedObject (ps_spawns s) k' y \<or>
        (k' = k \<and> y \<noteq> t \<and> y \<in> po_guid ` set (obj # objs))" if "y \<in> members m k' p" for k' y
      using mk [OF that] that nz d(1) True by auto
    with s' True ft' show ?thesis by (intro exI [of _ s']) simp
  next
    case False
    have new: "\<not> IsSpawnedObject (ps_spawns s) k ?x" using Cons.prems(5) [of obj] False by simp
    have room: "spawned_of (ps_spawns s) p \<le> unat (GetMaxLimit m p)" using Cons.prems(6) False by simp
    obtain s1' where a: "s1 ?x (s\<lparr>ps_spawns := AddSpawn k ?x p (ps_spawns s)\<rparr>) = Some s1'"
      "pools_ok m (ps_spawns s1')" "frame m p (ps_spawns s) (ps_spawns s1')"
      "grow m (ps_spawns s) (ps_spawns s1') (- {p})"
      "spawned_of (ps_spawns s1') p = spawned_of (ps_spawns s) p + 1"
      and am: "\<And>k' y. y \<in> members m k' p \<Longrightarrow>
        IsSpawnedObject (ps_spawns s1') k' y \<longleftrightarrow> IsSpawnedObject (ps_spawns s) k' y \<or> (k' = k \<and> y = ?x)"
      by (rule spawn1_step [OF wf s1 x Cons.prems(1) new Cons.prems(2) room]) (rule that; assumption)
    have "\<exists>s'. spawn_rolled s1 env k p t objs s1' = Some (if t \<in> po_guid ` set objs then 0 else t, s') \<and>
      pools_ok m (ps_spawns s') \<and> frame m p (ps_spawns s1') (ps_spawns s') \<and>
      grow m (ps_spawns s1') (ps_spawns s') (- {p}) \<and>
      spawned_of (ps_spawns s') p = spawned_of (ps_spawns s1') p + length (filter (\<lambda>obj. po_guid obj \<noteq> t) objs) \<and>
      (\<forall>k'. \<forall>y \<in> members m k' p. IsSpawnedObject (ps_spawns s') k' y \<longleftrightarrow> IsSpawnedObject (ps_spawns s1') k' y \<or>
        (k' = k \<and> y \<noteq> t \<and> y \<in> po_guid ` set objs))"
    proof (rule Cons.IH)
      show "live m (ps_spawns s1') p" by (rule frame_live [OF a(3) Cons.prems(2)])
      show "po_guid obj' = t \<or> \<not> IsSpawnedObject (ps_spawns s1') k (po_guid obj')" if "obj' \<in> set objs" for obj'
      proof -
        have "po_guid obj' \<in> members m k p" "po_guid obj' \<noteq> ?x" using that rest d(1) by (auto simp: rev_image_eqI)
        with am Cons.prems(5) [of obj'] that show ?thesis by simp
      qed
    qed (use Cons.prems(6) rest d a(2,5) False in simp_all)
    then obtain s' where s': "spawn_rolled s1 env k p t objs s1' = Some (if t \<in> po_guid ` set objs then 0 else t, s')"
      "pools_ok m (ps_spawns s')" "frame m p (ps_spawns s1') (ps_spawns s')"
      "grow m (ps_spawns s1') (ps_spawns s') (- {p})"
      "spawned_of (ps_spawns s') p = spawned_of (ps_spawns s1') p + length (filter (\<lambda>obj. po_guid obj \<noteq> t) objs)"
      and mk: "\<And>k' y. y \<in> members m k' p \<Longrightarrow> IsSpawnedObject (ps_spawns s') k' y \<longleftrightarrow>
        IsSpawnedObject (ps_spawns s1') k' y \<or> (k' = k \<and> y \<noteq> t \<and> y \<in> po_guid ` set objs)"
      by blast
    have "IsSpawnedObject (ps_spawns s') k' y \<longleftrightarrow> IsSpawnedObject (ps_spawns s) k' y \<or>
        (k' = k \<and> y \<noteq> t \<and> y \<in> po_guid ` set (obj # objs))" if "y \<in> members m k' p" for k' y
      using mk [OF that] am [OF that] False by auto
    moreover have "spawn_rolled s1 env k p t (obj # objs) s =
        Some (if t \<in> po_guid ` set (obj # objs) then 0 else t, s')"
      using s'(1) a(1) False by auto
    ultimately show ?thesis
      using s'(2,5) frame_trans [OF a(3) s'(3)] grow_trans [OF a(4) s'(4)] a(5) False
      by (intro exI [of _ s']) simp
  qed
qed simp

section \<open>Spawning a pool\<close>

lemma sint_diff_small:
  fixes a b :: u32
  assumes "unat a < 2 ^ 31" and "unat b < 2 ^ 31"
  shows "sint (a - b) = int (unat a) - int (unat b)"
proof -
  have aux: "- (2 ^ 31) \<le> int x - int y" "int x - int y < 2 ^ 31" if "x < 2 ^ 31" "y < 2 ^ 31" for x y :: nat
    using that by simp_all
  have "sint (a - b) = signed_take_bit 31 (uint a - uint b)"
    using sint_sbintrunc' [where 'a = 32, of "uint a - uint b"] by simp
  also have "uint a - uint b = int (unat a) - int (unat b)" by simp
  also have "signed_take_bit 31 \<dots> = \<dots>"
    by (rule signed_take_bit_int_eq_self) (rule aux [OF assms])+
  finally show ?thesis .
qed

text \<open>A trigger that is not a spawned member lets the pool grow by one more.\<close>

definition stale :: "'f pool_mgr \<Rightarrow> pool_kind \<Rightarrow> u32 \<Rightarrow> u64 \<Rightarrow> spawned_pool_data \<Rightarrow> bool" where
  "stale m k p t sp \<longleftrightarrow> t \<noteq> 0 \<and> \<not> (t \<in> members m k p \<and> IsSpawnedObject sp k t)"

text \<open>What a call for one kind of members guarantees.\<close>

definition spawned :: "'f pool_mgr \<Rightarrow> pool_kind \<Rightarrow> u32 \<Rightarrow> u64 \<Rightarrow> pool_state \<Rightarrow> pool_state \<Rightarrow> bool" where
  "spawned m k p t s s' \<longleftrightarrow> pools_ok m (ps_spawns s') \<and> frame m p (ps_spawns s) (ps_spawns s') \<and>
    grow m (ps_spawns s) (ps_spawns s') (- {p}) \<and>
    spawned_of (ps_spawns s') p \<le> max (spawned_of (ps_spawns s) p)
      (unat (GetMaxLimit m p) + (if stale m k p t (ps_spawns s) then 1 else 0))"

lemma candidates_members:
  assumes "groups_of k m p = Some g" and "ExplicitlyChanced g = []"
  shows "po_guid ` set (candidates sp k 0 (EqualChanced g)) =
    {x \<in> members m k p. x = 0 \<or> \<not> IsSpawnedObject sp k x}"
  using assms by (auto simp: candidates_def members_group)

lemma SpawnObject_ok:
  assumes wf: "pools_wf m" and u: "urand_ok (urand_at env)" and s1: "spawn1_ok m k p s1"
    and g: "groups_of k m p = Some g" and ok: "pools_ok m (ps_spawns s)" and l: "live m (ps_spawns s) p"
  shows "\<exists>s'. SpawnObject s1 env m k g (GetMaxLimit m p) t s = Some s' \<and> spawned m k p t s s'"
proof -
  let ?n = "spawned_of (ps_spawns s) p" and ?L = "unat (GetMaxLimit m p)"
  define i :: int where "i = int ?L - int ?n"
  define num where "num = (if t \<noteq> 0 then i + 1 else i)"
  have L: "?L < 2 ^ 31 - 1" by (rule limit_small [OF wf])
  have n: "?n \<le> ?L + 1" using ok by (simp add: pools_ok_def)
  have sd: "sint (GetMaxLimit m p - GetSpawnedObjects (ps_spawns s) p) = i"
    unfolding i_def by (rule sint_diff_small) (use L n in linarith)+
  have aux: "int x - int y < 2 ^ 31 - 1" if "x < 2 ^ 31 - 1" for x y :: nat using that by simp
  have "i < 2 ^ 31 - 1" unfolding i_def by (rule aux [OF L])
  then have i: "i \<noteq> 2 ^ 31 - 1" by simp
  have dg: "distinct (map po_guid (all_objs g))" by (rule wf_distinct [OF wf g])
  have pid: "pg_poolId g = p" by (rule wf_poolId [OF wf g])
  obtain t' s2 where s2: "(if num > 0
          then case roll_objects env k g (nat num) t s of (rolled, s) \<Rightarrow> spawn_rolled s1 env k p t rolled s
          else Some (t, s)) = Some (t', s2)"
    and ok2: "pools_ok m (ps_spawns s2)" and f2: "frame m p (ps_spawns s) (ps_spawns s2)"
    and g2: "grow m (ps_spawns s) (ps_spawns s2) (- {p})"
    and n2: "spawned_of (ps_spawns s2) p \<le> max ?n (?L + (if t' \<noteq> 0 then 1 else 0))"
    and t': "t' = 0 \<or> t' = t" and tm: "t' \<noteq> 0 \<Longrightarrow> t \<in> members m k p \<Longrightarrow> IsSpawnedObject (ps_spawns s2) k t = IsSpawnedObject (ps_spawns s) k t"
  proof (cases "num > 0")
    case False
    then show ?thesis using ok by (intro that [of t s]) simp_all
  next
    case True
    obtain rolled s0 where r: "roll_objects env k g (nat num) t s = (rolled, s0)" by fastforce
    from True have "0 < nat num" by simp
    note ro = roll_objects_ok [OF u this dg r]
    have sub: "po_guid ` set rolled \<subseteq> members m k p" using ro(2) g by (auto simp: members_group)
    have len: "length (filter (\<lambda>obj. po_guid obj \<noteq> t) rolled) \<le> length rolled" by simp
    have nl: "int (length rolled) \<le> num" using ro(4) True by simp
    have tot: "?n + length rolled \<le> ?L + (if t \<noteq> 0 then 1 else 0)"
    proof (cases "t = 0")
      case True
      with nl have "int (length rolled) \<le> int ?L - int ?n" by (simp only: num_def i_def if_False not_True_eq_False simp_thms)
      then have "?n + length rolled \<le> ?L" by linarith
      with True show ?thesis by simp
    next
      case False
      with nl have "int (length rolled) \<le> int ?L - int ?n + 1" by (simp only: num_def i_def if_True simp_thms)
      then have "?n + length rolled \<le> ?L + 1" by linarith
      with False show ?thesis by simp
    qed
    then have "?n + length rolled \<le> ?L + 1" by (auto split: if_splits)
    with len have room: "?n + length (filter (\<lambda>obj. po_guid obj \<noteq> t) rolled) \<le> ?L + 1"
      by linarith
    have "\<exists>s'. spawn_rolled s1 env k p t rolled s0 = Some (if t \<in> po_guid ` set rolled then 0 else t, s') \<and>
      pools_ok m (ps_spawns s') \<and> frame m p (ps_spawns s0) (ps_spawns s') \<and>
      grow m (ps_spawns s0) (ps_spawns s') (- {p}) \<and>
      spawned_of (ps_spawns s') p = spawned_of (ps_spawns s0) p + length (filter (\<lambda>obj. po_guid obj \<noteq> t) rolled) \<and>
      (\<forall>k'. \<forall>y \<in> members m k' p. IsSpawnedObject (ps_spawns s') k' y \<longleftrightarrow> IsSpawnedObject (ps_spawns s0) k' y \<or>
        (k' = k \<and> y \<noteq> t \<and> y \<in> po_guid ` set rolled))"
      by (rule spawn_rolled_ok [OF wf s1]) (use ok l sub ro(1,3,5) room in auto)
    then obtain s' where s': "spawn_rolled s1 env k p t rolled s0 = Some (if t \<in> po_guid ` set rolled then 0 else t, s')"
      "pools_ok m (ps_spawns s')" "frame m p (ps_spawns s) (ps_spawns s')"
      "grow m (ps_spawns s) (ps_spawns s') (- {p})"
      "spawned_of (ps_spawns s') p = ?n + length (filter (\<lambda>obj. po_guid obj \<noteq> t) rolled)"
      and mk: "\<And>y. y \<in> members m k p \<Longrightarrow> y = t \<Longrightarrow> IsSpawnedObject (ps_spawns s') k y = IsSpawnedObject (ps_spawns s) k y"
      using ro(1) by auto
    have "length (filter (\<lambda>obj. po_guid obj \<noteq> t) rolled) + (if t \<in> po_guid ` set rolled then 1 else 0) \<le> length rolled"
    proof (cases "t \<in> po_guid ` set rolled")
      case True
      then have "length (filter (\<lambda>obj. po_guid obj \<noteq> t) rolled) < length rolled"
        by (auto intro: length_filter_less)
      with True show ?thesis by simp
    qed (use len in simp)
    with s'(5) tot
    have "spawned_of (ps_spawns s') p \<le> ?L + (if (if t \<in> po_guid ` set rolled then 0 else t) \<noteq> 0 then 1 else 0)"
      by (auto split: if_splits)
    with True r s' mk show ?thesis
      by (intro that [of "if t \<in> po_guid ` set rolled then 0 else t" s']) auto
  qed
  have body: "SpawnObject s1 env m k g (GetMaxLimit m p) t s =
      (if t' \<noteq> 0 then DespawnObject (despawn_of env m k) k g t' False s2 else Some s2)"
    unfolding SpawnObject_def Let_def pid sd num_def [symmetric] s2 using i by simp
  show ?thesis
  proof (cases "t' = 0")
    case True
    with n2 have "spawned_of (ps_spawns s2) p \<le> max ?n ?L" by auto
    with body True ok2 f2 g2 show ?thesis by (auto simp: spawned_def le_max_iff_disj)
  next
    case False
    with t' have tt: "t' = t" "t \<noteq> 0" by auto
    have c2: "counts_ok m (ps_spawns s2)" using ok2 by (simp add: pools_ok_def)
    from DespawnObject_ok [OF wf despawn_of_ok [OF wf] g c2, where guid = t and b = False] tt(2)
    obtain s3 where s3: "DespawnObject (despawn_of env m k) k g t False s2 = Some s3" "despawned m p s2 s3"
      and un: "t \<in> members m k p \<Longrightarrow> \<not> IsSpawnedObject (ps_spawns s3) k t" by auto
    have c3: "counts_ok m (ps_spawns s3)" and fw: "fewer m (ps_spawns s2) (ps_spawns s3)"
      and f3: "frame m p (ps_spawns s2) (ps_spawns s3)" using s3(2) by (auto simp: despawned_def)
    have le: "spawned_of (ps_spawns s3) q \<le> spawned_of (ps_spawns s2) q" for q
      by (rule fewer_count [OF fw c2 c3])
    have less: "spawned_of (ps_spawns s3) p < spawned_of (ps_spawns s2) p" if "\<not> stale m k p t (ps_spawns s)"
      using that tt tm un False by (intro fewer_count_less [OF fw c2 c3, of t k]) (auto simp: stale_def)
    have "spawned_of (ps_spawns s3) p \<le> max ?n (?L + (if stale m k p t (ps_spawns s) then 1 else 0))"
      using n2 le [of p] less tt by (cases "stale m k p t (ps_spawns s)") auto
    moreover have "pools_ok m (ps_spawns s3)"
      using c3 ok2 le unfolding pools_ok_def by (meson le_trans)
    moreover have "grow m (ps_spawns s) (ps_spawns s3) (- {p})"
      using g2 le unfolding grow_def by (meson le_trans)
    ultimately show ?thesis
      using body tt s3(1) frame_trans [OF f2 f3] by (simp add: spawned_def)
  qed
qed

lemma not_stale_0 [simp]: "\<not> stale m k p 0 sp"
  by (simp add: stale_def)

lemma SpawnPool_kind_ok:
  assumes wf: "pools_wf m" and u: "urand_ok (urand_at env)" and s1: "spawn1_ok m k p s1"
    and ok: "pools_ok m (ps_spawns s)" and l: "live m (ps_spawns s) p"
  shows "\<exists>s'. SpawnPool_kind s1 env m k p t s = Some s' \<and> spawned m k p t s s'"
proof (cases "groups_of k m p")
  case None
  with ok show ?thesis by (simp add: SpawnPool_kind_def spawned_def)
next
  case (Some g)
  show ?thesis
  proof (cases "pg_isEmpty g")
    case True
    with Some ok show ?thesis by (simp add: SpawnPool_kind_def spawned_def)
  next
    case False
    with Some SpawnObject_ok [OF wf u s1 Some ok l, of t] show ?thesis by (simp add: SpawnPool_kind_def)
  qed
qed

lemma spawned_0_grow:
  assumes "spawned m k p 0 s s'"
  shows "grow m (ps_spawns s) (ps_spawns s') UNIV"
  unfolding grow_def
proof
  fix q
  from assms show "spawned_of (ps_spawns s') q \<le> max (spawned_of (ps_spawns s) q) (unat (GetMaxLimit m q))"
    by (cases "q = p") (auto simp: spawned_def grow_def)
qed

text \<open>Spawning a pool returns.\<close>

lemma SpawnPool_ok:
  assumes wf: "pools_wf m" and u: "urand_ok (urand_at env)"
  shows "pools_ok m (ps_spawns s) \<Longrightarrow> live m (ps_spawns s) p \<Longrightarrow>
    \<exists>s'. SpawnPool env m p s = Some s' \<and> pools_ok m (ps_spawns s') \<and>
      frame m p (ps_spawns s) (ps_spawns s') \<and> grow m (ps_spawns s) (ps_spawns s') UNIV"
  using wf_child_of [OF wf]
proof (induction p arbitrary: s rule: wf_induct_rule)
  case (less p)
  let ?s1 = "\<lambda>child s. SpawnPool env m (ucast child) s"
  have c1: "spawn1_ok m PoolKind p ?s1"
  proof (unfold spawn1_ok_def, intro ballI allI impI)
    fix x and s :: pool_state
    assume "x \<in> members m PoolKind p" and ok: "pools_ok m (ps_spawns s)"
      and sx: "IsSpawnedObject (ps_spawns s) PoolKind x"
    with wf obtain c where c: "x = ucast c" "(c, p) \<in> child_of m" by (auto elim: member_pool)
    with sx have "live m (ps_spawns s) c" by (simp add: live_def)
    with less.IH [OF c(2) ok] c(1)
    show "\<exists>s'. ?s1 x s = Some s' \<and> (if PoolKind = PoolKind
       then pools_ok m (ps_spawns s') \<and> frame m (ucast x) (ps_spawns s) (ps_spawns s') \<and>
         grow m (ps_spawns s) (ps_spawns s') UNIV
       else ps_spawns s' = ps_spawns s)" by simp
  qed
  obtain a where a: "SpawnPool_kind ?s1 env m PoolKind p 0 s = Some a" "spawned m PoolKind p 0 s a"
    using SpawnPool_kind_ok [OF wf u c1 less.prems] by blast
  then have oka: "pools_ok m (ps_spawns a)" and la: "live m (ps_spawns a) p"
    using less.prems frame_live by (auto simp: spawned_def)
  obtain b where b: "SpawnPool_kind (spawn1 env GameObjectKind) env m GameObjectKind p 0 a = Some b"
      "spawned m GameObjectKind p 0 a b"
    using SpawnPool_kind_ok [OF wf u spawn1_is_ok oka la] by blast
  then have okb: "pools_ok m (ps_spawns b)" and lb: "live m (ps_spawns b) p"
    using la frame_live by (auto simp: spawned_def)
  obtain c where c: "SpawnPool_kind (spawn1 env CreatureKind) env m CreatureKind p 0 b = Some c"
      "spawned m CreatureKind p 0 b c"
    using SpawnPool_kind_ok [OF wf u spawn1_is_ok okb lb] by blast
  have "SpawnPool env m p s = Some c" by (subst SpawnPool.simps) (simp add: a b c)
  moreover have "grow m (ps_spawns s) (ps_spawns c) UNIV"
    using spawned_0_grow [OF a(2)] spawned_0_grow [OF b(2)] spawned_0_grow [OF c(2)] by (meson grow_trans)
  moreover have "frame m p (ps_spawns s) (ps_spawns c)"
    using a(2) b(2) c(2) unfolding spawned_def by (meson frame_trans)
  ultimately show ?case using c(2) by (auto simp: spawned_def)
qed

lemma spawn_of_ok:
  assumes wf: "pools_wf m" and u: "urand_ok (urand_at env)"
  shows "spawn1_ok m k p (spawn_of env m k)"
proof (cases "k = PoolKind")
  case True
  show ?thesis
    unfolding spawn1_ok_def
  proof (intro ballI allI impI)
    fix x and s :: pool_state
    assume x: "x \<in> members m k p" and ok: "pools_ok m (ps_spawns s)" and sx: "IsSpawnedObject (ps_spawns s) k x"
    with True have "x \<in> members m PoolKind p" by simp
    with wf obtain c :: u32 where c: "x = ucast c" by (auto elim: member_pool)
    with sx True have "live m (ps_spawns s) c" by (simp add: live_def)
    with SpawnPool_ok [OF wf u ok] c True
    show "\<exists>s'. spawn_of env m k x s = Some s' \<and> (if k = PoolKind
       then pools_ok m (ps_spawns s') \<and> frame m (ucast x) (ps_spawns s) (ps_spawns s') \<and>
         grow m (ps_spawns s) (ps_spawns s') UNIV
       else ps_spawns s' = ps_spawns s)" by (simp add: spawn_of_def)
  qed
qed (simp add: spawn_of_def spawn1_is_ok)

subsection \<open>How far a pool is filled\<close>

definition all_members :: "'f pool_mgr \<Rightarrow> u32 \<Rightarrow> (pool_kind \<times> u64) set" where
  "all_members m p = {(k, x). x \<in> members m k p}"

definition no_chances :: "'f pool_mgr \<Rightarrow> u32 \<Rightarrow> bool" where
  "no_chances m p \<longleftrightarrow> (\<forall>k g. groups_of k m p = Some g \<longrightarrow> ExplicitlyChanced g = [])"

text \<open>One kind of members is spawned until the pool is full or none is left.\<close>

definition filled :: "'f pool_mgr \<Rightarrow> pool_kind \<Rightarrow> u32 \<Rightarrow> pool_state \<Rightarrow> pool_state \<Rightarrow> bool" where
  "filled m k p s s' \<longleftrightarrow> kept_members m p (ps_spawns s) (ps_spawns s') \<and>
    (spawned_of (ps_spawns s') p = unat (GetMaxLimit m p) \<or> (\<forall>x \<in> members m k p. IsSpawnedObject (ps_spawns s') k x))"

lemma SpawnObject_filled:
  assumes wf: "pools_wf m" and u: "urand_ok (urand_at env)" and s1: "spawn1_ok m k p s1"
    and g: "groups_of k m p = Some g" and ok: "pools_ok m (ps_spawns s)" and l: "live m (ps_spawns s) p"
    and e: "ExplicitlyChanced g = []" and le: "spawned_of (ps_spawns s) p \<le> unat (GetMaxLimit m p)"
    and s': "SpawnObject s1 env m k g (GetMaxLimit m p) 0 s = Some s'"
  shows "filled m k p s s'"
proof -
  let ?n = "spawned_of (ps_spawns s) p" and ?L = "unat (GetMaxLimit m p)"
  have L: "?L < 2 ^ 31 - 1" by (rule limit_small [OF wf])
  have pid: "pg_poolId g = p" by (rule wf_poolId [OF wf g])
  have sd: "sint (GetMaxLimit m p - GetSpawnedObjects (ps_spawns s) p) = int ?L - int ?n"
    by (rule sint_diff_small) (use L le in linarith)+
  have nn: "nat (int ?L - int ?n) = ?L - ?n" using le by (simp only: of_nat_diff [symmetric] nat_int)
  have pos: "(int ?L - int ?n > 0) = (?n < ?L)" by linarith
  have run: "(if ?n < ?L then case roll_objects env k g (?L - ?n) 0 s of (rolled, s) \<Rightarrow>
      spawn_rolled s1 env k p 0 rolled s else Some (0, s)) \<bind>
      (\<lambda>(t, s). if t \<noteq> 0 then DespawnObject (despawn_of env m k) k g t False s else Some s) = Some s'"
    using s' unfolding SpawnObject_def Let_def pid sd by (simp only: nn pos simp_thms if_False)
  show ?thesis
  proof (cases "?n < ?L")
    case False
    with run have "s' = s" by simp
    with False le show ?thesis by (simp add: filled_def kept_members_def)
  next
    case True
    obtain rolled s0 where r: "roll_objects env k g (?L - ?n) 0 s = (rolled, s0)" by fastforce
    from True have "0 < ?L - ?n" by simp
    note ro = roll_objects_ok [OF u this wf_distinct [OF wf g] r]
    have sub: "po_guid ` set rolled \<subseteq> members m k p" using ro(2) g by (auto simp: members_group)
    have nz: "0 \<notin> members m k p" using wf unfolding pools_wf_def by metis
    then have no0: "0 \<notin> po_guid ` set rolled" using sub by blast
    then have f0: "filter (\<lambda>obj. po_guid obj \<noteq> 0) rolled = rolled" by (auto intro!: filter_True)
    have "?n + length rolled \<le> ?L + 1" using ro(4) True by linarith
    then have "\<exists>s'. spawn_rolled s1 env k p 0 rolled s0 = Some (if 0 \<in> po_guid ` set rolled then 0 else 0, s') \<and>
      pools_ok m (ps_spawns s') \<and> frame m p (ps_spawns s0) (ps_spawns s') \<and>
      grow m (ps_spawns s0) (ps_spawns s') (- {p}) \<and>
      spawned_of (ps_spawns s') p = spawned_of (ps_spawns s0) p + length (filter (\<lambda>obj. po_guid obj \<noteq> 0) rolled) \<and>
      (\<forall>k'. \<forall>y \<in> members m k' p. IsSpawnedObject (ps_spawns s') k' y \<longleftrightarrow> IsSpawnedObject (ps_spawns s0) k' y \<or>
        (k' = k \<and> y \<noteq> 0 \<and> y \<in> po_guid ` set rolled))"
      by (intro spawn_rolled_ok [OF wf s1]) (use ok l sub ro(1,3,5) f0 in auto)
    with r True run have n': "spawned_of (ps_spawns s') p = ?n + length rolled"
      and mk: "\<forall>k'. \<forall>y \<in> members m k' p. IsSpawnedObject (ps_spawns s') k' y \<longleftrightarrow> IsSpawnedObject (ps_spawns s) k' y \<or>
        (k' = k \<and> y \<noteq> 0 \<and> y \<in> po_guid ` set rolled)"
      using ro(1) f0 by auto
    let ?c = "candidates (ps_spawns s) k 0 (EqualChanced g)"
    have len: "length rolled = min (?L - ?n) (length ?c)" by (rule ro(6) [OF e])
    have kept: "kept_members m p (ps_spawns s) (ps_spawns s')" using mk by (auto simp: kept_members_def)
    show ?thesis
    proof (cases "?L - ?n \<le> length ?c")
      case True
      with len n' le have "spawned_of (ps_spawns s') p = ?L" by linarith
      with kept show ?thesis by (simp add: filled_def)
    next
      case False
      with len have ll: "length rolled = length ?c" by linarith
      have ac: "po_guid ` set ?c = {x \<in> members m k p. \<not> IsSpawnedObject (ps_spawns s) k x}"
        using candidates_members [OF g e] nz by auto
      have "card (po_guid ` set ?c) \<le> length ?c" by (metis card_length length_map list.set_map)
      moreover have "card (po_guid ` set rolled) = length rolled"
        using ro(3) by (metis distinct_card length_map list.set_map)
      moreover have "po_guid ` set rolled \<subseteq> po_guid ` set ?c"
        using ro(5) sub no0 unfolding ac by force
      ultimately have "po_guid ` set rolled = po_guid ` set ?c"
        using ll by (intro card_seteq) auto
      with mk ac nz have "\<forall>x \<in> members m k p. IsSpawnedObject (ps_spawns s') k x" by auto
      with kept show ?thesis by (simp add: filled_def)
    qed
  qed
qed

end
