(* ===== verification/PoolReach.thy ===== *)
theory PoolReach
  imports PoolSpawn
begin

text \<open>
  The pools of a map over its lifetime: \<open>map_reach\<close> are the states after any operations, and the
  properties of all of them.
\<close>

section \<open>Filling a pool\<close>

lemma SpawnPool_kind_filled:
  assumes wf: "pools_wf m" and u: "urand_ok (urand_at env)" and s1: "spawn1_ok m k p s1"
    and ok: "pools_ok m (ps_spawns s)" and l: "live m (ps_spawns s) p"
    and e: "no_chances m p" and le: "spawned_of (ps_spawns s) p \<le> unat (GetMaxLimit m p)"
    and s': "SpawnPool_kind s1 env m k p 0 s = Some s'"
  shows "filled m k p s s'"
proof (cases "groups_of k m p")
  case None
  with s' show ?thesis by (simp add: SpawnPool_kind_def filled_def kept_members_def members_def)
next
  case (Some g)
  show ?thesis
  proof (cases "pg_isEmpty g")
    case True
    with Some s' show ?thesis
      by (simp add: SpawnPool_kind_def filled_def kept_members_def members_def pg_isEmpty_def)
  next
    case False
    with Some s' have "SpawnObject s1 env m k g (GetMaxLimit m p) 0 s = Some s'"
      by (simp add: SpawnPool_kind_def)
    moreover have "ExplicitlyChanced g = []" using e Some unfolding no_chances_def by blast
    ultimately show ?thesis using SpawnObject_filled [OF wf u s1 Some ok l _ le] by blast
  qed
qed

lemma kept_count:
  assumes "kept_members m p a b" and "counts_ok m a" and "counts_ok m b"
  shows "spawned_of a p \<le> spawned_of b p"
proof -
  have "spawned_set m a p \<subseteq> spawned_set m b p"
    using assms(1) by (auto simp: kept_members_def spawned_set_def)
  then show ?thesis using assms(2,3) by (simp add: counts_ok_def card_mono)
qed

lemma SpawnPool_filled:
  assumes wf: "pools_wf m" and u: "urand_ok (urand_at env)"
    and ok: "pools_ok m (ps_spawns s)" and l: "live m (ps_spawns s) p"
    and e: "no_chances m p" and le: "spawned_of (ps_spawns s) p \<le> unat (GetMaxLimit m p)"
  shows "\<exists>s'. SpawnPool env m p s = Some s' \<and>
    spawned_of (ps_spawns s') p = min (unat (GetMaxLimit m p)) (card (all_members m p))"
proof -
  let ?L = "unat (GetMaxLimit m p)"
  have s1: "spawn1_ok m k p (spawn_of env m k)" for k by (rule spawn_of_ok [OF wf u])
  have step: "\<exists>s'. SpawnPool_kind (spawn_of env m k) env m k p 0 s = Some s' \<and> pools_ok m (ps_spawns s') \<and>
      live m (ps_spawns s') p \<and> spawned_of (ps_spawns s') p \<le> ?L \<and> filled m k p s s'"
    if "pools_ok m (ps_spawns s)" and "live m (ps_spawns s) p" and "spawned_of (ps_spawns s) p \<le> ?L" for k s
  proof -
    note pre = that
    obtain s' where s': "SpawnPool_kind (spawn_of env m k) env m k p 0 s = Some s'" "spawned m k p 0 s s'"
      using SpawnPool_kind_ok [OF wf u s1 pre(1,2)] by blast
    with pre SpawnPool_kind_filled [OF wf u s1 pre(1,2) e pre(3) s'(1)] show ?thesis
      by (auto simp: spawned_def intro: frame_live)
  qed
  from step [OF ok l le, of PoolKind] obtain a where a: "SpawnPool_kind (spawn_of env m PoolKind) env m PoolKind p 0 s = Some a"
    "pools_ok m (ps_spawns a)" "live m (ps_spawns a) p" "spawned_of (ps_spawns a) p \<le> ?L" "filled m PoolKind p s a" by blast
  from step [OF a(2-4), of GameObjectKind] obtain b where b: "SpawnPool_kind (spawn_of env m GameObjectKind) env m GameObjectKind p 0 a = Some b"
    "pools_ok m (ps_spawns b)" "live m (ps_spawns b) p" "spawned_of (ps_spawns b) p \<le> ?L" "filled m GameObjectKind p a b" by blast
  from step [OF b(2-4), of CreatureKind] obtain c where c: "SpawnPool_kind (spawn_of env m CreatureKind) env m CreatureKind p 0 b = Some c"
    "pools_ok m (ps_spawns c)" "live m (ps_spawns c) p" "spawned_of (ps_spawns c) p \<le> ?L" "filled m CreatureKind p b c" by blast
  have run: "SpawnPool env m p s = Some c"
    using a(1) b(1) c(1) by (subst SpawnPool.simps) (simp add: spawn_of_def)
  have cs: "counts_ok m (ps_spawns a)" "counts_ok m (ps_spawns b)" "counts_ok m (ps_spawns c)"
    using a(2) b(2) c(2) by (simp_all add: pools_ok_def)
  have kb: "kept_members m p (ps_spawns b) (ps_spawns c)" and ka: "kept_members m p (ps_spawns a) (ps_spawns b)"
    using b(5) c(5) by (simp_all add: filled_def)
  note mono = kept_count [OF ka cs(1,2)] kept_count [OF kb cs(2,3)]
  have sub: "spawned_set m (ps_spawns c) p \<subseteq> all_members m p"
    by (auto simp: spawned_set_def all_members_def)
  have n: "spawned_of (ps_spawns c) p = card (spawned_set m (ps_spawns c) p)" using cs(3) by (simp add: counts_ok_def)
  show ?thesis
  proof (cases "spawned_of (ps_spawns c) p = ?L")
    case True
    have "card (spawned_set m (ps_spawns c) p) \<le> card (all_members m p)" by (rule card_mono [OF _ sub]) simp
    with True n run show ?thesis by auto
  next
    case False
    with c(4) mono have lt: "spawned_of (ps_spawns a) p \<noteq> ?L" "spawned_of (ps_spawns b) p \<noteq> ?L" by linarith+
    with False a(5) b(5) c(5) have "\<forall>x \<in> members m PoolKind p. IsSpawnedObject (ps_spawns a) PoolKind x"
      "\<forall>x \<in> members m GameObjectKind p. IsSpawnedObject (ps_spawns b) GameObjectKind x"
      "\<forall>x \<in> members m CreatureKind p. IsSpawnedObject (ps_spawns c) CreatureKind x"
      by (simp_all add: filled_def)
    with ka kb have "\<forall>x \<in> members m k p. IsSpawnedObject (ps_spawns c) k x" for k
      unfolding kept_members_def by (cases k) blast+
    then have "spawned_set m (ps_spawns c) p = all_members m p"
      by (auto simp: spawned_set_def all_members_def)
    with n c(4) run show ?thesis by auto
  qed
qed

section \<open>The states of a map's pools\<close>

definition pool_start :: pool_state where
  "pool_start = \<lparr>ps_spawns = SpawnedPoolData_new, ps_events = [], ps_draws = 0\<rparr>"

definition top_pool :: "'f pool_mgr \<Rightarrow> u32 \<Rightarrow> bool" where
  "top_pool m p \<longleftrightarrow> (\<nexists>q. (p, q) \<in> child_of m)"

text \<open>The pool that is rolled when a member of \<open>p\<close> is due.\<close>

definition rolled_pool :: "'f pool_mgr \<Rightarrow> u32 \<Rightarrow> u32" where
  "rolled_pool m p = (if IsPartOfAPool m PoolKind (ucast p) \<noteq> 0 then IsPartOfAPool m PoolKind (ucast p) else p)"

text \<open>
  A map starts without pools; pools that are not members of others are spawned (for the map, for an
  event), pools are despawned, and members that are due update their pool. In a \<open>strict\<close> run they are
  spawned; else a timer may be left over from a member that was despawned, if its pool is still marked.
  The rest of the server may do anything to the map in between.
\<close>

inductive map_reach :: "'f::{zero,minus,ord} pool_env \<Rightarrow> 'f pool_mgr \<Rightarrow> bool \<Rightarrow> pool_state \<Rightarrow> bool"
  for env :: "'f pool_env" and m :: "'f pool_mgr" and strict :: bool where
  start: "map_reach env m strict pool_start"
| spawn: "map_reach env m strict s \<Longrightarrow> top_pool m p \<Longrightarrow> SpawnPool env m p s = Some s' \<Longrightarrow> map_reach env m strict s'"
| despawn: "map_reach env m strict s \<Longrightarrow> DespawnPool env m p b s = Some s' \<Longrightarrow> map_reach env m strict s'"
| update: "map_reach env m strict s \<Longrightarrow>
    (if strict then x \<in> members m k p \<and> IsSpawnedObject (ps_spawns s) k x else live m (ps_spawns s) (rolled_pool m p)) \<Longrightarrow>
    UpdatePool env m k p x s = Some s' \<Longrightarrow> map_reach env m strict s'"
| other: "map_reach env m strict s \<Longrightarrow> map_reach env m strict (s\<lparr>ps_events := es, ps_draws := n\<rparr>)"

definition pool_inv :: "'f pool_mgr \<Rightarrow> bool \<Rightarrow> spawned_pool_data \<Rightarrow> bool" where
  "pool_inv m strict sp \<longleftrightarrow> counts_ok m sp \<and>
    (\<forall>q. spawned_of sp q \<le> unat (GetMaxLimit m q) + (if strict then 0 else 1))"

lemma pool_inv_ok: "pool_inv m strict sp \<Longrightarrow> pools_ok m sp"
  unfolding pool_inv_def pools_ok_def by (auto split: if_splits intro: le_SucI)

lemma top_is_live: "top_pool m p \<Longrightarrow> live m sp p"
  by (simp add: top_pool_def live_def)

lemma pool_inv_start: "pool_inv m strict SpawnedPoolData_new"
proof -
  have "spawned_set m SpawnedPoolData_new p = {}" for p
  proof -
    have "\<not> IsSpawnedObject SpawnedPoolData_new k x" for k x
      by (cases k) (simp_all add: SpawnedPoolData_new_def)
    then show ?thesis by (simp add: spawned_set_def)
  qed
  then show ?thesis
    by (simp add: pool_inv_def counts_ok_def GetSpawnedObjects_def SpawnedPoolData_new_def)
qed

lemma grow_pool_inv:
  assumes "pool_inv m strict a" and "pools_ok m b" and "grow m a b UNIV"
  shows "pool_inv m strict b"
proof -
  have "spawned_of b q \<le> unat (GetMaxLimit m q) + (if strict then 0 else 1)" for q
  proof -
    have "spawned_of b q \<le> max (spawned_of a q) (unat (GetMaxLimit m q))"
      and "spawned_of a q \<le> unat (GetMaxLimit m q) + (if strict then 0 else 1)"
      using assms(1,3) by (simp_all add: grow_def pool_inv_def)
    then show ?thesis by auto
  qed
  then show ?thesis using assms(2) by (simp add: pool_inv_def pools_ok_def)
qed

lemma despawned_pool_inv:
  assumes "pool_inv m strict (ps_spawns s)" and "despawned m p s s'"
  shows "pool_inv m strict (ps_spawns s')"
proof -
  have "spawned_of (ps_spawns s') q \<le> spawned_of (ps_spawns s) q" for q
    using assms by (intro fewer_count) (auto simp: despawned_def pool_inv_def)
  then show ?thesis using assms unfolding pool_inv_def despawned_def by (meson le_trans)
qed

lemma wf_search: "pools_wf m \<Longrightarrow> mPoolSearchMap m x = Some p \<longleftrightarrow> x \<in> members m PoolKind p"
  unfolding pools_wf_def by (elim conjE allE [of _ x] allE [of _ p]) simp

lemma wf_mother_nonzero: "pools_wf m \<Longrightarrow> x \<notin> members m PoolKind 0"
  unfolding pools_wf_def by metis

lemma IsPartOfAPool_mother:
  assumes wf: "pools_wf m"
  shows "IsPartOfAPool m PoolKind (ucast p) \<noteq> 0 \<Longrightarrow> (p, IsPartOfAPool m PoolKind (ucast p)) \<in> child_of m"
    and "IsPartOfAPool m PoolKind (ucast p) = 0 \<Longrightarrow> top_pool m p"
proof -
  show "(p, IsPartOfAPool m PoolKind (ucast p)) \<in> child_of m" if "IsPartOfAPool m PoolKind (ucast p) \<noteq> 0"
  proof (cases "mPoolSearchMap m (ucast p)")
    case None
    with that show ?thesis by (simp add: IsPartOfAPool_def)
  next
    case (Some q)
    then show ?thesis using wf_search [OF wf, of "ucast p" q] by (simp add: IsPartOfAPool_def child_of_def)
  qed
  show "top_pool m p" if "IsPartOfAPool m PoolKind (ucast p) = 0"
  proof (cases "mPoolSearchMap m (ucast p)")
    case None
    then have "ucast p \<notin> members m PoolKind q" for q by (metis wf_search [OF wf] option.distinct(1))
    then show ?thesis by (simp add: top_pool_def child_of_def)
  next
    case (Some q)
    with that have "q = 0" by (simp add: IsPartOfAPool_def)
    with Some wf_search [OF wf] wf_mother_nonzero [OF wf] show ?thesis by metis
  qed
qed

text \<open>What an update does: the pool that is rolled obeys its limit, by one more for a stale trigger.\<close>

definition roll_trigger :: "'f pool_mgr \<Rightarrow> pool_kind \<Rightarrow> u32 \<Rightarrow> u64 \<Rightarrow> pool_kind \<times> u64" where
  "roll_trigger m k p x = (if IsPartOfAPool m PoolKind (ucast p) \<noteq> 0 then (PoolKind, ucast p) else (k, x))"

lemma UpdatePool_ok:
  assumes wf: "pools_wf m" and u: "urand_ok (urand_at env)"
    and ok: "pools_ok m (ps_spawns s)" and l: "live m (ps_spawns s) (rolled_pool m p)"
  shows "\<exists>s'. UpdatePool env m k p x s = Some s' \<and>
    spawned m (fst (roll_trigger m k p x)) (rolled_pool m p) (snd (roll_trigger m k p x)) s s'"
  using SpawnPool_kind_ok [OF wf u spawn_of_ok [OF wf u] ok l, of "fst (roll_trigger m k p x)" "snd (roll_trigger m k p x)"]
  by (cases "IsPartOfAPool m PoolKind (ucast p) = 0") (simp_all add: UpdatePool_def rolled_pool_def roll_trigger_def Let_def)

lemma strict_trigger:
  assumes wf: "pools_wf m" and c: "counts_ok m (ps_spawns s)" and x: "x \<in> members m k p"
    and sx: "IsSpawnedObject (ps_spawns s) k x"
  shows "live m (ps_spawns s) (rolled_pool m p)"
    and "\<not> stale m (fst (roll_trigger m k p x)) (rolled_pool m p) (snd (roll_trigger m k p x)) (ps_spawns s)"
proof -
  have p: "IsSpawnedObject (ps_spawns s) PoolKind (ucast p)"
    by (rule spawned_is_live [OF spawned_member_positive [OF c x sx]])
  let ?q = "IsPartOfAPool m PoolKind (ucast p)"
  show "live m (ps_spawns s) (rolled_pool m p)"
  proof (cases "?q = 0")
    case True
    with IsPartOfAPool_mother(2) [OF wf] show ?thesis by (simp add: rolled_pool_def top_is_live)
  next
    case False
    then have "ucast p \<in> members m PoolKind ?q" using IsPartOfAPool_mother(1) [OF wf] by (simp add: child_of_def)
    from spawned_is_live [OF spawned_member_positive [OF c this p]] False
    show ?thesis by (simp add: rolled_pool_def live_def)
  qed
  show "\<not> stale m (fst (roll_trigger m k p x)) (rolled_pool m p) (snd (roll_trigger m k p x)) (ps_spawns s)"
    using IsPartOfAPool_mother(1) [OF wf, of p] p x sx
    by (auto simp: stale_def roll_trigger_def rolled_pool_def child_of_def)
qed

lemma map_reach_inv:
  assumes wf: "pools_wf m" and u: "urand_ok (urand_at env)" and "map_reach env m strict s"
  shows "pool_inv m strict (ps_spawns s)"
  using assms(3)
proof (induction rule: map_reach.induct)
  case start
  show ?case by (simp add: pool_start_def pool_inv_start)
next
  case (spawn s p s')
  with SpawnPool_ok [OF wf u pool_inv_ok top_is_live] show ?case
    by (metis grow_pool_inv option.inject)
next
  case (despawn s p b s')
  have "counts_ok m (ps_spawns s)" using despawn.IH by (simp add: pool_inv_def)
  with DespawnPool_ok [OF wf this, of env p b] despawn show ?case
    by (metis despawned_pool_inv option.inject)
next
  case (update s x k p s')
  let ?k = "fst (roll_trigger m k p x)" and ?t = "snd (roll_trigger m k p x)" and ?q = "rolled_pool m p"
  have c: "counts_ok m (ps_spawns s)" using update.IH by (simp add: pool_inv_def)
  have l: "live m (ps_spawns s) ?q" and st: "strict \<Longrightarrow> \<not> stale m ?k ?q ?t (ps_spawns s)"
    using update.hyps(2) strict_trigger [OF wf c] by (auto split: if_splits)
  from UpdatePool_ok [OF wf u pool_inv_ok [OF update.IH] l] update.hyps(3)
  have sp: "spawned m ?k ?q ?t s s'" by (metis option.inject)
  show ?case
    unfolding pool_inv_def
  proof (intro conjI allI)
    show "counts_ok m (ps_spawns s')" using sp by (simp add: spawned_def pools_ok_def)
    fix q
    have i: "spawned_of (ps_spawns s) q \<le> unat (GetMaxLimit m q) + (if strict then 0 else 1)"
      using update.IH by (simp add: pool_inv_def)
    show "spawned_of (ps_spawns s') q \<le> unat (GetMaxLimit m q) + (if strict then 0 else 1)"
    proof (cases "q = ?q")
      case True
      have "spawned_of (ps_spawns s') ?q \<le> max (spawned_of (ps_spawns s) ?q)
          (unat (GetMaxLimit m ?q) + (if stale m ?k ?q ?t (ps_spawns s) then 1 else 0))"
        using sp by (simp add: spawned_def)
      with i st True show ?thesis by (auto split: if_splits)
    next
      case False
      have "grow m (ps_spawns s) (ps_spawns s') (- {?q})" using sp by (simp add: spawned_def)
      with False have "spawned_of (ps_spawns s') q \<le> max (spawned_of (ps_spawns s) q) (unat (GetMaxLimit m q))"
        by (simp add: grow_def)
      with i show ?thesis by auto
    qed
  qed
qed simp

end
