(* ===== verification/PoolLoad.thy ===== *)
theory PoolLoad
  imports PoolReach
begin

text \<open>
  Loading the pools: whatever the tables hold, as long as their keys are keys, no assertion fails, the
  manager is well-formed (cycles are gone) and a pool with creatures or game objects has the pools it is
  part of on its map.
\<close>

section \<open>Groups and search maps agree\<close>

definition search_of :: "pool_kind \<Rightarrow> 'f pool_mgr \<Rightarrow> u64 \<rightharpoonup> u32" where
  "search_of k m = (case k of CreatureKind \<Rightarrow> mCreatureSearchMap m | GameObjectKind \<Rightarrow> mGameobjectSearchMap m
     | PoolKind \<Rightarrow> mPoolSearchMap m)"

definition group_inv :: "'f pool_mgr \<Rightarrow> bool" where
  "group_inv m \<longleftrightarrow>
    (\<forall>k p g. groups_of k m p = Some g \<longrightarrow> pg_poolId g = p \<and> distinct (map po_guid (all_objs g))) \<and>
    (\<forall>k x p. search_of k m x = Some p \<longleftrightarrow> x \<in> members m k p)"

lemma group_invD:
  assumes "group_inv m"
  shows "groups_of k m p = Some g \<Longrightarrow> pg_poolId g = p"
    and "groups_of k m p = Some g \<Longrightarrow> distinct (map po_guid (all_objs g))"
    and "search_of k m x = Some p \<longleftrightarrow> x \<in> members m k p"
  using assms unfolding group_inv_def by (simp_all only: simp_thms)

text \<open>
  No member is 0, links are between templates, and a pool with members on the map has its map.
\<close>

definition link_inv :: "'f pool_mgr \<Rightarrow> bool" where
  "link_inv m \<longleftrightarrow> (\<forall>k. search_of k m 0 = None) \<and> mPoolTemplate m 0 = None \<and>
    (\<forall>x p. mPoolSearchMap m x = Some p \<longrightarrow> mPoolTemplate m p \<noteq> None \<and> (\<exists>c :: u32. x = ucast c \<and> mPoolTemplate m c \<noteq> None))"

definition dir_inv :: "'f pool_mgr \<Rightarrow> bool" where
  "dir_inv m \<longleftrightarrow> (\<forall>k p. k \<noteq> PoolKind \<longrightarrow> members m k p \<noteq> {} \<longrightarrow> MapId (template_at m p) \<noteq> -1)"

definition load_inv :: "'f pool_mgr \<Rightarrow> bool" where
  "load_inv m \<longleftrightarrow> group_inv m \<and> link_inv m \<and> dir_inv m"

text \<open>The templates keep their limits, and their maps once they have one.\<close>

definition tmpl_ext :: "'f pool_mgr \<Rightarrow> 'f pool_mgr \<Rightarrow> bool" where
  "tmpl_ext m m' \<longleftrightarrow> dom (mPoolTemplate m') = dom (mPoolTemplate m) \<and> GetMaxLimit m' = GetMaxLimit m \<and>
    (\<forall>p. MapId (template_at m p) \<noteq> -1 \<longrightarrow> MapId (template_at m' p) = MapId (template_at m p))"

lemma tmpl_ext_refl [simp]: "tmpl_ext m m"
  by (simp add: tmpl_ext_def)

lemma tmpl_ext_trans: "tmpl_ext a b \<Longrightarrow> tmpl_ext b c \<Longrightarrow> tmpl_ext a c"
  by (simp add: tmpl_ext_def)

lemma groups_of_put_entry:
  "groups_of k' (put_entry k guid p chance m) = (if k' = k then (groups_of k m)(p \<mapsto>
     AddEntry (PoolObject guid chance) (MaxLimit (template_at m p))
       ((case groups_of k m p of Some g \<Rightarrow> g | None \<Rightarrow> PoolGroup_new)\<lparr>pg_poolId := p\<rparr>))
   else groups_of k' m)"
  by (cases k; cases k') (simp_all add: put_entry_def groups_of_def Let_def)

lemma search_of_put_entry:
  "search_of k' (put_entry k guid p chance m) =
    (if k' = k then map_insert guid p (search_of k m) else search_of k' m)"
  by (cases k; cases k') (simp_all add: put_entry_def search_of_def Let_def)

lemma mPoolTemplate_put_entry [simp]: "mPoolTemplate (put_entry k guid p chance m) = mPoolTemplate m"
  by (cases k) (simp_all add: put_entry_def Let_def)

lemma template_at_put_entry [simp]: "template_at (put_entry k guid p chance m) q = template_at m q"
  by (simp add: template_at_def)

lemma mset_AddEntry: "mset (all_objs (AddEntry o1 l g)) = add_mset o1 (mset (all_objs g))"
  by (simp add: AddEntry_def)

lemma AddEntry_poolId [simp]: "pg_poolId (AddEntry o1 l g) = pg_poolId g"
  by (simp add: AddEntry_def)

lemma put_entry_inv:
  assumes inv: "group_inv m" and new: "search_of k m guid = None"
  shows "group_inv (put_entry k guid p chance m)"
    and "search_of k (put_entry k guid p chance m) = (search_of k m)(guid \<mapsto> p)"
proof -
  let ?m = "put_entry k guid p chance m"
  show s: "search_of k ?m = (search_of k m)(guid \<mapsto> p)"
    by (simp add: search_of_put_entry map_insert_def new)
  define g0 where "g0 = (case groups_of k m p of Some g \<Rightarrow> g | None \<Rightarrow> PoolGroup_new)\<lparr>pg_poolId := p\<rparr>"
  define g1 where "g1 = AddEntry (PoolObject guid chance) (MaxLimit (template_at m p)) g0"
  have g: "groups_of k' ?m q = (if k' = k \<and> q = p then Some g1 else groups_of k' m q)" for k' q
    by (auto simp: groups_of_put_entry g1_def g0_def)
  have m0: "po_guid ` set (all_objs g0) = members m k p"
    by (auto simp: g0_def members_def PoolGroup_new_def split: option.splits)
  have d0: "distinct (map po_guid (all_objs g0))"
    using group_invD(2) [OF inv, of k p] by (auto simp: g0_def PoolGroup_new_def split: option.splits)
  have notin: "guid \<notin> members m k q" for q using group_invD(3) [OF inv, of k guid q] new by simp
  have "mset (map po_guid (all_objs g1)) = add_mset guid (mset (map po_guid (all_objs g0)))"
    using mset_AddEntry [of "PoolObject guid chance" _ g0] unfolding g1_def mset_map
    by (simp add: PoolObject_def)
  then have "mset (map po_guid (all_objs g1)) = mset (guid # map po_guid (all_objs g0))" by simp
  moreover have "distinct (guid # map po_guid (all_objs g0))"
    using d0 m0 notin [of p] by (metis distinct.simps(2) list.set_map)
  ultimately have d1: "distinct (map po_guid (all_objs g1))" by (metis mset_eq_imp_distinct_iff)
  have "set (map po_guid (all_objs g1)) = insert guid (set (map po_guid (all_objs g0)))"
    using \<open>mset (map po_guid (all_objs g1)) = mset (guid # _)\<close> by (metis list.simps(15) set_mset_mset)
  with m0 have m1: "po_guid ` set (all_objs g1) = insert guid (members m k p)" by (metis list.set_map)
  have mem: "members ?m k' q = (if k' = k \<and> q = p then insert guid (members m k p) else members m k' q)" for k' q
    using m1 by (auto simp: members_def g)
  show "group_inv ?m"
    unfolding group_inv_def
  proof (intro conjI allI impI)
    fix k' q h assume h: "groups_of k' ?m q = Some h"
    show "pg_poolId h = q" using h group_invD(1) [OF inv] by (auto simp: g g1_def g0_def split: if_splits)
    show "distinct (map po_guid (all_objs h))"
    proof (cases "k' = k \<and> q = p")
      case True
      with h g d1 show ?thesis by simp
    next
      case False
      with h g show ?thesis using group_invD(2) [OF inv, of k' q h] by (simp only: if_False)
    qed
  next
    fix k' x q
    show "search_of k' ?m x = Some q \<longleftrightarrow> x \<in> members ?m k' q"
    proof (cases "k' = k")
      case True
      show ?thesis using group_invD(3) [OF inv, of k x q] notin [of q] unfolding True s mem
        by (cases "x = guid") auto
    next
      case False
      then have "search_of k' ?m = search_of k' m" by (simp add: search_of_put_entry)
      with False group_invD(3) [OF inv, of k' x q] show ?thesis by (simp only: mem simp_thms if_False)
    qed
  qed
qed

section \<open>The tables of members\<close>

lemma set_MapId_simps [simp]:
  "groups_of k (set_MapId p v m) = groups_of k m"
  "search_of k (set_MapId p v m) = search_of k m"
  "mPoolSearchMap (set_MapId p v m) = mPoolSearchMap m"
  "members (set_MapId p v m) k q = members m k q"
  "MapId (template_at (set_MapId p v m) q) = (if q = p then v else MapId (template_at m q))"
  by (cases k; simp add: set_MapId_def groups_of_def search_of_def members_def template_at_def)+

lemma set_MapId_group_inv [simp]: "group_inv (set_MapId p v m) = group_inv m"
  by (simp add: group_inv_def)

lemma set_MapId_ext:
  assumes "mPoolTemplate m p \<noteq> None" and "MapId (template_at m p) = -1"
  shows "tmpl_ext m (set_MapId p v m)"
  using assms by (auto simp: tmpl_ext_def) (auto simp: set_MapId_def GetMaxLimit_def template_at_def fun_eq_iff split: if_splits)

lemma set_MapId_inv:
  assumes "load_inv m" and "mPoolTemplate m p \<noteq> None" and "v \<noteq> -1"
  shows "load_inv (set_MapId p v m)"
proof -
  have "mPoolTemplate (set_MapId p v m) q = None \<longleftrightarrow> mPoolTemplate m q = None" for q
    using assms(2) by (simp add: set_MapId_def)
  with assms show ?thesis by (auto simp: load_inv_def link_inv_def dir_inv_def)
qed

lemma members_put_entry:
  assumes "group_inv m" and "search_of k m guid = None"
  shows "members (put_entry k guid p chance m) k' q = (if k' = k \<and> q = p then insert guid (members m k p) else members m k' q)"
proof -
  have "x \<in> members (put_entry k guid p chance m) k' q \<longleftrightarrow>
      x \<in> (if k' = k \<and> q = p then insert guid (members m k p) else members m k' q)" for x
    using group_invD(3) [OF put_entry_inv(1) [OF assms, of p chance], of k' x q, symmetric]
      group_invD(3) [OF assms(1), of k' x q, symmetric] group_invD(3) [OF assms(1), of k' guid q, symmetric] assms(2)
    by (cases "x = guid"; cases "k' = k"; cases "q = p") (auto simp: search_of_put_entry map_insert_def)
  then show ?thesis by blast
qed

lemma put_entry_load_inv:
  assumes inv: "load_inv m" and new: "search_of k m guid = None" and nz: "guid \<noteq> 0" and p: "mPoolTemplate m p \<noteq> None"
    and pk: "k = PoolKind \<Longrightarrow> \<exists>c :: u32. guid = ucast c \<and> mPoolTemplate m c \<noteq> None"
    and map: "k \<noteq> PoolKind \<Longrightarrow> MapId (template_at m p) \<noteq> -1"
  shows "load_inv (put_entry k guid p chance m)"
proof -
  have g: "group_inv m" and l: "link_inv m" and d: "dir_inv m" using inv by (simp_all add: load_inv_def)
  let ?m = "put_entry k guid p chance m"
  have ps: "mPoolSearchMap ?m = (if k = PoolKind then (mPoolSearchMap m)(guid \<mapsto> p) else mPoolSearchMap m)"
    using search_of_put_entry [of PoolKind k guid p chance m] new
    by (cases k) (simp_all add: search_of_def map_insert_def)
  have "link_inv ?m"
    using l nz p pk by (auto simp: link_inv_def ps search_of_put_entry map_insert_def split: option.splits)
  moreover have "dir_inv ?m"
    using d map by (auto simp: dir_inv_def members_put_entry [OF g new])
  ultimately show ?thesis using put_entry_inv(1) [OF g new] by (simp add: load_inv_def)
qed

text \<open>What the reading of a row does.\<close>

definition row_done :: "pool_kind \<Rightarrow> u64 \<Rightarrow> 'f pool_mgr \<Rightarrow> 'f pool_mgr \<Rightarrow> bool" where
  "row_done k guid m m' \<longleftrightarrow> load_inv m' \<and> tmpl_ext m m' \<and>
    mAutoSpawnPoolsPerMap m' = mAutoSpawnPoolsPerMap m \<and>
    (\<forall>k' x. k' \<noteq> k \<or> x \<noteq> guid \<longrightarrow> search_of k' m' x = search_of k' m x)"

lemma row_done_put:
  assumes "load_inv (put_entry k guid p chance m)" and "search_of k m guid = None"
  shows "row_done k guid m (put_entry k guid p chance m)"
proof -
  have "mAutoSpawnPoolsPerMap (put_entry k guid p chance m) = mAutoSpawnPoolsPerMap m"
    by (cases k) (simp_all add: put_entry_def Let_def)
  with assms show ?thesis
    by (auto simp: row_done_def tmpl_ext_def search_of_put_entry map_insert_def GetMaxLimit_def)
qed

lemma load_member_done:
  assumes k: "k \<noteq> PoolKind" and inv: "load_inv m" and new: "search_of k m guid = None" and nz: "guid \<noteq> 0"
    and data: "\<And>g mapId. data g = Some mapId \<Longrightarrow> sint mapId \<noteq> -1"
  shows "row_done k guid m (load_member k hundred data (guid, p, chance) m)"
proof (cases "data guid")
  case None
  with inv show ?thesis by (simp add: load_member_def row_done_def)
next
  case (Some mapId)
  then have v: "sint mapId \<noteq> -1" by (rule data)
  show ?thesis
  proof (cases "mPoolTemplate m p = None \<or> chance < 0 \<or> hundred < chance")
    case True
    with Some inv show ?thesis by (auto simp: load_member_def row_done_def)
  next
    case False
    then have p: "mPoolTemplate m p \<noteq> None" by simp
    define m1 where "m1 = (if MapId (template_at m p) = -1 then set_MapId p (sint mapId) m else m)"
    have m1: "load_inv m1" "tmpl_ext m m1" and s1: "search_of k' m1 = search_of k' m" for k'
      using inv p v set_MapId_inv [OF inv p v] set_MapId_ext [OF p] by (simp_all add: m1_def)
    have a1: "mAutoSpawnPoolsPerMap m1 = mAutoSpawnPoolsPerMap m" by (simp add: m1_def set_MapId_def)
    have p1: "mPoolTemplate m1 p \<noteq> None" using p by (simp add: m1_def set_MapId_def)
    have eq: "load_member k hundred data (guid, p, chance) m =
        (if MapId (template_at m1 p) \<noteq> sint mapId then m1 else put_entry k guid p chance m1)"
      using False Some by (auto simp: load_member_def m1_def Let_def)
    show ?thesis
    proof (cases "MapId (template_at m1 p) = sint mapId")
      case True
      have "load_inv (put_entry k guid p chance m1)"
        by (rule put_entry_load_inv [OF m1(1) _ nz p1]) (use k new s1 True v in simp_all)
      from row_done_put [OF this] new s1 eq True m1(2) a1 show ?thesis
        by (auto simp: row_done_def intro: tmpl_ext_trans)
    next
      case False
      with eq m1 s1 a1 show ?thesis by (simp add: row_done_def)
    qed
  qed
qed

lemma load_pool_done:
  assumes inv: "load_inv m" and new: "mPoolSearchMap m (ucast (ucast x :: u32)) = None"
  shows "row_done PoolKind (ucast (ucast x :: u32)) m (load_pool hundred (x, p, chance) m)"
proof (cases "mPoolTemplate m p = None \<or> mPoolTemplate m (ucast x) = None \<or> p = ucast x \<or> chance < 0 \<or> hundred < chance")
  case True
  with inv show ?thesis by (auto simp: load_pool_def row_done_def Let_def)
next
  case False
  have new': "search_of PoolKind m (ucast (ucast x :: u32)) = None" using new by (simp add: search_of_def)
  have "(ucast x :: u32) \<noteq> 0" using False inv by (auto simp: load_inv_def link_inv_def)
  then have "(ucast (ucast x :: u32) :: u64) \<noteq> 0" by (metis ucast_pool ucast_0)
  from put_entry_load_inv [OF inv new' this, of p chance] False
  have "load_inv (put_entry PoolKind (ucast (ucast x :: u32)) p chance m)" by auto
  from row_done_put [OF this new'] False show ?thesis by (auto simp: load_pool_def Let_def)
qed

text \<open>A table whose keys are distinct is read row by row.\<close>

lemma rows_done:
  assumes step: "\<And>r m. r \<in> set rows \<Longrightarrow> load_inv m \<Longrightarrow> search_of k m (key r) = None \<Longrightarrow> row_done k (key r) m (f r m)"
  shows "load_inv m \<Longrightarrow> distinct (map key rows) \<Longrightarrow> (\<And>r. r \<in> set rows \<Longrightarrow> search_of k m (key r) = None) \<Longrightarrow>
    load_inv (fold f rows m) \<and> tmpl_ext m (fold f rows m) \<and>
    mAutoSpawnPoolsPerMap (fold f rows m) = mAutoSpawnPoolsPerMap m \<and>
    (\<forall>k' x. k' \<noteq> k \<or> x \<notin> key ` set rows \<longrightarrow> search_of k' (fold f rows m) x = search_of k' m x)"
  using step
proof (induction rows arbitrary: m)
  case (Cons r rows)
  have d: "row_done k (key r) m (f r m)" by (rule Cons.prems(4)) (use Cons.prems(1,3) in auto)
  have s: "search_of k (f r m) (key r') = None" if "r' \<in> set rows" for r'
  proof -
    have "key r' \<noteq> key r" using Cons.prems(2) that by (metis distinct.simps(2) list.simps(9) list.set_map imageI)
    with d Cons.prems(3) [of r'] that show ?thesis by (simp add: row_done_def)
  qed
  have "load_inv (fold f rows (f r m)) \<and> tmpl_ext (f r m) (fold f rows (f r m)) \<and>
    mAutoSpawnPoolsPerMap (fold f rows (f r m)) = mAutoSpawnPoolsPerMap (f r m) \<and>
    (\<forall>k' x. k' \<noteq> k \<or> x \<notin> key ` set rows \<longrightarrow> search_of k' (fold f rows (f r m)) x = search_of k' (f r m) x)"
    by (rule Cons.IH) (use d s Cons.prems(2,4) in \<open>auto simp: row_done_def\<close>)
  with d show ?case by (auto simp: row_done_def intro: tmpl_ext_trans)
qed simp

section \<open>Links\<close>

definition mother_of :: "'f pool_mgr \<Rightarrow> u32 \<Rightarrow> u32 option" where
  "mother_of m c = mPoolSearchMap m (ucast c)"

lemma remove_first_set:
  "distinct (map po_guid objs) \<Longrightarrow> po_guid ` set (remove_first x objs) = po_guid ` set objs - {x}"
  by (induction x objs rule: remove_first.induct) (auto simp: rev_image_eqI)

lemma remove_first_subset: "set (remove_first x objs) \<subseteq> set objs"
  by (induction x objs rule: remove_first.induct) auto

lemma remove_first_distinct: "distinct (map po_guid objs) \<Longrightarrow> distinct (map po_guid (remove_first x objs))"
  using remove_first_subset by (induction x objs rule: remove_first.induct) fastforce+

lemma groups_of_remove_link:
  "groups_of k (remove_link mother child m) q = (if k = PoolKind \<and> q = mother
    then Some (RemoveOneRelation child (case mPoolPoolGroups m mother of Some g \<Rightarrow> g | None \<Rightarrow> PoolGroup_new))
    else groups_of k m q)"
  by (cases k) (simp_all add: remove_link_def groups_of_def Let_def)

lemma search_of_remove_link:
  "search_of k (remove_link mother child m) =
    (if k = PoolKind then (mPoolSearchMap m)(ucast child := None) else search_of k m)"
  by (cases k) (simp_all add: remove_link_def search_of_def Let_def)

lemma remove_link_simps [simp]:
  "mPoolTemplate (remove_link mother child m) = mPoolTemplate m"
  "template_at (remove_link mother child m) q = template_at m q"
  "mPoolSearchMap (remove_link mother child m) = (mPoolSearchMap m)(ucast child := None)"
  "mAutoSpawnPoolsPerMap (remove_link mother child m) = mAutoSpawnPoolsPerMap m"
  by (simp_all add: remove_link_def template_at_def Let_def)

lemma remove_link_inv:
  assumes inv: "load_inv m" and l: "mother_of m child = Some mother"
  shows "load_inv (remove_link mother child m)" and "tmpl_ext m (remove_link mother child m)"
proof -
  let ?m = "remove_link mother child m"
  have gi: "group_inv m" using inv by (simp add: load_inv_def)
  from l have "ucast child \<in> members m PoolKind mother"
    using group_invD(3) [OF gi, of PoolKind] by (simp add: mother_of_def search_of_def)
  then obtain g where g: "groups_of PoolKind m mother = Some g" by (auto simp: members_def split: option.splits)
  then have g': "mPoolPoolGroups m mother = Some g" by (simp add: groups_of_def)
  have d: "distinct (map po_guid (all_objs g))" by (rule group_invD(2) [OF gi g])
  have objs: "po_guid ` set (all_objs (RemoveOneRelation child g)) = members m PoolKind mother - {ucast child}"
    using d g by (simp add: RemoveOneRelation_def remove_first_set members_def image_Un Un_Diff)
  have dg: "distinct (map po_guid (all_objs (RemoveOneRelation child g)))"
    using d remove_first_subset [of "ucast child" "EqualChanced g"] remove_first_subset [of "ucast child" "ExplicitlyChanced g"]
    by (auto simp: RemoveOneRelation_def remove_first_distinct)
  have mem: "members ?m k q = (if k = PoolKind \<and> q = mother then members m k q - {ucast child} else members m k q)" for k q
    using objs by (simp add: members_def groups_of_remove_link g')
  have one: "ucast child \<in> members m PoolKind q \<Longrightarrow> q = mother" for q
    using group_invD(3) [OF gi, of PoolKind "ucast child" q, symmetric] l by (simp add: mother_of_def search_of_def)
  have "group_inv ?m"
    unfolding group_inv_def
  proof (intro conjI allI impI)
    fix k q h assume h: "groups_of k ?m q = Some h"
    then show "pg_poolId h = q"
      using group_invD(1) [OF gi, of k q h] group_invD(1) [OF gi g]
      by (auto simp: groups_of_remove_link g' RemoveOneRelation_def split: if_splits)
    show "distinct (map po_guid (all_objs h))"
    proof (cases "k = PoolKind \<and> q = mother")
      case True
      with h g' dg show ?thesis by (simp add: groups_of_remove_link)
    next
      case False
      with h group_invD(2) [OF gi, of k q h] show ?thesis by (simp only: groups_of_remove_link if_False)
    qed
  next
    fix k x q
    show "search_of k ?m x = Some q \<longleftrightarrow> x \<in> members ?m k q"
    proof (cases "k = PoolKind")
      case True
      have "mPoolSearchMap m x = Some q \<longleftrightarrow> x \<in> members m PoolKind q"
        using group_invD(3) [OF gi, of PoolKind x q] by (simp add: search_of_def)
      with True one [of q] show ?thesis by (auto simp: search_of_remove_link mem)
    next
      case False
      with group_invD(3) [OF gi, of k x q] show ?thesis by (simp add: search_of_remove_link mem)
    qed
  qed
  moreover have "search_of PoolKind m 0 = None" using inv unfolding load_inv_def link_inv_def by blast
  then have "link_inv ?m"
    using inv by (auto simp: load_inv_def link_inv_def search_of_remove_link search_of_def [of PoolKind] split: if_splits)
  moreover have "dir_inv ?m" using inv by (auto simp: load_inv_def dir_inv_def mem)
  ultimately show "load_inv ?m" by (simp add: load_inv_def)
  show "tmpl_ext m ?m" by (simp add: tmpl_ext_def GetMaxLimit_def fun_eq_iff)
qed

subsection \<open>The walk over the mothers\<close>

text \<open>A pool from which the walk ends, and one whose ancestors are all on a map.\<close>

inductive ends :: "(u32 \<Rightarrow> u32 option) \<Rightarrow> u32 \<Rightarrow> bool" for f where
  top: "f c = None \<Longrightarrow> ends f c"
| up: "f c = Some p \<Longrightarrow> ends f p \<Longrightarrow> ends f c"

inductive on_map :: "(u32 \<Rightarrow> u32 option) \<Rightarrow> (u32 \<Rightarrow> int) \<Rightarrow> int \<Rightarrow> u32 \<Rightarrow> bool" for f mp v where
  top: "f c = None \<Longrightarrow> mp c = v \<Longrightarrow> on_map f mp v c"
| up: "f c = Some p \<Longrightarrow> mp c = v \<Longrightarrow> on_map f mp v p \<Longrightarrow> on_map f mp v c"

text \<open>Links are only removed, and maps only set where there was none.\<close>

definition walked :: "'f pool_mgr \<Rightarrow> 'f pool_mgr \<Rightarrow> bool" where
  "walked m m' \<longleftrightarrow> load_inv m' \<and> tmpl_ext m m' \<and> mAutoSpawnPoolsPerMap m' = mAutoSpawnPoolsPerMap m \<and>
    (\<forall>k. k \<noteq> PoolKind \<longrightarrow> search_of k m' = search_of k m) \<and>
    (\<forall>c p. mother_of m' c = Some p \<longrightarrow> mother_of m c = Some p)"

lemma walked_trans: "walked a b \<Longrightarrow> walked b c \<Longrightarrow> walked a c"
  unfolding walked_def using tmpl_ext_trans by metis

abbreviation maps_of :: "'f pool_mgr \<Rightarrow> u32 \<Rightarrow> int" where
  "maps_of m \<equiv> \<lambda>p. MapId (template_at m p)"

lemma ends_walked:
  assumes "ends (mother_of m) c" and w: "walked m m'"
  shows "ends (mother_of m') c"
  using assms(1)
proof induction
  case (top c)
  with w have "mother_of m' c = None" unfolding walked_def by (metis option.exhaust)
  then show ?case by (rule ends.top)
next
  case (up c p)
  then show ?case
    using w by (cases "mother_of m' c") (auto simp: walked_def intro: ends.intros)
qed

lemma on_map_walked:
  assumes "on_map (mother_of m) (maps_of m) v c" and w: "walked m m'" and v: "v \<noteq> -1"
  shows "on_map (mother_of m') (maps_of m') v c"
  using assms(1)
proof induction
  case (top c)
  with w have "mother_of m' c = None" unfolding walked_def by (metis option.exhaust)
  moreover have "maps_of m' c = v" using top w v by (simp add: walked_def tmpl_ext_def)
  ultimately show ?case by (rule on_map.top)
next
  case (up c p)
  have "maps_of m' c = v" using up w v by (simp add: walked_def tmpl_ext_def)
  with up w show ?case
    by (cases "mother_of m' c") (auto simp: walked_def intro: on_map.intros)
qed

lemma walked_set_MapId:
  assumes inv: "load_inv m" and l: "mother_of m c = Some p" and "MapId (template_at m c) \<noteq> -1" and "MapId (template_at m p) = -1"
  shows "walked m (set_MapId p (MapId (template_at m c)) m)"
proof -
  have "mPoolTemplate m p \<noteq> None" using inv l unfolding load_inv_def link_inv_def mother_of_def by blast
  from set_MapId_inv [OF inv this assms(3)] set_MapId_ext [OF this assms(4)] show ?thesis
    by (simp add: walked_def mother_of_def) (simp add: set_MapId_def)
qed

lemma walked_remove_link:
  "load_inv m \<Longrightarrow> mother_of m c = Some p \<Longrightarrow> walked m (remove_link p c m)"
  using remove_link_inv [of m c p] by (simp add: walked_def search_of_remove_link) (simp add: mother_of_def)

text \<open>
  The walk from a pool returns (it is a total function), leaves the walk from this pool without a cycle, and
  puts all the ancestors of a pool with a map on this map.
\<close>

lemma check_links_ok:
  "load_inv m \<Longrightarrow> walked m (check_links checked c m) \<and> ends (mother_of (check_links checked c m)) c \<and>
    (MapId (template_at m c) \<noteq> -1 \<longrightarrow>
      on_map (mother_of (check_links checked c m)) (maps_of (check_links checked c m)) (MapId (template_at m c)) c)"
proof (induction checked c m rule: check_links.induct)
  case (1 checked c m)
  let ?r = "check_links checked c m"
  show ?case
  proof (cases "mother_of m c")
    case None
    then have "?r = m" by (simp add: check_links.simps [of checked c m] mother_of_def)
    with None "1.prems" show ?thesis by (auto simp: walked_def intro: ends.top on_map.top)
  next
    case (Some p)
    then have f: "mPoolSearchMap m (ucast c) = Some p" by (simp add: mother_of_def)
    define m1 where "m1 = (if MapId (template_at m c) \<noteq> -1 \<and> MapId (template_at m p) = -1
                   then set_MapId p (MapId (template_at m c)) m else m)"
    have w1: "walked m m1" using "1.prems" walked_set_MapId [OF "1.prems" Some] by (simp add: m1_def walked_def)
    have l1: "mother_of m1 c = Some p" using Some by (simp add: m1_def mother_of_def)
    have i1: "load_inv m1" using w1 by (simp add: walked_def)
    have c1: "MapId (template_at m1 c) = MapId (template_at m c)" by (auto simp: m1_def)
    show ?thesis
    proof (cases "(MapId (template_at m c) \<noteq> -1 \<and> MapId (template_at m1 p) \<noteq> MapId (template_at m1 c)) \<or> p \<in> insert c checked")
      case True
      then have r: "?r = remove_link p c m1"
        using f by (simp add: check_links.simps [of checked c m] m1_def [symmetric] Let_def) (auto simp: m1_def Let_def)
      have n: "mother_of (remove_link p c m1) c = None" by (simp add: mother_of_def)
      show ?thesis
        using walked_trans [OF w1 walked_remove_link [OF i1 l1]] n c1 unfolding r
        by (auto intro: ends.top on_map.top)
    next
      case False
      then have r: "?r = check_links (insert c checked) p m1"
        using f by (simp add: check_links.simps [of checked c m] m1_def [symmetric] Let_def) (auto simp: m1_def Let_def)
      have IH: "walked m1 ?r \<and> ends (mother_of ?r) p \<and>
          (MapId (template_at m1 p) \<noteq> -1 \<longrightarrow> on_map (mother_of ?r) (maps_of ?r) (MapId (template_at m1 p)) p)"
        unfolding r by (rule "1.IH" [OF f m1_def]) (use False i1 in auto)
      have w: "walked m ?r" using w1 IH walked_trans by blast
      have e: "ends (mother_of ?r) c"
      proof (cases "mother_of ?r c")
        case (Some q)
        with w \<open>mother_of m c = Some p\<close> have "q = p" by (auto simp: walked_def)
        with Some IH show ?thesis by (auto intro: ends.up)
      qed (rule ends.top)
      have "on_map (mother_of ?r) (maps_of ?r) (MapId (template_at m c)) c" if mc: "MapId (template_at m c) \<noteq> -1"
      proof -
        have v: "MapId (template_at m1 p) = MapId (template_at m c)" using False mc c1 by simp
        have vc: "maps_of ?r c = MapId (template_at m c)" using w mc by (simp add: walked_def tmpl_ext_def)
        show ?thesis
        proof (cases "mother_of ?r c")
          case None
          then show ?thesis using vc by (rule on_map.top)
        next
          case (Some q)
          with w \<open>mother_of m c = Some p\<close> have "q = p" by (auto simp: walked_def)
          with Some IH v mc vc show ?thesis by (auto intro: on_map.up)
        qed
      qed
      with w e show ?thesis by blast
    qed
  qed
qed

lemma check_all_links_ok:
  assumes "load_inv m"
  shows "walked m (check_all_links ids m) \<and> (\<forall>c \<in> set ids. ends (mother_of (check_all_links ids m)) c \<and>
    (MapId (template_at m c) \<noteq> -1 \<longrightarrow>
      on_map (mother_of (check_all_links ids m)) (maps_of (check_all_links ids m)) (MapId (template_at m c)) c))"
  using assms
proof (induction ids arbitrary: m)
  case Nil
  then show ?case by (simp add: check_all_links_def walked_def)
next
  case (Cons c ids)
  let ?m = "check_links {} c m" and ?r = "check_all_links (c # ids) m"
  have r: "?r = check_all_links ids ?m" by (simp add: check_all_links_def)
  have c: "walked m ?m" "ends (mother_of ?m) c" "MapId (template_at m c) \<noteq> -1 \<longrightarrow>
      on_map (mother_of ?m) (maps_of ?m) (MapId (template_at m c)) c"
    using check_links_ok [OF Cons.prems, of "{}" c] by blast+
  then have "load_inv ?m" by (simp add: walked_def)
  from Cons.IH [OF this] have w: "walked ?m ?r"
    and e: "\<forall>d \<in> set ids. ends (mother_of ?r) d \<and>
      (MapId (template_at ?m d) \<noteq> -1 \<longrightarrow> on_map (mother_of ?r) (maps_of ?r) (MapId (template_at ?m d)) d)"
    unfolding r by blast+
  have "MapId (template_at m d) \<noteq> -1 \<Longrightarrow> MapId (template_at ?m d) = MapId (template_at m d)" for d
    using c(1) by (simp add: walked_def tmpl_ext_def)
  with e have "\<forall>d \<in> set ids. ends (mother_of ?r) d \<and>
      (MapId (template_at m d) \<noteq> -1 \<longrightarrow> on_map (mother_of ?r) (maps_of ?r) (MapId (template_at m d)) d)" by metis
  moreover have "ends (mother_of ?r) c" by (rule ends_walked [OF c(2) w])
  moreover have "MapId (template_at m c) \<noteq> -1 \<longrightarrow>
      on_map (mother_of ?r) (maps_of ?r) (MapId (template_at m c)) c"
    using c(3) on_map_walked [OF _ w] by blast
  ultimately show ?case using walked_trans [OF c(1) w] by (simp only: list.set ball_simps simp_thms)
qed

lemma ends_no_cycle:
  assumes f: "\<And>c p. (c, p) \<in> R \<Longrightarrow> f c = Some p" and "ends f c"
  shows "(c, c) \<notin> R\<^sup>+"
  using assms(2)
proof induction
  case (top c)
  show ?case
  proof
    assume "(c, c) \<in> R\<^sup>+"
    then obtain p where "(c, p) \<in> R" by (meson tranclD)
    with f top show False by fastforce
  qed
next
  case (up c p)
  show ?case
  proof
    assume "(c, c) \<in> R\<^sup>+"
    then obtain q where q: "(c, q) \<in> R" "(q, c) \<in> R\<^sup>*" by (meson tranclD)
    with f up have "q = p" by fastforce
    with q have "(p, p) \<in> R\<^sup>+" by (meson rtrancl_into_trancl1)
    with up.IH show False by simp
  qed
qed

section \<open>The loaded manager\<close>

lemma load_inv_wf:
  assumes inv: "load_inv m" and e: "\<And>c. ends (mother_of m) c" and lim: "\<And>p. unat (GetMaxLimit m p) < 2 ^ 31 - 1"
  shows "pools_wf m"
proof -
  have gi: "group_inv m" and li: "link_inv m" using inv by (simp_all add: load_inv_def)
  note mem = group_invD(3) [OF gi, symmetric]
  have "(c, p) \<in> child_of m \<Longrightarrow> mother_of m c = Some p" for c p
    by (simp add: child_of_def mem mother_of_def search_of_def)
  from ends_no_cycle [of "child_of m" "mother_of m", OF this e] have ac: "acyclic (child_of m)"
    by (simp add: acyclic_def)
  have "p \<noteq> 0 \<and> (\<exists>c :: u32. x = ucast c)" if "x \<in> members m PoolKind p" for x p
  proof -
    from that have "mPoolSearchMap m x = Some p" by (simp add: mem search_of_def)
    with li have "mPoolTemplate m p \<noteq> None" and "\<exists>c :: u32. x = ucast c" and "mPoolTemplate m 0 = None"
      unfolding link_inv_def by blast+
    then show ?thesis by metis
  qed
  moreover have "0 \<notin> members m k p" for k p using li by (simp add: mem link_inv_def)
  moreover have "p = q" if "x \<in> members m k p" and "x \<in> members m k q" for k p q x
    using that by (simp add: mem)
  moreover have "mPoolSearchMap m x = Some p \<longleftrightarrow> x \<in> members m PoolKind p" for x p
    by (simp add: mem search_of_def)
  ultimately show ?thesis
    unfolding pools_wf_def using group_invD(1,2) [OF gi] ac lim by (intro conjI allI impI) blast+
qed

lemma all_pools_empty_ok:
  assumes "\<And>obj. obj \<in> set objs \<Longrightarrow> \<exists>b. e (ucast (po_guid obj)) = Some b \<and> (\<not> b \<longrightarrow> P)"
  shows "\<exists>b. all_pools_empty e objs = Some b \<and> (\<not> b \<longrightarrow> P)"
  using assms
proof (induction objs)
  case (Cons obj objs)
  from Cons.prems [of obj] obtain b where b: "e (ucast (po_guid obj)) = Some b" "\<not> b \<longrightarrow> P" by auto
  from Cons.IH Cons.prems have "\<exists>b. all_pools_empty e objs = Some b \<and> (\<not> b \<longrightarrow> P)" by simp
  with b show ?case by (cases b) auto
qed (simp add: exI [of _ True])

text \<open>The test for emptiness returns, and a pool that is not empty has a member on the map below it.\<close>

lemma IsEmpty_ok:
  assumes wf: "pools_wf m"
  shows "\<exists>b. IsEmpty m p = Some b \<and> (\<not> b \<longrightarrow> (\<exists>d \<in> below m p. \<exists>k. k \<noteq> PoolKind \<and> members m k d \<noteq> {}))"
  using wf_child_of [OF wf]
proof (induction p rule: wf_induct_rule)
  case (less p)
  let ?P = "\<exists>d \<in> below m p. \<exists>k. k \<noteq> PoolKind \<and> members m k d \<noteq> {}"
  have direct: "?P" if "\<not> group_isEmpty m k p" "k \<noteq> PoolKind" for k
  proof -
    from that have "members m k p \<noteq> {}"
      by (auto simp: group_isEmpty_def members_def pg_isEmpty_def split: option.splits)
    with that(2) show ?thesis using below_self by blast
  qed
  show ?case
  proof (cases "group_isEmpty m GameObjectKind p \<and> group_isEmpty m CreatureKind p")
    case False
    then have "IsEmpty m p = Some False" by (subst IsEmpty.simps) auto
    with False direct show ?thesis by auto
  next
    case True
    show ?thesis
    proof (cases "mPoolPoolGroups m p")
      case None
      with True have "IsEmpty m p = Some True" by (subst IsEmpty.simps) simp
      then show ?thesis by (intro exI [of _ True]) simp
    next
      case (Some g)
      have ch: "\<exists>b. IsEmpty m (ucast (po_guid obj)) = Some b \<and> (\<not> b \<longrightarrow> ?P)" if "obj \<in> set (all_objs g)" for obj
      proof -
        have "po_guid obj \<in> members m PoolKind p" using that Some by (auto simp: members_def groups_of_def)
        with wf obtain c where c: "po_guid obj = ucast c" "(c, p) \<in> child_of m" by (auto elim: member_pool)
        from less.IH [OF c(2)] obtain b where "IsEmpty m c = Some b"
          and "\<not> b \<longrightarrow> (\<exists>d \<in> below m c. \<exists>k. k \<noteq> PoolKind \<and> members m k d \<noteq> {})" by blast
        with below_child [OF c(2)] show ?thesis by (intro exI [of _ b]) (auto simp: c(1))
      qed
      obtain b1 where b1: "all_pools_empty (IsEmpty m) (ExplicitlyChanced g) = Some b1" "\<not> b1 \<longrightarrow> ?P"
        using all_pools_empty_ok [of "ExplicitlyChanced g" "IsEmpty m" ?P, OF ch] by auto
      obtain b2 where b2: "all_pools_empty (IsEmpty m) (EqualChanced g) = Some b2" "\<not> b2 \<longrightarrow> ?P"
        using all_pools_empty_ok [of "EqualChanced g" "IsEmpty m" ?P, OF ch] by auto
      have "IsEmpty m p = Some (b1 \<and> b2)"
        using True Some b1(1) b2(1) by (subst IsEmpty.simps) (simp add: pool_isEmptyDeepCheck_def)
      with b1(2) b2(2) show ?thesis by auto
    qed
  qed
qed

lemma on_map_ancestor:
  assumes "on_map f mp v c" and "\<And>c p. (c, p) \<in> R \<Longrightarrow> f c = Some p" and "(c, p) \<in> R\<^sup>*"
  shows "mp p = v"
  using assms(1,3)
proof (induction arbitrary: p)
  case (top c)
  have "p = c"
  proof (rule ccontr)
    assume "p \<noteq> c"
    with top.prems obtain q where "(c, q) \<in> R" by (metis converse_rtranclE)
    with assms(2) top.hyps show False by fastforce
  qed
  with top show ?case by simp
next
  case (up c q)
  show ?case
  proof (cases "p = c")
    case False
    with up.prems obtain r where "(c, r) \<in> R" "(r, p) \<in> R\<^sup>*" by (metis converse_rtranclE)
    with assms(2) up have "(q, p) \<in> R\<^sup>*" by fastforce
    then show ?thesis by (rule up.IH)
  qed (use up in simp)
qed

lemma assert_maps_ok:
  assumes "\<And>p. p \<in> set ids \<Longrightarrow> \<exists>b. IsEmpty m p = Some b \<and> (\<not> b \<longrightarrow> MapId (template_at m p) \<noteq> -1)"
  shows "assert_maps m ids = Some True"
  using assms
proof (induction ids)
  case (Cons p ids)
  from Cons.prems [of p] obtain b where "IsEmpty m p = Some b" "\<not> b \<longrightarrow> MapId (template_at m p) \<noteq> -1" by auto
  with Cons show ?case by auto
qed simp

text \<open>The last loop only fills the lists of pools to spawn.\<close>

lemma auto_spawn_simps [simp]:
  "groups_of k (m\<lparr>mAutoSpawnPoolsPerMap := a\<rparr>) = groups_of k m"
  "template_at (m\<lparr>mAutoSpawnPoolsPerMap := a\<rparr>) = template_at m"
  "members (m\<lparr>mAutoSpawnPoolsPerMap := a\<rparr>) k p = members m k p"
  "GetMaxLimit (m\<lparr>mAutoSpawnPoolsPerMap := a\<rparr>) = GetMaxLimit m"
  "child_of (m\<lparr>mAutoSpawnPoolsPerMap := a\<rparr>) = child_of m"
  "below (m\<lparr>mAutoSpawnPoolsPerMap := a\<rparr>) p = below m p"
  "top_pool (m\<lparr>mAutoSpawnPoolsPerMap := a\<rparr>) p = top_pool m p"
  by (simp_all add: groups_of_def members_def template_at_def GetMaxLimit_def fun_eq_iff child_of_def below_def
      top_pool_def cong: pool_kind.case_cong)

lemma auto_spawn_wf [simp]: "pools_wf (m\<lparr>mAutoSpawnPoolsPerMap := a\<rparr>) = pools_wf m"
  by (simp add: pools_wf_def)

definition auto_ok :: "'f pool_mgr \<Rightarrow> bool" where
  "auto_ok m \<longleftrightarrow> (\<forall>mp ids. mAutoSpawnPoolsPerMap m mp = Some ids \<longrightarrow> (\<forall>p \<in> set ids. top_pool m p))"

lemma load_start_ok:
  assumes "pools_wf m" and "auto_ok m" and "\<And>e x. (e, x) \<in> set rows \<Longrightarrow> (ucast x :: u32) = 0 \<Longrightarrow> top_pool m e"
  shows "\<exists>a. load_start hundred rows m = Some (m\<lparr>mAutoSpawnPoolsPerMap := a\<rparr>) \<and> auto_ok (m\<lparr>mAutoSpawnPoolsPerMap := a\<rparr>)"
  using assms
proof (induction rows arbitrary: m)
  case Nil
  then show ?case by (intro exI [of _ "mAutoSpawnPoolsPerMap m"]) simp
next
  case (Cons row rows)
  obtain e x where row: "row = (e, x)" by (cases row)
  obtain b where b: "IsEmpty m e = Some b" using IsEmpty_ok [OF Cons.prems(1)] by blast
  define a1 where "a1 = (if b \<or> \<not> CheckPool hundred m e \<or> (ucast x :: u32) \<noteq> 0 then mAutoSpawnPoolsPerMap m
    else (let mapId = of_int (MapId (template_at m e));
              ids = (case mAutoSpawnPoolsPerMap m mapId of Some ids \<Rightarrow> ids | None \<Rightarrow> [])
          in (mAutoSpawnPoolsPerMap m)(mapId \<mapsto> ids @ [e])))"
  let ?m = "m\<lparr>mAutoSpawnPoolsPerMap := a1\<rparr>"
  have run: "load_start hundred (row # rows) m = load_start hundred rows ?m"
    using b by (simp add: row a1_def Let_def)
  have "auto_ok ?m"
    unfolding auto_ok_def
  proof (intro allI impI ballI)
    fix mp ids p assume "mAutoSpawnPoolsPerMap ?m mp = Some ids" and "p \<in> set ids"
    then have "(\<exists>ids'. mAutoSpawnPoolsPerMap m mp = Some ids' \<and> p \<in> set ids') \<or> (p = e \<and> (ucast x :: u32) = 0)"
      by (auto simp: a1_def Let_def split: option.splits if_splits)
    then show "top_pool ?m p"
      using Cons.prems(2) Cons.prems(3) [of e x] by (auto simp: auto_ok_def row)
  qed
  from Cons.IH [of ?m, OF _ this] Cons.prems(1,3)
  obtain a where "load_start hundred rows ?m = Some (?m\<lparr>mAutoSpawnPoolsPerMap := a\<rparr>)" "auto_ok (?m\<lparr>mAutoSpawnPoolsPerMap := a\<rparr>)"
    by auto
  with run show ?case by auto
qed

text \<open>
  What the keys of the tables and the other stores promise: members are in one pool and not 0, no
  template is 0, the walk over the templates meets each of them, spawns are on maps, and the last query
  names no mother only for pools that are not members of pools.
\<close>

definition pool_db_ok :: "'f pool_db \<Rightarrow> bool" where
  "pool_db_ok db \<longleftrightarrow>
    (\<forall>r \<in> set (template_rows db). fst r \<noteq> 0 \<and> unat (snd r) < 2 ^ 31 - 1) \<and>
    distinct (map fst (creature_rows db)) \<and> 0 \<notin> fst ` set (creature_rows db) \<and>
    distinct (map fst (gameobject_rows db)) \<and> 0 \<notin> fst ` set (gameobject_rows db) \<and>
    distinct (map (\<lambda>r. ucast (fst r) :: u32) (pool_rows db)) \<and>
    (\<forall>g v. map_of_creature db g = Some v \<longrightarrow> sint v \<noteq> -1) \<and>
    (\<forall>g v. map_of_gameobject db g = Some v \<longrightarrow> sint v \<noteq> -1) \<and>
    (\<forall>f. set (template_walk db f) = dom f) \<and>
    (\<forall>r \<in> set (start_rows db). (ucast (snd r) :: u32) = 0 \<longrightarrow> fst r \<notin> (\<lambda>r. ucast (fst r)) ` set (pool_rows db))"

lemma pool_db_okD:
  assumes "pool_db_ok db"
  shows "\<forall>r \<in> set (template_rows db). fst r \<noteq> 0 \<and> unat (snd r) < 2 ^ 31 - 1"
    and "distinct (map fst (creature_rows db))" and "0 \<notin> fst ` set (creature_rows db)"
    and "distinct (map fst (gameobject_rows db))" and "0 \<notin> fst ` set (gameobject_rows db)"
    and "distinct (map (\<lambda>r. ucast (fst r) :: u32) (pool_rows db))"
    and "map_of_creature db g = Some v \<Longrightarrow> sint v \<noteq> -1"
    and "map_of_gameobject db g = Some v \<Longrightarrow> sint v \<noteq> -1"
    and "set (template_walk db f) = dom f"
    and "(e, x) \<in> set (start_rows db) \<Longrightarrow> (ucast x :: u32) = 0 \<Longrightarrow> e \<notin> (\<lambda>r. ucast (fst r)) ` set (pool_rows db)"
proof -
  note c = assms [unfolded pool_db_ok_def]
  show "\<forall>r \<in> set (template_rows db). fst r \<noteq> 0 \<and> unat (snd r) < 2 ^ 31 - 1"
    and "distinct (map fst (creature_rows db))" and "0 \<notin> fst ` set (creature_rows db)"
    and "distinct (map fst (gameobject_rows db))" and "0 \<notin> fst ` set (gameobject_rows db)"
    and "distinct (map (\<lambda>r. ucast (fst r) :: u32) (pool_rows db))"
    by (insert c, (elim conjE, assumption)+)
  show "map_of_creature db g = Some v \<Longrightarrow> sint v \<noteq> -1" using c by (elim conjE) blast
  show "map_of_gameobject db g = Some v \<Longrightarrow> sint v \<noteq> -1" using c by (elim conjE) blast
  show "set (template_walk db f) = dom f" using c by (elim conjE) blast
  have "\<forall>r \<in> set (start_rows db). (ucast (snd r) :: u32) = 0 \<longrightarrow> fst r \<notin> (\<lambda>r. ucast (fst r)) ` set (pool_rows db)"
    using c by (elim conjE)
  then show "(e, x) \<in> set (start_rows db) \<Longrightarrow> (ucast x :: u32) = 0 \<Longrightarrow> e \<notin> (\<lambda>r. ucast (fst r)) ` set (pool_rows db)"
    by (metis fst_conv snd_conv)
qed

lemma load_templates_ok:
  assumes "\<forall>r \<in> set rows. fst r \<noteq> 0 \<and> unat (snd r) < 2 ^ 31 - 1"
    and "load_inv m" and "\<forall>k. search_of k m = Map.empty" and "\<forall>p. unat (GetMaxLimit m p) < 2 ^ 31 - 1"
  shows "load_inv (fold load_template rows m) \<and> (\<forall>k. search_of k (fold load_template rows m) = Map.empty) \<and>
    (\<forall>p. unat (GetMaxLimit (fold load_template rows m) p) < 2 ^ 31 - 1) \<and>
    mAutoSpawnPoolsPerMap (fold load_template rows m) = mAutoSpawnPoolsPerMap m"
  using assms
proof (induction rows arbitrary: m)
  case (Cons r rows)
  let ?m = "load_template r m"
  have g: "groups_of k ?m = groups_of k m" "search_of k ?m = search_of k m" "members ?m k p = members m k p" for k p
    by (cases k; simp add: load_template_def groups_of_def search_of_def members_def)+
  have mem: "members m k p = {}" for k p
    using Cons.prems(2,3) group_invD(3) [of m k _ p] unfolding load_inv_def by auto
  have "group_inv ?m" using Cons.prems(2) by (simp add: load_inv_def group_inv_def g)
  moreover have "mPoolSearchMap m = Map.empty" using Cons.prems(3) by (metis search_of_def pool_kind.simps(9))
  then have "link_inv ?m" using Cons.prems(1-3)
    by (auto simp: load_inv_def link_inv_def g) (auto simp: load_template_def)
  moreover have "dir_inv ?m" by (simp add: dir_inv_def g mem)
  ultimately have "load_inv ?m" by (simp add: load_inv_def)
  moreover have "\<forall>p. unat (GetMaxLimit ?m p) < 2 ^ 31 - 1"
    using Cons.prems(1,4) by (auto simp: load_template_def GetMaxLimit_def)
  moreover have "mAutoSpawnPoolsPerMap ?m = mAutoSpawnPoolsPerMap m" by (simp add: load_template_def)
  ultimately show ?case using Cons.IH [of ?m] Cons.prems(1,3) g(2) by simp
qed simp

lemma PoolMgr_new_inv:
  "load_inv (PoolMgr_new :: 'f pool_mgr)" "search_of k (PoolMgr_new :: 'f pool_mgr) = Map.empty"
  "unat (GetMaxLimit (PoolMgr_new :: 'f pool_mgr) p) < 2 ^ 31 - 1"
proof -
  have s: "search_of k (PoolMgr_new :: 'f pool_mgr) = Map.empty" "groups_of k (PoolMgr_new :: 'f pool_mgr) p = None"
    "members (PoolMgr_new :: 'f pool_mgr) k p = {}" for k p
    by (cases k; simp add: PoolMgr_new_def search_of_def groups_of_def members_def)+
  then show "search_of k (PoolMgr_new :: 'f pool_mgr) = Map.empty" by simp
  show "load_inv (PoolMgr_new :: 'f pool_mgr)"
    by (simp add: load_inv_def group_inv_def link_inv_def dir_inv_def s) (simp add: PoolMgr_new_def)
  show "unat (GetMaxLimit (PoolMgr_new :: 'f pool_mgr) p) < 2 ^ 31 - 1" by (simp add: GetMaxLimit_def PoolMgr_new_def)
qed

lemma load_members_ok:
  assumes db: "pool_db_ok db"
  shows "load_inv (load_members hundred db PoolMgr_new)"
    and "unat (GetMaxLimit (load_members hundred db PoolMgr_new) p) < 2 ^ 31 - 1"
    and "mAutoSpawnPoolsPerMap (load_members hundred db PoolMgr_new) = Map.empty"
    and "mother_of (load_members hundred db PoolMgr_new) c \<noteq> None \<Longrightarrow> c \<in> (\<lambda>r. ucast (fst r)) ` set (pool_rows db)"
proof -
  let ?m0 = "fold load_template (template_rows db) (PoolMgr_new :: 'a pool_mgr)"
  let ?m1 = "fold (load_member CreatureKind hundred (map_of_creature db)) (creature_rows db) ?m0"
  let ?m2 = "fold (load_member GameObjectKind hundred (map_of_gameobject db)) (gameobject_rows db) ?m1"
  let ?m3 = "fold (load_pool hundred) (pool_rows db) ?m2"
  have eq: "load_members hundred db PoolMgr_new = ?m3" by (simp add: load_members_def)
  note d = pool_db_okD [OF db]
  have au: "mAutoSpawnPoolsPerMap (PoolMgr_new :: 'a pool_mgr) = Map.empty" by (simp add: PoolMgr_new_def)
  have m0: "load_inv ?m0" "\<forall>k. search_of k ?m0 = Map.empty" "\<forall>p. unat (GetMaxLimit ?m0 p) < 2 ^ 31 - 1"
      "mAutoSpawnPoolsPerMap ?m0 = Map.empty"
    using load_templates_ok [of "template_rows db" "PoolMgr_new :: 'a pool_mgr", OF d(1)] PoolMgr_new_inv [where 'f = 'a] au by simp_all
  have m1: "load_inv ?m1 \<and> tmpl_ext ?m0 ?m1 \<and> mAutoSpawnPoolsPerMap ?m1 = mAutoSpawnPoolsPerMap ?m0 \<and>
      (\<forall>k' x. k' \<noteq> CreatureKind \<or> x \<notin> fst ` set (creature_rows db) \<longrightarrow> search_of k' ?m1 x = search_of k' ?m0 x)"
  proof (rule rows_done [where key = fst])
    fix r and m :: "'a pool_mgr" assume r: "r \<in> set (creature_rows db)" and *: "load_inv m" "search_of CreatureKind m (fst r) = None"
    obtain g p ch where rr: "r = (g, p, ch)" by (cases r)
    have "g \<noteq> 0" using r rr d(3) by force
    with * d(7) show "row_done CreatureKind (fst r) m (load_member CreatureKind hundred (map_of_creature db) r m)"
      unfolding rr fst_conv by (intro load_member_done) auto
  qed (use m0 d(2) in auto)
  have m2: "load_inv ?m2 \<and> tmpl_ext ?m1 ?m2 \<and> mAutoSpawnPoolsPerMap ?m2 = mAutoSpawnPoolsPerMap ?m1 \<and>
      (\<forall>k' x. k' \<noteq> GameObjectKind \<or> x \<notin> fst ` set (gameobject_rows db) \<longrightarrow> search_of k' ?m2 x = search_of k' ?m1 x)"
  proof (rule rows_done [where key = fst])
    fix r and m :: "'a pool_mgr" assume r: "r \<in> set (gameobject_rows db)" and *: "load_inv m" "search_of GameObjectKind m (fst r) = None"
    obtain g p ch where rr: "r = (g, p, ch)" by (cases r)
    have "g \<noteq> 0" using r rr d(5) by force
    with * d(8) show "row_done GameObjectKind (fst r) m (load_member GameObjectKind hundred (map_of_gameobject db) r m)"
      unfolding rr fst_conv by (intro load_member_done) auto
  qed (use m0 m1 d(4) in auto)
  let ?key = "\<lambda>r :: u64 \<times> u32 \<times> 'a. ucast (ucast (fst r) :: u32) :: u64"
  have m3: "load_inv ?m3 \<and> tmpl_ext ?m2 ?m3 \<and> mAutoSpawnPoolsPerMap ?m3 = mAutoSpawnPoolsPerMap ?m2 \<and>
      (\<forall>k' x. k' \<noteq> PoolKind \<or> x \<notin> ?key ` set (pool_rows db) \<longrightarrow> search_of k' ?m3 x = search_of k' ?m2 x)"
  proof (rule rows_done [where key = ?key])
    fix r and m :: "'a pool_mgr" assume *: "load_inv m" "search_of PoolKind m (?key r) = None"
    obtain g p ch where rr: "r = (g, p, ch)" by (cases r)
    with * show "row_done PoolKind (?key r) m (load_pool hundred r m)"
      by (simp add: load_pool_done search_of_def)
  next
    show "distinct (map ?key (pool_rows db))"
      using d(6) by (simp add: distinct_map inj_on_def)
  qed (use m0 m1 m2 in auto)
  show "load_inv (load_members hundred db PoolMgr_new)" unfolding eq using m3 by blast
  have "GetMaxLimit ?m3 = GetMaxLimit ?m0" using m1 m2 m3 by (simp add: tmpl_ext_def)
  with m0(3) show "unat (GetMaxLimit (load_members hundred db PoolMgr_new) p) < 2 ^ 31 - 1" unfolding eq by simp
  show "mAutoSpawnPoolsPerMap (load_members hundred db PoolMgr_new) = Map.empty"
    unfolding eq using m0(4) m1 m2 m3 by simp
  show "c \<in> (\<lambda>r. ucast (fst r)) ` set (pool_rows db)" if "mother_of (load_members hundred db PoolMgr_new) c \<noteq> None"
  proof (rule ccontr)
    assume c: "c \<notin> (\<lambda>r. ucast (fst r)) ` set (pool_rows db)"
    have "ucast c \<notin> ?key ` set (pool_rows db)"
    proof
      assume "ucast c \<in> ?key ` set (pool_rows db)"
      then obtain r where "r \<in> set (pool_rows db)" and "c = ucast (fst r)" by auto
      with c show False by blast
    qed
    then have "search_of PoolKind ?m3 (ucast c) = None" using m1 m2 m3 m0(2) by simp
    with that show False by (simp add: eq mother_of_def search_of_def)
  qed
qed

lemma PoolMgr_LoadFromDB_ok:
  assumes db: "pool_db_ok db"
  shows "\<exists>m. PoolMgr_LoadFromDB hundred db PoolMgr_new = Some m \<and> pools_wf m \<and> auto_ok m \<and>
    (\<forall>k d p. k \<noteq> PoolKind \<longrightarrow> members m k d \<noteq> {} \<longrightarrow> d \<in> below m p \<longrightarrow>
       MapId (template_at m p) = MapId (template_at m d) \<and> MapId (template_at m p) \<noteq> -1)"
proof (cases "template_rows db = []")
  case True
  have e: "(PoolMgr_new :: 'a pool_mgr)\<lparr>mPoolTemplate := Map.empty\<rparr> = PoolMgr_new" by (simp add: PoolMgr_new_def)
  have n: "members (PoolMgr_new :: 'a pool_mgr) k p = {}" for k p
    by (cases k) (simp_all add: members_def groups_of_def PoolMgr_new_def)
  have "mother_of (PoolMgr_new :: 'a pool_mgr) c = None" for c by (simp add: mother_of_def PoolMgr_new_def)
  then have w: "pools_wf (PoolMgr_new :: 'a pool_mgr)" using PoolMgr_new_inv by (intro load_inv_wf) (auto intro: ends.top)
  have "auto_ok (PoolMgr_new :: 'a pool_mgr)" by (simp add: auto_ok_def PoolMgr_new_def)
  with e n w True show ?thesis by (intro exI [of _ PoolMgr_new]) (simp add: PoolMgr_LoadFromDB_def)
next
  case False
  define m0 where "m0 = load_members hundred db PoolMgr_new"
  define m where "m = (if pool_rows db = [] then m0 else check_all_links (template_walk db (mPoolTemplate m0)) m0)"
  note l0 = load_members_ok [OF db, of hundred, folded m0_def]
  have walk: "set (template_walk db f) = dom f" for f by (rule pool_db_okD(9) [OF db])
  have w: "walked m0 m"
    using l0(1) check_all_links_ok [OF l0(1)] by (simp add: m_def) (simp add: walked_def)
  have noc: "mother_of m0 c = None" if "mPoolTemplate m0 c = None" for c
  proof (rule ccontr)
    assume "mother_of m0 c \<noteq> None"
    then obtain p where "mPoolSearchMap m0 (ucast c) = Some p" by (auto simp: mother_of_def)
    with l0(1) have "\<exists>c' :: u32. (ucast c :: u64) = ucast c' \<and> mPoolTemplate m0 c' \<noteq> None"
      unfolding load_inv_def link_inv_def by blast
    with that show False by auto
  qed
  have both: "ends (mother_of m) c \<and> (MapId (template_at m0 c) \<noteq> -1 \<longrightarrow>
      on_map (mother_of m) (maps_of m) (MapId (template_at m0 c)) c)" for c
  proof (cases "pool_rows db = [] \<or> mPoolTemplate m0 c = None")
    case True
    have "mother_of m0 c = None" using True l0(4) [of c] noc [of c] by (cases "mother_of m0 c") auto
    with w have "mother_of m c = None" unfolding walked_def by (metis option.exhaust)
    moreover have "MapId (template_at m0 c) \<noteq> -1 \<longrightarrow> maps_of m c = MapId (template_at m0 c)"
      using w by (simp add: walked_def tmpl_ext_def)
    ultimately show ?thesis by (auto intro: ends.top on_map.top)
  next
    case False
    then have "c \<in> set (template_walk db (mPoolTemplate m0))" by (auto simp: walk)
    with check_all_links_ok [OF l0(1)] False show ?thesis unfolding m_def by simp
  qed
  have inv: "load_inv m" and te: "tmpl_ext m0 m" using w by (simp_all add: walked_def)
  have wf: "pools_wf m"
    by (rule load_inv_wf [OF inv]) (use both l0(2) te in \<open>simp_all add: tmpl_ext_def\<close>)
  have gi: "group_inv m" and gi0: "group_inv m0" using inv l0(1) by (simp_all add: load_inv_def)
  have R: "(c, p) \<in> child_of m \<Longrightarrow> mother_of m c = Some p" for c p
    by (simp add: child_of_def mother_of_def wf_search [OF wf])
  have maps: "MapId (template_at m p) = MapId (template_at m d) \<and> MapId (template_at m p) \<noteq> -1"
    if k: "k \<noteq> PoolKind" "members m k d \<noteq> {}" and b: "d \<in> below m p" for k d p
  proof -
    obtain x where x: "x \<in> members m k d" using k(2) by blast
    have "search_of k m = search_of k m0" using w k(1) by (simp add: walked_def)
    with x group_invD(3) [OF gi, of k x d] group_invD(3) [OF gi0, of k x d] have "members m0 k d \<noteq> {}" by auto
    with l0(1) k(1) have d0: "MapId (template_at m0 d) \<noteq> -1" by (auto simp: load_inv_def dir_inv_def)
    with both [of d] have "on_map (mother_of m) (maps_of m) (MapId (template_at m0 d)) d" by blast
    from on_map_ancestor [OF this R] b d0 show ?thesis by (simp add: below_def)
  qed
  have "assert_maps m (template_walk db (mPoolTemplate m)) = Some True"
  proof (rule assert_maps_ok)
    fix p
    obtain b where b: "IsEmpty m p = Some b"
      and d: "\<not> b \<longrightarrow> (\<exists>d \<in> below m p. \<exists>k. k \<noteq> PoolKind \<and> members m k d \<noteq> {})"
      using IsEmpty_ok [OF wf] by blast
    have "MapId (template_at m p) \<noteq> -1" if "\<not> b"
    proof -
      from d that obtain e k where e: "e \<in> below m p" "k \<noteq> PoolKind" "members m k e \<noteq> {}" by blast
      show ?thesis using maps [OF e(2,3,1)] by (rule conjunct2)
    qed
    with b show "\<exists>b. IsEmpty m p = Some b \<and> (\<not> b \<longrightarrow> MapId (template_at m p) \<noteq> -1)" by blast
  qed
  moreover have "auto_ok m" using w l0(3) by (simp add: walked_def auto_ok_def)
  moreover have "top_pool m e" if "(e, x) \<in> set (start_rows db)" "(ucast x :: u32) = 0" for e x
  proof -
    have "e \<notin> (\<lambda>r. ucast (fst r)) ` set (pool_rows db)" by (rule pool_db_okD(10) [OF db that])
    then have "mother_of m0 e = None" using l0(4) by blast
    with w have "mother_of m e = None" unfolding walked_def by (metis option.exhaust)
    with R show ?thesis by (fastforce simp: top_pool_def)
  qed
  ultimately obtain a where a: "load_start hundred (start_rows db) m = Some (m\<lparr>mAutoSpawnPoolsPerMap := a\<rparr>)"
      "auto_ok (m\<lparr>mAutoSpawnPoolsPerMap := a\<rparr>)"
    using load_start_ok [OF wf, of "start_rows db" hundred] by auto
  have "PoolMgr_LoadFromDB hundred db PoolMgr_new = Some (m\<lparr>mAutoSpawnPoolsPerMap := a\<rparr>)"
    using False a(1) \<open>assert_maps m _ = Some True\<close>
    by (simp add: PoolMgr_LoadFromDB_def m0_def [symmetric] m_def [symmetric] Let_def)
  moreover have "\<forall>k d p. k \<noteq> PoolKind \<longrightarrow> members m k d \<noteq> {} \<longrightarrow> d \<in> below m p \<longrightarrow>
       MapId (template_at m p) = MapId (template_at m d) \<and> MapId (template_at m p) \<noteq> -1"
    using maps by blast
  ultimately show ?thesis using a(2) wf
    by (intro exI [of _ "m\<lparr>mAutoSpawnPoolsPerMap := a\<rparr>"]) (simp only: auto_spawn_simps auto_spawn_wf simp_thms)
qed

end
