(* ===== verification/PoolLife.thy ===== *)
theory PoolLife
  imports PoolLoad
begin

text \<open>
  The pools from loading over the start of a map to any later state: the properties of the component, with
  a small manager to apply them to.
\<close>

section \<open>A sample\<close>

text \<open>A pool of three pools, one of which is to be active; they have creatures.\<close>

definition sample_member :: "u64 \<Rightarrow> int pool_object" where
  "sample_member g = \<lparr>po_guid = g, po_chance = 0\<rparr>"

definition sample_group :: "u32 \<Rightarrow> u64 list \<Rightarrow> int pool_group" where
  "sample_group p gs = \<lparr>pg_poolId = p, ExplicitlyChanced = [], EqualChanced = map sample_member gs\<rparr>"

definition sample_pools :: "int pool_mgr" where
  "sample_pools = \<lparr>
     mPoolTemplate = [1 \<mapsto> \<lparr>MaxLimit = 1, MapId = 0\<rparr>, 2 \<mapsto> \<lparr>MaxLimit = 2, MapId = 0\<rparr>,
       3 \<mapsto> \<lparr>MaxLimit = 1, MapId = 0\<rparr>, 4 \<mapsto> \<lparr>MaxLimit = 1, MapId = 0\<rparr>],
     mPoolCreatureGroups = [2 \<mapsto> sample_group 2 [11, 12], 3 \<mapsto> sample_group 3 [21], 4 \<mapsto> sample_group 4 [31]],
     mPoolGameobjectGroups = Map.empty,
     mPoolPoolGroups = [1 \<mapsto> sample_group 1 [2, 3, 4]],
     mCreatureSearchMap = [11 \<mapsto> 2, 12 \<mapsto> 2, 21 \<mapsto> 3, 31 \<mapsto> 4],
     mGameobjectSearchMap = Map.empty,
     mPoolSearchMap = [2 \<mapsto> 1, 3 \<mapsto> 1, 4 \<mapsto> 1],
     mAutoSpawnPoolsPerMap = [0 \<mapsto> [1]]\<rparr>"

definition sample_pool_env :: "int pool_env" where
  "sample_pool_env = \<lparr>SpawnIdStore = \<lambda>es k g. [], GridOfSpawnLoaded = \<lambda>es k g. Some True,
     gameobject_made = \<lambda>es g. None, rand_chance_at = \<lambda>n. 50,
     urand_at = \<lambda>n lo hi. if n = 3 \<or> n = 6 then hi else lo\<rparr>"

lemma sample_urand: "urand_ok (urand_at sample_pool_env)"
  by (simp add: urand_ok_def sample_pool_env_def)

lemma sample_members:
  "members sample_pools k p = (if k = CreatureKind then
      (if p = 2 then {11, 12} else if p = 3 then {21} else if p = 4 then {31} else {})
    else if k = PoolKind \<and> p = 1 then {2, 3, 4} else {})"
  by (cases k) (auto simp: members_def groups_of_def sample_pools_def sample_group_def sample_member_def)

lemma sample_load_inv: "load_inv sample_pools"
proof -
  have "search_of k sample_pools x = Some p \<longleftrightarrow> x \<in> members sample_pools k p" for k x p
    unfolding sample_members by (cases k) (auto simp: search_of_def sample_pools_def)
  moreover have "pg_poolId g = p \<and> distinct (map po_guid (all_objs g))" if "groups_of k sample_pools p = Some g" for k p g
    using that by (cases k) (auto simp: groups_of_def sample_pools_def sample_group_def sample_member_def split: if_splits)
  ultimately have "group_inv sample_pools" unfolding group_inv_def by blast
  moreover have "link_inv sample_pools"
  proof -
    have "search_of k sample_pools 0 = None" for k by (cases k) (simp_all add: search_of_def sample_pools_def)
    moreover have "mPoolTemplate sample_pools p \<noteq> None \<and> (\<exists>c :: u32. x = ucast c \<and> mPoolTemplate sample_pools c \<noteq> None)"
      if "mPoolSearchMap sample_pools x = Some p" for x p
    proof -
      from that have "p = 1" and x: "x = ucast (2 :: u32) \<or> x = ucast (3 :: u32) \<or> x = ucast (4 :: u32)"
        by (auto simp: sample_pools_def split: if_splits)
      from x obtain c :: u32 where "x = ucast c" and "c = 2 \<or> c = 3 \<or> c = 4"
        by (elim disjE) (rule that, assumption, simp)+
      then have "x = ucast c \<and> mPoolTemplate sample_pools c \<noteq> None" by (auto simp: sample_pools_def)
      moreover have "mPoolTemplate sample_pools p \<noteq> None" using \<open>p = 1\<close> by (simp add: sample_pools_def)
      ultimately show ?thesis by blast
    qed
    ultimately show ?thesis unfolding link_inv_def by (simp add: sample_pools_def)
  qed
  moreover have "dir_inv sample_pools"
    by (auto simp: dir_inv_def sample_members sample_pools_def template_at_def split: if_splits)
  ultimately show ?thesis by (simp add: load_inv_def)
qed

lemma sample_wf: "pools_wf sample_pools"
proof (rule load_inv_wf [OF sample_load_inv])
  fix c :: u32
  have top: "ends (mother_of sample_pools) 1" by (rule ends.top) (simp add: mother_of_def sample_pools_def)
  show "ends (mother_of sample_pools) c"
  proof (cases "mother_of sample_pools c")
    case None
    then show ?thesis by (rule ends.top)
  next
    case (Some p)
    then have "p = 1" by (auto simp: mother_of_def sample_pools_def split: if_splits)
    with Some top show ?thesis by (auto intro: ends.up)
  qed
  show "unat (GetMaxLimit sample_pools c) < 2 ^ 31 - 1"
    by (simp add: GetMaxLimit_def sample_pools_def)
qed

lemma sample_top: "top_pool sample_pools 1"
  by (auto simp: top_pool_def child_of_def sample_members split: if_splits)

section \<open>Properties\<close>

text \<open>
  C8: with keys that are keys, loading the pools fails no assertion, whatever cycles and mixed maps the
  tables hold: in the loaded manager every member is in one pool and no pool is below itself, every pool
  above a pool with creatures or game objects is on the same map, and starting a map returns a state of
  its pools.
\<close>

theorem LoadFromDB_starts_maps:
  assumes "pool_db_ok db" and "urand_ok (urand_at env)"
  shows "\<exists>m. PoolMgr_LoadFromDB hundred db PoolMgr_new = Some m \<and>
    (\<forall>k p q x. x \<in> members m k p \<and> x \<in> members m k q \<longrightarrow> p = q) \<and>
    (\<nexists>p. (p, p) \<in> (child_of m)\<^sup>+) \<and>
    (\<forall>k d p. k \<noteq> PoolKind \<and> members m k d \<noteq> {} \<and> d \<in> below m p \<longrightarrow>
       MapId (template_at m p) = MapId (template_at m d)) \<and>
    (\<forall>mapId. \<exists>s. InitPoolsForMap env m mapId = Some s \<and> map_reach env m True s)"
proof -
  from PoolMgr_LoadFromDB_ok [OF assms(1)] obtain m where m: "PoolMgr_LoadFromDB hundred db PoolMgr_new = Some m"
    "pools_wf m" "auto_ok m" and maps: "\<forall>k d p. k \<noteq> PoolKind \<longrightarrow> members m k d \<noteq> {} \<longrightarrow> d \<in> below m p \<longrightarrow>
       MapId (template_at m p) = MapId (template_at m d) \<and> MapId (template_at m p) \<noteq> -1" by blast
  have one: "\<forall>k p q x. x \<in> members m k p \<and> x \<in> members m k q \<longrightarrow> p = q"
    using m(2) unfolding pools_wf_def by blast
  have ac: "\<nexists>p. (p, p) \<in> (child_of m)\<^sup>+" using m(2) by (auto simp: pools_wf_def acyclic_def)
  have run: "\<exists>s'. spawn_pools env m ids s = Some s' \<and> map_reach env m True s'"
    if "\<forall>p \<in> set ids. top_pool m p" "map_reach env m True s" for ids s
    using that
  proof (induction ids arbitrary: s)
    case (Cons p ids)
    have "pools_ok m (ps_spawns s)" by (rule pool_inv_ok [OF map_reach_inv [OF m(2) assms(2) Cons.prems(2)]])
    with SpawnPool_ok [OF m(2) assms(2)] Cons.prems(1) obtain s' where s': "SpawnPool env m p s = Some s'"
      by (metis top_is_live list.set_intros(1))
    then have "map_reach env m True s'" using Cons.prems by (auto intro: map_reach.spawn)
    with Cons s' show ?case by simp
  qed simp
  have "\<exists>s. InitPoolsForMap env m mapId = Some s \<and> map_reach env m True s" for mapId
  proof (cases "mAutoSpawnPoolsPerMap m mapId")
    case None
    then show ?thesis using map_reach.start [of env m True] by (simp add: InitPoolsForMap_def pool_start_def)
  next
    case (Some ids)
    with m(3) have "\<forall>p \<in> set ids. top_pool m p" by (auto simp: auto_ok_def)
    from run [OF this map_reach.start] Some show ?thesis by (simp add: InitPoolsForMap_def pool_start_def)
  qed
  with m(1) one ac maps show ?thesis by blast
qed

text \<open>Tables with a cycle of two pools, one of which has a creature.\<close>

definition sample_pool_db :: "int pool_db" where
  "sample_pool_db = \<lparr>template_rows = [(1, 1), (5, 1), (6, 2)], creature_rows = [(11, 1, 100), (51, 5, 0)],
     gameobject_rows = [], pool_rows = [(5, 6, 0), (6, 5, 0)], start_rows = [(1, 0), (5, 5), (6, 6)],
     map_of_creature = \<lambda>g. Some 0, map_of_gameobject = \<lambda>g. None,
     template_walk = \<lambda>f. sorted_list_of_set (dom f)\<rparr>"

lemma sample_pool_db_ok: "pool_db_ok sample_pool_db"
  by (simp add: pool_db_ok_def sample_pool_db_def)

lemma LoadFromDB_starts_maps_witness:
  "\<exists>m s. PoolMgr_LoadFromDB 100 sample_pool_db PoolMgr_new = Some m \<and> InitPoolsForMap sample_pool_env m 0 = Some s"
  using LoadFromDB_starts_maps [OF sample_pool_db_ok sample_urand, of 100] by blast


text \<open>
  C14: from every state of a map's pools each operation returns: spawning a pool that is not part of another,
  despawning a pool, and an update for a member that is spawned, which leaves its pool within the limit
  if it was. After a pool is despawned nothing in it and in the pools below it is spawned.
\<close>

theorem pool_operations_return:
  assumes "pools_wf m" and "urand_ok (urand_at env)" and "map_reach env m strict s"
  shows "(top_pool m p \<longrightarrow> (\<exists>s'. SpawnPool env m p s = Some s'))
    \<and> (\<exists>s'. DespawnPool env m p b s = Some s' \<and>
         (\<forall>q \<in> below m p. \<forall>k. \<forall>x \<in> members m k q. \<not> IsSpawnedObject (ps_spawns s') k x))
    \<and> (x \<in> members m k p \<and> IsSpawnedObject (ps_spawns s) k x \<longrightarrow>
         (\<exists>s'. UpdatePool env m k p x s = Some s' \<and>
           (\<forall>q. GetSpawnedObjects (ps_spawns s) q \<le> GetMaxLimit m q \<longrightarrow> GetSpawnedObjects (ps_spawns s') q \<le> GetMaxLimit m q)))"
proof (intro conjI impI)
  note inv = map_reach_inv [OF assms]
  have c: "counts_ok m (ps_spawns s)" using inv by (simp add: pool_inv_def)
  have ok: "pools_ok m (ps_spawns s)" by (rule pool_inv_ok [OF inv])
  show "\<exists>s'. SpawnPool env m p s = Some s'" if "top_pool m p"
    using SpawnPool_ok [OF assms(1,2) ok top_is_live [OF that]] by blast
  from DespawnPool_ok [OF assms(1) c, of env p b] obtain s' where s': "DespawnPool env m p b s = Some s'"
    "counts_ok m (ps_spawns s')" "\<forall>q \<in> below m p. GetSpawnedObjects (ps_spawns s') q = 0"
    by (auto simp: despawned_def)
  then show "\<exists>s'. DespawnPool env m p b s = Some s' \<and>
      (\<forall>q \<in> below m p. \<forall>k. \<forall>x \<in> members m k q. \<not> IsSpawnedObject (ps_spawns s') k x)"
    using no_count_no_member by blast
  assume x: "x \<in> members m k p \<and> IsSpawnedObject (ps_spawns s) k x"
  let ?k = "fst (roll_trigger m k p x)" and ?t = "snd (roll_trigger m k p x)" and ?q = "rolled_pool m p"
  note st = strict_trigger [OF assms(1) c, of x k p]
  from UpdatePool_ok [OF assms(1,2) ok st(1)] x obtain s' where u: "UpdatePool env m k p x s = Some s'"
    and sp: "spawned m ?k ?q ?t s s'" by blast
  have "GetSpawnedObjects (ps_spawns s') q \<le> GetMaxLimit m q" if le: "GetSpawnedObjects (ps_spawns s) q \<le> GetMaxLimit m q" for q
  proof (cases "q = ?q")
    case True
    have "spawned_of (ps_spawns s') ?q \<le> max (spawned_of (ps_spawns s) ?q) (unat (GetMaxLimit m ?q))"
      using sp st(2) x by (simp add: spawned_def)
    with le True show ?thesis by (simp add: word_le_nat_alt)
  next
    case False
    have "grow m (ps_spawns s) (ps_spawns s') (- {?q})" using sp by (simp add: spawned_def)
    with False have "spawned_of (ps_spawns s') q \<le> max (spawned_of (ps_spawns s) q) (unat (GetMaxLimit m q))"
      by (simp add: grow_def)
    with le show ?thesis by (simp add: word_le_nat_alt)
  qed
  with u show "\<exists>s'. UpdatePool env m k p x s = Some s' \<and>
      (\<forall>q. GetSpawnedObjects (ps_spawns s) q \<le> GetMaxLimit m q \<longrightarrow> GetSpawnedObjects (ps_spawns s') q \<le> GetMaxLimit m q)"
    by blast
qed


text \<open>
  C31: a pool that is the only member of its mother, and is spawned, is never refilled: when one of its members
  is due to respawn, the mother rolls the pool again, and rolling it again does nothing.
\<close>

theorem lone_child_pool_not_refilled:
  assumes "pools_wf m" and "urand_ok (urand_at env)" and "map_reach env m True s"
    and "mPoolPoolGroups m q = Some g" and "ExplicitlyChanced g = []" and "EqualChanced g = [obj]" and "po_guid obj = ucast p"
    and "x \<in> members m k p" and "IsSpawnedObject (ps_spawns s) k x"
  shows "UpdatePool env m k p x s = Some s"
proof -
  have inv: "pool_inv m True (ps_spawns s)" by (rule map_reach_inv [OF assms(1-3)])
  have g: "groups_of PoolKind m q = Some g" using assms(4) by (simp add: groups_of_def)
  have "ucast p \<in> members m PoolKind q" using g assms(6,7) by (simp add: members_def)
  then have "mPoolSearchMap m (ucast p) = Some q" by (simp add: wf_search [OF assms(1)])
  then have mo: "IsPartOfAPool m PoolKind (ucast p) = q" by (simp add: IsPartOfAPool_def)
  have q0: "q \<noteq> 0" using \<open>ucast p \<in> members m PoolKind q\<close> wf_mother_nonzero [OF assms(1)] by metis
  have p0: "(ucast p :: u64) \<noteq> 0"
    using \<open>ucast p \<in> members m PoolKind q\<close> assms(1) unfolding pools_wf_def by metis
  have pid: "pg_poolId g = q" by (rule wf_poolId [OF assms(1) g])
  let ?n = "spawned_of (ps_spawns s) q" and ?L = "unat (GetMaxLimit m q)"
  have le: "?n \<le> ?L" using inv by (simp add: pool_inv_def)
  have L: "?L < 2 ^ 31 - 1" by (rule limit_small [OF assms(1)])
  have sd: "sint (GetMaxLimit m q - GetSpawnedObjects (ps_spawns s) q) = int ?L - int ?n"
    by (rule sint_diff_small) (use L le in linarith)+
  have nm: "int ?L - int ?n \<noteq> 2 ^ 31 - 1"
  proof -
    have "int a - int b \<noteq> 2 ^ 31 - 1" if "a < 2 ^ 31 - 1" for a b :: nat using that by simp
    then show ?thesis using L by blast
  qed
  have pos: "int ?L - int ?n + 1 > 0" and one: "1 \<le> nat (int ?L - int ?n + 1)" using le by linarith+
  have roll: "roll_objects env PoolKind g (nat (int ?L - int ?n + 1)) (ucast p) s = ([obj], s)"
    using one assms(5-7) by (simp add: roll_objects_def RandomResize_def Let_def)
  have "SpawnObject (spawn_of env m PoolKind) env m PoolKind g (GetMaxLimit m q) (ucast p) s = Some s"
    unfolding SpawnObject_def Let_def pid sd using nm pos p0 roll assms(7)
    by (simp add: ReSpawn1Object_def del: of_nat_diff)
  moreover have "\<not> pg_isEmpty g" using assms(6) by (simp add: pg_isEmpty_def)
  ultimately show ?thesis using q0 g by (simp add: UpdatePool_def mo SpawnPool_kind_def Let_def)
qed

section \<open>The properties at the sample\<close>

text \<open>
  The sample's mother pool is spawned with its first pool; one creature of it is due, and the second pool is
  rolled; then the other creature of the first pool is due, whose timer nobody removed.
\<close>

definition sample_s1 :: pool_state where
  "sample_s1 = the (SpawnPool sample_pool_env sample_pools 1 pool_start)"

definition sample_s2 :: pool_state where
  "sample_s2 = the (UpdatePool sample_pool_env sample_pools CreatureKind 2 11 sample_s1)"

definition sample_s3 :: pool_state where
  "sample_s3 = the (UpdatePool sample_pool_env sample_pools CreatureKind 2 12 sample_s2)"

lemma sample_runs:
  "SpawnPool sample_pool_env sample_pools 1 pool_start \<noteq> None"
  "UpdatePool sample_pool_env sample_pools CreatureKind 2 11 sample_s1 \<noteq> None"
  "UpdatePool sample_pool_env sample_pools CreatureKind 2 12 sample_s2 \<noteq> None"
proof -
  have "\<not> Option.is_none (SpawnPool sample_pool_env sample_pools 1 pool_start)"
    and "\<not> Option.is_none (UpdatePool sample_pool_env sample_pools CreatureKind 2 11 sample_s1)"
    and "\<not> Option.is_none (UpdatePool sample_pool_env sample_pools CreatureKind 2 12 sample_s2)"
    by code_simp+
  then show "SpawnPool sample_pool_env sample_pools 1 pool_start \<noteq> None"
    "UpdatePool sample_pool_env sample_pools CreatureKind 2 11 sample_s1 \<noteq> None"
    "UpdatePool sample_pool_env sample_pools CreatureKind 2 12 sample_s2 \<noteq> None"
    by (simp_all add: Option.is_none_def)
qed

lemma sample_s1_reach: "map_reach sample_pool_env sample_pools strict sample_s1"
  by (rule map_reach.spawn [OF map_reach.start sample_top]) (simp add: sample_s1_def sample_runs)

lemma sample_rolled: "live sample_pools sp (rolled_pool sample_pools 2)"
proof -
  have "rolled_pool sample_pools 2 = 1"
    by (simp add: rolled_pool_def IsPartOfAPool_def sample_pools_def)
  then show ?thesis by (simp add: top_is_live sample_top)
qed



lemma sample_s1_marks: "11 \<in> mSpawnedCreatures (ps_spawns sample_s1)"
  by code_simp

lemma pool_operations_return_witness:
  "(\<exists>s'. SpawnPool sample_pool_env sample_pools 1 sample_s1 = Some s') \<and>
   (\<exists>s'. UpdatePool sample_pool_env sample_pools CreatureKind 2 11 sample_s1 = Some s')"
proof
  note r = pool_operations_return [OF sample_wf sample_urand sample_s1_reach [of True]]
  show "\<exists>s'. SpawnPool sample_pool_env sample_pools 1 sample_s1 = Some s'"
    using r [where p = 1 and b = False and x = 0 and k = PoolKind] sample_top by blast
  have "11 \<in> members sample_pools CreatureKind 2 \<and> IsSpawnedObject (ps_spawns sample_s1) CreatureKind 11"
    using sample_s1_marks by (simp add: sample_members)
  with r [where p = 2 and b = False and x = 11 and k = CreatureKind]
  show "\<exists>s'. UpdatePool sample_pool_env sample_pools CreatureKind 2 11 sample_s1 = Some s'" by blast
qed


text \<open>A mother with a single pool, in which one creature is spawned.\<close>

definition lone_pools :: "int pool_mgr" where
  "lone_pools = \<lparr>
     mPoolTemplate = [1 \<mapsto> \<lparr>MaxLimit = 1, MapId = 0\<rparr>, 2 \<mapsto> \<lparr>MaxLimit = 1, MapId = 0\<rparr>],
     mPoolCreatureGroups = [2 \<mapsto> sample_group 2 [11]], mPoolGameobjectGroups = Map.empty,
     mPoolPoolGroups = [1 \<mapsto> sample_group 1 [2]],
     mCreatureSearchMap = [11 \<mapsto> 2], mGameobjectSearchMap = Map.empty, mPoolSearchMap = [2 \<mapsto> 1],
     mAutoSpawnPoolsPerMap = [0 \<mapsto> [1]]\<rparr>"

lemma lone_members:
  "members lone_pools k p = (if k = CreatureKind \<and> p = 2 then {11} else if k = PoolKind \<and> p = 1 then {2} else {})"
  by (cases k) (auto simp: members_def groups_of_def lone_pools_def sample_group_def sample_member_def)

lemma lone_wf: "pools_wf lone_pools"
proof (rule load_inv_wf)
  have "search_of k lone_pools x = Some p \<longleftrightarrow> x \<in> members lone_pools k p" for k x p
    unfolding lone_members by (cases k) (auto simp: search_of_def lone_pools_def)
  moreover have "pg_poolId g = p \<and> distinct (map po_guid (all_objs g))" if "groups_of k lone_pools p = Some g" for k p g
    using that by (cases k) (auto simp: groups_of_def lone_pools_def sample_group_def sample_member_def split: if_splits)
  ultimately have "group_inv lone_pools" unfolding group_inv_def by blast
  moreover have "search_of k lone_pools 0 = None" for k by (cases k) (simp_all add: search_of_def lone_pools_def)
  moreover have "(ucast (2 :: u32) :: u64) = 2" by simp
  then have "mPoolTemplate lone_pools p \<noteq> None \<and> (\<exists>c :: u32. x = ucast c \<and> mPoolTemplate lone_pools c \<noteq> None)"
    if "mPoolSearchMap lone_pools x = Some p" for x p
    using that by (auto simp: lone_pools_def split: if_splits intro!: exI [of _ "2 :: u32"])
  ultimately show "load_inv lone_pools"
    by (auto simp: load_inv_def link_inv_def dir_inv_def lone_members lone_pools_def template_at_def split: if_splits)
  fix c :: u32
  have top: "ends (mother_of lone_pools) 1" by (rule ends.top) (simp add: mother_of_def lone_pools_def)
  show "ends (mother_of lone_pools) c"
  proof (cases "mother_of lone_pools c")
    case None
    then show ?thesis by (rule ends.top)
  next
    case (Some p)
    then have "p = 1" by (auto simp: mother_of_def lone_pools_def split: if_splits)
    with Some top show ?thesis by (auto intro: ends.up)
  qed
  show "unat (GetMaxLimit lone_pools c) < 2 ^ 31 - 1"
    by (simp add: GetMaxLimit_def lone_pools_def)
qed

definition lone_s1 :: pool_state where
  "lone_s1 = the (SpawnPool sample_pool_env lone_pools 1 pool_start)"

lemma lone_child_pool_not_refilled_witness:
  "UpdatePool sample_pool_env lone_pools CreatureKind 2 11 lone_s1 = Some lone_s1"
proof (rule lone_child_pool_not_refilled [OF lone_wf sample_urand, where q = 1 and g = "sample_group 1 [2]" and obj = "sample_member 2"])
  have "\<not> Option.is_none (SpawnPool sample_pool_env lone_pools 1 pool_start)" by code_simp
  then have run: "SpawnPool sample_pool_env lone_pools 1 pool_start = Some lone_s1"
    by (auto simp: lone_s1_def Option.is_none_def)
  have "top_pool lone_pools 1" by (auto simp: top_pool_def child_of_def lone_members split: if_splits)
  from map_reach.spawn [OF map_reach.start this run]
  show "map_reach sample_pool_env lone_pools True lone_s1" .
  show "IsSpawnedObject (ps_spawns lone_s1) CreatureKind 11" by code_simp
  show "11 \<in> members lone_pools CreatureKind 2" by (simp add: lone_members)
qed (simp_all add: lone_pools_def sample_group_def sample_member_def)

end
