(* ===== verification/Spec2Isabelle.thy ===== *)
theory Spec2Isabelle
  imports Prelude EventMap EventProcessor BaseEncoding MessageBuffer Rbac PhaseShift TextScan ObjectGuid GuidText
    LfgRoles LfgData LfgQueue LfgMgr CombatManager InstanceTime InstanceLocks InstanceSafety
    BgPools BgQueue BgQueueSafe BgQueueMatch BgQueueReach
    PoolMgr PoolSafe PoolSpawn PoolReach PoolLoad PoolLife
begin

text \<open>
  A model of the self-contained logic of the world server under \<open>src/src\<close>. The server is a tree of
  objects (players, creatures, maps, groups) that every tick asks a number of managers and per-object
  helpers what to do. The managers and helpers below keep state of their own and decide by it alone;
  they are modelled completely, and what they ask of the rest of the server is an argument of the
  definitions (an environment record), what they do to it an output (a list of events in the order of
  the calls).

  \<^bold>\<open>Theories and the code they model.\<close>

  \<^item> Prelude: integer types, the ordered containers of the standard library, and the locales
    \<open>keyed_store\<close>, \<open>ordered_bag\<close>, \<open>op_machine\<close> and \<open>safe_machine\<close>, the contracts shared by the rest.
  \<^item> EventMap: \<open>common/Utilities/EventMap\<close>, the timer of every script. \<open>event_map\<close> is the class; one
    \<open>em_\<close> definition per member function. Lemmas: well-formedness under every operation, which event is
    executed, cancelled and delayed events, series.
  \<^item> BaseEncoding: \<open>common/Encoding\<close>, base 32 and base 64. Lemmas: one group of bits at a time is undone.
  \<^item> MessageBuffer: \<open>common/Utilities/MessageBuffer.h\<close>. Lemmas: refinement of a byte queue.
  \<^item> Rbac: \<open>game/Accounts/RBAC\<close> and the permission graph of \<open>AccountMgr\<close>. Lemmas: the worklist computes
    reachability over links; the three permission lists stay consistent; loading.
  \<^item> PhaseShift: \<open>game/Phasing/PhaseShift\<close>. Lemmas: counters are sums over phases, visibility.
  \<^item> ObjectGuid: \<open>game/Entities/Object/ObjectGuid\<close>, the factory, the packed wire form, the generator.
    TextScan is the part of the C library that formats and scans numbers, GuidText the text form.
  \<^item> LfgRoles, LfgData, LfgQueue, LfgMgr: \<open>game/DungeonFinding\<close>. The role search with its undo, the stores
    of groups and players, the queue with its cache of combinations, and the role checks, proposals and
    votes of the manager. The queue calls the role search and the stores; the manager calls all three.
  \<^item> CombatManager: \<open>game/Combat/CombatManager\<close>, references shared by two managers on a heap.
  \<^item> InstanceTime, InstanceLocks, InstanceSafety: \<open>game/Instances/InstanceLockMgr\<close> with the parts of
    \<open>game/Maps\<close> that hand out instance ids and save an instance map. The first is the reset schedule, the
    second the locks with their two database tables and the invariant of every operation, the third the
    runs of the server, restarts included, and what holds after any of them.
  \<^item> EventProcessor: \<open>common/Utilities/EventProcessor\<close>, the delayed events of the server's objects.
    Lemmas: an update runs what is due, in order, whatever the events do to other state.
  \<^item> BgPools, BgQueue, BgQueueSafe, BgQueueMatch, BgQueueReach: \<open>game/Battlegrounds/BattlegroundQueue\<close>
    with the counters of \<open>Battleground\<close> it reads and changes. BgPools holds the selection pools and the
    filling of a running battleground, BgQueue all operations of the queue and its delayed events.
    BgQueueSafe states the invariant of groups, lists, players and invitations and proves it for the
    simple operations, BgQueueMatch for the making of matches with the limits they keep, BgQueueReach
    for the update, and draws the properties of all reachable states.
  \<^item> PoolMgr, PoolSafe, PoolSpawn, PoolReach, PoolLoad, PoolLife: \<open>game/Pools/PoolMgr\<close>, the pools of
    creatures, game objects and other pools. PoolMgr holds all operations with the loading; PoolSafe and
    PoolSpawn show that despawning and spawning return, keep the numbers of the pools and touch only
    the pool and what is below it; PoolReach has the states of a map's pools, PoolLoad the loading with
    the removal of circular links, PoolLife the properties of the whole.

  \<^bold>\<open>Correspondence.\<close> A class is a record with its members as fields; a member function is a definition
  that takes the object and returns it changed, with its result; a loop is a recursion on the list it
  walks. \<open>std::map\<close> and \<open>std::set\<close> are association lists sorted by key, an unordered container is a
  list that stands for the order in which it is walked. Integers are words of the source's width where
  they can wrap, else \<open>int\<close> or \<open>nat\<close>. Undefined behaviour, a failed assertion and an exception are
  \<open>None\<close>, and the properties show where it cannot happen.

  \<^bold>\<open>Bounds and fuel.\<close> Loops without a syntactic bound are partial functions in the option monad
  (\<open>Encode\<close>, \<open>ExpandPermissions\<close>, \<open>end_all_pve\<close>, \<open>fill_loop\<close>, \<open>bq_RemovePlayer\<close>, \<open>ep_loop\<close>,
  \<open>SpawnPool\<close>, \<open>DespawnPool\<close>, \<open>IsEmpty\<close>) or have fuel (\<open>CheckGroupRoles\<close>,
  the searches of the queue). For the former the properties show a result exists; for the latter the
  fuel is computed from the input and the properties show it is enough.

  \<^bold>\<open>Not modelled.\<close> Objects of the world, spells, maps and movement (float geometry, callbacks into every
  other part), scripts and AI (content), loading of tables, packets, sockets, the database wrapper,
  generated and third-party code. The making of the group of an accepted dungeon finder proposal and
  joining the finder drive players and groups and are left out, as are threat, reputation, trade,
  and of battlegrounds everything but the queue and its counters.
\<close>

end
